(* ===== verification/Prelude.thy ===== *)
theory Prelude
  imports Complex_Main "HOL-Library.Char_ord" "HOL-Library.List_Lexorder"
    "HOL-Library.Product_Lexorder"
begin

text \<open>
  What every component shares: the time stamps and numbers of the code, the string methods of
  Python it uses, insertion-ordered de-duplication (\<open>dict.fromkeys\<close>), SQL tables as lists of rows
  with the four statements the repositories issue, and two contracts as locales: a machine whose
  steps keep an invariant, and a table whose rows are updated only under a version or token guard.
\<close>

named_theorems tbl \<open>what the table statements do to the rows\<close>
named_theorems py \<open>evaluation of the string and list helpers\<close>

subsection \<open>Numbers and time stamps\<close>

text \<open>
  Python floats are modelled by exact rationals (rounding is not modelled), Python integers by
  \<open>int\<close>. A point in time is a number of microseconds since the epoch, in UTC.
\<close>

type_synonym pyfloat = rat
type_synonym instant = int

definition microseconds :: "int \<Rightarrow> int" where
  "microseconds s = s * 1000000"

definition day_length :: int where
  "day_length = 86400000000"

definition day_start :: "instant \<Rightarrow> instant" where
  "day_start t = t - t mod day_length"

text \<open>
  A time-stamp column holds the empty string or the ISO form of a UTC time. SQL and Python compare
  these strings; the empty string is below every ISO string, and ISO strings of UTC times compare
  as the times do.
\<close>

datatype stamp = Never | At instant

instantiation stamp :: linorder
begin

fun less_eq_stamp :: "stamp \<Rightarrow> stamp \<Rightarrow> bool" where
  "less_eq_stamp Never b = True"
| "less_eq_stamp (At s) Never = False"
| "less_eq_stamp (At s) (At t) = (s \<le> t)"

definition less_stamp :: "stamp \<Rightarrow> stamp \<Rightarrow> bool" where
  "less_stamp a b = (a \<le> b \<and> \<not> b \<le> (a::stamp))"

instance
proof
  fix a b c :: stamp
  show "(a < b) = (a \<le> b \<and> \<not> b \<le> a)" by (simp add: less_stamp_def)
  show "a \<le> a" by (cases a) simp_all
  show "a \<le> b \<Longrightarrow> b \<le> c \<Longrightarrow> a \<le> c" by (cases a; cases b; cases c) simp_all
  show "a \<le> b \<Longrightarrow> b \<le> a \<Longrightarrow> a = b" by (cases a; cases b) simp_all
  show "a \<le> b \<or> b \<le> a" by (cases a; cases b) auto
qed

end

lemma stamp_less_simps [simp]:
  "(Never < At t) = True" "(a < Never) = False" "(At s < At t) = (s < t)"
  by (cases a; auto simp: less_stamp_def)+

lemma day_start_le: "day_start t \<le> t"
  by (simp add: day_start_def day_length_def)

lemma day_start_idem [simp]: "day_start (day_start t) = day_start t"
  by (simp add: day_start_def day_length_def mod_diff_left_eq [symmetric])

subsection \<open>Strings\<close>

text \<open>
  A \<open>str\<close> whose content the code compares, folds or searches for ASCII markers is a \<open>string\<close> (its
  UTF-8 bytes, whose order is the order of code points). \<open>lower\<close> and \<open>upper\<close> fold ASCII letters.
\<close>

definition lower_char :: "char \<Rightarrow> char" where
  "lower_char c = (let n = of_char c :: nat in if 65 \<le> n \<and> n \<le> 90 then char_of (n + 32) else c)"

definition upper_char :: "char \<Rightarrow> char" where
  "upper_char c = (let n = of_char c :: nat in if 97 \<le> n \<and> n \<le> 122 then char_of (n - 32) else c)"

definition py_lower :: "string \<Rightarrow> string" where
  "py_lower = map lower_char"

definition py_upper :: "string \<Rightarrow> string" where
  "py_upper = map upper_char"

definition is_space_char :: "char \<Rightarrow> bool" where
  "is_space_char c = (let n = of_char c :: nat in (9 \<le> n \<and> n \<le> 13) \<or> (28 \<le> n \<and> n \<le> 32))"

definition py_strip :: "string \<Rightarrow> string" where
  "py_strip s = rev (dropWhile is_space_char (rev (dropWhile is_space_char s)))"

fun has_prefix :: "'a list \<Rightarrow> 'a list \<Rightarrow> bool" where
  "has_prefix [] ys = True"
| "has_prefix (x # xs) [] = False"
| "has_prefix (x # xs) (y # ys) = (x = y \<and> has_prefix xs ys)"

text \<open>An optional text as the code tests it: absent and empty are the same.\<close>

definition opt_text :: "string option \<Rightarrow> string" where
  "opt_text v = (case v of None \<Rightarrow> [] | Some s \<Rightarrow> s)"

text \<open>\<open>needle in haystack\<close> on strings.\<close>

fun contains :: "'a list \<Rightarrow> 'a list \<Rightarrow> bool" where
  "contains needle [] = (needle = [])"
| "contains needle (y # ys) = (has_prefix needle (y # ys) \<or> contains needle ys)"

lemma has_prefix_iff: "has_prefix xs ys = (\<exists>zs. ys = xs @ zs)"
  by (induction xs ys rule: has_prefix.induct) auto

lemma contains_iff: "contains needle ys = (\<exists>us vs. ys = us @ needle @ vs)"
proof (induction ys)
  case Nil
  then show ?case by auto
next
  case (Cons y ys)
  show ?case
  proof
    assume "contains needle (y # ys)"
    then consider "has_prefix needle (y # ys)" | "contains needle ys" by auto
    then show "\<exists>us vs. y # ys = us @ needle @ vs"
    proof cases
      case 1
      then obtain zs where "y # ys = [] @ needle @ zs" by (auto simp: has_prefix_iff)
      then show ?thesis by blast
    next
      case 2
      then obtain us vs where "ys = us @ needle @ vs" using Cons.IH by blast
      then have "y # ys = (y # us) @ needle @ vs" by simp
      then show ?thesis by blast
    qed
  next
    assume "\<exists>us vs. y # ys = us @ needle @ vs"
    then obtain us vs where eq: "y # ys = us @ needle @ vs" by blast
    show "contains needle (y # ys)"
    proof (cases us)
      case Nil
      with eq have "has_prefix needle (y # ys)" by (auto simp: has_prefix_iff)
      then show ?thesis by simp
    next
      case (Cons u us')
      with eq have "ys = us' @ needle @ vs" by simp
      with Cons.IH show ?thesis by auto
    qed
  qed
qed

subsection \<open>De-duplication that keeps the first occurrence\<close>

text \<open>\<open>tuple(dict.fromkeys(xs))\<close>.\<close>

fun fromkeys_from :: "'a list \<Rightarrow> 'a list \<Rightarrow> 'a list" where
  "fromkeys_from seen [] = []"
| "fromkeys_from seen (x # xs) =
     (if x \<in> set seen then fromkeys_from seen xs else x # fromkeys_from (x # seen) xs)"

definition fromkeys :: "'a list \<Rightarrow> 'a list" where
  "fromkeys = fromkeys_from []"

lemma set_fromkeys_from: "set (fromkeys_from seen xs) = set xs - set seen"
  by (induction seen xs rule: fromkeys_from.induct) auto

lemma distinct_fromkeys_from: "distinct (fromkeys_from seen xs)"
  by (induction seen xs rule: fromkeys_from.induct) (auto simp: set_fromkeys_from)

lemma set_fromkeys [simp]: "set (fromkeys xs) = set xs"
  by (simp add: fromkeys_def set_fromkeys_from)

lemma distinct_fromkeys [simp]: "distinct (fromkeys xs)"
  by (simp add: fromkeys_def distinct_fromkeys_from)

lemma fromkeys_Nil_iff [simp]: "fromkeys xs = [] \<longleftrightarrow> xs = []"
  by (metis set_empty set_fromkeys)

subsection \<open>Tables\<close>

text \<open>
  An SQL table is the list of its rows in insertion order: \<open>SELECT ... WHERE P\<close> followed by
  \<open>fetchone\<close> is \<open>tbl_find\<close>, \<open>UPDATE ... SET f WHERE P\<close> is \<open>tbl_update\<close> with the row count
  \<open>tbl_count\<close>, and \<open>INSERT OR IGNORE\<close> keeps a row whose key is taken.
\<close>

definition tbl_find :: "('r \<Rightarrow> bool) \<Rightarrow> 'r list \<Rightarrow> 'r option" where
  "tbl_find P t = List.find P t"

definition tbl_count :: "('r \<Rightarrow> bool) \<Rightarrow> 'r list \<Rightarrow> nat" where
  "tbl_count P t = length (filter P t)"

definition tbl_update :: "('r \<Rightarrow> bool) \<Rightarrow> ('r \<Rightarrow> 'r) \<Rightarrow> 'r list \<Rightarrow> 'r list" where
  "tbl_update P f t = map (\<lambda>r. if P r then f r else r) t"

definition tbl_insert_or_ignore :: "('r \<Rightarrow> 'k) \<Rightarrow> 'r \<Rightarrow> 'r list \<Rightarrow> 'r list" where
  "tbl_insert_or_ignore key r t = (if key r \<in> key ` set t then t else t @ [r])"

lemma tbl_find_SomeD: "tbl_find P t = Some r \<Longrightarrow> r \<in> set t \<and> P r"
  by (auto simp: tbl_find_def find_Some_iff in_set_conv_nth)

lemma tbl_find_None [tbl]: "tbl_find P t = None \<longleftrightarrow> (\<forall>r \<in> set t. \<not> P r)"
  by (auto simp: tbl_find_def find_None_iff)

lemma tbl_find_unique:
  assumes "distinct (map key t)" and "r \<in> set t" and "\<And>x. P x \<Longrightarrow> key x = key r" and "P r"
  shows "tbl_find P t = Some r"
proof (cases "tbl_find P t")
  case None
  with assms(2,4) show ?thesis by (auto simp: tbl_find_None)
next
  case (Some x)
  then have "x \<in> set t" "key x = key r" using assms(3) tbl_find_SomeD by fast+
  with assms(1,2) have "x = r" by (meson distinct_map inj_on_eq_iff)
  with Some show ?thesis by simp
qed

lemma length_tbl_update [tbl]: "length (tbl_update P f t) = length t"
  by (simp add: tbl_update_def)

lemma set_tbl_update [tbl]: "set (tbl_update P f t) = (\<lambda>r. if P r then f r else r) ` set t"
  by (simp add: tbl_update_def)

lemma tbl_update_keys [tbl]:
  "(\<And>r. P r \<Longrightarrow> key (f r) = key r) \<Longrightarrow> map key (tbl_update P f t) = map key t"
  by (simp add: tbl_update_def)

lemma tbl_update_none: "(\<And>r. r \<in> set t \<Longrightarrow> \<not> P r) \<Longrightarrow> tbl_update P f t = t"
  by (simp add: tbl_update_def map_idI)

lemma tbl_count_append [tbl]: "tbl_count P (t @ u) = tbl_count P t + tbl_count P u"
  by (simp add: tbl_count_def)

lemma tbl_count_Cons [tbl]: "tbl_count P (r # t) = (if P r then 1 else 0) + tbl_count P t"
  by (simp add: tbl_count_def)

lemma tbl_count_Nil [tbl]: "tbl_count P [] = 0"
  by (simp add: tbl_count_def)

lemma tbl_count_0 [tbl]: "tbl_count P t = 0 \<longleftrightarrow> (\<forall>r \<in> set t. \<not> P r)"
  by (auto simp: tbl_count_def filter_empty_conv)

lemma tbl_count_pos: "r \<in> set t \<Longrightarrow> P r \<Longrightarrow> 0 < tbl_count P t"
  using tbl_count_0 [of P t] by auto

lemma tbl_count_le: "(\<And>r. r \<in> set t \<Longrightarrow> P r \<Longrightarrow> Q r) \<Longrightarrow> tbl_count P t \<le> tbl_count Q t"
proof (induction t)
  case Nil
  then show ?case by (simp add: tbl_count_def)
next
  case (Cons a t)
  then have "tbl_count P t \<le> tbl_count Q t" by simp
  moreover have "P a \<Longrightarrow> Q a" using Cons.prems by simp
  ultimately show ?case by (simp add: tbl_count_Cons)
qed

lemma distinct_map_key_eq:
  assumes "distinct (map key t)" and "r \<in> set t" and "s \<in> set t" and "key r = key s"
  shows "r = s"
  using assms by (meson distinct_map inj_on_eq_iff)

text \<open>Under a key, an update addressed by that key touches at most one row.\<close>

lemma tbl_count_key:
  assumes "distinct (map key t)"
  shows "tbl_count (\<lambda>r. key r = k) t = (if k \<in> key ` set t then 1 else 0)"
  using assms by (induction t) (auto simp: tbl_count_def filter_empty_conv)

lemma tbl_count_guarded_le_1:
  assumes "distinct (map key t)" and "\<And>r. P r \<Longrightarrow> key r = k"
  shows "tbl_count P t \<le> 1"
proof -
  have "tbl_count P t \<le> tbl_count (\<lambda>r. key r = k) t"
    using assms(2) by (intro tbl_count_le) auto
  with assms(1) show ?thesis by (simp add: tbl_count_key split: if_splits)
qed

lemma tbl_count_guarded_eq_1:
  assumes "distinct (map key t)" and "\<And>r. P r \<Longrightarrow> key r = k" and "r \<in> set t" and "P r"
  shows "tbl_count P t = 1"
proof -
  have "tbl_count P t \<le> 1" using assms(1,2) by (rule tbl_count_guarded_le_1)
  moreover have "0 < tbl_count P t" using assms(3,4) by (rule tbl_count_pos)
  ultimately show ?thesis by simp
qed

text \<open>
  How a count over the rows moves when exactly the row \<open>r\<close> is rewritten: it loses \<open>r\<close> if \<open>Q r\<close>
  held and gains it if \<open>Q\<close> holds after.
\<close>

lemma tbl_count_update_one:
  assumes "distinct (map key t)" and "r \<in> set t" and "P r"
    and "\<And>x. P x \<Longrightarrow> key x = key r"
  shows "tbl_count Q (tbl_update P f t) + (if Q r then 1 else 0)
    = tbl_count Q t + (if Q (f r) then 1 else 0)"
  using assms(1,2)
proof (induction t)
  case Nil
  then show ?case by simp
next
  case (Cons a t)
  show ?case
  proof (cases "a = r")
    case True
    have "\<not> P x" if "x \<in> set t" for x
    proof
      assume "P x"
      then have "key x = key r" by (rule assms(4))
      with that True Cons.prems(1) show False by (auto simp: rev_image_eqI)
    qed
    then have "tbl_update P f t = t" by (rule tbl_update_none)
    with True assms(3) show ?thesis
      by (simp add: tbl_count_Cons) (simp add: tbl_update_def tbl_count_Cons)
  next
    case False
    with Cons.prems have r: "r \<in> set t" by simp
    have "\<not> P a"
    proof
      assume "P a"
      then have "key a = key r" by (rule assms(4))
      with Cons.prems r False show False by (metis distinct_map_key_eq list.set_intros(1,2))
    qed
    moreover have "tbl_count Q (tbl_update P f t) + (if Q r then 1 else 0)
        = tbl_count Q t + (if Q (f r) then 1 else 0)"
      using Cons.IH Cons.prems(1) r by simp
    ultimately show ?thesis by (simp add: tbl_update_def tbl_count_Cons)
  qed
qed

lemma tbl_insert_or_ignore_distinct [tbl]:
  "distinct (map key t) \<Longrightarrow> distinct (map key (tbl_insert_or_ignore key r t))"
  by (auto simp: tbl_insert_or_ignore_def)

lemma tbl_insert_or_ignore_set: "set t \<subseteq> set (tbl_insert_or_ignore key r t)"
  by (auto simp: tbl_insert_or_ignore_def)

subsection \<open>Contract: operations that keep an invariant\<close>

text \<open>
  A component is a set of operations on a state. Its invariant, once kept by every operation,
  holds after any sequence of operations in any order: the interleavings of any number of workers
  whose operations are transactions.
\<close>

locale kept_invariant =
  fixes step :: "'op \<Rightarrow> 's \<Rightarrow> 's" and inv :: "'s \<Rightarrow> bool"
  assumes step_keeps: "inv s \<Longrightarrow> inv (step x s)"
begin

lemma run_keeps: "inv s \<Longrightarrow> inv (fold step xs s)"
  by (induction xs arbitrary: s) (auto intro: step_keeps)

lemma run_keeps_prefix: "inv s \<Longrightarrow> inv (fold step (take n xs) s)"
  by (rule run_keeps)

end

text \<open>
  A relation between the states before and after one operation that is reflexive and transitive
  relates the ends of every run (frames, monotone counters, final states that stay).
\<close>

locale run_order =
  fixes step :: "'op \<Rightarrow> 's \<Rightarrow> 's" and ord :: "'s \<Rightarrow> 's \<Rightarrow> bool" and inv :: "'s \<Rightarrow> bool"
  assumes inv_step: "inv s \<Longrightarrow> inv (step x s)"
    and ord_refl: "ord s s"
    and ord_trans: "ord s t \<Longrightarrow> ord t u \<Longrightarrow> ord s u"
    and ord_step: "inv s \<Longrightarrow> ord s (step x s)"
begin

lemma run_inv: "inv s \<Longrightarrow> inv (fold step xs s)"
  by (induction xs arbitrary: s) (auto intro: inv_step)

lemma run_ord: "inv s \<Longrightarrow> ord s (fold step xs s)"
proof (induction xs arbitrary: s)
  case Nil
  then show ?case by (simp add: ord_refl)
next
  case (Cons x xs)
  then have "ord s (step x s)" and "ord (step x s) (fold step xs (step x s))"
    by (simp_all add: ord_step inv_step)
  then show ?case by (simp add: ord_trans)
qed

end

sublocale run_order \<subseteq> kept_invariant step inv
  by unfold_locales (rule inv_step)

subsection \<open>Contract: optimistic locking\<close>

text \<open>
  A writer holds a snapshot of a row and writes only if the row's version is still the snapshot's;
  a write raises the version by one.
\<close>

locale optimistic_lock =
  fixes key :: "'r \<Rightarrow> 'k" and ver :: "'r \<Rightarrow> int"
    and cas :: "'r \<Rightarrow> 'u \<Rightarrow> 'r list \<Rightarrow> 'r list option"
  assumes cas_fresh: "distinct (map key t) \<Longrightarrow> r \<in> set t \<Longrightarrow> key r = key snap \<Longrightarrow> ver r = ver snap
      \<Longrightarrow> \<exists>t'. cas snap u t = Some t'"
    and cas_stale: "(\<And>r. r \<in> set t \<Longrightarrow> key r = key snap \<Longrightarrow> ver r \<noteq> ver snap)
      \<Longrightarrow> cas snap u t = None"
    and cas_keys: "cas snap u t = Some t' \<Longrightarrow> map key t' = map key t"
    and cas_effect: "distinct (map key t) \<Longrightarrow> cas snap u t = Some t' \<Longrightarrow> r' \<in> set t' \<Longrightarrow>
      (key r' = key snap \<and> ver r' = ver snap + 1) \<or> (key r' \<noteq> key snap \<and> r' \<in> set t)"
begin

lemma succeeds_iff:
  assumes "distinct (map key t)"
  shows "cas snap u t \<noteq> None \<longleftrightarrow> (\<exists>r \<in> set t. key r = key snap \<and> ver r = ver snap)"
  using cas_fresh [OF assms, of _ snap u] cas_stale [of t snap u] by fastforce

text \<open>Of two writers holding the same version only the first gets through.\<close>

lemma second_writer_fails:
  assumes "distinct (map key t)" and "cas snap u t = Some t'"
    and "key snap2 = key snap" and "ver snap2 = ver snap"
  shows "cas snap2 u2 t' = None"
proof (rule cas_stale)
  fix r
  assume "r \<in> set t'" and "key r = key snap2"
  with cas_effect [OF assms(1,2)] assms(3) have "ver r = ver snap + 1" by auto
  with assms(4) show "ver r \<noteq> ver snap2" by simp
qed

lemma version_grows:
  assumes "distinct (map key t)" and "cas snap u t = Some t'"
    and "r \<in> set t" and "r' \<in> set t'" and "key r' = key r"
  shows "r' = r \<or> ver r' = ver r + 1"
proof (cases "key r' = key snap")
  case False
  with cas_effect [OF assms(1,2,4)] have "r' \<in> set t" by simp
  with assms(1,3,5) have "r' = r" by (metis distinct_map_key_eq)
  then show ?thesis ..
next
  case True
  obtain x where x: "x \<in> set t" "key x = key snap" "ver x = ver snap"
    using succeeds_iff [OF assms(1), of snap u] assms(2) by auto
  with True assms(1,3,5) have "x = r" by (metis distinct_map_key_eq)
  with True x cas_effect [OF assms(1,2,4)] show ?thesis by auto
qed

end

end
