(* ===== verification/KR_Types.thy ===== *)
theory KR_Types
  imports Prelude
begin

text \<open>
  The data of the key router (\<open>pdfword/key_router/enums.py\<close>, \<open>exceptions.py\<close>, \<open>models.py\<close> and the
  rows of its SQLite tables): enumerations with the strings they are stored as, the exceptions as
  values, the frozen dataclasses as records, and the database as one record of tables.
\<close>

subsection \<open>Enumerations\<close>

datatype key_router_mode = MODE_DISABLED | MODE_SHADOW | MODE_ACTIVE

datatype account_state =
  AS_ACTIVE | AS_DRAINING | AS_CLOSED | AS_SWITCHING | AS_DISABLED | AS_ERROR
| AS_QUARANTINED | AS_COOLDOWN

fun account_state_value :: "account_state \<Rightarrow> string" where
  "account_state_value AS_ACTIVE = ''ACTIVE''"
| "account_state_value AS_DRAINING = ''DRAINING''"
| "account_state_value AS_CLOSED = ''CLOSED''"
| "account_state_value AS_SWITCHING = ''SWITCHING''"
| "account_state_value AS_DISABLED = ''DISABLED''"
| "account_state_value AS_ERROR = ''ERROR''"
| "account_state_value AS_QUARANTINED = ''QUARANTINED''"
| "account_state_value AS_COOLDOWN = ''COOLDOWN''"

datatype reservation_state =
  RS_PENDING | RS_RESERVED | RS_DISPATCHING | RS_SENT | RS_SETTLED_SUCCESS | RS_SETTLED_FAILURE
| RS_UNCERTAIN | RS_EXPIRED | RS_RELEASED | RS_CANCELLED

fun reservation_state_value :: "reservation_state \<Rightarrow> string" where
  "reservation_state_value RS_PENDING = ''PENDING''"
| "reservation_state_value RS_RESERVED = ''RESERVED''"
| "reservation_state_value RS_DISPATCHING = ''DISPATCHING''"
| "reservation_state_value RS_SENT = ''SENT''"
| "reservation_state_value RS_SETTLED_SUCCESS = ''SETTLED_SUCCESS''"
| "reservation_state_value RS_SETTLED_FAILURE = ''SETTLED_FAILURE''"
| "reservation_state_value RS_UNCERTAIN = ''UNCERTAIN''"
| "reservation_state_value RS_EXPIRED = ''EXPIRED''"
| "reservation_state_value RS_RELEASED = ''RELEASED''"
| "reservation_state_value RS_CANCELLED = ''CANCELLED''"

datatype circuit_state = CS_CLOSED | CS_OPEN | CS_HALF_OPEN

datatype window_type = WT_MINUTE | WT_HOUR | WT_DAY | WT_MONTH | WT_PROVIDER

datatype modality = MOD_TEXT | MOD_IMAGE | MOD_PDF

fun modality_value :: "modality \<Rightarrow> string" where
  "modality_value MOD_TEXT = ''text''"
| "modality_value MOD_IMAGE = ''image''"
| "modality_value MOD_PDF = ''pdf''"

datatype error_category =
  EC_AUTHENTICATION | EC_PERMISSION | EC_RATE_LIMIT | EC_BILLING | EC_TIMEOUT | EC_NETWORK
| EC_PROVIDER_5XX | EC_INVALID_REQUEST | EC_UNSUPPORTED_MODALITY | EC_MODEL_UNAVAILABLE
| EC_UNKNOWN

datatype verification_status =
  VS_DECLARED | VS_VERIFIED | VS_FAILED_VERIFICATION | VS_STALE | VS_UNKNOWN

datatype privacy_classification = PV_PUBLIC | PV_INTERNAL | PV_SENSITIVE | PV_RESTRICTED

fun privacy_value :: "privacy_classification \<Rightarrow> string" where
  "privacy_value PV_PUBLIC = ''public''"
| "privacy_value PV_INTERNAL = ''internal''"
| "privacy_value PV_SENSITIVE = ''sensitive''"
| "privacy_value PV_RESTRICTED = ''restricted''"

datatype provider_error_type =
  AUTH_FAILED | PERMISSION_DENIED | RATE_LIMITED_TEMPORARY | QUOTA_EXHAUSTED | BILLING_REQUIRED
| INVALID_REQUEST | INVALID_PAYLOAD | UNSUPPORTED_CAPABILITY | MODEL_NOT_FOUND
| MODEL_UNAVAILABLE | PROVIDER_OVERLOADED | PROVIDER_UNAVAILABLE | NETWORK_ERROR
| CONNECTION_ERROR | TIMEOUT_BEFORE_SEND | TIMEOUT_AFTER_SEND | INVALID_RESPONSE
| EMPTY_RESPONSE | MALFORMED_RESPONSE | CONTENT_REFUSAL | SAFETY_REJECTION
| UNKNOWN_PROVIDER_ERROR

fun error_type_value :: "provider_error_type \<Rightarrow> string" where
  "error_type_value AUTH_FAILED = ''AUTH_FAILED''"
| "error_type_value PERMISSION_DENIED = ''PERMISSION_DENIED''"
| "error_type_value RATE_LIMITED_TEMPORARY = ''RATE_LIMITED_TEMPORARY''"
| "error_type_value QUOTA_EXHAUSTED = ''QUOTA_EXHAUSTED''"
| "error_type_value BILLING_REQUIRED = ''BILLING_REQUIRED''"
| "error_type_value INVALID_REQUEST = ''INVALID_REQUEST''"
| "error_type_value INVALID_PAYLOAD = ''INVALID_PAYLOAD''"
| "error_type_value UNSUPPORTED_CAPABILITY = ''UNSUPPORTED_CAPABILITY''"
| "error_type_value MODEL_NOT_FOUND = ''MODEL_NOT_FOUND''"
| "error_type_value MODEL_UNAVAILABLE = ''MODEL_UNAVAILABLE''"
| "error_type_value PROVIDER_OVERLOADED = ''PROVIDER_OVERLOADED''"
| "error_type_value PROVIDER_UNAVAILABLE = ''PROVIDER_UNAVAILABLE''"
| "error_type_value NETWORK_ERROR = ''NETWORK_ERROR''"
| "error_type_value CONNECTION_ERROR = ''CONNECTION_ERROR''"
| "error_type_value TIMEOUT_BEFORE_SEND = ''TIMEOUT_BEFORE_SEND''"
| "error_type_value TIMEOUT_AFTER_SEND = ''TIMEOUT_AFTER_SEND''"
| "error_type_value INVALID_RESPONSE = ''INVALID_RESPONSE''"
| "error_type_value EMPTY_RESPONSE = ''EMPTY_RESPONSE''"
| "error_type_value MALFORMED_RESPONSE = ''MALFORMED_RESPONSE''"
| "error_type_value CONTENT_REFUSAL = ''CONTENT_REFUSAL''"
| "error_type_value SAFETY_REJECTION = ''SAFETY_REJECTION''"
| "error_type_value UNKNOWN_PROVIDER_ERROR = ''UNKNOWN_PROVIDER_ERROR''"

datatype error_scope =
  SC_REQUEST | SC_KEY | SC_ACCOUNT | SC_MODEL | SC_PROVIDER | SC_ORGANIZATION | SC_GLOBAL
| SC_UNKNOWN

subsection \<open>Exceptions\<close>

text \<open>
  \<open>exceptions.py\<close>, and the built-in and SQLite exceptions the modelled code raises or lets pass.
\<close>

datatype kr_error =
  KeyRouterConfigurationError string
| KeyRouterUnavailable string
| QuotaExceeded string
| InvalidStateTransition account_state account_state
| FencingTokenError string
| UnsupportedCapability string
| ProviderDispatchError string
| ValueError string
| KeyError string
| RuntimeError string
| IntegrityError string
| OverflowError string

subsection \<open>Dataclasses and table rows\<close>

text \<open>A field declared as \<open>Enum | str\<close>.\<close>

datatype 'e enum_or_str = EnumV 'e | StrV string

record provider_account =
  acc_account_id :: string
  acc_provider :: string
  acc_pool_id :: string
  acc_display_name :: string
  acc_secret_ref :: string
  acc_enabled :: bool
  acc_environment :: string
  acc_region :: string
  acc_project_id :: string
  acc_tenant_id :: string
  acc_priority :: int
  acc_weight :: int
  acc_allows_free :: bool
  acc_allows_paid :: bool
  acc_allows_vision :: bool
  acc_allows_text :: bool
  acc_monthly_cost_limit :: pyfloat
  acc_daily_cost_limit :: pyfloat
  acc_daily_request_limit :: int
  acc_daily_token_limit :: int
  acc_max_concurrency :: int
  acc_metadata :: "(string \<times> string) list" \<comment> \<open>the entries whose value is a string\<close>
  acc_created_at :: stamp
  acc_updated_at :: stamp
  acc_version :: int
  acc_account_state :: account_state
  acc_organization_id :: string
  acc_allowed_privacy :: "string list"
  acc_cooldown_until :: stamp

record account_runtime =
  rt_router_id :: string
  rt_provider :: string
  rt_pool_id :: string
  rt_state :: account_state
  rt_active_account_id :: string
  rt_pending_account_id :: string
  rt_account_epoch :: int
  rt_switch_id :: string
  rt_drain_deadline :: stamp
  rt_closed_at :: stamp
  rt_switch_started_at :: stamp
  rt_cooldown_until :: stamp
  rt_last_error_code :: string
  rt_last_error_at :: stamp
  rt_version :: int
  rt_updated_at :: stamp

record quota_runtime =
  q_provider :: string
  q_pool_id :: string
  q_account_id :: string
  q_model :: string
  q_window_type :: window_type
  q_window_started_at :: stamp
  q_request_limit :: int
  q_token_limit :: int
  q_cost_limit :: pyfloat
  q_reserved_requests :: int
  q_reserved_input_tokens :: int
  q_reserved_output_tokens :: int
  q_reserved_cost :: pyfloat
  q_consumed_requests :: int
  q_consumed_input_tokens :: int
  q_consumed_output_tokens :: int
  q_consumed_cost :: pyfloat
  q_cooldown_until :: stamp
  q_circuit_state :: circuit_state
  q_consecutive_failures :: int
  q_last_success_at :: stamp
  q_last_failure_at :: stamp
  q_version :: int
  q_updated_at :: stamp

record request_reservation =
  rsv_reservation_id :: string
  rsv_idempotency_key :: string
  rsv_provider :: string
  rsv_pool_id :: string
  rsv_account_id :: string
  rsv_model :: string
  rsv_state :: reservation_state
  rsv_reservation_token :: string
  rsv_created_at :: stamp
  rsv_expires_at :: stamp
  rsv_reserved_requests :: int
  rsv_estimated_input_tokens :: int
  rsv_estimated_output_tokens :: int
  rsv_estimated_cost :: pyfloat
  rsv_settled_at :: stamp
  rsv_actual_input_tokens :: int
  rsv_actual_output_tokens :: int
  rsv_actual_cost :: pyfloat
  rsv_error_code :: string
  rsv_request_id :: string
  rsv_parent_request_id :: string
  rsv_attempt_id :: string
  rsv_provider_model_id :: string
  rsv_policy_id :: string
  rsv_reserved_input_tokens :: int
  rsv_reserved_output_tokens :: int
  rsv_reserved_cost :: pyfloat
  rsv_request_count_consumed :: bool
  rsv_token_cost_consumed :: bool
  rsv_monetary_cost_consumed :: bool
  rsv_dispatched_at :: stamp
  rsv_sent_at :: stamp
  rsv_fencing_token :: int
  rsv_uncertainty_reason :: string

record request_context =
  ctx_request_id :: string
  ctx_operation_id :: string
  ctx_task_type :: string
  ctx_modality :: "modality enum_or_str"
  ctx_requested_model :: string
  ctx_allowed_providers :: "string list"
  ctx_free_only :: bool
  ctx_max_cost :: pyfloat
  ctx_estimated_input_tokens :: int
  ctx_estimated_output_tokens :: int
  ctx_estimated_cost :: "pyfloat option"
  ctx_page_quality :: "pyfloat option"
  ctx_document_type :: string
  ctx_requires_vision :: bool
  ctx_requires_structured_output :: bool
  ctx_router_id :: string
  ctx_pool_id :: string
  ctx_canonical_model_id :: string
  ctx_policy_id :: string
  ctx_mime_type :: string
  ctx_payload_bytes :: int
  ctx_image_width :: int
  ctx_image_height :: int
  ctx_image_count :: int
  ctx_privacy_classification :: "privacy_classification enum_or_str"
  ctx_deadline_at :: stamp
  ctx_teacher_role :: string
  ctx_region_type :: string
  ctx_required_training_output_policy_status :: string

definition normalized_modality :: "request_context \<Rightarrow> string" where
  "normalized_modality c = py_lower (py_strip
     (case ctx_modality c of EnumV m \<Rightarrow> modality_value m | StrV s \<Rightarrow> s))"

definition normalized_privacy :: "request_context \<Rightarrow> string" where
  "normalized_privacy c = py_lower (py_strip
     (case ctx_privacy_classification c of EnumV p \<Rightarrow> privacy_value p | StrV s \<Rightarrow> s))"

record selection_decision =
  sd_mode :: key_router_mode
  sd_selected_account :: "provider_account option"
  sd_provider :: string
  sd_pool_id :: string
  sd_model :: string
  sd_decision_reason :: string
  sd_eligible_count :: int
  sd_rejected :: "(string \<times> string) list" \<comment> \<open>account or endpoint id, reason\<close>
  sd_score :: pyfloat
  sd_secret_fingerprint :: string
  sd_endpoint_id :: string
  sd_canonical_model_id :: string
  sd_reason_codes :: "string list"

record dispatch_result =
  dr_text :: string
  dr_provider :: string
  dr_provider_model_id :: string
  dr_account_id :: string
  dr_attempts :: nat
  dr_used_local_result :: bool
  dr_manual_review_required :: bool
  dr_final_error_type :: string

record circuit_row =
  cb_circuit_id :: string
  cb_level :: string
  cb_provider :: string
  cb_provider_model_id :: string
  cb_account_id :: string
  cb_state :: circuit_state
  cb_failure_count :: int
  cb_success_count :: int
  cb_window_started_at :: stamp
  cb_opened_at :: stamp
  cb_cooldown_until :: stamp
  cb_half_open_in_flight :: int
  cb_version :: int
  cb_updated_at :: stamp

end
