(* ===== verification/KR_Machine.thy ===== *)
theory KR_Machine
  imports KR_Types
begin

text \<open>
  The account state machine and the switch protocol of the key router: \<open>state_machine.py\<close>, the
  runtime table of \<open>repository.py\<close> (\<open>ensure_runtime\<close>, \<open>compare_and_set_runtime\<close>) and the switch
  operations of \<open>service.py\<close>. Each operation reads the row in one transaction and writes it in
  another, so workers interleave between the two; the second half models them as a step relation.
\<close>

subsection \<open>Allowed transitions\<close>

fun allowed_account_transitions :: "account_state \<Rightarrow> account_state list" where
  "allowed_account_transitions AS_ACTIVE =
     [AS_DRAINING, AS_DISABLED, AS_ERROR, AS_QUARANTINED, AS_COOLDOWN]"
| "allowed_account_transitions AS_DRAINING = [AS_CLOSED, AS_ERROR, AS_QUARANTINED]"
| "allowed_account_transitions AS_CLOSED = [AS_SWITCHING, AS_DISABLED]"
| "allowed_account_transitions AS_SWITCHING = [AS_ACTIVE, AS_ERROR, AS_CLOSED]"
| "allowed_account_transitions AS_DISABLED = [AS_SWITCHING, AS_ACTIVE]"
| "allowed_account_transitions AS_ERROR =
     [AS_CLOSED, AS_DISABLED, AS_SWITCHING, AS_QUARANTINED]"
| "allowed_account_transitions AS_QUARANTINED = [AS_DISABLED, AS_ACTIVE]"
| "allowed_account_transitions AS_COOLDOWN = [AS_ACTIVE, AS_DISABLED, AS_QUARANTINED]"

definition validate_transition :: "account_state \<Rightarrow> account_state \<Rightarrow> kr_error + unit" where
  "validate_transition old new =
     (if old = new then Inr ()
      else if new \<notin> set (allowed_account_transitions old)
      then Inl (InvalidStateTransition old new)
      else Inr ())"

definition legal_move :: "account_state \<Rightarrow> account_state \<Rightarrow> bool" where
  "legal_move old new \<longleftrightarrow> old = new \<or> new \<in> set (allowed_account_transitions old)"

lemma validate_transition_Inr [simp]: "validate_transition old new = Inr u \<longleftrightarrow> legal_move old new"
  by (auto simp: validate_transition_def legal_move_def)

lemma validate_transition_Inl [simp]:
  "validate_transition old new = Inl e \<longleftrightarrow> \<not> legal_move old new \<and> e = InvalidStateTransition old new"
  by (auto simp: validate_transition_def legal_move_def)

subsection \<open>The runtime table\<close>

type_synonym runtime_key = "string \<times> string \<times> string"
type_synonym runtime_table = "account_runtime list"

definition runtime_key :: "account_runtime \<Rightarrow> runtime_key" where
  "runtime_key r = (rt_router_id r, rt_provider r, rt_pool_id r)"

definition new_runtime :: "runtime_key \<Rightarrow> account_state \<Rightarrow> instant \<Rightarrow> account_runtime" where
  "new_runtime k st now =
     \<lparr>rt_router_id = fst k, rt_provider = fst (snd k), rt_pool_id = snd (snd k), rt_state = st,
      rt_active_account_id = '''', rt_pending_account_id = '''', rt_account_epoch = 0,
      rt_switch_id = '''', rt_drain_deadline = Never, rt_closed_at = Never,
      rt_switch_started_at = Never, rt_cooldown_until = Never, rt_last_error_code = '''',
      rt_last_error_at = Never, rt_version = 0, rt_updated_at = At now\<rparr>"

definition get_runtime :: "runtime_key \<Rightarrow> runtime_table \<Rightarrow> account_runtime option" where
  "get_runtime k t = tbl_find (\<lambda>r. runtime_key r = k) t"

definition ensure_runtime ::
  "runtime_key \<Rightarrow> account_state \<Rightarrow> instant \<Rightarrow> runtime_table
    \<Rightarrow> kr_error + (runtime_table \<times> account_runtime)" where
  "ensure_runtime k st now t =
     (let t' = tbl_insert_or_ignore runtime_key (new_runtime k st now) t
      in case get_runtime k t' of
           None \<Rightarrow> Inl (RuntimeError ''Account runtime insert failed'')
         | Some r \<Rightarrow> Inr (t', r))"

text \<open>The keyword arguments of \<open>compare_and_set_runtime\<close>; \<open>None\<close> keeps the snapshot's value.\<close>

record runtime_update =
  up_new_state :: account_state
  up_active_account_id :: "string option"
  up_pending_account_id :: "string option"
  up_switch_id :: "string option"
  up_account_epoch :: "int option"
  up_drain_deadline :: "stamp option"
  up_closed_at :: "stamp option"
  up_switch_started_at :: "stamp option"
  up_last_error_code :: string

definition default_update :: "account_state \<Rightarrow> runtime_update" where
  "default_update st = \<lparr>up_new_state = st, up_active_account_id = None,
     up_pending_account_id = None, up_switch_id = None, up_account_epoch = None,
     up_drain_deadline = None, up_closed_at = None, up_switch_started_at = None,
     up_last_error_code = ''''\<rparr>"

definition or_else :: "'a option \<Rightarrow> 'a \<Rightarrow> 'a" where
  "or_else v d = (case v of None \<Rightarrow> d | Some x \<Rightarrow> x)"

lemma or_else_simps [simp]: "or_else None d = d" "or_else (Some x) d = x"
  by (simp_all add: or_else_def)

definition write_runtime ::
  "account_runtime \<Rightarrow> runtime_update \<Rightarrow> instant \<Rightarrow> account_runtime \<Rightarrow> account_runtime" where
  "write_runtime snap u now row = row\<lparr>
     rt_state := up_new_state u,
     rt_active_account_id := or_else (up_active_account_id u) (rt_active_account_id snap),
     rt_pending_account_id := or_else (up_pending_account_id u) (rt_pending_account_id snap),
     rt_account_epoch := or_else (up_account_epoch u) (rt_account_epoch snap),
     rt_switch_id := or_else (up_switch_id u) (rt_switch_id snap),
     rt_drain_deadline := or_else (up_drain_deadline u) (rt_drain_deadline snap),
     rt_closed_at := or_else (up_closed_at u) (rt_closed_at snap),
     rt_switch_started_at := or_else (up_switch_started_at u) (rt_switch_started_at snap),
     rt_last_error_code := up_last_error_code u,
     rt_last_error_at := (if up_last_error_code u \<noteq> '''' then At now else rt_last_error_at snap),
     rt_version := rt_version snap + 1,
     rt_updated_at := At now\<rparr>"

definition same_version :: "account_runtime \<Rightarrow> account_runtime \<Rightarrow> bool" where
  "same_version snap r \<longleftrightarrow> runtime_key r = runtime_key snap \<and> rt_version r = rt_version snap"

definition compare_and_set_runtime ::
  "account_runtime \<Rightarrow> runtime_update \<Rightarrow> instant \<Rightarrow> runtime_table
    \<Rightarrow> kr_error + (runtime_table \<times> account_runtime)" where
  "compare_and_set_runtime snap u now t =
     (let t' = tbl_update (same_version snap) (write_runtime snap u now) t
      in if tbl_count (same_version snap) t \<noteq> 1
         then Inl (FencingTokenError ''Runtime was updated by another worker'')
         else case get_runtime (runtime_key snap) t' of
                None \<Rightarrow> Inl (RuntimeError ''Runtime disappeared after update'')
              | Some r \<Rightarrow> Inr (t', r))"

lemma runtime_key_write [simp]: "runtime_key (write_runtime snap u now row) = runtime_key row"
  by (simp add: runtime_key_def write_runtime_def)

lemma rt_write_simps [simp]:
  "rt_version (write_runtime snap u now row) = rt_version snap + 1"
  "rt_state (write_runtime snap u now row) = up_new_state u"
  "rt_switch_id (write_runtime snap u now row) = or_else (up_switch_id u) (rt_switch_id snap)"
  "rt_account_epoch (write_runtime snap u now row) =
     or_else (up_account_epoch u) (rt_account_epoch snap)"
  by (simp_all add: write_runtime_def)

lemma runtime_key_new [simp]: "runtime_key (new_runtime k st now) = k"
  by (simp add: runtime_key_def new_runtime_def)

lemma keys_update_runtime [simp]:
  "map runtime_key (tbl_update (same_version snap) (write_runtime snap u now) t) = map runtime_key t"
  by (simp add: tbl_update_keys)

lemma get_runtime_SomeD: "get_runtime k t = Some r \<Longrightarrow> r \<in> set t \<and> runtime_key r = k"
  by (auto simp: get_runtime_def dest: tbl_find_SomeD)

lemma get_runtime_eq:
  assumes "distinct (map runtime_key t)" and "r \<in> set t"
  shows "get_runtime (runtime_key r) t = Some r"
  unfolding get_runtime_def using assms by (intro tbl_find_unique [where key = runtime_key]) auto

text \<open>The insert half of \<open>ensure_runtime\<close> never fails, and the row it returns is in the table.\<close>

lemma ensure_runtime_ok:
  assumes "distinct (map runtime_key t)"
  obtains t' r where "ensure_runtime k st now t = Inr (t', r)" "r \<in> set t'" "runtime_key r = k"
    "set t \<subseteq> set t'" "distinct (map runtime_key t')"
    "\<And>x. x \<in> set t' \<Longrightarrow> runtime_key x \<noteq> k \<Longrightarrow> x \<in> set t"
    "k \<in> runtime_key ` set t \<Longrightarrow> t' = t"
proof -
  let ?t = "tbl_insert_or_ignore runtime_key (new_runtime k st now) t"
  have dist: "distinct (map runtime_key ?t)"
    using assms by (rule tbl_insert_or_ignore_distinct)
  have "k \<in> runtime_key ` set ?t"
    by (auto simp: tbl_insert_or_ignore_def)
  then obtain r where r: "r \<in> set ?t" "runtime_key r = k" by auto
  then have "get_runtime k ?t = Some r" using dist get_runtime_eq by blast
  then have res: "ensure_runtime k st now t = Inr (?t, r)"
    by (simp add: ensure_runtime_def Let_def)
  show ?thesis
    using res r tbl_insert_or_ignore_set dist
  proof (rule that)
    show "x \<in> set t" if "x \<in> set ?t" "runtime_key x \<noteq> k" for x
      using that by (auto simp: tbl_insert_or_ignore_def split: if_splits)
    show "?t = t" if "k \<in> runtime_key ` set t"
      using that by (simp add: tbl_insert_or_ignore_def)
  qed
qed

text \<open>
  \<open>compare_and_set_runtime\<close> succeeds exactly when the snapshot's version is still the row's, and
  then rewrites that row alone.
\<close>

lemma cas_runtime_ok:
  assumes "distinct (map runtime_key t)" and "r \<in> set t" and "same_version snap r"
  shows "compare_and_set_runtime snap u now t
    = Inr (tbl_update (same_version snap) (write_runtime snap u now) t, write_runtime snap u now r)"
proof -
  let ?t = "tbl_update (same_version snap) (write_runtime snap u now) t"
  have one: "tbl_count (same_version snap) t = 1"
    using assms by (intro tbl_count_guarded_eq_1 [where key = runtime_key and k = "runtime_key snap"])
      (auto simp: same_version_def)
  have "write_runtime snap u now r \<in> set ?t"
    using assms(2,3) by (force simp: set_tbl_update)
  moreover have "distinct (map runtime_key ?t)" using assms(1) by simp
  ultimately have "get_runtime (runtime_key (write_runtime snap u now r)) ?t
      = Some (write_runtime snap u now r)"
    by (rule get_runtime_eq [rotated])
  moreover have "runtime_key r = runtime_key snap" using assms(3) by (simp add: same_version_def)
  ultimately show ?thesis using one by (simp add: compare_and_set_runtime_def Let_def)
qed

lemma cas_runtime_stale:
  assumes "\<And>r. r \<in> set t \<Longrightarrow> \<not> same_version snap r"
  shows "compare_and_set_runtime snap u now t
    = Inl (FencingTokenError ''Runtime was updated by another worker'')"
proof -
  have "tbl_count (same_version snap) t = 0" using assms by (simp add: tbl_count_0)
  then show ?thesis by (simp add: compare_and_set_runtime_def)
qed

text \<open>The optimistic-lock contract, on the runtime table.\<close>

definition runtime_cas ::
  "account_runtime \<Rightarrow> (runtime_update \<times> instant) \<Rightarrow> runtime_table \<Rightarrow> runtime_table option" where
  "runtime_cas snap u t =
     (case compare_and_set_runtime snap (fst u) (snd u) t of Inl _ \<Rightarrow> None | Inr (t', _) \<Rightarrow> Some t')"

lemma cas_runtime_Inr_iff:
  assumes "distinct (map runtime_key t)"
  shows "compare_and_set_runtime snap u now t = Inr (t', r') \<longleftrightarrow>
    (\<exists>r \<in> set t. same_version snap r \<and> r' = write_runtime snap u now r
       \<and> t' = tbl_update (same_version snap) (write_runtime snap u now) t)"
proof
  assume l: "compare_and_set_runtime snap u now t = Inr (t', r')"
  then obtain r where "r \<in> set t" "same_version snap r"
    using cas_runtime_stale [of t snap u now] by auto
  with l cas_runtime_ok [OF assms] show "\<exists>r \<in> set t. same_version snap r
      \<and> r' = write_runtime snap u now r
      \<and> t' = tbl_update (same_version snap) (write_runtime snap u now) t" by auto
next
  assume "\<exists>r \<in> set t. same_version snap r \<and> r' = write_runtime snap u now r
      \<and> t' = tbl_update (same_version snap) (write_runtime snap u now) t"
  with cas_runtime_ok [OF assms] show "compare_and_set_runtime snap u now t = Inr (t', r')" by auto
qed

lemma cas_runtime_Inr_update:
  "compare_and_set_runtime snap u now t = Inr (t', r')
    \<Longrightarrow> t' = tbl_update (same_version snap) (write_runtime snap u now) t"
  by (simp add: compare_and_set_runtime_def Let_def split: if_splits option.splits)

lemma runtime_cas_SomeD:
  "runtime_cas snap u t = Some t' \<Longrightarrow>
    t' = tbl_update (same_version snap) (write_runtime snap (fst u) (snd u)) t
    \<and> (\<exists>r \<in> set t. same_version snap r)"
  using cas_runtime_stale [of t snap "fst u" "snd u"]
  by (auto simp: runtime_cas_def dest!: cas_runtime_Inr_update split: sum.splits)

interpretation rt_lock: optimistic_lock runtime_key rt_version runtime_cas
proof (unfold_locales, goal_cases)
  case (1 t r snap u)
  then show ?case
    using cas_runtime_ok [of t r snap "fst u" "snd u"] by (simp add: runtime_cas_def same_version_def)
next
  case (2 t snap u)
  then show ?case
    using cas_runtime_stale [of t snap "fst u" "snd u"] by (auto simp: runtime_cas_def same_version_def)
next
  case (3 snap u t t')
  then show ?case by (auto dest!: runtime_cas_SomeD)
next
  case (4 t snap u t' r')
  then have t': "t' = tbl_update (same_version snap) (write_runtime snap (fst u) (snd u)) t"
    using runtime_cas_SomeD by blast
  obtain x where x: "x \<in> set t" "same_version snap x"
    using 4(2) runtime_cas_SomeD by blast
  then have only: "same_version snap y" if "y \<in> set t" "runtime_key y = runtime_key snap" for y
    using that 4(1) distinct_map_key_eq [of runtime_key t x y] by (simp add: same_version_def)
  from 4(3) obtain y where y: "y \<in> set t"
    "r' = (if same_version snap y then write_runtime snap (fst u) (snd u) y else y)"
    by (auto simp: t' set_tbl_update)
  show ?case
  proof (cases "same_version snap y")
    case True
    with y show ?thesis by (simp add: same_version_def)
  next
    case False
    with y only show ?thesis by auto
  qed
qed

subsection \<open>The switch operations\<close>

text \<open>What each operation of \<open>service.py\<close> asks for, given the runtime it has read.\<close>

datatype switch_op =
  StartDrain int                \<comment> \<open>\<open>drain_seconds\<close>\<close>
| CloseDrained
| BeginSwitch string string     \<comment> \<open>\<open>pending_account_id\<close>, the fresh \<open>uuid4\<close> switch id\<close>
| CompleteSwitch string int     \<comment> \<open>\<open>switch_id\<close>, \<open>account_epoch\<close>\<close>
| FailSwitch string             \<comment> \<open>\<open>error_code\<close>\<close>

definition guarded :: "account_state \<Rightarrow> account_state \<Rightarrow> runtime_update \<Rightarrow> kr_error + runtime_update" where
  "guarded old new u = (case validate_transition old new of Inl e \<Rightarrow> Inl e | Inr _ \<Rightarrow> Inr u)"

fun plan_switch :: "switch_op \<Rightarrow> instant \<Rightarrow> account_runtime \<Rightarrow> kr_error + runtime_update" where
  "plan_switch (StartDrain secs) now r =
     guarded (rt_state r) AS_DRAINING
       ((default_update AS_DRAINING)\<lparr>up_drain_deadline := Some (At (now + microseconds (max 0 secs)))\<rparr>)"
| "plan_switch CloseDrained now r =
     guarded (rt_state r) AS_CLOSED
       ((default_update AS_CLOSED)\<lparr>up_closed_at := Some (At now), up_active_account_id := Some ''''\<rparr>)"
| "plan_switch (BeginSwitch pending sid) now r =
     guarded (rt_state r) AS_SWITCHING
       ((default_update AS_SWITCHING)\<lparr>up_pending_account_id := Some pending, up_switch_id := Some sid,
          up_account_epoch := Some (rt_account_epoch r + 1), up_switch_started_at := Some (At now)\<rparr>)"
| "plan_switch (CompleteSwitch sid ep) now r =
     (if rt_switch_id r \<noteq> sid \<or> rt_account_epoch r \<noteq> ep then Inl (QuotaExceeded ''stale_switch'')
      else guarded (rt_state r) AS_ACTIVE
        ((default_update AS_ACTIVE)\<lparr>up_active_account_id := Some (rt_pending_account_id r),
           up_pending_account_id := Some ''''\<rparr>))"
| "plan_switch (FailSwitch code) now r =
     guarded (rt_state r) AS_ERROR ((default_update AS_ERROR)\<lparr>up_last_error_code := code\<rparr>)"

text \<open>
  The handlers. The insert of \<open>ensure_runtime\<close> is committed on its own, so it stays when the
  transition is refused.
\<close>

definition run_switch ::
  "runtime_key \<Rightarrow> switch_op \<Rightarrow> instant \<Rightarrow> runtime_table \<Rightarrow> runtime_table \<times> (kr_error + account_runtime)" where
  "run_switch k op now t =
     (case ensure_runtime k (case op of StartDrain _ \<Rightarrow> AS_ACTIVE | _ \<Rightarrow> AS_DISABLED) now t of
        Inl e \<Rightarrow> (t, Inl e)
      | Inr (t', r) \<Rightarrow>
          (case plan_switch op now r of
             Inl e \<Rightarrow> (t', Inl e)
           | Inr u \<Rightarrow>
               (case compare_and_set_runtime r u now t' of
                  Inl e \<Rightarrow> (t', Inl e)
                | Inr (t'', r') \<Rightarrow> (t'', Inr r'))))"

definition start_drain ::
  "runtime_key \<Rightarrow> int \<Rightarrow> instant \<Rightarrow> runtime_table \<Rightarrow> runtime_table \<times> (kr_error + account_runtime)" where
  "start_drain k secs now t = run_switch k (StartDrain secs) now t"

definition close_drained ::
  "runtime_key \<Rightarrow> instant \<Rightarrow> runtime_table \<Rightarrow> runtime_table \<times> (kr_error + account_runtime)" where
  "close_drained k now t = run_switch k CloseDrained now t"

definition begin_switch ::
  "runtime_key \<Rightarrow> string \<Rightarrow> string \<Rightarrow> instant \<Rightarrow> runtime_table \<Rightarrow> runtime_table \<times> (kr_error + account_runtime)" where
  "begin_switch k pending sid now t = run_switch k (BeginSwitch pending sid) now t"

definition complete_switch ::
  "runtime_key \<Rightarrow> string \<Rightarrow> int \<Rightarrow> instant \<Rightarrow> runtime_table \<Rightarrow> runtime_table \<times> (kr_error + account_runtime)" where
  "complete_switch k sid ep now t = run_switch k (CompleteSwitch sid ep) now t"

definition fail_switch ::
  "runtime_key \<Rightarrow> string \<Rightarrow> instant \<Rightarrow> runtime_table \<Rightarrow> runtime_table \<times> (kr_error + account_runtime)" where
  "fail_switch k code now t = run_switch k (FailSwitch code) now t"

fun switch_target :: "switch_op \<Rightarrow> account_state" where
  "switch_target (StartDrain _) = AS_DRAINING"
| "switch_target CloseDrained = AS_CLOSED"
| "switch_target (BeginSwitch _ _) = AS_SWITCHING"
| "switch_target (CompleteSwitch _ _) = AS_ACTIVE"
| "switch_target (FailSwitch _) = AS_ERROR"

lemma guarded_Inr [simp]: "guarded old new u = Inr v \<longleftrightarrow> legal_move old new \<and> v = u"
  by (auto simp: guarded_def validate_transition_def legal_move_def)

text \<open>A plan that is accepted asks for the operation's target, from a state that allows it.\<close>

lemma plan_switch_state:
  "plan_switch op now r = Inr u \<Longrightarrow> up_new_state u = switch_target op \<and> legal_move (rt_state r) (up_new_state u)"
  by (cases op) (auto simp: default_update_def split: if_splits)

lemma plan_switch_epoch:
  "plan_switch op now r = Inr u \<Longrightarrow>
    or_else (up_account_epoch u) (rt_account_epoch r) \<in> {rt_account_epoch r, rt_account_epoch r + 1}"
  by (cases op) (auto simp: default_update_def split: if_splits)

subsection \<open>Interleaved workers\<close>

text \<open>
  Any number of workers share the table. A worker reads a row (inserting it if it is missing) and
  keeps the snapshot; later it plans an operation on the snapshot and writes with
  \<open>compare_and_set_runtime\<close>, or gives up. Between the two any other worker may act.
\<close>

record runtime_system =
  sys_rows :: runtime_table
  sys_held :: "nat \<Rightarrow> account_runtime option"

definition initial_system :: runtime_system where
  "initial_system = \<lparr>sys_rows = [], sys_held = (\<lambda>_. None)\<rparr>"

inductive worker_step :: "runtime_system \<Rightarrow> runtime_system \<Rightarrow> bool" where
  worker_read: "ensure_runtime k st now (sys_rows s) = Inr (t, r) \<Longrightarrow>
     worker_step s (s\<lparr>sys_rows := t, sys_held := (sys_held s)(w := Some r)\<rparr>)"
| worker_write: "sys_held s w = Some r \<Longrightarrow> plan_switch op now r = Inr u \<Longrightarrow>
     compare_and_set_runtime r u now (sys_rows s) = Inr (t, r') \<Longrightarrow>
     worker_step s (s\<lparr>sys_rows := t, sys_held := (sys_held s)(w := None)\<rparr>)"
| worker_refused: "sys_held s w = Some r \<Longrightarrow> plan_switch op now r = Inl e \<Longrightarrow>
     worker_step s (s\<lparr>sys_held := (sys_held s)(w := None)\<rparr>)"
| worker_stale: "sys_held s w = Some r \<Longrightarrow> plan_switch op now r = Inr u \<Longrightarrow>
     compare_and_set_runtime r u now (sys_rows s) = Inl e \<Longrightarrow>
     worker_step s (s\<lparr>sys_held := (sys_held s)(w := None)\<rparr>)"

inductive_cases worker_stepE: "worker_step s t"

inductive worker_reachable :: "runtime_system \<Rightarrow> bool" where
  reach_start: "worker_reachable initial_system"
| reach_step: "worker_reachable s \<Longrightarrow> worker_step s t \<Longrightarrow> worker_reachable t"

text \<open>
  A snapshot whose version is still the row's is the row: this is what makes the version check a
  sufficient guard.
\<close>

definition snapshot_ok :: "runtime_table \<Rightarrow> account_runtime \<Rightarrow> bool" where
  "snapshot_ok t snap \<longleftrightarrow> (\<exists>r \<in> set t. runtime_key r = runtime_key snap
     \<and> rt_version snap \<le> rt_version r \<and> (rt_version snap = rt_version r \<longrightarrow> r = snap))"

definition system_inv :: "runtime_system \<Rightarrow> bool" where
  "system_inv s \<longleftrightarrow> distinct (map runtime_key (sys_rows s)) \<and>
     (\<forall>w snap. sys_held s w = Some snap \<longrightarrow> snapshot_ok (sys_rows s) snap)"

lemma system_invD:
  "system_inv s \<Longrightarrow> distinct (map runtime_key (sys_rows s))"
  "system_inv s \<Longrightarrow> sys_held s w = Some snap \<Longrightarrow> snapshot_ok (sys_rows s) snap"
  by (auto simp: system_inv_def)

lemma snapshot_ok_mono: "snapshot_ok t snap \<Longrightarrow> set t \<subseteq> set t' \<Longrightarrow> snapshot_ok t' snap"
  by (auto simp: snapshot_ok_def)

lemma snapshot_ok_cas:
  assumes "snapshot_ok t snap" and "distinct (map runtime_key t)"
    and "compare_and_set_runtime r u now t = Inr (t', r')"
  shows "snapshot_ok t' snap"
proof -
  from assms(1) obtain x where x: "x \<in> set t" "runtime_key x = runtime_key snap"
    "rt_version snap \<le> rt_version x" "rt_version snap = rt_version x \<longrightarrow> x = snap"
    by (auto simp: snapshot_ok_def)
  from assms(3) have t': "t' = tbl_update (same_version r) (write_runtime r u now) t"
    by (rule cas_runtime_Inr_update)
  show ?thesis
  proof (cases "same_version r x")
    case True
    then have "write_runtime r u now x \<in> set t'"
      using x(1) by (force simp: t' set_tbl_update)
    moreover have "rt_version x = rt_version r" using True by (simp add: same_version_def)
    ultimately show ?thesis
      unfolding snapshot_ok_def using x by (intro bexI [of _ "write_runtime r u now x"]) simp_all
  next
    case False
    then have "x \<in> set t'" using x(1) by (force simp: t' set_tbl_update)
    with x show ?thesis by (auto simp: snapshot_ok_def)
  qed
qed

text \<open>
  What one step does to the rows: an old row stays, or is rewritten at the next version by a legal
  move from its own state, with its epoch kept or raised by one; any other row is new.
\<close>

definition rows_evolve :: "runtime_table \<Rightarrow> runtime_table \<Rightarrow> bool" where
  "rows_evolve t t' \<longleftrightarrow> (\<forall>x \<in> set t. \<exists>y \<in> set t'. runtime_key y = runtime_key x \<and>
     (y = x \<or> rt_version y = rt_version x + 1 \<and> legal_move (rt_state x) (rt_state y)
        \<and> rt_account_epoch x \<le> rt_account_epoch y))"

lemma rows_evolve_superset: "set t \<subseteq> set t' \<Longrightarrow> rows_evolve t t'"
  by (auto simp: rows_evolve_def)

lemma cas_current_row:
  assumes "snapshot_ok t r" and "distinct (map runtime_key t)" and "x \<in> set t" and "same_version r x"
  shows "x = r"
proof -
  from assms(1) obtain z where z: "z \<in> set t" "runtime_key z = runtime_key r"
    "rt_version r = rt_version z \<longrightarrow> z = r"
    by (auto simp: snapshot_ok_def)
  have "x = z"
    using assms(2,3,4) z distinct_map_key_eq [of runtime_key t x z] by (simp add: same_version_def)
  with z assms(4) show ?thesis by (simp add: same_version_def)
qed

lemma write_evolves:
  assumes "snapshot_ok t r" and "distinct (map runtime_key t)"
    and "plan_switch op now r = Inr u" and "compare_and_set_runtime r u now t = Inr (t', r')"
  shows "rows_evolve t t'"
  unfolding rows_evolve_def
proof
  fix x
  assume x: "x \<in> set t"
  from assms(4) have t': "t' = tbl_update (same_version r) (write_runtime r u now) t"
    by (rule cas_runtime_Inr_update)
  show "\<exists>y \<in> set t'. runtime_key y = runtime_key x \<and>
     (y = x \<or> rt_version y = rt_version x + 1 \<and> legal_move (rt_state x) (rt_state y)
        \<and> rt_account_epoch x \<le> rt_account_epoch y)"
  proof (cases "same_version r x")
    case False
    then have "x \<in> set t'" using x by (force simp: t' set_tbl_update)
    then show ?thesis by blast
  next
    case True
    with assms(1,2) x have "x = r" by (rule cas_current_row)
    have "write_runtime r u now x \<in> set t'"
      using True x by (force simp: t' set_tbl_update)
    then show ?thesis
      using \<open>x = r\<close> plan_switch_state [OF assms(3)] plan_switch_epoch [OF assms(3)]
      by (intro bexI [of _ "write_runtime r u now x"]) auto
  qed
qed

lemma worker_step_inv:
  assumes "worker_step s t" and "system_inv s"
  shows "system_inv t \<and> rows_evolve (sys_rows s) (sys_rows t)"
  using assms
proof (induction rule: worker_step.induct)
  case (worker_read k st now s t r w)
  note inv = system_invD [OF worker_read.prems]
  obtain t2 r2 where e: "ensure_runtime k st now (sys_rows s) = Inr (t2, r2)" "r2 \<in> set t2"
    "set (sys_rows s) \<subseteq> set t2" "distinct (map runtime_key t2)"
    by (rule ensure_runtime_ok [OF inv(1), of k st now]) blast
  then have "t = t2" "r = r2" using worker_read.hyps by auto
  moreover have "snapshot_ok t2 r2" using e(2) by (auto simp: snapshot_ok_def)
  moreover have "snapshot_ok t2 snap" if "sys_held s v = Some snap" for v snap
    using inv(2) [OF that] e(3) by (rule snapshot_ok_mono)
  ultimately show ?case
    using e by (auto simp: system_inv_def intro: rows_evolve_superset)
next
  case (worker_write s w r op now u t r')
  note inv = system_invD [OF worker_write.prems]
  have r: "snapshot_ok (sys_rows s) r" using worker_write.hyps(1) by (rule inv(2))
  have "rows_evolve (sys_rows s) t"
    using r inv(1) worker_write.hyps(2,3) by (rule write_evolves)
  moreover have "distinct (map runtime_key t)"
    using inv(1) cas_runtime_Inr_update [OF worker_write.hyps(3)] by simp
  ultimately show ?case
    using inv snapshot_ok_cas [OF _ inv(1) worker_write.hyps(3)] by (auto simp: system_inv_def)
qed (auto simp: system_inv_def rows_evolve_superset)

lemma worker_reachable_inv: "worker_reachable s \<Longrightarrow> system_inv s"
proof (induction rule: worker_reachable.induct)
  case reach_start
  show ?case by (simp add: system_inv_def initial_system_def)
next
  case (reach_step s t)
  then show ?case by (simp add: worker_step_inv)
qed

lemma run_switch_ok:
  assumes "distinct (map runtime_key t)" and "r \<in> set t" and "runtime_key r = k"
    and "plan_switch op now r = Inr u"
  shows "run_switch k op now t
    = (tbl_update (same_version r) (write_runtime r u now) t, Inr (write_runtime r u now r))"
proof -
  obtain t' r' where e: "ensure_runtime k (case op of StartDrain _ \<Rightarrow> AS_ACTIVE | _ \<Rightarrow> AS_DISABLED) now t
      = Inr (t', r')" "r' \<in> set t'" "runtime_key r' = k" "k \<in> runtime_key ` set t \<Longrightarrow> t' = t"
    by (rule ensure_runtime_ok [OF assms(1), of k _ now]) blast
  have "t' = t" using e(4) assms(2,3) by blast
  moreover from this have "r' = r" using assms e distinct_map_key_eq by metis
  moreover have "same_version r r" by (simp add: same_version_def)
  ultimately show ?thesis
    using e(1) assms cas_runtime_ok [OF assms(1,2), of r u now] by (simp add: run_switch_def)
qed

lemma run_switch_result:
  assumes "distinct (map runtime_key t)" and "r \<in> set t" and "runtime_key r = k"
    and "plan_switch op now r = Inr u"
  shows "write_runtime r u now r \<in> set (fst (run_switch k op now t))"
    and "distinct (map runtime_key (fst (run_switch k op now t)))"
  using assms(1,2) by (auto simp: run_switch_ok [OF assms] set_tbl_update same_version_def)

subsection \<open>Properties\<close>

text \<open>
  C1. whatever the interleaving of workers, a row of the runtime table changes only by a transition
  that \<open>ALLOWED_ACCOUNT_TRANSITIONS\<close> allows from the state it really had, its version goes up by
  exactly one, and its epoch never goes down.
\<close>

theorem concurrent_moves_are_legal:
  assumes "worker_reachable s" and "worker_step s t"
    and "x \<in> set (sys_rows s)" and "y \<in> set (sys_rows t)" and "runtime_key y = runtime_key x"
  shows "y = x \<or> rt_version y = rt_version x + 1 \<and> legal_move (rt_state x) (rt_state y)
    \<and> rt_account_epoch x \<le> rt_account_epoch y"
proof -
  from assms(1) have "system_inv s" by (rule worker_reachable_inv)
  with assms(2) have t: "system_inv t" "rows_evolve (sys_rows s) (sys_rows t)"
    by (simp_all add: worker_step_inv)
  from t(2) assms(3) obtain z where z: "z \<in> set (sys_rows t)" "runtime_key z = runtime_key x"
    "z = x \<or> rt_version z = rt_version x + 1 \<and> legal_move (rt_state x) (rt_state z)
        \<and> rt_account_epoch x \<le> rt_account_epoch z"
    by (auto simp: rows_evolve_def)
  then have "z = y" using t(1) assms(4,5) by (metis system_invD(1) distinct_map_key_eq)
  with z(3) show ?thesis by simp
qed

text \<open>Steps on a table of one row, to build example runs.\<close>

lemma single_read_step:
  "worker_step \<lparr>sys_rows = [r], sys_held = h\<rparr> \<lparr>sys_rows = [r], sys_held = h(w := Some r)\<rparr>"
proof -
  have "ensure_runtime (runtime_key r) AS_DISABLED 0 [r] = Inr ([r], r)"
    by (simp add: ensure_runtime_def get_runtime_def tbl_find_def tbl_insert_or_ignore_def)
  then show ?thesis
    using worker_read [of "runtime_key r" AS_DISABLED 0 "\<lparr>sys_rows = [r], sys_held = h\<rparr>" "[r]" r w]
    by simp
qed

lemma single_write_step:
  assumes "h w = Some r" and "plan_switch op now r = Inr u"
  shows "worker_step \<lparr>sys_rows = [r], sys_held = h\<rparr>
    \<lparr>sys_rows = [write_runtime r u now r], sys_held = h(w := None)\<rparr>"
proof -
  have "compare_and_set_runtime r u now [r]
      = Inr (tbl_update (same_version r) (write_runtime r u now) [r], write_runtime r u now r)"
    by (rule cas_runtime_ok) (simp_all add: same_version_def)
  then have "compare_and_set_runtime r u now [r] = Inr ([write_runtime r u now r], write_runtime r u now r)"
    by (simp add: tbl_update_def same_version_def)
  then show ?thesis
    using worker_write [of "\<lparr>sys_rows = [r], sys_held = h\<rparr>" w r op now u "[write_runtime r u now r]"]
      assms by simp
qed

definition example_key :: runtime_key where
  "example_key = (''clouda-local'', ''openrouter'', ''primary'')"

definition example_update :: "string \<Rightarrow> int \<Rightarrow> runtime_update" where
  "example_update sid ep = (default_update AS_SWITCHING)\<lparr>up_pending_account_id := Some ''acct-2'',
     up_switch_id := Some sid, up_account_epoch := Some ep, up_switch_started_at := Some (At 7)\<rparr>"

lemma example_begin:
  "plan_switch (BeginSwitch ''acct-2'' sid) 7 (new_runtime example_key AS_DISABLED 5)
    = Inr (example_update sid 1)"
  by (simp add: new_runtime_def legal_move_def example_update_def)

definition first_switching :: account_runtime where
  "first_switching = write_runtime (new_runtime example_key AS_DISABLED 5) (example_update ''s1'' 1) 7
     (new_runtime example_key AS_DISABLED 5)"

definition failed_switching :: account_runtime where
  "failed_switching = write_runtime first_switching ((default_update AS_ERROR)\<lparr>up_last_error_code := ''x''\<rparr>)
     8 first_switching"

definition second_switching :: account_runtime where
  "second_switching = write_runtime failed_switching (example_update ''s2'' 2) 7 failed_switching"

lemmas example_rows = first_switching_def failed_switching_def second_switching_def
  example_update_def new_runtime_def write_runtime_def default_update_def

definition example_state ::
  "account_runtime \<Rightarrow> account_runtime option \<Rightarrow> account_runtime option \<Rightarrow> runtime_system" where
  "example_state r a b = \<lparr>sys_rows = [r], sys_held = (\<lambda>w. if w = 0 then a else if w = 1 then b else None)\<rparr>"

lemma example_read0: "worker_step (example_state r a b) (example_state r (Some r) b)"
  using single_read_step [of r "\<lambda>w. if w = 0 then a else if w = 1 then b else None" 0]
  by (simp add: example_state_def fun_upd_def cong: if_cong)

lemma example_read1: "worker_step (example_state r a b) (example_state r a (Some r))"
proof -
  have "(\<lambda>w::nat. if w = 0 then a else if w = 1 then b else None)(1 := Some r)
      = (\<lambda>w. if w = 0 then a else if w = 1 then Some r else None)" by auto
  then show ?thesis
    using single_read_step [of r "\<lambda>w. if w = 0 then a else if w = 1 then b else None" 1]
    by (simp only: example_state_def)
qed

lemma example_write0:
  assumes "plan_switch op now r = Inr u"
  shows "worker_step (example_state r (Some r) b) (example_state (write_runtime r u now r) None b)"
proof -
  have "(\<lambda>w::nat. if w = 0 then Some r else if w = 1 then b else None)(0 := None)
      = (\<lambda>w. if w = 0 then None else if w = 1 then b else None)" by auto
  then show ?thesis
    using single_write_step [of "\<lambda>w. if w = 0 then Some r else if w = 1 then b else None" 0 r op now u]
      assms by (simp only: example_state_def if_True simp_thms)
qed

lemma example_start: "worker_reachable (example_state (new_runtime example_key AS_DISABLED 5) None None)"
proof -
  let ?r = "new_runtime example_key AS_DISABLED 5"
  have "ensure_runtime example_key AS_DISABLED 5 (sys_rows initial_system) = Inr ([?r], ?r)"
    by (simp add: ensure_runtime_def get_runtime_def tbl_find_def tbl_insert_or_ignore_def
        initial_system_def)
  from reach_step [OF reach_start worker_read [OF this, of 0]]
  have r: "worker_reachable \<lparr>sys_rows = [?r], sys_held = (\<lambda>_. None)(0 := Some ?r)\<rparr>"
    by (simp add: initial_system_def)
  have "plan_switch (CompleteSwitch ''none'' 0) 5 ?r = Inl (QuotaExceeded ''stale_switch'')"
    by (simp add: new_runtime_def)
  from reach_step [OF r worker_refused [OF _ this, of _ 0]]
  have "worker_reachable \<lparr>sys_rows = [?r], sys_held = (\<lambda>_. None)\<rparr>" by (simp add: fun_upd_idem)
  moreover have "(\<lambda>w::nat. if w = 0 then None else if w = 1 then None else None)
      = (\<lambda>_. None :: account_runtime option)" by auto
  ultimately show ?thesis by (simp only: example_state_def)
qed

theorem concurrent_moves_are_legal_witness:
  "worker_step (example_state (new_runtime example_key AS_DISABLED 5) (Some (new_runtime example_key AS_DISABLED 5)) None)
     (example_state first_switching None None)
   \<and> legal_move AS_DISABLED (rt_state first_switching) \<and> rt_version first_switching = 1"
proof -
  let ?r = "new_runtime example_key AS_DISABLED 5"
  have a: "worker_reachable (example_state ?r (Some ?r) None)"
    by (rule reach_step [OF example_start example_read0])
  have b: "worker_step (example_state ?r (Some ?r) None) (example_state first_switching None None)"
    unfolding first_switching_def by (rule example_write0 [OF example_begin])
  have n: "first_switching \<noteq> ?r" by (simp add: example_rows)
  have f: "rt_version ?r = 0" "rt_state ?r = AS_DISABLED" by (simp_all add: new_runtime_def)
  have m: "?r \<in> set (sys_rows (example_state ?r (Some ?r) None))"
    "first_switching \<in> set (sys_rows (example_state first_switching None None))"
    "runtime_key first_switching = runtime_key ?r"
    by (simp_all add: example_state_def first_switching_def)
  show ?thesis using concurrent_moves_are_legal [OF a b m] b n f by simp
qed

subsection \<open>Superseded switches\<close>

inductive worker_run :: "runtime_system \<Rightarrow> runtime_system \<Rightarrow> bool" where
  run_refl: "worker_run s s"
| run_step: "worker_run s t \<Longrightarrow> worker_step t u \<Longrightarrow> worker_run s u"

lemma worker_run_reachable: "worker_run s t \<Longrightarrow> worker_reachable s \<Longrightarrow> worker_reachable t"
  by (induction rule: worker_run.induct) (auto intro: reach_step)

text \<open>The epoch a later state shows is at least the one an earlier state showed.\<close>

lemma worker_run_epoch:
  "worker_run s t \<Longrightarrow> worker_reachable s \<Longrightarrow> x \<in> set (sys_rows s) \<Longrightarrow>
    \<exists>y \<in> set (sys_rows t). runtime_key y = runtime_key x \<and> rt_account_epoch x \<le> rt_account_epoch y"
proof (induction rule: worker_run.induct)
  case (run_refl s)
  then show ?case by blast
next
  case (run_step s t u)
  from run_step obtain y where y: "y \<in> set (sys_rows t)" "runtime_key y = runtime_key x"
    "rt_account_epoch x \<le> rt_account_epoch y" by blast
  have "system_inv t"
    using run_step.hyps(1) run_step.prems(1) worker_run_reachable worker_reachable_inv by blast
  then have "rows_evolve (sys_rows t) (sys_rows u)" using run_step.hyps(2) worker_step_inv by blast
  with y(1) obtain z where "z \<in> set (sys_rows u)" "runtime_key z = runtime_key y"
    "z = y \<or> rt_account_epoch y \<le> rt_account_epoch z" by (auto simp: rows_evolve_def)
  with y show ?case by (intro bexI [of _ z]) auto
qed


text \<open>The run of the witness: begin \<open>s1\<close>, another worker reads it, \<open>s1\<close> fails, begin \<open>s2\<close>.\<close>

lemma superseding_run:
  "worker_reachable (example_state second_switching None (Some first_switching))"
proof -
  let ?r = "new_runtime example_key AS_DISABLED 5"
  have 1: "worker_reachable (example_state first_switching None None)"
    unfolding first_switching_def
    by (rule reach_step [OF reach_step [OF example_start example_read0] example_write0 [OF example_begin]])
  have 2: "worker_reachable (example_state first_switching None (Some first_switching))"
    by (rule reach_step [OF 1 example_read1])
  have f: "plan_switch (FailSwitch ''x'') 8 first_switching
      = Inr ((default_update AS_ERROR)\<lparr>up_last_error_code := ''x''\<rparr>)"
    by (simp add: example_rows legal_move_def)
  have 3: "worker_reachable (example_state failed_switching None (Some first_switching))"
    unfolding failed_switching_def
    by (rule reach_step [OF reach_step [OF 2 example_read0] example_write0 [OF f]])
  have g: "plan_switch (BeginSwitch ''acct-2'' ''s2'') 7 failed_switching = Inr (example_update ''s2'' 2)"
    by (simp add: example_rows legal_move_def)
  show ?thesis
    unfolding second_switching_def
    by (rule reach_step [OF reach_step [OF 3 example_read0] example_write0 [OF g]])
qed


subsection \<open>Lost updates and the normal cycle\<close>

text \<open>
  no update of the runtime table is lost. When two workers have read the same version of a row,
  then after the first has written, the write of the second is refused, whatever they write.
\<close>

theorem second_worker_is_fenced:
  assumes "distinct (map runtime_key t)"
    and "compare_and_set_runtime snap u now t = Inr (t', r')"
    and "runtime_key snap2 = runtime_key snap" and "rt_version snap2 = rt_version snap"
  shows "compare_and_set_runtime snap2 u2 now2 t'
    = Inl (FencingTokenError ''Runtime was updated by another worker'')"
proof -
  have first: "runtime_cas snap (u, now) t = Some t'" using assms(2) by (simp add: runtime_cas_def)
  have d: "distinct (map runtime_key t')" using assms(1) rt_lock.cas_keys [OF first] by simp
  have "runtime_cas snap2 (u2, now2) t' = None"
    using assms(1) first assms(3,4) by (rule rt_lock.second_writer_fails)
  then have "\<not> same_version snap2 r" if "r \<in> set t'" for r
    using rt_lock.succeeds_iff [OF d, of snap2 "(u2, now2)"] that by (auto simp: same_version_def)
  then show ?thesis by (rule cas_runtime_stale)
qed

theorem second_worker_is_fenced_witness:
  "compare_and_set_runtime (new_runtime example_key AS_DISABLED 5) (example_update ''s2'' 1) 8
     [first_switching] = Inl (FencingTokenError ''Runtime was updated by another worker'')"
proof -
  let ?r = "new_runtime example_key AS_DISABLED 5"
  have "compare_and_set_runtime ?r (example_update ''s1'' 1) 7 [?r]
      = Inr (tbl_update (same_version ?r) (write_runtime ?r (example_update ''s1'' 1) 7) [?r], first_switching)"
    unfolding first_switching_def by (rule cas_runtime_ok) (simp_all add: same_version_def)
  then have "compare_and_set_runtime ?r (example_update ''s1'' 1) 7 [?r] = Inr ([first_switching], first_switching)"
    by (simp add: tbl_update_def same_version_def first_switching_def)
  from second_worker_is_fenced [OF _ this refl refl] show ?thesis by simp
qed

lemma cycle_legal:
  "legal_move AS_ACTIVE AS_DRAINING" "legal_move AS_DRAINING AS_CLOSED"
  "legal_move AS_CLOSED AS_SWITCHING" "legal_move AS_SWITCHING AS_ACTIVE"
  by (simp_all add: legal_move_def)

lemma run_switch_chain:
  assumes "distinct (map runtime_key t)" and "r \<in> set t" and "runtime_key r = k"
    and "plan_switch op now r = Inr u"
  obtains t' where "run_switch k op now t = (t', Inr (write_runtime r u now r))"
    "distinct (map runtime_key t')" "write_runtime r u now r \<in> set t'"
    "runtime_key (write_runtime r u now r) = k"
  using run_switch_result [OF assms] run_switch_ok [OF assms] assms(3) that by simp

text \<open>
  the documented cycle \<open>ACTIVE \<rightarrow> DRAINING \<rightarrow> CLOSED \<rightarrow> SWITCHING \<rightarrow> ACTIVE\<close> goes through: from any
  active row the four operations succeed one after another, the pending account becomes the active
  one, no account stays pending, and the epoch has gone up by one.
\<close>

theorem switch_cycle_succeeds:
  assumes "distinct (map runtime_key t0)" and "r0 \<in> set t0" and "runtime_key r0 = k"
    and "rt_state r0 = AS_ACTIVE"
  shows "\<exists>t1 r1 t2 r2 t3 r3 t4 r4. start_drain k secs n1 t0 = (t1, Inr r1)
    \<and> close_drained k n2 t1 = (t2, Inr r2)
    \<and> begin_switch k pending sid n3 t2 = (t3, Inr r3)
    \<and> complete_switch k (rt_switch_id r3) (rt_account_epoch r3) n4 t3 = (t4, Inr r4)
    \<and> rt_state r4 = AS_ACTIVE \<and> rt_active_account_id r4 = pending
    \<and> rt_pending_account_id r4 = [] \<and> rt_account_epoch r4 = rt_account_epoch r0 + 1"
proof -
  note d = default_update_def write_runtime_def
  have "\<exists>u. plan_switch (StartDrain secs) n1 r0 = Inr u"
    using assms(4) by (simp add: cycle_legal)
  then obtain u1 where p1: "plan_switch (StartDrain secs) n1 r0 = Inr u1" ..
  obtain t1 where s1: "run_switch k (StartDrain secs) n1 t0 = (t1, Inr (write_runtime r0 u1 n1 r0))"
    "distinct (map runtime_key t1)" "write_runtime r0 u1 n1 r0 \<in> set t1"
    "runtime_key (write_runtime r0 u1 n1 r0) = k"
    by (rule run_switch_chain [OF assms(1-3) p1])
  let ?r1 = "write_runtime r0 u1 n1 r0"
  have st1: "rt_state ?r1 = AS_DRAINING" using p1 by (auto simp: d)
  then have "\<exists>u. plan_switch CloseDrained n2 ?r1 = Inr u" by (simp add: cycle_legal)
  then obtain u2 where p2: "plan_switch CloseDrained n2 ?r1 = Inr u2" ..
  obtain t2 where s2: "run_switch k CloseDrained n2 t1 = (t2, Inr (write_runtime ?r1 u2 n2 ?r1))"
    "distinct (map runtime_key t2)" "write_runtime ?r1 u2 n2 ?r1 \<in> set t2"
    "runtime_key (write_runtime ?r1 u2 n2 ?r1) = k"
    by (rule run_switch_chain [OF s1(2-4) p2])
  let ?r2 = "write_runtime ?r1 u2 n2 ?r1"
  have st2: "rt_state ?r2 = AS_CLOSED" using p2 by (auto simp: d)
  then have "\<exists>u. plan_switch (BeginSwitch pending sid) n3 ?r2 = Inr u" by (simp add: cycle_legal)
  then obtain u3 where p3: "plan_switch (BeginSwitch pending sid) n3 ?r2 = Inr u3" ..
  obtain t3 where s3: "run_switch k (BeginSwitch pending sid) n3 t2 = (t3, Inr (write_runtime ?r2 u3 n3 ?r2))"
    "distinct (map runtime_key t3)" "write_runtime ?r2 u3 n3 ?r2 \<in> set t3"
    "runtime_key (write_runtime ?r2 u3 n3 ?r2) = k"
    by (rule run_switch_chain [OF s2(2-4) p3])
  let ?r3 = "write_runtime ?r2 u3 n3 ?r2"
  have st3: "rt_state ?r3 = AS_SWITCHING" "rt_pending_account_id ?r3 = pending"
    "rt_account_epoch ?r3 = rt_account_epoch r0 + 1"
    using p1 p2 p3 by (auto simp: d)
  let ?c = "CompleteSwitch (rt_switch_id ?r3) (rt_account_epoch ?r3)"
  have "\<exists>u. plan_switch ?c n4 ?r3 = Inr u" using st3(1) by (simp add: cycle_legal)
  then obtain u4 where p4: "plan_switch ?c n4 ?r3 = Inr u4" ..
  obtain t4 where s4: "run_switch k ?c n4 t3 = (t4, Inr (write_runtime ?r3 u4 n4 ?r3))"
    by (rule run_switch_chain [OF s3(2-4) p4])
  have "rt_state (write_runtime ?r3 u4 n4 ?r3) = AS_ACTIVE
    \<and> rt_active_account_id (write_runtime ?r3 u4 n4 ?r3) = pending
    \<and> rt_pending_account_id (write_runtime ?r3 u4 n4 ?r3) = []
    \<and> rt_account_epoch (write_runtime ?r3 u4 n4 ?r3) = rt_account_epoch r0 + 1"
    using p4 st3 by (auto simp: d)
  with s1(1) s2(1) s3(1) s4 show ?thesis
    unfolding start_drain_def close_drained_def begin_switch_def complete_switch_def by blast
qed

theorem switch_cycle_succeeds_witness:
  "\<exists>t1 r1. start_drain example_key 30 6 [new_runtime example_key AS_ACTIVE 5] = (t1, Inr r1)"
  using switch_cycle_succeeds [of "[new_runtime example_key AS_ACTIVE 5]"
      "new_runtime example_key AS_ACTIVE 5" example_key 30 6 7 "''acct-2''" "''s1''" 8 9]
  by (auto simp: new_runtime_def runtime_key_def example_key_def)

end
