(* ===== verification/KR_Circuit.thy ===== *)
theory KR_Circuit
  imports KR_Types
begin

text \<open>
  The circuit breaker. First the pure helpers of \<open>circuit_breaker.py\<close>, then the persistent circuits
  of \<open>repository.py\<close> (table \<open>key_router_circuits\<close>): \<open>record_circuit_failure\<close>,
  \<open>acquire_half_open_probe\<close>, \<open>record_circuit_success\<close>, \<open>reset_circuit\<close>. Every operation runs in one
  \<open>BEGIN IMMEDIATE\<close> transaction, so any interleaving of workers is a sequence of operations.
\<close>

subsection \<open>The in-memory breaker\<close>

definition classify_error :: "int option \<Rightarrow> string \<Rightarrow> error_category" where
  "classify_error status message =
     (let msg = py_lower message in
      if status \<in> {Some 401, Some 403} \<or> contains ''auth'' msg
      then (if status = Some 401 then EC_AUTHENTICATION else EC_PERMISSION)
      else if status = Some 429 \<or> contains ''rate limit'' msg then EC_RATE_LIMIT
      else if contains ''billing'' msg \<or> contains ''quota'' msg then EC_BILLING
      else if (case status of Some n \<Rightarrow> 500 \<le> n \<and> n \<le> 599 | None \<Rightarrow> False) then EC_PROVIDER_5XX
      else if status = Some 408 \<or> contains ''timeout'' msg then EC_TIMEOUT
      else if (case status of Some n \<Rightarrow> 400 \<le> n \<and> n < 500 | None \<Rightarrow> False) then EC_INVALID_REQUEST
      else EC_UNKNOWN)"

definition after_failure ::
  "int \<Rightarrow> circuit_state \<Rightarrow> int \<Rightarrow> error_category \<Rightarrow> circuit_state \<times> int" where
  "after_failure failure_threshold st consecutive category =
     (if category = EC_INVALID_REQUEST then (st, consecutive)
      else let failures = consecutive + 1 in
        if failure_threshold \<le> failures then (CS_OPEN, failures) else (st, failures))"

definition state_for_time ::
  "circuit_state \<Rightarrow> instant option \<Rightarrow> instant \<Rightarrow> circuit_state" where
  "state_for_time st cooldown_until now =
     (case cooldown_until of
        Some c \<Rightarrow> (if st = CS_OPEN \<and> c \<le> now then CS_HALF_OPEN else st)
      | None \<Rightarrow> st)"

definition after_success :: "circuit_state \<Rightarrow> circuit_state \<times> int" where
  "after_success st = (if st \<in> {CS_HALF_OPEN, CS_CLOSED} then (CS_CLOSED, 0) else (st, 0))"

subsection \<open>Persistent circuits\<close>

type_synonym circuit_table = "circuit_row list"

text \<open>\<open>uuid5\<close> of the circuit's material is a parameter \<open>uuid5hex\<close>, a digest of a string.\<close>

definition circuit_id ::
  "(string \<Rightarrow> string) \<Rightarrow> string \<Rightarrow> string \<Rightarrow> string \<Rightarrow> string \<Rightarrow> string" where
  "circuit_id uuid5hex level provider model account =
     uuid5hex (level @ '':'' @ provider @ '':'' @ model @ '':'' @ account)"

definition find_circuit :: "string \<Rightarrow> circuit_table \<Rightarrow> circuit_row option" where
  "find_circuit cid t = tbl_find (\<lambda>r. cb_circuit_id r = cid) t"

definition new_circuit ::
  "string \<Rightarrow> string \<Rightarrow> string \<Rightarrow> string \<Rightarrow> string \<Rightarrow> instant \<Rightarrow> circuit_row" where
  "new_circuit cid level provider model account now =
     \<lparr>cb_circuit_id = cid, cb_level = level, cb_provider = provider, cb_provider_model_id = model,
      cb_account_id = account, cb_state = CS_CLOSED, cb_failure_count = 0, cb_success_count = 0,
      cb_window_started_at = Never, cb_opened_at = Never, cb_cooldown_until = Never,
      cb_half_open_in_flight = 0, cb_version = 0, cb_updated_at = At now\<rparr>"

text \<open>The limits that \<open>KeyRouterConfig\<close> passes to the circuit operations.\<close>

record circuit_limits =
  cl_failure_threshold :: int
  cl_open_seconds :: int
  cl_failure_window_seconds :: int
  cl_probe_limit :: int

definition window_expired :: "circuit_limits \<Rightarrow> instant \<Rightarrow> circuit_row \<Rightarrow> bool" where
  "window_expired cfg now r =
     (case cb_window_started_at r of
        Never \<Rightarrow> True
      | At w \<Rightarrow> microseconds (max 1 (cl_failure_window_seconds cfg)) < now - w)"

definition fail_circuit :: "circuit_limits \<Rightarrow> instant \<Rightarrow> circuit_row \<Rightarrow> circuit_row" where
  "fail_circuit cfg now r =
     (let reset_window = window_expired cfg now r;
          failures = (if reset_window then 1 else cb_failure_count r + 1);
          next_window_started = (if reset_window then At now else cb_window_started_at r);
          new_state = (if max 1 (cl_failure_threshold cfg) \<le> failures then CS_OPEN else cb_state r);
          cooldown = (if new_state = CS_OPEN
                      then At (now + microseconds (max 1 (cl_open_seconds cfg)))
                      else cb_cooldown_until r)
      in r\<lparr>cb_state := new_state, cb_failure_count := failures, cb_success_count := 0,
           cb_window_started_at := next_window_started,
           cb_opened_at := (if new_state = CS_OPEN then At now else cb_opened_at r),
           cb_cooldown_until := cooldown, cb_half_open_in_flight := 0,
           cb_version := cb_version r + 1, cb_updated_at := At now\<rparr>)"

text \<open>
  The insert is ignored when the circuit's id or its \<open>(level, provider, model, account)\<close> is taken;
  when only the latter is, the row is not found under the id and the code fails on it
  (\<open>TypeError\<close>, here \<open>RuntimeError\<close>) and rolls back.
\<close>

definition circuit_taken :: "circuit_row \<Rightarrow> circuit_row \<Rightarrow> bool" where
  "circuit_taken n r \<longleftrightarrow> cb_circuit_id r = cb_circuit_id n \<or>
     (cb_level r = cb_level n \<and> cb_provider r = cb_provider n
       \<and> cb_provider_model_id r = cb_provider_model_id n \<and> cb_account_id r = cb_account_id n)"

definition record_circuit_failure ::
  "(string \<Rightarrow> string) \<Rightarrow> circuit_limits \<Rightarrow> string \<Rightarrow> string \<Rightarrow> string \<Rightarrow> string \<Rightarrow> instant
    \<Rightarrow> circuit_table \<Rightarrow> kr_error + (circuit_table \<times> circuit_row)" where
  "record_circuit_failure uuid5hex cfg level provider model account now t =
     (let cid = circuit_id uuid5hex level provider model account;
          n = new_circuit cid level provider model account now;
          t1 = (if \<exists>r \<in> set t. circuit_taken n r then t else t @ [n])
      in case find_circuit cid t1 of
           None \<Rightarrow> Inl (RuntimeError ''TypeError'')
         | Some row \<Rightarrow>
             let t2 = tbl_update (\<lambda>r. cb_circuit_id r = cid) (\<lambda>_. fail_circuit cfg now row) t1
             in case find_circuit cid t2 of
                  None \<Rightarrow> Inl (RuntimeError ''TypeError'')
                | Some updated \<Rightarrow> Inr (t2, updated))"

definition half_open :: "instant \<Rightarrow> circuit_row \<Rightarrow> circuit_row" where
  "half_open now r = r\<lparr>cb_state := CS_HALF_OPEN, cb_half_open_in_flight := 0,
     cb_version := cb_version r + 1, cb_updated_at := At now\<rparr>"

definition take_probe :: "instant \<Rightarrow> circuit_row \<Rightarrow> circuit_row" where
  "take_probe now r = r\<lparr>cb_half_open_in_flight := cb_half_open_in_flight r + 1,
     cb_version := cb_version r + 1, cb_updated_at := At now\<rparr>"

definition acquire_half_open_probe ::
  "string \<Rightarrow> int \<Rightarrow> instant \<Rightarrow> circuit_table \<Rightarrow> circuit_table \<times> bool" where
  "acquire_half_open_probe cid probe_limit now t =
     (case find_circuit cid t of
        None \<Rightarrow> (t, True)
      | Some row \<Rightarrow>
          let expired = (cb_state row = CS_OPEN \<and> cb_cooldown_until row \<le> At now);
              t1 = (if expired
                    then tbl_update (\<lambda>r. cb_circuit_id r = cid \<and> cb_version r = cb_version row)
                           (half_open now) t
                    else t);
              state = (if expired then CS_HALF_OPEN else cb_state row)
          in if state = CS_CLOSED then (t1, True)
             else if state \<noteq> CS_HALF_OPEN then (t1, False)
             else let free = (\<lambda>r. cb_circuit_id r = cid \<and> cb_state r = CS_HALF_OPEN
                                  \<and> cb_half_open_in_flight r < max 1 probe_limit)
                  in (tbl_update free (take_probe now) t1, tbl_count free t1 = 1))"

definition succeed_circuit :: "int \<Rightarrow> instant \<Rightarrow> circuit_row \<Rightarrow> circuit_row" where
  "succeed_circuit success_threshold now r =
     (let successes = cb_success_count r + 1;
          closes = (max 1 success_threshold \<le> successes)
      in r\<lparr>cb_state := (if closes then CS_CLOSED else cb_state r),
           cb_success_count := (if closes then 0 else successes),
           cb_failure_count := (if closes then 0 else cb_failure_count r),
           cb_half_open_in_flight := max 0 (cb_half_open_in_flight r - 1),
           cb_cooldown_until := (if closes then Never else cb_cooldown_until r),
           cb_version := cb_version r + 1, cb_updated_at := At now\<rparr>)"

definition record_circuit_success ::
  "string \<Rightarrow> int \<Rightarrow> instant \<Rightarrow> circuit_table \<Rightarrow> kr_error + (circuit_table \<times> circuit_row)" where
  "record_circuit_success cid success_threshold now t =
     (case find_circuit cid t of
        None \<Rightarrow> Inl (KeyError ''Unknown circuit'')
      | Some row \<Rightarrow>
          let t1 = tbl_update (\<lambda>r. cb_circuit_id r = cid)
                     (\<lambda>_. succeed_circuit success_threshold now row) t
          in case find_circuit cid t1 of
               None \<Rightarrow> Inl (RuntimeError ''TypeError'')
             | Some updated \<Rightarrow> Inr (t1, updated))"

definition close_circuit :: "instant \<Rightarrow> circuit_row \<Rightarrow> circuit_row" where
  "close_circuit now r = r\<lparr>cb_state := CS_CLOSED, cb_failure_count := 0, cb_success_count := 0,
     cb_cooldown_until := Never, cb_half_open_in_flight := 0, cb_version := cb_version r + 1,
     cb_updated_at := At now\<rparr>"

definition reset_circuit ::
  "string \<Rightarrow> instant \<Rightarrow> circuit_table \<Rightarrow> kr_error + (circuit_table \<times> circuit_row)" where
  "reset_circuit cid now t =
     (let hit = (\<lambda>r. cb_circuit_id r = cid);
          t1 = tbl_update hit (close_circuit now) t
      in if tbl_count hit t \<noteq> 1 then Inl (KeyError ''Unknown circuit'')
         else case find_circuit cid t1 of
                None \<Rightarrow> Inl (KeyError ''Unknown circuit'')
              | Some row \<Rightarrow> Inr (t1, row))"

subsection \<open>One circuit at a time\<close>

text \<open>Under distinct ids, each operation rewrites exactly the addressed row.\<close>

definition put_circuit :: "string \<Rightarrow> (circuit_row \<Rightarrow> circuit_row) \<Rightarrow> circuit_table \<Rightarrow> circuit_table" where
  "put_circuit cid f t = tbl_update (\<lambda>r. cb_circuit_id r = cid) f t"

text \<open>What a probe request does to its row, and whether it is granted.\<close>

definition probe_row :: "int \<Rightarrow> instant \<Rightarrow> circuit_row \<Rightarrow> circuit_row" where
  "probe_row probe_limit now r =
     (let r1 = (if cb_state r = CS_OPEN \<and> cb_cooldown_until r \<le> At now then half_open now r else r)
      in if cb_state r1 = CS_HALF_OPEN \<and> cb_half_open_in_flight r1 < max 1 probe_limit
         then take_probe now r1 else r1)"

definition probe_granted :: "int \<Rightarrow> instant \<Rightarrow> circuit_row \<Rightarrow> bool" where
  "probe_granted probe_limit now r \<longleftrightarrow>
     cb_state r = CS_CLOSED
     \<or> cb_state r = CS_OPEN \<and> cb_cooldown_until r \<le> At now
     \<or> cb_state r = CS_HALF_OPEN \<and> cb_half_open_in_flight r < max 1 probe_limit"

lemma circuit_id_kept [simp]:
  "cb_circuit_id (fail_circuit cfg now r) = cb_circuit_id r"
  "cb_circuit_id (half_open now r) = cb_circuit_id r"
  "cb_circuit_id (take_probe now r) = cb_circuit_id r"
  "cb_circuit_id (succeed_circuit n now r) = cb_circuit_id r"
  "cb_circuit_id (close_circuit now r) = cb_circuit_id r"
  "cb_circuit_id (probe_row n now r) = cb_circuit_id r"
  by (simp_all add: fail_circuit_def half_open_def take_probe_def succeed_circuit_def
      close_circuit_def probe_row_def Let_def)

lemma find_circuit_SomeD: "find_circuit cid t = Some r \<Longrightarrow> r \<in> set t \<and> cb_circuit_id r = cid"
  by (auto simp: find_circuit_def dest: tbl_find_SomeD)

lemma find_circuit_eq:
  assumes "distinct (map cb_circuit_id t)" and "r \<in> set t"
  shows "find_circuit (cb_circuit_id r) t = Some r"
  unfolding find_circuit_def using assms by (intro tbl_find_unique [where key = cb_circuit_id]) auto

lemma find_circuit_None: "find_circuit cid t = None \<longleftrightarrow> cid \<notin> cb_circuit_id ` set t"
  by (auto simp: find_circuit_def tbl_find_None)

lemma put_circuit_keys:
  "(\<And>r. cb_circuit_id (f r) = cb_circuit_id r) \<Longrightarrow>
    map cb_circuit_id (put_circuit cid f t) = map cb_circuit_id t"
  by (simp add: put_circuit_def tbl_update_keys)

lemma put_circuit_cong:
  assumes "distinct (map cb_circuit_id t)" and "find_circuit cid t = Some r" and "f r = g r"
  shows "put_circuit cid f t = put_circuit cid g t"
proof -
  have "r \<in> set t" "cb_circuit_id r = cid" using assms(2) find_circuit_SomeD by auto
  then have "f x = g x" if "x \<in> set t" "cb_circuit_id x = cid" for x
    using that assms(1,3) distinct_map_key_eq [of cb_circuit_id t x r] by auto
  then show ?thesis by (simp add: put_circuit_def tbl_update_def)
qed

lemma tbl_update_put:
  assumes "distinct (map cb_circuit_id t)" and "find_circuit cid t = Some r"
    and "\<And>x. P x \<longleftrightarrow> cb_circuit_id x = cid \<and> Q x"
  shows "tbl_update P f t = (if Q r then put_circuit cid f t else t)"
proof -
  have r: "r \<in> set t" "cb_circuit_id r = cid" using assms(2) find_circuit_SomeD by auto
  then have "Q x = Q r" if "x \<in> set t" "cb_circuit_id x = cid" for x
    using that assms(1) distinct_map_key_eq [of cb_circuit_id t x r] by auto
  then show ?thesis
    by (auto simp: put_circuit_def tbl_update_def assms(3) intro!: map_idI)
qed

lemma tbl_count_put:
  assumes "distinct (map cb_circuit_id t)" and "find_circuit cid t = Some r"
    and "\<And>x. P x \<longleftrightarrow> cb_circuit_id x = cid \<and> Q x"
  shows "tbl_count P t = (if Q r then 1 else 0)"
proof -
  have r: "r \<in> set t" "cb_circuit_id r = cid" using assms(2) find_circuit_SomeD by auto
  show ?thesis
  proof (cases "Q r")
    case True
    have "tbl_count P t = 1"
      by (rule tbl_count_guarded_eq_1 [OF assms(1) _ r(1)]) (use assms(3) r True in auto)
    with True show ?thesis by simp
  next
    case False
    then have "\<not> P x" if "x \<in> set t" for x
      using that r assms(1,3) distinct_map_key_eq [of cb_circuit_id t x r] by auto
    with False show ?thesis by (simp add: tbl_count_0)
  qed
qed

lemma find_put:
  assumes "distinct (map cb_circuit_id t)" and "find_circuit cid t = Some r"
    and "\<And>x. cb_circuit_id (f x) = cb_circuit_id x"
  shows "find_circuit cid (put_circuit cid f t) = Some (f r)"
proof -
  have r: "r \<in> set t" "cb_circuit_id r = cid" using assms(2) find_circuit_SomeD by auto
  then have "f r \<in> set (put_circuit cid f t)" by (auto simp: put_circuit_def set_tbl_update)
  moreover have "distinct (map cb_circuit_id (put_circuit cid f t))"
    using assms(1,3) by (simp add: put_circuit_keys)
  ultimately show ?thesis using r assms(3) find_circuit_eq by metis
qed

lemma acquire_eq:
  assumes "distinct (map cb_circuit_id t)" and "find_circuit cid t = Some r"
  shows "acquire_half_open_probe cid n now t
    = (put_circuit cid (probe_row n now) t, probe_granted n now r)"
proof (cases "cb_state r = CS_OPEN \<and> cb_cooldown_until r \<le> At now")
  case True
  let ?t = "put_circuit cid (half_open now) t"
  have upd: "tbl_update (\<lambda>x. cb_circuit_id x = cid \<and> cb_version x = cb_version r) (half_open now) t = ?t"
    using tbl_update_put [OF assms, where Q = "\<lambda>x. cb_version x = cb_version r"] by simp
  have d: "distinct (map cb_circuit_id ?t)" using assms(1) by (simp add: put_circuit_keys)
  have f: "find_circuit cid ?t = Some (half_open now r)" using assms by (simp add: find_put)
  have q: "cb_state (half_open now r) = CS_HALF_OPEN \<and> cb_half_open_in_flight (half_open now r) < max 1 n"
    by (simp add: half_open_def)
  have "put_circuit cid (take_probe now) ?t = put_circuit cid (probe_row n now) t"
  proof -
    have "put_circuit cid (take_probe now) ?t = put_circuit cid (\<lambda>x. take_probe now (half_open now x)) t"
      by (simp add: put_circuit_def tbl_update_def)
    also have "\<dots> = put_circuit cid (probe_row n now) t"
      by (rule put_circuit_cong [OF assms]) (use True q in \<open>simp add: probe_row_def\<close>)
    finally show ?thesis .
  qed
  with True show ?thesis
    using tbl_update_put [OF d f, where Q = "\<lambda>x. cb_state x = CS_HALF_OPEN \<and> cb_half_open_in_flight x < max 1 n"]
      tbl_count_put [OF d f, where Q = "\<lambda>x. cb_state x = CS_HALF_OPEN \<and> cb_half_open_in_flight x < max 1 n"] q
    by (simp add: acquire_half_open_probe_def assms(2) upd probe_granted_def)
next
  case False
  have id: "put_circuit cid (probe_row n now) t = t" if "probe_row n now r = r"
  proof -
    have "put_circuit cid (probe_row n now) t = put_circuit cid (\<lambda>x. x) t"
      by (rule put_circuit_cong [OF assms]) (simp add: that)
    then show ?thesis by (simp add: put_circuit_def tbl_update_def)
  qed
  show ?thesis
  proof (cases "cb_state r")
    case CS_HALF_OPEN
    have "put_circuit cid (take_probe now) t = put_circuit cid (probe_row n now) t"
      if "cb_half_open_in_flight r < max 1 n"
      by (rule put_circuit_cong [OF assms]) (use that CS_HALF_OPEN in \<open>simp add: probe_row_def\<close>)
    then show ?thesis
      using False CS_HALF_OPEN id
        tbl_update_put [OF assms, where Q = "\<lambda>x. cb_state x = CS_HALF_OPEN \<and> cb_half_open_in_flight x < max 1 n"]
        tbl_count_put [OF assms, where Q = "\<lambda>x. cb_state x = CS_HALF_OPEN \<and> cb_half_open_in_flight x < max 1 n"]
      by (auto simp: acquire_half_open_probe_def assms(2) probe_granted_def probe_row_def)
  qed (use False id in \<open>auto simp: acquire_half_open_probe_def assms(2) probe_granted_def probe_row_def\<close>)
qed

lemma record_failure_eq:
  assumes "distinct (map cb_circuit_id t)"
    and "find_circuit (circuit_id uuid level p m a) t = Some r"
  shows "record_circuit_failure uuid cfg level p m a now t
    = Inr (put_circuit (circuit_id uuid level p m a) (fail_circuit cfg now) t, fail_circuit cfg now r)"
proof -
  let ?cid = "circuit_id uuid level p m a"
  have r: "r \<in> set t" "cb_circuit_id r = ?cid" using assms(2) find_circuit_SomeD by auto
  then have ex: "\<exists>x \<in> set t. circuit_taken (new_circuit ?cid level p m a now) x"
    by (auto simp: circuit_taken_def new_circuit_def)
  have "tbl_update (\<lambda>x. cb_circuit_id x = ?cid) (\<lambda>_. fail_circuit cfg now r) t
      = put_circuit ?cid (fail_circuit cfg now) t"
    unfolding put_circuit_def [symmetric] by (rule put_circuit_cong [OF assms]) simp
  then show ?thesis
    using ex find_put [OF assms, of "fail_circuit cfg now"]
    by (simp add: record_circuit_failure_def Let_def assms(2))
qed

lemma record_failure_new:
  assumes "\<And>x. x \<in> set t \<Longrightarrow> \<not> circuit_taken (new_circuit (circuit_id uuid level p m a) level p m a now) x"
  shows "record_circuit_failure uuid cfg level p m a now t
    = Inr (t @ [fail_circuit cfg now (new_circuit (circuit_id uuid level p m a) level p m a now)],
        fail_circuit cfg now (new_circuit (circuit_id uuid level p m a) level p m a now))"
proof -
  let ?cid = "circuit_id uuid level p m a"
  let ?n = "new_circuit ?cid level p m a now"
  have nf: "cb_circuit_id x \<noteq> ?cid" if "x \<in> set t" for x
    using assms [OF that] by (auto simp: circuit_taken_def new_circuit_def)
  have id: "cb_circuit_id ?n = ?cid" by (simp add: new_circuit_def)
  have find_end: "find_circuit ?cid (t @ [x]) = Some x" if "cb_circuit_id x = ?cid" for x
    using nf that by (induction t) (auto simp: find_circuit_def tbl_find_def)
  have "tbl_update (\<lambda>x. cb_circuit_id x = ?cid) (\<lambda>_. y) (t @ [?n]) = t @ [y]" for y
    using nf id by (auto simp: tbl_update_def intro: map_idI)
  moreover have "\<not> (\<exists>x \<in> set t. circuit_taken ?n x)" using assms by blast
  ultimately show ?thesis
    by (simp add: record_circuit_failure_def Let_def find_end id)
qed

lemma record_success_eq:
  assumes "distinct (map cb_circuit_id t)" and "find_circuit cid t = Some r"
  shows "record_circuit_success cid n now t
    = Inr (put_circuit cid (succeed_circuit n now) t, succeed_circuit n now r)"
proof -
  have "tbl_update (\<lambda>x. cb_circuit_id x = cid) (\<lambda>_. succeed_circuit n now r) t
      = put_circuit cid (succeed_circuit n now) t"
    unfolding put_circuit_def [symmetric] by (rule put_circuit_cong [OF assms]) simp
  then show ?thesis
    using find_put [OF assms, of "succeed_circuit n now"]
    by (simp add: record_circuit_success_def Let_def assms(2))
qed

subsection \<open>Sequences of operations\<close>

datatype circuit_op =
  CFail string string string string instant
| CProbe string instant
| CSuccess string int instant
| CReset string instant

text \<open>An operation that raises has rolled back.\<close>

fun circuit_step ::
  "(string \<Rightarrow> string) \<Rightarrow> circuit_limits \<Rightarrow> circuit_op \<Rightarrow> circuit_table \<Rightarrow> circuit_table" where
  "circuit_step uuid cfg (CFail level p m a now) t =
     (case record_circuit_failure uuid cfg level p m a now t of Inl _ \<Rightarrow> t | Inr (t', _) \<Rightarrow> t')"
| "circuit_step uuid cfg (CProbe cid now) t = fst (acquire_half_open_probe cid (cl_probe_limit cfg) now t)"
| "circuit_step uuid cfg (CSuccess cid n now) t =
     (case record_circuit_success cid n now t of Inl _ \<Rightarrow> t | Inr (t', _) \<Rightarrow> t')"
| "circuit_step uuid cfg (CReset cid now) t =
     (case reset_circuit cid now t of Inl _ \<Rightarrow> t | Inr (t', _) \<Rightarrow> t')"

definition circuit_ok :: "circuit_limits \<Rightarrow> circuit_row \<Rightarrow> bool" where
  "circuit_ok cfg r \<longleftrightarrow>
     0 \<le> cb_half_open_in_flight r \<and> cb_half_open_in_flight r \<le> max 1 (cl_probe_limit cfg)
     \<and> 0 \<le> cb_failure_count r
     \<and> (cb_state r = CS_OPEN \<longrightarrow> cb_cooldown_until r \<noteq> Never \<and> cb_opened_at r \<noteq> Never)
     \<and> (cb_state r = CS_CLOSED \<longrightarrow> cb_failure_count r < max 1 (cl_failure_threshold cfg))"

definition circuits_inv :: "circuit_limits \<Rightarrow> circuit_table \<Rightarrow> bool" where
  "circuits_inv cfg t \<longleftrightarrow> distinct (map cb_circuit_id t) \<and> (\<forall>r \<in> set t. circuit_ok cfg r)"

lemma new_circuit_ok: "circuit_ok cfg (new_circuit cid level p m a now)"
  by (auto simp: circuit_ok_def new_circuit_def le_max_iff_disj less_max_iff_disj)

lemma circuit_ok_rows:
  "circuit_ok cfg r \<Longrightarrow> circuit_ok cfg (fail_circuit cfg now r)"
  "circuit_ok cfg r \<Longrightarrow> circuit_ok cfg (probe_row (cl_probe_limit cfg) now r)"
  "circuit_ok cfg r \<Longrightarrow> circuit_ok cfg (succeed_circuit n now r)"
  "circuit_ok cfg r \<Longrightarrow> circuit_ok cfg (close_circuit now r)"
  by (auto simp: circuit_ok_def fail_circuit_def probe_row_def half_open_def take_probe_def
      succeed_circuit_def close_circuit_def Let_def split: if_splits)

lemma circuits_inv_put:
  assumes "circuits_inv cfg t" and "\<And>r. cb_circuit_id (f r) = cb_circuit_id r"
    and "\<And>r. circuit_ok cfg r \<Longrightarrow> circuit_ok cfg (f r)"
  shows "circuits_inv cfg (put_circuit cid f t)"
proof -
  have "map cb_circuit_id (put_circuit cid f t) = map cb_circuit_id t"
    using assms(2) by (rule put_circuit_keys)
  with assms show ?thesis
    by (auto simp: circuits_inv_def put_circuit_def set_tbl_update)
qed

lemma circuit_step_inv:
  assumes inv: "circuits_inv cfg t"
  shows "circuits_inv cfg (circuit_step uuid cfg x t)"
proof -
  have dist: "distinct (map cb_circuit_id t)" using inv by (simp add: circuits_inv_def)
  show ?thesis
  proof (cases x)
    case (CFail level p m a now)
    let ?cid = "circuit_id uuid level p m a"
    show ?thesis
    proof (cases "find_circuit ?cid t")
      case (Some r)
      then show ?thesis
        using CFail record_failure_eq [OF dist Some]
        by (simp add: circuits_inv_put inv circuit_ok_rows)
    next
      case None
      let ?n = "new_circuit ?cid level p m a now"
      show ?thesis
      proof (cases "\<exists>y \<in> set t. circuit_taken ?n y")
        case True
        then show ?thesis
          using CFail None inv by (simp add: record_circuit_failure_def Let_def)
      next
        case False
        then have "record_circuit_failure uuid cfg level p m a now t
            = Inr (t @ [fail_circuit cfg now ?n], fail_circuit cfg now ?n)"
          by (intro record_failure_new) blast
        moreover have "?cid \<notin> cb_circuit_id ` set t" using None by (simp add: find_circuit_None)
        ultimately show ?thesis
          using CFail inv circuit_ok_rows(1) [OF new_circuit_ok]
          by (auto simp: circuits_inv_def) (simp add: new_circuit_def)
      qed
    qed
  next
    case (CProbe cid now)
    show ?thesis
    proof (cases "find_circuit cid t")
      case None
      then show ?thesis using CProbe inv by (simp add: acquire_half_open_probe_def)
    next
      case (Some r)
      then show ?thesis
        using CProbe acquire_eq [OF dist Some] by (simp add: circuits_inv_put inv circuit_ok_rows)
    qed
  next
    case (CSuccess cid n now)
    show ?thesis
    proof (cases "find_circuit cid t")
      case None
      then show ?thesis using CSuccess inv by (simp add: record_circuit_success_def)
    next
      case (Some r)
      then show ?thesis
        using CSuccess record_success_eq [OF dist Some] by (simp add: circuits_inv_put inv circuit_ok_rows)
    qed
  next
    case (CReset cid now)
    have "circuits_inv cfg (put_circuit cid (close_circuit now) t)"
      by (simp add: circuits_inv_put inv circuit_ok_rows)
    then show ?thesis
      using CReset inv by (simp add: reset_circuit_def Let_def put_circuit_def split: option.splits)
  qed
qed

interpretation circuits: kept_invariant "circuit_step uuid cfg" "circuits_inv cfg"
  by unfold_locales (rule circuit_step_inv)

subsection \<open>What the breaker guarantees\<close>

text \<open>
  C3. In every table reached from the empty one by failures, probe requests, successes and resets, a
  circuit holds between 0 and \<open>max 1 probe_limit\<close> probe slots, an OPEN circuit carries its opening
  time and its cooldown, and a CLOSED one has fewer failures than the threshold.
\<close>

theorem circuit_rows_bounded:
  assumes "r \<in> set (fold (circuit_step uuid cfg) ops [])"
  shows "0 \<le> cb_half_open_in_flight r \<and> cb_half_open_in_flight r \<le> max 1 (cl_probe_limit cfg)
    \<and> (cb_state r = CS_OPEN \<longrightarrow> cb_cooldown_until r \<noteq> Never \<and> cb_opened_at r \<noteq> Never)
    \<and> (cb_state r = CS_CLOSED \<longrightarrow> cb_failure_count r < max 1 (cl_failure_threshold cfg))"
proof -
  have "circuits_inv cfg (fold (circuit_step uuid cfg) ops [])"
    by (rule circuits.run_keeps) (simp add: circuits_inv_def)
  with assms show ?thesis by (auto simp: circuits_inv_def circuit_ok_def)
qed

definition sample_limits :: circuit_limits where
  "sample_limits = \<lparr>cl_failure_threshold = 2, cl_open_seconds = 60, cl_failure_window_seconds = 300,
     cl_probe_limit = 1\<rparr>"

definition sample_failures :: "circuit_op list" where
  "sample_failures = [CFail ''provider'' ''p'' '''' '''' 0, CFail ''provider'' ''p'' '''' '''' 1000000]"

lemma circuit_rows_bounded_witness:
  "cb_cooldown_until (hd (fold (circuit_step (\<lambda>x. x) sample_limits) sample_failures [])) \<noteq> Never"
proof -
  have "hd (fold (circuit_step (\<lambda>x. x) sample_limits) sample_failures [])
      \<in> set (fold (circuit_step (\<lambda>x. x) sample_limits) sample_failures [])"
    and "cb_state (hd (fold (circuit_step (\<lambda>x. x) sample_limits) sample_failures [])) = CS_OPEN"
    by code_simp+
  then show ?thesis using circuit_rows_bounded [of _ "\<lambda>x. x" sample_limits sample_failures] by blast
qed

text \<open>The answers to a sequence of probe requests on one circuit.\<close>

fun probe_answers :: "string \<Rightarrow> int \<Rightarrow> instant list \<Rightarrow> circuit_table \<Rightarrow> bool list" where
  "probe_answers cid n [] t = []"
| "probe_answers cid n (now # nows) t =
     (let (t', ok) = acquire_half_open_probe cid n now t in ok # probe_answers cid n nows t')"

text \<open>On the row alone.\<close>

fun row_answers :: "int \<Rightarrow> instant list \<Rightarrow> circuit_row \<Rightarrow> bool list" where
  "row_answers n [] r = []"
| "row_answers n (now # nows) r = probe_granted n now r # row_answers n nows (probe_row n now r)"

lemma probe_answers_row:
  assumes "distinct (map cb_circuit_id t)" and "find_circuit cid t = Some r"
  shows "probe_answers cid n nows t = row_answers n nows r"
  using assms
proof (induction nows arbitrary: t r)
  case (Cons now nows)
  have "distinct (map cb_circuit_id (put_circuit cid (probe_row n now) t))"
    using Cons.prems(1) by (simp add: put_circuit_keys)
  moreover have "find_circuit cid (put_circuit cid (probe_row n now) t) = Some (probe_row n now r)"
    by (rule find_put [OF Cons.prems]) simp
  ultimately show ?case
    using Cons.IH by (simp add: acquire_eq [OF Cons.prems])
qed simp

lemma half_open_answers:
  assumes "cb_state r = CS_HALF_OPEN" and "cb_half_open_in_flight r \<le> max 1 n"
  shows "int (length (filter id (row_answers n nows r)))
    = min (int (length nows)) (max 1 n - cb_half_open_in_flight r)"
  using assms
proof (induction nows arbitrary: r)
  case (Cons now nows)
  show ?case
  proof (cases "cb_half_open_in_flight r < max 1 n")
    case True
    then have row: "probe_row n now r = take_probe now r" and "probe_granted n now r"
      using Cons.prems by (simp_all add: probe_row_def probe_granted_def)
    moreover have "cb_half_open_in_flight (take_probe now r) \<le> max 1 n"
      using True by (simp add: take_probe_def)
    ultimately show ?thesis
      using Cons.IH [of "take_probe now r"] Cons.prems(1) by (auto simp: take_probe_def)
  next
    case False
    then have "probe_row n now r = r" and "\<not> probe_granted n now r"
      using Cons.prems by (simp_all add: probe_row_def probe_granted_def)
    then show ?thesis using Cons.IH [of r] Cons.prems False by auto
  qed
qed (use assms in auto)

lemma open_early_answers:
  assumes "cb_state r = CS_OPEN" and "\<And>now. now \<in> set nows \<Longrightarrow> At now < cb_cooldown_until r"
  shows "row_answers n nows r = replicate (length nows) False"
  using assms(2)
proof (induction nows)
  case (Cons now nows)
  then have "At now < cb_cooldown_until r" by simp
  then have "probe_row n now r = r" "\<not> probe_granted n now r"
    using assms(1) by (auto simp: probe_row_def probe_granted_def leD)
  with Cons show ?case by simp
qed simp

text \<open>
  An OPEN circuit refuses every request before its cooldown, whatever their order, and of the
  requests after the cooldown it lets through exactly \<open>min n (max 1 probe_limit)\<close>: concurrent workers
  never exceed the probe limit.
\<close>

theorem open_circuit_probes:
  assumes "distinct (map cb_circuit_id t)" and "find_circuit cid t = Some r"
    and "cb_state r = CS_OPEN"
    and "\<And>now. now \<in> set early \<Longrightarrow> At now < cb_cooldown_until r"
    and "cb_cooldown_until r \<le> At now1"
  shows "probe_answers cid n early t = replicate (length early) False
    \<and> int (length (filter id (probe_answers cid n (now1 # late) t)))
      = min (1 + int (length late)) (max 1 n)"
proof (intro conjI)
  show "probe_answers cid n early t = replicate (length early) False"
    using open_early_answers [OF assms(3,4)] probe_answers_row [OF assms(1,2)] by simp
  let ?r = "probe_row n now1 r"
  have r: "cb_state ?r = CS_HALF_OPEN" "cb_half_open_in_flight ?r = 1"
    using assms(3,5) by (simp_all add: probe_row_def half_open_def take_probe_def Let_def less_max_iff_disj)
  moreover have "probe_granted n now1 r" using assms(3,5) by (simp add: probe_granted_def)
  ultimately show "int (length (filter id (probe_answers cid n (now1 # late) t)))
      = min (1 + int (length late)) (max 1 n)"
    using half_open_answers [of ?r n late] probe_answers_row [OF assms(1,2), of n "now1 # late"] by auto
qed

definition open_sample :: circuit_table where
  "open_sample = fold (circuit_step (\<lambda>x. x) sample_limits) sample_failures []"

lemma open_circuit_probes_witness:
  "probe_answers (circuit_id (\<lambda>x. x) ''provider'' ''p'' '''' '''') 1 [2000000, 3000000] open_sample
     = [False, False]
   \<and> length (filter id (probe_answers (circuit_id (\<lambda>x. x) ''provider'' ''p'' '''' '''') 1
        [61000000, 62000000, 63000000] open_sample)) = 1"
proof -
  let ?cid = "circuit_id (\<lambda>x. x) ''provider'' ''p'' '''' ''''"
  have d: "distinct (map cb_circuit_id open_sample)"
    and f: "find_circuit ?cid open_sample = Some (hd open_sample)"
    and o: "cb_state (hd open_sample) = CS_OPEN"
    and c: "cb_cooldown_until (hd open_sample) = At 61000000"
    by code_simp+
  have early: "At now < cb_cooldown_until (hd open_sample)" if "now \<in> set [2000000, 3000000]" for now
    using that by (auto simp: c)
  have late: "cb_cooldown_until (hd open_sample) \<le> At 61000000" by (simp add: c)
  show ?thesis
    using open_circuit_probes [OF d f o early late, where n = 1 and late = "[62000000, 63000000]"
        and early = "[2000000, 3000000]"]
    by (simp add: numeral_2_eq_2 del: probe_answers.simps)
qed

text \<open>
  A probe slot is only returned by a recorded outcome: once the slots of a HALF_OPEN circuit are
  taken, any number of further requests at any later time is refused and leaves the table as it is.
  A worker that dies after acquiring the slot blocks the circuit until the manual reset.
\<close>

theorem lost_probe_blocks:
  assumes "distinct (map cb_circuit_id t)" and "find_circuit cid t = Some r"
    and "cb_state r = CS_HALF_OPEN" and "max 1 (cl_probe_limit cfg) \<le> cb_half_open_in_flight r"
  shows "fold (circuit_step uuid cfg) (map (CProbe cid) nows) t = t
    \<and> probe_answers cid (cl_probe_limit cfg) nows t = replicate (length nows) False"
proof (intro conjI)
  have same: "probe_row (cl_probe_limit cfg) now r = r" and no: "\<not> probe_granted (cl_probe_limit cfg) now r" for now
    using assms(3,4) by (auto simp: probe_row_def probe_granted_def)
  have put: "put_circuit cid (probe_row (cl_probe_limit cfg) now) t = t" for now
    using put_circuit_cong [OF assms(1,2), of _ "\<lambda>x. x"] same by (simp add: put_circuit_def tbl_update_def)
  then show "fold (circuit_step uuid cfg) (map (CProbe cid) nows) t = t"
    by (induction nows) (simp_all add: acquire_eq [OF assms(1,2)])
  have "row_answers (cl_probe_limit cfg) nows r = replicate (length nows) False"
    by (induction nows) (simp_all add: same no)
  then show "probe_answers cid (cl_probe_limit cfg) nows t = replicate (length nows) False"
    by (simp add: probe_answers_row [OF assms(1,2)])
qed

definition probing_sample :: circuit_table where
  "probing_sample = circuit_step (\<lambda>x. x) sample_limits
     (CProbe (circuit_id (\<lambda>x. x) ''provider'' ''p'' '''' '''') 61000000) open_sample"

lemma lost_probe_blocks_witness:
  "probe_answers (circuit_id (\<lambda>x. x) ''provider'' ''p'' '''' '''') 1 [10 ^ 15] probing_sample = [False]"
proof -
  let ?cid = "circuit_id (\<lambda>x. x) ''provider'' ''p'' '''' ''''"
  have "distinct (map cb_circuit_id probing_sample)"
    and "find_circuit ?cid probing_sample = Some (hd probing_sample)"
    and "cb_state (hd probing_sample) = CS_HALF_OPEN"
    and "max 1 (cl_probe_limit sample_limits) \<le> cb_half_open_in_flight (hd probing_sample)"
    by code_simp+
  from lost_probe_blocks [OF this, where nows = "[10 ^ 15]"] show ?thesis
    by (simp add: sample_limits_def del: probe_answers.simps)
qed

lemma fail_circuits_in_window:
  assumes T: "T = max 1 (cl_failure_threshold cfg)"
    and "cb_window_started_at r = At w" and "cb_state r = CS_CLOSED \<or> cb_state r = CS_OPEN"
    and "cb_state r = CS_OPEN \<longleftrightarrow> T \<le> cb_failure_count r"
    and "\<And>now. now \<in> set nows \<Longrightarrow> now - w \<le> microseconds (max 1 (cl_failure_window_seconds cfg))"
  shows "cb_failure_count (fold (fail_circuit cfg) nows r) = cb_failure_count r + int (length nows)
     \<and> (cb_state (fold (fail_circuit cfg) nows r) = CS_OPEN
          \<longleftrightarrow> T \<le> cb_failure_count r + int (length nows))"
  using assms(2-)
proof (induction nows arbitrary: r)
  case (Cons now nows)
  have nw: "\<not> window_expired cfg now r" using Cons.prems(1,4) by (auto simp: window_expired_def not_less)
  have 1: "cb_window_started_at (fail_circuit cfg now r) = At w"
    "cb_failure_count (fail_circuit cfg now r) = cb_failure_count r + 1"
    using nw Cons.prems(1) by (simp_all add: fail_circuit_def Let_def)
  have 2: "cb_state (fail_circuit cfg now r) = (if T \<le> cb_failure_count r + 1 then CS_OPEN else cb_state r)"
    using nw by (simp add: fail_circuit_def Let_def T)
  then show ?case
    using Cons.IH [of "fail_circuit cfg now r"] Cons.prems(2-4) 1 by (auto simp: add.assoc)
qed simp

lemma fail_circuit_table:
  assumes "distinct (map cb_circuit_id t)"
    and "find_circuit (circuit_id uuid level p m a) t = Some r"
  shows "find_circuit (circuit_id uuid level p m a)
      (fold (circuit_step uuid cfg) (map (CFail level p m a) nows) t)
    = Some (fold (fail_circuit cfg) nows r)"
  using assms
proof (induction nows arbitrary: t r)
  case (Cons now nows)
  let ?t = "put_circuit (circuit_id uuid level p m a) (fail_circuit cfg now) t"
  have "distinct (map cb_circuit_id ?t)" using Cons.prems(1) by (simp add: put_circuit_keys)
  moreover have "find_circuit (circuit_id uuid level p m a) ?t = Some (fail_circuit cfg now r)"
    by (rule find_put [OF Cons.prems]) simp
  ultimately show ?case using Cons.IH by (simp add: record_failure_eq [OF Cons.prems])
qed simp

lemma last_failure_cooldown:
  "cb_state (fail_circuit cfg now r) = CS_OPEN \<Longrightarrow>
    cb_cooldown_until (fail_circuit cfg now r) = At (now + microseconds (max 1 (cl_open_seconds cfg)))"
  by (auto simp: fail_circuit_def Let_def)

text \<open>
  C4. From no circuit at all, failures of one target inside one failure window are all counted; the
  circuit is OPEN exactly when they reach \<open>max 1 failure_threshold\<close>, and its cooldown then ends
  \<open>max 1 open_seconds\<close> after the last of them.
\<close>

theorem failures_open_circuit:
  assumes "\<And>now. now \<in> set (nows @ [l]) \<Longrightarrow>
      now - now1 \<le> microseconds (max 1 (cl_failure_window_seconds cfg))"
  shows "\<exists>r. find_circuit (circuit_id uuid level p m a)
      (fold (circuit_step uuid cfg) (map (CFail level p m a) (now1 # nows @ [l])) []) = Some r
    \<and> cb_failure_count r = int (length nows) + 2
    \<and> (cb_state r = CS_OPEN \<longleftrightarrow> max 1 (cl_failure_threshold cfg) \<le> int (length nows) + 2)
    \<and> (cb_state r = CS_OPEN \<longrightarrow>
         cb_cooldown_until r = At (l + microseconds (max 1 (cl_open_seconds cfg))))"
proof -
  let ?n = "new_circuit (circuit_id uuid level p m a) level p m a now1"
  let ?r1 = "fail_circuit cfg now1 ?n"
  let ?r = "fold (fail_circuit cfg) (nows @ [l]) ?r1"
  have first: "circuit_step uuid cfg (CFail level p m a now1) [] = [?r1]"
    using record_failure_new [of "[]" uuid level p m a now1 cfg] by simp
  have "find_circuit (circuit_id uuid level p m a) [?r1] = Some ?r1"
    by (simp add: find_circuit_def tbl_find_def new_circuit_def)
  from fail_circuit_table [OF _ this, where cfg = cfg and nows = "nows @ [l]"]
  have "find_circuit (circuit_id uuid level p m a)
      (fold (circuit_step uuid cfg) (map (CFail level p m a) (now1 # nows @ [l])) []) = Some ?r"
    using first by simp
  moreover have r1: "cb_window_started_at ?r1 = At now1" "cb_failure_count ?r1 = 1"
    "cb_state ?r1 = CS_CLOSED \<or> cb_state ?r1 = CS_OPEN"
    "cb_state ?r1 = CS_OPEN \<longleftrightarrow> max 1 (cl_failure_threshold cfg) \<le> cb_failure_count ?r1"
    by (auto simp: fail_circuit_def new_circuit_def window_expired_def Let_def)
  have eq: "cb_failure_count ?r1 + int (length (nows @ [l])) = int (length nows) + 2"
    by (simp add: r1(2))
  have "cb_failure_count ?r = int (length nows) + 2
    \<and> (cb_state ?r = CS_OPEN \<longleftrightarrow> max 1 (cl_failure_threshold cfg) \<le> int (length nows) + 2)"
    using fail_circuits_in_window [OF refl r1(1,3,4), of "nows @ [l]", OF assms] unfolding eq .
  moreover have "cb_state ?r = CS_OPEN \<longrightarrow>
      cb_cooldown_until ?r = At (l + microseconds (max 1 (cl_open_seconds cfg)))"
    using last_failure_cooldown by simp
  ultimately show ?thesis by blast
qed

lemma failures_open_circuit_witness:
  "map_option cb_state (find_circuit (circuit_id (\<lambda>x. x) ''provider'' ''p'' '''' '''')
     (fold (circuit_step (\<lambda>x. x) sample_limits) sample_failures [])) = Some CS_OPEN"
proof -
  have w: "now - 0 \<le> microseconds (max 1 (cl_failure_window_seconds sample_limits))"
    if "now \<in> set ([] @ [1000000])" for now :: int
    using that by (simp add: sample_limits_def microseconds_def)
  show ?thesis
    using failures_open_circuit [of "[]" 1000000 0 sample_limits "\<lambda>x. x" "''provider''" "''p''" "''''" "''''", OF w]
    by (auto simp: sample_failures_def sample_limits_def simp del: circuit_step.simps)
qed

text \<open>
  A failed probe reopens a HALF_OPEN circuit exactly when the failures of the current window reach
  the threshold. With a threshold above 1, a probe that fails after the failure window has passed counts
  as the first failure of a new window: the circuit stays HALF_OPEN, and its probe slots are free again at
  once, without a cooldown.
\<close>

theorem failed_probe_after_window:
  assumes "distinct (map cb_circuit_id t)"
    and "find_circuit (circuit_id uuid level p m a) t = Some r"
    and "cb_state r = CS_HALF_OPEN" and "window_expired cfg now r" and "1 < cl_failure_threshold cfg"
  shows "\<exists>t' r'. record_circuit_failure uuid cfg level p m a now t = Inr (t', r')
    \<and> cb_state r' = CS_HALF_OPEN \<and> cb_half_open_in_flight r' = 0 \<and> cb_failure_count r' = 1
    \<and> snd (acquire_half_open_probe (circuit_id uuid level p m a) n now t')"
proof -
  let ?cid = "circuit_id uuid level p m a" and ?r = "fail_circuit cfg now r"
  have row: "cb_state ?r = CS_HALF_OPEN \<and> cb_half_open_in_flight ?r = 0 \<and> cb_failure_count ?r = 1"
    using assms(3-5) by (simp add: fail_circuit_def Let_def)
  let ?t = "put_circuit ?cid (fail_circuit cfg now) t"
  have "distinct (map cb_circuit_id ?t)" using assms(1) by (simp add: put_circuit_keys)
  moreover have "find_circuit ?cid ?t = Some ?r" using assms(1,2) by (simp add: find_put)
  ultimately have "snd (acquire_half_open_probe ?cid n now ?t)"
    using row by (simp add: acquire_eq probe_granted_def less_max_iff_disj)
  with row show ?thesis using record_failure_eq [OF assms(1,2)] by auto
qed

lemma failed_probe_after_window_witness:
  "\<exists>t' r'. record_circuit_failure (\<lambda>x. x) sample_limits ''provider'' ''p'' '''' '''' 400000000 probing_sample
      = Inr (t', r') \<and> cb_state r' = CS_HALF_OPEN"
proof -
  have "distinct (map cb_circuit_id probing_sample)"
    and "find_circuit (circuit_id (\<lambda>x. x) ''provider'' ''p'' '''' '''') probing_sample
      = Some (hd probing_sample)"
    and "cb_state (hd probing_sample) = CS_HALF_OPEN"
    and "window_expired sample_limits 400000000 (hd probing_sample)"
    and "1 < cl_failure_threshold sample_limits"
    by code_simp+
  from failed_probe_after_window [OF this, where n = 1] show ?thesis by blast
qed

end
