(* ===== verification/KR_Quota.thy ===== *)
theory KR_Quota
  imports KR_Types
begin

text \<open>
  Quota and reservations (\<open>quota.py\<close>, \<open>reservations.py\<close> and the methods of \<open>KeyRouterRepository\<close> on the
  tables \<open>quota_runtime\<close> and \<open>request_reservations\<close>). Each method is one \<open>BEGIN IMMEDIATE\<close>
  transaction: it returns the new tables or raises and rolls back. Random identifiers (\<open>uuid4\<close>) and
  the clock are arguments.
\<close>

subsection \<open>Limits and ownership\<close>

definition quota_limits_for ::
  "provider_account \<Rightarrow> request_context \<Rightarrow> kr_error + (int \<times> int \<times> pyfloat)" where
  "quota_limits_for account c =
     (let request_limit = max 0 (acc_daily_request_limit account);
          token_limit = max 0 (acc_daily_token_limit account);
          cost_limit = max 0 (acc_daily_cost_limit account)
      in case ctx_estimated_cost c of
           None \<Rightarrow> Inl (QuotaExceeded ''price_unknown'')
         | Some estimated_cost \<Rightarrow>
             if 0 < estimated_cost \<and> cost_limit \<le> 0 then Inl (QuotaExceeded ''paid_without_budget'')
             else Inr (request_limit, token_limit, cost_limit))"

definition owns_reservation :: "request_reservation \<Rightarrow> string \<Rightarrow> bool" where
  "owns_reservation reservation token \<longleftrightarrow> token \<noteq> [] \<and> rsv_reservation_token reservation = token"

subsection \<open>Tables\<close>

record quota_state =
  qs_quotas :: "quota_runtime list"
  qs_reservations :: "request_reservation list"

definition empty_quota_state :: quota_state where
  "empty_quota_state = \<lparr>qs_quotas = [], qs_reservations = []\<rparr>"

text \<open>The states of the clause \<open>state IN ('PENDING', ..., 'UNCERTAIN')\<close>.\<close>

definition active_state :: "reservation_state \<Rightarrow> bool" where
  "active_state s \<longleftrightarrow> s \<in> {RS_PENDING, RS_RESERVED, RS_DISPATCHING, RS_SENT, RS_UNCERTAIN}"

type_synonym target = "string \<times> string \<times> string \<times> string"

definition q_target :: "quota_runtime \<Rightarrow> target" where
  "q_target q = (q_provider q, q_pool_id q, q_account_id q, q_model q)"

definition rsv_target :: "request_reservation \<Rightarrow> target" where
  "rsv_target r = (rsv_provider r, rsv_pool_id r, rsv_account_id r, rsv_model r)"

text \<open>The primary key of \<open>quota_runtime\<close>.\<close>

definition quota_key :: "quota_runtime \<Rightarrow> target \<times> window_type \<times> stamp" where
  "quota_key q = (q_target q, q_window_type q, q_window_started_at q)"

definition find_reservation :: "string \<Rightarrow> request_reservation list \<Rightarrow> request_reservation option" where
  "find_reservation rid t = tbl_find (\<lambda>r. rsv_reservation_id r = rid) t"

definition active_reservation_count :: "string \<Rightarrow> quota_state \<Rightarrow> nat" where
  "active_reservation_count account_id s =
     tbl_count (\<lambda>r. rsv_account_id r = account_id \<and> active_state (rsv_state r)) (qs_reservations s)"

text \<open>Newest first; rows of the same time are in no promised order, here the later insert first.\<close>

definition list_reservations :: "int \<Rightarrow> quota_state \<Rightarrow> request_reservation list" where
  "list_reservations n s =
     take (nat (max 1 (min 500 n))) (rev (sort_key rsv_created_at (qs_reservations s)))"

subsection \<open>Reserving\<close>

record quota_request =
  qr_idempotency_key :: string
  qr_provider :: string
  qr_pool_id :: string
  qr_account_id :: string
  qr_model :: string
  qr_request_limit :: int
  qr_token_limit :: int
  qr_cost_limit :: pyfloat
  qr_estimated_input_tokens :: int
  qr_estimated_output_tokens :: int
  qr_estimated_cost :: pyfloat
  qr_ttl_seconds :: int
  qr_request_id :: string
  qr_parent_request_id :: string
  qr_attempt_id :: string
  qr_provider_model_id :: string
  qr_policy_id :: string

definition qr_target :: "quota_request \<Rightarrow> target" where
  "qr_target a = (qr_provider a, qr_pool_id a, qr_account_id a, qr_model a)"

definition window_key :: "quota_request \<Rightarrow> instant \<Rightarrow> target \<times> window_type \<times> stamp" where
  "window_key a now = (qr_target a, WT_DAY, At (day_start now))"

definition new_quota :: "quota_request \<Rightarrow> instant \<Rightarrow> quota_runtime" where
  "new_quota a now =
     \<lparr>q_provider = qr_provider a, q_pool_id = qr_pool_id a, q_account_id = qr_account_id a,
      q_model = qr_model a, q_window_type = WT_DAY, q_window_started_at = At (day_start now),
      q_request_limit = qr_request_limit a, q_token_limit = qr_token_limit a,
      q_cost_limit = qr_cost_limit a, q_reserved_requests = 0, q_reserved_input_tokens = 0,
      q_reserved_output_tokens = 0, q_reserved_cost = 0, q_consumed_requests = 0,
      q_consumed_input_tokens = 0, q_consumed_output_tokens = 0, q_consumed_cost = 0,
      q_cooldown_until = Never, q_circuit_state = CS_CLOSED, q_consecutive_failures = 0,
      q_last_success_at = Never, q_last_failure_at = Never, q_version = 0, q_updated_at = At now\<rparr>"

definition over_limit :: "quota_request \<Rightarrow> quota_runtime \<Rightarrow> string option" where
  "over_limit a q =
     (let next_requests = q_reserved_requests q + q_consumed_requests q + 1;
          next_tokens = q_reserved_input_tokens q + q_reserved_output_tokens q
            + q_consumed_input_tokens q + q_consumed_output_tokens q
            + qr_estimated_input_tokens a + qr_estimated_output_tokens a;
          next_cost = q_reserved_cost q + q_consumed_cost q + qr_estimated_cost a
      in if qr_request_limit a \<noteq> 0 \<and> qr_request_limit a < next_requests then Some ''request_limit_reached''
         else if qr_token_limit a \<noteq> 0 \<and> qr_token_limit a < next_tokens then Some ''token_limit_reached''
         else if qr_cost_limit a \<noteq> 0 \<and> qr_cost_limit a < next_cost then Some ''cost_limit_reached''
         else None)"

definition hold_quota :: "quota_request \<Rightarrow> instant \<Rightarrow> quota_runtime \<Rightarrow> quota_runtime" where
  "hold_quota a now q = q\<lparr>q_reserved_requests := q_reserved_requests q + 1,
     q_reserved_input_tokens := q_reserved_input_tokens q + qr_estimated_input_tokens a,
     q_reserved_output_tokens := q_reserved_output_tokens q + qr_estimated_output_tokens a,
     q_reserved_cost := q_reserved_cost q + qr_estimated_cost a,
     q_version := q_version q + 1, q_updated_at := At now\<rparr>"

definition new_reservation ::
  "quota_request \<Rightarrow> string \<Rightarrow> string \<Rightarrow> instant \<Rightarrow> request_reservation" where
  "new_reservation a rid token now =
     \<lparr>rsv_reservation_id = rid, rsv_idempotency_key = qr_idempotency_key a,
      rsv_provider = qr_provider a, rsv_pool_id = qr_pool_id a, rsv_account_id = qr_account_id a,
      rsv_model = qr_model a, rsv_state = RS_RESERVED, rsv_reservation_token = token,
      rsv_created_at = At now, rsv_expires_at = At (now + microseconds (qr_ttl_seconds a)),
      rsv_reserved_requests = 1, rsv_estimated_input_tokens = qr_estimated_input_tokens a,
      rsv_estimated_output_tokens = qr_estimated_output_tokens a,
      rsv_estimated_cost = qr_estimated_cost a, rsv_settled_at = Never,
      rsv_actual_input_tokens = 0, rsv_actual_output_tokens = 0, rsv_actual_cost = 0,
      rsv_error_code = [], rsv_request_id = qr_request_id a,
      rsv_parent_request_id = qr_parent_request_id a, rsv_attempt_id = qr_attempt_id a,
      rsv_provider_model_id = (if qr_provider_model_id a = [] then qr_model a else qr_provider_model_id a),
      rsv_policy_id = qr_policy_id a, rsv_reserved_input_tokens = qr_estimated_input_tokens a,
      rsv_reserved_output_tokens = qr_estimated_output_tokens a,
      rsv_reserved_cost = qr_estimated_cost a, rsv_request_count_consumed = False,
      rsv_token_cost_consumed = False, rsv_monetary_cost_consumed = False,
      rsv_dispatched_at = Never, rsv_sent_at = Never, rsv_fencing_token = 1,
      rsv_uncertainty_reason = []\<rparr>"

definition reserve_quota ::
  "quota_request \<Rightarrow> string \<Rightarrow> string \<Rightarrow> instant \<Rightarrow> quota_state
    \<Rightarrow> kr_error + (quota_state \<times> request_reservation)" where
  "reserve_quota a rid token now s =
     (case tbl_find (\<lambda>r. rsv_idempotency_key r = qr_idempotency_key a) (qs_reservations s) of
        Some existing \<Rightarrow> Inr (s, existing)
      | None \<Rightarrow>
          let quotas = tbl_insert_or_ignore quota_key (new_quota a now) (qs_quotas s);
              this = (\<lambda>q. quota_key q = window_key a now)
          in case tbl_find this quotas of
               None \<Rightarrow> Inl (RuntimeError ''Quota runtime insert failed'')
             | Some quota \<Rightarrow>
                 (case over_limit a quota of
                    Some why \<Rightarrow> Inl (QuotaExceeded why)
                  | None \<Rightarrow>
                      let quotas' = tbl_update this (hold_quota a now) quotas
                      in if find_reservation rid (qs_reservations s) \<noteq> None
                         then Inl (IntegrityError ''request_reservations.reservation_id'')
                         else let reservations' = qs_reservations s @ [new_reservation a rid token now]
                              in case find_reservation rid reservations' of
                                   None \<Rightarrow> Inl (RuntimeError ''Reservation insert failed'')
                                 | Some row \<Rightarrow>
                                     Inr (s\<lparr>qs_quotas := quotas', qs_reservations := reservations'\<rparr>, row)))"

subsection \<open>Marking\<close>

definition mark_row ::
  "reservation_state \<Rightarrow> string \<Rightarrow> instant \<Rightarrow> request_reservation \<Rightarrow> request_reservation" where
  "mark_row state error_code now r = r\<lparr>rsv_state := state, rsv_error_code := error_code,
     rsv_dispatched_at := (if state = RS_DISPATCHING then At now else rsv_dispatched_at r),
     rsv_sent_at := (if state = RS_SENT then At now else rsv_sent_at r)\<rparr>"

definition update_reservation_state ::
  "string \<Rightarrow> string \<Rightarrow> reservation_state \<Rightarrow> string \<Rightarrow> instant \<Rightarrow> quota_state
    \<Rightarrow> kr_error + (quota_state \<times> request_reservation)" where
  "update_reservation_state rid token state error_code now s =
     (let hit = (\<lambda>r. rsv_reservation_id r = rid \<and> rsv_reservation_token r = token
                   \<and> active_state (rsv_state r));
          reservations' = tbl_update hit (mark_row state error_code now) (qs_reservations s)
      in if tbl_count hit (qs_reservations s) \<noteq> 1
         then Inl (FencingTokenError ''Reservation token is stale or invalid'')
         else case find_reservation rid reservations' of
                None \<Rightarrow> Inl (RuntimeError ''Reservation disappeared after update'')
              | Some row \<Rightarrow> Inr (s\<lparr>qs_reservations := reservations'\<rparr>, row))"

definition mark_dispatching where
  "mark_dispatching rid token now s = update_reservation_state rid token RS_DISPATCHING [] now s"

definition mark_sent where
  "mark_sent rid token now s = update_reservation_state rid token RS_SENT [] now s"

definition mark_uncertain where
  "mark_uncertain rid token error_code now s =
     update_reservation_state rid token RS_UNCERTAIN error_code now s"

subsection \<open>Settling\<close>

record settlement =
  st_state :: reservation_state
  st_actual_input_tokens :: int
  st_actual_output_tokens :: int
  st_actual_cost :: pyfloat
  st_error_code :: string
  st_request_count_consumed :: "bool option"
  st_token_cost_consumed :: "bool option"
  st_monetary_cost_consumed :: "bool option"

definition consume_request :: "settlement \<Rightarrow> bool" where
  "consume_request a = (case st_request_count_consumed a of
     None \<Rightarrow> st_state a = RS_SETTLED_SUCCESS | Some b \<Rightarrow> b)"

definition consume_tokens :: "settlement \<Rightarrow> bool" where
  "consume_tokens a = (case st_token_cost_consumed a of
     None \<Rightarrow> st_state a = RS_SETTLED_SUCCESS
       \<and> (0 < st_actual_input_tokens a \<or> 0 < st_actual_output_tokens a) | Some b \<Rightarrow> b)"

definition consume_money :: "settlement \<Rightarrow> bool" where
  "consume_money a = (case st_monetary_cost_consumed a of
     None \<Rightarrow> st_state a = RS_SETTLED_SUCCESS \<and> 0 < st_actual_cost a | Some b \<Rightarrow> b)"

definition settle_row :: "settlement \<Rightarrow> instant \<Rightarrow> request_reservation \<Rightarrow> request_reservation" where
  "settle_row a now r = r\<lparr>rsv_state := st_state a, rsv_settled_at := At now,
     rsv_actual_input_tokens := st_actual_input_tokens a,
     rsv_actual_output_tokens := st_actual_output_tokens a, rsv_actual_cost := st_actual_cost a,
     rsv_error_code := st_error_code a, rsv_request_count_consumed := consume_request a,
     rsv_token_cost_consumed := consume_tokens a, rsv_monetary_cost_consumed := consume_money a,
     rsv_fencing_token := rsv_fencing_token r + 1\<rparr>"

definition release_quota :: "request_reservation \<Rightarrow> instant \<Rightarrow> quota_runtime \<Rightarrow> quota_runtime" where
  "release_quota row now q = q\<lparr>q_reserved_requests := max 0 (q_reserved_requests q - 1),
     q_reserved_input_tokens := max 0 (q_reserved_input_tokens q - rsv_estimated_input_tokens row),
     q_reserved_output_tokens := max 0 (q_reserved_output_tokens q - rsv_estimated_output_tokens row),
     q_reserved_cost := max 0 (q_reserved_cost q - rsv_estimated_cost row),
     q_version := q_version q + 1, q_updated_at := At now\<rparr>"

definition charge_quota ::
  "settlement \<Rightarrow> request_reservation \<Rightarrow> instant \<Rightarrow> quota_runtime \<Rightarrow> quota_runtime" where
  "charge_quota a row now q = (release_quota row now q)
     \<lparr>q_consumed_requests := q_consumed_requests q + (if consume_request a then 1 else 0),
      q_consumed_input_tokens := q_consumed_input_tokens q
        + (if consume_tokens a then st_actual_input_tokens a else 0),
      q_consumed_output_tokens := q_consumed_output_tokens q
        + (if consume_tokens a then st_actual_output_tokens a else 0),
      q_consumed_cost := q_consumed_cost q + (if consume_money a then st_actual_cost a else 0)\<rparr>"

text \<open>The \<open>WHERE\<close> clause of both releases: the target and \<open>window_type = 'day'\<close>, not the window's start.\<close>

definition day_row :: "target \<Rightarrow> quota_runtime \<Rightarrow> bool" where
  "day_row k q \<longleftrightarrow> q_target q = k \<and> q_window_type q = WT_DAY"

definition settlement_states :: "reservation_state set" where
  "settlement_states =
     {RS_SETTLED_SUCCESS, RS_SETTLED_FAILURE, RS_RELEASED, RS_EXPIRED, RS_CANCELLED}"

definition settle_reservation ::
  "string \<Rightarrow> string \<Rightarrow> settlement \<Rightarrow> instant \<Rightarrow> quota_state
    \<Rightarrow> kr_error + (quota_state \<times> request_reservation)" where
  "settle_reservation rid token a now s =
     (if st_state a \<notin> settlement_states then Inl (ValueError ''Unsupported settlement state'')
      else case tbl_find (\<lambda>r. rsv_reservation_id r = rid \<and> rsv_reservation_token r = token
                        \<and> active_state (rsv_state r)) (qs_reservations s) of
             None \<Rightarrow> Inl (FencingTokenError ''Reservation token is stale or invalid'')
           | Some row \<Rightarrow>
               let reservations' = tbl_update
                     (\<lambda>r. rsv_reservation_id r = rid \<and> rsv_reservation_token r = token)
                     (settle_row a now) (qs_reservations s);
                   quotas' = tbl_update (day_row (rsv_target row)) (charge_quota a row now) (qs_quotas s)
               in case find_reservation rid reservations' of
                    None \<Rightarrow> Inl (RuntimeError ''Reservation disappeared after settlement'')
                  | Some updated \<Rightarrow>
                      Inr (s\<lparr>qs_quotas := quotas', qs_reservations := reservations'\<rparr>, updated))"

subsection \<open>Reconciling\<close>

text \<open>What becomes of one active row: its new state, the reason (empty: none) and whether quota is released.\<close>

definition reconcile_plan ::
  "instant \<Rightarrow> int \<Rightarrow> request_reservation \<Rightarrow> reservation_state \<times> string \<times> bool" where
  "reconcile_plan current stale_after_seconds r =
     (let cutoff = At (current - microseconds (max 1 stale_after_seconds));
          st = rsv_state r
      in if st \<in> {RS_PENDING, RS_RESERVED} \<and> rsv_expires_at r \<le> At current
         then (RS_EXPIRED, ''expired_before_dispatch'', True)
         else if st \<in> {RS_DISPATCHING, RS_SENT}
         then let timestamp = (if rsv_dispatched_at r = Never then rsv_created_at r else rsv_dispatched_at r)
              in if timestamp \<le> cutoff then (RS_UNCERTAIN, ''stale_after_dispatch'', False) else (st, [], False)
         else if st = RS_UNCERTAIN
         then let timestamp = (if rsv_sent_at r = Never then rsv_created_at r else rsv_sent_at r)
              in if timestamp \<le> cutoff then (st, ''uncertain_requires_manual_reconciliation'', False)
                 else (st, [], False)
         else (st, [], False))"

record reconcile_decision =
  rd_reservation_id :: string
  rd_old_state :: reservation_state
  rd_new_state :: reservation_state
  rd_reason :: string

definition reconciled_row ::
  "instant \<Rightarrow> reservation_state \<Rightarrow> string \<Rightarrow> request_reservation \<Rightarrow> request_reservation" where
  "reconciled_row current new_state reason r = r\<lparr>rsv_state := new_state, rsv_uncertainty_reason := reason,
     rsv_settled_at := (if new_state = RS_EXPIRED then At current else rsv_settled_at r),
     rsv_fencing_token := rsv_fencing_token r + 1\<rparr>"

text \<open>The rows the update of one turn addresses (\<open>WHERE reservation_id, state, fencing_token\<close>).\<close>

definition reconcile_hit :: "request_reservation \<Rightarrow> request_reservation \<Rightarrow> bool" where
  "reconcile_hit row r \<longleftrightarrow> rsv_reservation_id r = rsv_reservation_id row \<and> rsv_state r = rsv_state row
     \<and> rsv_fencing_token r = (if rsv_fencing_token row = 0 then 1 else rsv_fencing_token row)"

text \<open>One turn of the loop over the rows selected at the start.\<close>

definition reconcile_one ::
  "instant \<Rightarrow> int \<Rightarrow> request_reservation \<Rightarrow> quota_state \<times> reconcile_decision list
    \<Rightarrow> quota_state \<times> reconcile_decision list" where
  "reconcile_one current stale_after_seconds row sd =
     (let (s, decisions) = sd;
          (new_state, reason, release) = reconcile_plan current stale_after_seconds row;
          hit = reconcile_hit row;
          changes = (new_state \<noteq> rsv_state row);
          s1 = (if changes
                then s\<lparr>qs_reservations :=
                    tbl_update hit (reconciled_row current new_state reason) (qs_reservations s)\<rparr>
                else s);
          s2 = (if release
                then s1\<lparr>qs_quotas :=
                    tbl_update (day_row (rsv_target row)) (release_quota row current) (qs_quotas s1)\<rparr>
                else s1)
      in if reason = [] then sd
         else if changes \<and> tbl_count hit (qs_reservations s) \<noteq> 1 then (s1, decisions)
         else (s2, decisions @ [\<lparr>rd_reservation_id = rsv_reservation_id row, rd_old_state = rsv_state row,
                  rd_new_state = new_state, rd_reason = reason\<rparr>]))"

definition active_rows :: "quota_state \<Rightarrow> request_reservation list" where
  "active_rows s = sort_key (\<lambda>r. (rsv_created_at r, rsv_reservation_id r))
     (filter (\<lambda>r. active_state (rsv_state r)) (qs_reservations s))"

definition reconcile_reservations ::
  "instant \<Rightarrow> int \<Rightarrow> quota_state \<Rightarrow> quota_state \<times> reconcile_decision list" where
  "reconcile_reservations current stale_after_seconds s =
     fold (reconcile_one current stale_after_seconds) (active_rows s) (s, [])"

subsection \<open>Sequences of operations\<close>

datatype quota_op =
  QReserve quota_request string string instant
| QDispatching string string instant
| QSent string string instant
| QUncertain string string string instant
| QSettle string string settlement instant
| QReconcile instant int

text \<open>An operation that raises has rolled back.\<close>

definition committed :: "quota_state \<Rightarrow> kr_error + (quota_state \<times> 'a) \<Rightarrow> quota_state" where
  "committed s res = (case res of Inl _ \<Rightarrow> s | Inr (s', _) \<Rightarrow> s')"

fun quota_step :: "quota_op \<Rightarrow> quota_state \<Rightarrow> quota_state" where
  "quota_step (QReserve a rid token now) s = committed s (reserve_quota a rid token now s)"
| "quota_step (QDispatching rid token now) s = committed s (mark_dispatching rid token now s)"
| "quota_step (QSent rid token now) s = committed s (mark_sent rid token now s)"
| "quota_step (QUncertain rid token e now) s = committed s (mark_uncertain rid token e now s)"
| "quota_step (QSettle rid token a now) s = committed s (settle_reservation rid token a now s)"
| "quota_step (QReconcile now stale) s = fst (reconcile_reservations now stale s)"

definition quota_wf :: "quota_state \<Rightarrow> bool" where
  "quota_wf s \<longleftrightarrow> distinct (map rsv_reservation_id (qs_reservations s))
     \<and> distinct (map rsv_idempotency_key (qs_reservations s))
     \<and> distinct (map quota_key (qs_quotas s))
     \<and> (\<forall>q \<in> set (qs_quotas s). q_window_type q = WT_DAY)
     \<and> (\<forall>r \<in> set (qs_reservations s). 1 \<le> rsv_fencing_token r)"

text \<open>The live reservations of a target.\<close>

definition live :: "target \<Rightarrow> quota_state \<Rightarrow> nat" where
  "live k s = tbl_count (\<lambda>r. rsv_target r = k \<and> active_state (rsv_state r)) (qs_reservations s)"

subsection \<open>The ledger: what an operation does to quota\<close>

text \<open>
  The abstract view of the two tables: an operation leaves quota alone, holds one request in the window
  of today, or ends one reservation and releases its request in the rows of the target. \<open>R\<close> restricts
  the requests and times of the holds.
\<close>

inductive ledger_move ::
  "(quota_request \<Rightarrow> instant \<Rightarrow> bool) \<Rightarrow> quota_state \<Rightarrow> quota_state \<Rightarrow> bool"
  for R :: "quota_request \<Rightarrow> instant \<Rightarrow> bool" where
  lm_same: "qs_quotas s' = qs_quotas s \<Longrightarrow> (\<And>k. live k s' = live k s) \<Longrightarrow> ledger_move R s s'"
| lm_hold: "R a now \<Longrightarrow> quotas = tbl_insert_or_ignore quota_key (new_quota a now) (qs_quotas s) \<Longrightarrow>
    q \<in> set quotas \<Longrightarrow> quota_key q = window_key a now \<Longrightarrow> over_limit a q = None \<Longrightarrow>
    qs_quotas s' = tbl_update (\<lambda>q. quota_key q = window_key a now) (hold_quota a now) quotas \<Longrightarrow>
    (\<And>k. live k s' = live k s + (if k = qr_target a then 1 else 0)) \<Longrightarrow> ledger_move R s s'"
| lm_end: "(\<And>q. quota_key (g q) = quota_key q) \<Longrightarrow>
    (\<And>q. q_reserved_requests (g q) = max 0 (q_reserved_requests q - 1)) \<Longrightarrow>
    (\<And>q. q_consumed_requests q \<le> q_consumed_requests (g q)
        \<and> q_consumed_requests (g q) \<le> q_consumed_requests q + 1) \<Longrightarrow>
    qs_quotas s' = tbl_update (day_row k) g (qs_quotas s) \<Longrightarrow>
    (\<And>k'. live k' s = live k' s' + (if k' = k then 1 else 0)) \<Longrightarrow> ledger_move R s s'"

lemma key_kept [simp]:
  "quota_key (hold_quota a now q) = quota_key q"
  "quota_key (release_quota row now q) = quota_key q"
  "quota_key (charge_quota st row now q) = quota_key q"
  "quota_key (new_quota a now) = window_key a now"
  by (simp_all add: quota_key_def q_target_def hold_quota_def release_quota_def charge_quota_def
      new_quota_def window_key_def qr_target_def)

lemma quota_key_day:
  "quota_key q = quota_key q' \<Longrightarrow> q_target q = q_target q' \<and> q_window_type q = q_window_type q'
     \<and> q_window_started_at q = q_window_started_at q'"
  by (simp add: quota_key_def)

lemma window_key_eq:
  "quota_key q = window_key a now \<longleftrightarrow>
     q_target q = qr_target a \<and> q_window_type q = WT_DAY \<and> q_window_started_at q = At (day_start now)"
  by (auto simp: quota_key_def window_key_def)

lemma release_simps [simp]:
  "q_reserved_requests (release_quota row now q) = max 0 (q_reserved_requests q - 1)"
  "q_consumed_requests (release_quota row now q) = q_consumed_requests q"
  "q_reserved_requests (charge_quota a row now q) = max 0 (q_reserved_requests q - 1)"
  "q_consumed_requests (charge_quota a row now q)
    = q_consumed_requests q + (if consume_request a then 1 else 0)"
  by (simp_all add: release_quota_def charge_quota_def)

text \<open>The rows of a table of reservations under a rewriting of one row.\<close>

lemma live_update:
  assumes "quota_wf s" and "r \<in> set (qs_reservations s)" and "P r"
    and "\<And>x. P x \<Longrightarrow> rsv_reservation_id x = rsv_reservation_id r"
    and "\<And>x. rsv_target (f x) = rsv_target x" and "active_state (rsv_state r)"
  shows "live k s = live k (s\<lparr>qs_quotas := Q, qs_reservations := tbl_update P f (qs_reservations s)\<rparr>)
    + (if k = rsv_target r \<and> \<not> active_state (rsv_state (f r)) then 1 else 0)"
proof -
  have "distinct (map rsv_reservation_id (qs_reservations s))" using assms(1) by (simp add: quota_wf_def)
  from tbl_count_update_one [where P = P and f = f, OF this assms(2,3,4),
      where Q = "\<lambda>r. rsv_target r = k \<and> active_state (rsv_state r)"]
  show ?thesis using assms(5,6) by (auto simp: live_def split: if_splits)
qed

lemma row_kept [simp]:
  "rsv_reservation_id (mark_row st e now r) = rsv_reservation_id r"
  "rsv_idempotency_key (mark_row st e now r) = rsv_idempotency_key r"
  "rsv_target (mark_row st e now r) = rsv_target r"
  "rsv_fencing_token (mark_row st e now r) = rsv_fencing_token r"
  "rsv_state (mark_row st e now r) = st"
  "rsv_reservation_id (settle_row a now r) = rsv_reservation_id r"
  "rsv_idempotency_key (settle_row a now r) = rsv_idempotency_key r"
  "rsv_target (settle_row a now r) = rsv_target r"
  "rsv_fencing_token (settle_row a now r) = rsv_fencing_token r + 1"
  "rsv_state (settle_row a now r) = st_state a"
  "rsv_reservation_id (reconciled_row now st e r) = rsv_reservation_id r"
  "rsv_idempotency_key (reconciled_row now st e r) = rsv_idempotency_key r"
  "rsv_target (reconciled_row now st e r) = rsv_target r"
  "rsv_fencing_token (reconciled_row now st e r) = rsv_fencing_token r + 1"
  "rsv_state (reconciled_row now st e r) = st"
  by (simp_all add: mark_row_def settle_row_def reconciled_row_def rsv_target_def)

lemma wf_update:
  assumes "quota_wf s" and "\<And>r. rsv_reservation_id (f r) = rsv_reservation_id r"
    and "\<And>r. rsv_idempotency_key (f r) = rsv_idempotency_key r"
    and "\<And>r. rsv_fencing_token r \<le> rsv_fencing_token (f r)"
    and "\<And>q. quota_key (g q) = quota_key q"
  shows "quota_wf (s\<lparr>qs_quotas := tbl_update P' g (qs_quotas s),
    qs_reservations := tbl_update P f (qs_reservations s)\<rparr>)"
proof -
  have "q_window_type (g q) = q_window_type q" for q using assms(5) quota_key_day by blast
  moreover have "1 \<le> rsv_fencing_token (f r)" if "r \<in> set (qs_reservations s)" for r
    using that assms(1,4) order_trans unfolding quota_wf_def by blast
  ultimately show ?thesis
    using assms by (auto simp: quota_wf_def tbl_update_keys set_tbl_update)
qed

lemma wf_update_rows:
  assumes "quota_wf s" and "\<And>r. rsv_reservation_id (f r) = rsv_reservation_id r"
    and "\<And>r. rsv_idempotency_key (f r) = rsv_idempotency_key r"
    and "\<And>r. rsv_fencing_token r \<le> rsv_fencing_token (f r)"
  shows "quota_wf (s\<lparr>qs_reservations := tbl_update P f (qs_reservations s)\<rparr>)"
  using wf_update [OF assms, where g = "\<lambda>q. q" and P' = "\<lambda>_. False"]
  by (simp add: tbl_update_none)

lemma live_update_rows:
  assumes "quota_wf s" and "r \<in> set (qs_reservations s)" and "P r"
    and "\<And>x. P x \<Longrightarrow> rsv_reservation_id x = rsv_reservation_id r"
    and "\<And>x. rsv_target (f x) = rsv_target x" and "active_state (rsv_state r)"
  shows "live k s = live k (s\<lparr>qs_reservations := tbl_update P f (qs_reservations s)\<rparr>)
    + (if k = rsv_target r \<and> \<not> active_state (rsv_state (f r)) then 1 else 0)"
  using live_update [where P = P and f = f and Q = "qs_quotas s" and k = k, OF assms] by simp

lemma find_reservation_mem:
  "find_reservation rid t = Some r \<Longrightarrow> r \<in> set t \<and> rsv_reservation_id r = rid"
  unfolding find_reservation_def by (auto dest: tbl_find_SomeD)

lemma tbl_count_1_obtain:
  assumes "tbl_count P t = 1"
  obtains r where "r \<in> set t" and "P r"
proof -
  from assms have "tbl_count P t \<noteq> 0" by simp
  then show ?thesis using that by (auto simp: tbl_count_0)
qed

text \<open>Taking the new branch of \<open>reserve_quota\<close>.\<close>

lemma reserve_new:
  assumes "reserve_quota a rid token now s = Inr (s', row)"
    and "tbl_find (\<lambda>r. rsv_idempotency_key r = qr_idempotency_key a) (qs_reservations s) = None"
  shows "row = new_reservation a rid token now"
    and "rid \<notin> rsv_reservation_id ` set (qs_reservations s)"
    and "qs_reservations s' = qs_reservations s @ [new_reservation a rid token now]"
    and "\<exists>q. q \<in> set (tbl_insert_or_ignore quota_key (new_quota a now) (qs_quotas s))
      \<and> quota_key q = window_key a now \<and> over_limit a q = None"
    and "qs_quotas s' = tbl_update (\<lambda>q. quota_key q = window_key a now) (hold_quota a now)
      (tbl_insert_or_ignore quota_key (new_quota a now) (qs_quotas s))"
proof -
  let ?quotas = "tbl_insert_or_ignore quota_key (new_quota a now) (qs_quotas s)"
  have free: "find_reservation rid (qs_reservations s) = None"
    and found: "\<exists>q. tbl_find (\<lambda>q. quota_key q = window_key a now) ?quotas = Some q \<and> over_limit a q = None"
    and s': "s' = s\<lparr>qs_quotas := tbl_update (\<lambda>q. quota_key q = window_key a now) (hold_quota a now) ?quotas,
        qs_reservations := qs_reservations s @ [new_reservation a rid token now]\<rparr>"
    and row: "find_reservation rid (qs_reservations s @ [new_reservation a rid token now]) = Some row"
    using assms by (auto simp: reserve_quota_def Let_def split: option.splits if_splits)
  show fresh: "rid \<notin> rsv_reservation_id ` set (qs_reservations s)"
    using free by (auto simp: find_reservation_def tbl_find_None)
  have "row \<in> set (qs_reservations s @ [new_reservation a rid token now])" "rsv_reservation_id row = rid"
    using find_reservation_mem [OF row] by auto
  then show "row = new_reservation a rid token now" using fresh by auto
  show "\<exists>q. q \<in> set ?quotas \<and> quota_key q = window_key a now \<and> over_limit a q = None"
    using found by (auto dest: tbl_find_SomeD)
  show "qs_reservations s' = qs_reservations s @ [new_reservation a rid token now]"
    and "qs_quotas s' = tbl_update (\<lambda>q. quota_key q = window_key a now) (hold_quota a now) ?quotas"
    using s' by simp_all
qed

lemma reserve_existing:
  assumes "tbl_find (\<lambda>r. rsv_idempotency_key r = qr_idempotency_key a) (qs_reservations s) = Some r"
  shows "reserve_quota a rid token now s = Inr (s, r)"
  using assms by (simp add: reserve_quota_def)

lemma new_reservation_simps [simp]:
  "rsv_reservation_id (new_reservation a rid token now) = rid"
  "rsv_idempotency_key (new_reservation a rid token now) = qr_idempotency_key a"
  "rsv_target (new_reservation a rid token now) = qr_target a"
  "rsv_state (new_reservation a rid token now) = RS_RESERVED"
  "rsv_fencing_token (new_reservation a rid token now) = 1"
  by (simp_all add: new_reservation_def rsv_target_def qr_target_def)

lemma reserve_ledger:
  assumes "quota_wf s" and "reserve_quota a rid token now s = Inr (s', row)" and "R a now"
  shows "quota_wf s' \<and> ledger_move R s s'"
proof (cases "tbl_find (\<lambda>r. rsv_idempotency_key r = qr_idempotency_key a) (qs_reservations s)")
  case (Some r)
  then have "s' = s" using assms(2) by (simp add: reserve_existing)
  then show ?thesis using assms(1) by (simp add: lm_same)
next
  case None
  let ?quotas = "tbl_insert_or_ignore quota_key (new_quota a now) (qs_quotas s)"
  note new = reserve_new [OF assms(2) None]
  have wt: "q_window_type q = WT_DAY" if "q \<in> set ?quotas" for q
    using that assms(1) by (auto simp: quota_wf_def tbl_insert_or_ignore_def new_quota_def split: if_splits)
  moreover have "distinct (map quota_key (qs_quotas s'))"
    using assms(1) by (simp add: quota_wf_def new(5) tbl_update_keys tbl_insert_or_ignore_distinct)
  moreover have "q_window_type (hold_quota a now q) = q_window_type q" for q by (simp add: hold_quota_def)
  ultimately have wf: "quota_wf s'"
    using assms(1) new(2) None
    by (auto simp: quota_wf_def new(3,5) set_tbl_update tbl_find_None)
  have live': "live k s' = live k s + (if k = qr_target a then 1 else 0)" for k
    by (auto simp: live_def new(3) tbl_count_append tbl_count_Cons tbl_count_Nil active_state_def)
  from new(4) obtain q where q: "q \<in> set ?quotas" "quota_key q = window_key a now" "over_limit a q = None"
    by blast
  show ?thesis using wf lm_hold [of R a now, OF assms(3) refl q new(5) live'] by simp
qed

lemma update_state_ledger:
  assumes "quota_wf s" and "update_reservation_state rid token st e now s = Inr (s', row)"
    and "active_state st"
  shows "quota_wf s' \<and> ledger_move R s s'"
proof -
  let ?hit = "\<lambda>r. rsv_reservation_id r = rid \<and> rsv_reservation_token r = token \<and> active_state (rsv_state r)"
  have s': "s' = s\<lparr>qs_reservations := tbl_update ?hit (mark_row st e now) (qs_reservations s)\<rparr>"
    and n: "tbl_count ?hit (qs_reservations s) = 1"
    using assms(2) by (auto simp: update_reservation_state_def Let_def split: if_splits option.splits)
  from n obtain r where r: "r \<in> set (qs_reservations s)" "?hit r"
    by (rule tbl_count_1_obtain)
  have "live k s = live k s'" for k
    unfolding s' using live_update_rows [OF assms(1) r(1), of ?hit "mark_row st e now" k] r(2) assms(3) by simp
  moreover have "quota_wf s'" unfolding s' by (intro wf_update_rows assms(1)) simp_all
  ultimately show ?thesis by (auto intro: lm_same simp: s')
qed

lemma settle_ledger:
  assumes "quota_wf s" and "settle_reservation rid token a now s = Inr (s', row)"
  shows "quota_wf s' \<and> ledger_move R s s'"
proof -
  let ?own = "\<lambda>r. rsv_reservation_id r = rid \<and> rsv_reservation_token r = token"
  obtain r where f: "tbl_find (\<lambda>r. rsv_reservation_id r = rid \<and> rsv_reservation_token r = token
        \<and> active_state (rsv_state r)) (qs_reservations s) = Some r"
    and s': "s' = s\<lparr>qs_quotas := tbl_update (day_row (rsv_target r)) (charge_quota a r now) (qs_quotas s),
        qs_reservations := tbl_update ?own (settle_row a now) (qs_reservations s)\<rparr>"
    and st: "st_state a \<in> settlement_states"
    using assms(2) by (auto simp: settle_reservation_def Let_def split: if_splits option.splits)
  have r: "r \<in> set (qs_reservations s)" "?own r" "active_state (rsv_state r)"
    using tbl_find_SomeD [OF f] by auto
  have "\<not> active_state (st_state a)" using st by (auto simp: settlement_states_def active_state_def)
  then have "live k s = live k s' + (if k = rsv_target r then 1 else 0)" for k
    unfolding s' using live_update [OF assms(1) r(1), of ?own "settle_row a now" k] r(2,3) by auto
  then have "ledger_move R s s'"
    by (intro lm_end [where k = "rsv_target r" and g = "charge_quota a r now"]) (simp_all add: s')
  moreover have "quota_wf s'" unfolding s' by (intro wf_update assms(1)) simp_all
  ultimately show ?thesis by blast
qed

lemma reconcile_plan_cases:
  obtains (expire) "reconcile_plan now stale r = (RS_EXPIRED, ''expired_before_dispatch'', True)"
      "rsv_state r = RS_PENDING \<or> rsv_state r = RS_RESERVED"
  | (uncertain) "reconcile_plan now stale r = (RS_UNCERTAIN, ''stale_after_dispatch'', False)"
      "rsv_state r = RS_DISPATCHING \<or> rsv_state r = RS_SENT"
  | (keep) reason where "reconcile_plan now stale r = (rsv_state r, reason, False)"
proof -
  have "reconcile_plan now stale r = (RS_EXPIRED, ''expired_before_dispatch'', True)
        \<and> (rsv_state r = RS_PENDING \<or> rsv_state r = RS_RESERVED)
    \<or> reconcile_plan now stale r = (RS_UNCERTAIN, ''stale_after_dispatch'', False)
        \<and> (rsv_state r = RS_DISPATCHING \<or> rsv_state r = RS_SENT)
    \<or> (\<exists>reason. reconcile_plan now stale r = (rsv_state r, reason, False))"
    by (auto simp: reconcile_plan_def Let_def)
  then show ?thesis using that by blast
qed

lemma reconcile_one_keep:
  "reconcile_plan now stale row = (rsv_state row, reason, False) \<Longrightarrow>
    fst (reconcile_one now stale row (s, ds)) = s"
  by (simp add: reconcile_one_def)

lemma reconcile_one_change:
  assumes "reconcile_plan now stale row = (ns, reason, release)" and "ns \<noteq> rsv_state row" and "reason \<noteq> []"
    and "quota_wf s"
  shows "fst (reconcile_one now stale row (s, ds)) =
    (if tbl_count (reconcile_hit row) (qs_reservations s) = 1
     then s\<lparr>qs_quotas := (if release then tbl_update (day_row (rsv_target row)) (release_quota row now) (qs_quotas s)
             else qs_quotas s),
          qs_reservations := tbl_update (reconcile_hit row) (reconciled_row now ns reason) (qs_reservations s)\<rparr>
     else s)"
proof -
  have "tbl_count (reconcile_hit row) (qs_reservations s) \<le> 1"
    using assms(4) by (intro tbl_count_guarded_le_1 [of rsv_reservation_id _ _ "rsv_reservation_id row"])
      (auto simp: quota_wf_def reconcile_hit_def)
  then have "tbl_update (reconcile_hit row) f (qs_reservations s) = qs_reservations s"
    if "tbl_count (reconcile_hit row) (qs_reservations s) \<noteq> 1" for f
    using that by (intro tbl_update_none) (metis One_nat_def le_less less_Suc0 tbl_count_0)
  with assms(1-3) show ?thesis
    by (simp add: reconcile_one_def Let_def)
qed

lemma reconcile_one_ledger:
  assumes wf: "quota_wf s"
    and same: "\<And>r. r \<in> set (qs_reservations s) \<Longrightarrow> rsv_reservation_id r = rsv_reservation_id row
      \<Longrightarrow> rsv_target r = rsv_target row"
  shows "quota_wf (fst (reconcile_one now stale row (s, ds)))
    \<and> ledger_move R s (fst (reconcile_one now stale row (s, ds)))"
proof (cases "tbl_count (reconcile_hit row) (qs_reservations s) = 1")
  case True
  then obtain r where r: "r \<in> set (qs_reservations s)" "reconcile_hit row r" by (rule tbl_count_1_obtain)
  have hit: "reconcile_hit row x \<Longrightarrow> rsv_reservation_id x = rsv_reservation_id r" for x
    using r(2) by (simp add: reconcile_hit_def)
  have state: "rsv_state r = rsv_state row" and target: "rsv_target r = rsv_target row"
    using r same by (auto simp: reconcile_hit_def)
  show ?thesis
  proof (cases rule: reconcile_plan_cases [of now stale row])
    case expire
    let ?s = "s\<lparr>qs_quotas := tbl_update (day_row (rsv_target row)) (release_quota row now) (qs_quotas s),
      qs_reservations := tbl_update (reconcile_hit row)
        (reconciled_row now RS_EXPIRED ''expired_before_dispatch'') (qs_reservations s)\<rparr>"
    have eq: "fst (reconcile_one now stale row (s, ds)) = ?s"
      using True expire by (subst reconcile_one_change [OF expire(1) _ _ wf]) auto
    have "live k s = live k ?s + (if k = rsv_target row then 1 else 0)" for k
      using live_update [where P = "reconcile_hit row", OF wf r hit, where f = "reconciled_row now RS_EXPIRED ''expired_before_dispatch''"
        and k = k and Q = "tbl_update (day_row (rsv_target row)) (release_quota row now) (qs_quotas s)"]
        expire(2) state target by (auto simp: active_state_def)
    then have "ledger_move R s ?s"
      by (intro lm_end [where k = "rsv_target row" and g = "release_quota row now"]) simp_all
    moreover have "quota_wf ?s" by (intro wf_update wf) simp_all
    ultimately show ?thesis unfolding eq by blast
  next
    case uncertain
    let ?s = "s\<lparr>qs_reservations := tbl_update (reconcile_hit row)
        (reconciled_row now RS_UNCERTAIN ''stale_after_dispatch'') (qs_reservations s)\<rparr>"
    have eq: "fst (reconcile_one now stale row (s, ds)) = ?s"
      using True uncertain by (subst reconcile_one_change [OF uncertain(1) _ _ wf]) auto
    have "live k s = live k ?s" for k
      using live_update_rows [where P = "reconcile_hit row", OF wf r hit, where f = "reconciled_row now RS_UNCERTAIN ''stale_after_dispatch''"
        and k = k] uncertain(2) state by (auto simp: active_state_def)
    then have "ledger_move R s ?s" by (intro lm_same) simp_all
    moreover have "quota_wf ?s" by (intro wf_update_rows wf) simp_all
    ultimately show ?thesis unfolding eq by blast
  next
    case (keep reason)
    then show ?thesis using wf by (simp add: reconcile_one_keep [OF keep] lm_same)
  qed
next
  case False
  have "fst (reconcile_one now stale row (s, ds)) = s"
  proof (cases rule: reconcile_plan_cases [of now stale row])
    case expire
    then show ?thesis using False by (subst reconcile_one_change [OF expire(1) _ _ wf]) auto
  next
    case uncertain
    then show ?thesis using False by (subst reconcile_one_change [OF uncertain(1) _ _ wf]) auto
  next
    case (keep reason)
    then show ?thesis by (simp add: reconcile_one_keep [OF keep])
  qed
  then show ?thesis using wf by (simp add: lm_same)
qed

text \<open>Reconciling keeps the identity and the target of every row.\<close>

definition row_name :: "request_reservation \<Rightarrow> string \<times> string \<times> target" where
  "row_name r = (rsv_reservation_id r, rsv_idempotency_key r, rsv_target r)"

lemma reconcile_one_names:
  assumes wf: "quota_wf s"
  shows "map row_name (qs_reservations (fst (reconcile_one now stale row (s, ds))))
    = map row_name (qs_reservations s)"
proof -
  have upd: "map row_name (tbl_update P (reconciled_row now ns reason) t) = map row_name t" for P ns reason t
    by (intro tbl_update_keys) (simp add: row_name_def)
  show ?thesis
  proof (cases rule: reconcile_plan_cases [of now stale row])
    case expire
    then show ?thesis by (subst reconcile_one_change [OF expire(1) _ _ wf]) (auto simp: upd)
  next
    case uncertain
    then show ?thesis by (subst reconcile_one_change [OF uncertain(1) _ _ wf]) (auto simp: upd)
  next
    case (keep reason)
    then show ?thesis by (simp add: reconcile_one_keep [OF keep])
  qed
qed

lemma reconcile_fold_ledger:
  assumes "quota_wf s"
    and "\<And>row r. row \<in> set rows \<Longrightarrow> r \<in> set (qs_reservations s)
      \<Longrightarrow> rsv_reservation_id r = rsv_reservation_id row \<Longrightarrow> rsv_target r = rsv_target row"
  shows "quota_wf (fst (fold (reconcile_one now stale) rows (s, ds)))
    \<and> (ledger_move R)\<^sup>*\<^sup>* s (fst (fold (reconcile_one now stale) rows (s, ds)))
    \<and> map row_name (qs_reservations (fst (fold (reconcile_one now stale) rows (s, ds))))
      = map row_name (qs_reservations s)"
  using assms
proof (induction rows arbitrary: s ds)
  case (Cons row rows)
  obtain s1 ds1 where sd: "reconcile_one now stale row (s, ds) = (s1, ds1)" by fastforce
  have step: "quota_wf s1 \<and> ledger_move R s s1"
    using reconcile_one_ledger [OF Cons.prems(1), of row now stale ds R] Cons.prems(2) sd by simp
  have names: "map row_name (qs_reservations s1) = map row_name (qs_reservations s)"
    using reconcile_one_names [OF Cons.prems(1), of now stale row ds] sd by simp
  have "rsv_target r = rsv_target row'"
    if "row' \<in> set rows" "r \<in> set (qs_reservations s1)" "rsv_reservation_id r = rsv_reservation_id row'"
    for row' r
  proof -
    have "row_name r \<in> set (map row_name (qs_reservations s))" using that(2) names [symmetric] by simp
    then obtain r0 where "r0 \<in> set (qs_reservations s)" "row_name r0 = row_name r" by auto
    then show ?thesis using that Cons.prems(2) [of row' r0] by (simp add: row_name_def)
  qed
  with Cons.IH [of s1 ds1] step names show ?case
    by (auto simp: sd intro: converse_rtranclp_into_rtranclp)
qed simp

lemma active_rows_mem: "row \<in> set (active_rows s) \<longleftrightarrow> row \<in> set (qs_reservations s) \<and> active_state (rsv_state row)"
  by (auto simp: active_rows_def)

lemma reconcile_ledger:
  assumes "quota_wf s"
  shows "quota_wf (fst (reconcile_reservations now stale s))
    \<and> (ledger_move R)\<^sup>*\<^sup>* s (fst (reconcile_reservations now stale s))
    \<and> map row_name (qs_reservations (fst (reconcile_reservations now stale s)))
      = map row_name (qs_reservations s)"
  unfolding reconcile_reservations_def
proof (rule reconcile_fold_ledger [OF assms])
  fix row r
  assume "row \<in> set (active_rows s)" "r \<in> set (qs_reservations s)"
    "rsv_reservation_id r = rsv_reservation_id row"
  then have "r = row"
    using assms distinct_map_key_eq [of rsv_reservation_id] unfolding quota_wf_def active_rows_mem by blast
  then show "rsv_target r = rsv_target row" by simp
qed

text \<open>The requests an operation may hold quota for.\<close>

fun op_holds :: "(quota_request \<Rightarrow> instant \<Rightarrow> bool) \<Rightarrow> quota_op \<Rightarrow> bool" where
  "op_holds R (QReserve a rid token now) = R a now"
| "op_holds R _ = True"

text \<open>Refinement: every operation is a run of ledger moves.\<close>

lemma quota_step_ledger:
  assumes "quota_wf s" and "op_holds R x"
  shows "quota_wf (quota_step x s) \<and> (ledger_move R)\<^sup>*\<^sup>* s (quota_step x s)"
proof (cases x)
  case (QReserve a rid token now)
  then show ?thesis
    using assms reserve_ledger [of s a rid token now] by (auto simp: committed_def split: sum.splits)
next
  case (QDispatching rid token now)
  then show ?thesis
    using assms update_state_ledger [of s rid token RS_DISPATCHING "[]" now]
    by (auto simp: committed_def mark_dispatching_def active_state_def split: sum.splits)
next
  case (QSent rid token now)
  then show ?thesis
    using assms update_state_ledger [of s rid token RS_SENT "[]" now]
    by (auto simp: committed_def mark_sent_def active_state_def split: sum.splits)
next
  case (QUncertain rid token e now)
  then show ?thesis
    using assms update_state_ledger [of s rid token RS_UNCERTAIN e now]
    by (auto simp: committed_def mark_uncertain_def active_state_def split: sum.splits)
next
  case (QSettle rid token a now)
  then show ?thesis
    using assms settle_ledger [of s rid token a now] by (auto simp: committed_def split: sum.splits)
next
  case (QReconcile now stale)
  then show ?thesis using assms reconcile_ledger [of s] by simp
qed

lemma empty_quota_wf [simp]: "quota_wf empty_quota_state"
  by (simp add: quota_wf_def empty_quota_state_def)

subsection \<open>No leaked quota\<close>

definition no_leak :: "quota_state \<Rightarrow> bool" where
  "no_leak s \<longleftrightarrow> (\<forall>q \<in> set (qs_quotas s). q_window_type q = WT_DAY
     \<and> 0 \<le> q_reserved_requests q \<and> q_reserved_requests q \<le> int (live (q_target q) s))"

lemma ball_tbl_update:
  "(\<forall>q \<in> set (tbl_update P f t). Q q) \<longleftrightarrow> (\<forall>q \<in> set t. Q (if P q then f q else q))"
  by (auto simp: set_tbl_update)

lemma insert_quota_cases:
  "q \<in> set (tbl_insert_or_ignore quota_key (new_quota a now) t) \<Longrightarrow> q \<in> set t \<or> q = new_quota a now"
  by (auto simp: tbl_insert_or_ignore_def split: if_splits)

lemma new_quota_simps [simp]:
  "q_reserved_requests (new_quota a now) = 0" "q_consumed_requests (new_quota a now) = 0"
  "q_target (new_quota a now) = qr_target a" "q_window_type (new_quota a now) = WT_DAY"
  "q_window_started_at (new_quota a now) = At (day_start now)"
  by (simp_all add: new_quota_def q_target_def qr_target_def)

lemma hold_quota_simps [simp]:
  "q_reserved_requests (hold_quota a now q) = q_reserved_requests q + 1"
  "q_consumed_requests (hold_quota a now q) = q_consumed_requests q"
  "q_target (hold_quota a now q) = q_target q" "q_window_type (hold_quota a now q) = q_window_type q"
  "q_window_started_at (hold_quota a now q) = q_window_started_at q"
  by (simp_all add: hold_quota_def q_target_def)

lemma no_leak_move: "ledger_move R s s' \<Longrightarrow> no_leak s \<Longrightarrow> no_leak s'"
proof (induction rule: ledger_move.induct)
  case (lm_same s' s)
  then show ?case by (simp add: no_leak_def)
next
  case (lm_hold a now quotas s q s')
  have *: "q_window_type x = WT_DAY \<and> 0 \<le> q_reserved_requests x
      \<and> q_reserved_requests x \<le> int (live (q_target x) s)" if "x \<in> set quotas" for x
    using insert_quota_cases [OF that [unfolded lm_hold.hyps(2)]] lm_hold.prems by (auto simp: no_leak_def)
  let ?f = "\<lambda>q. if quota_key q = window_key a now then hold_quota a now q else q"
  have "q_window_type (?f x) = WT_DAY \<and> 0 \<le> q_reserved_requests (?f x)
      \<and> q_reserved_requests (?f x) \<le> int (live (q_target (?f x)) s')" if "x \<in> set quotas" for x
    using * [OF that] lm_hold.hyps(7) [of "q_target x"] by (auto simp: window_key_eq)
  then show ?case unfolding no_leak_def lm_hold.hyps(6) ball_tbl_update by blast
next
  case (lm_end g s' k s)
  let ?f = "\<lambda>q. if day_row k q then g q else q"
  have "q_window_type (?f q) = WT_DAY \<and> 0 \<le> q_reserved_requests (?f q)
      \<and> q_reserved_requests (?f q) \<le> int (live (q_target (?f q)) s')" if q: "q \<in> set (qs_quotas s)" for q
  proof -
    have b: "q_window_type q = WT_DAY \<and> 0 \<le> q_reserved_requests q
        \<and> q_reserved_requests q \<le> int (live (q_target q) s)"
      using q lm_end.prems by (auto simp: no_leak_def)
    have "q_target (g q) = q_target q" "q_window_type (g q) = q_window_type q"
      using lm_end.hyps(1) [of q] quota_key_day by blast+
    then show ?thesis
      using b lm_end.hyps(2) [of q] lm_end.hyps(5) [of "q_target q"] by (auto simp: day_row_def)
  qed
  then show ?case unfolding no_leak_def lm_end.hyps(4) ball_tbl_update by blast
qed

lemma no_leak_moves: "(ledger_move R)\<^sup>*\<^sup>* s s' \<Longrightarrow> no_leak s \<Longrightarrow> no_leak s'"
  by (induction rule: rtranclp_induct) (auto intro: no_leak_move)

lemma op_holds_all [simp]: "op_holds (\<lambda>_ _. True) x"
  by (cases x) simp_all

interpretation quota_rows: kept_invariant quota_step "\<lambda>s. quota_wf s \<and> no_leak s"
  using quota_step_ledger [of _ "\<lambda>_ _. True"] no_leak_moves by unfold_locales (simp, blast)

text \<open>
  C5. Quota is never leaked: after any sequence of reservations, marks, settlements and
  reconciliations, in any order and at any times, every quota row's reserved requests are at least 0 and
  at most the number of live reservations of its provider, pool, account and model.
\<close>

theorem reserved_quota_is_live:
  assumes "q \<in> set (qs_quotas (fold quota_step ops empty_quota_state))"
  shows "0 \<le> q_reserved_requests q
    \<and> q_reserved_requests q \<le> int (live (q_target q) (fold quota_step ops empty_quota_state))"
proof -
  have "no_leak empty_quota_state" by (simp add: no_leak_def empty_quota_state_def)
  then have "no_leak (fold quota_step ops empty_quota_state)"
    using quota_rows.run_keeps [of empty_quota_state ops] by simp
  with assms show ?thesis by (auto simp: no_leak_def)
qed

definition sample_request :: "string \<Rightarrow> quota_request" where
  "sample_request key =
     \<lparr>qr_idempotency_key = key, qr_provider = ''p'', qr_pool_id = ''pool'', qr_account_id = ''a'',
      qr_model = ''m'', qr_request_limit = 1, qr_token_limit = 0, qr_cost_limit = 0,
      qr_estimated_input_tokens = 10, qr_estimated_output_tokens = 10, qr_estimated_cost = 0,
      qr_ttl_seconds = 600, qr_request_id = [], qr_parent_request_id = [], qr_attempt_id = [],
      qr_provider_model_id = [], qr_policy_id = []\<rparr>"

definition sample_release :: settlement where
  "sample_release =
     \<lparr>st_state = RS_RELEASED, st_actual_input_tokens = 0, st_actual_output_tokens = 0,
      st_actual_cost = 0, st_error_code = [], st_request_count_consumed = None,
      st_token_cost_consumed = None, st_monetary_cost_consumed = None\<rparr>"

definition sample_quota_ops :: "quota_op list" where
  "sample_quota_ops = [QReserve (sample_request ''k1'') ''r1'' ''t1'' 0, QSent ''r1'' ''t1'' 1]"

lemma reserved_quota_is_live_witness:
  "q_reserved_requests (hd (qs_quotas (fold quota_step sample_quota_ops empty_quota_state)))
    \<le> int (live (''p'', ''pool'', ''a'', ''m'') (fold quota_step sample_quota_ops empty_quota_state))"
proof -
  have "hd (qs_quotas (fold quota_step sample_quota_ops empty_quota_state))
      \<in> set (qs_quotas (fold quota_step sample_quota_ops empty_quota_state))"
    and "q_target (hd (qs_quotas (fold quota_step sample_quota_ops empty_quota_state)))
      = (''p'', ''pool'', ''a'', ''m'')"
    by code_simp+
  then show ?thesis using reserved_quota_is_live by fastforce
qed

subsection \<open>The daily limit\<close>

text \<open>
  The ledger of one target \<open>k\<close> whose holds all fall on the day \<open>d\<close> under the limit \<open>L\<close>: at most one row,
  whose reserved requests are exactly the live reservations, with room under the limit.
\<close>

definition target_rows :: "target \<Rightarrow> quota_runtime list \<Rightarrow> quota_runtime list" where
  "target_rows k t = filter (\<lambda>q. q_target q = k) t"

definition day_row_ok :: "target \<Rightarrow> instant \<Rightarrow> int \<Rightarrow> int \<Rightarrow> quota_runtime \<Rightarrow> bool" where
  "day_row_ok k d L n q \<longleftrightarrow> q_target q = k \<and> q_window_type q = WT_DAY \<and> q_window_started_at q = At d
     \<and> q_reserved_requests q = n \<and> 0 \<le> q_consumed_requests q \<and> n + q_consumed_requests q \<le> L"

definition day_ledger :: "target \<Rightarrow> instant \<Rightarrow> int \<Rightarrow> quota_state \<Rightarrow> bool" where
  "day_ledger k d L s \<longleftrightarrow> (case target_rows k (qs_quotas s) of
     [] \<Rightarrow> live k s = 0 | [q] \<Rightarrow> day_row_ok k d L (int (live k s)) q | _ \<Rightarrow> False)"

definition same_day :: "target \<Rightarrow> instant \<Rightarrow> int \<Rightarrow> quota_request \<Rightarrow> instant \<Rightarrow> bool" where
  "same_day k d L a now \<longleftrightarrow> (qr_target a = k \<longrightarrow> day_start now = d \<and> qr_request_limit a = L)"

lemma over_limit_None:
  "over_limit a q = None \<Longrightarrow> qr_request_limit a \<noteq> 0 \<Longrightarrow>
    q_reserved_requests q + q_consumed_requests q + 1 \<le> qr_request_limit a"
  by (auto simp: over_limit_def Let_def split: if_splits)

lemma target_rows_update:
  "(\<And>q. q_target (f q) = q_target q) \<Longrightarrow>
    target_rows k (tbl_update P f t) = tbl_update P f (target_rows k t)"
  by (induction t) (auto simp: target_rows_def tbl_update_def)

lemma target_rows_insert:
  "target_rows k (tbl_insert_or_ignore quota_key (new_quota a now) t)
    = (if qr_target a = k then tbl_insert_or_ignore quota_key (new_quota a now) (target_rows k t)
       else target_rows k t)"
proof -
  have "q_target x = qr_target a" if "quota_key x = window_key a now" for x using that by (simp add: window_key_eq)
  then show ?thesis
    by (auto simp: target_rows_def tbl_insert_or_ignore_def image_iff) (metis window_key_eq)+
qed

lemma target_rows_mem: "q \<in> set (target_rows k t) \<longleftrightarrow> q \<in> set t \<and> q_target q = k"
  by (auto simp: target_rows_def)

lemma day_ledger_cong:
  "target_rows k (qs_quotas s') = target_rows k (qs_quotas s) \<Longrightarrow> live k s' = live k s \<Longrightarrow>
    day_ledger k d L s' = day_ledger k d L s"
  by (simp only: day_ledger_def)

lemma day_ledger_move:
  assumes "0 < L"
  shows "ledger_move (same_day k d L) s s' \<Longrightarrow> day_ledger k d L s \<Longrightarrow> day_ledger k d L s'"
proof (induction rule: ledger_move.induct)
  case (lm_same s' s)
  then show ?case using day_ledger_cong [of k s' s] by simp
next
  case (lm_hold a now quotas s q s')
  let ?P = "\<lambda>q. quota_key q = window_key a now"
  have rows': "target_rows k (qs_quotas s') = tbl_update ?P (hold_quota a now) (target_rows k quotas)"
    unfolding lm_hold.hyps(6) by (rule target_rows_update) simp
  show ?case
  proof (cases "qr_target a = k")
    case False
    have "tbl_update ?P (hold_quota a now) (target_rows k quotas) = target_rows k (qs_quotas s)"
      unfolding lm_hold.hyps(2) target_rows_insert using False
      by (simp add: window_key_eq) (rule tbl_update_none, auto simp: target_rows_mem)
    then show ?thesis using lm_hold.prems lm_hold.hyps(7) [of k] False rows' day_ledger_cong [of k s' s] by simp
  next
    case True
    with lm_hold.hyps(1) have d: "day_start now = d" and L: "qr_request_limit a = L"
      by (simp_all add: same_day_def)
    have live': "int (live k s') = int (live k s) + 1" using lm_hold.hyps(7) [of k] True by simp
    have q: "q \<in> set (target_rows k quotas)"
      using lm_hold.hyps(3,4) True by (simp add: target_rows_mem window_key_eq)
    have room: "q_reserved_requests q + q_consumed_requests q + 1 \<le> L"
      using over_limit_None [OF lm_hold.hyps(5)] L assms by simp
    consider "target_rows k (qs_quotas s) = []" "live k s = 0"
      | x where "target_rows k (qs_quotas s) = [x]" "day_row_ok k d L (int (live k s)) x"
      using lm_hold.prems by (auto simp: day_ledger_def split: list.splits)
    then show ?thesis
    proof cases
      case 1
      then have "target_rows k quotas = [new_quota a now]"
        unfolding lm_hold.hyps(2) target_rows_insert using True by (simp add: tbl_insert_or_ignore_def)
      then show ?thesis
        using 1 True d assms live' by (simp add: day_ledger_def rows' tbl_update_def day_row_ok_def)
    next
      case 2
      then have key: "quota_key x = window_key a now" using True d by (simp add: window_key_eq day_row_ok_def)
      with 2 have "target_rows k quotas = [x]"
        unfolding lm_hold.hyps(2) target_rows_insert using True by (simp add: tbl_insert_or_ignore_def)
      then show ?thesis
        using 2(2) q room live' key by (simp add: day_ledger_def rows' tbl_update_def day_row_ok_def)
    qed
  qed
next
  case (lm_end g s' k' s)
  have g: "q_target (g q) = q_target q" "q_window_type (g q) = q_window_type q"
    "q_window_started_at (g q) = q_window_started_at q" for q
    using lm_end.hyps(1) [of q] quota_key_day by blast+
  then have rows': "target_rows k (qs_quotas s') = tbl_update (day_row k') g (target_rows k (qs_quotas s))"
    unfolding lm_end.hyps(4) by (intro target_rows_update)
  have l: "int (live k s) = int (live k s') + (if k = k' then 1 else 0)" using lm_end.hyps(5) [of k] by simp
  consider "target_rows k (qs_quotas s) = []" "live k s = 0"
    | x where "target_rows k (qs_quotas s) = [x]" "day_row_ok k d L (int (live k s)) x"
    using lm_end.prems by (auto simp: day_ledger_def split: list.splits)
  then show ?case
  proof cases
    case 1
    then show ?thesis using l by (auto simp: day_ledger_def rows' tbl_update_def split: if_splits)
  next
    case 2
    then have "day_row k' x \<longleftrightarrow> k = k'" by (auto simp: day_row_ok_def day_row_def)
    then show ?thesis
      using 2 g [of x] lm_end.hyps(2) [of x] lm_end.hyps(3) [of x] l
      by (auto simp: day_ledger_def rows' tbl_update_def day_row_ok_def)
  qed
qed

lemma day_ledger_run:
  assumes "0 < L" and "\<forall>x \<in> set ops. op_holds (same_day k d L) x" and "quota_wf s" and "day_ledger k d L s"
  shows "quota_wf (fold quota_step ops s) \<and> day_ledger k d L (fold quota_step ops s)"
  using assms(2-)
proof (induction ops arbitrary: s)
  case (Cons x ops)
  have "day_ledger k d L s''" if "(ledger_move (same_day k d L))\<^sup>*\<^sup>* s s''" for s''
    using that Cons.prems(3) by (induction rule: rtranclp_induct) (auto intro: day_ledger_move [OF assms(1)])
  then show ?case using quota_step_ledger [OF Cons.prems(2), of "same_day k d L" x] Cons by auto
qed simp

text \<open>
  C6. No overcommit within a day: from empty tables, as long as the reservations of a target are made
  on one UTC day under one positive daily limit, its live reservations and the requests its quota row has
  consumed never exceed the limit together, whatever settlements, marks and reconciliations interleave.
\<close>

theorem daily_limit_respected:
  assumes "0 < L" and "\<forall>x \<in> set ops. op_holds (same_day k d L) x"
    and "q \<in> set (qs_quotas (fold quota_step ops empty_quota_state))" and "q_target q = k"
  shows "int (live k (fold quota_step ops empty_quota_state)) + q_consumed_requests q \<le> L"
proof -
  let ?s = "fold quota_step ops empty_quota_state"
  have "day_ledger k d L empty_quota_state"
    by (simp add: day_ledger_def target_rows_def empty_quota_state_def live_def tbl_count_def)
  then have "day_ledger k d L ?s" using day_ledger_run [OF assms(1,2)] by simp
  moreover have "q \<in> set (target_rows k (qs_quotas ?s))" using assms(3,4) by (simp add: target_rows_mem)
  ultimately show ?thesis by (auto simp: day_ledger_def day_row_ok_def split: list.splits)
qed

lemma daily_limit_respected_witness:
  "int (live (''p'', ''pool'', ''a'', ''m'') (fold quota_step sample_quota_ops empty_quota_state)) \<le> 1"
proof -
  let ?q = "hd (qs_quotas (fold quota_step sample_quota_ops empty_quota_state))"
  have "?q \<in> set (qs_quotas (fold quota_step sample_quota_ops empty_quota_state))"
    and "q_target ?q = (''p'', ''pool'', ''a'', ''m'')" and c: "q_consumed_requests ?q = 0"
    by code_simp+
  moreover have "\<forall>x \<in> set sample_quota_ops. op_holds (same_day (''p'', ''pool'', ''a'', ''m'') 0 1) x"
    by (simp add: sample_quota_ops_def same_day_def sample_request_def day_start_def)
  ultimately show ?thesis
    using daily_limit_respected [of 1 sample_quota_ops "(''p'', ''pool'', ''a'', ''m'')" 0 ?q] by simp
qed

definition midnight_ops :: "quota_op list" where
  "midnight_ops =
     [QReserve (sample_request ''k1'') ''r1'' ''t1'' 0,
      QReserve (sample_request ''k2'') ''r2'' ''t2'' day_length,
      QSettle ''r1'' ''t1'' sample_release (day_length + 1),
      QReserve (sample_request ''k3'') ''r3'' ''t3'' (day_length + 2)]"

text \<open>
  Across midnight the limit does not hold: settling a reservation of yesterday releases the request
  in today's row as well, since the release matches \<open>window_type = 'day'\<close> and not the window's start.
  With a daily limit of 1, the run below ends with two live reservations that were both made on the
  second day.
\<close>

theorem midnight_overcommit:
  "let s = fold quota_step midnight_ops empty_quota_state in
     live (''p'', ''pool'', ''a'', ''m'') s = 2
     \<and> map rsv_created_at (filter (\<lambda>r. active_state (rsv_state r)) (qs_reservations s))
       = [At day_length, At (day_length + 2)]
     \<and> qr_request_limit (sample_request ''k3'') = 1"
  by code_simp

subsection \<open>Fencing: a settled reservation stays settled\<close>

text \<open>Rows keep their identity; a row that is no longer active is never written again.\<close>

definition rows_after :: "quota_state \<Rightarrow> quota_state \<Rightarrow> bool" where
  "rows_after s t \<longleftrightarrow> (\<forall>r \<in> set (qs_reservations s). \<exists>r' \<in> set (qs_reservations t).
     row_name r' = row_name r \<and> rsv_fencing_token r \<le> rsv_fencing_token r'
     \<and> (\<not> active_state (rsv_state r) \<longrightarrow> r' = r))"

lemma rows_after_refl: "rows_after s s"
  by (auto simp: rows_after_def)

lemma rows_after_trans: "rows_after s t \<Longrightarrow> rows_after t u \<Longrightarrow> rows_after s u"
  unfolding rows_after_def by (metis (no_types, lifting) order_trans)

lemma rows_after_update:
  assumes "qs_reservations s' = tbl_update P f (qs_reservations s)"
    and "\<And>r. r \<in> set (qs_reservations s) \<Longrightarrow> P r \<Longrightarrow> active_state (rsv_state r)"
    and "\<And>r. row_name (f r) = row_name r" and "\<And>r. rsv_fencing_token r \<le> rsv_fencing_token (f r)"
  shows "rows_after s s'"
  unfolding rows_after_def
proof
  fix r assume r: "r \<in> set (qs_reservations s)"
  then have "(if P r then f r else r) \<in> set (qs_reservations s')" by (simp add: assms(1) set_tbl_update)
  then show "\<exists>r' \<in> set (qs_reservations s'). row_name r' = row_name r
      \<and> rsv_fencing_token r \<le> rsv_fencing_token r' \<and> (\<not> active_state (rsv_state r) \<longrightarrow> r' = r)"
    by (rule bexI [rotated]) (use assms(2-4) r in auto)
qed

lemma reconcile_one_effect:
  assumes wf: "quota_wf s"
  shows "fst (reconcile_one now stale row (s, ds)) = s \<or>
    (\<exists>b ns reason. fst (reconcile_one now stale row (s, ds)) =
      s\<lparr>qs_quotas := (if b then tbl_update (day_row (rsv_target row)) (release_quota row now) (qs_quotas s)
          else qs_quotas s),
        qs_reservations := tbl_update (reconcile_hit row) (reconciled_row now ns reason) (qs_reservations s)\<rparr>)"
proof (cases rule: reconcile_plan_cases [of now stale row])
  case expire
  then have "RS_EXPIRED \<noteq> rsv_state row" by auto
  note eq = reconcile_one_change [OF expire(1) this _ wf, of ds]
  show ?thesis
  proof (cases "tbl_count (reconcile_hit row) (qs_reservations s) = 1")
    case True
    then show ?thesis
      by (intro disjI2 exI [of _ True] exI [of _ RS_EXPIRED] exI [of _ "''expired_before_dispatch''"])
        (simp add: eq)
  qed (simp add: eq)
next
  case uncertain
  then have "RS_UNCERTAIN \<noteq> rsv_state row" by auto
  note eq = reconcile_one_change [OF uncertain(1) this _ wf, of ds]
  show ?thesis
  proof (cases "tbl_count (reconcile_hit row) (qs_reservations s) = 1")
    case True
    then show ?thesis
      by (intro disjI2 exI [of _ False] exI [of _ RS_UNCERTAIN] exI [of _ "''stale_after_dispatch''"])
        (simp add: eq)
  qed (simp add: eq)
next
  case (keep reason)
  then show ?thesis by (simp add: reconcile_one_keep [OF keep])
qed

lemma reconcile_one_rows:
  assumes wf: "quota_wf s" and "active_state (rsv_state row)"
  shows "quota_wf (fst (reconcile_one now stale row (s, ds)))
    \<and> rows_after s (fst (reconcile_one now stale row (s, ds)))"
proof (cases "fst (reconcile_one now stale row (s, ds)) = s")
  case True
  then show ?thesis using wf by (simp add: rows_after_refl)
next
  case False
  with reconcile_one_effect [OF wf, of now stale row ds] obtain b ns reason where
    eq: "fst (reconcile_one now stale row (s, ds)) =
      s\<lparr>qs_quotas := (if b then tbl_update (day_row (rsv_target row)) (release_quota row now) (qs_quotas s)
          else qs_quotas s),
        qs_reservations := tbl_update (reconcile_hit row) (reconciled_row now ns reason) (qs_reservations s)\<rparr>"
    by blast
  have "rows_after s (fst (reconcile_one now stale row (s, ds)))"
    unfolding eq
    by (rule rows_after_update [where f = "reconciled_row now ns reason" and P = "reconcile_hit row"])
      (use assms(2) in \<open>simp_all add: row_name_def reconcile_hit_def\<close>)
  moreover have "quota_wf (fst (reconcile_one now stale row (s, ds)))"
    unfolding eq by (cases b) (simp_all add: wf_update wf_update_rows wf)
  ultimately show ?thesis by blast
qed

lemma reconcile_rows_after:
  assumes "quota_wf s" and "\<forall>row \<in> set rows. active_state (rsv_state row)"
  shows "rows_after s (fst (fold (reconcile_one now stale) rows (s, ds)))"
  using assms
proof (induction rows arbitrary: s ds)
  case (Cons row rows)
  obtain s1 ds1 where sd: "reconcile_one now stale row (s, ds) = (s1, ds1)" by fastforce
  have "quota_wf s1" and one: "rows_after s s1"
    using reconcile_one_rows [OF Cons.prems(1), of row now stale ds] Cons.prems(2) by (simp_all add: sd)
  then have "rows_after s1 (fst (fold (reconcile_one now stale) rows (s1, ds1)))"
    using Cons by simp
  then show ?case using rows_after_trans [OF one] by (simp add: sd)
qed (simp add: rows_after_refl)

lemma quota_step_rows:
  assumes wf: "quota_wf s"
  shows "rows_after s (quota_step x s)"
proof -
  have mark: "rows_after s (committed s (update_reservation_state rid token st e now s))" for rid token st e now
    by (auto simp: committed_def update_reservation_state_def Let_def rows_after_refl row_name_def
        split: sum.splits if_splits option.splits
        intro!: rows_after_update [where f = "mark_row st e now" and P =
          "\<lambda>r. rsv_reservation_id r = rid \<and> rsv_reservation_token r = token \<and> active_state (rsv_state r)"])
  show ?thesis
  proof (cases x)
    case (QReserve a rid token now)
    have "rows_after s s'" if res: "reserve_quota a rid token now s = Inr (s', row)" for s' row
    proof (cases "tbl_find (\<lambda>r. rsv_idempotency_key r = qr_idempotency_key a) (qs_reservations s)")
      case None
      show ?thesis using reserve_new(3) [OF res None] by (auto simp: rows_after_def)
    qed (use res in \<open>simp add: reserve_existing rows_after_refl\<close>)
    then show ?thesis using QReserve by (auto simp: committed_def rows_after_refl split: sum.splits)
  next
    case (QSettle rid token a now)
    have "rows_after s s'" if res: "settle_reservation rid token a now s = Inr (s', row)" for s' row
    proof -
      let ?own = "\<lambda>r. rsv_reservation_id r = rid \<and> rsv_reservation_token r = token"
      obtain r where f: "tbl_find (\<lambda>r. rsv_reservation_id r = rid \<and> rsv_reservation_token r = token
            \<and> active_state (rsv_state r)) (qs_reservations s) = Some r"
        and s': "qs_reservations s' = tbl_update ?own (settle_row a now) (qs_reservations s)"
        using res by (auto simp: settle_reservation_def Let_def split: if_splits option.splits)
      have r: "r \<in> set (qs_reservations s)" "?own r" "active_state (rsv_state r)"
        using tbl_find_SomeD [OF f] by auto
      have "x = r" if "x \<in> set (qs_reservations s)" "?own x" for x
        using that r wf distinct_map_key_eq [of rsv_reservation_id "qs_reservations s" x r]
        by (simp add: quota_wf_def)
      then show ?thesis
        using r(3) by (intro rows_after_update [OF s']) (auto simp: row_name_def)
    qed
    then show ?thesis using QSettle by (auto simp: committed_def rows_after_refl split: sum.splits)
  next
    case (QReconcile now stale)
    then show ?thesis
      using reconcile_rows_after [OF wf, of "active_rows s"]
      by (simp add: reconcile_reservations_def active_rows_mem)
  qed (simp_all add: mark mark_dispatching_def mark_sent_def mark_uncertain_def)
qed

interpretation reservation_rows: run_order quota_step rows_after quota_wf
  using quota_step_ledger [of _ "\<lambda>_ _. True"] rows_after_refl rows_after_trans quota_step_rows
  by unfold_locales (simp, simp, blast, simp)

lemma reachable_wf: "quota_wf (fold quota_step ops empty_quota_state)"
  using reservation_rows.run_inv [of empty_quota_state ops] by simp

lemma settled_is_inactive: "s \<in> settlement_states \<Longrightarrow> \<not> active_state s"
  by (auto simp: settlement_states_def active_state_def)

lemma settle_result:
  assumes "quota_wf s" and "settle_reservation rid token a now s = Inr (s', row)"
  shows "row \<in> set (qs_reservations s')" and "rsv_reservation_id row = rid"
    and "\<not> active_state (rsv_state row)"
proof -
  let ?own = "\<lambda>r. rsv_reservation_id r = rid \<and> rsv_reservation_token r = token"
  obtain r where f: "tbl_find (\<lambda>r. rsv_reservation_id r = rid \<and> rsv_reservation_token r = token
        \<and> active_state (rsv_state r)) (qs_reservations s) = Some r"
    and s': "qs_reservations s' = tbl_update ?own (settle_row a now) (qs_reservations s)"
    and st: "st_state a \<in> settlement_states"
    and row: "find_reservation rid (qs_reservations s') = Some row"
    using assms(2) by (auto simp: settle_reservation_def Let_def split: if_splits option.splits)
  have r: "r \<in> set (qs_reservations s)" "?own r" using tbl_find_SomeD [OF f] by auto
  show mem: "row \<in> set (qs_reservations s')" and id: "rsv_reservation_id row = rid"
    using find_reservation_mem [OF row] by auto
  have "settle_row a now r \<in> set (qs_reservations s')" using r by (auto simp: s' set_tbl_update)
  moreover have "distinct (map rsv_reservation_id (qs_reservations s'))"
    using settle_ledger [OF assms] by (simp add: quota_wf_def)
  ultimately have "row = settle_row a now r"
    using mem id r distinct_map_key_eq [of rsv_reservation_id "qs_reservations s'" row "settle_row a now r"] by simp
  then show "\<not> active_state (rsv_state row)" using settled_is_inactive [OF st] by simp
qed

lemma inactive_refused:
  assumes "quota_wf s" and "row \<in> set (qs_reservations s)" and "\<not> active_state (rsv_state row)"
  shows "update_reservation_state (rsv_reservation_id row) token st e now s
      = Inl (FencingTokenError ''Reservation token is stale or invalid'')"
    and "st_state a \<in> settlement_states \<Longrightarrow> settle_reservation (rsv_reservation_id row) token a now s
      = Inl (FencingTokenError ''Reservation token is stale or invalid'')"
proof -
  let ?hit = "\<lambda>r. rsv_reservation_id r = rsv_reservation_id row \<and> rsv_reservation_token r = token
    \<and> active_state (rsv_state r)"
  have none: "\<not> ?hit r" if "r \<in> set (qs_reservations s)" for r
    using that assms distinct_map_key_eq [of rsv_reservation_id "qs_reservations s" r row]
    by (auto simp: quota_wf_def)
  then have "tbl_count ?hit (qs_reservations s) = 0" "tbl_find ?hit (qs_reservations s) = None"
    by (auto simp: tbl_count_0 tbl_find_None)
  then show "update_reservation_state (rsv_reservation_id row) token st e now s
      = Inl (FencingTokenError ''Reservation token is stale or invalid'')"
    and "st_state a \<in> settlement_states \<Longrightarrow> settle_reservation (rsv_reservation_id row) token a now s
      = Inl (FencingTokenError ''Reservation token is stale or invalid'')"
    by (simp_all add: update_reservation_state_def settle_reservation_def)
qed

text \<open>
  C7. A reservation is settled once: after \<open>settle_reservation\<close> succeeds, and after any further
  operations, its row is as the settlement wrote it, and every settlement or mark of it is refused with
  \<open>FencingTokenError\<close>, whatever token it presents. Quota is not released or charged twice.
\<close>

theorem settled_once:
  assumes "settle_reservation rid token a now (fold quota_step earlier empty_quota_state) = Inr (s1, row)"
    and "st_state a' \<in> settlement_states"
  shows "row \<in> set (qs_reservations (fold quota_step later s1))
    \<and> settle_reservation rid token' a' now' (fold quota_step later s1)
      = Inl (FencingTokenError ''Reservation token is stale or invalid'')
    \<and> update_reservation_state rid token' st e now' (fold quota_step later s1)
      = Inl (FencingTokenError ''Reservation token is stale or invalid'')"
proof -
  have wf1: "quota_wf s1" using settle_ledger [OF reachable_wf assms(1)] by blast
  note row = settle_result [OF reachable_wf assms(1)]
  have "rows_after s1 (fold quota_step later s1)" using wf1 by (rule reservation_rows.run_ord)
  then have mem: "row \<in> set (qs_reservations (fold quota_step later s1))"
    using row(1,3) by (auto simp: rows_after_def)
  have "quota_wf (fold quota_step later s1)" using wf1 by (rule reservation_rows.run_inv)
  from inactive_refused [OF this mem row(3)] mem assms(2) row(2) show ?thesis by auto
qed

lemma settled_once_witness:
  "\<exists>s1 row. settle_reservation ''r1'' ''t1'' sample_release 5 (fold quota_step sample_quota_ops empty_quota_state)
      = Inr (s1, row)
    \<and> settle_reservation ''r1'' ''t1'' sample_release 9 (fold quota_step [QReconcile 7 60] s1)
      = Inl (FencingTokenError ''Reservation token is stale or invalid'')"
proof -
  have "\<not> isl (settle_reservation ''r1'' ''t1'' sample_release 5 (fold quota_step sample_quota_ops empty_quota_state))"
    by code_simp
  then obtain s1 row where eq: "settle_reservation ''r1'' ''t1'' sample_release 5
      (fold quota_step sample_quota_ops empty_quota_state) = Inr (s1, row)"
    by (metis isl_def sum.collapse(2) surj_pair)
  have "st_state sample_release \<in> settlement_states" by (simp add: sample_release_def settlement_states_def)
  from settled_once [OF eq this, of "[QReconcile 7 60]" "''t1''" 9] eq show ?thesis by blast
qed

text \<open>
  Reserving is idempotent: once a key has been reserved, and after any further operations, reserving
  with the same key changes nothing and answers with the same reservation, in its current state.
\<close>

theorem reserve_idempotent:
  assumes "reserve_quota a rid token now (fold quota_step earlier empty_quota_state) = Inr (s1, row)"
    and "qr_idempotency_key a' = qr_idempotency_key a"
  shows "\<exists>row'. reserve_quota a' rid' token' now' (fold quota_step later s1) = Inr (fold quota_step later s1, row')
    \<and> rsv_reservation_id row' = rsv_reservation_id row \<and> rsv_fencing_token row \<le> rsv_fencing_token row'"
proof -
  let ?before = "fold quota_step earlier empty_quota_state" and ?s = "fold quota_step later s1"
  have wf1: "quota_wf s1"
    using reserve_ledger [OF reachable_wf assms(1), of "\<lambda>_ _. True"] by blast
  have row: "row \<in> set (qs_reservations s1) \<and> rsv_idempotency_key row = qr_idempotency_key a"
  proof (cases "tbl_find (\<lambda>r. rsv_idempotency_key r = qr_idempotency_key a) (qs_reservations ?before)")
    case None
    then show ?thesis using reserve_new(1,3) [OF assms(1) None] by simp
  next
    case (Some r)
    then show ?thesis using assms(1) tbl_find_SomeD [OF Some] by (simp add: reserve_existing)
  qed
  have "rows_after s1 ?s" using wf1 by (rule reservation_rows.run_ord)
  with row obtain r' where r': "r' \<in> set (qs_reservations ?s)" "row_name r' = row_name row"
    "rsv_fencing_token row \<le> rsv_fencing_token r'" by (auto simp: rows_after_def)
  have "distinct (map rsv_idempotency_key (qs_reservations ?s))"
    using reservation_rows.run_inv [OF wf1, of later] by (simp add: quota_wf_def)
  then have "tbl_find (\<lambda>r. rsv_idempotency_key r = qr_idempotency_key a') (qs_reservations ?s) = Some r'"
    using r' row assms(2) by (intro tbl_find_unique [where key = rsv_idempotency_key]) (auto simp: row_name_def)
  then show ?thesis using r' by (simp add: reserve_existing row_name_def)
qed

lemma reserve_idempotent_witness:
  "\<exists>s1 row row'. reserve_quota (sample_request ''k1'') ''r1'' ''t1'' 0 empty_quota_state = Inr (s1, row)
    \<and> reserve_quota (sample_request ''k1'') ''r9'' ''t9'' 50 (fold quota_step [QSent ''r1'' ''t1'' 1] s1)
      = Inr (fold quota_step [QSent ''r1'' ''t1'' 1] s1, row')
    \<and> rsv_reservation_id row' = rsv_reservation_id row"
proof -
  have "\<not> isl (reserve_quota (sample_request ''k1'') ''r1'' ''t1'' 0 empty_quota_state)"
    by code_simp
  then obtain s1 row where eq: "reserve_quota (sample_request ''k1'') ''r1'' ''t1'' 0
      (fold quota_step [] empty_quota_state) = Inr (s1, row)"
    by (metis fold_simps(1) isl_def sum.collapse(2) surj_pair)
  from reserve_idempotent [OF eq refl, of "''r9''" "''t9''" 50 "[QSent ''r1'' ''t1'' 1]"] eq show ?thesis
    by auto
qed

subsection \<open>Reconciliation, row by row\<close>

definition reconciled :: "instant \<Rightarrow> int \<Rightarrow> request_reservation \<Rightarrow> request_reservation" where
  "reconciled now stale r =
     (let (new_state, reason, release) = reconcile_plan now stale r
      in if active_state (rsv_state r) \<and> new_state \<noteq> rsv_state r then reconciled_row now new_state reason r else r)"

lemma reconciled_id [simp]: "rsv_reservation_id (reconciled now stale r) = rsv_reservation_id r"
  by (simp add: reconciled_def split: prod.splits)

lemma hit_self:
  assumes "quota_wf s" and "row \<in> set (qs_reservations s)" and "x \<in> set (qs_reservations s)"
  shows "reconcile_hit row x \<longleftrightarrow> x = row"
proof -
  have "rsv_reservation_id x = rsv_reservation_id row \<longleftrightarrow> x = row"
    using assms distinct_map_key_eq [of rsv_reservation_id "qs_reservations s" x row] by (auto simp: quota_wf_def)
  moreover have "rsv_fencing_token row \<noteq> 0" using assms(1,2) by (auto simp: quota_wf_def)
  ultimately show ?thesis by (auto simp: reconcile_hit_def)
qed

lemma reconcile_one_row:
  assumes wf: "quota_wf s" and row: "row \<in> set (qs_reservations s)" and "active_state (rsv_state row)"
  shows "qs_reservations (fst (reconcile_one now stale row (s, ds)))
    = map (\<lambda>r. if r = row then reconciled now stale r else r) (qs_reservations s)"
proof -
  have "tbl_count (reconcile_hit row) (qs_reservations s) = 1"
    using wf row hit_self [OF wf row row]
    by (intro tbl_count_guarded_eq_1 [where key = rsv_reservation_id and k = "rsv_reservation_id row" and r = row])
      (auto simp: quota_wf_def reconcile_hit_def)
  moreover have "tbl_update (reconcile_hit row) f (qs_reservations s)
      = map (\<lambda>r. if r = row then f r else r) (qs_reservations s)" for f
    using hit_self [OF wf row] by (simp add: tbl_update_def)
  ultimately have change: "qs_reservations (fst (reconcile_one now stale row (s, ds)))
      = map (\<lambda>r. if r = row then reconciled_row now ns reason r else r) (qs_reservations s)"
    if "reconcile_plan now stale row = (ns, reason, release)" "ns \<noteq> rsv_state row" "reason \<noteq> []" for ns reason release
    using reconcile_one_change [OF that wf, of ds] by simp
  show ?thesis
  proof (cases rule: reconcile_plan_cases [of now stale row])
    case expire
    then show ?thesis using change [OF expire(1)] assms(3) by (auto simp: reconciled_def)
  next
    case uncertain
    then show ?thesis using change [OF uncertain(1)] assms(3) by (auto simp: reconciled_def)
  next
    case (keep reason)
    then show ?thesis by (auto simp: reconcile_one_keep [OF keep] reconciled_def intro!: map_idI [symmetric])
  qed
qed

lemma reconcile_fold_rows:
  assumes "quota_wf s" and "set rows \<subseteq> set (qs_reservations s)" and "distinct (map rsv_reservation_id rows)"
    and "\<forall>row \<in> set rows. active_state (rsv_state row)"
  shows "qs_reservations (fst (fold (reconcile_one now stale) rows (s, ds)))
    = map (\<lambda>r. if r \<in> set rows then reconciled now stale r else r) (qs_reservations s)"
  using assms
proof (induction rows arbitrary: s ds)
  case (Cons row rows)
  obtain s1 ds1 where sd: "reconcile_one now stale row (s, ds) = (s1, ds1)" by fastforce
  have rows1: "qs_reservations s1 = map (\<lambda>r. if r = row then reconciled now stale r else r) (qs_reservations s)"
    using reconcile_one_row [of s row now stale ds] Cons.prems by (simp add: sd)
  have wf1: "quota_wf s1"
    using reconcile_one_rows [OF Cons.prems(1), of row now stale ds] Cons.prems(4) by (simp add: sd)
  have other: "x \<noteq> row \<and> rsv_reservation_id x \<noteq> rsv_reservation_id row" if "x \<in> set rows" for x
    using that Cons.prems(3) by (auto simp: image_iff)
  have "set rows \<subseteq> set (qs_reservations s1)"
    using Cons.prems(2) other by (fastforce simp: rows1)
  then have "qs_reservations (fst (fold (reconcile_one now stale) rows (s1, ds1)))
      = map (\<lambda>r. if r \<in> set rows then reconciled now stale r else r) (qs_reservations s1)"
    using Cons.IH [OF wf1] Cons.prems(3,4) by simp
  moreover have "reconciled now stale row \<notin> set rows" using other by fastforce
  ultimately show ?case using other by (auto simp: sd rows1)
qed simp

text \<open>
  \<open>reconcile_reservations\<close> treats every reservation as \<open>reconciled\<close> says, independently of the
  others and of the order of the loop: a live row not yet dispatched expires at its deadline, a stale
  dispatched or sent one becomes \<open>UNCERTAIN\<close>, and nothing else is written.
\<close>

theorem reconcile_row_by_row:
  "qs_reservations (fst (reconcile_reservations now stale (fold quota_step ops empty_quota_state)))
    = map (reconciled now stale) (qs_reservations (fold quota_step ops empty_quota_state))"
proof -
  let ?s = "fold quota_step ops empty_quota_state"
  have d: "distinct (map rsv_reservation_id (qs_reservations ?s))" using reachable_wf by (simp add: quota_wf_def)
  have "distinct (active_rows ?s)" and "set (active_rows ?s) \<subseteq> set (qs_reservations ?s)"
    using d by (auto simp: active_rows_def distinct_map)
  then have "distinct (map rsv_reservation_id (active_rows ?s))"
    using d by (auto simp: distinct_map intro: inj_on_subset)
  then have "qs_reservations (fst (reconcile_reservations now stale ?s))
      = map (\<lambda>r. if r \<in> set (active_rows ?s) then reconciled now stale r else r) (qs_reservations ?s)"
    unfolding reconcile_reservations_def
    by (intro reconcile_fold_rows reachable_wf) (auto simp: active_rows_mem)
  also have "\<dots> = map (reconciled now stale) (qs_reservations ?s)"
    by (rule map_cong) (auto simp: active_rows_mem reconciled_def split: prod.splits)
  finally show ?thesis .
qed

end
