(* ===== verification/KR_Errors.thy ===== *)
theory KR_Errors
  imports KR_Types Json
begin

text \<open>
  Provider errors and retries: \<open>parse_retry_after\<close> (\<open>circuit_breaker.py\<close>), \<open>normalize_provider_error\<close>
  (\<open>errors.py\<close>) and the \<open>RetryCoordinator\<close> (\<open>retry.py\<close>). The text functions the code takes from its
  libraries (\<open>json.dumps\<close>, \<open>repr\<close>, the two redacting regular expressions, the e-mail date parser, SHA-256)
  are a record of functions, the argument \<open>lib\<close>.
\<close>

subsection \<open>The text functions the code is given\<close>

record text_lib =
  lib_repr :: "json \<Rightarrow> string"      \<comment> \<open>\<open>str(value)\<close> of a value that is not a string\<close>
  lib_dumps :: "json \<Rightarrow> string"     \<comment> \<open>\<open>json.dumps(value, ensure_ascii=False, sort_keys=True)\<close>\<close>
  lib_redact :: "string \<Rightarrow> string"  \<comment> \<open>the substitutions of secrets and data URLs\<close>
  lib_parse_date :: "string \<Rightarrow> instant option"  \<comment> \<open>\<open>parsedate_to_datetime\<close>, in UTC\<close>
  lib_sha256 :: "string \<Rightarrow> string"  \<comment> \<open>the hexadecimal digest\<close>

definition py_str :: "text_lib \<Rightarrow> json \<Rightarrow> string" where
  "py_str lib v = (case v of JStr s \<Rightarrow> s | _ \<Rightarrow> lib_repr lib v)"

definition newline_to_space :: "char \<Rightarrow> char" where
  "newline_to_space c = (let n = (of_char c :: nat) in if n = 10 \<or> n = 13 then CHR '' '' else c)"

definition sanitize_text :: "text_lib \<Rightarrow> string \<Rightarrow> string" where
  "sanitize_text lib t = take 500 (lib_redact lib (map newline_to_space t))"

definition sanitize_provider_message :: "text_lib \<Rightarrow> json \<Rightarrow> string" where
  "sanitize_provider_message lib v = sanitize_text lib
     (case v of JList _ \<Rightarrow> lib_dumps lib v | JObj _ \<Rightarrow> lib_dumps lib v
      | _ \<Rightarrow> py_str lib (py_or v (JStr [])))"

definition payload_fields :: "text_lib \<Rightarrow> json \<Rightarrow> string \<times> string \<times> string" where
  "payload_fields lib payload =
     (case payload of
        JObj kvs \<Rightarrow>
          (let err = obj_get_or kvs ''error'' payload in
           case err of
             JObj e \<Rightarrow>
               (py_str lib (py_or (py_or (obj_get e ''code'') (obj_get e ''type'')) (JStr [])),
                sanitize_provider_message lib (py_or (py_or (obj_get e ''message'') (obj_get e ''detail'')) err),
                py_str lib (py_or (py_or (obj_get e ''scope'') (obj_get kvs ''scope'')) (JStr [])))
           | _ \<Rightarrow> ([], sanitize_provider_message lib err, []))
      | _ \<Rightarrow> ([], sanitize_provider_message lib payload, []))"

subsection \<open>\<open>Retry-After\<close>\<close>

text \<open>
  The last instant a \<open>datetime\<close> holds (9999-12-31, in microseconds); adding more raises
  \<open>OverflowError\<close>, which is not a \<open>ValueError\<close>.
\<close>

definition datetime_max :: instant where
  "datetime_max = 253402300799999999"

definition parse_retry_after :: "text_lib \<Rightarrow> string \<Rightarrow> instant \<Rightarrow> kr_error + instant option" where
  "parse_retry_after lib value current =
     (if value = [] then Inr None
      else let raw = py_strip value in
        case py_int raw of
          Some n \<Rightarrow>
            (let t = current + microseconds (max 0 n)
             in if datetime_max < t then Inl (OverflowError ''date value out of range'') else Inr (Some t))
        | None \<Rightarrow> Inr (lib_parse_date lib raw))"

subsection \<open>Normalizing\<close>

record normalized_error =
  ne_error_type :: provider_error_type
  ne_provider :: string
  ne_provider_account_id :: string
  ne_provider_model_id :: string
  ne_http_status :: "int option"
  ne_provider_error_code :: string
  ne_sanitized_message :: string
  ne_retryable :: bool
  ne_safe_to_failover :: bool
  ne_retry_after_seconds :: "int option"
  ne_scope :: error_scope
  ne_credential_action :: string
  ne_account_action :: string
  ne_model_action :: string
  ne_provider_action :: string
  ne_reservation_action :: string
  ne_request_may_have_been_processed :: bool
  ne_raw_error_fingerprint :: string
  ne_occurred_at :: stamp

text \<open>An exception: its class name and its text.\<close>

record exn =
  ex_class :: string
  ex_text :: string

definition fingerprint :: "text_lib \<Rightarrow> string \<Rightarrow> int option \<Rightarrow> string \<Rightarrow> string \<Rightarrow> string" where
  "fingerprint lib provider status code message = take 20 (lib_sha256 lib
     (provider @ ''|'' @ (case status of None \<Rightarrow> ''None'' | Some n \<Rightarrow> int_text n) @ ''|'' @ code @ ''|'' @ message))"

text \<open>The decision table of \<open>normalize_provider_error\<close>: the fields its branches assign.\<close>

record verdict =
  vd_type :: provider_error_type
  vd_scope :: error_scope
  vd_retryable :: bool
  vd_failover :: bool
  vd_credential :: string
  vd_account :: string
  vd_model :: string
  vd_provider :: string
  vd_reservation :: string

definition verdict0 :: "bool \<Rightarrow> verdict" where
  "verdict0 request_sent =
     \<lparr>vd_type = UNKNOWN_PROVIDER_ERROR, vd_scope = SC_UNKNOWN, vd_retryable = False, vd_failover = False,
      vd_credential = ''none'', vd_account = ''none'', vd_model = ''none'', vd_provider = ''none'',
      vd_reservation = (if request_sent then ''uncertain'' else ''release'')\<rparr>"

definition error_verdict ::
  "int option \<Rightarrow> exn option \<Rightarrow> string \<Rightarrow> string \<Rightarrow> bool \<Rightarrow> verdict" where
  "error_verdict http_status exception signal payload_scope request_sent =
     (let v = verdict0 request_sent;
          name = (case exception of None \<Rightarrow> [] | Some e \<Rightarrow> py_lower (ex_class e));
          has = (\<lambda>w. contains w signal)
      in if contains ''timeout'' name \<or> http_status = Some 408
         then v\<lparr>vd_type := (if request_sent then TIMEOUT_AFTER_SEND else TIMEOUT_BEFORE_SEND),
                vd_scope := SC_REQUEST, vd_retryable := \<not> request_sent, vd_failover := \<not> request_sent\<rparr>
         else if exception \<noteq> None \<and> (case http_status of Some n \<Rightarrow> 200 \<le> n \<and> n < 300 | None \<Rightarrow> False)
         then v\<lparr>vd_type := (if has ''empty'' then EMPTY_RESPONSE
                            else if has ''malformed'' then MALFORMED_RESPONSE else INVALID_RESPONSE),
                vd_scope := SC_REQUEST\<rparr>
         else if contains ''connection'' name
         then v\<lparr>vd_type := CONNECTION_ERROR, vd_scope := SC_PROVIDER, vd_retryable := True, vd_failover := True\<rparr>
         else if exception \<noteq> None \<and> http_status = None
         then v\<lparr>vd_type := NETWORK_ERROR, vd_scope := SC_PROVIDER, vd_retryable := True, vd_failover := True\<rparr>
         else if http_status = Some 401 \<or> has ''invalid_api_key'' \<or> has ''authentication''
         then v\<lparr>vd_type := AUTH_FAILED, vd_scope := SC_KEY, vd_credential := ''inspect'',
                vd_account := ''quarantine'', vd_failover := True\<rparr>
         else if http_status = Some 403
         then v\<lparr>vd_type := PERMISSION_DENIED, vd_scope := SC_ACCOUNT, vd_account := ''inspect''\<rparr>
         else if http_status = Some 402 \<or> has ''billing'' \<or> has ''payment_required''
         then v\<lparr>vd_type := BILLING_REQUIRED, vd_scope := SC_ORGANIZATION, vd_account := ''disable_billing_route''\<rparr>
         else if http_status = Some 429 \<and> (has ''insufficient_quota'' \<or> has ''quota_exhausted'' \<or> has ''credit'')
         then v\<lparr>vd_type := QUOTA_EXHAUSTED, vd_scope := SC_ACCOUNT, vd_account := ''quota_exhausted'',
                vd_provider := ''exclude_for_request'', vd_failover := True\<rparr>
         else if http_status = Some 429
         then (if has ''model'' \<or> payload_scope = ''model''
               then v\<lparr>vd_type := RATE_LIMITED_TEMPORARY, vd_scope := SC_MODEL, vd_retryable := True,
                      vd_failover := True, vd_model := ''cooldown''\<rparr>
               else v\<lparr>vd_type := RATE_LIMITED_TEMPORARY, vd_scope := SC_ACCOUNT, vd_retryable := True,
                      vd_failover := True, vd_account := ''cooldown'', vd_provider := ''exclude_for_request''\<rparr>)
         else if http_status = Some 404 \<and> has ''model''
         then v\<lparr>vd_type := MODEL_NOT_FOUND, vd_scope := SC_MODEL, vd_model := ''exclude'', vd_failover := True\<rparr>
         else if http_status \<in> {Some 400, Some 422} \<and> (has ''mime'' \<or> has ''payload'' \<or> has ''image'')
         then v\<lparr>vd_type := INVALID_PAYLOAD, vd_scope := SC_REQUEST, vd_reservation := ''provider_policy''\<rparr>
         else if http_status \<in> {Some 400, Some 422}
         then v\<lparr>vd_type := INVALID_REQUEST, vd_scope := SC_REQUEST, vd_reservation := ''provider_policy''\<rparr>
         else if http_status \<in> {Some 500, Some 502, Some 503, Some 504}
         then v\<lparr>vd_type := (if http_status = Some 503 \<or> has ''overload''
                            then PROVIDER_OVERLOADED else PROVIDER_UNAVAILABLE),
                vd_scope := SC_PROVIDER, vd_retryable := True, vd_failover := True,
                vd_provider := ''record_circuit_failure''\<rparr>
         else if has ''safety'' then v\<lparr>vd_type := SAFETY_REJECTION, vd_scope := SC_REQUEST\<rparr>
         else if has ''refusal'' then v\<lparr>vd_type := CONTENT_REFUSAL, vd_scope := SC_REQUEST\<rparr>
         else v)"

text \<open>The first header named \<open>retry-after\<close>, in any case.\<close>

definition retry_after_header :: "(string \<times> string) list \<Rightarrow> string" where
  "retry_after_header headers =
     (case find (\<lambda>kv. py_lower (fst kv) = ''retry-after'') headers of None \<Rightarrow> [] | Some kv \<Rightarrow> snd kv)"

definition retry_after_seconds_for ::
  "text_lib \<Rightarrow> (string \<times> string) list \<Rightarrow> int \<Rightarrow> instant \<Rightarrow> kr_error + int" where
  "retry_after_seconds_for lib headers default_cooldown_seconds current =
     (case parse_retry_after lib (retry_after_header headers) current of
        Inl e \<Rightarrow> Inl e
      | Inr (Some retry_at) \<Rightarrow> Inr (max 0 ((retry_at - current) div 1000000))
      | Inr None \<Rightarrow> Inr (max 1 default_cooldown_seconds))"

definition error_message :: "text_lib \<Rightarrow> string \<Rightarrow> exn option \<Rightarrow> string" where
  "error_message lib payload_message exception =
     (if payload_message \<noteq> [] then payload_message
      else case exception of None \<Rightarrow> sanitize_text lib [] | Some e \<Rightarrow> sanitize_text lib (ex_text e))"

definition normalize_provider_error ::
  "text_lib \<Rightarrow> string \<Rightarrow> string \<Rightarrow> string \<Rightarrow> int option \<Rightarrow> json \<Rightarrow> (string \<times> string) list \<Rightarrow> exn option
    \<Rightarrow> bool \<Rightarrow> instant \<Rightarrow> int \<Rightarrow> kr_error + normalized_error" where
  "normalize_provider_error lib provider account model http_status payload headers exception request_sent
     current default_cooldown_seconds =
     (let (code, payload_message, payload_scope) = payload_fields lib payload;
          message = error_message lib payload_message exception;
          signal = py_lower (code @ '' '' @ message);
          v = error_verdict http_status exception signal payload_scope request_sent;
          build = (\<lambda>retry_after.
            \<lparr>ne_error_type = vd_type v, ne_provider = provider, ne_provider_account_id = account,
             ne_provider_model_id = model, ne_http_status = http_status,
             ne_provider_error_code = take 120 code, ne_sanitized_message = message,
             ne_retryable = vd_retryable v, ne_safe_to_failover = vd_failover v,
             ne_retry_after_seconds = retry_after, ne_scope = vd_scope v,
             ne_credential_action = vd_credential v, ne_account_action = vd_account v,
             ne_model_action = vd_model v, ne_provider_action = vd_provider v,
             ne_reservation_action = vd_reservation v,
             ne_request_may_have_been_processed = request_sent,
             ne_raw_error_fingerprint = fingerprint lib provider http_status code message,
             ne_occurred_at = At current\<rparr>)
      in if vd_type v = RATE_LIMITED_TEMPORARY
         then case retry_after_seconds_for lib headers default_cooldown_seconds current of
                Inl e \<Rightarrow> Inl e | Inr n \<Rightarrow> Inr (build (Some n))
         else Inr (build None))"

lemma py_strip_idem: "py_strip (py_strip s) = py_strip s"
proof -
  let ?P = is_space_char
  define t where "t = dropWhile ?P s"
  define u where "u = rev (dropWhile ?P (rev t))"
  have t: "t = u @ rev (takeWhile ?P (rev t))"
    unfolding u_def by (metis rev_append rev_rev_ident takeWhile_dropWhile_id)
  have "dropWhile ?P u = u"
  proof (cases u)
    case (Cons c cs)
    then have "t \<noteq> []" "hd t = c" using arg_cong [OF t, of hd] arg_cong [OF t, of length] by auto
    then show ?thesis using Cons hd_dropWhile [of ?P s] by (simp add: t_def)
  qed simp
  moreover have "rev (dropWhile ?P (rev u)) = u" by (simp add: u_def)
  ultimately show ?thesis by (simp add: py_strip_def u_def t_def)
qed

lemma py_int_strip: "py_int (py_strip s) = py_int s"
  by (simp add: py_int_def py_strip_idem)

subsection \<open>What the decision table guarantees\<close>

definition retryable_types :: "provider_error_type set" where
  "retryable_types = {TIMEOUT_BEFORE_SEND, CONNECTION_ERROR, NETWORK_ERROR, RATE_LIMITED_TEMPORARY,
     PROVIDER_OVERLOADED, PROVIDER_UNAVAILABLE}"

definition verdict_ok :: "bool \<Rightarrow> verdict \<Rightarrow> bool" where
  "verdict_ok sent v \<longleftrightarrow> (vd_retryable v \<longrightarrow> vd_type v \<in> retryable_types \<and> vd_failover v)
    \<and> (vd_failover v \<longrightarrow> vd_retryable v \<or> vd_type v \<in> {AUTH_FAILED, QUOTA_EXHAUSTED, MODEL_NOT_FOUND})
    \<and> (vd_account v = ''quarantine'' \<longleftrightarrow> vd_type v = AUTH_FAILED)
    \<and> (vd_provider v = ''record_circuit_failure'' \<longleftrightarrow> vd_type v \<in> {PROVIDER_OVERLOADED, PROVIDER_UNAVAILABLE})
    \<and> (vd_reservation v = ''release'' \<longrightarrow> \<not> sent)"

lemma verdict_ok_if:
  "(b \<Longrightarrow> verdict_ok sent x) \<Longrightarrow> (\<not> b \<Longrightarrow> verdict_ok sent y) \<Longrightarrow> verdict_ok sent (if b then x else y)"
  by simp

lemma verdict_safe: "verdict_ok sent (error_verdict st ex sig ps sent)"
  unfolding error_verdict_def Let_def
  by (intro verdict_ok_if) (simp_all add: verdict_ok_def verdict0_def retryable_types_def)

lemma normalize_fields:
  assumes "normalize_provider_error lib provider account model st payload headers ex sent now cooldown = Inr e"
  obtains v where "verdict_ok sent v"
    and "ne_error_type e = vd_type v" and "ne_retryable e = vd_retryable v"
    and "ne_safe_to_failover e = vd_failover v" and "ne_account_action e = vd_account v"
    and "ne_provider_action e = vd_provider v" and "ne_reservation_action e = vd_reservation v"
    and "ne_request_may_have_been_processed e = sent"
    and "ne_retry_after_seconds e \<noteq> None \<longleftrightarrow> vd_type v = RATE_LIMITED_TEMPORARY"
proof -
  obtain code pm ps where f: "payload_fields lib payload = (code, pm, ps)" using prod_cases3 by blast
  define v where "v = error_verdict st ex (py_lower (code @ '' '' @ error_message lib pm ex)) ps sent"
  have "verdict_ok sent v" unfolding v_def by (rule verdict_safe)
  then show thesis
    using assms unfolding normalize_provider_error_def f Let_def case_prod_conv v_def [symmetric]
    by (intro that [of v]) (auto split: if_splits sum.splits)
qed

text \<open>
  What a normalized error lets the router do: only transport failures, rate limits and overloads are
  retryable, failover beyond these happens only for authentication, quota and unknown models; an account
  is quarantined exactly for \<open>AUTH_FAILED\<close>, a circuit failure is recorded exactly for overloaded and
  unavailable providers, quota is released only when the request was not sent, and a waiting time is set
  exactly for rate limits.
\<close>

theorem normalized_error_actions:
  assumes "normalize_provider_error lib provider account model st payload headers ex sent now cooldown = Inr e"
  shows "(ne_retryable e \<longrightarrow> ne_error_type e \<in> retryable_types \<and> ne_safe_to_failover e)
    \<and> (ne_safe_to_failover e \<longrightarrow> ne_retryable e
         \<or> ne_error_type e \<in> {AUTH_FAILED, QUOTA_EXHAUSTED, MODEL_NOT_FOUND})
    \<and> (ne_account_action e = ''quarantine'' \<longleftrightarrow> ne_error_type e = AUTH_FAILED)
    \<and> (ne_provider_action e = ''record_circuit_failure''
         \<longleftrightarrow> ne_error_type e \<in> {PROVIDER_OVERLOADED, PROVIDER_UNAVAILABLE})
    \<and> (ne_reservation_action e = ''release'' \<longrightarrow> \<not> ne_request_may_have_been_processed e)
    \<and> (ne_retry_after_seconds e \<noteq> None \<longleftrightarrow> ne_error_type e = RATE_LIMITED_TEMPORARY)"
  using assms by (rule normalize_fields) (simp add: verdict_ok_def)

definition sample_lib :: text_lib where
  "sample_lib = \<lparr>lib_repr = (\<lambda>_. []), lib_dumps = (\<lambda>_. []), lib_redact = (\<lambda>s. s),
     lib_parse_date = (\<lambda>_. None), lib_sha256 = (\<lambda>s. s)\<rparr>"

definition rate_limit_payload :: json where
  "rate_limit_payload = JObj [(''error'', JObj [(''message'', JStr ''slow down'')])]"

lemma normalized_error_actions_witness:
  "\<exists>e. normalize_provider_error sample_lib ''p'' ''a'' ''m'' (Some 429) JNull
      [(''Retry-After'', '' 1_0 '')] None True 0 60 = Inr e
    \<and> ne_retry_after_seconds e = Some 10 \<and> ne_error_type e = RATE_LIMITED_TEMPORARY"
proof -
  let ?n = "normalize_provider_error sample_lib ''p'' ''a'' ''m'' (Some 429) JNull
      [(''Retry-After'', '' 1_0 '')] None True 0 60"
  have "case ?n of Inl _ \<Rightarrow> False | Inr e \<Rightarrow> ne_retry_after_seconds e = Some 10" by code_simp
  then obtain e where e: "?n = Inr e" and ten: "ne_retry_after_seconds e = Some 10"
    by (cases ?n) auto
  then show ?thesis using normalized_error_actions [OF e] by auto
qed

text \<open>
  A read timeout of the production transport is retried. \<open>RequestsTransport\<close> raises every failure as
  \<open>TransportFailure\<close>, a name without "timeout", so a request that timed out after it was sent is
  normalized as a retryable \<open>NETWORK_ERROR\<close> and not as \<open>TIMEOUT_AFTER_SEND\<close>, although it may have been
  processed.
\<close>

theorem read_timeout_is_retryable:
  "\<exists>e. normalize_provider_error lib provider account model None JNull [] (Some \<lparr>ex_class = ''TransportFailure'',
      ex_text = ''Provider response timed out after dispatch''\<rparr>) True now cooldown = Inr e
    \<and> ne_error_type e = NETWORK_ERROR \<and> ne_retryable e \<and> ne_safe_to_failover e
    \<and> ne_request_may_have_been_processed e"
proof -
  have low: "py_lower ''TransportFailure'' = ''transportfailure''" by code_simp
  have no: "\<not> contains ''timeout'' ''transportfailure''" "\<not> contains ''connection'' ''transportfailure''"
    by code_simp+
  obtain code pm ps where f: "payload_fields lib JNull = (code, pm, ps)" using prod_cases3 by blast
  show ?thesis
    by (simp add: normalize_provider_error_def f Let_def error_verdict_def low no verdict0_def)
qed

text \<open>
  A provider can make the router fail with an exception it does not handle: a \<open>Retry-After\<close> header
  whose number of seconds leads past the year 9999 raises \<open>OverflowError\<close> out of
  \<open>normalize_provider_error\<close>, for every rate-limited response.
\<close>

theorem huge_retry_after_raises:
  assumes "payload_fields lib payload = (code, pm, ps)"
    and "vd_type (error_verdict st ex (py_lower (code @ '' '' @ error_message lib pm ex)) ps sent)
      = RATE_LIMITED_TEMPORARY"
    and "py_int (retry_after_header headers) = Some n" and "datetime_max < now + microseconds n" and "0 \<le> n"
  shows "normalize_provider_error lib provider account model st payload headers ex sent now cooldown
    = Inl (OverflowError ''date value out of range'')"
proof -
  have ne: "retry_after_header headers \<noteq> []" using assms(3) by (auto simp: py_int_def py_strip_def)
  have "retry_after_seconds_for lib headers cooldown now = Inl (OverflowError ''date value out of range'')"
    using assms(3-5) ne by (simp add: retry_after_seconds_for_def parse_retry_after_def Let_def py_int_strip max_def)
  then show ?thesis using assms(1,2) by (simp add: normalize_provider_error_def Let_def)
qed

lemma huge_retry_after_raises_witness:
  "normalize_provider_error sample_lib ''p'' ''a'' ''m'' (Some 429) rate_limit_payload
      [(''Retry-After'', ''999999999999'')] None True 0 60
    = Inl (OverflowError ''date value out of range'')"
proof -
  have "payload_fields sample_lib rate_limit_payload = ([], ''slow down'', [])"
    and "vd_type (error_verdict (Some 429) None (py_lower ([] @ '' '' @ error_message sample_lib ''slow down'' None))
      [] True) = RATE_LIMITED_TEMPORARY"
    and "py_int (retry_after_header [(''Retry-After'', ''999999999999'')]) = Some 999999999999"
    and "datetime_max < 0 + microseconds 999999999999"
    by code_simp+
  then show ?thesis by (rule huge_retry_after_raises) simp
qed

subsection \<open>The retry coordinator\<close>

record retry_limits =
  rl_maximum_attempts :: int
  rl_maximum_provider_failovers :: int
  rl_maximum_account_failovers :: int
  rl_retry_budget :: int
  rl_total_timeout_seconds :: int
  rl_exponential_backoff_seconds :: pyfloat
  rl_maximum_backoff_seconds :: pyfloat
  rl_jitter_fraction :: pyfloat
  rl_allow_retry_after_send_timeout :: bool

text \<open>The defaults of the dataclass.\<close>

definition default_retry_limits :: retry_limits where
  "default_retry_limits =
     \<lparr>rl_maximum_attempts = 3, rl_maximum_provider_failovers = 1, rl_maximum_account_failovers = 1,
      rl_retry_budget = 3, rl_total_timeout_seconds = 180, rl_exponential_backoff_seconds = 1 / 4,
      rl_maximum_backoff_seconds = 5, rl_jitter_fraction = 1 / 10,
      rl_allow_retry_after_send_timeout = False\<rparr>"

type_synonym candidate = "string \<times> string \<times> string" \<comment> \<open>provider, model, account\<close>

record retry_state =
  rs_parent_request_id :: string
  rs_started_at :: instant
  rs_attempts :: int
  rs_provider_failovers :: int
  rs_account_failovers :: int
  rs_excluded_candidates :: "candidate set"
  rs_excluded_providers :: "string set"
  rs_excluded_models :: "(string \<times> string) set"
  rs_attempt_ids :: "string list"

definition start_retry :: "string \<Rightarrow> instant \<Rightarrow> retry_state" where
  "start_retry parent now =
     \<lparr>rs_parent_request_id = parent, rs_started_at = now, rs_attempts = 0, rs_provider_failovers = 0,
      rs_account_failovers = 0, rs_excluded_candidates = {}, rs_excluded_providers = {},
      rs_excluded_models = {}, rs_attempt_ids = []\<rparr>"

definition begin_attempt ::
  "text_lib \<Rightarrow> candidate \<Rightarrow> retry_state \<Rightarrow> kr_error + (retry_state \<times> string)" where
  "begin_attempt lib c s =
     (if c \<in> rs_excluded_candidates s then Inl (ValueError ''Candidate is excluded for this request'')
      else let (provider, model, account) = c;
               n = rs_attempts s + 1;
               attempt_id = take 24 (lib_sha256 lib (rs_parent_request_id s @ '':'' @ int_text n @ '':''
                 @ provider @ '':'' @ model @ '':'' @ account))
           in Inr (s\<lparr>rs_attempts := n, rs_attempt_ids := rs_attempt_ids s @ [attempt_id]\<rparr>, attempt_id))"

definition record_failure :: "candidate \<Rightarrow> normalized_error \<Rightarrow> retry_state \<Rightarrow> retry_state" where
  "record_failure c e s =
     (let (provider, model, account) = c;
          s1 = s\<lparr>rs_excluded_candidates := insert c (rs_excluded_candidates s)\<rparr>;
          s2 = (if ne_provider_action e \<noteq> ''none''
                then s1\<lparr>rs_excluded_providers := insert provider (rs_excluded_providers s1),
                        rs_provider_failovers := rs_provider_failovers s1 + 1\<rparr> else s1);
          s3 = (if ne_model_action e \<noteq> ''none''
                then s2\<lparr>rs_excluded_models := insert (provider, model) (rs_excluded_models s2)\<rparr> else s2)
      in if ne_account_action e \<noteq> ''none'' then s3\<lparr>rs_account_failovers := rs_account_failovers s3 + 1\<rparr> else s3)"

definition can_retry :: "retry_limits \<Rightarrow> retry_state \<Rightarrow> normalized_error \<Rightarrow> instant \<Rightarrow> bool" where
  "can_retry limits s e current =
     (if min (rl_maximum_attempts limits) (rl_retry_budget limits) \<le> rs_attempts s then False
      else if rl_maximum_provider_failovers limits < rs_provider_failovers s then False
      else if rl_maximum_account_failovers limits < rs_account_failovers s then False
      else if microseconds (rl_total_timeout_seconds limits) \<le> current - rs_started_at s then False
      else if ne_error_type e = TIMEOUT_AFTER_SEND \<and> \<not> rl_allow_retry_after_send_timeout limits then False
      else ne_retryable e \<or> ne_safe_to_failover e)"

text \<open>The first byte of a hexadecimal digest.\<close>

definition hex_digit :: "char \<Rightarrow> nat" where
  "hex_digit c = (let n = (of_char c :: nat) in
     if 48 \<le> n \<and> n \<le> 57 then n - 48 else if 97 \<le> n \<and> n \<le> 102 then n - 87 else 0)"

fun first_byte :: "string \<Rightarrow> nat" where
  "first_byte (a # b # _) = 16 * hex_digit a + hex_digit b"
| "first_byte _ = 0"

definition backoff_seconds :: "text_lib \<Rightarrow> retry_limits \<Rightarrow> retry_state \<Rightarrow> normalized_error \<Rightarrow> pyfloat" where
  "backoff_seconds lib limits s e =
     (case ne_retry_after_seconds e of
        Some n \<Rightarrow> of_int n
      | None \<Rightarrow>
          let base = min (rl_maximum_backoff_seconds limits)
                (rl_exponential_backoff_seconds limits * 2 ^ nat (max 0 (rs_attempts s - 1)));
              digest = first_byte (lib_sha256 lib (rs_parent_request_id s @ '':'' @ int_text (rs_attempts s)))
          in base + of_nat digest / 255 * rl_jitter_fraction limits * base)"

lemma hex_digit_le: "hex_digit c \<le> 15"
  by (auto simp: hex_digit_def Let_def)

lemma first_byte_le: "first_byte s \<le> 255"
proof (cases s rule: first_byte.cases)
  case (1 a b rest)
  then show ?thesis using hex_digit_le [of a] hex_digit_le [of b] by simp
qed simp_all

text \<open>
  Without a waiting time from the provider, the backoff before the next attempt is the exponential
  step capped at the maximum, plus a jitter between 0 and \<open>jitter_fraction\<close> of it.
\<close>

theorem backoff_bounds:
  assumes "ne_retry_after_seconds e = None" and "0 \<le> rl_jitter_fraction limits"
    and "0 \<le> rl_exponential_backoff_seconds limits" and "0 \<le> rl_maximum_backoff_seconds limits"
  shows "min (rl_maximum_backoff_seconds limits)
        (rl_exponential_backoff_seconds limits * 2 ^ nat (max 0 (rs_attempts s - 1))) \<le> backoff_seconds lib limits s e
    \<and> backoff_seconds lib limits s e \<le> rl_maximum_backoff_seconds limits * (1 + rl_jitter_fraction limits)"
proof -
  define base where "base = min (rl_maximum_backoff_seconds limits)
    (rl_exponential_backoff_seconds limits * 2 ^ nat (max 0 (rs_attempts s - 1)))"
  define x where "x = (of_nat (first_byte (lib_sha256 lib
    (rs_parent_request_id s @ '':'' @ int_text (rs_attempts s)))) / 255 :: rat)"
  have "of_nat (first_byte d) \<le> (of_nat 255 :: rat)" for d by (simp only: of_nat_le_iff first_byte_le)
  then have x: "0 \<le> x" "x \<le> 1" by (simp_all add: x_def)
  have base: "0 \<le> base" "base \<le> rl_maximum_backoff_seconds limits" using assms(3,4) by (simp_all add: base_def)
  let ?j = "rl_jitter_fraction limits"
  have b: "backoff_seconds lib limits s e = base + x * ?j * base"
    by (simp add: backoff_seconds_def assms(1) Let_def base_def x_def)
  have j: "0 \<le> x * ?j" "x * ?j \<le> ?j" using x assms(2) by (simp_all add: mult_left_le_one_le)
  have "base + x * ?j * base = base * (1 + x * ?j)" by (simp add: algebra_simps)
  also have "\<dots> \<le> rl_maximum_backoff_seconds limits * (1 + ?j)" using base j by (intro mult_mono) simp_all
  finally show ?thesis using b j base(1) by (simp add: base_def [symmetric])
qed

lemma backoff_bounds_witness:
  "\<exists>e. backoff_seconds sample_lib default_retry_limits (start_retry ''r'' 0) e \<le> 5 * (1 + 1 / 10)"
proof -
  obtain e where e: "normalize_provider_error sample_lib ''p'' ''a'' ''m'' (Some 503) JNull [] None True 0 60 = Inr e"
    and n: "ne_retry_after_seconds e = None"
  proof -
    let ?n = "normalize_provider_error sample_lib ''p'' ''a'' ''m'' (Some 503) JNull [] None True 0 60"
    have "\<not> isl ?n" "ne_retry_after_seconds (projr ?n) = None" by code_simp+
    then show ?thesis using that by (metis isl_def sum.collapse(2) sum.sel(2))
  qed
  show ?thesis
    using backoff_bounds [OF n, of default_retry_limits "start_retry ''r'' 0" sample_lib]
    by (auto simp: default_retry_limits_def)
qed

end
