(* ===== verification/KR_Config.thy ===== *)
theory KR_Config
  imports KR_Errors
begin

text \<open>
  Configuration and secrets: \<open>KeyRouterConfig\<close> (\<open>config.py\<close>) read from the environment, and secret
  references (\<open>credential_refs.py\<close>). The environment is a map from names to values; parsing a float and
  SHA-256 are arguments.
\<close>

type_synonym environ = "string \<Rightarrow> string option"

definition env_bool :: "environ \<Rightarrow> string \<Rightarrow> bool \<Rightarrow> bool" where
  "env_bool env name d =
     (case env name of None \<Rightarrow> d
      | Some v \<Rightarrow> py_lower (py_strip v) \<in> {''1'', ''true'', ''yes'', ''on''})"

definition env_int :: "environ \<Rightarrow> string \<Rightarrow> int \<Rightarrow> bool \<Rightarrow> kr_error + int" where
  "env_int env name d strict =
     (case env name of None \<Rightarrow> Inr d
      | Some v \<Rightarrow>
          if py_strip v = [] then Inr d
          else case py_int v of
                 Some n \<Rightarrow> Inr n
               | None \<Rightarrow> if strict then Inl (KeyRouterConfigurationError (''Invalid '' @ name)) else Inr d)"

definition env_float ::
  "(string \<Rightarrow> pyfloat option) \<Rightarrow> environ \<Rightarrow> string \<Rightarrow> pyfloat \<Rightarrow> bool \<Rightarrow> kr_error + pyfloat" where
  "env_float parse_float env name d strict =
     (case env name of None \<Rightarrow> Inr d
      | Some v \<Rightarrow>
          if py_strip v = [] then Inr d
          else case parse_float v of
                 Some x \<Rightarrow> Inr x
               | None \<Rightarrow> if strict then Inl (KeyRouterConfigurationError (''Invalid '' @ name)) else Inr d)"

record kr_config =
  cf_mode :: key_router_mode
  cf_router_id :: string
  cf_free_only_default :: bool
  cf_allow_paid_default :: bool
  cf_reservation_ttl_seconds :: int
  cf_uncertain_ttl_seconds :: int
  cf_default_daily_cost_limit :: pyfloat
  cf_failure_threshold :: int
  cf_recovery_timeout_seconds :: int
  cf_half_open_probe_count :: int
  cf_require_verified_vision :: bool
  cf_allow_declared_only_capabilities :: bool
  cf_max_attempts :: int
  cf_max_provider_failovers :: int
  cf_max_account_failovers :: int
  cf_total_timeout_seconds :: int
  cf_default_cooldown_seconds :: int
  cf_circuit_open_seconds :: int
  cf_circuit_failure_window_seconds :: int
  cf_uncertain_reconciliation_seconds :: int
  cf_live_tests_enabled :: bool

definition parse_mode :: "string \<Rightarrow> key_router_mode option" where
  "parse_mode s = map_of [(''disabled'', MODE_DISABLED), (''shadow'', MODE_SHADOW), (''active'', MODE_ACTIVE)] s"

text \<open>The first error of a list of readings, in the order of the reads.\<close>

definition at_least :: "int \<Rightarrow> kr_error + int \<Rightarrow> kr_error + int" where
  "at_least b r = (case r of Inl e \<Rightarrow> Inl e | Inr n \<Rightarrow> Inr (max b n))"

fun bind_e :: "'e + 'a \<Rightarrow> ('a \<Rightarrow> 'e + 'b) \<Rightarrow> 'e + 'b" where
  "bind_e (Inl e) f = Inl e"
| "bind_e (Inr x) f = f x"

definition config_from_env :: "(string \<Rightarrow> pyfloat option) \<Rightarrow> environ \<Rightarrow> kr_error + kr_config" where
  "config_from_env parse_float env =
     (let raw_mode = py_lower (py_strip (case env ''KEY_ROUTER_MODE'' of None \<Rightarrow> ''disabled'' | Some v \<Rightarrow> v))
      in case parse_mode raw_mode of
        None \<Rightarrow> Inl (KeyRouterConfigurationError ''Invalid KEY_ROUTER_MODE'')
      | Some mode \<Rightarrow>
          let strict = (mode = MODE_ACTIVE);
              rd = (\<lambda>b name d. at_least b (env_int env name d strict));
              rid = py_strip (case env ''KEY_ROUTER_ID'' of None \<Rightarrow> ''clouda-local'' | Some v \<Rightarrow> v)
          in bind_e (rd 1 ''KEY_ROUTER_RESERVATION_TTL_SECONDS'' 300) (\<lambda>ttl.
             bind_e (rd 1 ''KEY_ROUTER_UNCERTAIN_TTL_SECONDS'' 1800) (\<lambda>uttl.
             bind_e (env_float parse_float env ''KEY_ROUTER_DEFAULT_DAILY_COST_LIMIT'' 0 strict) (\<lambda>cost.
             bind_e (env_int env ''KEY_ROUTER_FAILURE_THRESHOLD'' 3 strict) (\<lambda>ft.
             bind_e (rd 1 ''KEY_ROUTER_CIRCUIT_FAILURE_THRESHOLD'' ft) (\<lambda>threshold.
             bind_e (rd 1 ''KEY_ROUTER_RECOVERY_TIMEOUT_SECONDS'' 60) (\<lambda>recovery.
             bind_e (rd 1 ''KEY_ROUTER_HALF_OPEN_PROBE_COUNT'' 1) (\<lambda>probes.
             bind_e (rd 1 ''KEY_ROUTER_MAX_ATTEMPTS'' 3) (\<lambda>attempts.
             bind_e (rd 0 ''KEY_ROUTER_MAX_PROVIDER_FAILOVERS'' 1) (\<lambda>pf.
             bind_e (rd 0 ''KEY_ROUTER_MAX_ACCOUNT_FAILOVERS'' 1) (\<lambda>af.
             bind_e (rd 1 ''KEY_ROUTER_TOTAL_TIMEOUT_SECONDS'' 180) (\<lambda>total.
             bind_e (rd 1 ''KEY_ROUTER_DEFAULT_COOLDOWN_SECONDS'' 60) (\<lambda>cooldown.
             bind_e (rd 1 ''KEY_ROUTER_CIRCUIT_OPEN_SECONDS'' 60) (\<lambda>open_s.
             bind_e (rd 1 ''KEY_ROUTER_CIRCUIT_FAILURE_WINDOW_SECONDS'' 60) (\<lambda>window.
             bind_e (rd 1 ''KEY_ROUTER_UNCERTAIN_RECONCILIATION_SECONDS'' 1800) (\<lambda>rec.
             Inr \<lparr>cf_mode = mode, cf_router_id = (if rid = [] then ''clouda-local'' else rid),
                  cf_free_only_default = env_bool env ''KEY_ROUTER_FREE_ONLY_DEFAULT'' True,
                  cf_allow_paid_default = env_bool env ''KEY_ROUTER_ALLOW_PAID_DEFAULT'' False,
                  cf_reservation_ttl_seconds = ttl, cf_uncertain_ttl_seconds = uttl,
                  cf_default_daily_cost_limit = max 0 cost, cf_failure_threshold = threshold,
                  cf_recovery_timeout_seconds = recovery, cf_half_open_probe_count = probes,
                  cf_require_verified_vision = env_bool env ''KEY_ROUTER_REQUIRE_VERIFIED_VISION'' True,
                  cf_allow_declared_only_capabilities =
                    env_bool env ''KEY_ROUTER_ALLOW_DECLARED_ONLY_CAPABILITIES'' False,
                  cf_max_attempts = attempts, cf_max_provider_failovers = pf, cf_max_account_failovers = af,
                  cf_total_timeout_seconds = total, cf_default_cooldown_seconds = cooldown,
                  cf_circuit_open_seconds = open_s, cf_circuit_failure_window_seconds = window,
                  cf_uncertain_reconciliation_seconds = rec,
                  cf_live_tests_enabled = env_bool env ''KEY_ROUTER_LIVE_TESTS_ENABLED'' False\<rparr>))))))))))))))))"

definition validate_active_safety :: "kr_config \<Rightarrow> bool \<Rightarrow> bool \<Rightarrow> kr_error + unit" where
  "validate_active_safety cfg has_enabled_accounts has_enabled_endpoints =
     (if cf_mode cfg \<noteq> MODE_ACTIVE then Inr ()
      else if cf_allow_declared_only_capabilities cfg \<and> cf_require_verified_vision cfg
      then Inl (KeyRouterConfigurationError (''Active configuration conflicts: declared-only capabilities cannot ''
             @ ''override verified vision''))
      else if \<not> has_enabled_accounts
      then Inl (KeyRouterConfigurationError ''Active Key Router requires at least one enabled provider account'')
      else if \<not> has_enabled_endpoints
      then Inl (KeyRouterConfigurationError ''Active Key Router requires at least one enabled capability endpoint'')
      else Inr ())"

subsection \<open>Secret references\<close>

definition is_upper_char :: "char \<Rightarrow> bool" where
  "is_upper_char c = (let n = (of_char c :: nat) in 65 \<le> n \<and> n \<le> 90)"

definition is_ref_char :: "char \<Rightarrow> bool" where
  "is_ref_char c = (let n = (of_char c :: nat) in 65 \<le> n \<and> n \<le> 90 \<or> 48 \<le> n \<and> n \<le> 57 \<or> n = 95)"

text \<open>\<open>[A-Z][A-Z0-9_]{0,127}\<close>, and the pattern with its optional \<open>env:\<close>.\<close>

fun is_env_name :: "string \<Rightarrow> bool" where
  "is_env_name [] = False"
| "is_env_name (c # cs) \<longleftrightarrow> is_upper_char c \<and> list_all is_ref_char cs \<and> length cs \<le> 127"

definition strip_env :: "string \<Rightarrow> string" where
  "strip_env v = (if has_prefix ''env:'' v then drop 4 v else v)"

definition secret_ref_matches :: "string \<Rightarrow> bool" where
  "secret_ref_matches v \<longleftrightarrow> is_env_name v \<or> has_prefix ''env:'' v \<and> is_env_name (drop 4 v)"

definition validate_secret_ref :: "string \<Rightarrow> kr_error + string" where
  "validate_secret_ref secret_ref =
     (let value = py_strip secret_ref
      in if \<not> secret_ref_matches value then Inl (ValueError ''Invalid secret reference'') else Inr value)"

definition secret_env_name :: "string \<Rightarrow> kr_error + string" where
  "secret_env_name secret_ref =
     (case validate_secret_ref secret_ref of Inl e \<Rightarrow> Inl e | Inr value \<Rightarrow> Inr (strip_env value))"

definition redact_secret_ref :: "(string \<Rightarrow> string) \<Rightarrow> string \<Rightarrow> string" where
  "redact_secret_ref sha256 secret_ref =
     (let value = py_strip secret_ref; d = sha256 value; digest = drop (length d - 8) d
      in if value = [] then []
         else if has_prefix ''env:'' value then ''env:***:'' @ digest else ''***:'' @ digest)"

record secret_handle =
  sh_secret_ref :: string
  sh_value :: string

definition secret_fingerprint :: "(string \<Rightarrow> string) \<Rightarrow> secret_handle \<Rightarrow> string" where
  "secret_fingerprint sha256 h = (let d = sha256 (sh_value h) in drop (length d - 8) d)"

definition resolve_secret :: "environ \<Rightarrow> string \<Rightarrow> kr_error + secret_handle option" where
  "resolve_secret env secret_ref =
     (case validate_secret_ref secret_ref of
        Inl e \<Rightarrow> Inl e
      | Inr r \<Rightarrow>
          (case secret_env_name r of
             Inl e \<Rightarrow> Inl e
           | Inr name \<Rightarrow>
               let value = (case env name of None \<Rightarrow> [] | Some v \<Rightarrow> v)
               in Inr (if py_strip value = [] then None
                       else Some \<lparr>sh_secret_ref = r, sh_value = py_strip value\<rparr>)))"

subsection \<open>What configuration guarantees\<close>

lemma bind_e_InrE: "bind_e r f = Inr y \<Longrightarrow> (\<And>x. r = Inr x \<Longrightarrow> f x = Inr y \<Longrightarrow> thesis) \<Longrightarrow> thesis"
  by (cases r) auto

lemma at_least_Inr: "at_least b r = Inr n \<Longrightarrow> b \<le> n"
  by (auto simp: at_least_def split: sum.splits)

text \<open>
  A configuration that \<open>from_env\<close> returns is within bounds whatever the environment holds: every
  duration, the probe count, the failure threshold and the attempts are at least 1, the failovers and the
  cost limit at least 0, and the router has a name.
\<close>

theorem config_bounds:
  assumes "config_from_env parse_float env = Inr cfg"
  shows "1 \<le> cf_reservation_ttl_seconds cfg \<and> 1 \<le> cf_failure_threshold cfg \<and> 1 \<le> cf_half_open_probe_count cfg
    \<and> 1 \<le> cf_max_attempts cfg \<and> 0 \<le> cf_max_provider_failovers cfg \<and> 0 \<le> cf_max_account_failovers cfg
    \<and> 1 \<le> cf_total_timeout_seconds cfg \<and> 1 \<le> cf_default_cooldown_seconds cfg
    \<and> 1 \<le> cf_circuit_open_seconds cfg \<and> 1 \<le> cf_circuit_failure_window_seconds cfg
    \<and> 1 \<le> cf_uncertain_reconciliation_seconds cfg \<and> 0 \<le> cf_default_daily_cost_limit cfg
    \<and> cf_router_id cfg \<noteq> []"
  using assms unfolding config_from_env_def Let_def
  by (cases "parse_mode (py_lower (py_strip (case env ''KEY_ROUTER_MODE'' of None \<Rightarrow> ''disabled'' | Some v \<Rightarrow> v)))";
      simp only: option.case sum.distinct) (elim bind_e_InrE, (drule at_least_Inr)+, clarsimp)

lemma config_bounds_witness:
  "\<exists>cfg. config_from_env (\<lambda>_. None) ([''KEY_ROUTER_MODE'' \<mapsto> ''shadow'', ''KEY_ROUTER_MAX_ATTEMPTS'' \<mapsto> ''-5'']) = Inr cfg
    \<and> 1 \<le> cf_max_attempts cfg"
proof -
  let ?r = "config_from_env (\<lambda>_. None) ([''KEY_ROUTER_MODE'' \<mapsto> ''shadow'', ''KEY_ROUTER_MAX_ATTEMPTS'' \<mapsto> ''-5''])"
  have "\<not> isl ?r" by code_simp
  then obtain cfg where "?r = Inr cfg" by (cases ?r) auto
  then show ?thesis using config_bounds by blast
qed

lemma is_env_name_strip: "is_env_name v \<Longrightarrow> \<not> has_prefix ''env:'' v"
proof (cases v)
  case (Cons c cs)
  assume "is_env_name v"
  then have "is_upper_char c" using Cons by simp
  then have "c \<noteq> CHR ''e''" by (auto simp: is_upper_char_def)
  then show ?thesis using Cons by simp
qed simp

lemma strip_env_name: "secret_ref_matches v \<Longrightarrow> is_env_name (strip_env v)"
  by (auto simp: secret_ref_matches_def strip_env_def dest: is_env_name_strip)

lemma ref_chars_not_space: "is_ref_char c \<Longrightarrow> \<not> is_space_char c" "is_upper_char c \<Longrightarrow> \<not> is_space_char c"
  by (auto simp: is_ref_char_def is_upper_char_def is_space_char_def Let_def)

text \<open>
  Resolving a secret only reads environment variables whose names match the pattern, whatever string
  is stored as the reference, and a resolved value is not blank and stripped.
\<close>

theorem resolve_secret_safe:
  assumes "resolve_secret env secret_ref = Inr (Some h)"
  shows "\<exists>name v. is_env_name name \<and> env name = Some v \<and> sh_value h = py_strip v \<and> sh_value h \<noteq> []
    \<and> (py_strip secret_ref = name \<or> py_strip secret_ref = ''env:'' @ name)"
proof -
  let ?v = "py_strip secret_ref"
  have m: "secret_ref_matches ?v"
    and h: "py_strip (case env (strip_env ?v) of None \<Rightarrow> [] | Some v \<Rightarrow> v) \<noteq> []"
    and val: "sh_value h = py_strip (case env (strip_env ?v) of None \<Rightarrow> [] | Some v \<Rightarrow> v)"
    using assms by (auto simp: resolve_secret_def secret_env_name_def validate_secret_ref_def Let_def py_strip_idem
        split: sum.splits if_splits)
  obtain v where v: "env (strip_env ?v) = Some v" using h by (cases "env (strip_env ?v)") (auto simp: py_strip_def)
  have "?v = strip_env ?v \<or> ?v = ''env:'' @ strip_env ?v"
    by (auto simp: strip_env_def has_prefix_iff)
  then show ?thesis using strip_env_name [OF m] v h val by auto
qed

lemma resolve_secret_safe_witness:
  "\<exists>h. resolve_secret [''API_KEY'' \<mapsto> '' s3 ''] '' env:API_KEY '' = Inr (Some h) \<and> sh_value h \<noteq> []"
proof -
  let ?r = "resolve_secret [''API_KEY'' \<mapsto> '' s3 ''] '' env:API_KEY ''"
  have "case ?r of Inr (Some h) \<Rightarrow> True | _ \<Rightarrow> False" by code_simp
  then obtain h where "?r = Inr (Some h)" by (auto split: sum.splits option.splits)
  then show ?thesis using resolve_secret_safe by blast
qed

end
