(* ===== verification/KR_Routing.thy ===== *)
theory KR_Routing
  imports KR_Types
begin

text \<open>
  Choosing a route: the policies (\<open>policies.py\<close>), the endpoint capabilities and their validation
  (\<open>capabilities.py\<close>), the provider registry as far as selection reads it (\<open>providers/registry.py\<close>), and
  the two selectors (\<open>selector.py\<close>). Secrets are resolved by an argument \<open>has_secret\<close>, the clock is an
  argument.
\<close>

subsection \<open>Policies\<close>

record routing_policy =
  pl_policy_id :: string
  pl_required_capabilities :: "string list"
  pl_preferred_capabilities :: "string list"
  pl_forbidden_capabilities :: "string list"
  pl_local_ocr_first :: bool
  pl_vision_required :: bool
  pl_structured_output_required :: bool
  pl_maximum_cost :: pyfloat
  pl_maximum_latency_ms :: int
  pl_maximum_attempts :: int
  pl_maximum_provider_failovers :: int
  pl_maximum_account_failovers :: int
  pl_allowed_providers :: "string list"
  pl_blocked_providers :: "string list"
  pl_allowed_models :: "string list"
  pl_minimum_verified_status :: verification_status
  pl_quality_target :: pyfloat
  pl_fallback_policy :: string
  pl_privacy_classification :: privacy_classification
  pl_allow_retry_after_send_timeout :: bool

text \<open>\<open>RoutingPolicy(policy_id=...)\<close> with the defaults of the dataclass.\<close>

definition base_policy :: "string \<Rightarrow> routing_policy" where
  "base_policy pid =
     \<lparr>pl_policy_id = pid, pl_required_capabilities = [], pl_preferred_capabilities = [],
      pl_forbidden_capabilities = [], pl_local_ocr_first = False, pl_vision_required = False,
      pl_structured_output_required = False, pl_maximum_cost = 0, pl_maximum_latency_ms = 0,
      pl_maximum_attempts = 1, pl_maximum_provider_failovers = 0, pl_maximum_account_failovers = 0,
      pl_allowed_providers = [], pl_blocked_providers = [], pl_allowed_models = [],
      pl_minimum_verified_status = VS_DECLARED, pl_quality_target = 90, pl_fallback_policy = [],
      pl_privacy_classification = PV_INTERNAL, pl_allow_retry_after_send_timeout = False\<rparr>"

definition POLICIES :: "(string \<times> routing_policy) list" where
  "POLICIES =
    [(''DIGITAL_TEXT_VALIDATE'', (base_policy ''DIGITAL_TEXT_VALIDATE'')
        \<lparr>pl_required_capabilities := [''text''], pl_maximum_attempts := 1,
         pl_fallback_policy := ''TEXT_POST_PROCESS''\<rparr>),
     (''OCR_FAST'', (base_policy ''OCR_FAST'')
        \<lparr>pl_required_capabilities := [''text''], pl_local_ocr_first := True, pl_maximum_attempts := 2,
         pl_maximum_provider_failovers := 1, pl_maximum_account_failovers := 1\<rparr>),
     (''OCR_ACCURATE_VISION'', (base_policy ''OCR_ACCURATE_VISION'')
        \<lparr>pl_required_capabilities := [''vision''], pl_vision_required := True, pl_maximum_attempts := 2,
         pl_maximum_provider_failovers := 1, pl_maximum_account_failovers := 1,
         pl_minimum_verified_status := VS_VERIFIED\<rparr>),
     (''OCR_ARABIC_COMPLEX'', (base_policy ''OCR_ARABIC_COMPLEX'')
        \<lparr>pl_required_capabilities := [''vision'', ''system_prompt''],
         pl_preferred_capabilities := [''structured_json''], pl_vision_required := True,
         pl_maximum_attempts := 3, pl_maximum_provider_failovers := 1, pl_maximum_account_failovers := 1,
         pl_minimum_verified_status := VS_VERIFIED, pl_quality_target := 90\<rparr>),
     (''OCR_MIXED_LANGUAGE'', (base_policy ''OCR_MIXED_LANGUAGE'')
        \<lparr>pl_required_capabilities := [''vision''], pl_vision_required := True, pl_maximum_attempts := 2,
         pl_maximum_provider_failovers := 1, pl_minimum_verified_status := VS_VERIFIED\<rparr>),
     (''OCR_RETRY_LOW_QUALITY'', (base_policy ''OCR_RETRY_LOW_QUALITY'')
        \<lparr>pl_required_capabilities := [''vision''], pl_vision_required := True, pl_maximum_attempts := 2,
         pl_maximum_provider_failovers := 1, pl_maximum_account_failovers := 1,
         pl_minimum_verified_status := VS_VERIFIED\<rparr>),
     (''TEXT_POST_PROCESS'', (base_policy ''TEXT_POST_PROCESS'')
        \<lparr>pl_required_capabilities := [''text''], pl_maximum_attempts := 2,
         pl_maximum_provider_failovers := 1\<rparr>),
     (''STRUCTURED_EXTRACTION'', (base_policy ''STRUCTURED_EXTRACTION'')
        \<lparr>pl_required_capabilities := [''text'', ''structured_json''], pl_structured_output_required := True,
         pl_maximum_attempts := 2, pl_maximum_provider_failovers := 1\<rparr>)]"

definition get_policy :: "string \<Rightarrow> kr_error + routing_policy" where
  "get_policy policy_id =
     (let n0 = py_upper (py_strip (if policy_id = [] then ''OCR_FAST'' else policy_id));
          n = (if n0 = ''OCR'' then ''OCR_FAST''
               else if n0 = ''LEGACY_OPENROUTER'' then ''TEXT_POST_PROCESS'' else n0)
      in case map_of POLICIES n of
           Some p \<Rightarrow> Inr p
         | None \<Rightarrow> Inl (ValueError ''Unknown routing policy''))"

definition choose_ocr_policy ::
  "bool \<Rightarrow> bool \<Rightarrow> pyfloat option \<Rightarrow> bool \<Rightarrow> bool \<Rightarrow> routing_policy option" where
  "choose_ocr_policy born_digital local_text_usable page_quality complex_layout mixed_language =
     (if born_digital \<and> local_text_usable then map_of POLICIES ''DIGITAL_TEXT_VALIDATE''
      else if mixed_language then map_of POLICIES ''OCR_MIXED_LANGUAGE''
      else if complex_layout then map_of POLICIES ''OCR_ARABIC_COMPLEX''
      else if (case page_quality of Some q \<Rightarrow> q < 90 | None \<Rightarrow> False)
      then map_of POLICIES ''OCR_RETRY_LOW_QUALITY''
      else map_of POLICIES ''OCR_FAST'')"

subsection \<open>Endpoint capabilities\<close>

record model_endpoint =
  ep_endpoint_id :: string
  ep_canonical_model_id :: string
  ep_provider :: string
  ep_provider_model_id :: string
  ep_endpoint_type :: string
  ep_supports_text :: bool
  ep_supports_vision_declared :: bool
  ep_supports_vision_verified :: bool
  ep_supports_base64 :: bool
  ep_supports_image_url :: bool
  ep_supports_native_pdf :: bool
  ep_supports_multiple_images :: bool
  ep_max_images_per_request :: int
  ep_supported_mime_types :: "string list"
  ep_max_image_width :: int
  ep_max_image_height :: int
  ep_max_image_pixels :: int
  ep_max_payload_bytes :: int
  ep_max_context_tokens :: int
  ep_max_output_tokens :: int
  ep_supports_structured_json :: bool
  ep_supports_json_schema :: bool
  ep_supports_streaming :: bool
  ep_supports_system_prompt :: bool
  ep_supports_temperature :: bool
  ep_supports_seed :: bool
  ep_supports_tools :: bool
  ep_supports_parallel_tools :: bool
  ep_supports_reasoning :: bool
  ep_pricing_input :: pyfloat
  ep_pricing_output :: pyfloat
  ep_pricing_image :: pyfloat
  ep_currency :: string
  ep_region_availability :: "string list"
  ep_declared_status :: verification_status
  ep_verified_status :: verification_status
  ep_declared_at :: string
  ep_last_verified_at :: string
  ep_capability_source :: string
  ep_notes :: string
  ep_enabled :: bool
  ep_expected_latency_ms :: int
  ep_quality_score :: pyfloat
  ep_supports_text_output :: bool
  ep_privacy_compatibility :: "string list"
  ep_region_support :: "string list"
  ep_teacher_role_support :: "string list"
  ep_training_output_policy_status :: string

definition supports_required_vision :: "model_endpoint \<Rightarrow> bool \<Rightarrow> bool \<Rightarrow> bool" where
  "supports_required_vision e require_verified allow_declared_only =
     (if ep_supports_vision_verified e then ep_verified_status e = VS_VERIFIED
      else if require_verified then False
      else ep_supports_vision_declared e \<and> allow_declared_only)"

text \<open>The message of the \<open>UnsupportedCapability\<close> that \<open>validate_request\<close> raises, if it raises.\<close>

definition validate_request :: "model_endpoint \<Rightarrow> request_context \<Rightarrow> bool \<Rightarrow> bool \<Rightarrow> string option" where
  "validate_request e c require_verified_vision allow_declared_only =
     (let md = normalized_modality c;
          vision_required = ctx_requires_vision c \<or> md = modality_value MOD_IMAGE
      in if vision_required \<and> \<not> supports_required_vision e require_verified_vision allow_declared_only
         then Some ''verified_vision_required''
         else if md = modality_value MOD_PDF \<and> \<not> ep_supports_native_pdf e
         then Some ''native_pdf_not_supported''
         else if ctx_requires_structured_output c \<and> \<not> ep_supports_structured_json e
         then Some ''structured_output_not_supported''
         else if \<not> ep_supports_text_output e then Some ''text_output_not_supported''
         else if ctx_teacher_role c \<noteq> [] \<and> ctx_teacher_role c \<notin> set (ep_teacher_role_support e)
         then Some ''teacher_role_not_supported''
         else if ctx_region_type c \<noteq> [] \<and> ctx_region_type c \<notin> set (ep_region_support e)
         then Some ''region_type_not_supported''
         else if ep_privacy_compatibility e \<noteq> [] \<and> normalized_privacy c \<notin> set (ep_privacy_compatibility e)
         then Some ''endpoint_privacy_not_compatible''
         else if ctx_required_training_output_policy_status c \<noteq> []
              \<and> ep_training_output_policy_status e \<noteq> ctx_required_training_output_policy_status c
         then Some ''training_output_policy_not_satisfied''
         else if ctx_mime_type c \<noteq> [] \<and> ep_supported_mime_types e \<noteq> []
              \<and> py_lower (ctx_mime_type c) \<notin> set (map py_lower (ep_supported_mime_types e))
         then Some ''unsupported_mime_type''
         else if ep_max_payload_bytes e \<noteq> 0 \<and> ep_max_payload_bytes e < ctx_payload_bytes c
         then Some ''payload_too_large''
         else if ep_max_images_per_request e \<noteq> 0 \<and> ep_max_images_per_request e < ctx_image_count c
         then Some ''too_many_images''
         else if ep_max_image_width e \<noteq> 0 \<and> ep_max_image_width e < ctx_image_width c
         then Some ''image_too_wide''
         else if ep_max_image_height e \<noteq> 0 \<and> ep_max_image_height e < ctx_image_height c
         then Some ''image_too_tall''
         else if ep_max_image_pixels e \<noteq> 0 \<and> ctx_image_width c \<noteq> 0 \<and> ctx_image_height c \<noteq> 0
              \<and> ep_max_image_pixels e < ctx_image_width c * ctx_image_height c
         then Some ''image_too_many_pixels''
         else None)"

subsection \<open>Providers\<close>

text \<open>What selection reads of a \<open>ProviderDefinition\<close>.\<close>

record provider_definition =
  pd_adapter_type :: string
  pd_supports_image_input :: bool
  pd_supports_structured_output :: bool
  pd_implementation_status :: string

definition openai_definition :: "string \<Rightarrow> provider_definition" where
  "openai_definition status =
     \<lparr>pd_adapter_type = ''openai_compatible'', pd_supports_image_input = True,
      pd_supports_structured_output = True, pd_implementation_status = status\<rparr>"

definition mock_tested :: string where
  "mock_tested = ''mock-tested; not live-tested''"

definition PROVIDER_REGISTRY :: "(string \<times> provider_definition) list" where
  "PROVIDER_REGISTRY =
    [(''openrouter'', openai_definition mock_tested),
     (''google_gemini'', \<lparr>pd_adapter_type = ''google_gemini'', pd_supports_image_input = True,
        pd_supports_structured_output = True, pd_implementation_status = mock_tested\<rparr>),
     (''alibaba_dashscope'', \<lparr>pd_adapter_type = ''alibaba_dashscope'', pd_supports_image_input = True,
        pd_supports_structured_output = True, pd_implementation_status = ''configuration-ready''\<rparr>),
     (''requesty'', openai_definition mock_tested),
     (''huggingface'', \<lparr>pd_adapter_type = ''huggingface'', pd_supports_image_input = True,
        pd_supports_structured_output = False, pd_implementation_status = ''configuration-ready''\<rparr>),
     (''nvidia_nim'', openai_definition mock_tested),
     (''sambanova'', openai_definition mock_tested),
     (''github_models'', openai_definition mock_tested),
     (''cloudflare_workers_ai'', \<lparr>pd_adapter_type = ''cloudflare_workers_ai'', pd_supports_image_input = True,
        pd_supports_structured_output = False, pd_implementation_status = ''configuration-ready''\<rparr>),
     (''siliconflow'', openai_definition mock_tested),
     (''deepinfra'', openai_definition mock_tested),
     (''fireworks'', openai_definition mock_tested),
     (''together'', openai_definition mock_tested),
     (''nebius'', openai_definition mock_tested),
     (''replicate'', openai_definition ''configuration-ready''),
     (''novita'', openai_definition mock_tested)]"

definition get_provider_definition :: "string \<Rightarrow> provider_definition option" where
  "get_provider_definition provider = map_of PROVIDER_REGISTRY (py_lower (py_strip provider))"

datatype adapter = OpenAICompatible | GoogleGemini

definition get_provider_adapter :: "string \<Rightarrow> adapter option" where
  "get_provider_adapter provider =
     (case get_provider_definition provider of
        None \<Rightarrow> None
      | Some d \<Rightarrow>
          if pd_implementation_status d = ''configuration-ready'' then None
          else if pd_adapter_type d = ''openai_compatible'' then Some OpenAICompatible
          else if pd_adapter_type d = ''google_gemini'' then Some GoogleGemini
          else None)"

subsection \<open>Choosing the best candidate\<close>

text \<open>
  \<open>eligible.sort(key=lambda item: (-item[0], item[1]))\<close> and \<open>eligible[0]\<close>: the stable sort by descending
  score, then by the tie-breaking text.
\<close>

definition best_first :: "(pyfloat \<times> string \<times> 'c) list \<Rightarrow> (pyfloat \<times> string \<times> 'c) list" where
  "best_first xs = sort_key (\<lambda>(score, tie, c). (- score, tie)) xs"

subsection \<open>Accounts\<close>

definition account_rejection ::
  "(string \<Rightarrow> bool) \<Rightarrow> instant \<Rightarrow> request_context \<Rightarrow> provider_account \<Rightarrow> account_runtime option \<Rightarrow> int
    \<Rightarrow> string set \<Rightarrow> string option" where
  "account_rejection has_secret now c a runtime active_count allowed =
     (let definition0 = get_provider_definition (acc_provider a);
          estimated = (case ctx_estimated_cost c of None \<Rightarrow> 0 | Some x \<Rightarrow> x)
      in if allowed \<noteq> {} \<and> acc_provider a \<notin> allowed then Some ''provider_not_allowed''
         else if \<not> acc_enabled a then Some ''account_disabled''
         else if acc_account_state a = AS_QUARANTINED then Some ''account_quarantined''
         else if acc_account_state a = AS_COOLDOWN then Some ''account_cooldown''
         else if acc_account_state a \<noteq> AS_ACTIVE
         then Some (''account_'' @ py_lower (account_state_value (acc_account_state a)))
         else if At now < acc_cooldown_until a then Some ''account_cooldown''
         else if acc_secret_ref a = [] \<or> \<not> has_secret (acc_secret_ref a) then Some ''secret_missing''
         else if (case runtime of Some r \<Rightarrow> rt_state r \<noteq> AS_ACTIVE | None \<Rightarrow> False)
         then Some (''runtime_'' @ py_lower (account_state_value (rt_state (the runtime))))
         else if (case runtime of Some r \<Rightarrow> At now < rt_cooldown_until r | None \<Rightarrow> False) then Some ''cooldown''
         else if acc_max_concurrency a \<le> active_count then Some ''max_concurrency''
         else if ctx_requires_vision c \<and> \<not> acc_allows_vision a then Some ''vision_not_allowed''
         else if \<not> acc_allows_text a then Some ''text_not_allowed''
         else if normalized_privacy c \<notin> set (acc_allowed_privacy a) then Some ''privacy_not_allowed''
         else case definition0 of
           None \<Rightarrow> Some ''unknown_provider''
         | Some d \<Rightarrow>
             if ctx_requires_vision c \<and> \<not> pd_supports_image_input d then Some ''provider_no_vision''
             else if ctx_requires_structured_output c \<and> \<not> pd_supports_structured_output d
             then Some ''provider_no_structured_output''
             else if ctx_estimated_cost c = None \<and> ctx_free_only c then Some ''unknown_price_free_only''
             else if ctx_free_only c \<and> 0 < estimated then Some ''paid_model_blocked''
             else if 0 < estimated \<and> \<not> acc_allows_paid a then Some ''paid_not_allowed''
             else if 0 < estimated \<and> acc_daily_cost_limit a \<le> 0 then Some ''paid_without_budget''
             else if ctx_max_cost c \<noteq> 0 \<and> ctx_max_cost c < estimated then Some ''request_cost_limit''
             else if map_of (acc_metadata a) ''circuit_state'' = Some ''OPEN'' then Some ''circuit_open''
             else None)"

definition account_score :: "provider_account \<Rightarrow> request_context \<Rightarrow> int \<Rightarrow> pyfloat" where
  "account_score a c active_count =
     (let estimated = (case ctx_estimated_cost c of None \<Rightarrow> 0 | Some x \<Rightarrow> x);
          s0 = of_int (acc_priority a * 1000 + acc_weight a * 10);
          s1 = (if acc_allows_free a \<and> estimated = 0 then s0 + 250 else s0);
          s2 = (if acc_daily_cost_limit a \<noteq> 0 then s1 + max 0 (acc_daily_cost_limit a - estimated) else s1);
          s3 = s2 - of_int active_count * 50 - estimated * 100
      in case ctx_page_quality c of None \<Rightarrow> s3 | Some q \<Rightarrow> s3 + max 0 (min 100 q) / 100)"

definition account_tie :: "provider_account \<Rightarrow> string" where
  "account_tie a = acc_provider a @ '':'' @ acc_pool_id a @ '':'' @ acc_account_id a"

type_synonym runtime_map = "(string \<times> string \<times> string) \<Rightarrow> account_runtime option"

text \<open>\<open>AccountSelector.select\<close>; \<open>counts\<close> is \<open>active_counts.get(id, 0)\<close>.\<close>

definition select_account_for ::
  "(string \<Rightarrow> bool) \<Rightarrow> instant \<Rightarrow> key_router_mode \<Rightarrow> request_context \<Rightarrow> provider_account list \<Rightarrow> runtime_map
    \<Rightarrow> (string \<Rightarrow> int) \<Rightarrow> selection_decision" where
  "select_account_for has_secret now mode c accounts runtimes counts =
     (let allowed = set (map py_lower (ctx_allowed_providers c));
          reason = (\<lambda>a. account_rejection has_secret now c a
             (runtimes (ctx_router_id c, acc_provider a, acc_pool_id a)) (counts (acc_account_id a)) allowed);
          rejected = [(acc_account_id a, the (reason a)). a \<leftarrow> accounts, reason a \<noteq> None];
          eligible = [(account_score a c (counts (acc_account_id a)), account_tie a, a). a \<leftarrow> accounts, reason a = None];
          decision0 = \<lparr>sd_mode = mode, sd_selected_account = None, sd_provider = [], sd_pool_id = ctx_pool_id c,
             sd_model = ctx_requested_model c, sd_decision_reason = ''no_eligible_account'',
             sd_eligible_count = 0, sd_rejected = rejected, sd_score = 0, sd_secret_fingerprint = [],
             sd_endpoint_id = [], sd_canonical_model_id = [], sd_reason_codes = []\<rparr>
      in case best_first eligible of
           [] \<Rightarrow> decision0
         | (score, _, a) # _ \<Rightarrow>
             decision0\<lparr>sd_selected_account := Some a, sd_provider := acc_provider a,
               sd_pool_id := acc_pool_id a, sd_decision_reason := ''eligible'',
               sd_eligible_count := int (length eligible), sd_score := score\<rparr>)"

subsection \<open>Endpoints\<close>

definition effective_context :: "request_context \<Rightarrow> routing_policy \<Rightarrow> request_context" where
  "effective_context c p = c\<lparr>ctx_requires_vision := ctx_requires_vision c \<or> pl_vision_required p,
     ctx_requires_structured_output := ctx_requires_structured_output c \<or> pl_structured_output_required p\<rparr>"

record route_exclusions =
  rx_open_circuits :: "(string \<times> string) set"
  rx_providers :: "string set"
  rx_models :: "(string \<times> string) set"

definition endpoint_rejection ::
  "request_context \<Rightarrow> routing_policy \<Rightarrow> bool \<Rightarrow> bool \<Rightarrow> route_exclusions \<Rightarrow> model_endpoint \<Rightarrow> string option" where
  "endpoint_rejection c p require_verified_vision allow_declared_only x e =
     (let allowed = set (map py_lower (pl_allowed_providers p));
          blocked = set (map py_lower (pl_blocked_providers p));
          context_allowed = set (map py_lower (ctx_allowed_providers c))
      in if \<not> ep_enabled e then Some ''endpoint_disabled''
         else if ctx_canonical_model_id c \<noteq> [] \<and> ep_canonical_model_id e \<noteq> ctx_canonical_model_id c
         then Some ''canonical_model_mismatch''
         else if allowed \<noteq> {} \<and> ep_provider e \<notin> allowed then Some ''provider_not_allowed_by_policy''
         else if context_allowed \<noteq> {} \<and> ep_provider e \<notin> context_allowed
         then Some ''provider_not_allowed_by_request''
         else if ep_provider e \<in> blocked \<or> ep_provider e \<in> rx_providers x then Some ''provider_blocked''
         else if pl_allowed_models p \<noteq> [] \<and> ep_canonical_model_id e \<notin> set (pl_allowed_models p)
         then Some ''model_not_allowed''
         else if (ep_provider e, ep_provider_model_id e) \<in> rx_models x then Some ''model_excluded''
         else if (ep_provider e, []) \<in> rx_open_circuits x
              \<or> (ep_provider e, ep_provider_model_id e) \<in> rx_open_circuits x
         then Some ''circuit_open''
         else if pl_maximum_cost p \<noteq> 0 \<and> (case ctx_estimated_cost c of None \<Rightarrow> False | Some k \<Rightarrow> pl_maximum_cost p < k)
         then Some ''policy_cost_limit''
         else if pl_maximum_latency_ms p \<noteq> 0 \<and> pl_maximum_latency_ms p < ep_expected_latency_ms e
         then Some ''policy_latency_limit''
         else if ''structured_json'' \<in> set (pl_required_capabilities p) \<and> \<not> ep_supports_structured_json e
         then Some ''structured_output_not_supported''
         else if ''system_prompt'' \<in> set (pl_required_capabilities p) \<and> \<not> ep_supports_system_prompt e
         then Some ''system_prompt_not_supported''
         else validate_request e (effective_context c p) require_verified_vision allow_declared_only)"

definition endpoint_score :: "routing_policy \<Rightarrow> model_endpoint \<Rightarrow> pyfloat" where
  "endpoint_score p e =
     ep_quality_score e * 1000 - of_int (ep_expected_latency_ms e) / 10
     - (ep_pricing_input e + ep_pricing_output e + ep_pricing_image e)
     + sum_list [10. q \<leftarrow> pl_preferred_capabilities p, q = ''structured_json'' \<and> ep_supports_structured_json e]"

definition endpoint_tie :: "model_endpoint \<Rightarrow> string" where
  "endpoint_tie e = ep_provider e @ '':'' @ ep_provider_model_id e @ '':'' @ ep_endpoint_id e"

definition select_endpoint ::
  "request_context \<Rightarrow> routing_policy \<Rightarrow> model_endpoint list \<Rightarrow> bool \<Rightarrow> bool \<Rightarrow> route_exclusions
    \<Rightarrow> model_endpoint option \<times> (string \<times> string) list" where
  "select_endpoint c p endpoints require_verified_vision allow_declared_only x =
     (let reason = endpoint_rejection c p require_verified_vision allow_declared_only x;
          rejected = [(ep_endpoint_id e, the (reason e)). e \<leftarrow> endpoints, reason e \<noteq> None];
          eligible = [(endpoint_score p e, endpoint_tie e, e). e \<leftarrow> endpoints, reason e = None]
      in (case best_first eligible of [] \<Rightarrow> None | (_, _, e) # _ \<Rightarrow> Some e, rejected))"

subsection \<open>What selection guarantees\<close>

lemma best_first_Nil: "best_first xs = [] \<longleftrightarrow> xs = []"
  by (simp add: best_first_def) (metis length_0_conv length_sort)

lemma best_first_Cons:
  assumes "best_first xs = (s, t, y) # ys"
  shows "(s, t, y) \<in> set xs" and "(s', t', y') \<in> set xs \<Longrightarrow> s' < s \<or> s' = s \<and> t \<le> t'"
proof -
  let ?k = "\<lambda>(score, tie, c). (- score, tie)"
  have set: "set ((s, t, y) # ys) = set xs" using assms by (metis best_first_def set_sort)
  then show "(s, t, y) \<in> set xs" by auto
  have "sorted (map ?k ((s, t, y) # ys))" using assms by (metis best_first_def sorted_sort_key)
  then have "\<forall>x \<in> set ((s, t, y) # ys). ?k (s, t, y) \<le> ?k x" by auto
  then show "(s', t', y') \<in> set xs \<Longrightarrow> s' < s \<or> s' = s \<and> t \<le> t'"
    unfolding set by (fastforce simp: less_eq_prod_def)
qed


lemma account_rejection_None:
  assumes "account_rejection has_secret now c a rt n allowed = None"
  shows "acc_enabled a" "acc_account_state a = AS_ACTIVE" "acc_cooldown_until a \<le> At now"
    "has_secret (acc_secret_ref a)" "n < acc_max_concurrency a"
    "normalized_privacy c \<in> set (acc_allowed_privacy a)" "ctx_requires_vision c \<Longrightarrow> acc_allows_vision a"
    "ctx_free_only c \<Longrightarrow> \<exists>k. ctx_estimated_cost c = Some k \<and> k \<le> 0"
    "ctx_estimated_cost c = Some k \<Longrightarrow> 0 < k \<Longrightarrow> acc_allows_paid a \<and> 0 < acc_daily_cost_limit a"
  using assms unfolding account_rejection_def Let_def
  by (simp_all add: not_less not_le split: if_split_asm option.split_asm)

text \<open>
  Privacy and cost of the chosen account: it is enabled, active, with a secret, below its concurrency
  limit, allowed for the privacy class of the request; a free-only request is only served at an estimated
  cost known to be zero or less, and a paid one only by an account that allows paid use and has a daily budget.
\<close>

theorem selected_account_admissible:
  assumes "sd_selected_account (select_account_for has_secret now mode c accounts runtimes counts) = Some a"
  shows "a \<in> set accounts \<and> acc_enabled a \<and> acc_account_state a = AS_ACTIVE \<and> acc_cooldown_until a \<le> At now
    \<and> has_secret (acc_secret_ref a) \<and> counts (acc_account_id a) < acc_max_concurrency a
    \<and> normalized_privacy c \<in> set (acc_allowed_privacy a)
    \<and> (ctx_free_only c \<longrightarrow> (\<exists>k. ctx_estimated_cost c = Some k \<and> k \<le> 0))
    \<and> (\<forall>k. ctx_estimated_cost c = Some k \<and> 0 < k \<longrightarrow> acc_allows_paid a \<and> 0 < acc_daily_cost_limit a)
    \<and> (ctx_requires_vision c \<longrightarrow> acc_allows_vision a)"
proof -
  let ?rej = "\<lambda>a. account_rejection has_secret now c a
     (runtimes (ctx_router_id c, acc_provider a, acc_pool_id a)) (counts (acc_account_id a))
     (set (map py_lower (ctx_allowed_providers c)))"
  let ?el = "[(account_score a c (counts (acc_account_id a)), account_tie a, a). a \<leftarrow> accounts, ?rej a = None]"
  obtain s t ys where "best_first ?el = (s, t, a) # ys"
    using assms by (auto simp: select_account_for_def Let_def split: list.splits prod.splits)
  then have "(s, t, a) \<in> set ?el" by (rule best_first_Cons(1))
  then have a: "a \<in> set accounts" and r: "?rej a = None" by auto
  from account_rejection_None [OF r] a show ?thesis by auto
qed

subsection \<open>A concrete request, endpoint and account\<close>

definition sample_context :: request_context where
  "sample_context =
     \<lparr>ctx_request_id = ''req'', ctx_operation_id = ''op'', ctx_task_type = ''OCR'',
      ctx_modality = EnumV MOD_TEXT, ctx_requested_model = ''m'', ctx_allowed_providers = [],
      ctx_free_only = True, ctx_max_cost = 0, ctx_estimated_input_tokens = 10,
      ctx_estimated_output_tokens = 10, ctx_estimated_cost = Some 0, ctx_page_quality = None,
      ctx_document_type = [], ctx_requires_vision = False, ctx_requires_structured_output = False,
      ctx_router_id = ''r'', ctx_pool_id = ''primary'', ctx_canonical_model_id = [], ctx_policy_id = [],
      ctx_mime_type = [], ctx_payload_bytes = 0, ctx_image_width = 0, ctx_image_height = 0,
      ctx_image_count = 0, ctx_privacy_classification = EnumV PV_INTERNAL, ctx_deadline_at = Never,
      ctx_teacher_role = [], ctx_region_type = [], ctx_required_training_output_policy_status = []\<rparr>"

definition sample_endpoint :: model_endpoint where
  "sample_endpoint =
     \<lparr>ep_endpoint_id = ''e1'', ep_canonical_model_id = ''cm'', ep_provider = ''openrouter'',
      ep_provider_model_id = ''m'', ep_endpoint_type = ''chat'', ep_supports_text = True,
      ep_supports_vision_declared = True, ep_supports_vision_verified = False,
      ep_supports_base64 = False, ep_supports_image_url = False, ep_supports_native_pdf = False,
      ep_supports_multiple_images = False, ep_max_images_per_request = 1, ep_supported_mime_types = [],
      ep_max_image_width = 0, ep_max_image_height = 0, ep_max_image_pixels = 0, ep_max_payload_bytes = 0,
      ep_max_context_tokens = 0, ep_max_output_tokens = 0, ep_supports_structured_json = False,
      ep_supports_json_schema = False, ep_supports_streaming = False, ep_supports_system_prompt = True,
      ep_supports_temperature = True, ep_supports_seed = False, ep_supports_tools = False,
      ep_supports_parallel_tools = False, ep_supports_reasoning = False, ep_pricing_input = 0,
      ep_pricing_output = 0, ep_pricing_image = 0, ep_currency = ''USD'', ep_region_availability = [],
      ep_declared_status = VS_DECLARED, ep_verified_status = VS_UNKNOWN, ep_declared_at = [],
      ep_last_verified_at = [], ep_capability_source = [], ep_notes = [], ep_enabled = True,
      ep_expected_latency_ms = 0, ep_quality_score = 1, ep_supports_text_output = True,
      ep_privacy_compatibility = [], ep_region_support = [], ep_teacher_role_support = [],
      ep_training_output_policy_status = ''unknown''\<rparr>"

definition sample_account :: provider_account where
  "sample_account =
     \<lparr>acc_account_id = ''a1'', acc_provider = ''openrouter'', acc_pool_id = ''primary'',
      acc_display_name = [], acc_secret_ref = ''KEY'', acc_enabled = True, acc_environment = [],
      acc_region = [], acc_project_id = [], acc_tenant_id = [], acc_priority = 0, acc_weight = 1,
      acc_allows_free = True, acc_allows_paid = False, acc_allows_vision = True, acc_allows_text = True,
      acc_monthly_cost_limit = 0, acc_daily_cost_limit = 0, acc_daily_request_limit = 5,
      acc_daily_token_limit = 0, acc_max_concurrency = 1, acc_metadata = [], acc_created_at = Never,
      acc_updated_at = Never, acc_version = 0, acc_account_state = AS_ACTIVE, acc_organization_id = [],
      acc_allowed_privacy = [''public'', ''internal''], acc_cooldown_until = Never\<rparr>"

definition no_exclusions :: route_exclusions where
  "no_exclusions = \<lparr>rx_open_circuits = {}, rx_providers = {}, rx_models = {}\<rparr>"

definition fast_policy :: routing_policy where
  "fast_policy = projr (get_policy ''OCR'')"

definition vision_policy :: routing_policy where
  "vision_policy = projr (get_policy ''OCR_ACCURATE_VISION'')"


lemma selected_account_admissible_witness:
  "normalized_privacy sample_context \<in> set (acc_allowed_privacy sample_account)
    \<and> (\<exists>k. ctx_estimated_cost sample_context = Some k \<and> k \<le> 0)"
proof -
  let ?d = "select_account_for (\<lambda>r. r = ''KEY'') 0 MODE_ACTIVE sample_context [sample_account] (\<lambda>_. None) (\<lambda>_. 0)"
  have "map_option acc_account_id (sd_selected_account ?d) = Some ''a1''" by code_simp
  then obtain a where a: "sd_selected_account ?d = Some a" by auto
  have "ctx_free_only sample_context" by (simp add: sample_context_def)
  then show ?thesis using selected_account_admissible [OF a] by auto
qed

lemma validate_vision:
  "validate_request e c rv ad = None \<Longrightarrow> ctx_requires_vision c \<or> normalized_modality c = ''image'' \<Longrightarrow>
    supports_required_vision e rv ad"
  by (rule ccontr) (simp add: validate_request_def Let_def)

text \<open>
  With \<open>require_verified_vision\<close> set, a request that needs vision, by itself, by its modality or by its
  policy, is only routed to an endpoint whose vision was verified.
\<close>

theorem vision_needs_verification:
  assumes "fst (select_endpoint c p endpoints True ad x) = Some e"
    and "ctx_requires_vision c \<or> pl_vision_required p \<or> normalized_modality c = ''image''"
  shows "ep_supports_vision_verified e \<and> ep_verified_status e = VS_VERIFIED"
proof -
  let ?ok = "\<lambda>e. endpoint_rejection c p True ad x e = None"
  obtain s t ys where "best_first [(endpoint_score p e, endpoint_tie e, e). e \<leftarrow> endpoints, ?ok e] = (s, t, e) # ys"
    using assms(1) by (auto simp: select_endpoint_def Let_def split: list.splits prod.splits)
  from best_first_Cons(1) [OF this] have ok: "?ok e" by auto
  have md: "normalized_modality (effective_context c p) = normalized_modality c"
    by (simp add: effective_context_def normalized_modality_def)
  have "validate_request e (effective_context c p) True ad = None"
    using ok by (simp add: endpoint_rejection_def Let_def split: if_splits)
  moreover have "ctx_requires_vision (effective_context c p) \<or> normalized_modality (effective_context c p) = ''image''"
    using assms(2) md by (auto simp: effective_context_def)
  ultimately have "supports_required_vision e True ad" by (rule validate_vision)
  then show ?thesis by (simp add: supports_required_vision_def split: if_splits)
qed

definition verified_endpoint :: model_endpoint where
  "verified_endpoint = sample_endpoint\<lparr>ep_supports_vision_verified := True, ep_verified_status := VS_VERIFIED\<rparr>"

lemma vision_needs_verification_witness:
  "\<exists>e. fst (select_endpoint sample_context vision_policy [verified_endpoint] True False no_exclusions) = Some e
    \<and> ep_verified_status e = VS_VERIFIED"
proof -
  let ?r = "fst (select_endpoint sample_context vision_policy [verified_endpoint] True False no_exclusions)"
  have "map_option ep_endpoint_id ?r = Some ''e1''" and v: "pl_vision_required vision_policy" by code_simp+
  then obtain e where e: "?r = Some e" by auto
  from vision_needs_verification [OF e] e v show ?thesis by simp
qed

text \<open>
  The minimum verification a policy declares is not enforced: with \<open>require_verified_vision\<close> off and
  declared capabilities allowed, \<open>OCR_ACCURATE_VISION\<close>, whose \<open>minimum_verified_status\<close> is \<open>VERIFIED\<close>, is
  routed to an endpoint whose vision is declared only and whose verification status is \<open>UNKNOWN\<close>.
\<close>

theorem minimum_status_ignored:
  "pl_minimum_verified_status vision_policy = VS_VERIFIED
    \<and> map_option ep_verified_status
        (fst (select_endpoint sample_context vision_policy [sample_endpoint] False True no_exclusions))
      = Some VS_UNKNOWN"
  by code_simp

end
