(* ===== verification/KR_Service.thy ===== *)
theory KR_Service
  imports KR_Machine KR_Circuit KR_Quota KR_Config KR_Routing
begin

text \<open>
  The router itself (\<open>service.py\<close>): selecting an account or a route on the persistent tables, reserving,
  applying normalized errors, and the dispatch loop over provider attempts. The outside world is the
  argument \<open>env\<close>: configuration, environment variables, library functions, the clock and the random
  identifiers of each attempt, and the transport. The readings of the clock within one attempt are taken to
  be equal. The audit log, which nothing reads back, is not modelled.
\<close>

subsection \<open>The tables\<close>

record attempt_row =
  at_attempt_id :: string
  at_parent_request_id :: string
  at_request_id :: string
  at_attempt_number :: int
  at_provider :: string
  at_provider_model_id :: string
  at_account_id :: string
  at_reservation_id :: string
  at_outcome :: string
  at_error_type :: string
  at_created_at :: stamp
  at_completed_at :: stamp

record router_db =
  db_accounts :: "provider_account list"
  db_endpoints :: "model_endpoint list"
  db_runtimes :: runtime_table
  db_quota :: quota_state
  db_circuits :: circuit_table
  db_attempts :: "attempt_row list"
  db_errors :: "normalized_error list"

datatype transport_outcome =
  Answered int "(string \<times> string) list" json  \<comment> \<open>status, headers, body\<close>
| Failed exn bool                             \<comment> \<open>an exception, and its \<open>request_sent\<close>\<close>

record router_env =
  re_config :: kr_config
  re_lib :: text_lib
  re_environ :: environ
  re_uuid5 :: "string \<Rightarrow> string"
  re_parse_float :: "string \<Rightarrow> pyfloat option"
  re_now :: "int \<Rightarrow> instant"                    \<comment> \<open>of the attempt with this number\<close>
  re_reservation_id :: "int \<Rightarrow> string"
  re_token :: "int \<Rightarrow> string"
  re_transport :: "int \<Rightarrow> candidate \<Rightarrow> transport_outcome"

definition config_limits :: "kr_config \<Rightarrow> circuit_limits" where
  "config_limits cfg = \<lparr>cl_failure_threshold = cf_failure_threshold cfg,
     cl_open_seconds = cf_circuit_open_seconds cfg,
     cl_failure_window_seconds = cf_circuit_failure_window_seconds cfg,
     cl_probe_limit = cf_half_open_probe_count cfg\<rparr>"

text \<open>\<open>list_accounts\<close>, \<open>list_endpoints(enabled_only=True)\<close> and \<open>list_circuits\<close> with their orders.\<close>

definition list_accounts :: "router_db \<Rightarrow> provider_account list" where
  "list_accounts db = sort_key (\<lambda>a. (acc_provider a, acc_pool_id a, acc_account_id a)) (db_accounts db)"

definition enabled_endpoints :: "router_db \<Rightarrow> model_endpoint list" where
  "enabled_endpoints db = sort_key (\<lambda>e. (ep_canonical_model_id e, ep_provider e, ep_provider_model_id e))
     (filter ep_enabled (db_endpoints db))"

definition list_circuits :: "router_db \<Rightarrow> circuit_row list" where
  "list_circuits db = sort_key (\<lambda>r. (cb_provider r, cb_level r, cb_circuit_id r)) (db_circuits db)"

definition has_secret :: "router_env \<Rightarrow> string \<Rightarrow> bool" where
  "has_secret env ref = (case resolve_secret (re_environ env) ref of Inr (Some _) \<Rightarrow> True | _ \<Rightarrow> False)"

subsection \<open>Account states\<close>

definition get_account :: "string \<Rightarrow> router_db \<Rightarrow> provider_account option" where
  "get_account aid db = tbl_find (\<lambda>a. acc_account_id a = aid) (db_accounts db)"

definition set_account_state ::
  "string \<Rightarrow> account_state \<Rightarrow> bool option \<Rightarrow> instant \<Rightarrow> router_db \<Rightarrow> kr_error + router_db" where
  "set_account_state aid st enabled now db =
     (let hit = (\<lambda>a. acc_account_id a = aid);
          f = (\<lambda>a. a\<lparr>acc_account_state := st,
                 acc_enabled := (case enabled of None \<Rightarrow> acc_enabled a | Some b \<Rightarrow> b),
                 acc_version := acc_version a + 1, acc_updated_at := At now\<rparr>)
      in if tbl_count hit (db_accounts db) \<noteq> 1 then Inl (KeyError ''Unknown provider account'')
         else Inr (db\<lparr>db_accounts := tbl_update hit f (db_accounts db)\<rparr>))"

definition set_account_cooldown :: "string \<Rightarrow> stamp \<Rightarrow> instant \<Rightarrow> router_db \<Rightarrow> kr_error + router_db" where
  "set_account_cooldown aid until now db =
     (let hit = (\<lambda>a. acc_account_id a = aid);
          f = (\<lambda>a. a\<lparr>acc_cooldown_until := until, acc_version := acc_version a + 1, acc_updated_at := At now\<rparr>)
      in if tbl_count hit (db_accounts db) \<noteq> 1 then Inl (KeyError ''Unknown provider account'')
         else Inr (db\<lparr>db_accounts := tbl_update hit f (db_accounts db)\<rparr>))"

subsection \<open>Attempts\<close>

definition record_attempt :: "attempt_row \<Rightarrow> router_db \<Rightarrow> kr_error + router_db" where
  "record_attempt row db =
     (if at_attempt_id row \<in> at_attempt_id ` set (db_attempts db)
      then Inl (IntegrityError ''key_router_attempts.attempt_id'')
      else Inr (db\<lparr>db_attempts := db_attempts db @ [row]\<rparr>))"

definition complete_attempt :: "string \<Rightarrow> string \<Rightarrow> string \<Rightarrow> instant \<Rightarrow> router_db \<Rightarrow> kr_error + router_db" where
  "complete_attempt aid outcome error_type now db =
     (let hit = (\<lambda>r. at_attempt_id r = aid \<and> at_outcome r = ''pending'');
          f = (\<lambda>r. r\<lparr>at_outcome := outcome, at_error_type := error_type, at_completed_at := At now\<rparr>)
      in if tbl_count hit (db_attempts db) \<noteq> 1 then Inl (FencingTokenError ''Attempt was already completed'')
         else Inr (db\<lparr>db_attempts := tbl_update hit f (db_attempts db)\<rparr>))"

subsection \<open>Selecting\<close>

text \<open>\<open>ensure_runtime\<close> for each account in turn, collecting the runtimes by key.\<close>

definition wanted_state :: "provider_account \<Rightarrow> account_state" where
  "wanted_state a = (if acc_enabled a \<and> acc_account_state a = AS_ACTIVE then AS_ACTIVE else AS_DISABLED)"

fun ensure_runtimes ::
  "string \<Rightarrow> instant \<Rightarrow> provider_account list \<Rightarrow> runtime_table \<Rightarrow> runtime_map
    \<Rightarrow> runtime_table \<times> (kr_error + runtime_map)" where
  "ensure_runtimes router now [] t m = (t, Inr m)"
| "ensure_runtimes router now (a # as) t m =
     (let k = (router, acc_provider a, acc_pool_id a)
      in case ensure_runtime k (wanted_state a) now t of
           Inl e \<Rightarrow> (t, Inl e)
         | Inr (t', r) \<Rightarrow> ensure_runtimes router now as t' (m(k \<mapsto> r)))"

definition disabled_decision :: "key_router_mode \<Rightarrow> request_context \<Rightarrow> string \<Rightarrow> selection_decision" where
  "disabled_decision mode c reason =
     \<lparr>sd_mode = mode, sd_selected_account = None, sd_provider = [], sd_pool_id = ctx_pool_id c,
      sd_model = ctx_requested_model c, sd_decision_reason = reason, sd_eligible_count = 0,
      sd_rejected = [], sd_score = 0, sd_secret_fingerprint = [], sd_endpoint_id = [],
      sd_canonical_model_id = [], sd_reason_codes = []\<rparr>"

definition with_fingerprint :: "router_env \<Rightarrow> selection_decision \<Rightarrow> selection_decision" where
  "with_fingerprint env d =
     (case sd_selected_account d of
        None \<Rightarrow> d
      | Some a \<Rightarrow>
          (case resolve_secret (re_environ env) (acc_secret_ref a) of
             Inr (Some h) \<Rightarrow> d\<lparr>sd_secret_fingerprint := secret_fingerprint (lib_sha256 (re_lib env)) h\<rparr>
           | _ \<Rightarrow> d))"

text \<open>
  What both selections do with a list of accounts. The result is the database after the transactions
  that were committed, with the decision or the exception.
\<close>

definition select_among ::
  "router_env \<Rightarrow> instant \<Rightarrow> request_context \<Rightarrow> provider_account list \<Rightarrow> router_db
    \<Rightarrow> router_db \<times> (kr_error + selection_decision)" where
  "select_among env now c accounts db =
     (let (rts, res) = ensure_runtimes (ctx_router_id c) now accounts (db_runtimes db) Map.empty;
          db1 = db\<lparr>db_runtimes := rts\<rparr>
      in case res of
           Inl e \<Rightarrow> (db1, Inl e)
         | Inr runtimes \<Rightarrow>
             (db1, Inr (select_account_for (has_secret env) now (cf_mode (re_config env)) c accounts runtimes
                (\<lambda>aid. int (active_reservation_count aid (db_quota db))))))"

definition select_account ::
  "router_env \<Rightarrow> instant \<Rightarrow> request_context \<Rightarrow> router_db \<Rightarrow> router_db \<times> (kr_error + selection_decision)" where
  "select_account env now c db =
     (let mode = cf_mode (re_config env)
      in if mode = MODE_DISABLED then (db, Inr (disabled_decision mode c ''key_router_disabled''))
         else case select_among env now c (list_accounts db) db of
                (db1, Inl e) \<Rightarrow> (db1, Inl e)
              | (db1, Inr d) \<Rightarrow>
                  if mode = MODE_ACTIVE \<and> sd_selected_account d = None
                  then (db1, Inl (KeyRouterUnavailable ''No eligible provider account''))
                  else (db1, Inr (with_fingerprint env d)))"

definition validate_active_configuration :: "router_env \<Rightarrow> router_db \<Rightarrow> kr_error + unit" where
  "validate_active_configuration env db =
     (let account_providers = acc_provider ` set (filter (\<lambda>a. acc_enabled a
             \<and> acc_account_state a = AS_ACTIVE \<and> get_provider_adapter (acc_provider a) \<noteq> None
             \<and> has_secret env (acc_secret_ref a)) (list_accounts db));
          endpoint_providers = ep_provider ` set (filter (\<lambda>e. get_provider_adapter (ep_provider e) \<noteq> None)
             (enabled_endpoints db))
      in validate_active_safety (re_config env) (account_providers \<inter> endpoint_providers \<noteq> {})
           (endpoint_providers \<noteq> {}))"

text \<open>
  The loop over the circuits: a probe is requested of every one that is not closed, and the target of each
  refusal is closed to this request.
\<close>

fun probe_circuits ::
  "int \<Rightarrow> instant \<Rightarrow> circuit_row list \<Rightarrow> circuit_table \<Rightarrow> (string \<times> string) set
    \<Rightarrow> circuit_table \<times> (string \<times> string) set" where
  "probe_circuits limit now [] t opened = (t, opened)"
| "probe_circuits limit now (r # rs) t opened =
     (if cb_state r \<notin> {CS_OPEN, CS_HALF_OPEN} then probe_circuits limit now rs t opened
      else let (t', ok) = acquire_half_open_probe (cb_circuit_id r) limit now t
           in probe_circuits limit now rs t'
                (if ok then opened else insert (cb_provider r, cb_provider_model_id r) opened))"

definition route_context :: "request_context \<Rightarrow> routing_policy \<Rightarrow> model_endpoint \<Rightarrow> request_context" where
  "route_context c p e = (effective_context c p)
     \<lparr>ctx_requested_model := ep_provider_model_id e, ctx_allowed_providers := [ep_provider e]\<rparr>"

definition route_decision ::
  "router_env \<Rightarrow> model_endpoint \<Rightarrow> (string \<times> string) list \<Rightarrow> selection_decision \<Rightarrow> selection_decision" where
  "route_decision env e endpoint_rejected d = with_fingerprint env
     (d\<lparr>sd_endpoint_id := ep_endpoint_id e, sd_canonical_model_id := ep_canonical_model_id e,
        sd_rejected := endpoint_rejected @ sd_rejected d,
        sd_reason_codes := (if sd_selected_account d \<noteq> None
           then [''endpoint_capabilities_satisfied'', ''account_policy_satisfied'', ''deterministic_score_selected'']
           else [''no_eligible_account''])\<rparr>)"

definition finish_route ::
  "router_env \<Rightarrow> router_db \<Rightarrow> selection_decision \<Rightarrow> router_db \<times> (kr_error + selection_decision)" where
  "finish_route env db d =
     (if cf_mode (re_config env) = MODE_ACTIVE \<and> sd_selected_account d = None
      then (db, Inl (KeyRouterUnavailable (sd_decision_reason d))) else (db, Inr d))"

definition policy_name :: "request_context \<Rightarrow> string" where
  "policy_name c = (if ctx_policy_id c \<noteq> [] then ctx_policy_id c else ctx_task_type c)"

text \<open>The part of \<open>select_route\<close> from the circuits on.\<close>

definition route_with_policy ::
  "router_env \<Rightarrow> instant \<Rightarrow> request_context \<Rightarrow> routing_policy \<Rightarrow> candidate set \<Rightarrow> string set
    \<Rightarrow> (string \<times> string) set \<Rightarrow> router_db \<Rightarrow> router_db \<times> (kr_error + selection_decision)" where
  "route_with_policy env now c p excluded_candidates excluded_providers excluded_models db =
     (let cfg = re_config env;
          (circuits, opened) = probe_circuits (cf_half_open_probe_count cfg) now (list_circuits db) (db_circuits db) {};
          db1 = db\<lparr>db_circuits := circuits\<rparr>;
          endpoints = filter (\<lambda>e. get_provider_adapter (ep_provider e) \<noteq> None) (enabled_endpoints db1);
          (choice, rejected) = select_endpoint c p endpoints (cf_require_verified_vision cfg)
             (cf_allow_declared_only_capabilities cfg)
             \<lparr>rx_open_circuits = opened, rx_providers = excluded_providers, rx_models = excluded_models\<rparr>
      in case choice of
           None \<Rightarrow> finish_route env db1 ((disabled_decision (cf_mode cfg) c ''no_eligible_endpoint'')
                    \<lparr>sd_rejected := rejected, sd_reason_codes := [''no_eligible_endpoint'']\<rparr>)
         | Some e \<Rightarrow>
             let accounts = filter (\<lambda>a. (ep_provider e, ep_provider_model_id e, acc_account_id a) \<notin> excluded_candidates)
                   (list_accounts db1)
             in case select_among env now (route_context c p e) accounts db1 of
                  (db2, Inl er) \<Rightarrow> (db2, Inl er)
                | (db2, Inr d) \<Rightarrow> finish_route env db2 (route_decision env e rejected d))"

definition select_route ::
  "router_env \<Rightarrow> instant \<Rightarrow> request_context \<Rightarrow> candidate set \<Rightarrow> string set \<Rightarrow> (string \<times> string) set
    \<Rightarrow> router_db \<Rightarrow> router_db \<times> (kr_error + selection_decision)" where
  "select_route env now c excluded_candidates excluded_providers excluded_models db =
     (let mode = cf_mode (re_config env)
      in if mode = MODE_DISABLED then (db, Inr (disabled_decision mode c ''key_router_disabled''))
         else case (if mode = MODE_ACTIVE then validate_active_configuration env db else Inr ()) of
           Inl e \<Rightarrow> (db, Inl e)
         | Inr _ \<Rightarrow>
             (case get_policy (policy_name c) of
                Inl e \<Rightarrow> (db, Inl e)
              | Inr p \<Rightarrow> route_with_policy env now c p excluded_candidates excluded_providers excluded_models db))"

subsection \<open>Reserving and settling\<close>

definition reserve ::
  "router_env \<Rightarrow> instant \<Rightarrow> request_context \<Rightarrow> selection_decision \<Rightarrow> string \<Rightarrow> string \<Rightarrow> string \<Rightarrow> string
    \<Rightarrow> string \<Rightarrow> quota_state \<Rightarrow> kr_error + (quota_state \<times> request_reservation)" where
  "reserve env now c d key attempt_id parent rid token s =
     (if cf_mode (re_config env) \<noteq> MODE_ACTIVE
      then Inl (KeyRouterUnavailable ''Reservations require KEY_ROUTER_MODE=active'')
      else case sd_selected_account d of
        None \<Rightarrow> Inl (KeyRouterUnavailable ''No selected account to reserve'')
      | Some a \<Rightarrow>
          (case quota_limits_for a c of
             Inl e \<Rightarrow> Inl e
           | Inr (request_limit, token_limit, cost_limit) \<Rightarrow>
               reserve_quota
                 \<lparr>qr_idempotency_key = key, qr_provider = acc_provider a, qr_pool_id = acc_pool_id a,
                  qr_account_id = acc_account_id a, qr_model = ctx_requested_model c,
                  qr_request_limit = request_limit, qr_token_limit = token_limit, qr_cost_limit = cost_limit,
                  qr_estimated_input_tokens = ctx_estimated_input_tokens c,
                  qr_estimated_output_tokens = ctx_estimated_output_tokens c,
                  qr_estimated_cost = (case ctx_estimated_cost c of None \<Rightarrow> 0 | Some x \<Rightarrow> x),
                  qr_ttl_seconds = cf_reservation_ttl_seconds (re_config env),
                  qr_request_id = ctx_request_id c,
                  qr_parent_request_id = (if parent \<noteq> [] then parent else ctx_request_id c),
                  qr_attempt_id = attempt_id, qr_provider_model_id = sd_model d,
                  qr_policy_id = policy_name c\<rparr> rid token now s))"

definition settle_success_of :: "int \<Rightarrow> int \<Rightarrow> pyfloat \<Rightarrow> settlement" where
  "settle_success_of i out cost =
     \<lparr>st_state = RS_SETTLED_SUCCESS, st_actual_input_tokens = i, st_actual_output_tokens = out,
      st_actual_cost = cost, st_error_code = [], st_request_count_consumed = None,
      st_token_cost_consumed = None, st_monetary_cost_consumed = None\<rparr>"

definition settle_failure_of :: "string \<Rightarrow> bool option \<Rightarrow> bool option \<Rightarrow> bool option \<Rightarrow> settlement" where
  "settle_failure_of code request tokens money =
     \<lparr>st_state = RS_SETTLED_FAILURE, st_actual_input_tokens = 0, st_actual_output_tokens = 0,
      st_actual_cost = 0, st_error_code = code, st_request_count_consumed = request,
      st_token_cost_consumed = tokens, st_monetary_cost_consumed = money\<rparr>"

definition release_of :: "string \<Rightarrow> settlement" where
  "release_of reason =
     \<lparr>st_state = RS_RELEASED, st_actual_input_tokens = 0, st_actual_output_tokens = 0,
      st_actual_cost = 0, st_error_code = reason, st_request_count_consumed = None,
      st_token_cost_consumed = None, st_monetary_cost_consumed = None\<rparr>"

subsection \<open>Applying a normalized error\<close>

fun then_db :: "router_db \<Rightarrow> (router_db \<Rightarrow> router_db \<times> kr_error option) \<Rightarrow> kr_error + router_db
    \<Rightarrow> router_db \<times> kr_error option" where
  "then_db db f (Inl e) = (db, Some e)"
| "then_db db f (Inr db') = f db'"

definition lift_circuits :: "router_db \<Rightarrow> kr_error + (circuit_table \<times> circuit_row) \<Rightarrow> kr_error + router_db" where
  "lift_circuits db r = (case r of Inl e \<Rightarrow> Inl e | Inr (t, _) \<Rightarrow> Inr (db\<lparr>db_circuits := t\<rparr>))"

definition apply_account_action ::
  "router_env \<Rightarrow> instant \<Rightarrow> normalized_error \<Rightarrow> router_db \<Rightarrow> kr_error + router_db" where
  "apply_account_action env now e db =
     (if ne_account_action e = ''quarantine'' \<and> ne_provider_account_id e \<noteq> []
      then set_account_state (ne_provider_account_id e) AS_QUARANTINED (Some False) now db
      else if ne_account_action e = ''cooldown'' \<and> ne_provider_account_id e \<noteq> [] \<and> ne_scope e \<noteq> SC_MODEL
      then set_account_cooldown (ne_provider_account_id e)
             (At (now + microseconds (case ne_retry_after_seconds e of
                 None \<Rightarrow> cf_default_cooldown_seconds (re_config env)
               | Some n \<Rightarrow> if n = 0 then cf_default_cooldown_seconds (re_config env) else n))) now db
      else Inr db)"

definition apply_circuit_failures ::
  "router_env \<Rightarrow> instant \<Rightarrow> normalized_error \<Rightarrow> router_db \<Rightarrow> router_db \<times> kr_error option" where
  "apply_circuit_failures env now e db =
     (let limits = config_limits (re_config env);
          failed = (\<lambda>level model db. lift_circuits db (record_circuit_failure (re_uuid5 env) limits level
             (ne_provider e) model [] now (db_circuits db)))
      in if ne_provider_action e \<noteq> ''record_circuit_failure'' then (db, None)
         else then_db db (\<lambda>db1.
           if ne_provider_model_id e = [] then (db1, None)
           else then_db db1 (\<lambda>db2. (db2, None)) (failed ''model'' (ne_provider_model_id e) db1))
           (failed ''provider'' [] db))"

definition apply_normalized_error ::
  "router_env \<Rightarrow> instant \<Rightarrow> normalized_error \<Rightarrow> router_db \<Rightarrow> router_db \<times> kr_error option" where
  "apply_normalized_error env now e db =
     (let db1 = db\<lparr>db_errors := db_errors db @ [e]\<rparr>
      in then_db db1 (apply_circuit_failures env now e) (apply_account_action env now e db1))"

subsection \<open>Reading a provider's answer\<close>

definition json_field :: "string \<Rightarrow> json \<Rightarrow> json option" where
  "json_field k v = (case v of JObj kvs \<Rightarrow> map_of kvs k | _ \<Rightarrow> None)"

definition json_head :: "json \<Rightarrow> json option" where
  "json_head v = (case v of JList (x # _) \<Rightarrow> Some x | _ \<Rightarrow> None)"

definition answer_text :: "adapter \<Rightarrow> json \<Rightarrow> json option" where
  "answer_text ad body =
     (case ad of
        OpenAICompatible \<Rightarrow>
          Option.bind (json_field ''choices'' body) (\<lambda>a. Option.bind (json_head a) (\<lambda>b.
          Option.bind (json_field ''message'' b) (json_field ''content'')))
      | GoogleGemini \<Rightarrow>
          Option.bind (json_field ''candidates'' body) (\<lambda>a. Option.bind (json_head a) (\<lambda>b.
          Option.bind (json_field ''content'' b) (\<lambda>c. Option.bind (json_field ''parts'' c) (\<lambda>d.
          Option.bind (json_head d) (json_field ''text''))))))"

text \<open>\<open>parse_response\<close> of a response below 400: the text, or the message of its \<open>ValueError\<close>.\<close>

definition parse_response :: "adapter \<Rightarrow> json \<Rightarrow> string + string" where
  "parse_response ad body =
     (case answer_text ad body of
        None \<Rightarrow> Inl ''Malformed provider response''
      | Some (JStr s) \<Rightarrow> if py_strip s = [] then Inl ''Empty provider response'' else Inr s
      | Some _ \<Rightarrow> Inl ''Empty provider response'')"

text \<open>\<open>int(value or 0)\<close> and \<open>float(value or 0)\<close>; of a non-empty list or object they raise \<open>TypeError\<close>.\<close>

definition trunc :: "rat \<Rightarrow> int" where
  "trunc x = (if x < 0 then - \<lfloor>- x\<rfloor> else \<lfloor>x\<rfloor>)"

definition int_or_0 :: "json \<Rightarrow> kr_error + int" where
  "int_or_0 v =
     (if \<not> truthy v then Inr 0
      else case v of
        JInt n \<Rightarrow> Inr n
      | JBool _ \<Rightarrow> Inr 1
      | JFloat x \<Rightarrow> Inr (trunc x)
      | JStr s \<Rightarrow> (case py_int s of Some n \<Rightarrow> Inr n | None \<Rightarrow> Inl (ValueError ''invalid literal for int()''))
      | _ \<Rightarrow> Inl (RuntimeError ''TypeError''))"

definition float_or_0 :: "(string \<Rightarrow> pyfloat option) \<Rightarrow> json \<Rightarrow> kr_error + pyfloat" where
  "float_or_0 parse_float v =
     (if \<not> truthy v then Inr 0
      else case v of
        JInt n \<Rightarrow> Inr (of_int n)
      | JBool _ \<Rightarrow> Inr 1
      | JFloat x \<Rightarrow> Inr x
      | JStr s \<Rightarrow> (case parse_float s of Some x \<Rightarrow> Inr x | None \<Rightarrow> Inl (ValueError ''could not convert string to float''))
      | _ \<Rightarrow> Inl (RuntimeError ''TypeError''))"

definition usage_object :: "string \<Rightarrow> json \<Rightarrow> (string \<times> json) list" where
  "usage_object k body = (case json_field k body of Some (JObj u) \<Rightarrow> u | _ \<Rightarrow> [])"

definition extract_usage ::
  "(string \<Rightarrow> pyfloat option) \<Rightarrow> adapter \<Rightarrow> json \<Rightarrow> kr_error + (int \<times> int \<times> pyfloat)" where
  "extract_usage parse_float ad body =
     (case ad of
        OpenAICompatible \<Rightarrow>
          (let u = usage_object ''usage'' body in
           bind_e (int_or_0 (obj_get u ''prompt_tokens'')) (\<lambda>i.
           bind_e (int_or_0 (obj_get u ''completion_tokens'')) (\<lambda>out.
           bind_e (float_or_0 parse_float (obj_get u ''cost'')) (\<lambda>cost. Inr (i, out, cost)))))
      | GoogleGemini \<Rightarrow>
          (let u = usage_object ''usageMetadata'' body in
           bind_e (int_or_0 (obj_get u ''promptTokenCount'')) (\<lambda>i.
           bind_e (int_or_0 (obj_get u ''candidatesTokenCount'')) (\<lambda>out. Inr (i, out, 0)))))"

subsection \<open>One attempt\<close>

record loop_state =
  ls_db :: router_db
  ls_retry :: retry_state
  ls_last_error :: "normalized_error option"

datatype turn =
  Continue loop_state
| Break loop_state
| Raise kr_error router_db
| Return dispatch_result router_db

text \<open>What an attempt has fixed once it is under way.\<close>

record attempt_ctx =
  ax_candidate :: candidate
  ax_id :: string
  ax_now :: instant
  ax_adapter :: adapter
  ax_reservation :: request_reservation

definition ax_account :: "attempt_ctx \<Rightarrow> string" where "ax_account ax = snd (snd (ax_candidate ax))"
definition ax_model :: "attempt_ctx \<Rightarrow> string" where "ax_model ax = fst (snd (ax_candidate ax))"
definition ax_provider :: "attempt_ctx \<Rightarrow> string" where "ax_provider ax = fst (ax_candidate ax)"

definition attempt_error ::
  "router_env \<Rightarrow> attempt_ctx \<Rightarrow> int option \<Rightarrow> json \<Rightarrow> (string \<times> string) list \<Rightarrow> exn option \<Rightarrow> bool \<Rightarrow> int
    \<Rightarrow> kr_error + normalized_error" where
  "attempt_error env ax status body headers exception request_sent cooldown =
     normalize_provider_error (re_lib env) (ax_provider ax) (ax_account ax) (ax_model ax) status body headers
       exception request_sent (ax_now ax) cooldown"

text \<open>A transaction on the reservations, and one on the database, followed by the rest.\<close>

fun on_quota :: "router_db \<Rightarrow> kr_error + (quota_state \<times> 'a) \<Rightarrow> (router_db \<Rightarrow> 'a \<Rightarrow> turn) \<Rightarrow> turn" where
  "on_quota db (Inl e) f = Raise e db"
| "on_quota db (Inr (q, x)) f = f (db\<lparr>db_quota := q\<rparr>) x"

fun on_db :: "router_db \<Rightarrow> kr_error + router_db \<Rightarrow> (router_db \<Rightarrow> turn) \<Rightarrow> turn" where
  "on_db db (Inl e) f = Raise e db"
| "on_db db (Inr db') f = f db'"

fun on_applied :: "router_db \<times> kr_error option \<Rightarrow> (router_db \<Rightarrow> turn) \<Rightarrow> turn" where
  "on_applied (db, Some e) f = Raise e db"
| "on_applied (db, None) f = f db"

text \<open>The common end of a failed attempt: \<open>record_failure\<close>, then retry or leave the loop.\<close>

definition after_failed_attempt ::
  "retry_limits \<Rightarrow> attempt_ctx \<Rightarrow> normalized_error \<Rightarrow> loop_state \<Rightarrow> turn" where
  "after_failed_attempt limits ax e s =
     (let rt = record_failure (ax_candidate ax) e (ls_retry s);
          s' = s\<lparr>ls_retry := rt, ls_last_error := Some e\<rparr>
      in if can_retry limits rt e (ax_now ax) then Continue s' else Break s')"

text \<open>\<open>except Exception\<close> around the transport and \<open>mark_sent\<close>.\<close>

definition attempt_raised ::
  "router_env \<Rightarrow> retry_limits \<Rightarrow> attempt_ctx \<Rightarrow> exn \<Rightarrow> bool \<Rightarrow> loop_state \<Rightarrow> turn" where
  "attempt_raised env limits ax exception request_sent s =
     (let db = ls_db s; rsv = ax_reservation ax; now = ax_now ax;
          rid = rsv_reservation_id rsv; token = rsv_reservation_token rsv
      in case attempt_error env ax None JNull [] (Some exception) request_sent
                (cf_default_cooldown_seconds (re_config env)) of
           Inl er \<Rightarrow> Raise er db
         | Inr e \<Rightarrow>
             let code = error_type_value (ne_error_type e)
             in on_applied (apply_normalized_error env now e db) (\<lambda>db1.
                on_quota db1 (if request_sent then mark_uncertain rid token code now (db_quota db1)
                              else settle_reservation rid token (release_of code) now (db_quota db1)) (\<lambda>db2 _.
                on_db db2 (complete_attempt (ax_id ax) (if request_sent then ''uncertain'' else ''failed'') code now db2) (\<lambda>db3.
                after_failed_attempt limits ax e (s\<lparr>ls_db := db3\<rparr>)))))"

text \<open>A response with a status of at least 400.\<close>

definition attempt_refused ::
  "router_env \<Rightarrow> retry_limits \<Rightarrow> attempt_ctx \<Rightarrow> int \<Rightarrow> (string \<times> string) list \<Rightarrow> json \<Rightarrow> loop_state \<Rightarrow> turn" where
  "attempt_refused env limits ax status headers body s =
     (let db = ls_db s; rsv = ax_reservation ax; now = ax_now ax
      in case attempt_error env ax (Some status) body headers None True
                (cf_default_cooldown_seconds (re_config env)) of
           Inl er \<Rightarrow> Raise er db
         | Inr e \<Rightarrow>
             let code = error_type_value (ne_error_type e)
             in on_applied (apply_normalized_error env now e db) (\<lambda>db1.
                on_quota db1 (settle_reservation (rsv_reservation_id rsv) (rsv_reservation_token rsv)
                    (settle_failure_of code (Some (status \<in> {400, 422})) (Some False) (Some False)) now (db_quota db1)) (\<lambda>db2 _.
                on_db db2 (complete_attempt (ax_id ax) ''failed'' code now db2) (\<lambda>db3.
                after_failed_attempt limits ax e (s\<lparr>ls_db := db3\<rparr>)))))"

text \<open>A response below 400 without a usable text: the loop ends.\<close>

definition attempt_unusable ::
  "router_env \<Rightarrow> attempt_ctx \<Rightarrow> int \<Rightarrow> (string \<times> string) list \<Rightarrow> json \<Rightarrow> string \<Rightarrow> loop_state \<Rightarrow> turn" where
  "attempt_unusable env ax status headers body message s =
     (let db = ls_db s; rsv = ax_reservation ax; now = ax_now ax
      in case attempt_error env ax (Some status) body headers
                (Some \<lparr>ex_class = ''ValueError'', ex_text = message\<rparr>) True 60 of
           Inl er \<Rightarrow> Raise er db
         | Inr e \<Rightarrow>
             let code = error_type_value (ne_error_type e)
             in on_applied (apply_normalized_error env now e db) (\<lambda>db1.
                on_quota db1 (settle_reservation (rsv_reservation_id rsv) (rsv_reservation_token rsv)
                    (settle_failure_of code None None None) now (db_quota db1)) (\<lambda>db2 _.
                on_db db2 (complete_attempt (ax_id ax) ''failed'' code now db2) (\<lambda>db3.
                Break (s\<lparr>ls_db := db3, ls_last_error := Some e\<rparr>)))))"

text \<open>The successes recorded for the half-open circuits of the route; the default threshold is 1.\<close>

fun close_circuits ::
  "string \<Rightarrow> string \<Rightarrow> instant \<Rightarrow> circuit_row list \<Rightarrow> router_db \<Rightarrow> router_db \<times> kr_error option" where
  "close_circuits provider model now [] db = (db, None)"
| "close_circuits provider model now (r # rs) db =
     (if cb_provider r \<noteq> provider \<or> cb_level r = ''model'' \<and> cb_provider_model_id r \<noteq> model
          \<or> cb_state r \<noteq> CS_HALF_OPEN
      then close_circuits provider model now rs db
      else then_db db (close_circuits provider model now rs)
             (lift_circuits db (record_circuit_success (cb_circuit_id r) 1 now (db_circuits db))))"

definition attempt_answered ::
  "router_env \<Rightarrow> attempt_ctx \<Rightarrow> json \<Rightarrow> string \<Rightarrow> loop_state \<Rightarrow> turn" where
  "attempt_answered env ax body text s =
     (let db = ls_db s; rsv = ax_reservation ax; now = ax_now ax
      in case extract_usage (re_parse_float env) (ax_adapter ax) body of
           Inl er \<Rightarrow> Raise er db
         | Inr (i, out, cost) \<Rightarrow>
             on_quota db (settle_reservation (rsv_reservation_id rsv) (rsv_reservation_token rsv)
                 (settle_success_of i out cost) now (db_quota db)) (\<lambda>db1 _.
             on_applied (close_circuits (ax_provider ax) (ax_model ax) now (list_circuits db1) db1) (\<lambda>db2.
             on_db db2 (complete_attempt (ax_id ax) ''success'' [] now db2) (\<lambda>db3.
             Return \<lparr>dr_text = text, dr_provider = ax_provider ax, dr_provider_model_id = ax_model ax,
                     dr_account_id = ax_account ax, dr_attempts = nat (rs_attempts (ls_retry s)),
                     dr_used_local_result = False, dr_manual_review_required = False,
                     dr_final_error_type = []\<rparr> db3))))"

text \<open>From the transport on; an exception of \<open>mark_sent\<close> is handled like one of the transport.\<close>

definition run_attempt :: "router_env \<Rightarrow> retry_limits \<Rightarrow> attempt_ctx \<Rightarrow> loop_state \<Rightarrow> turn" where
  "run_attempt env limits ax s =
     (case re_transport env (rs_attempts (ls_retry s)) (ax_candidate ax) of
        Failed exception request_sent \<Rightarrow> attempt_raised env limits ax exception request_sent s
      | Answered status headers body \<Rightarrow>
          (case mark_sent (rsv_reservation_id (ax_reservation ax)) (rsv_reservation_token (ax_reservation ax))
                  (ax_now ax) (db_quota (ls_db s)) of
             Inl _ \<Rightarrow> attempt_raised env limits ax
                 \<lparr>ex_class = ''FencingTokenError'', ex_text = ''Reservation token is stale or invalid''\<rparr> False s
           | Inr (q, sent) \<Rightarrow>
               let s1 = s\<lparr>ls_db := (ls_db s)\<lparr>db_quota := q\<rparr>\<rparr>; ax1 = ax\<lparr>ax_reservation := sent\<rparr>
               in if 400 \<le> status then attempt_refused env limits ax1 status headers body s1
                  else case parse_response (ax_adapter ax) body of
                         Inl message \<Rightarrow> attempt_unusable env ax1 status headers body message s1
                       | Inr text \<Rightarrow> attempt_answered env ax1 body text s1))"

text \<open>Between the route and the transport: identify, reserve, record, mark as dispatching.\<close>

definition start_attempt ::
  "router_env \<Rightarrow> retry_limits \<Rightarrow> request_context \<Rightarrow> selection_decision \<Rightarrow> provider_account \<Rightarrow> adapter
    \<Rightarrow> instant \<Rightarrow> loop_state \<Rightarrow> turn" where
  "start_attempt env limits c d a ad now s =
     (let db = ls_db s; cand = (sd_provider d, sd_model d, acc_account_id a)
      in case begin_attempt (re_lib env) cand (ls_retry s) of
           Inl er \<Rightarrow> Raise er db
         | Inr (rt, attempt_id) \<Rightarrow>
             if sd_model d = [] then Raise (ValueError ''Provider adapter configuration is incomplete'') db
             else on_quota db (reserve env now c d (ctx_request_id c @ '':'' @ attempt_id) attempt_id
                    (ctx_request_id c) (re_reservation_id env (rs_attempts rt)) (re_token env (rs_attempts rt))
                    (db_quota db)) (\<lambda>db1 rsv.
                  on_db db1 (record_attempt
                    \<lparr>at_attempt_id = attempt_id, at_parent_request_id = ctx_request_id c,
                     at_request_id = ctx_request_id c, at_attempt_number = rs_attempts rt,
                     at_provider = sd_provider d, at_provider_model_id = sd_model d,
                     at_account_id = acc_account_id a, at_reservation_id = rsv_reservation_id rsv,
                     at_outcome = ''pending'', at_error_type = [], at_created_at = At now,
                     at_completed_at = Never\<rparr> db1) (\<lambda>db2.
                  on_quota db2 (mark_dispatching (rsv_reservation_id rsv) (rsv_reservation_token rsv) now
                    (db_quota db2)) (\<lambda>db3 dispatching.
                  run_attempt env limits
                    \<lparr>ax_candidate = cand, ax_id = attempt_id, ax_now = now, ax_adapter = ad,
                     ax_reservation = dispatching\<rparr> (s\<lparr>ls_db := db3, ls_retry := rt\<rparr>)))))"

definition dispatch_turn :: "router_env \<Rightarrow> retry_limits \<Rightarrow> request_context \<Rightarrow> loop_state \<Rightarrow> turn" where
  "dispatch_turn env limits c s =
     (let rt = ls_retry s; now = re_now env (rs_attempts rt + 1)
      in case select_route env now c (rs_excluded_candidates rt) (rs_excluded_providers rt)
                (rs_excluded_models rt) (ls_db s) of
           (db1, Inl er) \<Rightarrow>
             (case er of
                KeyRouterUnavailable _ \<Rightarrow> Break (s\<lparr>ls_db := db1\<rparr>)
              | KeyRouterConfigurationError _ \<Rightarrow> Break (s\<lparr>ls_db := db1\<rparr>)
              | _ \<Rightarrow> Raise er db1)
         | (db1, Inr d) \<Rightarrow>
             (case sd_selected_account d of
                None \<Rightarrow> Break (s\<lparr>ls_db := db1\<rparr>)
              | Some a \<Rightarrow>
                  (case (get_provider_adapter (sd_provider d), has_secret env (acc_secret_ref a)) of
                     (Some ad, True) \<Rightarrow> start_attempt env limits c d a ad now (s\<lparr>ls_db := db1\<rparr>)
                   | _ \<Rightarrow> Raise (KeyRouterUnavailable ''Selected route is not dispatchable'') db1)))"

subsection \<open>What an attempt does to the tables\<close>

fun turn_db :: "turn \<Rightarrow> router_db" where
  "turn_db (Continue s) = ls_db s"
| "turn_db (Break s) = ls_db s"
| "turn_db (Raise e db) = db"
| "turn_db (Return r db) = db"

fun raised :: "turn \<Rightarrow> bool" where
  "raised (Raise e db) = True"
| "raised _ = False"

definition quota_reach :: "quota_state \<Rightarrow> quota_state \<Rightarrow> bool" where
  "quota_reach q q' \<longleftrightarrow> (\<exists>ops. q' = fold quota_step ops q)"

lemma quota_reach_refl [simp]: "quota_reach q q"
  unfolding quota_reach_def by (rule exI [of _ "[]"]) simp

lemma quota_reach_trans: "quota_reach a b \<Longrightarrow> quota_reach b c \<Longrightarrow> quota_reach a c"
  by (metis quota_reach_def fold_append comp_apply)

lemma quota_reach_step: "quota_step x q = q' \<Longrightarrow> quota_reach q q'"
  unfolding quota_reach_def by (rule exI [of _ "[x]"]) simp

lemma quota_reach_wf: "quota_reach q q' \<Longrightarrow> quota_wf q \<Longrightarrow> quota_wf q'"
  by (auto simp: quota_reach_def intro: reservation_rows.run_inv)

lemma quota_reach_ops:
  "reserve_quota a rid token now q = Inr (q', row) \<Longrightarrow> quota_reach q q'"
  "mark_dispatching rid token now q = Inr (q', row) \<Longrightarrow> quota_reach q q'"
  "mark_sent rid token now q = Inr (q', row) \<Longrightarrow> quota_reach q q'"
  "mark_uncertain rid token code now q = Inr (q', row) \<Longrightarrow> quota_reach q q'"
  "settle_reservation rid token st now q = Inr (q', row) \<Longrightarrow> quota_reach q q'"
  using quota_reach_step [of "QReserve a rid token now" q] quota_reach_step [of "QDispatching rid token now" q]
    quota_reach_step [of "QSent rid token now" q] quota_reach_step [of "QUncertain rid token code now" q]
    quota_reach_step [of "QSettle rid token st now" q]
  by (simp_all add: committed_def)

text \<open>The reservations under way: neither settled nor set aside as uncertain.\<close>

definition in_flight :: "quota_state \<Rightarrow> string set" where
  "in_flight q = {rsv_reservation_id r | r. r \<in> set (qs_reservations q)
     \<and> rsv_state r \<in> {RS_PENDING, RS_RESERVED, RS_DISPATCHING, RS_SENT}}"

definition candidates_of :: "router_db \<Rightarrow> candidate list" where
  "candidates_of db = map (\<lambda>r. (at_provider r, at_provider_model_id r, at_account_id r)) (db_attempts db)"

text \<open>
  From the reservation of an attempt on: the quota tables move by reservation operations, no further
  attempt is recorded, an attempt that does not raise leaves at most the reservations \<open>I\<close> in flight, one
  that continues has excluded its candidate, and a returned answer was paid for.
\<close>

definition attempt_frame ::
  "attempt_ctx \<Rightarrow> retry_state \<Rightarrow> string set \<Rightarrow> router_db \<Rightarrow> turn \<Rightarrow> bool" where
  "attempt_frame ax rt I db t \<longleftrightarrow>
     quota_reach (db_quota db) (db_quota (turn_db t))
     \<and> candidates_of (turn_db t) = candidates_of db
     \<and> (\<not> raised t \<longrightarrow> in_flight (db_quota (turn_db t)) \<subseteq> I)
     \<and> (\<forall>s'. t = Continue s' \<longrightarrow> rs_attempts (ls_retry s') = rs_attempts rt
          \<and> rs_excluded_candidates (ls_retry s') = insert (ax_candidate ax) (rs_excluded_candidates rt))
     \<and> (\<forall>r db'. t = Return r db' \<longrightarrow> dr_attempts r = nat (rs_attempts rt) \<and> \<not> dr_used_local_result r)"

lemma frame_raise [simp]: "attempt_frame ax rt I db (Raise e db)"
  by (simp add: attempt_frame_def)

lemma frame_on_quota:
  assumes "\<And>q x. r = Inr (q, x) \<Longrightarrow> quota_reach (db_quota db) q"
    and "\<And>q x. r = Inr (q, x) \<Longrightarrow> attempt_frame ax rt I (db\<lparr>db_quota := q\<rparr>) (f (db\<lparr>db_quota := q\<rparr>) x)"
  shows "attempt_frame ax rt I db (on_quota db r f)"
proof (cases r)
  case (Inr qx)
  then obtain q x where r: "r = Inr (q, x)" by (cases qx) auto
  show ?thesis
    using assms(1) [OF r] assms(2) [OF r] quota_reach_trans
    by (simp add: attempt_frame_def candidates_of_def r)
qed simp

definition same_tables :: "router_db \<Rightarrow> router_db \<Rightarrow> bool" where
  "same_tables db db' \<longleftrightarrow> db_quota db' = db_quota db \<and> candidates_of db' = candidates_of db"

lemma frame_on_db:
  assumes "\<And>db'. r = Inr db' \<Longrightarrow> same_tables db db'"
    and "\<And>db'. r = Inr db' \<Longrightarrow> attempt_frame ax rt I db' (f db')"
  shows "attempt_frame ax rt I db (on_db db r f)"
  using assms by (cases r) (auto simp: attempt_frame_def same_tables_def)

lemma frame_on_applied:
  assumes "same_tables db (fst r)" and "attempt_frame ax rt I (fst r) (f (fst r))"
  shows "attempt_frame ax rt I db (on_applied r f)"
  using assms by (cases r; cases "snd r") (auto simp: attempt_frame_def same_tables_def)

lemma same_tables_refl [simp]: "same_tables db db"
  by (simp add: same_tables_def)

lemma same_tables_trans: "same_tables a b \<Longrightarrow> same_tables b c \<Longrightarrow> same_tables a c"
  by (simp add: same_tables_def)

lemma complete_attempt_same: "complete_attempt aid outcome code now db = Inr db' \<Longrightarrow> same_tables db db'"
  by (auto simp: complete_attempt_def Let_def same_tables_def candidates_of_def tbl_update_def split: if_splits)

lemma then_db_same:
  assumes "same_tables db0 db" and "\<And>db'. r = Inr db' \<Longrightarrow> same_tables db db'"
    and "\<And>db'. r = Inr db' \<Longrightarrow> same_tables db' (fst (f db'))"
  shows "same_tables db0 (fst (then_db db f r))"
  using assms by (cases r) (auto simp: same_tables_def)

lemma lift_circuits_same: "lift_circuits db r = Inr db' \<Longrightarrow> same_tables db db'"
  by (auto simp: lift_circuits_def same_tables_def candidates_of_def split: sum.splits)

lemma account_action_same: "apply_account_action env now e db = Inr db' \<Longrightarrow> same_tables db db'"
  by (auto simp: apply_account_action_def set_account_state_def set_account_cooldown_def Let_def
      same_tables_def candidates_of_def split: if_splits)

lemma circuit_failures_same: "same_tables db (fst (apply_circuit_failures env now e db))"
  unfolding apply_circuit_failures_def Let_def
  by (auto intro!: then_db_same dest: lift_circuits_same)

lemma apply_error_same: "same_tables db (fst (apply_normalized_error env now e db))"
  unfolding apply_normalized_error_def Let_def
  by (rule then_db_same) (simp_all add: account_action_same circuit_failures_same,
      simp add: same_tables_def candidates_of_def)

lemma close_circuits_same: "same_tables db (fst (close_circuits provider model now rs db))"
  by (induction rs arbitrary: db) (auto intro!: then_db_same dest: lift_circuits_same)

subsection \<open>Reservations under way\<close>

definition flying :: "reservation_state \<Rightarrow> bool" where
  "flying st \<longleftrightarrow> st \<in> {RS_PENDING, RS_RESERVED, RS_DISPATCHING, RS_SENT}"

lemma in_flight_alt: "in_flight q = {rsv_reservation_id r | r. r \<in> set (qs_reservations q) \<and> flying (rsv_state r)}"
  by (simp add: in_flight_def flying_def)

lemma in_flight_update:
  assumes "quota_wf q" and "r \<in> set (qs_reservations q)" and "P r"
    and "\<And>x. P x \<Longrightarrow> rsv_reservation_id x = rsv_reservation_id r"
    and "\<And>x. rsv_reservation_id (f x) = rsv_reservation_id x"
    and q': "qs_reservations q' = tbl_update P f (qs_reservations q)"
  shows "in_flight q' \<subseteq> (if flying (rsv_state (f r)) then insert (rsv_reservation_id r) (in_flight q)
    else in_flight q - {rsv_reservation_id r})"
proof
  fix i assume "i \<in> in_flight q'"
  then obtain x where x: "x \<in> set (qs_reservations q)" and i: "i = rsv_reservation_id (if P x then f x else x)"
    and fl: "flying (rsv_state (if P x then f x else x))"
    by (auto simp: in_flight_alt q' set_tbl_update)
  have same: "x = r \<longleftrightarrow> rsv_reservation_id x = rsv_reservation_id r"
    using assms(1,2) x distinct_map_key_eq [of rsv_reservation_id "qs_reservations q" x r]
    by (auto simp: quota_wf_def)
  show "i \<in> (if flying (rsv_state (f r)) then insert (rsv_reservation_id r) (in_flight q)
    else in_flight q - {rsv_reservation_id r})"
  proof (cases "P x")
    case True
    then have "x = r" using same assms(4) by blast
    then show ?thesis using True i fl assms(5) by auto
  next
    case False
    then have "x \<noteq> r" using assms(3) by blast
    then show ?thesis using False i fl x same by (auto simp: in_flight_alt)
  qed
qed

lemma update_state_in_flight:
  assumes "quota_wf q" and "update_reservation_state rid token st e now q = Inr (q', row)"
  shows "in_flight q' \<subseteq> (if flying st then insert rid (in_flight q) else in_flight q - {rid})"
    and "rsv_reservation_id row = rid"
proof -
  let ?hit = "\<lambda>r. rsv_reservation_id r = rid \<and> rsv_reservation_token r = token \<and> active_state (rsv_state r)"
  have q': "qs_reservations q' = tbl_update ?hit (mark_row st e now) (qs_reservations q)"
    and n: "tbl_count ?hit (qs_reservations q) = 1" and "find_reservation rid (qs_reservations q') = Some row"
    using assms(2) by (auto simp: update_reservation_state_def Let_def split: if_splits option.splits)
  then show "rsv_reservation_id row = rid" using find_reservation_mem by blast
  from n obtain r where r: "r \<in> set (qs_reservations q)" "?hit r" by (rule tbl_count_1_obtain)
  show "in_flight q' \<subseteq> (if flying st then insert rid (in_flight q) else in_flight q - {rid})"
    using in_flight_update [where P = ?hit and f = "mark_row st e now", OF assms(1) r _ _ q'] r(2) by (auto split: if_splits)
qed

lemma settle_in_flight:
  assumes "quota_wf q" and "settle_reservation rid token a now q = Inr (q', row)"
  shows "in_flight q' \<subseteq> in_flight q - {rid}"
proof -
  let ?own = "\<lambda>r. rsv_reservation_id r = rid \<and> rsv_reservation_token r = token"
  obtain r where f: "tbl_find (\<lambda>r. rsv_reservation_id r = rid \<and> rsv_reservation_token r = token
        \<and> active_state (rsv_state r)) (qs_reservations q) = Some r"
    and q': "qs_reservations q' = tbl_update ?own (settle_row a now) (qs_reservations q)"
    and st: "st_state a \<in> settlement_states"
    using assms(2) by (auto simp: settle_reservation_def Let_def split: if_splits option.splits)
  have r: "r \<in> set (qs_reservations q)" "?own r" using tbl_find_SomeD [OF f] by auto
  have "\<not> flying (st_state a)" using st by (auto simp: settlement_states_def flying_def)
  then show ?thesis
    using in_flight_update [where P = ?own and f = "settle_row a now", OF assms(1) r _ _ q'] r(2) by (auto split: if_splits)
qed

lemma reserve_in_flight:
  assumes "reserve_quota a rid token now q = Inr (q', row)"
  shows "in_flight q' \<subseteq> insert (rsv_reservation_id row) (in_flight q)"
proof (cases "tbl_find (\<lambda>r. rsv_idempotency_key r = qr_idempotency_key a) (qs_reservations q)")
  case None
  show ?thesis using reserve_new(1,3) [OF assms None] by (auto simp: in_flight_alt)
qed (use assms in \<open>auto simp: reserve_existing\<close>)

subsection \<open>The end of an attempt\<close>

lemma record_failure_simps [simp]:
  "rs_attempts (record_failure c e s) = rs_attempts s"
  "rs_excluded_candidates (record_failure c e s) = insert c (rs_excluded_candidates s)"
  by (simp_all add: record_failure_def Let_def split: prod.splits)

lemma after_failed_frame:
  "ls_db s = db \<Longrightarrow> ls_retry s = rt \<Longrightarrow> in_flight (db_quota db) \<subseteq> I \<Longrightarrow>
    attempt_frame ax rt I db (after_failed_attempt limits ax e s)"
  by (auto simp: after_failed_attempt_def Let_def attempt_frame_def)

text \<open>The reservation of the attempt, and what may stay in flight once it is dealt with.\<close>

definition ax_rid :: "attempt_ctx \<Rightarrow> string" where
  "ax_rid ax = rsv_reservation_id (ax_reservation ax)"

definition ready :: "attempt_ctx \<Rightarrow> string set \<Rightarrow> router_db \<Rightarrow> bool" where
  "ready ax I db \<longleftrightarrow> quota_wf (db_quota db) \<and> in_flight (db_quota db) \<subseteq> insert (ax_rid ax) I"

lemma ready_same: "ready ax I db \<Longrightarrow> same_tables db db' \<Longrightarrow> ready ax I db'"
  by (simp add: ready_def same_tables_def)

lemma settled_subset:
  assumes "ready ax I db" and "settle_reservation (ax_rid ax) token st now (db_quota db) = Inr (q, row)"
  shows "in_flight q \<subseteq> I"
  using settle_in_flight [OF _ assms(2)] assms(1) by (auto simp: ready_def)

lemma uncertain_subset:
  assumes "ready ax I db" and "mark_uncertain (ax_rid ax) token code now (db_quota db) = Inr (q, row)"
  shows "in_flight q \<subseteq> I"
  using update_state_in_flight(1) [OF _ assms(2) [unfolded mark_uncertain_def]] assms(1)
  by (auto simp: ready_def flying_def)

lemma settled_completed:
  assumes "ready ax I db" and "settle_reservation (ax_rid ax) token st now (db_quota db) = Inr (q, row)"
    and "complete_attempt aid outcome code now' (db\<lparr>db_quota := q\<rparr>) = Inr db'"
  shows "in_flight (db_quota db') \<subseteq> I"
  using settled_subset [OF assms(1,2)] complete_attempt_same [OF assms(3)] by (simp add: same_tables_def)

lemma uncertain_completed:
  assumes "ready ax I db" and "mark_uncertain (ax_rid ax) token e now (db_quota db) = Inr (q, row)"
    and "complete_attempt aid outcome code now' (db\<lparr>db_quota := q\<rparr>) = Inr db'"
  shows "in_flight (db_quota db') \<subseteq> I"
  using uncertain_subset [OF assms(1,2)] complete_attempt_same [OF assms(3)] by (simp add: same_tables_def)

lemma attempt_raised_frame:
  assumes "ready ax I (ls_db s)"
  shows "attempt_frame ax (ls_retry s) I (ls_db s) (attempt_raised env limits ax ex sent s)"
proof (cases "attempt_error env ax None JNull [] (Some ex) sent (cf_default_cooldown_seconds (re_config env))")
  case (Inr e)
  let ?db1 = "fst (apply_normalized_error env (ax_now ax) e (ls_db s))"
  have r1: "ready ax I ?db1" using assms apply_error_same by (rule ready_same)
  show ?thesis
    unfolding attempt_raised_def Let_def Inr sum.case ax_rid_def [symmetric]
    by (cases sent; simp only: if_True if_False;
        intro frame_on_applied apply_error_same frame_on_quota frame_on_db after_failed_frame;
        (simp; fail | erule quota_reach_ops | erule complete_attempt_same
          | erule (1) settled_completed [OF r1] | erule (1) uncertain_completed [OF r1])+)
qed (simp add: attempt_raised_def Let_def)

lemma attempt_refused_frame:
  assumes "ready ax I (ls_db s)"
  shows "attempt_frame ax (ls_retry s) I (ls_db s) (attempt_refused env limits ax status headers body s)"
proof (cases "attempt_error env ax (Some status) body headers None True (cf_default_cooldown_seconds (re_config env))")
  case (Inr e)
  let ?db1 = "fst (apply_normalized_error env (ax_now ax) e (ls_db s))"
  have r1: "ready ax I ?db1" using assms apply_error_same by (rule ready_same)
  show ?thesis
    unfolding attempt_refused_def Let_def Inr sum.case ax_rid_def [symmetric]
    by (intro frame_on_applied apply_error_same frame_on_quota frame_on_db after_failed_frame)
      (simp; fail | erule quota_reach_ops | erule complete_attempt_same
        | erule (1) settled_completed [OF r1])+
qed (simp add: attempt_refused_def Let_def)

lemma attempt_unusable_frame:
  assumes "ready ax I (ls_db s)"
  shows "attempt_frame ax (ls_retry s) I (ls_db s) (attempt_unusable env ax status headers body message s)"
proof (cases "attempt_error env ax (Some status) body headers
    (Some \<lparr>ex_class = ''ValueError'', ex_text = message\<rparr>) True 60")
  case (Inr e)
  let ?db1 = "fst (apply_normalized_error env (ax_now ax) e (ls_db s))"
  have r1: "ready ax I ?db1" using assms apply_error_same by (rule ready_same)
  have break: "in_flight (db_quota db) \<subseteq> I \<Longrightarrow>
      attempt_frame ax (ls_retry s) I db (Break (s\<lparr>ls_db := db, ls_last_error := Some e\<rparr>))" for db
    by (simp add: attempt_frame_def)
  show ?thesis
    unfolding attempt_unusable_def Let_def Inr sum.case ax_rid_def [symmetric]
    by (intro frame_on_applied apply_error_same frame_on_quota frame_on_db break)
      (simp; fail | erule quota_reach_ops | erule complete_attempt_same
        | erule (1) settled_completed [OF r1])+
qed (simp add: attempt_unusable_def Let_def)

lemma attempt_answered_frame:
  assumes "ready ax I (ls_db s)"
  shows "attempt_frame ax (ls_retry s) I (ls_db s) (attempt_answered env ax body text s)"
proof (cases "extract_usage (re_parse_float env) (ax_adapter ax) body")
  case (Inr u)
  obtain i out cost where u: "u = (i, out, cost)" using prod_cases3 by blast
  have paid: "attempt_frame ax (ls_retry s) I db (Return r db)"
    if "in_flight (db_quota db) \<subseteq> I" "dr_attempts r = nat (rs_attempts (ls_retry s))" "\<not> dr_used_local_result r"
    for db r using that by (simp add: attempt_frame_def)
  have subset: "in_flight (db_quota db') \<subseteq> I"
    if "settle_reservation (ax_rid ax) token st now (db_quota (ls_db s)) = Inr (q, x)"
      "complete_attempt aid outcome code now' (fst (close_circuits p m now'' rs ((ls_db s)\<lparr>db_quota := q\<rparr>))) = Inr db'"
    for token st now q x aid outcome code now' p m now'' rs db'
    using settled_subset [OF assms that(1)] complete_attempt_same [OF that(2)]
      close_circuits_same [of "(ls_db s)\<lparr>db_quota := q\<rparr>" p m now'' rs] by (simp add: same_tables_def)
  show ?thesis
    unfolding attempt_answered_def Let_def Inr u sum.case prod.case ax_rid_def [symmetric]
    by (intro frame_on_quota frame_on_applied frame_on_db paid close_circuits_same)
      (simp; fail | erule quota_reach_ops | erule complete_attempt_same | erule (1) subset)+
qed (simp add: attempt_answered_def Let_def)

lemma run_attempt_frame:
  assumes "ready ax I (ls_db s)"
  shows "attempt_frame ax (ls_retry s) I (ls_db s) (run_attempt env limits ax s)"
proof (cases "re_transport env (rs_attempts (ls_retry s)) (ax_candidate ax)")
  case (Failed ex sent)
  then show ?thesis using attempt_raised_frame [OF assms] by (simp add: run_attempt_def)
next
  case (Answered status headers body)
  let ?m = "mark_sent (rsv_reservation_id (ax_reservation ax)) (rsv_reservation_token (ax_reservation ax))
    (ax_now ax) (db_quota (ls_db s))"
  show ?thesis
  proof (cases ?m)
    case (Inl e)
    then show ?thesis using attempt_raised_frame [OF assms] Answered by (simp add: run_attempt_def)
  next
    case (Inr qx)
    then obtain q sent where m: "?m = Inr (q, sent)" by (cases qx) auto
    let ?s = "s\<lparr>ls_db := (ls_db s)\<lparr>db_quota := q\<rparr>\<rparr>" and ?ax = "ax\<lparr>ax_reservation := sent\<rparr>"
    note u = update_state_in_flight [OF _ m [unfolded mark_sent_def]]
    have reach: "quota_reach (db_quota (ls_db s)) q" using m by (rule quota_reach_ops)
    have "ready ?ax I (ls_db ?s)"
      using assms u quota_reach_wf [OF reach] by (auto simp: ready_def ax_rid_def flying_def)
    note frames = attempt_refused_frame [OF this] attempt_unusable_frame [OF this] attempt_answered_frame [OF this]
    have lift: "attempt_frame ax (ls_retry s) I (ls_db s) t"
      if "attempt_frame ?ax (ls_retry ?s) I (ls_db ?s) t" for t
      using that quota_reach_trans [OF reach] by (simp add: attempt_frame_def candidates_of_def)
    have "attempt_frame ?ax (ls_retry ?s) I (ls_db ?s)
        (if 400 \<le> status then attempt_refused env limits ?ax status headers body ?s
         else case parse_response (ax_adapter ax) body of
           Inl message \<Rightarrow> attempt_unusable env ?ax status headers body message ?s
         | Inr text \<Rightarrow> attempt_answered env ?ax body text ?s)"
      using frames by (auto split: sum.split)
    from lift [OF this] show ?thesis by (simp add: run_attempt_def Answered m Let_def)
  qed
qed

subsection \<open>A whole turn of the loop\<close>

definition turn_frame :: "loop_state \<Rightarrow> turn \<Rightarrow> bool" where
  "turn_frame s t \<longleftrightarrow>
     quota_reach (db_quota (ls_db s)) (db_quota (turn_db t))
     \<and> (\<not> raised t \<longrightarrow> in_flight (db_quota (turn_db t)) \<subseteq> in_flight (db_quota (ls_db s)))
     \<and> (\<exists>cs. candidates_of (turn_db t) = candidates_of (ls_db s) @ cs \<and> length cs \<le> 1
          \<and> set cs \<inter> rs_excluded_candidates (ls_retry s) = {}
          \<and> (\<forall>s'. t = Continue s' \<longrightarrow> rs_attempts (ls_retry s') = rs_attempts (ls_retry s) + 1
               \<and> rs_excluded_candidates (ls_retry s') = set cs \<union> rs_excluded_candidates (ls_retry s)))
     \<and> (\<forall>r db'. t = Return r db' \<longrightarrow> dr_attempts r = nat (rs_attempts (ls_retry s) + 1)
          \<and> \<not> dr_used_local_result r)"

lemma turn_frame_quiet:
  "same_tables (ls_db s) (turn_db t) \<Longrightarrow> (\<And>s'. t \<noteq> Continue s') \<Longrightarrow> (\<And>r db. t \<noteq> Return r db) \<Longrightarrow>
    turn_frame s t"
  by (auto simp: turn_frame_def same_tables_def)

lemma raise_after_reservation:
  "quota_reach (db_quota (ls_db s)) (db_quota db) \<Longrightarrow> candidates_of db = candidates_of (ls_db s) @ cs \<Longrightarrow>
    length cs \<le> 1 \<Longrightarrow> set cs \<inter> rs_excluded_candidates (ls_retry s) = {} \<Longrightarrow> turn_frame s (Raise e db)"
  by (auto simp: turn_frame_def)

lemma start_attempt_frame:
  assumes wf: "quota_wf (db_quota (ls_db s))"
  shows "turn_frame s (start_attempt env limits c d a ad now s)"
proof -
  let ?db = "ls_db s" and ?rt = "ls_retry s" and ?cand = "(sd_provider d, sd_model d, acc_account_id a)"
  show ?thesis
  proof (cases "begin_attempt (re_lib env) ?cand ?rt")
    case (Inl e)
    then show ?thesis by (simp add: start_attempt_def Let_def turn_frame_quiet)
  next
    case (Inr x)
    then obtain rt aid where b: "begin_attempt (re_lib env) ?cand ?rt = Inr (rt, aid)" by (cases x) auto
    define key where "key = ctx_request_id c @ '':'' @ aid"
    note eq = start_attempt_def [of env limits c d a ad now s, unfolded Let_def b sum.case prod.case, folded key_def]
    have fresh: "?cand \<notin> rs_excluded_candidates ?rt" and n: "rs_attempts rt = rs_attempts ?rt + 1"
      and ex: "rs_excluded_candidates rt = rs_excluded_candidates ?rt"
      using b by (auto simp: begin_attempt_def Let_def split: if_splits)
    let ?rid = "re_reservation_id env (rs_attempts rt)" and ?token = "re_token env (rs_attempts rt)"
    let ?res = "reserve env now c d key aid (ctx_request_id c) ?rid ?token (db_quota ?db)"
    show ?thesis
    proof (cases "sd_model d = [] \<or> isl ?res")
      case True
      then have "\<exists>e. start_attempt env limits c d a ad now s = Raise e ?db"
        by (cases "sd_model d = []"; cases ?res) (auto simp: eq)
      then show ?thesis by (auto simp: turn_frame_quiet)
    next
      case False
      then obtain q1 rsv where r: "?res = Inr (q1, rsv)" by (cases ?res) auto
      then obtain qr where rq: "reserve_quota qr ?rid ?token now (db_quota ?db) = Inr (q1, rsv)"
        by (auto simp: reserve_def Let_def split: if_splits option.splits sum.splits)
      have reach1: "quota_reach (db_quota ?db) q1" using rq by (rule quota_reach_ops)
      have fl1: "in_flight q1 \<subseteq> insert (rsv_reservation_id rsv) (in_flight (db_quota ?db))"
        using rq by (rule reserve_in_flight)
      let ?row = "\<lparr>at_attempt_id = aid, at_parent_request_id = ctx_request_id c, at_request_id = ctx_request_id c,
        at_attempt_number = rs_attempts rt, at_provider = sd_provider d, at_provider_model_id = sd_model d,
        at_account_id = acc_account_id a, at_reservation_id = rsv_reservation_id rsv, at_outcome = ''pending'',
        at_error_type = [], at_created_at = At now, at_completed_at = Never\<rparr>"
      show ?thesis
      proof (cases "record_attempt ?row (?db\<lparr>db_quota := q1\<rparr>)")
        case (Inl e)
        have "turn_frame s (Raise e (?db\<lparr>db_quota := q1\<rparr>))"
          by (rule raise_after_reservation [where cs = "[]"]) (simp_all add: reach1 candidates_of_def)
        then show ?thesis using False by (simp add: eq r Inl)
      next
        case (Inr db2)
        have db2: "db_quota db2 = q1" "candidates_of db2 = candidates_of ?db @ [?cand]"
          using Inr by (auto simp: record_attempt_def candidates_of_def split: if_splits)
        let ?m = "mark_dispatching (rsv_reservation_id rsv) (rsv_reservation_token rsv) now q1"
        show ?thesis
        proof (cases ?m)
          case (Inl e)
          have "turn_frame s (Raise e db2)"
            by (rule raise_after_reservation [where cs = "[?cand]"]) (simp_all add: reach1 db2 fresh)
          then show ?thesis using False by (simp add: eq r Inr db2 Inl)
        next
          case m: (Inr y)
          then obtain q2 disp where m: "?m = Inr (q2, disp)" by (cases y) auto
          have wf1: "quota_wf q1" using reach1 wf by (rule quota_reach_wf)
          have reach2: "quota_reach q1 q2" using m by (rule quota_reach_ops)
          note u = update_state_in_flight [OF wf1 m [unfolded mark_dispatching_def]]
          let ?ax = "\<lparr>ax_candidate = ?cand, ax_id = aid, ax_now = now, ax_adapter = ad, ax_reservation = disp\<rparr>"
          let ?s = "s\<lparr>ls_db := db2\<lparr>db_quota := q2\<rparr>, ls_retry := rt\<rparr>"
          have "ready ?ax (in_flight (db_quota ?db)) (ls_db ?s)"
            using u fl1 quota_reach_wf [OF reach2 wf1] by (auto simp: ready_def ax_rid_def flying_def)
          from run_attempt_frame [OF this, of env limits]
          have "turn_frame s (run_attempt env limits ?ax ?s)"
            using quota_reach_trans [OF quota_reach_trans [OF reach1 reach2]] db2 fresh n ex
            by (auto simp: attempt_frame_def turn_frame_def candidates_of_def intro!: exI [of _ "[?cand]"])
          then show ?thesis using False by (simp add: eq r Inr db2 m)
        qed
      qed
    qed
  qed
qed

lemma same_tables_runtimes [simp]:
  "same_tables db (db\<lparr>db_runtimes := t\<rparr>)" "same_tables db (db\<lparr>db_circuits := c\<rparr>)"
  by (simp_all add: same_tables_def candidates_of_def)

lemma select_among_same: "same_tables db (fst (select_among env now c accounts db))"
  by (simp add: select_among_def Let_def split: prod.splits sum.splits)

lemma finish_route_db [simp]: "fst (finish_route env db d) = db"
  by (simp add: finish_route_def)

lemma route_with_policy_same: "same_tables db (fst (route_with_policy env now c p xc xp xm db))"
proof -
  obtain t opened where pr: "probe_circuits (cf_half_open_probe_count (re_config env)) now (list_circuits db)
      (db_circuits db) {} = (t, opened)" by fastforce
  let ?db1 = "db\<lparr>db_circuits := t\<rparr>"
  obtain choice rejected where se: "select_endpoint c p (filter (\<lambda>e. get_provider_adapter (ep_provider e) \<noteq> None)
      (enabled_endpoints ?db1)) (cf_require_verified_vision (re_config env))
      (cf_allow_declared_only_capabilities (re_config env))
      \<lparr>rx_open_circuits = opened, rx_providers = xp, rx_models = xm\<rparr> = (choice, rejected)" by fastforce
  note eq = route_with_policy_def [of env now c p xc xp xm db, unfolded Let_def pr prod.case se]
  show ?thesis
  proof (cases choice)
    case None
    then show ?thesis by (simp add: eq)
  next
    case (Some e)
    obtain db2 r where sa: "select_among env now (route_context c p e) (filter (\<lambda>a. (ep_provider e,
        ep_provider_model_id e, acc_account_id a) \<notin> xc) (list_accounts ?db1)) ?db1 = (db2, r)" by fastforce
    have "same_tables db db2"
      using same_tables_trans [OF same_tables_runtimes(2) select_among_same] sa by (metis fst_conv)
    then show ?thesis by (cases r) (simp_all add: eq Some sa)
  qed
qed

lemma select_route_same: "same_tables db (fst (select_route env now c xc xp xm db))"
  by (auto simp: select_route_def Let_def route_with_policy_same split: sum.splits)

lemma dispatch_turn_frame:
  assumes "quota_wf (db_quota (ls_db s))"
  shows "turn_frame s (dispatch_turn env limits c s)"
proof -
  let ?now = "re_now env (rs_attempts (ls_retry s) + 1)" and ?rt = "ls_retry s"
  obtain db1 r where sel: "select_route env ?now c (rs_excluded_candidates ?rt) (rs_excluded_providers ?rt)
      (rs_excluded_models ?rt) (ls_db s) = (db1, r)" by fastforce
  have same: "same_tables (ls_db s) db1"
    using select_route_same [of "ls_db s" env ?now c "rs_excluded_candidates ?rt" "rs_excluded_providers ?rt"
        "rs_excluded_models ?rt"] by (simp add: sel)
  have quiet: "turn_frame s (Break (s\<lparr>ls_db := db1\<rparr>))" "turn_frame s (Raise e db1)" for e
    using same by (auto intro: turn_frame_quiet)
  have wf: "quota_wf (db_quota (ls_db (s\<lparr>ls_db := db1\<rparr>)))" using assms same by (simp add: same_tables_def)
  have go: "turn_frame s (start_attempt env limits c d a ad ?now (s\<lparr>ls_db := db1\<rparr>))" for d a ad
    using start_attempt_frame [OF wf] same by (simp add: turn_frame_def same_tables_def)
  note eq = dispatch_turn_def [of env limits c s, unfolded Let_def sel prod.case]
  show ?thesis
  proof (cases r)
    case (Inl e)
    then show ?thesis by (cases e) (simp_all add: eq quiet)
  next
    case (Inr d)
    show ?thesis
    proof (cases "sd_selected_account d")
      case None
      then show ?thesis by (simp add: eq Inr quiet)
    next
      case (Some a)
      then show ?thesis
        by (cases "get_provider_adapter (sd_provider d)"; cases "has_secret env (acc_secret_ref a)")
          (simp_all add: eq Inr quiet go)
    qed
  qed
qed

subsection \<open>The loop\<close>

lemma dispatch_turn_attempts:
  "quota_wf (db_quota (ls_db s)) \<Longrightarrow> dispatch_turn env limits c s = Continue s' \<Longrightarrow>
    rs_attempts (ls_retry s') = rs_attempts (ls_retry s) + 1"
  using dispatch_turn_frame [of s env limits c] by (auto simp: turn_frame_def)

text \<open>
  \<open>while state.attempts < limits.maximum_attempts\<close>. Each turn that continues has counted an attempt, so the
  loop makes at most \<open>nat (maximum_attempts - attempts)\<close> further turns; that number is the fuel \<open>n\<close>, and
  \<open>None\<close> would be the value of a loop that needs more.
\<close>

fun dispatch_loop ::
  "nat \<Rightarrow> router_env \<Rightarrow> retry_limits \<Rightarrow> request_context \<Rightarrow> loop_state \<Rightarrow> turn option" where
  "dispatch_loop n env limits c s =
     (if \<not> rs_attempts (ls_retry s) < rl_maximum_attempts limits then Some (Break s)
      else case n of
        0 \<Rightarrow> None
      | Suc m \<Rightarrow>
          (case dispatch_turn env limits c s of
             Continue s' \<Rightarrow> dispatch_loop m env limits c s'
           | t \<Rightarrow> Some t))"

declare dispatch_loop.simps [simp del]

definition loop_fuel :: "retry_limits \<Rightarrow> loop_state \<Rightarrow> nat" where
  "loop_fuel limits s = nat (rl_maximum_attempts limits - rs_attempts (ls_retry s))"

definition dispatch_limits :: "kr_config \<Rightarrow> routing_policy \<Rightarrow> retry_limits" where
  "dispatch_limits cfg p = default_retry_limits
     \<lparr>rl_maximum_attempts := min (cf_max_attempts cfg) (pl_maximum_attempts p),
      rl_maximum_provider_failovers := min (cf_max_provider_failovers cfg) (pl_maximum_provider_failovers p),
      rl_maximum_account_failovers := min (cf_max_account_failovers cfg) (pl_maximum_account_failovers p),
      rl_retry_budget := min (cf_max_attempts cfg) (pl_maximum_attempts p),
      rl_total_timeout_seconds := cf_total_timeout_seconds cfg,
      rl_allow_retry_after_send_timeout := pl_allow_retry_after_send_timeout p\<rparr>"

text \<open>What follows the loop: the local text if there is one, otherwise \<open>ProviderDispatchError\<close>.\<close>

definition after_loop :: "string \<Rightarrow> pyfloat option \<Rightarrow> loop_state \<Rightarrow> turn" where
  "after_loop local_result local_quality s =
     (if local_result \<noteq> []
      then Return \<lparr>dr_text = local_result, dr_provider = [], dr_provider_model_id = [], dr_account_id = [],
             dr_attempts = nat (rs_attempts (ls_retry s)), dr_used_local_result = True,
             dr_manual_review_required = (case local_quality of None \<Rightarrow> True | Some q \<Rightarrow> q < 90),
             dr_final_error_type = (case ls_last_error s of None \<Rightarrow> ''NO_ROUTE''
                | Some e \<Rightarrow> error_type_value (ne_error_type e))\<rparr> (ls_db s)
      else Raise (ProviderDispatchError (''Cloud routes exhausted: '' @ error_type_value
             (case ls_last_error s of None \<Rightarrow> UNKNOWN_PROVIDER_ERROR | Some e \<Rightarrow> ne_error_type e))) (ls_db s))"

definition dispatch ::
  "router_env \<Rightarrow> request_context \<Rightarrow> string \<Rightarrow> pyfloat option \<Rightarrow> router_db \<Rightarrow> turn option" where
  "dispatch env c local_result local_quality db =
     (if cf_mode (re_config env) \<noteq> MODE_ACTIVE
      then Some (Raise (KeyRouterUnavailable ''Dispatch requires KEY_ROUTER_MODE=active'') db)
      else case get_policy (policy_name c) of
        Inl e \<Rightarrow> Some (Raise e db)
      | Inr p \<Rightarrow>
          let limits = dispatch_limits (re_config env) p;
              s = \<lparr>ls_db = db, ls_retry = start_retry (ctx_request_id c) (re_now env 0), ls_last_error = None\<rparr>
          in case dispatch_loop (loop_fuel limits s) env limits c s of
               None \<Rightarrow> None
             | Some (Break s') \<Rightarrow> Some (after_loop local_result local_quality s')
             | Some t \<Rightarrow> Some t)"

text \<open>The loop as a whole.\<close>

definition loop_frame :: "retry_limits \<Rightarrow> loop_state \<Rightarrow> turn \<Rightarrow> bool" where
  "loop_frame limits s t \<longleftrightarrow>
     quota_reach (db_quota (ls_db s)) (db_quota (turn_db t))
     \<and> (\<not> raised t \<longrightarrow> in_flight (db_quota (turn_db t)) \<subseteq> in_flight (db_quota (ls_db s)))
     \<and> (\<exists>cs. candidates_of (turn_db t) = candidates_of (ls_db s) @ cs \<and> distinct cs
          \<and> set cs \<inter> rs_excluded_candidates (ls_retry s) = {}
          \<and> length cs \<le> loop_fuel limits s)
     \<and> (\<forall>s'. t \<noteq> Continue s')
     \<and> (\<forall>r db'. t = Return r db' \<longrightarrow> \<not> dr_used_local_result r
          \<and> rs_attempts (ls_retry s) < int (dr_attempts r) \<and> int (dr_attempts r) \<le> rl_maximum_attempts limits)"

lemma loop_frame_stop:
  assumes "turn_frame s t" and "\<And>s'. t \<noteq> Continue s'" and "0 \<le> rs_attempts (ls_retry s)"
    and "rs_attempts (ls_retry s) < rl_maximum_attempts limits"
  shows "loop_frame limits s t"
  using assms by (auto simp: turn_frame_def loop_frame_def loop_fuel_def le_Suc_eq length_Suc_conv)

lemma dispatch_loop_total:
  assumes "quota_wf (db_quota (ls_db s))" and "0 \<le> rs_attempts (ls_retry s)" and "n = loop_fuel limits s"
  shows "\<exists>t. dispatch_loop n env limits c s = Some t \<and> loop_frame limits s t"
  using assms
proof (induction n arbitrary: s)
  case 0
  then have "\<not> rs_attempts (ls_retry s) < rl_maximum_attempts limits" by (simp add: loop_fuel_def)
  then show ?case by (simp add: dispatch_loop.simps loop_frame_def)
next
  case (Suc n)
  then have less: "rs_attempts (ls_retry s) < rl_maximum_attempts limits" by (simp add: loop_fuel_def)
  note frame = dispatch_turn_frame [OF Suc.prems(1), of env limits c]
  show ?case
  proof (cases "dispatch_turn env limits c s")
    case (Continue s')
    have step: "rs_attempts (ls_retry s') = rs_attempts (ls_retry s) + 1"
      using Suc.prems(1) Continue by (rule dispatch_turn_attempts)
    have reach: "quota_reach (db_quota (ls_db s)) (db_quota (ls_db s'))"
      using frame by (simp add: turn_frame_def Continue)
    have "n = loop_fuel limits s'" using Suc.prems(3) step less by (simp add: loop_fuel_def)
    then obtain t where t: "dispatch_loop n env limits c s' = Some t" "loop_frame limits s' t"
      using Suc.IH quota_reach_wf [OF reach Suc.prems(1)] Suc.prems(2) step by force
    have fuel: "loop_fuel limits s = Suc (loop_fuel limits s')" using less step by (simp add: loop_fuel_def)
    from frame obtain cs1 where 1: "candidates_of (ls_db s') = candidates_of (ls_db s) @ cs1" "length cs1 \<le> 1"
      "set cs1 \<inter> rs_excluded_candidates (ls_retry s) = {}"
      "rs_excluded_candidates (ls_retry s') = set cs1 \<union> rs_excluded_candidates (ls_retry s)"
      by (auto simp: turn_frame_def Continue)
    from t(2) obtain cs2 where 2: "candidates_of (turn_db t) = candidates_of (ls_db s') @ cs2" "distinct cs2"
      "set cs2 \<inter> rs_excluded_candidates (ls_retry s') = {}" "length cs2 \<le> loop_fuel limits s'"
      by (auto simp: loop_frame_def)
    have "distinct cs1" using 1(2) by (cases cs1) auto
    then have "distinct (cs1 @ cs2) \<and> set (cs1 @ cs2) \<inter> rs_excluded_candidates (ls_retry s) = {}
        \<and> length (cs1 @ cs2) \<le> loop_fuel limits s \<and> candidates_of (turn_db t) = candidates_of (ls_db s) @ cs1 @ cs2"
      using 1 2 fuel by auto
    then have "loop_frame limits s t"
      using t(2) frame quota_reach_trans [OF reach] step unfolding loop_frame_def turn_frame_def Continue by fastforce
    then show ?thesis using t(1) less by (simp add: dispatch_loop.simps [of "Suc n"] Continue)
  qed (use less frame Suc.prems(2) loop_frame_stop in \<open>simp_all add: dispatch_loop.simps [of "Suc n"]\<close>)
qed

subsection \<open>What a dispatch guarantees\<close>

lemma dispatch_cases:
  assumes "quota_wf (db_quota db)" and "get_policy (policy_name c) = Inr p" and "cf_mode (re_config env) = MODE_ACTIVE"
  obtains t where "loop_frame (dispatch_limits (re_config env) p) \<lparr>ls_db = db,
      ls_retry = start_retry (ctx_request_id c) (re_now env 0), ls_last_error = None\<rparr> t"
    and "dispatch env c l q db = Some (case t of Break s' \<Rightarrow> after_loop l q s' | _ \<Rightarrow> t)"
proof -
  let ?s = "\<lparr>ls_db = db, ls_retry = start_retry (ctx_request_id c) (re_now env 0), ls_last_error = None\<rparr>"
  let ?limits = "dispatch_limits (re_config env) p"
  have "0 \<le> rs_attempts (ls_retry ?s)" by (simp add: start_retry_def)
  with dispatch_loop_total [of ?s "loop_fuel ?limits ?s" ?limits env c] assms(1)
  obtain t where t: "dispatch_loop (loop_fuel ?limits ?s) env ?limits c ?s = Some t" "loop_frame ?limits ?s t"
    by auto
  have "dispatch env c l q db = Some (case t of Break s' \<Rightarrow> after_loop l q s' | _ \<Rightarrow> t)"
    using assms(2,3) t(1) by (cases t) (simp_all add: dispatch_def Let_def)
  with t(2) show thesis by (rule that)
qed

lemma after_loop_db [simp]: "turn_db (after_loop l q s) = ls_db s"
  by (simp add: after_loop_def)

text \<open>
  C9. A dispatch ends, and within its budget: the loop never runs out of the fuel, every candidate
  (provider, model, account) is attempted at most once, at most
  \<open>min config.max_attempts policy.maximum_attempts\<close> attempts are recorded, and an answer of a provider
  reports between one and that many attempts.
\<close>

theorem dispatch_bounded:
  assumes "quota_wf (db_quota db)" and "get_policy (policy_name c) = Inr p"
  shows "\<exists>t cs. dispatch env c l q db = Some t
    \<and> candidates_of (turn_db t) = candidates_of db @ cs \<and> distinct cs
    \<and> length cs \<le> nat (min (cf_max_attempts (re_config env)) (pl_maximum_attempts p))
    \<and> (\<forall>r db'. t = Return r db' \<and> \<not> dr_used_local_result r \<longrightarrow>
         1 \<le> dr_attempts r \<and> dr_attempts r \<le> nat (min (cf_max_attempts (re_config env)) (pl_maximum_attempts p)))"
proof (cases "cf_mode (re_config env) = MODE_ACTIVE")
  case False
  then show ?thesis
    by (intro exI [of _ "Raise (KeyRouterUnavailable ''Dispatch requires KEY_ROUTER_MODE=active'') db"] exI [of _ "[]"])
      (simp add: dispatch_def)
next
  case True
  let ?M = "min (cf_max_attempts (re_config env)) (pl_maximum_attempts p)"
  from dispatch_cases [OF assms True, of l q]
  obtain t where f: "loop_frame (dispatch_limits (re_config env) p) \<lparr>ls_db = db,
      ls_retry = start_retry (ctx_request_id c) (re_now env 0), ls_last_error = None\<rparr> t"
    and d: "dispatch env c l q db = Some (case t of Break s' \<Rightarrow> after_loop l q s' | _ \<Rightarrow> t)" .
  let ?t = "case t of Break s' \<Rightarrow> after_loop l q s' | _ \<Rightarrow> t"
  have max: "rl_maximum_attempts (dispatch_limits (re_config env) p) = ?M" by (simp add: dispatch_limits_def)
  have db: "turn_db ?t = turn_db t" by (cases t) simp_all
  from f obtain cs where cs: "candidates_of (turn_db t) = candidates_of db @ cs" "distinct cs"
    "length cs \<le> nat ?M" by (auto simp: loop_frame_def loop_fuel_def max start_retry_def)
  have "1 \<le> dr_attempts r \<and> dr_attempts r \<le> nat ?M" if "?t = Return r db'" "\<not> dr_used_local_result r" for r db'
  proof -
    have "t = Return r db'" using that by (cases t) (auto simp: after_loop_def split: if_splits)
    then have "0 < int (dr_attempts r)" "int (dr_attempts r) \<le> ?M"
      using f by (auto simp: loop_frame_def max start_retry_def)
    then show ?thesis by linarith
  qed
  with cs db d show ?thesis by (intro exI [of _ ?t] exI [of _ cs]) auto
qed


subsection \<open>A concrete router\<close>

definition sample_config :: kr_config where
  "sample_config =
     \<lparr>cf_mode = MODE_ACTIVE, cf_router_id = ''r'', cf_free_only_default = True, cf_allow_paid_default = False,
      cf_reservation_ttl_seconds = 300, cf_uncertain_ttl_seconds = 1800, cf_default_daily_cost_limit = 0,
      cf_failure_threshold = 3, cf_recovery_timeout_seconds = 60, cf_half_open_probe_count = 1,
      cf_require_verified_vision = True, cf_allow_declared_only_capabilities = False, cf_max_attempts = 3,
      cf_max_provider_failovers = 1, cf_max_account_failovers = 1, cf_total_timeout_seconds = 180,
      cf_default_cooldown_seconds = 60, cf_circuit_open_seconds = 60, cf_circuit_failure_window_seconds = 60,
      cf_uncertain_reconciliation_seconds = 1800, cf_live_tests_enabled = False\<rparr>"

definition sample_env :: "transport_outcome \<Rightarrow> router_env" where
  "sample_env answer =
     \<lparr>re_config = sample_config, re_lib = sample_lib, re_environ = [''KEY'' \<mapsto> ''s''], re_uuid5 = (\<lambda>s. s),
      re_parse_float = (\<lambda>_. None), re_now = (\<lambda>n. n), re_reservation_id = (\<lambda>n. ''rsv'' @ int_text n),
      re_token = (\<lambda>n. ''tok'' @ int_text n), re_transport = (\<lambda>_ _. answer)\<rparr>"

definition sample_db :: "provider_account \<Rightarrow> router_db" where
  "sample_db account =
     \<lparr>db_accounts = [account], db_endpoints = [sample_endpoint], db_runtimes = [],
      db_quota = empty_quota_state, db_circuits = [], db_attempts = [], db_errors = []\<rparr>"

definition sample_answer :: transport_outcome where
  "sample_answer = Answered 200 [] (JObj [(''choices'', JList [JObj [(''message'',
     JObj [(''content'', JStr ''text'')])]]),
     (''usage'', JObj [(''prompt_tokens'', JInt 7), (''completion_tokens'', JInt 3)])])"

lemma sample_answer_returned:
  "case dispatch (sample_env sample_answer) sample_context [] None (sample_db sample_account) of
     Some (Return r db) \<Rightarrow> dr_text r = ''text'' \<and> dr_attempts r = 1
       \<and> map rsv_state (qs_reservations (db_quota db)) = [RS_SETTLED_SUCCESS]
   | _ \<Rightarrow> False"
  by code_simp

lemma sample_db_wf: "quota_wf (db_quota (sample_db a))"
  by (simp add: sample_db_def)

lemma dispatch_bounded_witness:
  "\<exists>t cs. dispatch (sample_env sample_answer) sample_context [] None (sample_db sample_account) = Some t
    \<and> candidates_of (turn_db t) = cs \<and> distinct cs \<and> length cs \<le> 2"
proof -
  have p: "get_policy (policy_name sample_context) = Inr fast_policy"
    and two: "nat (min (cf_max_attempts sample_config) (pl_maximum_attempts fast_policy)) = 2"
    by code_simp+
  have cfg: "re_config (sample_env a) = sample_config" for a by (simp add: sample_env_def)
  show ?thesis
    using dispatch_bounded [OF sample_db_wf p, of "sample_env sample_answer" "[]" None sample_account] two
    by (auto simp: cfg candidates_of_def sample_db_def)
qed



text \<open>
  An exhausted quota is not a failover: when the reservation of the selected account is refused,
  \<open>QuotaExceeded\<close> leaves \<open>dispatch\<close>, and the local result that was given is not used.
\<close>

theorem quota_exhaustion_raises:
  "case dispatch (sample_env sample_answer) sample_context ''local text'' (Some 95)
      (sample_db (sample_account\<lparr>acc_daily_token_limit := 1\<rparr>)) of
     Some (Raise e db) \<Rightarrow> e = QuotaExceeded ''token_limit_reached'' \<and> db_attempts db = []
   | _ \<Rightarrow> False"
  by code_simp

end
