(* ===== verification/Conversions.thy ===== *)
theory Conversions
  imports Json
begin

text \<open>
  The conversion jobs: the table \<open>conversions\<close> and the methods of \<open>Database\<close>
  (\<open>pdfword/database.py\<close>) that create, claim, finalize, abandon, requeue and hide its rows. Every
  method is one transaction, here one function; the interleavings of the web server, its maintenance
  thread and any number of workers are sequences of these steps.
\<close>

subsection \<open>Values of the columns\<close>

text \<open>What \<open>float(value)\<close> of worker metadata may be.\<close>

datatype score = Finite rat | PosInf | NegInf | NaN

text \<open>The exceptions that the methods raise.\<close>

datatype db_error =
  DbValueError string
| DbKeyError string
| DbRuntimeError string
| DbIntegrityError string
| DbAssertionError

record conversion =
  cv_id :: int
  cv_job_id :: string
  cv_username :: string
  cv_owner_user_id :: string
  cv_guest_scope_id :: string
  cv_created_at :: stamp
  cv_status :: string
  cv_hidden :: bool
  cv_updated_at :: stamp
  cv_error_message :: "string option"
  cv_attempt_count :: int
  cv_started_at :: stamp
  cv_completed_at :: stamp
  cv_worker_name :: "string option"
  cv_last_heartbeat :: stamp
  cv_rq_job_id :: string
  cv_claim_token :: string
  cv_intended_final_status :: string
  cv_stored_docx_path :: string
  cv_file_type :: "string option"
  cv_text_quality_score :: "score option"
  cv_layout_quality_score :: "score option"
  cv_final_quality_score :: "score option"
  cv_winning_engine :: "string option"
  cv_winning_model :: "string option"
  cv_total_cost :: pyfloat
  cv_processing_time :: score

text \<open>An assignment \<open>column = value\<close> of an \<open>UPDATE\<close>.\<close>

datatype cell =
  Status string
| Hidden bool
| UpdatedAt stamp
| ErrorMessage "string option"
| AttemptCount int
| StartedAt stamp
| CompletedAt stamp
| WorkerName "string option"
| LastHeartbeat stamp
| RqJobId string
| ClaimToken string
| IntendedFinal string
| StoredDocx string
| FileType "string option"
| TextQuality "score option"
| LayoutQuality "score option"
| FinalQuality "score option"
| WinningEngine "string option"
| WinningModel "string option"
| TotalCost pyfloat
| ProcessingTime score

text \<open>SQLite stores a NaN as \<open>NULL\<close>.\<close>

definition bind_score :: "score option \<Rightarrow> score option" where
  "bind_score v = (if v = Some NaN then None else v)"

fun set_cell :: "cell \<Rightarrow> conversion \<Rightarrow> conversion" where
  "set_cell (Status v) r = r\<lparr>cv_status := v\<rparr>"
| "set_cell (Hidden v) r = r\<lparr>cv_hidden := v\<rparr>"
| "set_cell (UpdatedAt v) r = r\<lparr>cv_updated_at := v\<rparr>"
| "set_cell (ErrorMessage v) r = r\<lparr>cv_error_message := v\<rparr>"
| "set_cell (AttemptCount v) r = r\<lparr>cv_attempt_count := v\<rparr>"
| "set_cell (StartedAt v) r = r\<lparr>cv_started_at := v\<rparr>"
| "set_cell (CompletedAt v) r = r\<lparr>cv_completed_at := v\<rparr>"
| "set_cell (WorkerName v) r = r\<lparr>cv_worker_name := v\<rparr>"
| "set_cell (LastHeartbeat v) r = r\<lparr>cv_last_heartbeat := v\<rparr>"
| "set_cell (RqJobId v) r = r\<lparr>cv_rq_job_id := v\<rparr>"
| "set_cell (ClaimToken v) r = r\<lparr>cv_claim_token := v\<rparr>"
| "set_cell (IntendedFinal v) r = r\<lparr>cv_intended_final_status := v\<rparr>"
| "set_cell (StoredDocx v) r = r\<lparr>cv_stored_docx_path := v\<rparr>"
| "set_cell (FileType v) r = r\<lparr>cv_file_type := v\<rparr>"
| "set_cell (TextQuality v) r = r\<lparr>cv_text_quality_score := bind_score v\<rparr>"
| "set_cell (LayoutQuality v) r = r\<lparr>cv_layout_quality_score := bind_score v\<rparr>"
| "set_cell (FinalQuality v) r = r\<lparr>cv_final_quality_score := bind_score v\<rparr>"
| "set_cell (WinningEngine v) r = r\<lparr>cv_winning_engine := v\<rparr>"
| "set_cell (WinningModel v) r = r\<lparr>cv_winning_model := v\<rparr>"
| "set_cell (TotalCost v) r = r\<lparr>cv_total_cost := v\<rparr>"
| "set_cell (ProcessingTime v) r = r\<lparr>cv_processing_time := v\<rparr>"

text \<open>The assignments of a statement in order; a Python dictionary keeps the last value of a key.\<close>

definition set_cells :: "cell list \<Rightarrow> conversion \<Rightarrow> conversion" where
  "set_cells cells r = fold set_cell cells r"

text \<open>\<open>processing_time\<close> is \<open>NOT NULL\<close>: a statement that binds a NaN to it fails.\<close>

definition null_violation :: "cell list \<Rightarrow> bool" where
  "null_violation cells \<longleftrightarrow> ProcessingTime NaN \<in> set cells"

fun column :: "cell \<Rightarrow> string" where
  "column (Status v) = ''status''"
| "column (Hidden v) = ''hidden''"
| "column (UpdatedAt v) = ''updated_at''"
| "column (ErrorMessage v) = ''error_message''"
| "column (AttemptCount v) = ''attempt_count''"
| "column (StartedAt v) = ''started_at''"
| "column (CompletedAt v) = ''completed_at''"
| "column (WorkerName v) = ''worker_name''"
| "column (LastHeartbeat v) = ''last_heartbeat''"
| "column (RqJobId v) = ''rq_job_id''"
| "column (ClaimToken v) = ''claim_token''"
| "column (IntendedFinal v) = ''intended_final_status''"
| "column (StoredDocx v) = ''stored_docx_path''"
| "column (FileType v) = ''file_type''"
| "column (TextQuality v) = ''text_quality_score''"
| "column (LayoutQuality v) = ''layout_quality_score''"
| "column (FinalQuality v) = ''final_quality_score''"
| "column (WinningEngine v) = ''winning_engine''"
| "column (WinningModel v) = ''winning_model''"
| "column (TotalCost v) = ''total_cost''"
| "column (ProcessingTime v) = ''processing_time''"

definition result_columns :: "string list" where
  "result_columns = [''stored_docx_path'', ''file_type'', ''text_quality_score'', ''layout_quality_score'',
     ''final_quality_score'', ''winning_engine'', ''winning_model'', ''total_cost'', ''processing_time'']"

definition only_columns :: "string list \<Rightarrow> cell list \<Rightarrow> cell list" where
  "only_columns names cells = filter (\<lambda>c. column c \<in> set names) cells"

subsection \<open>The states of a job\<close>

definition FINAL_STATUSES :: "string set" where
  "FINAL_STATUSES = {''completed'', ''failed'', ''manual_review'', ''cancelled''}"

text \<open>\<open>None\<close> for a key that the dictionary does not have.\<close>

definition ALLOWED_STATUS_TRANSITIONS :: "string \<Rightarrow> string list option" where
  "ALLOWED_STATUS_TRANSITIONS = map_of
     [(''pending'', [''processing'', ''failed'', ''cancelled'']),
      (''processing'', [''pending'', ''finalizing'', ''completed'', ''failed'', ''manual_review'', ''cancelled'']),
      (''finalizing'', [''processing'', ''completed'', ''manual_review'', ''failed'']),
      (''failed'', [''pending'']),
      (''cancelled'', [''pending'']),
      (''manual_review'', []),
      (''completed'', [])]"

definition transition_allowed :: "string \<Rightarrow> string \<Rightarrow> bool" where
  "transition_allowed current target \<longleftrightarrow>
     target \<in> set (case ALLOWED_STATUS_TRANSITIONS current of None \<Rightarrow> [] | Some ts \<Rightarrow> ts)"

subsection \<open>The table\<close>

type_synonym conversions = "conversion list"

definition get_conversion :: "string \<Rightarrow> conversions \<Rightarrow> conversion option" where
  "get_conversion job t = tbl_find (\<lambda>r. cv_job_id r = job) t"

definition get_owner_conversion :: "string \<Rightarrow> string \<Rightarrow> conversions \<Rightarrow> conversion option" where
  "get_owner_conversion job owner t =
     tbl_find (\<lambda>r. cv_job_id r = job \<and> cv_owner_user_id r = owner \<and> \<not> cv_hidden r) t"

definition list_pending_conversions :: "conversions \<Rightarrow> conversions" where
  "list_pending_conversions t = sort_key cv_created_at (filter (\<lambda>r. cv_status r = ''pending'') t)"

definition active_conversion_scope_ids :: "conversions \<Rightarrow> string set" where
  "active_conversion_scope_ids t =
     (let rows = filter (\<lambda>r. cv_status r \<in> {''pending'', ''processing''}) t
      in set (filter (\<lambda>x. x \<noteq> []) (map cv_owner_user_id rows))
         \<union> set (filter (\<lambda>x. x \<noteq> []) (map cv_guest_scope_id rows)))"

text \<open>The row that the web server inserts: the columns it names and the defaults of the schema.\<close>

definition new_conversion ::
  "int \<Rightarrow> string \<Rightarrow> string \<Rightarrow> string \<Rightarrow> string \<Rightarrow> string \<Rightarrow> instant \<Rightarrow> conversion" where
  "new_conversion n job username owner guest docx now =
     \<lparr>cv_id = n, cv_job_id = job, cv_username = username, cv_owner_user_id = owner,
      cv_guest_scope_id = guest, cv_created_at = At now, cv_status = ''pending'', cv_hidden = False,
      cv_updated_at = At now, cv_error_message = None, cv_attempt_count = 0, cv_started_at = Never,
      cv_completed_at = Never, cv_worker_name = None, cv_last_heartbeat = Never, cv_rq_job_id = [],
      cv_claim_token = [], cv_intended_final_status = [], cv_stored_docx_path = docx,
      cv_file_type = None, cv_text_quality_score = None, cv_layout_quality_score = None,
      cv_final_quality_score = None, cv_winning_engine = None, cv_winning_model = None,
      cv_total_cost = 0, cv_processing_time = Finite 0\<rparr>"

definition next_conversion_id :: "conversions \<Rightarrow> int" where
  "next_conversion_id t = fold max (map cv_id t) 0 + 1"

definition create_conversion ::
  "string \<Rightarrow> string \<Rightarrow> string \<Rightarrow> string \<Rightarrow> string \<Rightarrow> instant \<Rightarrow> conversions \<Rightarrow> db_error + (conversions \<times> int)" where
  "create_conversion job username owner guest docx now t =
     (if job \<in> cv_job_id ` set t then Inl (DbIntegrityError ''conversions.job_id'')
      else let n = next_conversion_id t
           in Inr (t @ [new_conversion n job username owner guest docx now], n))"

definition update_columns :: "string list" where
  "update_columns = result_columns @ [''status'', ''hidden'', ''updated_at'', ''error_message'', ''attempt_count'',
     ''started_at'', ''completed_at'', ''worker_name'', ''last_heartbeat'', ''rq_job_id'', ''claim_token'']"

definition update_conversion :: "int \<Rightarrow> cell list \<Rightarrow> conversions \<Rightarrow> db_error + conversions" where
  "update_conversion n cells t =
     (let updates = only_columns update_columns cells;
          hit = (\<lambda>r. cv_id r = n)
      in if updates = [] then Inr t
         else if null_violation updates \<and> tbl_count hit t \<noteq> 0
         then Inl (DbIntegrityError ''conversions.processing_time'')
         else Inr (tbl_update hit (set_cells updates) t))"

subsection \<open>Transitions\<close>

definition transition_columns :: "string list" where
  "transition_columns = result_columns @ [''rq_job_id'', ''last_heartbeat'', ''claim_token'']"

definition claimed_by_other :: "string option \<Rightarrow> conversion \<Rightarrow> bool" where
  "claimed_by_other worker row =
     (case (worker, cv_worker_name row) of
        (Some w, Some owner) \<Rightarrow> owner \<noteq> [] \<and> w \<noteq> owner
      | _ \<Rightarrow> False)"

definition transition_cells ::
  "string \<Rightarrow> string option \<Rightarrow> string option \<Rightarrow> cell list \<Rightarrow> instant \<Rightarrow> string \<Rightarrow> conversion \<Rightarrow> cell list" where
  "transition_cells target worker error extra now token row =
     [Status target, UpdatedAt (At now), ErrorMessage error]
     @ (case worker of None \<Rightarrow> [] | Some w \<Rightarrow> [WorkerName (Some w)])
     @ (if target = ''processing'' \<and> cv_status row \<noteq> ''processing''
        then [StartedAt (At now), LastHeartbeat (At now), AttemptCount (cv_attempt_count row + 1), ClaimToken token]
        else [])
     @ (if target \<in> FINAL_STATUSES then [CompletedAt (At now)] else [])
     @ only_columns transition_columns extra"

text \<open>
  \<open>transition_conversion\<close>: the token is \<open>uuid.uuid4().hex\<close>, drawn only when a claim starts.
\<close>

definition transition_conversion ::
  "string \<Rightarrow> string \<Rightarrow> string option \<Rightarrow> string option \<Rightarrow> cell list \<Rightarrow> instant \<Rightarrow> string \<Rightarrow> conversions
    \<Rightarrow> db_error + (conversions \<times> conversion)" where
  "transition_conversion job target worker error extra now token t =
     (if ALLOWED_STATUS_TRANSITIONS target = None then Inl (DbValueError (''Unsupported status: '' @ target))
      else case get_conversion job t of
        None \<Rightarrow> Inl (DbKeyError job)
      | Some row \<Rightarrow>
          if cv_status row \<noteq> target \<and> \<not> transition_allowed (cv_status row) target
          then Inl (DbValueError (''Invalid status transition: '' @ cv_status row @ '' -> '' @ target))
          else if target = ''processing'' \<and> cv_status row = ''processing'' \<and> claimed_by_other worker row
          then Inl (DbValueError (''Job '' @ job @ '' is already claimed by another worker''))
          else
            let cells = transition_cells target worker error extra now token row;
                t' = tbl_update (\<lambda>r. cv_id r = cv_id row) (set_cells cells) t
            in if null_violation cells then Inl (DbIntegrityError ''conversions.processing_time'')
               else case get_conversion job t' of
                      None \<Rightarrow> Inl DbAssertionError
                    | Some result \<Rightarrow> Inr (t', result))"

subsection \<open>Finalization under a claim\<close>

text \<open>
  The guard of the fenced statements: the job in the given state, held by this worker under this
  token (an absent token stands for the empty one).
\<close>

definition owned_row :: "string \<Rightarrow> string \<Rightarrow> string \<Rightarrow> string option \<Rightarrow> conversion \<Rightarrow> bool" where
  "owned_row status job worker token r \<longleftrightarrow> cv_job_id r = job \<and> cv_status r = status
     \<and> cv_worker_name r = Some worker \<and> cv_claim_token r = (case token of None \<Rightarrow> [] | Some k \<Rightarrow> k)"

text \<open>An \<open>UPDATE\<close> under a guard that must touch one row, and the job's row after it.\<close>

definition guarded_update ::
  "(conversion \<Rightarrow> bool) \<Rightarrow> cell list \<Rightarrow> string \<Rightarrow> string \<Rightarrow> conversions \<Rightarrow> db_error + (conversions \<times> conversion)" where
  "guarded_update hit cells job complaint t =
     (let t' = tbl_update hit (set_cells cells) t
      in if null_violation cells \<and> tbl_count hit t \<noteq> 0 then Inl (DbIntegrityError ''conversions.processing_time'')
         else if tbl_count hit t \<noteq> 1 then Inl (DbValueError complaint)
         else case get_conversion job t' of
                None \<Rightarrow> Inl (DbKeyError job)
              | Some row \<Rightarrow> Inr (t', row))"

definition finalize_conversion_if_owned ::
  "string \<Rightarrow> string \<Rightarrow> string \<Rightarrow> string option \<Rightarrow> string option \<Rightarrow> cell list \<Rightarrow> instant \<Rightarrow> conversions
    \<Rightarrow> db_error + (conversions \<times> conversion)" where
  "finalize_conversion_if_owned job target worker token error extra now t =
     (if target \<notin> FINAL_STATUSES then Inl (DbValueError (''Unsupported final status: '' @ target))
      else guarded_update (owned_row ''processing'' job worker token)
        ([Status target, UpdatedAt (At now), CompletedAt (At now), WorkerName (Some worker), ErrorMessage error]
         @ only_columns result_columns extra)
        job ''Worker does not own this processing job'' t)"

definition prepare_conversion_finalization ::
  "string \<Rightarrow> string \<Rightarrow> string \<Rightarrow> string option \<Rightarrow> string option \<Rightarrow> cell list \<Rightarrow> instant \<Rightarrow> conversions
    \<Rightarrow> db_error + (conversions \<times> conversion)" where
  "prepare_conversion_finalization job target worker token error extra now t =
     (if target \<notin> {''completed'', ''manual_review''} then Inl (DbValueError (''Unsupported final status: '' @ target))
      else guarded_update (owned_row ''processing'' job worker token)
        ([Status ''finalizing'', UpdatedAt (At now), CompletedAt Never, WorkerName (Some worker),
          ErrorMessage error, IntendedFinal target] @ only_columns result_columns extra)
        job ''Worker does not own this processing job'' t)"

definition complete_conversion_finalization ::
  "string \<Rightarrow> string \<Rightarrow> string \<Rightarrow> string option \<Rightarrow> instant \<Rightarrow> conversions \<Rightarrow> db_error + (conversions \<times> conversion)" where
  "complete_conversion_finalization job target worker token now t =
     (if target \<notin> {''completed'', ''manual_review''} then Inl (DbValueError (''Unsupported final status: '' @ target))
      else guarded_update (owned_row ''finalizing'' job worker token)
        [Status target, UpdatedAt (At now), CompletedAt (At now), IntendedFinal []]
        job ''Worker does not own this finalizing job'' t)"

definition result_reset :: "cell list" where
  "result_reset = [CompletedAt Never, ErrorMessage None, IntendedFinal [], FileType None, TextQuality None,
     LayoutQuality None, FinalQuality None, WinningEngine None, WinningModel None, TotalCost 0,
     ProcessingTime (Finite 0)]"

definition rollback_conversion_finalization ::
  "string \<Rightarrow> string \<Rightarrow> string option \<Rightarrow> instant \<Rightarrow> conversions \<Rightarrow> conversions" where
  "rollback_conversion_finalization job worker token now t =
     tbl_update (owned_row ''finalizing'' job worker token)
       (set_cells ([Status ''processing'', UpdatedAt (At now)] @ result_reset)) t"

subsection \<open>Abandoned jobs, heartbeats, hiding\<close>

text \<open>Both updates are addressed by the time stamp that the caller has seen.\<close>

definition observed_row :: "string \<Rightarrow> string \<Rightarrow> stamp \<Rightarrow> conversion \<Rightarrow> bool" where
  "observed_row status job observed r \<longleftrightarrow>
     cv_job_id r = job \<and> cv_status r = status \<and> cv_updated_at r = observed"

definition abandon_conversion_finalization ::
  "string \<Rightarrow> stamp \<Rightarrow> instant \<Rightarrow> conversions \<Rightarrow> conversions \<times> bool" where
  "abandon_conversion_finalization job observed now t =
     (tbl_update (observed_row ''finalizing'' job observed)
        (set_cells ([Status ''pending'', UpdatedAt (At now), WorkerName None, LastHeartbeat Never, ClaimToken []]
           @ result_reset)) t,
      tbl_count (observed_row ''finalizing'' job observed) t = 1)"

definition abandon_stale_processing ::
  "string \<Rightarrow> stamp \<Rightarrow> instant \<Rightarrow> conversions \<Rightarrow> conversions \<times> bool" where
  "abandon_stale_processing job observed now t =
     (tbl_update (observed_row ''processing'' job observed)
        (set_cells [Status ''pending'', UpdatedAt (At now), WorkerName None, LastHeartbeat Never, ClaimToken [],
           ErrorMessage (Some ''Worker heartbeat expired; job returned to pending.'')]) t,
      tbl_count (observed_row ''processing'' job observed) t = 1)"

definition heartbeat :: "string \<Rightarrow> string \<Rightarrow> instant \<Rightarrow> conversions \<Rightarrow> db_error + conversions" where
  "heartbeat job worker now t =
     (let hit = (\<lambda>r. cv_job_id r = job \<and> cv_status r = ''processing''
                   \<and> cv_worker_name r \<in> {None, Some [], Some worker})
      in if tbl_count hit t \<noteq> 1 then Inl (DbValueError ''Job is not owned by this worker'')
         else Inr (tbl_update hit
           (set_cells [LastHeartbeat (At now), UpdatedAt (At now), WorkerName (Some worker)]) t))"

definition claim_matches :: "conversion \<Rightarrow> string \<Rightarrow> string option \<Rightarrow> bool" where
  "claim_matches row worker token \<longleftrightarrow>
     cv_worker_name row = Some worker \<and> (cv_claim_token row = [] \<or> token = Some (cv_claim_token row))"

definition hide_conversion :: "string \<Rightarrow> string \<Rightarrow> instant \<Rightarrow> conversions \<Rightarrow> conversions \<times> bool" where
  "hide_conversion job username now t =
     (let hit = (\<lambda>r. cv_job_id r = job \<and> cv_username r = username)
      in (tbl_update hit (set_cells [Hidden True, UpdatedAt (At now)]) t, tbl_count hit t = 1))"

definition hide_owner_conversion :: "string \<Rightarrow> string \<Rightarrow> instant \<Rightarrow> conversions \<Rightarrow> conversions \<times> bool" where
  "hide_owner_conversion job owner now t =
     (let hit = (\<lambda>r. cv_job_id r = job \<and> cv_owner_user_id r = owner)
      in (tbl_update hit (set_cells [Hidden True, UpdatedAt (At now)]) t, tbl_count hit t = 1))"

subsection \<open>The steps of the server\<close>

text \<open>
  Each transaction that \<open>worker_api.py\<close> and \<open>maintenance.py\<close> run on the table, with the arguments
  they pass. The tables the server can reach are the runs of these steps from the empty table, in
  any order and with any arguments: every interleaving of its requests is one of them.
\<close>

datatype conv_op =
  DoCreate string string string string string instant
| DoClaim string string string instant             \<comment> \<open>job, worker, drawn token\<close>
| DoRequeue string instant
| DoCancel string instant
| DoFail string string string instant              \<comment> \<open>job, worker, message\<close>
| DoBeat string string instant
| DoPrepare string string string "string option" "string option" "cell list" instant
| DoComplete string string string "string option" instant
| DoRollback string string "string option" instant
| DoAbandonFinalizing string stamp instant
| DoAbandonProcessing string stamp instant
| DoQueueId int string
| DoHide string string instant

text \<open>
  A worker's name is validated to be non-empty (\<open>WORKER_NAME_PATTERN\<close>), and \<open>uuid4().hex\<close> is.
\<close>

fun valid_op :: "conv_op \<Rightarrow> bool" where
  "valid_op (DoClaim job w token now) \<longleftrightarrow> w \<noteq> [] \<and> token \<noteq> []"
| "valid_op (DoBeat job w now) \<longleftrightarrow> w \<noteq> []"
| "valid_op (DoFail job w e now) \<longleftrightarrow> w \<noteq> []"
| "valid_op _ \<longleftrightarrow> True"

definition table_after :: "conversions \<Rightarrow> db_error + (conversions \<times> 'a) \<Rightarrow> conversions" where
  "table_after t res = (case res of Inl e \<Rightarrow> t | Inr (t', x) \<Rightarrow> t')"

fun run_op :: "conv_op \<Rightarrow> conversions \<Rightarrow> conversions" where
  "run_op (DoCreate job user owner guest docx now) t =
     table_after t (create_conversion job user owner guest docx now t)"
| "run_op (DoClaim job w token now) t =
     table_after t (transition_conversion job ''processing'' (Some w) None [] now token t)"
| "run_op (DoRequeue job now) t = table_after t (transition_conversion job ''pending'' None None [] now [] t)"
| "run_op (DoCancel job now) t = table_after t (transition_conversion job ''cancelled'' None None [] now [] t)"
| "run_op (DoFail job w e now) t =
     table_after t (transition_conversion job ''failed'' (Some w) (Some e) [] now [] t)"
| "run_op (DoBeat job w now) t = (case heartbeat job w now t of Inl e \<Rightarrow> t | Inr t' \<Rightarrow> t')"
| "run_op (DoPrepare job target w token e extra now) t =
     table_after t (prepare_conversion_finalization job target w token e extra now t)"
| "run_op (DoComplete job target w token now) t =
     table_after t (complete_conversion_finalization job target w token now t)"
| "run_op (DoRollback job w token now) t = rollback_conversion_finalization job w token now t"
| "run_op (DoAbandonFinalizing job observed now) t = fst (abandon_conversion_finalization job observed now t)"
| "run_op (DoAbandonProcessing job observed now) t = fst (abandon_stale_processing job observed now t)"
| "run_op (DoQueueId n rq) t = (case update_conversion n [RqJobId rq] t of Inl e \<Rightarrow> t | Inr t' \<Rightarrow> t')"
| "run_op (DoHide job owner now) t = fst (hide_owner_conversion job owner now t)"

definition conv_step :: "conv_op \<Rightarrow> conversions \<Rightarrow> conversions" where
  "conv_step x t = (if valid_op x then run_op x t else t)"

subsection \<open>Steps row by row\<close>

text \<open>
  Since a job has one row, each step is a change of single rows that depends on nothing but the row:
  this is the table-free specification of the methods above, and the invariants are read off it.
\<close>

definition transition_row ::
  "string \<Rightarrow> string \<Rightarrow> string option \<Rightarrow> string option \<Rightarrow> instant \<Rightarrow> string \<Rightarrow> conversion \<Rightarrow> conversion" where
  "transition_row job target worker error now token r =
     (if cv_job_id r = job \<and> (cv_status r = target \<or> transition_allowed (cv_status r) target)
         \<and> \<not> (target = ''processing'' \<and> cv_status r = ''processing'' \<and> claimed_by_other worker r)
      then set_cells (transition_cells target worker error [] now token r) r else r)"

definition guarded_row :: "(conversion \<Rightarrow> bool) \<Rightarrow> cell list \<Rightarrow> conversion \<Rightarrow> conversion" where
  "guarded_row hit cells r = (if hit r \<and> \<not> null_violation cells then set_cells cells r else r)"

fun step_row :: "conv_op \<Rightarrow> conversion \<Rightarrow> conversion" where
  "step_row (DoCreate job user owner guest docx now) r = r"
| "step_row (DoClaim job w token now) r = transition_row job ''processing'' (Some w) None now token r"
| "step_row (DoRequeue job now) r = transition_row job ''pending'' None None now [] r"
| "step_row (DoCancel job now) r = transition_row job ''cancelled'' None None now [] r"
| "step_row (DoFail job w e now) r = transition_row job ''failed'' (Some w) (Some e) now [] r"
| "step_row (DoBeat job w now) r =
     (if cv_job_id r = job \<and> cv_status r = ''processing'' \<and> cv_worker_name r \<in> {None, Some [], Some w}
      then set_cells [LastHeartbeat (At now), UpdatedAt (At now), WorkerName (Some w)] r else r)"
| "step_row (DoPrepare job target w token e extra now) r =
     (if target \<in> {''completed'', ''manual_review''}
      then guarded_row (owned_row ''processing'' job w token)
        ([Status ''finalizing'', UpdatedAt (At now), CompletedAt Never, WorkerName (Some w), ErrorMessage e,
          IntendedFinal target] @ only_columns result_columns extra) r
      else r)"
| "step_row (DoComplete job target w token now) r =
     (if target \<in> {''completed'', ''manual_review''}
      then guarded_row (owned_row ''finalizing'' job w token)
        [Status target, UpdatedAt (At now), CompletedAt (At now), IntendedFinal []] r
      else r)"
| "step_row (DoRollback job w token now) r =
     guarded_row (owned_row ''finalizing'' job w token) ([Status ''processing'', UpdatedAt (At now)] @ result_reset) r"
| "step_row (DoAbandonFinalizing job observed now) r =
     guarded_row (observed_row ''finalizing'' job observed)
       ([Status ''pending'', UpdatedAt (At now), WorkerName None, LastHeartbeat Never, ClaimToken []] @ result_reset) r"
| "step_row (DoAbandonProcessing job observed now) r =
     guarded_row (observed_row ''processing'' job observed)
       [Status ''pending'', UpdatedAt (At now), WorkerName None, LastHeartbeat Never, ClaimToken [],
        ErrorMessage (Some ''Worker heartbeat expired; job returned to pending.'')] r"
| "step_row (DoQueueId n rq) r = (if cv_id r = n then r\<lparr>cv_rq_job_id := rq\<rparr> else r)"
| "step_row (DoHide job owner now) r =
     (if cv_job_id r = job \<and> cv_owner_user_id r = owner
      then set_cells [Hidden True, UpdatedAt (At now)] r else r)"

definition unique_jobs :: "conversions \<Rightarrow> bool" where
  "unique_jobs t \<longleftrightarrow> distinct (map cv_id t) \<and> distinct (map cv_job_id t)"

lemma set_cell_ident [simp]:
  "cv_id (set_cell c r) = cv_id r" "cv_job_id (set_cell c r) = cv_job_id r"
  "cv_owner_user_id (set_cell c r) = cv_owner_user_id r"
  "cv_username (set_cell c r) = cv_username r"
  "cv_guest_scope_id (set_cell c r) = cv_guest_scope_id r"
  "cv_created_at (set_cell c r) = cv_created_at r"
  by (cases c; simp)+

lemma set_cells_ident [simp]:
  "cv_id (set_cells cs r) = cv_id r" "cv_job_id (set_cells cs r) = cv_job_id r"
  "cv_owner_user_id (set_cells cs r) = cv_owner_user_id r"
  "cv_username (set_cells cs r) = cv_username r"
  "cv_guest_scope_id (set_cells cs r) = cv_guest_scope_id r"
  "cv_created_at (set_cells cs r) = cv_created_at r"
  unfolding set_cells_def by (induction cs arbitrary: r) simp_all

lemma set_cells_Nil [simp]: "set_cells [] r = r"
  by (simp add: set_cells_def)

lemma set_cells_Cons [simp]: "set_cells (c # cs) r = set_cells cs (set_cell c r)"
  by (simp add: set_cells_def)

lemma set_cells_append [simp]: "set_cells (cs @ ds) r = set_cells ds (set_cells cs r)"
  by (simp add: set_cells_def)

lemma get_conversion_SomeD: "get_conversion job t = Some r \<Longrightarrow> r \<in> set t \<and> cv_job_id r = job"
  unfolding get_conversion_def by (rule tbl_find_SomeD)

lemma get_conversion_row:
  assumes "unique_jobs t" and "r \<in> set t"
  shows "get_conversion (cv_job_id r) t = Some r"
  unfolding get_conversion_def
  by (rule tbl_find_unique [where key = cv_job_id]) (use assms in \<open>auto simp: unique_jobs_def\<close>)

lemma get_conversion_None: "get_conversion job t = None \<longleftrightarrow> job \<notin> cv_job_id ` set t"
  unfolding get_conversion_def by (auto simp: tbl_find_None)

lemma get_conversion_map:
  "(\<And>r. cv_job_id (f r) = cv_job_id r) \<Longrightarrow> get_conversion job (map f t) = map_option f (get_conversion job t)"
  unfolding get_conversion_def tbl_find_def by (induction t) auto

lemma get_conversion_snoc:
  "get_conversion job (t @ [r]) = (case get_conversion job t of
     Some x \<Rightarrow> Some x | None \<Rightarrow> if cv_job_id r = job then Some r else None)"
  unfolding get_conversion_def tbl_find_def by (induction t) auto

lemma tbl_update_map: "(\<And>r. r \<in> set t \<Longrightarrow> (if P r then f r else r) = g r) \<Longrightarrow> tbl_update P f t = map g t"
  by (simp add: tbl_update_def)

lemma no_null_transition [simp]: "\<not> null_violation (transition_cells target worker error [] now token r)"
  by (auto simp: null_violation_def transition_cells_def only_columns_def split: option.splits)

lemma same_id_same_row: "unique_jobs t \<Longrightarrow> r \<in> set t \<Longrightarrow> x \<in> set t \<Longrightarrow> cv_id x = cv_id r \<longleftrightarrow> x = r"
  unfolding unique_jobs_def by (meson distinct_map_key_eq)

lemma same_job_same_row: "unique_jobs t \<Longrightarrow> r \<in> set t \<Longrightarrow> x \<in> set t \<Longrightarrow> cv_job_id x = cv_job_id r \<longleftrightarrow> x = r"
  unfolding unique_jobs_def by (meson distinct_map_key_eq)

lemma transition_step_found:
  assumes "unique_jobs t" and "ALLOWED_STATUS_TRANSITIONS target \<noteq> None" and "get_conversion job t = Some row"
  shows "transition_conversion job target worker error [] now token t =
    (if cv_status row \<noteq> target \<and> \<not> transition_allowed (cv_status row) target
     then Inl (DbValueError (''Invalid status transition: '' @ cv_status row @ '' -> '' @ target))
     else if target = ''processing'' \<and> cv_status row = ''processing'' \<and> claimed_by_other worker row
     then Inl (DbValueError (''Job '' @ job @ '' is already claimed by another worker''))
     else Inr (map (transition_row job target worker error now token) t,
               transition_row job target worker error now token row))"
proof -
  have row: "row \<in> set t" "cv_job_id row = job" using get_conversion_SomeD [OF assms(3)] by auto
  let ?cells = "transition_cells target worker error [] now token row"
  have t': "tbl_update (\<lambda>r. cv_id r = cv_id row) (set_cells ?cells) t
      = map (transition_row job target worker error now token) t"
    if "cv_status row = target \<or> transition_allowed (cv_status row) target"
      "\<not> (target = ''processing'' \<and> cv_status row = ''processing'' \<and> claimed_by_other worker row)"
  proof (rule tbl_update_map)
    fix x
    assume x: "x \<in> set t"
    show "(if cv_id x = cv_id row then set_cells ?cells x else x) = transition_row job target worker error now token x"
    proof (cases "x = row")
      case True
      then show ?thesis using that row(2) by (simp add: transition_row_def)
    next
      case False
      then have "cv_id x \<noteq> cv_id row" "cv_job_id x \<noteq> job"
        using same_id_same_row [OF assms(1) row(1) x] same_job_same_row [OF assms(1) row(1) x] row(2) by auto
      then show ?thesis by (simp add: transition_row_def)
    qed
  qed
  have g: "get_conversion job (map (transition_row job target worker error now token) t)
      = Some (transition_row job target worker error now token row)"
    by (subst get_conversion_map) (simp_all add: transition_row_def assms(3))
  show ?thesis
    unfolding transition_conversion_def Let_def assms(3) option.case
    using assms(2) t' g by auto
qed

lemma transition_missing:
  assumes "ALLOWED_STATUS_TRANSITIONS target \<noteq> None" and "get_conversion job t = None"
  shows "transition_conversion job target worker error [] now token t = Inl (DbKeyError job)"
  using assms by (simp add: transition_conversion_def)

lemma map_row_id: "(\<And>r. r \<in> set t \<Longrightarrow> f r = r) \<Longrightarrow> map f t = t"
  by (simp add: map_idI)

lemma transition_step:
  assumes "unique_jobs t" and "ALLOWED_STATUS_TRANSITIONS target \<noteq> None"
  shows "table_after t (transition_conversion job target worker error [] now token t)
    = map (transition_row job target worker error now token) t"
proof (cases "get_conversion job t")
  case None
  have "map (transition_row job target worker error now token) t = t"
    using None by (intro map_row_id) (auto simp: transition_row_def get_conversion_None)
  then show ?thesis using transition_missing [OF assms(2) None] by (simp add: table_after_def)
next
  case (Some row)
  have refused: "map (transition_row job target worker error now token) t = t"
    if "transition_row job target worker error now token row = row"
  proof (rule map_row_id)
    fix x
    assume x: "x \<in> set t"
    show "transition_row job target worker error now token x = x"
    proof (cases "cv_job_id x = job")
      case True
      then have "x = row" using same_job_same_row [OF assms(1) _ x, of row] get_conversion_SomeD [OF Some] by auto
      then show ?thesis using that by simp
    qed (simp add: transition_row_def)
  qed
  show ?thesis
    unfolding transition_step_found [OF assms Some] table_after_def
    using refused by (auto simp: transition_row_def)
qed

lemma guarded_step:
  assumes "unique_jobs t" and "\<And>r. hit r \<Longrightarrow> cv_job_id r = job"
  shows "table_after t (guarded_update hit cells job complaint t) = map (guarded_row hit cells) t"
proof -
  have le: "tbl_count hit t \<le> 1"
    using assms by (intro tbl_count_guarded_le_1 [where key = cv_job_id]) (auto simp: unique_jobs_def)
  have upd: "tbl_update hit (set_cells cells) t = map (guarded_row hit cells) t" if "\<not> null_violation cells"
    by (rule tbl_update_map) (simp add: guarded_row_def that)
  show ?thesis
  proof (cases "tbl_count hit t = 0")
    case True
    then have "map (guarded_row hit cells) t = t"
      by (intro map_row_id) (auto simp: tbl_count_0 guarded_row_def)
    then show ?thesis using True by (simp add: guarded_update_def table_after_def)
  next
    case False
    then obtain r where r: "r \<in> set t" "hit r" by (auto simp: tbl_count_0)
    have one: "tbl_count hit t = 1" using le False by simp
    show ?thesis
    proof (cases "null_violation cells")
      case True
      then have "map (guarded_row hit cells) t = t" by (intro map_row_id) (simp add: guarded_row_def)
      then show ?thesis using True one by (simp add: guarded_update_def table_after_def)
    next
      case False
      have "get_conversion job t \<noteq> None" using r assms(2) by (auto simp: get_conversion_None)
      then have "get_conversion job (map (guarded_row hit cells) t) \<noteq> None"
        by (subst get_conversion_map) (simp_all add: guarded_row_def)
      then show ?thesis
        using False one upd by (auto simp: guarded_update_def Let_def table_after_def)
    qed
  qed
qed

lemma guarded_found:
  assumes "unique_jobs t" and "get_conversion job t = Some row" and "\<And>r. hit r \<Longrightarrow> cv_job_id r = job"
    and "\<not> null_violation cells"
  shows "guarded_update hit cells job complaint t =
    (if hit row then Inr (map (guarded_row hit cells) t, set_cells cells row) else Inl (DbValueError complaint))"
proof -
  have row: "row \<in> set t" "cv_job_id row = job" using get_conversion_SomeD [OF assms(2)] by auto
  have upd: "tbl_update hit (set_cells cells) t = map (guarded_row hit cells) t"
    by (rule tbl_update_map) (simp add: guarded_row_def assms(4))
  show ?thesis
  proof (cases "hit row")
    case True
    then have one: "tbl_count hit t = 1"
      using assms(1,3) row by (intro tbl_count_guarded_eq_1 [where key = cv_job_id]) (auto simp: unique_jobs_def)
    have "get_conversion job (map (guarded_row hit cells) t) = Some (set_cells cells row)"
      by (subst get_conversion_map) (simp_all add: guarded_row_def assms True)
    then show ?thesis using True one upd assms(4) by (simp add: guarded_update_def)
  next
    case False
    have "tbl_count hit t = 0"
      using False assms(3) same_job_same_row [OF assms(1) row(1)] row(2) by (auto simp: tbl_count_0)
    then show ?thesis using False by (simp add: guarded_update_def)
  qed
qed

lemma guarded_missing:
  assumes "get_conversion job t = None" and "\<And>r. hit r \<Longrightarrow> cv_job_id r = job"
  shows "guarded_update hit cells job complaint t = Inl (DbValueError complaint)"
proof -
  have "tbl_count hit t = 0" using assms by (auto simp: tbl_count_0 get_conversion_None)
  then show ?thesis by (simp add: guarded_update_def)
qed

lemma transition_known:
  "ALLOWED_STATUS_TRANSITIONS ''processing'' \<noteq> None" "ALLOWED_STATUS_TRANSITIONS ''pending'' \<noteq> None"
  "ALLOWED_STATUS_TRANSITIONS ''cancelled'' \<noteq> None" "ALLOWED_STATUS_TRANSITIONS ''failed'' \<noteq> None"
  by (simp_all add: ALLOWED_STATUS_TRANSITIONS_def)

lemma owned_row_job: "owned_row st job w k r \<Longrightarrow> cv_job_id r = job"
  by (simp add: owned_row_def)

lemma no_null_reset [simp]: "\<not> null_violation (Status s # UpdatedAt u # result_reset)"
  "\<not> null_violation (Status s # UpdatedAt u # WorkerName w # LastHeartbeat h # ClaimToken k # result_reset)"
  by (simp_all add: null_violation_def result_reset_def)

lemma update_queue_id: "update_conversion n [RqJobId rq] t = Inr (tbl_update (\<lambda>r. cv_id r = n) (set_cells [RqJobId rq]) t)"
  by (simp add: update_conversion_def only_columns_def update_columns_def null_violation_def)

lemma heartbeat_step:
  assumes "unique_jobs t"
  shows "(case heartbeat job w now t of Inl e \<Rightarrow> t | Inr t' \<Rightarrow> t') = map (step_row (DoBeat job w now)) t"
proof -
  let ?hit = "\<lambda>r. cv_job_id r = job \<and> cv_status r = ''processing'' \<and> cv_worker_name r \<in> {None, Some [], Some w}"
  have "tbl_count ?hit t \<le> 1"
    using assms by (intro tbl_count_guarded_le_1 [where key = cv_job_id]) (auto simp: unique_jobs_def)
  moreover have "tbl_count ?hit t = 0 \<Longrightarrow> map (step_row (DoBeat job w now)) t = t"
    by (intro map_row_id) (auto simp: tbl_count_0)
  moreover have "tbl_update ?hit (set_cells [LastHeartbeat (At now), UpdatedAt (At now), WorkerName (Some w)]) t
      = map (step_row (DoBeat job w now)) t"
    by (rule tbl_update_map) simp
  ultimately show ?thesis unfolding heartbeat_def Let_def by (cases "tbl_count ?hit t = 1") auto
qed

text \<open>Every step but the insertion is \<open>step_row\<close> on each row.\<close>

definition step_rows :: "conv_op \<Rightarrow> conversion \<Rightarrow> conversion" where
  "step_rows x r = (if valid_op x then step_row x r else r)"

lemma run_op_rows:
  assumes "unique_jobs t" and "\<And>job user owner guest docx now. x \<noteq> DoCreate job user owner guest docx now"
  shows "run_op x t = map (step_row x) t"
proof (cases x)
  case (DoCreate job user owner guest docx now)
  then show ?thesis using assms(2) by simp
next
  case (DoClaim job w token now)
  then show ?thesis using transition_step [OF assms(1) transition_known(1)] by (simp cong: map_cong)
next
  case (DoRequeue job now)
  then show ?thesis using transition_step [OF assms(1) transition_known(2)] by (simp cong: map_cong)
next
  case (DoCancel job now)
  then show ?thesis using transition_step [OF assms(1) transition_known(3)] by (simp cong: map_cong)
next
  case (DoFail job w e now)
  then show ?thesis using transition_step [OF assms(1) transition_known(4)] by (simp cong: map_cong)
next
  case (DoBeat job w now)
  then show ?thesis using heartbeat_step [OF assms(1)] by simp
next
  case (DoPrepare job target w token e extra now)
  then show ?thesis
    using guarded_step [OF assms(1) owned_row_job]
    by (cases "target \<in> {''completed'', ''manual_review''}")
      (auto simp: prepare_conversion_finalization_def table_after_def map_idI cong: map_cong)
next
  case (DoComplete job target w token now)
  then show ?thesis
    using guarded_step [OF assms(1) owned_row_job]
    by (cases "target \<in> {''completed'', ''manual_review''}")
      (auto simp: complete_conversion_finalization_def table_after_def map_idI cong: map_cong)
next
  case (DoRollback job w token now)
  then show ?thesis by (simp add: rollback_conversion_finalization_def tbl_update_def guarded_row_def)
next
  case (DoAbandonFinalizing job observed now)
  then show ?thesis by (simp add: abandon_conversion_finalization_def tbl_update_def guarded_row_def)
next
  case (DoAbandonProcessing job observed now)
  then show ?thesis
    by (simp add: abandon_stale_processing_def tbl_update_def guarded_row_def null_violation_def)
next
  case (DoQueueId n rq)
  then show ?thesis by (simp add: update_queue_id tbl_update_def)
next
  case (DoHide job owner now)
  then show ?thesis by (simp add: hide_owner_conversion_def tbl_update_def)
qed

lemma set_cells_frame: "(\<And>c r. c \<in> set cs \<Longrightarrow> f (set_cell c r) = f r) \<Longrightarrow> f (set_cells cs r) = f r"
  by (induction cs arbitrary: r) simp_all

lemma set_cells_if [simp]: "set_cells (if b then cs else ds) r = (if b then set_cells cs r else set_cells ds r)"
  by simp

lemma only_columns_Nil [simp]: "only_columns names [] = []"
  by (simp add: only_columns_def)

lemma result_reset_frame [simp]:
  "cv_status (set_cells result_reset r) = cv_status r"
  "cv_worker_name (set_cells result_reset r) = cv_worker_name r"
  "cv_claim_token (set_cells result_reset r) = cv_claim_token r"
  "cv_rq_job_id (set_cells result_reset r) = cv_rq_job_id r"
  "cv_updated_at (set_cells result_reset r) = cv_updated_at r"
  "cv_intended_final_status (set_cells result_reset r) = []"
  "cv_text_quality_score (set_cells result_reset r) = None"
  by (simp_all add: result_reset_def bind_score_def)

text \<open>The result columns never carry the state of the job or its claim.\<close>

lemma result_cell:
  assumes "c \<in> set (only_columns result_columns cs)"
  shows "(\<exists>v. c = StoredDocx v) \<or> (\<exists>v. c = FileType v) \<or> (\<exists>v. c = TextQuality v) \<or> (\<exists>v. c = LayoutQuality v)
    \<or> (\<exists>v. c = FinalQuality v) \<or> (\<exists>v. c = WinningEngine v) \<or> (\<exists>v. c = WinningModel v)
    \<or> (\<exists>v. c = TotalCost v) \<or> (\<exists>v. c = ProcessingTime v)"
proof -
  have "column c \<in> set result_columns" using assms by (simp add: only_columns_def)
  then show ?thesis by (cases c) (simp_all add: result_columns_def)
qed

lemma result_cells_frame [simp]:
  "cv_status (set_cells (only_columns result_columns cs) r) = cv_status r"
  "cv_worker_name (set_cells (only_columns result_columns cs) r) = cv_worker_name r"
  "cv_claim_token (set_cells (only_columns result_columns cs) r) = cv_claim_token r"
  "cv_intended_final_status (set_cells (only_columns result_columns cs) r) = cv_intended_final_status r"
  "cv_updated_at (set_cells (only_columns result_columns cs) r) = cv_updated_at r"
  "cv_rq_job_id (set_cells (only_columns result_columns cs) r) = cv_rq_job_id r"
  "cv_hidden (set_cells (only_columns result_columns cs) r) = cv_hidden r"
  by (rule set_cells_frame, drule result_cell, elim disjE exE; simp)+

subsection \<open>The invariant\<close>

definition known_status :: "string \<Rightarrow> bool" where
  "known_status st \<longleftrightarrow> ALLOWED_STATUS_TRANSITIONS st \<noteq> None"

definition row_ok :: "conversion \<Rightarrow> bool" where
  "row_ok r \<longleftrightarrow> known_status (cv_status r)
     \<and> (cv_status r \<in> {''processing'', ''finalizing''} \<longrightarrow>
          cv_worker_name r \<notin> {None, Some []} \<and> cv_claim_token r \<noteq> [])
     \<and> (cv_status r = ''finalizing'' \<longrightarrow> cv_intended_final_status r \<in> {''completed'', ''manual_review''})"

definition conv_wf :: "conversions \<Rightarrow> bool" where
  "conv_wf t \<longleftrightarrow> unique_jobs t \<and> (\<forall>r \<in> set t. row_ok r)"

lemma transition_row_ident [simp]:
  "cv_id (transition_row job target w e now k r) = cv_id r"
  "cv_job_id (transition_row job target w e now k r) = cv_job_id r"
  by (simp_all add: transition_row_def)

lemma guarded_row_ident [simp]:
  "cv_id (guarded_row hit cs r) = cv_id r" "cv_job_id (guarded_row hit cs r) = cv_job_id r"
  by (simp_all add: guarded_row_def)

lemma step_row_ident [simp]: "cv_id (step_row x r) = cv_id r" "cv_job_id (step_row x r) = cv_job_id r"
  by (cases x; simp)+

lemma step_rows_ident [simp]: "cv_id (step_rows x r) = cv_id r" "cv_job_id (step_rows x r) = cv_job_id r"
  by (simp_all add: step_rows_def)

text \<open>How a row may change, by the kind of step.\<close>

lemma transition_row_cases:
  obtains "transition_row job target worker e now k r = r"
  | "cv_job_id r = job" "cv_status r = target \<or> transition_allowed (cv_status r) target"
    "\<not> (target = ''processing'' \<and> cv_status r = ''processing'' \<and> claimed_by_other worker r)"
    "transition_row job target worker e now k r = set_cells (transition_cells target worker e [] now k r) r"
  unfolding transition_row_def by (cases "cv_job_id r = job \<and> (cv_status r = target \<or> transition_allowed (cv_status r) target)
         \<and> \<not> (target = ''processing'' \<and> cv_status r = ''processing'' \<and> claimed_by_other worker r)") auto

lemma transition_cells_effect [simp]:
  fixes target worker e now k r
  defines "r' \<equiv> set_cells (transition_cells target worker e [] now k r) r"
  shows "cv_status r' = target"
    "cv_worker_name r' = (case worker of None \<Rightarrow> cv_worker_name r | Some w \<Rightarrow> Some w)"
    "cv_claim_token r' = (if target = ''processing'' \<and> cv_status r \<noteq> ''processing'' then k else cv_claim_token r)"
    "cv_intended_final_status r' = cv_intended_final_status r"
    "cv_rq_job_id r' = cv_rq_job_id r"
    "cv_text_quality_score r' = cv_text_quality_score r"
    "cv_stored_docx_path r' = cv_stored_docx_path r"
    "cv_last_heartbeat r' = (if target = ''processing'' \<and> cv_status r \<noteq> ''processing'' then At now else cv_last_heartbeat r)"
    "cv_updated_at r' = At now"
  unfolding r'_def transition_cells_def
  by (cases worker; cases "target = ''processing'' \<and> cv_status r \<noteq> ''processing''"; cases "target \<in> FINAL_STATUSES";
      simp only: if_True if_False option.case set_cells_append set_cells_Cons set_cells_Nil only_columns_Nil set_cell.simps;
      simp)+

lemma transition_row_ok:
  assumes "row_ok r" and "known_status target"
    and "target = ''processing'' \<Longrightarrow> worker \<notin> {None, Some []} \<and> k \<noteq> []" and "target \<noteq> ''finalizing''"
  shows "row_ok (transition_row job target worker e now k r)"
proof (rule transition_row_cases [of job target worker e now k r])
  assume "transition_row job target worker e now k r = r"
  then show ?thesis using assms(1) by simp
next
  assume eq: "transition_row job target worker e now k r = set_cells (transition_cells target worker e [] now k r) r"
  show ?thesis
  proof (cases "target = ''processing''")
    case True
    then have w: "worker \<notin> {None, Some []}" "k \<noteq> []" using assms(3) by simp_all
    have "cv_status r = ''processing'' \<Longrightarrow> cv_claim_token r \<noteq> []" using assms(1) by (simp add: row_ok_def)
    then show ?thesis using w True assms(2) unfolding row_ok_def eq transition_cells_effect by auto
  next
    case False
    then show ?thesis using assms(2,4) unfolding row_ok_def eq transition_cells_effect by simp
  qed
qed

lemma known_statuses [simp]:
  "known_status ''processing''" "known_status ''pending''" "known_status ''finalizing''"
  "known_status ''completed''" "known_status ''manual_review''" "known_status ''cancelled''" "known_status ''failed''"
  by (simp_all add: known_status_def ALLOWED_STATUS_TRANSITIONS_def)

lemma guarded_row_ok:
  assumes "row_ok r" and "hit r \<Longrightarrow> row_ok (set_cells cs r)"
  shows "row_ok (guarded_row hit cs r)"
  using assms by (simp add: guarded_row_def)

lemma step_row_ok:
  assumes "valid_op x" and "row_ok r"
  shows "row_ok (step_row x r)"
proof (cases x)
  case (DoClaim job w token now)
  then show ?thesis using assms by (simp add: transition_row_ok)
next
  case (DoRequeue job now)
  then show ?thesis using assms(2) by (auto intro!: transition_row_ok)
next
  case (DoCancel job now)
  then show ?thesis using assms(2) by (auto intro!: transition_row_ok)
next
  case (DoFail job w e now)
  then show ?thesis using assms(2) by (auto intro!: transition_row_ok)
next
  case (DoBeat job w now)
  then show ?thesis using assms by (simp add: row_ok_def)
next
  case (DoPrepare job target w token e extra now)
  have "row_ok (guarded_row (owned_row ''processing'' job w token)
        ([Status ''finalizing'', UpdatedAt (At now), CompletedAt Never, WorkerName (Some w), ErrorMessage e,
          IntendedFinal target] @ only_columns result_columns extra) r)"
    if "target \<in> {''completed'', ''manual_review''}"
    using that assms(2) by (intro guarded_row_ok) (simp_all add: row_ok_def owned_row_def)
  then show ?thesis using assms(2) DoPrepare by simp
next
  case (DoComplete job target w token now)
  have "row_ok (guarded_row (owned_row ''finalizing'' job w token)
        [Status target, UpdatedAt (At now), CompletedAt (At now), IntendedFinal []] r)"
    if "target \<in> {''completed'', ''manual_review''}"
    using that assms(2) by (intro guarded_row_ok) (auto simp: row_ok_def)
  then show ?thesis using assms(2) DoComplete by simp
next
  case (DoRollback job w token now)
  have "row_ok (guarded_row (owned_row ''finalizing'' job w token)
      ([Status ''processing'', UpdatedAt (At now)] @ result_reset) r)"
    using assms(2) by (intro guarded_row_ok) (simp_all add: row_ok_def owned_row_def)
  then show ?thesis using DoRollback by simp
next
  case (DoAbandonFinalizing job observed now)
  have "row_ok (guarded_row (observed_row ''finalizing'' job observed)
       ([Status ''pending'', UpdatedAt (At now), WorkerName None, LastHeartbeat Never, ClaimToken []] @ result_reset) r)"
    using assms(2) by (intro guarded_row_ok) (simp_all add: row_ok_def)
  then show ?thesis using DoAbandonFinalizing by simp
next
  case (DoAbandonProcessing job observed now)
  have "row_ok (guarded_row (observed_row ''processing'' job observed)
       [Status ''pending'', UpdatedAt (At now), WorkerName None, LastHeartbeat Never, ClaimToken [],
        ErrorMessage (Some ''Worker heartbeat expired; job returned to pending.'')] r)"
    using assms(2) by (intro guarded_row_ok) (simp_all add: row_ok_def)
  then show ?thesis using DoAbandonProcessing by simp
qed (use assms(2) in \<open>simp_all add: row_ok_def\<close>)

lemma step_rows_ok: "row_ok r \<Longrightarrow> row_ok (step_rows x r)"
  by (simp add: step_rows_def step_row_ok)

lemma new_conversion_simps [simp]:
  "cv_job_id (new_conversion n job user owner guest docx now) = job"
  "cv_id (new_conversion n job user owner guest docx now) = n"
  "cv_status (new_conversion n job user owner guest docx now) = ''pending''"
  by (simp_all add: new_conversion_def)

lemma next_id_fresh: "n \<in> cv_id ` set t \<Longrightarrow> n < next_conversion_id t"
proof -
  have mono: "m \<le> fold max (map cv_id t) m" for m :: int and t :: conversions
  proof (induction t arbitrary: m)
    case (Cons r t)
    from Cons [of "max (cv_id r) m"] show ?case by simp
  qed simp
  have "r \<in> set t \<Longrightarrow> cv_id r \<le> fold max (map cv_id t) m" for r and m :: int
  proof (induction t arbitrary: m)
    case (Cons x t)
    show ?case
    proof (cases "r = x")
      case True
      then show ?thesis using mono [of "max (cv_id x) m" t] by simp
    next
      case False
      then show ?thesis using Cons by simp
    qed
  qed simp
  then show "n \<in> cv_id ` set t \<Longrightarrow> n < next_conversion_id t" by (fastforce simp: next_conversion_id_def)
qed

text \<open>A step is the insertion of a fresh pending job or \<open>step_rows\<close> on each row.\<close>

lemma conv_step_cases:
  assumes "unique_jobs t"
  obtains (rows) "conv_step x t = map (step_rows x) t"
  | (insert) job user owner guest docx now where "x = DoCreate job user owner guest docx now"
      "job \<notin> cv_job_id ` set t"
      "conv_step x t = t @ [new_conversion (next_conversion_id t) job user owner guest docx now]"
proof (cases "\<exists>job user owner guest docx now. x = DoCreate job user owner guest docx now")
  case False
  then have "conv_step x t = map (step_rows x) t"
    using run_op_rows [OF assms, of x] by (simp add: conv_step_def step_rows_def map_idI cong: map_cong)
  then show ?thesis by (rule rows)
next
  case True
  then obtain job user owner guest docx now where x: "x = DoCreate job user owner guest docx now" by blast
  show ?thesis
  proof (cases "job \<in> cv_job_id ` set t")
    case True
    then have "conv_step x t = map (step_rows x) t"
      by (simp add: conv_step_def x create_conversion_def table_after_def step_rows_def map_idI)
    then show ?thesis by (rule rows)
  next
    case False
    then show ?thesis
      by (intro insert [OF x False]) (simp add: conv_step_def x create_conversion_def table_after_def Let_def)
  qed
qed

lemma unique_jobs_map: "unique_jobs t \<Longrightarrow> (\<And>r. cv_id (f r) = cv_id r) \<Longrightarrow> (\<And>r. cv_job_id (f r) = cv_job_id r)
  \<Longrightarrow> unique_jobs (map f t)"
  by (simp add: unique_jobs_def comp_def)

lemma conv_step_wf:
  assumes "conv_wf t"
  shows "conv_wf (conv_step x t)"
proof -
  have u: "unique_jobs t" and ok: "\<And>r. r \<in> set t \<Longrightarrow> row_ok r" using assms by (auto simp: conv_wf_def)
  show ?thesis
  proof (rule conv_step_cases [OF u, of x])
    assume "conv_step x t = map (step_rows x) t"
    then show ?thesis using u ok by (auto simp: conv_wf_def step_rows_ok intro!: unique_jobs_map)
  next
    fix job user owner guest docx now
    assume insert: "job \<notin> cv_job_id ` set t"
      "conv_step x t = t @ [new_conversion (next_conversion_id t) job user owner guest docx now]"
    have "next_conversion_id t \<notin> cv_id ` set t" using next_id_fresh by blast
    then show ?thesis
      using u ok insert(1) unfolding insert(2) conv_wf_def
      by (auto simp: unique_jobs_def row_ok_def)
  qed
qed

interpretation conversion_rows: kept_invariant conv_step conv_wf
  by unfold_locales (rule conv_step_wf)

definition conversions_after :: "conv_op list \<Rightarrow> conversions" where
  "conversions_after ops = fold conv_step ops []"

lemma conversions_after_wf: "conv_wf (conversions_after ops)"
  unfolding conversions_after_def
  by (rule conversion_rows.run_keeps) (simp add: conv_wf_def unique_jobs_def)

lemma step_of_row:
  assumes "conv_wf t" and "r \<in> set t" and "r' \<in> set (conv_step x t)" and "cv_job_id r' = cv_job_id r"
  shows "r' = step_rows x r"
proof -
  have u: "unique_jobs t" using assms(1) by (simp add: conv_wf_def)
  show ?thesis
  proof (rule conv_step_cases [OF u, of x])
    assume "conv_step x t = map (step_rows x) t"
    then obtain y where y: "y \<in> set t" "r' = step_rows x y" using assms(3) by auto
    then have "y = r" using assms(2,4) same_job_same_row [OF u assms(2) y(1)] by simp
    then show ?thesis using y(2) by simp
  next
    fix job user owner guest docx now
    assume insert: "x = DoCreate job user owner guest docx now" "job \<notin> cv_job_id ` set t"
      "conv_step x t = t @ [new_conversion (next_conversion_id t) job user owner guest docx now]"
    then have "r' \<in> set t" using assms(2,3,4) by auto
    then have "r' = r" using assms(2,4) same_job_same_row [OF u assms(2)] by simp
    then show ?thesis using insert(1) by (simp add: step_rows_def)
  qed
qed

text \<open>What a single row may go through.\<close>

definition conversion_move :: "string \<Rightarrow> string \<Rightarrow> bool" where
  "conversion_move st st' \<longleftrightarrow> st' = st \<or> transition_allowed st st' \<or> (st = ''finalizing'' \<and> st' = ''pending'')"

lemma transition_table [simp]:
  "transition_allowed ''pending'' = (\<lambda>s. s \<in> {''processing'', ''failed'', ''cancelled''})"
  "transition_allowed ''processing'' =
     (\<lambda>s. s \<in> {''pending'', ''finalizing'', ''completed'', ''failed'', ''manual_review'', ''cancelled''})"
  "transition_allowed ''finalizing'' = (\<lambda>s. s \<in> {''processing'', ''completed'', ''manual_review'', ''failed''})"
  "transition_allowed ''failed'' = (\<lambda>s. s = ''pending'')"
  "transition_allowed ''cancelled'' = (\<lambda>s. s = ''pending'')"
  "transition_allowed ''manual_review'' = (\<lambda>s. False)"
  "transition_allowed ''completed'' = (\<lambda>s. False)"
  by (auto simp: transition_allowed_def ALLOWED_STATUS_TRANSITIONS_def fun_eq_iff)

lemma transition_row_move: "conversion_move (cv_status r) (cv_status (transition_row job target w e now k r))"
  by (rule transition_row_cases [of job target w e now k r]) (auto simp: conversion_move_def)

lemma guarded_row_move:
  "(hit r \<Longrightarrow> conversion_move (cv_status r) (cv_status (set_cells cs r)))
    \<Longrightarrow> conversion_move (cv_status r) (cv_status (guarded_row hit cs r))"
  by (simp add: guarded_row_def conversion_move_def)

lemma step_row_move: "conversion_move (cv_status r) (cv_status (step_row x r))"
proof (cases x)
  case (DoPrepare job target w token e extra now)
  have "conversion_move (cv_status r) (cv_status (guarded_row (owned_row ''processing'' job w token)
        ([Status ''finalizing'', UpdatedAt (At now), CompletedAt Never, WorkerName (Some w), ErrorMessage e,
          IntendedFinal target] @ only_columns result_columns extra) r))"
    by (rule guarded_row_move) (simp add: owned_row_def conversion_move_def)
  then show ?thesis using DoPrepare by (simp add: conversion_move_def)
next
  case (DoComplete job target w token now)
  have "conversion_move (cv_status r) (cv_status (guarded_row (owned_row ''finalizing'' job w token)
        [Status target, UpdatedAt (At now), CompletedAt (At now), IntendedFinal []] r))"
    if "target \<in> {''completed'', ''manual_review''}"
    using that by (intro guarded_row_move) (auto simp: owned_row_def conversion_move_def)
  then show ?thesis using DoComplete by (simp add: conversion_move_def)
next
  case (DoRollback job w token now)
  have "conversion_move (cv_status r) (cv_status (guarded_row (owned_row ''finalizing'' job w token)
      ([Status ''processing'', UpdatedAt (At now)] @ result_reset) r))"
    by (rule guarded_row_move) (simp add: owned_row_def conversion_move_def)
  then show ?thesis using DoRollback by simp
next
  case (DoAbandonFinalizing job observed now)
  have "conversion_move (cv_status r) (cv_status (guarded_row (observed_row ''finalizing'' job observed)
      ([Status ''pending'', UpdatedAt (At now), WorkerName None, LastHeartbeat Never, ClaimToken []] @ result_reset) r))"
    by (rule guarded_row_move) (simp add: observed_row_def conversion_move_def)
  then show ?thesis using DoAbandonFinalizing by simp
next
  case (DoAbandonProcessing job observed now)
  have "conversion_move (cv_status r) (cv_status (guarded_row (observed_row ''processing'' job observed)
      [Status ''pending'', UpdatedAt (At now), WorkerName None, LastHeartbeat Never, ClaimToken [],
       ErrorMessage (Some ''Worker heartbeat expired; job returned to pending.'')] r))"
    by (rule guarded_row_move) (simp add: observed_row_def conversion_move_def)
  then show ?thesis using DoAbandonProcessing by simp
qed (simp_all add: transition_row_move, simp_all add: conversion_move_def)

text \<open>A job that is done keeps its outcome; a job in processing keeps its claim.\<close>

definition outcome :: "conversion \<Rightarrow> string \<times> string \<times> score option" where
  "outcome r = (cv_status r, cv_stored_docx_path r, cv_text_quality_score r)"

lemma transition_row_final:
  assumes "cv_status r \<in> {''completed'', ''manual_review''}" and "target \<notin> {''completed'', ''manual_review''}"
  shows "transition_row job target w e now k r = r"
  using assms by (auto simp: transition_row_def)

lemma step_row_final:
  assumes "cv_status r \<in> {''completed'', ''manual_review''}"
  shows "outcome (step_row x r) = outcome r"
  by (cases x) (use assms in \<open>auto simp: outcome_def transition_row_final guarded_row_def owned_row_def observed_row_def\<close>)

lemma transition_row_claim:
  assumes "row_ok r" and "cv_status r = ''processing''" and "cv_status (transition_row job target w e now k r) = ''processing''"
    and "target = ''processing'' \<Longrightarrow> w \<noteq> None"
  shows "cv_worker_name (transition_row job target w e now k r) = cv_worker_name r
    \<and> cv_claim_token (transition_row job target w e now k r) = cv_claim_token r"
proof (rule transition_row_cases [of job target w e now k r])
  assume eq: "transition_row job target w e now k r = set_cells (transition_cells target w e [] now k r) r"
    and g: "\<not> (target = ''processing'' \<and> cv_status r = ''processing'' \<and> claimed_by_other w r)"
  have t: "target = ''processing''" using assms(3) unfolding eq by simp
  then obtain v where v: "w = Some v" using assms(4) by auto
  have "cv_worker_name r = Some v"
    using g t v assms(1,2) by (auto simp: row_ok_def claimed_by_other_def split: option.splits)
  then show ?thesis unfolding eq using v assms(2) by simp
qed simp

lemma step_row_claim:
  assumes "row_ok r" and "cv_status r = ''processing''" and "cv_status (step_row x r) = ''processing''"
  shows "cv_worker_name (step_row x r) = cv_worker_name r \<and> cv_claim_token (step_row x r) = cv_claim_token r"
proof (cases x)
  case (DoBeat job w now)
  then show ?thesis using assms by (auto simp: row_ok_def)
next
  case (DoPrepare job target w token e extra now)
  then show ?thesis using assms(2,3) by (auto simp: guarded_row_def split: if_splits)
next
  case (DoClaim job w token now)
  then show ?thesis using transition_row_claim [OF assms(1,2) assms(3) [unfolded DoClaim step_row.simps]] by simp
next
  case (DoRequeue job now)
  then show ?thesis using transition_row_claim [OF assms(1,2) assms(3) [unfolded DoRequeue step_row.simps]] by simp
next
  case (DoCancel job now)
  then show ?thesis using transition_row_claim [OF assms(1,2) assms(3) [unfolded DoCancel step_row.simps]] by simp
next
  case (DoFail job w e now)
  then show ?thesis using transition_row_claim [OF assms(1,2) assms(3) [unfolded DoFail step_row.simps]] by simp
qed (use assms(2,3) in \<open>auto simp: guarded_row_def owned_row_def observed_row_def split: if_splits\<close>)

subsection \<open>Properties of the table\<close>



definition sample_ops :: "conv_op list" where
  "sample_ops = [DoCreate ''j1'' ''u@x.org'' ''u1'' '''' ''out/j1.docx'' 10, DoClaim ''j1'' ''w1'' ''t1'' 20]"

lemma sample_ops_after: "conversions_after sample_ops =
  [(new_conversion 1 ''j1'' ''u@x.org'' ''u1'' '''' ''out/j1.docx'' 10)
     \<lparr>cv_status := ''processing'', cv_updated_at := At 20, cv_attempt_count := 1, cv_started_at := At 20,
      cv_worker_name := Some ''w1'', cv_last_heartbeat := At 20, cv_claim_token := ''t1''\<rparr>]"
  by code_simp


subsection \<open>Old claims\<close>

fun drawn_token :: "conv_op \<Rightarrow> string option" where
  "drawn_token (DoClaim job w token now) = Some token"
| "drawn_token _ = None"

lemma transition_row_token:
  "cv_claim_token (transition_row job target w e now k r) = cv_claim_token r
    \<or> target = ''processing'' \<and> cv_claim_token (transition_row job target w e now k r) = k"
  by (rule transition_row_cases [of job target w e now k r]) (auto split: if_splits)

lemma step_rows_token:
  "cv_claim_token (step_rows x r) \<in> {cv_claim_token r, []} \<or> drawn_token x = Some (cv_claim_token (step_rows x r))"
proof -
  have t: "cv_claim_token (transition_row job target w e now k r) = cv_claim_token r"
    if "target \<noteq> ''processing''" for job target w e now k
    using transition_row_token [of job target w e now k r] that by blast
  show ?thesis
  proof (cases x)
    case (DoClaim job w token now)
    then show ?thesis
      unfolding step_rows_def using transition_row_token [of job "''processing''" "Some w" None now token r] by auto
  qed (auto simp: step_rows_def t guarded_row_def)
qed

text \<open>A token that is not the job's current one and is never drawn again stays dead.\<close>

definition dead_token :: "string \<Rightarrow> string \<Rightarrow> conversions \<Rightarrow> bool" where
  "dead_token job k t \<longleftrightarrow> (\<forall>r \<in> set t. cv_job_id r = job \<longrightarrow> cv_claim_token r \<noteq> k)"

lemma dead_token_step:
  assumes "conv_wf t" and "dead_token job k t" and "k \<noteq> []" and "drawn_token x \<noteq> Some k"
  shows "dead_token job k (conv_step x t)"
proof -
  have u: "unique_jobs t" using assms(1) by (simp add: conv_wf_def)
  have "cv_claim_token (step_rows x r) \<noteq> k" if "r \<in> set t" "cv_job_id r = job" for r
    using step_rows_token [of x r] assms(2-4) that by (auto simp: dead_token_def)
  then show ?thesis
    by (rule_tac conv_step_cases [OF u, of x]) (use assms(2,3) in \<open>auto simp: dead_token_def new_conversion_def\<close>)
qed

lemma dead_token_run:
  assumes "conv_wf t" and "dead_token job k t" and "k \<noteq> []" and "\<And>x. x \<in> set ops \<Longrightarrow> drawn_token x \<noteq> Some k"
  shows "dead_token job k (fold conv_step ops t)"
  using assms by (induction ops arbitrary: t) (auto simp: dead_token_step conv_step_wf)

lemma dead_token_finalization:
  assumes "dead_token job k t"
  shows "finalize_conversion_if_owned job target w (Some k) e extra now t \<in> range Inl
    \<and> prepare_conversion_finalization job target w (Some k) e extra now t \<in> range Inl
    \<and> complete_conversion_finalization job target w (Some k) now t \<in> range Inl"
proof -
  have "tbl_count (owned_row st job w (Some k)) t = 0" for st
    using assms by (auto simp: tbl_count_0 owned_row_def dead_token_def)
  then show ?thesis
    by (auto simp: finalize_conversion_if_owned_def prepare_conversion_finalization_def
        complete_conversion_finalization_def guarded_update_def)
qed

text \<open>
  C14. Once a claim has been handed out, no older claim of the job gets through any more: after any
  further steps that do not draw the old token again, preparing, completing and finalizing under the
  old token all fail.
\<close>

theorem old_claim_is_fenced:
  assumes "transition_conversion job ''processing'' (Some w) None [] now new (conversions_after before) = Inr (t, row)"
    and "get_conversion job (conversions_after before) = Some prior" and "cv_status prior \<noteq> ''processing''"
    and "w \<noteq> []" and "new \<noteq> []" and "old \<noteq> []" and "old \<noteq> new"
    and "\<forall>x \<in> set later. drawn_token x \<noteq> Some old"
  shows "prepare_conversion_finalization job target w' (Some old) e extra now' (fold conv_step later t) \<in> range Inl
    \<and> complete_conversion_finalization job target w' (Some old) now' (fold conv_step later t) \<in> range Inl
    \<and> finalize_conversion_if_owned job target w' (Some old) e extra now' (fold conv_step later t) \<in> range Inl"
proof -
  let ?t0 = "conversions_after before"
  have t: "t = conv_step (DoClaim job w new now) ?t0"
    using assms(1,4,5) by (simp add: conv_step_def table_after_def)
  then have wf: "conv_wf t" by (simp add: conv_step_wf conversions_after_wf)
  have u: "unique_jobs ?t0" using conversions_after_wf by (simp add: conv_wf_def)
  note found = assms(1) [unfolded transition_step_found [OF u transition_known(1) assms(2)]]
  let ?f = "transition_row job ''processing'' (Some w) None now new"
  have row: "t = map ?f ?t0" "row = ?f prior" and g: "transition_allowed (cv_status prior) ''processing''"
    using found assms(3) by (auto split: if_splits)
  have "cv_job_id prior = job" using get_conversion_SomeD [OF assms(2)] by simp
  then have "cv_claim_token row = new" unfolding row(2) using g assms(3) by (simp add: transition_row_def)
  moreover have "get_conversion job t = Some row"
    unfolding row by (subst get_conversion_map) (simp_all add: assms(2))
  ultimately
  have "dead_token job old t"
    using assms(7) wf get_conversion_row [of t] by (fastforce simp: dead_token_def conv_wf_def)
  then have "dead_token job old (fold conv_step later t)"
    using dead_token_run [OF wf] assms(6,8) by blast
  then show ?thesis using dead_token_finalization by blast
qed

lemma old_claim_is_fenced_witness:
  "prepare_conversion_finalization ''j1'' ''completed'' ''w1'' (Some ''t1'') None [] 999
     (fold conv_step [DoBeat ''j1'' ''w2'' 960]
       (conv_step (DoClaim ''j1'' ''w2'' ''t2'' 950)
         (conversions_after (sample_ops @ [DoAbandonProcessing ''j1'' (At 20) 940])))) \<in> range Inl"
proof -
  let ?before = "sample_ops @ [DoAbandonProcessing ''j1'' (At 20) 940]"
  let ?prior = "hd (conversions_after ?before)"
  let ?res = "transition_conversion ''j1'' ''processing'' (Some ''w2'') None [] 950 ''t2'' (conversions_after ?before)"
  have p: "get_conversion ''j1'' (conversions_after ?before) = Some ?prior" "cv_status ?prior \<noteq> ''processing''"
    by code_simp+
  have "isl ?res = False" by code_simp
  then obtain t row where c: "?res = Inr (t, row)" by (cases ?res) auto
  have t: "t = conv_step (DoClaim ''j1'' ''w2'' ''t2'' 950) (conversions_after ?before)"
    using c by (simp add: conv_step_def table_after_def)
  show ?thesis unfolding t [symmetric]
    using old_claim_is_fenced [OF c p, of "''t1''" "[DoBeat ''j1'' ''w2'' 960]"] by simp
qed

end
