(* ===== verification/Guest_Jobs.thy ===== *)
theory Guest_Jobs
  imports Prelude
begin

text \<open>
  Guest sessions, guest jobs and usage quotas: the methods of \<open>Database\<close> (\<open>pdfword/database.py\<close>) on
  the tables \<open>guest_sessions\<close>, \<open>guest_jobs\<close> and \<open>auth_usage_events\<close>, and the clean-up of expired
  guest jobs (\<open>guest_trial.py\<close>). The digest \<open>hash_secret\<close> (SHA-256) is the argument \<open>digest\<close>, random
  tokens and identifiers are arguments of the methods that draw them.
\<close>

subsection \<open>Rows\<close>

record guest_session =
  gs_guest_scope_id :: string
  gs_session_id_hash :: string
  gs_claim_token_hash :: string
  gs_csrf_token_hash :: string
  gs_created_at :: stamp
  gs_expires_at :: stamp
  gs_ip_hash :: string
  gs_claimed_at :: stamp

record guest_job =
  gj_job_id :: string
  gj_guest_scope_id :: string
  gj_owner_user_id :: string
  gj_stored_pdf_path :: string
  gj_stored_docx_path :: string
  gj_result_token_hash :: string
  gj_status :: string
  gj_page_count :: int
  gj_size_bytes :: int
  gj_provider_policy :: string
  gj_created_at :: stamp
  gj_expires_at :: stamp
  gj_claimed_at :: stamp
  gj_deleted_at :: stamp
  gj_downloaded_at :: stamp

record usage_event =
  ue_scope_type :: string
  ue_scope_id :: string
  ue_endpoint :: string
  ue_amount :: int
  ue_created_at :: instant

record guest_db =
  gd_sessions :: "guest_session list"
  gd_jobs :: "guest_job list"
  gd_events :: "usage_event list"

datatype guest_error =
  GuestPermissionError string
| GuestKeyError string
| GuestIntegrityError string
| GuestRuntimeError string

subsection \<open>Sessions\<close>

definition live_until :: "stamp \<Rightarrow> instant \<Rightarrow> bool" where
  "live_until expires now \<longleftrightarrow> At now < expires"

definition create_guest_session ::
  "(string \<Rightarrow> string) \<Rightarrow> int \<Rightarrow> string \<Rightarrow> string \<Rightarrow> string \<Rightarrow> string \<Rightarrow> instant \<Rightarrow> guest_db
    \<Rightarrow> guest_error + guest_db" where
  "create_guest_session digest lifetime_seconds ip_hash scope session_id csrf now d =
     (let row = \<lparr>gs_guest_scope_id = scope, gs_session_id_hash = digest session_id, gs_claim_token_hash = [],
            gs_csrf_token_hash = digest csrf, gs_created_at = At now,
            gs_expires_at = At (now + microseconds lifetime_seconds), gs_ip_hash = ip_hash, gs_claimed_at = Never\<rparr>
      in if scope \<in> gs_guest_scope_id ` set (gd_sessions d) \<or> digest session_id \<in> gs_session_id_hash ` set (gd_sessions d)
         then Inl (GuestIntegrityError ''guest_sessions'')
         else Inr (d\<lparr>gd_sessions := gd_sessions d @ [row]\<rparr>))"

definition get_guest_session :: "(string \<Rightarrow> string) \<Rightarrow> string \<Rightarrow> instant \<Rightarrow> guest_db \<Rightarrow> guest_session option" where
  "get_guest_session digest session_id now d =
     tbl_find (\<lambda>g. gs_session_id_hash g = digest session_id \<and> live_until (gs_expires_at g) now) (gd_sessions d)"

definition guest_csrf_matches :: "(string \<Rightarrow> string) \<Rightarrow> string \<Rightarrow> string option \<Rightarrow> instant \<Rightarrow> guest_db \<Rightarrow> bool" where
  "guest_csrf_matches digest session_id csrf now d =
     (case csrf of
        None \<Rightarrow> False
      | Some k \<Rightarrow> k \<noteq> [] \<and> (case get_guest_session digest session_id now d of
            None \<Rightarrow> False | Some g \<Rightarrow> gs_csrf_token_hash g = digest k))"

definition issue_guest_claim_token ::
  "(string \<Rightarrow> string) \<Rightarrow> string \<Rightarrow> string \<Rightarrow> instant \<Rightarrow> guest_db \<Rightarrow> guest_db" where
  "issue_guest_claim_token digest scope token now d =
     d\<lparr>gd_sessions := tbl_update (\<lambda>g. gs_guest_scope_id g = scope \<and> live_until (gs_expires_at g) now)
          (\<lambda>g. g\<lparr>gs_claim_token_hash := digest token\<rparr>) (gd_sessions d)\<rparr>"

subsection \<open>Jobs\<close>

definition guest_has_active_job :: "string \<Rightarrow> instant \<Rightarrow> guest_db \<Rightarrow> bool" where
  "guest_has_active_job scope now d \<longleftrightarrow>
     (\<exists>j \<in> set (gd_jobs d). gj_guest_scope_id j = scope \<and> gj_status j \<in> {''pending'', ''processing'', ''ready''}
        \<and> gj_claimed_at j = Never \<and> gj_deleted_at j = Never \<and> live_until (gj_expires_at j) now)"

definition new_guest_job ::
  "(string \<Rightarrow> string) \<Rightarrow> string \<Rightarrow> string \<Rightarrow> string \<Rightarrow> string \<Rightarrow> string \<Rightarrow> int \<Rightarrow> int \<Rightarrow> stamp \<Rightarrow> instant \<Rightarrow> guest_job" where
  "new_guest_job digest job scope token pdf docx pages bytes expires now =
     \<lparr>gj_job_id = job, gj_guest_scope_id = scope, gj_owner_user_id = [], gj_stored_pdf_path = pdf,
      gj_stored_docx_path = docx, gj_result_token_hash = digest token, gj_status = ''pending'',
      gj_page_count = pages, gj_size_bytes = bytes, gj_provider_policy = ''local_free_only'',
      gj_created_at = At now, gj_expires_at = expires, gj_claimed_at = Never, gj_deleted_at = Never,
      gj_downloaded_at = Never\<rparr>"

definition get_guest_job :: "string \<Rightarrow> string option \<Rightarrow> instant \<Rightarrow> guest_db \<Rightarrow> guest_job option" where
  "get_guest_job job scope now d =
     tbl_find (\<lambda>j. gj_job_id j = job \<and> gj_deleted_at j = Never
        \<and> (case scope of None \<Rightarrow> True | Some g \<Rightarrow> gj_guest_scope_id j = g \<and> live_until (gj_expires_at j) now))
       (gd_jobs d)"

definition create_guest_job ::
  "(string \<Rightarrow> string) \<Rightarrow> string \<Rightarrow> string \<Rightarrow> string \<Rightarrow> string \<Rightarrow> string \<Rightarrow> int \<Rightarrow> int \<Rightarrow> stamp \<Rightarrow> instant \<Rightarrow> guest_db
    \<Rightarrow> guest_error + (guest_db \<times> guest_job)" where
  "create_guest_job digest job scope token pdf docx pages bytes expires now d =
     (let row = new_guest_job digest job scope token pdf docx pages bytes expires now;
          d' = d\<lparr>gd_jobs := gd_jobs d @ [row]\<rparr>
      in if job \<in> gj_job_id ` set (gd_jobs d) \<or> scope \<notin> gs_guest_scope_id ` set (gd_sessions d)
         then Inl (GuestIntegrityError ''guest_jobs'')
         else case get_guest_job job None now d' of
                None \<Rightarrow> Inl (GuestRuntimeError ''Guest job was not persisted'')
              | Some j \<Rightarrow> Inr (d', j))"

text \<open>
  \<open>claim_guest_job\<close>: the checks are plain reads; only the two updates are in a transaction.
\<close>

definition claim_guest_check ::
  "(string \<Rightarrow> string) \<Rightarrow> string \<Rightarrow> string \<Rightarrow> string \<Rightarrow> instant \<Rightarrow> guest_db \<Rightarrow> guest_error option" where
  "claim_guest_check digest job scope token now d =
     (case tbl_find (\<lambda>g. gs_guest_scope_id g = scope \<and> live_until (gs_expires_at g) now) (gd_sessions d) of
        None \<Rightarrow> Some (GuestPermissionError ''Invalid guest claim'')
      | Some guest \<Rightarrow>
          if gs_claimed_at guest \<noteq> Never then Some (GuestKeyError job)
          else if gs_claim_token_hash guest \<noteq> digest token then Some (GuestPermissionError ''Invalid guest claim'')
          else case tbl_find (\<lambda>j. gj_job_id j = job \<and> gj_guest_scope_id j = scope \<and> gj_claimed_at j = Never
                        \<and> gj_deleted_at j = Never \<and> live_until (gj_expires_at j) now) (gd_jobs d) of
                 None \<Rightarrow> Some (GuestKeyError job)
               | Some _ \<Rightarrow> None)"

definition claim_guest_write :: "string \<Rightarrow> string \<Rightarrow> string \<Rightarrow> instant \<Rightarrow> guest_db \<Rightarrow> guest_db" where
  "claim_guest_write job scope owner now d =
     d\<lparr>gd_jobs := tbl_update (\<lambda>j. gj_job_id j = job)
          (\<lambda>j. j\<lparr>gj_owner_user_id := owner, gj_claimed_at := At now, gj_status := ''claimed''\<rparr>) (gd_jobs d),
       gd_sessions := tbl_update (\<lambda>g. gs_guest_scope_id g = scope) (\<lambda>g. g\<lparr>gs_claimed_at := At now\<rparr>) (gd_sessions d)\<rparr>"

definition claim_guest_job ::
  "(string \<Rightarrow> string) \<Rightarrow> string \<Rightarrow> string \<Rightarrow> string \<Rightarrow> string \<Rightarrow> instant \<Rightarrow> guest_db
    \<Rightarrow> guest_error + (guest_db \<times> guest_job option)" where
  "claim_guest_job digest job scope token owner now d =
     (case claim_guest_check digest job scope token now d of
        Some e \<Rightarrow> Inl e
      | None \<Rightarrow>
          let d' = claim_guest_write job scope owner now d
          in Inr (d', tbl_find (\<lambda>j. gj_job_id j = job) (gd_jobs d')))"

definition expired_unclaimed :: "instant \<Rightarrow> guest_job \<Rightarrow> bool" where
  "expired_unclaimed now j \<longleftrightarrow> gj_deleted_at j = Never \<and> gj_claimed_at j = Never \<and> gj_expires_at j \<le> At now"

definition expire_guest_jobs :: "int \<Rightarrow> instant \<Rightarrow> guest_db \<Rightarrow> guest_db \<times> nat" where
  "expire_guest_jobs offset_seconds now d =
     (let t = now + microseconds offset_seconds
      in (d\<lparr>gd_jobs := tbl_update (expired_unclaimed t) (\<lambda>j. j\<lparr>gj_deleted_at := At t\<rparr>) (gd_jobs d)\<rparr>,
          tbl_count (expired_unclaimed t) (gd_jobs d)))"

definition mark_guest_job_result :: "string \<Rightarrow> string \<Rightarrow> string \<Rightarrow> guest_db \<Rightarrow> guest_db" where
  "mark_guest_job_result job status docx d =
     d\<lparr>gd_jobs := tbl_update (\<lambda>j. gj_job_id j = job \<and> gj_deleted_at j = Never)
          (\<lambda>j. j\<lparr>gj_status := status, gj_stored_docx_path := docx\<rparr>) (gd_jobs d)\<rparr>"

definition consume_guest_result_token ::
  "(string \<Rightarrow> string) \<Rightarrow> string \<Rightarrow> string \<Rightarrow> string \<Rightarrow> instant \<Rightarrow> guest_db \<Rightarrow> guest_db \<times> guest_job option" where
  "consume_guest_result_token digest job scope token now d =
     (case tbl_find (\<lambda>j. gj_job_id j = job \<and> gj_guest_scope_id j = scope \<and> gj_deleted_at j = Never
               \<and> live_until (gj_expires_at j) now \<and> gj_downloaded_at j = Never) (gd_jobs d) of
        None \<Rightarrow> (d, None)
      | Some row \<Rightarrow>
          if gj_result_token_hash row \<noteq> digest token then (d, None)
          else (d\<lparr>gd_jobs := tbl_update (\<lambda>j. gj_job_id j = job) (\<lambda>j. j\<lparr>gj_downloaded_at := At now\<rparr>) (gd_jobs d)\<rparr>,
                Some row))"

text \<open>
  \<open>cleanup_expired_guest_jobs\<close>: the files of expired unclaimed jobs that lie inside the storage root
  (\<open>inside_root\<close>, the resolved path or nothing) are removed, then the rows are marked.
\<close>

definition expired_files :: "(string \<Rightarrow> string option) \<Rightarrow> guest_job \<Rightarrow> string list" where
  "expired_files inside_root j =
     [p. raw \<leftarrow> [gj_stored_pdf_path j, gj_stored_docx_path j], raw \<noteq> [], p \<leftarrow> (case inside_root raw of None \<Rightarrow> [] | Some p \<Rightarrow> [p])]"

fun remove_files :: "string list \<Rightarrow> (string \<rightharpoonup> 'c) \<Rightarrow> (string \<rightharpoonup> 'c) \<times> nat" where
  "remove_files [] fs = (fs, 0)"
| "remove_files (p # ps) fs =
     (if fs p = None then remove_files ps fs
      else let (fs', n) = remove_files ps (fs(p := None)) in (fs', Suc n))"

definition cleanup_expired_guest_jobs ::
  "(string \<Rightarrow> string option) \<Rightarrow> int \<Rightarrow> instant \<Rightarrow> guest_db \<Rightarrow> (string \<rightharpoonup> 'c)
    \<Rightarrow> guest_db \<times> (string \<rightharpoonup> 'c) \<times> nat \<times> nat" where
  "cleanup_expired_guest_jobs inside_root offset_seconds now d fs =
     (let rows = filter (expired_unclaimed (now + microseconds offset_seconds)) (gd_jobs d);
          (fs', removed) = remove_files (concat (map (expired_files inside_root) rows)) fs;
          (d', expired) = expire_guest_jobs offset_seconds now d
      in (d', fs', expired, removed))"

subsection \<open>Quotas\<close>

definition usage_sum :: "string \<Rightarrow> string \<Rightarrow> string \<Rightarrow> instant \<Rightarrow> usage_event list \<Rightarrow> int" where
  "usage_sum scope_type scope endpoint since es =
     sum_list (map ue_amount (filter (\<lambda>e. ue_scope_type e = scope_type \<and> ue_scope_id e = scope
        \<and> ue_endpoint e = endpoint \<and> since \<le> ue_created_at e) es))"

definition consume_quota_since ::
  "instant \<Rightarrow> string \<Rightarrow> string \<Rightarrow> string \<Rightarrow> int \<Rightarrow> instant \<Rightarrow> guest_db \<Rightarrow> guest_db \<times> bool" where
  "consume_quota_since window_start scope_type scope endpoint quota now d =
     (if quota \<le> 0 then (d, True)
      else if quota \<le> usage_sum scope_type scope endpoint window_start (gd_events d) then (d, False)
      else (d\<lparr>gd_events := gd_events d @ [\<lparr>ue_scope_type = scope_type, ue_scope_id = scope,
               ue_endpoint = endpoint, ue_amount = 1, ue_created_at = now\<rparr>]\<rparr>, True))"

definition consume_daily_quota ::
  "string \<Rightarrow> string \<Rightarrow> string \<Rightarrow> int \<Rightarrow> instant \<Rightarrow> guest_db \<Rightarrow> guest_db \<times> bool" where
  "consume_daily_quota scope_type scope endpoint quota now d =
     consume_quota_since (day_start now) scope_type scope endpoint quota now d"

definition consume_window_quota ::
  "string \<Rightarrow> string \<Rightarrow> string \<Rightarrow> int \<Rightarrow> int \<Rightarrow> instant \<Rightarrow> guest_db \<Rightarrow> guest_db \<times> bool" where
  "consume_window_quota scope_type scope endpoint quota window_seconds now d =
     consume_quota_since (now - microseconds window_seconds) scope_type scope endpoint quota now d"

subsection \<open>Steps\<close>

text \<open>
  The transactions on the guest tables with the arguments the server passes. The checks of a claim
  are not part of its transaction, so its write is a step of its own.
\<close>

datatype guest_op =
  GCreateSession int string string string string instant
| GIssueToken string string instant
| GCreateJob string string string string string int int stamp instant
| GClaimWrite string string string instant
| GExpire int instant
| GMarkResult string string string
| GConsumeToken string string string instant
| GConsumeDaily string string string int instant
| GConsumeWindow string string string int int instant

fun guest_step :: "(string \<Rightarrow> string) \<Rightarrow> guest_op \<Rightarrow> guest_db \<Rightarrow> guest_db" where
  "guest_step digest (GCreateSession life ip scope sid csrf now) d =
     (case create_guest_session digest life ip scope sid csrf now d of Inl _ \<Rightarrow> d | Inr d' \<Rightarrow> d')"
| "guest_step digest (GIssueToken scope token now) d = issue_guest_claim_token digest scope token now d"
| "guest_step digest (GCreateJob job scope token pdf docx pages bytes expires now) d =
     (case create_guest_job digest job scope token pdf docx pages bytes expires now d of
        Inl _ \<Rightarrow> d | Inr (d', _) \<Rightarrow> d')"
| "guest_step digest (GClaimWrite job scope owner now) d = claim_guest_write job scope owner now d"
| "guest_step digest (GExpire offset now) d = fst (expire_guest_jobs offset now d)"
| "guest_step digest (GMarkResult job status docx) d = mark_guest_job_result job status docx d"
| "guest_step digest (GConsumeToken job scope token now) d = fst (consume_guest_result_token digest job scope token now d)"
| "guest_step digest (GConsumeDaily ty scope ep quota now) d = fst (consume_daily_quota ty scope ep quota now d)"
| "guest_step digest (GConsumeWindow ty scope ep quota w now) d = fst (consume_window_quota ty scope ep quota w now d)"

definition empty_guest_db :: guest_db where
  "empty_guest_db = \<lparr>gd_sessions = [], gd_jobs = [], gd_events = []\<rparr>"

definition guest_wf :: "guest_db \<Rightarrow> bool" where
  "guest_wf d \<longleftrightarrow> distinct (map gj_job_id (gd_jobs d)) \<and> distinct (map gs_guest_scope_id (gd_sessions d))
     \<and> distinct (map gs_session_id_hash (gd_sessions d)) \<and> (\<forall>e \<in> set (gd_events d). ue_amount e = 1)"

text \<open>Jobs never disappear, and a download mark is never taken back.\<close>

definition downloads_kept :: "guest_db \<Rightarrow> guest_db \<Rightarrow> bool" where
  "downloads_kept d d' \<longleftrightarrow> (\<forall>j \<in> set (gd_jobs d). gj_downloaded_at j \<noteq> Never \<longrightarrow>
     (\<exists>j' \<in> set (gd_jobs d'). gj_job_id j' = gj_job_id j \<and> gj_downloaded_at j' \<noteq> Never))"

lemma keys_update [simp]:
  "map gj_job_id (tbl_update P (\<lambda>j. j\<lparr>gj_deleted_at := a\<rparr>) t) = map gj_job_id t"
  "map gj_job_id (tbl_update P (\<lambda>j. j\<lparr>gj_downloaded_at := a\<rparr>) t) = map gj_job_id t"
  "map gj_job_id (tbl_update P (\<lambda>j. j\<lparr>gj_status := s, gj_stored_docx_path := p\<rparr>) t) = map gj_job_id t"
  "map gj_job_id (tbl_update P (\<lambda>j. j\<lparr>gj_owner_user_id := ow, gj_claimed_at := a, gj_status := s\<rparr>) t) = map gj_job_id t"
  "map gs_guest_scope_id (tbl_update Q (\<lambda>g. g\<lparr>gs_claimed_at := a\<rparr>) u) = map gs_guest_scope_id u"
  "map gs_guest_scope_id (tbl_update Q (\<lambda>g. g\<lparr>gs_claim_token_hash := h\<rparr>) u) = map gs_guest_scope_id u"
  "map gs_session_id_hash (tbl_update Q (\<lambda>g. g\<lparr>gs_claimed_at := a\<rparr>) u) = map gs_session_id_hash u"
  "map gs_session_id_hash (tbl_update Q (\<lambda>g. g\<lparr>gs_claim_token_hash := h\<rparr>) u) = map gs_session_id_hash u"
  by (simp_all add: tbl_update_keys)

lemma create_guest_job_result:
  assumes "create_guest_job digest job scope token pdf docx pages bytes expires now d = Inr (d', j)"
  shows "job \<notin> gj_job_id ` set (gd_jobs d) \<and>
    d' = d\<lparr>gd_jobs := gd_jobs d @ [new_guest_job digest job scope token pdf docx pages bytes expires now]\<rparr>"
  using assms by (auto simp: create_guest_job_def Let_def split: if_splits option.splits)

lemma new_guest_job_id [simp]: "gj_job_id (new_guest_job digest job scope token pdf docx pages bytes expires now) = job"
  by (simp add: new_guest_job_def)

lemma guest_step_wf:
  assumes "guest_wf d"
  shows "guest_wf (guest_step digest x d)"
proof (cases x)
  case (GCreateJob job scope token pdf docx pages bytes expires now)
  then show ?thesis
    using assms create_guest_job_result [of digest job scope token pdf docx pages bytes expires now d]
    by (auto simp: guest_wf_def split: sum.splits)
qed (use assms in \<open>auto simp: guest_wf_def create_guest_session_def issue_guest_claim_token_def claim_guest_write_def
    expire_guest_jobs_def mark_guest_job_result_def consume_guest_result_token_def consume_daily_quota_def
    consume_window_quota_def consume_quota_since_def Let_def split: sum.splits option.splits if_splits\<close>)

lemma downloads_kept_refl: "downloads_kept d d"
  by (auto simp: downloads_kept_def)

lemma downloads_kept_trans: "downloads_kept d e \<Longrightarrow> downloads_kept e f \<Longrightarrow> downloads_kept d f"
  by (fastforce simp: downloads_kept_def)

lemma downloads_kept_jobs: "gd_jobs d' = gd_jobs d @ js \<Longrightarrow> downloads_kept d d'"
  by (auto simp: downloads_kept_def)

lemma downloads_kept_update:
  assumes "gd_jobs d' = tbl_update P f (gd_jobs d)"
    and "\<And>j. gj_job_id (f j) = gj_job_id j" and "\<And>j. gj_downloaded_at j \<noteq> Never \<Longrightarrow> gj_downloaded_at (f j) \<noteq> Never"
  shows "downloads_kept d d'"
  unfolding downloads_kept_def assms(1) set_tbl_update
proof (intro ballI impI)
  fix j
  assume j: "j \<in> set (gd_jobs d)" "gj_downloaded_at j \<noteq> Never"
  show "\<exists>j' \<in> (\<lambda>r. if P r then f r else r) ` set (gd_jobs d).
      gj_job_id j' = gj_job_id j \<and> gj_downloaded_at j' \<noteq> Never"
    by (rule bexI [of _ "if P j then f j else j"]) (use j assms(2,3) in auto)
qed

lemma downloads_kept_step: "downloads_kept d (guest_step digest x d)"
proof (cases x)
  case (GCreateJob job scope token pdf docx pages bytes expires now)
  then show ?thesis
    using create_guest_job_result [of digest job scope token pdf docx pages bytes expires now d]
    by (auto simp: downloads_kept_refl split: sum.splits intro!: downloads_kept_jobs)
next
  case (GClaimWrite job scope owner now)
  show ?thesis unfolding GClaimWrite guest_step.simps
    by (rule downloads_kept_update [where P = "\<lambda>j. gj_job_id j = job" and
        f = "\<lambda>j. j\<lparr>gj_owner_user_id := owner, gj_claimed_at := At now, gj_status := ''claimed''\<rparr>"])
      (simp_all add: claim_guest_write_def)
next
  case (GExpire offset now)
  show ?thesis unfolding GExpire
    by (rule downloads_kept_update [where P = "expired_unclaimed (now + microseconds offset)" and
        f = "\<lambda>j. j\<lparr>gj_deleted_at := At (now + microseconds offset)\<rparr>"])
      (simp_all add: expire_guest_jobs_def Let_def)
next
  case (GMarkResult job status docx)
  show ?thesis unfolding GMarkResult
    by (rule downloads_kept_update [where P = "\<lambda>j. gj_job_id j = job \<and> gj_deleted_at j = Never" and
        f = "\<lambda>j. j\<lparr>gj_status := status, gj_stored_docx_path := docx\<rparr>"])
      (simp_all add: mark_guest_job_result_def)
next
  case (GConsumeToken job scope token now)
  have "downloads_kept d (d\<lparr>gd_jobs := tbl_update (\<lambda>j. gj_job_id j = job) (\<lambda>j. j\<lparr>gj_downloaded_at := At now\<rparr>) (gd_jobs d)\<rparr>)"
    by (rule downloads_kept_update [where P = "\<lambda>j. gj_job_id j = job" and f = "\<lambda>j. j\<lparr>gj_downloaded_at := At now\<rparr>"])
      simp_all
  then show ?thesis
    unfolding GConsumeToken guest_step.simps consume_guest_result_token_def
    by (simp add: downloads_kept_refl split: option.split)
qed (auto simp: create_guest_session_def issue_guest_claim_token_def consume_daily_quota_def consume_window_quota_def
    consume_quota_since_def Let_def split: sum.splits intro!: downloads_kept_jobs [where js = "[]"])

interpretation guest_rows: run_order "guest_step digest" downloads_kept guest_wf for digest
  by unfold_locales (auto intro: guest_step_wf downloads_kept_refl downloads_kept_trans downloads_kept_step)

lemma guest_run_wf: "guest_wf (fold (guest_step digest) ops empty_guest_db)"
  by (rule guest_rows.run_inv) (simp add: guest_wf_def empty_guest_db_def)

text \<open>
  The download token of a guest result works once: after it has been consumed, whatever happens
  next, no token gets that job's result again.
\<close>

theorem result_token_single_use:
  assumes "consume_guest_result_token digest job scope token now (fold (guest_step digest) earlier empty_guest_db)
      = (d1, Some row)"
  shows "consume_guest_result_token digest job scope' token' now' (fold (guest_step digest) later d1)
    = (fold (guest_step digest) later d1, None)"
proof -
  let ?before = "fold (guest_step digest) earlier empty_guest_db" and ?after = "fold (guest_step digest) later d1"
  have row: "row \<in> set (gd_jobs ?before)" "gj_job_id row = job"
    and d1: "d1 = ?before\<lparr>gd_jobs := tbl_update (\<lambda>j. gj_job_id j = job) (\<lambda>j. j\<lparr>gj_downloaded_at := At now\<rparr>) (gd_jobs ?before)\<rparr>"
    using assms unfolding consume_guest_result_token_def
    by (auto split: option.splits if_splits dest!: tbl_find_SomeD)
  have "d1 = guest_step digest (GConsumeToken job scope token now) ?before" using assms by simp
  then have wf1: "guest_wf d1" using guest_run_wf guest_step_wf by metis
  have wf: "guest_wf ?after" using wf1 by (rule guest_rows.run_inv)
  have "row\<lparr>gj_downloaded_at := At now\<rparr> \<in> set (gd_jobs d1)" using row by (force simp: d1 set_tbl_update)
  moreover have "downloads_kept d1 ?after" using wf1 by (rule guest_rows.run_ord)
  ultimately obtain j' where j': "j' \<in> set (gd_jobs ?after)" "gj_job_id j' = job" "gj_downloaded_at j' \<noteq> Never"
    unfolding downloads_kept_def using row(2) by fastforce
  have "\<not> (gj_job_id j = job \<and> gj_downloaded_at j = Never)" if "j \<in> set (gd_jobs ?after)" for j
    using wf that j' distinct_map_key_eq [of gj_job_id "gd_jobs ?after" j j'] by (auto simp: guest_wf_def)
  then have "tbl_find (\<lambda>j. gj_job_id j = job \<and> gj_guest_scope_id j = scope' \<and> gj_deleted_at j = Never
       \<and> live_until (gj_expires_at j) now' \<and> gj_downloaded_at j = Never) (gd_jobs ?after) = None"
    by (auto simp: tbl_find_None)
  then show ?thesis by (simp add: consume_guest_result_token_def)
qed

definition sample_guest_ops :: "guest_op list" where
  "sample_guest_ops = [GCreateSession 3600 ''ip'' ''g1'' ''sid'' ''csrf'' 10,
     GCreateJob ''j1'' ''g1'' ''dl'' ''in.pdf'' ''out.docx'' 2 500 (At 900000) 20, GMarkResult ''j1'' ''completed'' ''out.docx'']"

lemma result_token_single_use_witness:
  "snd (consume_guest_result_token id ''j1'' ''g1'' ''dl'' 30 (fold (guest_step id) sample_guest_ops empty_guest_db)) \<noteq> None
   \<and> snd (consume_guest_result_token id ''j1'' ''g1'' ''dl'' 40
       (fst (consume_guest_result_token id ''j1'' ''g1'' ''dl'' 30 (fold (guest_step id) sample_guest_ops empty_guest_db)))) = None"
proof -
  let ?c = "consume_guest_result_token id ''j1'' ''g1'' ''dl'' 30 (fold (guest_step id) sample_guest_ops empty_guest_db)"
  have "snd ?c \<noteq> None" by code_simp
  then obtain row where c: "?c = (fst ?c, Some row)" by (cases ?c) auto
  show ?thesis
    using c result_token_single_use [OF c, of "''g1''" "''dl''" 40 "[]"] by (metis fold_simps(1) option.distinct(1) snd_conv)
qed

subsection \<open>What a quota promises\<close>

fun usage_key :: "guest_op \<Rightarrow> (string \<times> string \<times> string) option" where
  "usage_key (GConsumeDaily ty scope ep quota now) = Some (ty, scope, ep)"
| "usage_key (GConsumeWindow ty scope ep quota w now) = Some (ty, scope, ep)"
| "usage_key _ = None"

fun usage_time :: "guest_op \<Rightarrow> instant" where
  "usage_time (GConsumeDaily ty scope ep quota now) = now"
| "usage_time (GConsumeWindow ty scope ep quota w now) = now"
| "usage_time _ = 0"

definition usage_times :: "guest_op list \<Rightarrow> instant list" where
  "usage_times ops = map usage_time (filter (\<lambda>x. usage_key x \<noteq> None) ops)"

lemma events_step:
  "gd_events (guest_step digest x d) = gd_events d
    \<or> (\<exists>ty scope ep. usage_key x = Some (ty, scope, ep) \<and> gd_events (guest_step digest x d) = gd_events d @
         [\<lparr>ue_scope_type = ty, ue_scope_id = scope, ue_endpoint = ep, ue_amount = 1, ue_created_at = usage_time x\<rparr>])"
  by (cases x) (auto simp: create_guest_session_def issue_guest_claim_token_def claim_guest_write_def
    expire_guest_jobs_def mark_guest_job_result_def consume_guest_result_token_def consume_daily_quota_def
    consume_window_quota_def consume_quota_since_def Let_def
    split: sum.splits option.splits if_splits dest: create_guest_job_result)

text \<open>
  Both quotas count the events since a point that depends on the clock. The interface is what that
  point satisfies; the bound is proved once.
\<close>

locale usage_window =
  fixes since :: "instant \<Rightarrow> instant"
  assumes since_mono: "s \<le> t \<Longrightarrow> since s \<le> since t"
begin

definition window_ok :: "string \<Rightarrow> string \<Rightarrow> string \<Rightarrow> int \<Rightarrow> usage_event list \<Rightarrow> bool" where
  "window_ok ty scope ep quota es \<longleftrightarrow> (\<forall>t. usage_sum ty scope ep (since t) (filter (\<lambda>e. ue_created_at e \<le> t) es) \<le> quota)"

lemma usage_sum_le:
  assumes "\<forall>e \<in> set es. ue_amount e = 1" and "a \<le> b"
  shows "usage_sum ty scope ep b (filter P es) \<le> usage_sum ty scope ep a es"
  using assms(1)
proof (induction es)
  case (Cons e es)
  then have "usage_sum ty scope ep b (filter P es) \<le> usage_sum ty scope ep a es" by simp
  then show ?case using Cons.prems assms(2) by (auto simp: usage_sum_def)
qed (simp add: usage_sum_def)

lemma granted_keeps:
  assumes ok: "window_ok ty scope ep quota es" and one: "\<forall>e \<in> set es. ue_amount e = 1"
    and past: "\<forall>e \<in> set es. ue_created_at e \<le> now" and free: "usage_sum ty scope ep (since now) es < quota"
  shows "window_ok ty scope ep quota (es @ [\<lparr>ue_scope_type = ty, ue_scope_id = scope, ue_endpoint = ep,
     ue_amount = 1, ue_created_at = now\<rparr>])"
  unfolding window_ok_def
proof
  fix t
  let ?e = "\<lparr>ue_scope_type = ty, ue_scope_id = scope, ue_endpoint = ep, ue_amount = 1, ue_created_at = now\<rparr>"
  show "usage_sum ty scope ep (since t) (filter (\<lambda>e. ue_created_at e \<le> t) (es @ [?e])) \<le> quota"
  proof (cases "now \<le> t")
    case True
    have "usage_sum ty scope ep (since t) (filter (\<lambda>e. ue_created_at e \<le> t) es) \<le> usage_sum ty scope ep (since now) es"
      using one since_mono [OF True] by (rule usage_sum_le)
    then show ?thesis using free by (simp add: usage_sum_def)
  next
    case False
    then show ?thesis using ok by (simp add: window_ok_def)
  qed
qed

lemma other_event_keeps:
  assumes "window_ok ty scope ep quota es" and "(ue_scope_type e, ue_scope_id e, ue_endpoint e) \<noteq> (ty, scope, ep)"
  shows "window_ok ty scope ep quota (es @ [e])"
  using assms by (auto simp: window_ok_def usage_sum_def)

lemma run_window_ok:
  assumes "0 < quota" and "sorted (usage_times ops)"
    and "\<And>x d. x \<in> set ops \<Longrightarrow> usage_key x = Some (ty, scope, ep) \<Longrightarrow>
      guest_step digest x d = fst (consume_quota_since (since (usage_time x)) ty scope ep quota (usage_time x) d)"
  shows "window_ok ty scope ep quota (gd_events (fold (guest_step digest) ops empty_guest_db))
    \<and> (\<forall>e \<in> set (gd_events (fold (guest_step digest) ops empty_guest_db)).
         ue_amount e = 1 \<and> ue_created_at e \<in> set (usage_times ops))"
  using assms(2,3)
proof (induction ops rule: rev_induct)
  case Nil
  then show ?case using assms(1) by (simp add: empty_guest_db_def window_ok_def usage_sum_def)
next
  case (snoc x ops)
  let ?d = "fold (guest_step digest) ops empty_guest_db"
  have sub: "sorted (usage_times ops)" "set (usage_times ops) \<subseteq> set (usage_times (ops @ [x]))"
    and last: "usage_key x \<noteq> None \<Longrightarrow> \<forall>t \<in> set (usage_times ops). t \<le> usage_time x"
      "usage_key x \<noteq> None \<Longrightarrow> usage_time x \<in> set (usage_times (ops @ [x]))"
    using snoc.prems(1) by (auto simp: usage_times_def sorted_append split: if_splits)
  have ok: "window_ok ty scope ep quota (gd_events ?d)"
    and es: "\<forall>e \<in> set (gd_events ?d). ue_amount e = 1 \<and> ue_created_at e \<in> set (usage_times ops)"
    using snoc.IH [OF sub(1)] snoc.prems(2) by auto
  have run: "fold (guest_step digest) (ops @ [x]) empty_guest_db = guest_step digest x ?d" by simp
  from events_step [of digest x ?d] show ?case
  proof (elim disjE exE conjE)
    assume "gd_events (guest_step digest x ?d) = gd_events ?d"
    then show ?thesis unfolding run using ok es sub(2) by auto
  next
    fix ty' scope' ep'
    let ?e = "\<lparr>ue_scope_type = ty', ue_scope_id = scope', ue_endpoint = ep', ue_amount = 1, ue_created_at = usage_time x\<rparr>"
    assume k: "usage_key x = Some (ty', scope', ep')"
      and ev: "gd_events (guest_step digest x ?d) = gd_events ?d @ [?e]"
    have "window_ok ty scope ep quota (gd_events ?d @ [?e])"
    proof (cases "(ty', scope', ep') = (ty, scope, ep)")
      case False
      then show ?thesis using ok by (intro other_event_keeps) auto
    next
      case True
      then have step: "guest_step digest x ?d
          = fst (consume_quota_since (since (usage_time x)) ty scope ep quota (usage_time x) ?d)"
        using snoc.prems(2) k by simp
      have "usage_sum ty scope ep (since (usage_time x)) (gd_events ?d) < quota"
        using ev assms(1) unfolding step consume_quota_since_def by (auto split: if_splits)
      then show ?thesis using True ok es last(1) k by (auto intro!: granted_keeps)
    qed
    then show ?thesis unfolding run ev using es sub(2) last(2) k by auto
  qed
qed

end

interpretation daily: usage_window day_start
proof
  fix s t :: instant
  assume "s \<le> t"
  then have "s div day_length \<le> t div day_length" by (simp add: zdiv_mono1 day_length_def)
  then show "day_start s \<le> day_start t"
    by (simp add: day_start_def minus_mod_eq_mult_div day_length_def)
qed

interpretation sliding: usage_window "\<lambda>t. t - microseconds w" for w
  by unfold_locales simp

text \<open>
  No quota is exceeded: with the clock not running backwards, an endpoint with a daily quota
  serves a scope at most that often on any day, and one with a sliding window at most that often in
  any interval of the window's length, whatever else is recorded in between.
\<close>

theorem usage_quota_bounded:
  assumes "0 < quota" and "sorted (usage_times ops)"
  shows "((\<forall>x \<in> set ops. usage_key x = Some (ty, scope, ep) \<longrightarrow> x = GConsumeDaily ty scope ep quota (usage_time x))
      \<longrightarrow> usage_sum ty scope ep (day_start t)
            (filter (\<lambda>e. ue_created_at e \<le> t) (gd_events (fold (guest_step digest) ops empty_guest_db))) \<le> quota)
    \<and> ((\<forall>x \<in> set ops. usage_key x = Some (ty, scope, ep) \<longrightarrow> x = GConsumeWindow ty scope ep quota w (usage_time x))
      \<longrightarrow> usage_sum ty scope ep (t - microseconds w)
            (filter (\<lambda>e. ue_created_at e \<le> t) (gd_events (fold (guest_step digest) ops empty_guest_db))) \<le> quota)"
proof (intro conjI impI)
  assume all: "\<forall>x \<in> set ops. usage_key x = Some (ty, scope, ep) \<longrightarrow> x = GConsumeDaily ty scope ep quota (usage_time x)"
  have "guest_step digest x d = fst (consume_quota_since (day_start (usage_time x)) ty scope ep quota (usage_time x) d)"
    if "x \<in> set ops" "usage_key x = Some (ty, scope, ep)" for x d
  proof -
    have "x = GConsumeDaily ty scope ep quota (usage_time x)" using all that by blast
    then show ?thesis by (metis consume_daily_quota_def guest_step.simps(8))
  qed
  then show "usage_sum ty scope ep (day_start t)
      (filter (\<lambda>e. ue_created_at e \<le> t) (gd_events (fold (guest_step digest) ops empty_guest_db))) \<le> quota"
    using daily.run_window_ok [OF assms] by (auto simp: daily.window_ok_def)
next
  assume all: "\<forall>x \<in> set ops. usage_key x = Some (ty, scope, ep) \<longrightarrow> x = GConsumeWindow ty scope ep quota w (usage_time x)"
  have "guest_step digest x d = fst (consume_quota_since (usage_time x - microseconds w) ty scope ep quota (usage_time x) d)"
    if "x \<in> set ops" "usage_key x = Some (ty, scope, ep)" for x d
  proof -
    have "x = GConsumeWindow ty scope ep quota w (usage_time x)" using all that by blast
    then show ?thesis by (metis consume_window_quota_def guest_step.simps(9))
  qed
  then show "usage_sum ty scope ep (t - microseconds w)
      (filter (\<lambda>e. ue_created_at e \<le> t) (gd_events (fold (guest_step digest) ops empty_guest_db))) \<le> quota"
    using sliding.run_window_ok [OF assms] by (auto simp: sliding.window_ok_def)
qed

lemma usage_quota_bounded_witness:
  "usage_sum ''user'' ''u'' ''up'' (100 - microseconds 60) (filter (\<lambda>e. ue_created_at e \<le> 100)
     (gd_events (fold (guest_step id) (replicate 3 (GConsumeWindow ''user'' ''u'' ''up'' 2 60 50)) empty_guest_db))) \<le> 2"
proof -
  let ?ops = "replicate 3 (GConsumeWindow ''user'' ''u'' ''up'' 2 60 50)"
  have "sorted (usage_times ?ops)" by code_simp
  from conjunct2 [OF usage_quota_bounded [of 2, OF _ this, of "''user''" "''u''" "''up''" 100 id 60]]
  show ?thesis by simp
qed

end
