(* ===== verification/Worker_Api.thy ===== *)
theory Worker_Api
  imports Conversions Guest_Jobs
begin

text \<open>
  The handlers of \<open>pdfword/worker_api.py\<close> that move jobs: the internal API of the workers (start,
  heartbeat, result, failure), the recovery of abandoned jobs, the users' retry, cancel and delete, the
  guests' view, download and claim, and the re-dispatch of \<open>maintenance.py\<close>. A handler is a function of
  the server's state; it is composed of the transactions of Conversions and Guest_Jobs and of file
  operations, in the order of the code. Queue, clock, archive validation, path resolution and number
  parsing are fields of \<open>server_env\<close>.
\<close>

subsection \<open>State and environment\<close>

record server =
  sv_rows :: conversions
  sv_files :: "string \<rightharpoonup> string"    \<comment> \<open>contents of the stored results, by resolved path\<close>
  sv_parts :: "string list"        \<comment> \<open>temporary \<open>.docx.part\<close> files left behind\<close>
  sv_guest :: guest_db

record server_env =
  se_now :: instant
  se_token :: string                         \<comment> \<open>\<open>uuid4().hex\<close> of this request\<close>
  se_resolve :: "string \<Rightarrow> string option"     \<comment> \<open>the path inside the storage root, or nothing\<close>
  se_valid_archive :: "string \<Rightarrow> bool"
  se_parse_float :: "string \<Rightarrow> score option"
  se_max_result_bytes :: nat
  se_replace_ok :: bool                      \<comment> \<open>whether \<open>os.replace\<close> succeeds\<close>
  se_enqueue :: "string \<Rightarrow> string option"     \<comment> \<open>the queue's job id, or an exception\<close>
  se_sanitize :: "string \<Rightarrow> string"
  se_digest :: "string \<Rightarrow> string"
  se_finalizing_stale :: "string option"     \<comment> \<open>\<open>CLOUDA_FINALIZING_STALE_SECONDS\<close>\<close>
  se_processing_stale :: "string option"     \<comment> \<open>\<open>CLOUDA_PROCESSING_STALE_SECONDS\<close>\<close>

datatype 'a response = Reply 'a | Http int string

definition internal_error :: "'a response" where
  "internal_error = Http 500 ''Internal Server Error''"

subsection \<open>Validation\<close>

definition name_char :: "char \<Rightarrow> bool" where
  "name_char c = (let n = (of_char c :: nat) in (48 \<le> n \<and> n \<le> 57) \<or> (65 \<le> n \<and> n \<le> 90) \<or> (97 \<le> n \<and> n \<le> 122))"

definition job_id_ok :: "string \<Rightarrow> bool" where
  "job_id_ok v \<longleftrightarrow> 1 \<le> length v \<and> length v \<le> 64 \<and> list_all (\<lambda>c. name_char c \<or> c \<in> {CHR ''_'', CHR ''-''}) v"

definition worker_name_ok :: "string \<Rightarrow> bool" where
  "worker_name_ok v \<longleftrightarrow> (case v of [] \<Rightarrow> False
     | c # cs \<Rightarrow> name_char c \<and> length cs \<le> 119
         \<and> list_all (\<lambda>c. name_char c \<or> c \<in> {CHR ''_'', CHR ''.'', CHR ''-''}) cs)"

definition hex_char :: "char \<Rightarrow> bool" where
  "hex_char c = (let n = (of_char c :: nat) in (48 \<le> n \<and> n \<le> 57) \<or> (65 \<le> n \<and> n \<le> 70) \<or> (97 \<le> n \<and> n \<le> 102))"

definition claim_token_ok :: "string \<Rightarrow> bool" where
  "claim_token_ok v \<longleftrightarrow> length v = 32 \<and> list_all hex_char v"

definition worker_message_ok :: "string \<Rightarrow> string option \<Rightarrow> bool" where
  "worker_message_ok worker token \<longleftrightarrow> worker_name_ok worker \<and> (case token of None \<Rightarrow> True | Some k \<Rightarrow> claim_token_ok k)"

text \<open>\<open>_get_job\<close>.\<close>

definition get_job_row :: "string \<Rightarrow> conversions \<Rightarrow> conversion response" where
  "get_job_row job t =
     (if \<not> job_id_ok job then Http 400 ''Invalid job ID''
      else case get_conversion job t of None \<Rightarrow> Http 404 ''Job not found'' | Some r \<Rightarrow> Reply r)"

text \<open>\<open>float(value)\<close>: a number, a \<open>TypeError\<close> or \<open>ValueError\<close>, or an \<open>OverflowError\<close>.\<close>

datatype float_result = Number score | NotANumber | TooLarge

definition float_of :: "(string \<Rightarrow> score option) \<Rightarrow> json \<Rightarrow> float_result" where
  "float_of parse v =
     (case v of
        JInt n \<Rightarrow> if 2 ^ 1024 - 2 ^ 970 \<le> \<bar>n\<bar> then TooLarge else Number (Finite (of_int n))
      | JBool b \<Rightarrow> Number (Finite (if b then 1 else 0))
      | JFloat x \<Rightarrow> Number (Finite x)
      | JStr s \<Rightarrow> (case parse s of Some x \<Rightarrow> Number x | None \<Rightarrow> NotANumber)
      | _ \<Rightarrow> NotANumber)"

fun at_least_90 :: "score \<Rightarrow> bool" where
  "at_least_90 (Finite x) = (90 \<le> x)"
| "at_least_90 PosInf = True"
| "at_least_90 NegInf = False"
| "at_least_90 NaN = False"

text \<open>The handler has converted the score before, so an overflow cannot arise here.\<close>

definition quality_allows_completed :: "(string \<Rightarrow> score option) \<Rightarrow> (string \<times> json) list \<Rightarrow> bool" where
  "quality_allows_completed parse values =
     (case obj_get values ''text_quality_score'' of
        JNull \<Rightarrow> False
      | v \<Rightarrow> (case float_of parse v of Number x \<Rightarrow> at_least_90 x | _ \<Rightarrow> False))"

definition starts_with_pk :: "string \<Rightarrow> bool" where
  "starts_with_pk c \<longleftrightarrow> take 2 c = ''PK''"

text \<open>\<open>_validate_docx_file\<close> on a file that is there.\<close>

definition docx_file_ok :: "server_env \<Rightarrow> string \<Rightarrow> bool" where
  "docx_file_ok env c \<longleftrightarrow> 4 \<le> length c \<and> starts_with_pk c \<and> se_valid_archive env c"

subsection \<open>Stale jobs and their recovery\<close>

definition stale_seconds :: "string option \<Rightarrow> int \<Rightarrow> int" where
  "stale_seconds v d = (case v of None \<Rightarrow> d | Some s \<Rightarrow> (case py_int s of Some n \<Rightarrow> max 1 n | None \<Rightarrow> d))"

definition older_than :: "stamp \<Rightarrow> int \<Rightarrow> instant \<Rightarrow> bool" where
  "older_than s secs now = (case s of Never \<Rightarrow> False | At t \<Rightarrow> microseconds secs < now - t)"

definition finalizing_is_stale :: "server_env \<Rightarrow> conversion \<Rightarrow> bool" where
  "finalizing_is_stale env r = older_than (cv_updated_at r) (stale_seconds (se_finalizing_stale env) 300) (se_now env)"

definition processing_is_stale :: "server_env \<Rightarrow> conversion \<Rightarrow> bool" where
  "processing_is_stale env r =
     older_than (if cv_last_heartbeat r = Never then cv_updated_at r else cv_last_heartbeat r)
       (stale_seconds (se_processing_stale env) 900) (se_now env)"

definition reread :: "string \<Rightarrow> server \<Rightarrow> server \<times> conversion response" where
  "reread job s = (s, case get_conversion job (sv_rows s) of None \<Rightarrow> Http 404 ''Job not found'' | Some r \<Rightarrow> Reply r)"

definition recover_stale_processing_job :: "server_env \<Rightarrow> conversion \<Rightarrow> server \<Rightarrow> server \<times> conversion response" where
  "recover_stale_processing_job env row s =
     (if cv_status row \<noteq> ''processing'' \<or> \<not> processing_is_stale env row then (s, Reply row)
      else let (t, _) = abandon_stale_processing (cv_job_id row) (cv_updated_at row) (se_now env) (sv_rows s)
           in reread (cv_job_id row) (s\<lparr>sv_rows := t\<rparr>))"

definition mark_guest :: "conversion \<Rightarrow> string \<Rightarrow> string \<Rightarrow> server \<Rightarrow> server" where
  "mark_guest row status path s =
     (if cv_guest_scope_id row = [] then s
      else s\<lparr>sv_guest := mark_guest_job_result (cv_job_id row) status path (sv_guest s)\<rparr>)"

definition recover_finalizing_result :: "server_env \<Rightarrow> conversion \<Rightarrow> server \<Rightarrow> server \<times> conversion response" where
  "recover_finalizing_result env row s =
     (let job = cv_job_id row; target = cv_intended_final_status row;
          abandon =
            (if finalizing_is_stale env row
             then let (t, _) = abandon_conversion_finalization job (cv_updated_at row) (se_now env) (sv_rows s)
                  in reread job (s\<lparr>sv_rows := t\<rparr>)
             else (s, Reply row))
      in if cv_status row \<noteq> ''finalizing'' then (s, Reply row)
         else if target \<notin> {''completed'', ''manual_review''} then (s, Http 503 ''Result finalization is incomplete'')
         else case se_resolve env (cv_stored_docx_path row) of
           None \<Rightarrow> (s, Http 403 ''Stored path is outside storage root'')
         | Some path \<Rightarrow>
             (case sv_files s path of
                None \<Rightarrow> abandon
              | Some content \<Rightarrow>
                  if \<not> docx_file_ok env content
                  then (if finalizing_is_stale env row then abandon else (s, Http 503 ''Result finalization is incomplete''))
                  else (case complete_conversion_finalization job target
                               (case cv_worker_name row of None \<Rightarrow> [] | Some w \<Rightarrow> w)
                               (if cv_claim_token row = [] then None else Some (cv_claim_token row))
                               (se_now env) (sv_rows s) of
                          Inl (DbValueError _) \<Rightarrow> reread job s
                        | Inl _ \<Rightarrow> (s, Http 503 ''Result finalization is temporarily unavailable'')
                        | Inr (t, updated) \<Rightarrow>
                            (mark_guest updated (cv_status updated) path (s\<lparr>sv_rows := t\<rparr>), Reply updated))))"

subsection \<open>The workers' requests\<close>

text \<open>What a refused transition is answered with where the handler turns \<open>ValueError\<close> into a 409.\<close>

fun conflict :: "db_error \<Rightarrow> 'a response" where
  "conflict (DbValueError m) = Http 409 m"
| "conflict _ = internal_error"

text \<open>The last step of \<open>start_job\<close>: the claim, then the job as it is in the table.\<close>

definition claim_job :: "server_env \<Rightarrow> string \<Rightarrow> string \<Rightarrow> server \<Rightarrow> server \<times> conversion response" where
  "claim_job env job worker s =
     (case transition_conversion job ''processing'' (Some worker) None [] (se_now env) (se_token env) (sv_rows s) of
        Inl e \<Rightarrow> (s, conflict e)
      | Inr (t, _) \<Rightarrow> (s\<lparr>sv_rows := t\<rparr>, get_job_row job t))"

text \<open>\<open>start_job\<close> after the recovery of a finalizing job.\<close>

definition start_recovered ::
  "server_env \<Rightarrow> string \<Rightarrow> string \<Rightarrow> string option \<Rightarrow> conversion \<Rightarrow> server \<Rightarrow> server \<times> conversion response" where
  "start_recovered env job worker token row s =
     (if cv_status row \<in> {''completed'', ''manual_review''} then (s, Http 409 ''Job is already final'')
      else if cv_status row = ''finalizing'' then (s, Http 409 ''Job finalization is in progress'')
      else if cv_status row = ''cancelled'' then (s, Http 409 ''Job was cancelled by its owner'')
      else if cv_status row = ''failed''
      then (case transition_conversion job ''pending'' None None [] (se_now env) [] (sv_rows s) of
              Inl _ \<Rightarrow> (s, internal_error)
            | Inr (t, _) \<Rightarrow> claim_job env job worker (s\<lparr>sv_rows := t\<rparr>))
      else if cv_status row = ''processing''
      then (if claim_matches row worker token
            then (case heartbeat job worker (se_now env) (sv_rows s) of
                    Inl _ \<Rightarrow> (s, internal_error)
                  | Inr t \<Rightarrow> (s\<lparr>sv_rows := t\<rparr>, get_job_row job t))
            else (case recover_stale_processing_job env row s of
                    (s1, Http c d) \<Rightarrow> (s1, Http c d)
                  | (s1, Reply row1) \<Rightarrow>
                      if cv_status row1 \<noteq> ''pending'' then (s1, Http 409 ''Job is owned by another worker'')
                      else claim_job env job worker s1))
      else claim_job env job worker s)"

definition start_job :: "server_env \<Rightarrow> string \<Rightarrow> string \<Rightarrow> string option \<Rightarrow> server \<Rightarrow> server \<times> conversion response" where
  "start_job env job worker token s =
     (if \<not> worker_message_ok worker token then (s, Http 422 ''Unprocessable Entity'')
      else case get_job_row job (sv_rows s) of
        Http c d \<Rightarrow> (s, Http c d)
      | Reply row0 \<Rightarrow>
          (case recover_finalizing_result env row0 s of
             (s1, Http c d) \<Rightarrow> (s1, Http c d)
           | (s1, Reply row) \<Rightarrow> start_recovered env job worker token row s1))"

definition heartbeat_job :: "server_env \<Rightarrow> string \<Rightarrow> string \<Rightarrow> string option \<Rightarrow> server \<Rightarrow> server \<times> string response" where
  "heartbeat_job env job worker token s =
     (if \<not> worker_message_ok worker token then (s, Http 422 ''Unprocessable Entity'')
      else case get_job_row job (sv_rows s) of
        Http c d \<Rightarrow> (s, Http c d)
      | Reply row \<Rightarrow>
          if \<not> claim_matches row worker token then (s, Http 409 ''Worker does not own this job'')
          else (case heartbeat job worker (se_now env) (sv_rows s) of
                  Inl e \<Rightarrow> (s, conflict e)
                | Inr t \<Rightarrow> (s\<lparr>sv_rows := t\<rparr>, Reply ''ok'')))"

text \<open>
  \<open>fail_job\<close> reads the row, checks the claim on what it has read, and then changes the row in a
  transaction that checks the transition only.
\<close>

datatype fail_check = FailAnswer "string response" | FailWrite

definition fail_check_row :: "string \<Rightarrow> string option \<Rightarrow> conversion \<Rightarrow> fail_check" where
  "fail_check_row worker token row =
     (if cv_status row = ''failed'' then FailAnswer (Reply ''failed'')
      else if cv_status row \<in> {''completed'', ''manual_review''} then FailAnswer (Reply (cv_status row))
      else if cv_status row \<noteq> ''processing'' \<or> \<not> claim_matches row worker token
      then FailAnswer (Http 409 ''Worker does not own this processing job'')
      else FailWrite)"

definition fail_write :: "server_env \<Rightarrow> string \<Rightarrow> string \<Rightarrow> string \<Rightarrow> server \<Rightarrow> server \<times> string response" where
  "fail_write env job worker error s =
     (case transition_conversion job ''failed'' (Some worker)
             (Some (take 500 (if se_sanitize env error = [] then ''Worker failed'' else se_sanitize env error)))
             [] (se_now env) [] (sv_rows s) of
        Inl _ \<Rightarrow> (s, internal_error)
      | Inr (t, _) \<Rightarrow> (s\<lparr>sv_rows := t\<rparr>, Reply ''failed''))"

definition fail_job ::
  "server_env \<Rightarrow> string \<Rightarrow> string \<Rightarrow> string option \<Rightarrow> string \<Rightarrow> server \<Rightarrow> server \<times> string response" where
  "fail_job env job worker token error s =
     (if \<not> worker_message_ok worker token \<or> error = [] \<or> 2000 < length error then (s, Http 422 ''Unprocessable Entity'')
      else case get_job_row job (sv_rows s) of
        Http c d \<Rightarrow> (s, Http c d)
      | Reply row \<Rightarrow>
          (case fail_check_row worker token row of
             FailAnswer a \<Rightarrow> (s, a)
           | FailWrite \<Rightarrow> fail_write env job worker error s))"

subsection \<open>The result of a worker\<close>

record upload =
  up_suffix :: string             \<comment> \<open>lower-case suffix of the file name, empty without a name\<close>
  up_content :: string
  up_metadata :: "json option"    \<comment> \<open>nothing when \<open>json.loads\<close> fails\<close>

text \<open>One numeric field of the metadata: absent, a number, or the answer it is refused with.\<close>

definition numeric_field :: "server_env \<Rightarrow> (string \<times> json) list \<Rightarrow> string \<Rightarrow> string response + score option" where
  "numeric_field env values key =
     (case obj_get values key of
        JNull \<Rightarrow> Inr None
      | v \<Rightarrow> (case float_of (se_parse_float env) v of
            Number x \<Rightarrow> Inr (Some x)
          | NotANumber \<Rightarrow> Inl (Http 400 (''Invalid result metadata: '' @ key))
          | TooLarge \<Rightarrow> Inl internal_error))"

definition text_field :: "(string \<times> json) list \<Rightarrow> string \<Rightarrow> string response + string option" where
  "text_field values key =
     (case obj_get values key of
        JNull \<Rightarrow> Inr None
      | JStr x \<Rightarrow> Inr (Some x)
      | _ \<Rightarrow> Inl (Http 400 (''Invalid result metadata: '' @ key)))"

record result_values =
  rv_status :: string
  rv_forced_review :: bool
  rv_cost_limit_reached :: bool
  rv_cells :: "cell list"         \<comment> \<open>the result columns besides the path\<close>

definition and_then :: "'e + 'a \<Rightarrow> ('a \<Rightarrow> 'e + 'b) \<Rightarrow> 'e + 'b" where
  "and_then x f = (case x of Inl e \<Rightarrow> Inl e | Inr a \<Rightarrow> f a)"

definition parse_result :: "server_env \<Rightarrow> json option \<Rightarrow> string response + result_values" where
  "parse_result env metadata =
     (case metadata of
        None \<Rightarrow> Inl (Http 400 ''Invalid result metadata'')
      | Some (JObj values) \<Rightarrow>
          (case obj_get values ''status'' of
             JList _ \<Rightarrow> Inl internal_error
           | JObj _ \<Rightarrow> Inl internal_error
           | JStr target \<Rightarrow>
               if target \<notin> {''completed'', ''manual_review''} then Inl (Http 400 ''Invalid final status'')
               else and_then (numeric_field env values ''text_quality_score'') (\<lambda>text.
                    and_then (numeric_field env values ''layout_quality_score'') (\<lambda>layout.
                    and_then (numeric_field env values ''final_quality_score'') (\<lambda>final.
                    and_then (numeric_field env values ''processing_time'') (\<lambda>time.
                    and_then (text_field values ''file_type'') (\<lambda>file_type.
                    and_then (text_field values ''winning_engine'') (\<lambda>engine.
                    let forced = (target = ''completed'' \<and> \<not> quality_allows_completed (se_parse_float env) values)
                    in Inr \<lparr>rv_status = (if forced then ''manual_review'' else target), rv_forced_review = forced,
                         rv_cost_limit_reached = truthy (obj_get values ''cost_limit_reached''),
                         rv_cells = [FileType file_type, TextQuality text, LayoutQuality layout, FinalQuality final,
                           WinningEngine engine, ProcessingTime (case time of None \<Rightarrow> Finite 0 | Some x \<Rightarrow> x)]\<rparr>))))))
           | _ \<Rightarrow> Inl (Http 400 ''Invalid final status''))
      | Some _ \<Rightarrow> Inl internal_error)"

definition result_message :: "result_values \<Rightarrow> string option" where
  "result_message rv =
     (if rv_cost_limit_reached rv
      then Some ''Cloud cost limit reached; best available result requires manual review.''
      else if rv_forced_review rv
      then Some ''Result quality is below the 90% acceptance gate or is indeterminate.''
      else None)"

text \<open>From the temporary file on: finalization in two steps around \<open>os.replace\<close>.\<close>

definition finalize_upload ::
  "server_env \<Rightarrow> string \<Rightarrow> string \<Rightarrow> string option \<Rightarrow> string \<Rightarrow> string \<Rightarrow> result_values \<Rightarrow> server
    \<Rightarrow> server \<times> string response" where
  "finalize_upload env job worker token path content rv s =
     (case prepare_conversion_finalization job (rv_status rv) worker token (result_message rv)
             (StoredDocx path # rv_cells rv) (se_now env) (sv_rows s) of
        Inl (DbValueError m) \<Rightarrow> (s, Http 409 m)
      | Inl _ \<Rightarrow> (s\<lparr>sv_parts := sv_parts s @ [content]\<rparr>, internal_error)
      | Inr (t, prepared) \<Rightarrow>
          if \<not> se_replace_ok env
          then (s\<lparr>sv_rows := rollback_conversion_finalization job worker token (se_now env) t\<rparr>,
                Http 503 ''Result finalization is temporarily unavailable'')
          else
            let s1 = s\<lparr>sv_rows := t, sv_files := (sv_files s)(path \<mapsto> content)\<rparr>
            in case complete_conversion_finalization job (rv_status rv) worker token (se_now env) t of
                 Inl (DbValueError m) \<Rightarrow> (s1, Http 409 m)
               | Inl _ \<Rightarrow> (s1, Http 503 ''Result finalization is temporarily unavailable'')
               | Inr (t', updated) \<Rightarrow>
                   (mark_guest prepared (cv_status updated) path (s1\<lparr>sv_rows := t'\<rparr>), Reply (cv_status updated)))"

definition upload_result ::
  "server_env \<Rightarrow> string \<Rightarrow> string \<Rightarrow> string option \<Rightarrow> upload \<Rightarrow> server \<Rightarrow> server \<times> string response" where
  "upload_result env job worker token up s =
     (let content = up_content up in
      if length worker < 1 \<or> 120 < length worker \<or> (case token of None \<Rightarrow> False | Some k \<Rightarrow> length k \<noteq> 32)
      then (s, Http 422 ''Unprocessable Entity'')
      else if \<not> worker_name_ok worker then (s, Http 400 ''Invalid worker name'')
      else if \<not> worker_message_ok worker token then (s, Http 400 ''Invalid claim token'')
      else case get_job_row job (sv_rows s) of
        Http c d \<Rightarrow> (s, Http c d)
      | Reply row \<Rightarrow>
          if cv_status row \<in> {''completed'', ''manual_review''} then (s, Http 409 ''Job is already final'')
          else if cv_status row \<noteq> ''processing'' \<or> \<not> claim_matches row worker token
          then (s, Http 409 ''Worker does not own this processing job'')
          else if up_suffix up \<noteq> ''.docx'' then (s, Http 400 ''Only DOCX results are accepted'')
          else case parse_result env (up_metadata up) of
            Inl r \<Rightarrow> (s, r)
          | Inr rv \<Rightarrow>
              (case se_resolve env (cv_stored_docx_path row) of
                 None \<Rightarrow> (s, Http 403 ''Stored path is outside storage root'')
               | Some path \<Rightarrow>
                   if se_max_result_bytes env < length content then (s, Http 413 ''Result is too large'')
                   else if length content < 4 \<or> \<not> starts_with_pk content then (s, Http 400 ''Invalid DOCX content'')
                   else if \<not> se_valid_archive env content then (s, Http 400 ''Unsafe DOCX archive'')
                   else finalize_upload env job worker token path content rv s))"

subsection \<open>The owners' requests and the queue\<close>

definition dispatch_conversion_job :: "server_env \<Rightarrow> string \<Rightarrow> conversions \<Rightarrow> conversions \<times> string" where
  "dispatch_conversion_job env job t =
     (case se_enqueue env job of
        None \<Rightarrow> (t, ''dispatch_deferred'')
      | Some rq \<Rightarrow>
          (case get_conversion job t of
             None \<Rightarrow> (t, ''queued'')
           | Some row \<Rightarrow>
               (case update_conversion (cv_id row) [RqJobId rq] t of
                  Inl _ \<Rightarrow> (t, ''queued'')
                | Inr t' \<Rightarrow> (t', ''queued''))))"

text \<open>\<open>re_dispatch_deferred_conversions\<close>: the pending rows are read once, then offered one by one.\<close>

fun re_dispatch :: "server_env \<Rightarrow> conversion list \<Rightarrow> conversions \<Rightarrow> nat \<Rightarrow> conversions \<times> nat" where
  "re_dispatch env [] t n = (t, n)"
| "re_dispatch env (r # rs) t n =
     (if cv_rq_job_id r \<noteq> [] then re_dispatch env rs t n
      else let (t', status) = dispatch_conversion_job env (cv_job_id r) t
           in re_dispatch env rs t' (if status = ''queued'' then n + 1 else n))"

definition re_dispatch_deferred_conversions :: "server_env \<Rightarrow> conversions \<Rightarrow> conversions \<times> nat" where
  "re_dispatch_deferred_conversions env t = re_dispatch env (list_pending_conversions t) t 0"

text \<open>\<open>run_maintenance_cycle\<close>: the queue, then the expired guest jobs and their files.\<close>

definition run_maintenance_cycle :: "server_env \<Rightarrow> server \<Rightarrow> server \<times> nat \<times> nat \<times> nat" where
  "run_maintenance_cycle env s =
     (let (t, dispatched) = re_dispatch_deferred_conversions env (sv_rows s);
          (g, fs, expired, removed) =
            cleanup_expired_guest_jobs (se_resolve env) 0 (se_now env) (sv_guest s) (sv_files s)
      in (s\<lparr>sv_rows := t, sv_guest := g, sv_files := fs\<rparr>, dispatched, expired, removed))"

definition owner_row :: "string \<Rightarrow> string \<Rightarrow> conversions \<Rightarrow> conversion response" where
  "owner_row job user t =
     (if \<not> job_id_ok job then Http 400 ''Invalid job ID''
      else case get_owner_conversion job user t of None \<Rightarrow> Http 404 ''Document not found'' | Some r \<Rightarrow> Reply r)"

definition retry_user_document :: "server_env \<Rightarrow> string \<Rightarrow> string \<Rightarrow> server \<Rightarrow> server \<times> string response" where
  "retry_user_document env job user s =
     (case owner_row job user (sv_rows s) of
        Http c d \<Rightarrow> (s, Http c d)
      | Reply row \<Rightarrow>
          if cv_status row \<notin> {''failed'', ''cancelled''} then (s, Http 409 ''Document cannot be retried'')
          else case transition_conversion job ''pending'' None None [] (se_now env) [] (sv_rows s) of
            Inl _ \<Rightarrow> (s, internal_error)
          | Inr (t, _) \<Rightarrow>
              (case update_conversion (cv_id row) [RqJobId []] t of
                 Inl _ \<Rightarrow> (s\<lparr>sv_rows := t\<rparr>, internal_error)
               | Inr t1 \<Rightarrow> (s\<lparr>sv_rows := fst (dispatch_conversion_job env job t1)\<rparr>, Reply ''pending'')))"

definition cancel_user_document :: "server_env \<Rightarrow> string \<Rightarrow> string \<Rightarrow> server \<Rightarrow> server \<times> string response" where
  "cancel_user_document env job user s =
     (case owner_row job user (sv_rows s) of
        Http c d \<Rightarrow> (s, Http c d)
      | Reply row \<Rightarrow>
          (case transition_conversion job ''cancelled'' None None [] (se_now env) [] (sv_rows s) of
             Inl e \<Rightarrow> (s, conflict e)
           | Inr (t, updated) \<Rightarrow> (s\<lparr>sv_rows := t\<rparr>, Reply (cv_status updated))))"

definition delete_user_document :: "server_env \<Rightarrow> string \<Rightarrow> string \<Rightarrow> server \<Rightarrow> server \<times> string response" where
  "delete_user_document env job user s =
     (case owner_row job user (sv_rows s) of
        Http c d \<Rightarrow> (s, Http c d)
      | Reply row \<Rightarrow>
          (let (t, found) = hide_owner_conversion job user (se_now env) (sv_rows s)
           in (s\<lparr>sv_rows := t\<rparr>, if found then Reply ''deleted'' else Http 404 ''Document not found'')))"

definition download_user_document :: "server_env \<Rightarrow> string \<Rightarrow> string \<Rightarrow> server \<Rightarrow> string response" where
  "download_user_document env job user s =
     (case owner_row job user (sv_rows s) of
        Http c d \<Rightarrow> Http c d
      | Reply row \<Rightarrow>
          if cv_stored_docx_path row = [] then Http 404 ''Result not found''
          else case se_resolve env (cv_stored_docx_path row) of
            None \<Rightarrow> Http 403 ''Stored path is outside storage root''
          | Some path \<Rightarrow> (case sv_files s path of None \<Rightarrow> Http 404 ''Result not found'' | Some c \<Rightarrow> Reply c))"

subsection \<open>The guests' requests\<close>

text \<open>\<open>get_guest_job\<close> (the view) and \<open>download_guest_result\<close> recover a finalizing job first.\<close>

definition guest_recovered ::
  "server_env \<Rightarrow> string \<Rightarrow> server \<Rightarrow> server \<times> conversion option response" where
  "guest_recovered env job s =
     (case get_conversion job (sv_rows s) of
        None \<Rightarrow> (s, Reply None)
      | Some conversion \<Rightarrow>
          (case recover_finalizing_result env conversion s of
             (s1, Http c d) \<Rightarrow> (s1, Http c d)
           | (s1, Reply r) \<Rightarrow> (s1, Reply (Some r))))"

definition view_guest_job :: "server_env \<Rightarrow> string \<Rightarrow> string \<Rightarrow> server \<Rightarrow> server \<times> string response" where
  "view_guest_job env job scope s =
     (if \<not> job_id_ok job then (s, Http 400 ''Invalid job ID'')
      else case get_guest_job job (Some scope) (se_now env) (sv_guest s) of
        None \<Rightarrow> (s, Http 404 ''Guest job not found'')
      | Some row \<Rightarrow>
          (case guest_recovered env job s of
             (s1, Http c d) \<Rightarrow> (s1, Http c d)
           | (s1, Reply conversion) \<Rightarrow>
               (s1, Reply (case conversion of Some r \<Rightarrow> cv_status r | None \<Rightarrow> gj_status row))))"

definition download_guest_result ::
  "server_env \<Rightarrow> string \<Rightarrow> string \<Rightarrow> string \<Rightarrow> server \<Rightarrow> server \<times> string response" where
  "download_guest_result env job scope token s =
     (if \<not> job_id_ok job then (s, Http 400 ''Invalid job ID'')
      else case get_guest_job job (Some scope) (se_now env) (sv_guest s) of
        None \<Rightarrow> (s, Http 404 ''Guest result not found'')
      | Some row \<Rightarrow>
          (case guest_recovered env job s of
             (s1, Http c d) \<Rightarrow> (s1, Http c d)
           | (s1, Reply None) \<Rightarrow> (s1, Http 404 ''Guest result not found'')
           | (s1, Reply (Some conversion)) \<Rightarrow>
               if cv_status conversion \<noteq> ''completed'' then (s1, Http 404 ''Guest result not found'')
               else case se_resolve env (if cv_stored_docx_path conversion = [] then gj_stored_docx_path row
                                         else cv_stored_docx_path conversion) of
                 None \<Rightarrow> (s1, Http 403 ''Stored path is outside storage root'')
               | Some path \<Rightarrow>
                   (case sv_files s1 path of
                      None \<Rightarrow> (s1, Http 404 ''Guest result not found'')
                    | Some content \<Rightarrow>
                        (let (g, consumed) = consume_guest_result_token (se_digest env) job scope token (se_now env) (sv_guest s1)
                         in (s1\<lparr>sv_guest := g\<rparr>,
                             if consumed = None then Http 404 ''Guest result not found'' else Reply content)))))"

definition guest_claim ::
  "server_env \<Rightarrow> string \<Rightarrow> string \<Rightarrow> string \<Rightarrow> string \<Rightarrow> server \<Rightarrow> server \<times> string response" where
  "guest_claim env job scope token user s =
     (case claim_guest_job (se_digest env) job scope token user (se_now env) (sv_guest s) of
        Inl (GuestPermissionError _) \<Rightarrow> (s, Http 403 ''Invalid guest claim'')
      | Inl (GuestKeyError _) \<Rightarrow> (s, Http 409 ''Guest job cannot be claimed'')
      | Inl _ \<Rightarrow> (s, internal_error)
      | Inr (g, row) \<Rightarrow> (s\<lparr>sv_guest := g\<rparr>, case row of None \<Rightarrow> internal_error | Some r \<Rightarrow> Reply (gj_owner_user_id r)))"

text \<open>The records a guest's trial and a user's upload leave: both start as pending jobs without a queue id.\<close>

definition create_user_document_record ::
  "server_env \<Rightarrow> string \<Rightarrow> string \<Rightarrow> string \<Rightarrow> string \<Rightarrow> server \<Rightarrow> server \<times> conversion response" where
  "create_user_document_record env job email user docx s =
     (case create_conversion job email user [] docx (se_now env) (sv_rows s) of
        Inl _ \<Rightarrow> (s, internal_error)
      | Inr (t, _) \<Rightarrow>
          (s\<lparr>sv_rows := t\<rparr>,
           case get_owner_conversion job user t of None \<Rightarrow> Http 500 ''Document was not persisted'' | Some r \<Rightarrow> Reply r))"

definition create_guest_trial_record ::
  "server_env \<Rightarrow> string \<Rightarrow> string \<Rightarrow> string \<Rightarrow> string \<Rightarrow> string \<Rightarrow> int \<Rightarrow> int \<Rightarrow> stamp \<Rightarrow> server
    \<Rightarrow> server \<times> string response" where
  "create_guest_trial_record env job scope token pdf docx pages bytes expires s =
     (case create_guest_job (se_digest env) job scope token pdf docx pages bytes expires (se_now env) (sv_guest s) of
        Inl _ \<Rightarrow> (s, internal_error)
      | Inr (g, row) \<Rightarrow>
          (case create_conversion (gj_job_id row) ''guest'' [] scope docx (se_now env) (sv_rows s) of
             Inl _ \<Rightarrow> (s\<lparr>sv_guest := g\<rparr>, internal_error)
           | Inr (t, _) \<Rightarrow>
               let (t', status) = dispatch_conversion_job env (gj_job_id row) t
               in (s\<lparr>sv_guest := g, sv_rows := t'\<rparr>, Reply status)))"

subsection \<open>Requests as runs of table steps\<close>

datatype request =
  RStart string string "string option"
| RHeartbeat string string "string option"
| RFail string string "string option" string
| RUpload string string "string option" upload
| RCreateUser string string string string
| RRetry string string
| RCancel string string
| RDelete string string
| RCreateGuest string string string string string int int stamp
| RGuestView string string
| RGuestDownload string string string
| RGuestClaim string string string string
| RMaintenance

fun serve :: "server_env \<Rightarrow> request \<Rightarrow> server \<Rightarrow> server" where
  "serve env (RStart job w k) s = fst (start_job env job w k s)"
| "serve env (RHeartbeat job w k) s = fst (heartbeat_job env job w k s)"
| "serve env (RFail job w k e) s = fst (fail_job env job w k e s)"
| "serve env (RUpload job w k up) s = fst (upload_result env job w k up s)"
| "serve env (RCreateUser job email user docx) s = fst (create_user_document_record env job email user docx s)"
| "serve env (RRetry job user) s = fst (retry_user_document env job user s)"
| "serve env (RCancel job user) s = fst (cancel_user_document env job user s)"
| "serve env (RDelete job user) s = fst (delete_user_document env job user s)"
| "serve env (RCreateGuest job scope k pdf docx pages bytes expires) s =
     fst (create_guest_trial_record env job scope k pdf docx pages bytes expires s)"
| "serve env (RGuestView job scope) s = fst (view_guest_job env job scope s)"
| "serve env (RGuestDownload job scope k) s = fst (download_guest_result env job scope k s)"
| "serve env (RGuestClaim job scope k user) s = fst (guest_claim env job scope k user s)"
| "serve env RMaintenance s = fst (run_maintenance_cycle env s)"

definition empty_server :: server where
  "empty_server = \<lparr>sv_rows = [], sv_files = Map.empty, sv_parts = [], sv_guest = empty_guest_db\<rparr>"

definition serve_all :: "(server_env \<times> request) list \<Rightarrow> server" where
  "serve_all rs = fold (\<lambda>(env, r). serve env r) rs empty_server"

text \<open>
  What the handlers guarantee beyond the table's own guards: a finalization announced as completed
  carries a sufficient text score, and it is completed with the announced outcome.
\<close>

definition good_score :: "score option \<Rightarrow> bool" where
  "good_score v \<longleftrightarrow> (\<exists>x. v = Some x \<and> at_least_90 x)"

fun step_sound :: "conv_op \<Rightarrow> conversions \<Rightarrow> bool" where
  "step_sound (DoPrepare job target w k e extra now) t \<longleftrightarrow>
     (target = ''completed'' \<longrightarrow> (\<forall>r. good_score (cv_text_quality_score (set_cells (only_columns result_columns extra) r))))"
| "step_sound (DoComplete job target w k now) t \<longleftrightarrow>
     (\<forall>r \<in> set t. owned_row ''finalizing'' job w k r \<longrightarrow> cv_intended_final_status r = target)"
| "step_sound _ t \<longleftrightarrow> True"

inductive table_run :: "conversions \<Rightarrow> conversions \<Rightarrow> bool" where
  run_refl: "table_run t t"
| run_step: "table_run t u \<Longrightarrow> step_sound x u \<Longrightarrow> table_run t (conv_step x u)"

lemma table_run_trans: "table_run u v \<Longrightarrow> table_run t u \<Longrightarrow> table_run t v"
  by (induction rule: table_run.induct) (auto intro: table_run.intros)

lemma table_run_one: "step_sound x t \<Longrightarrow> u = conv_step x t \<Longrightarrow> table_run t u"
  by (auto intro: table_run.intros)

lemma table_run_ops: "table_run t u \<Longrightarrow> \<exists>ops. u = fold conv_step ops t"
proof (induction rule: table_run.induct)
  case (run_refl t)
  have "t = fold conv_step [] t" by simp
  then show ?case by blast
next
  case (run_step t u x)
  then obtain ops where "u = fold conv_step ops t" by blast
  then have "conv_step x u = fold conv_step (ops @ [x]) t" by simp
  then show ?case by blast
qed

lemma table_run_wf: "table_run t u \<Longrightarrow> conv_wf t \<Longrightarrow> conv_wf u"
  by (induction rule: table_run.induct) (auto intro: conv_step_wf)

text \<open>The transactions of the handlers as steps.\<close>

lemma transition_run:
  assumes "transition_conversion job target worker e [] now k t = Inr (u, r)"
    and "table_after t (transition_conversion job target worker e [] now k t) = conv_step x t" and "step_sound x t"
  shows "table_run t u"
  using assms by (intro table_run_one [of x]) (simp_all add: table_after_def)

lemma claim_run:
  assumes "transition_conversion job ''processing'' (Some w) None [] now k t = Inr (u, r)" and "w \<noteq> []" and "k \<noteq> []"
  shows "table_run t u"
  using assms(2,3) by (intro transition_run [OF assms(1), of "DoClaim job w k now"]) (simp_all add: conv_step_def)

lemma requeue_run:
  assumes "transition_conversion job ''pending'' None None [] now [] t = Inr (u, r)"
  shows "table_run t u"
  by (intro transition_run [OF assms, of "DoRequeue job now"]) (simp_all add: conv_step_def)

lemma cancel_run:
  assumes "transition_conversion job ''cancelled'' None None [] now [] t = Inr (u, r)"
  shows "table_run t u"
  by (intro transition_run [OF assms, of "DoCancel job now"]) (simp_all add: conv_step_def)

lemma fail_run:
  assumes "transition_conversion job ''failed'' (Some w) (Some e) [] now [] t = Inr (u, r)" and "w \<noteq> []"
  shows "table_run t u"
  using assms(2) by (intro transition_run [OF assms(1), of "DoFail job w e now"]) (simp_all add: conv_step_def)

lemma heartbeat_run:
  assumes "heartbeat job w now t = Inr u" and "w \<noteq> []"
  shows "table_run t u"
  using assms by (intro table_run_one [of "DoBeat job w now"]) (simp_all add: conv_step_def)

lemma queue_id_run: "update_conversion n [RqJobId rq] t = Inr u \<Longrightarrow> table_run t u"
  by (intro table_run_one [of "DoQueueId n rq"]) (simp_all add: conv_step_def)

lemma hide_run: "hide_owner_conversion job owner now t = (u, b) \<Longrightarrow> table_run t u"
  by (intro table_run_one [of "DoHide job owner now"]) (simp_all add: conv_step_def)

lemma abandon_final_run: "abandon_conversion_finalization job observed now t = (u, b) \<Longrightarrow> table_run t u"
  by (intro table_run_one [of "DoAbandonFinalizing job observed now"]) (simp_all add: conv_step_def)

lemma abandon_stale_run: "abandon_stale_processing job observed now t = (u, b) \<Longrightarrow> table_run t u"
  by (intro table_run_one [of "DoAbandonProcessing job observed now"]) (simp_all add: conv_step_def)

lemma create_run: "create_conversion job user owner guest docx now t = Inr (u, n) \<Longrightarrow> table_run t u"
  by (intro table_run_one [of "DoCreate job user owner guest docx now"]) (simp_all add: conv_step_def table_after_def)

lemma prepare_run:
  assumes "prepare_conversion_finalization job target w k e extra now t = Inr (u, r)"
    and "step_sound (DoPrepare job target w k e extra now) t"
  shows "table_run t u"
  using assms by (intro table_run_one [of "DoPrepare job target w k e extra now"]) (simp_all add: conv_step_def table_after_def)

lemma complete_run:
  assumes "complete_conversion_finalization job target w k now t = Inr (u, r)"
    and "step_sound (DoComplete job target w k now) t"
  shows "table_run t u"
  using assms by (intro table_run_one [of "DoComplete job target w k now"]) (simp_all add: conv_step_def table_after_def)

lemma rollback_run: "table_run t (rollback_conversion_finalization job w k now t)"
  by (intro table_run_one [of "DoRollback job w k now"]) (simp_all add: conv_step_def)

lemmas table_runs = run_refl claim_run requeue_run cancel_run fail_run heartbeat_run queue_id_run hide_run
  abandon_final_run abandon_stale_run create_run rollback_run

abbreviation rows_run :: "server \<Rightarrow> server \<Rightarrow> bool" where
  "rows_run s s' \<equiv> table_run (sv_rows s) (sv_rows s')"

lemma reread_fst [simp]: "fst (reread job s) = s"
  by (simp add: reread_def)

lemma mark_guest_rows [simp]: "sv_rows (mark_guest row status path s) = sv_rows s"
  by (simp add: mark_guest_def)

lemma get_job_row_Reply: "get_job_row job t = Reply r \<Longrightarrow> get_conversion job t = Some r \<and> r \<in> set t \<and> cv_job_id r = job"
  by (auto simp: get_job_row_def dest: get_conversion_SomeD split: if_splits option.splits)

lemma worker_ok_nonempty: "worker_message_ok w k \<Longrightarrow> w \<noteq> []"
  by (auto simp: worker_message_ok_def worker_name_ok_def)

lemma claim_job_run: "w \<noteq> [] \<Longrightarrow> se_token env \<noteq> [] \<Longrightarrow> rows_run s (fst (claim_job env job w s))"
  by (auto simp: claim_job_def intro: table_runs split: sum.splits)

lemma recover_stale_run: "rows_run s (fst (recover_stale_processing_job env row s))"
  by (auto simp: recover_stale_processing_job_def intro: table_runs split: prod.splits)

lemma complete_sound:
  assumes "conv_wf t" and "row \<in> set t" and "cv_job_id row = job" and "cv_intended_final_status row = target"
  shows "step_sound (DoComplete job target w k now) t"
proof -
  have u: "unique_jobs t" using assms(1) by (simp add: conv_wf_def)
  have "r = row" if "r \<in> set t" "cv_job_id r = job" for r
    using same_job_same_row [OF u assms(2) that(1)] that(2) assms(3) by simp
  then show ?thesis using assms(4) by (auto simp: owned_row_def)
qed

lemma run_if: "(b \<Longrightarrow> rows_run s (fst x)) \<Longrightarrow> (\<not> b \<Longrightarrow> rows_run s (fst y)) \<Longrightarrow> rows_run s (fst (if b then x else y))"
  by simp

lemma run_here: "rows_run s (fst (s, r))"
  by (simp add: run_refl)

lemma recover_finalizing_run:
  assumes "conv_wf (sv_rows s)" and "row \<in> set (sv_rows s)"
  shows "rows_run s (fst (recover_finalizing_result env row s))"
proof -
  have sound: "step_sound (DoComplete (cv_job_id row) (cv_intended_final_status row) w k now) (sv_rows s)" for w k now
    by (rule complete_sound [OF assms]) simp_all
  let ?t = "abandon_conversion_finalization (cv_job_id row) (cv_updated_at row) (se_now env) (sv_rows s)"
  have abandon: "rows_run s (fst (let (t, _) = ?t in reread (cv_job_id row) (s\<lparr>sv_rows := t\<rparr>)))"
    by (cases ?t) (auto intro: abandon_final_run)
  have complete: "rows_run s (fst (case complete_conversion_finalization (cv_job_id row) (cv_intended_final_status row)
        w k (se_now env) (sv_rows s) of
      Inl (DbValueError _) \<Rightarrow> reread (cv_job_id row) s
    | Inl _ \<Rightarrow> (s, Http 503 ''Result finalization is temporarily unavailable'')
    | Inr (t, updated) \<Rightarrow> (mark_guest updated (cv_status updated) path (s\<lparr>sv_rows := t\<rparr>), Reply updated)))" for w k path
  proof (cases "complete_conversion_finalization (cv_job_id row) (cv_intended_final_status row) w k (se_now env) (sv_rows s)")
    case (Inl e)
    then show ?thesis by (cases e) (simp_all add: run_refl)
  next
    case (Inr p)
    then show ?thesis using complete_run [OF _ sound] by (cases p) simp
  qed
  show ?thesis
    unfolding recover_finalizing_result_def Let_def
    by (intro run_if run_here)
      (auto intro: run_refl abandon [unfolded Let_def] complete split: option.split simp del: reread_fst)
qed

lemma rows_run_trans: "rows_run s s1 \<Longrightarrow> rows_run s1 s2 \<Longrightarrow> rows_run s s2"
  by (rule table_run_trans)

lemma start_recovered_run:
  assumes "w \<noteq> []" and "se_token env \<noteq> []"
  shows "rows_run s (fst (start_recovered env job w k row s))"
proof -
  have requeue_then: "rows_run s (fst (case transition_conversion job ''pending'' None None [] (se_now env) [] (sv_rows s) of
      Inl _ \<Rightarrow> (s, internal_error) | Inr (t, _) \<Rightarrow> claim_job env job w (s\<lparr>sv_rows := t\<rparr>)))"
  proof (cases "transition_conversion job ''pending'' None None [] (se_now env) [] (sv_rows s)")
    case (Inr p)
    obtain t r where p: "p = (t, r)" by force
    have "rows_run s (s\<lparr>sv_rows := t\<rparr>)" using requeue_run [OF Inr [unfolded p]] by simp
    from rows_run_trans [OF this claim_job_run [OF assms]] show ?thesis unfolding Inr p by simp
  qed (simp add: run_refl)
  have beat_then: "rows_run s (fst (case heartbeat job w (se_now env) (sv_rows s) of
      Inl _ \<Rightarrow> (s, internal_error) | Inr t \<Rightarrow> (s\<lparr>sv_rows := t\<rparr>, get_job_row job t)))"
    by (cases "heartbeat job w (se_now env) (sv_rows s)") (simp_all add: run_refl heartbeat_run [OF _ assms(1)])
  have stale_then: "rows_run s (fst (case recover_stale_processing_job env row s of
      (s1, Http c d) \<Rightarrow> (s1, Http c d)
    | (s1, Reply row1) \<Rightarrow> if cv_status row1 \<noteq> ''pending'' then (s1, Http 409 ''Job is owned by another worker'')
        else claim_job env job w s1))"
  proof (cases "recover_stale_processing_job env row s")
    case (Pair s1 x)
    have "rows_run s s1" using recover_stale_run [of s env row] Pair by simp
    then show ?thesis unfolding Pair using rows_run_trans [OF _ claim_job_run [OF assms, of s1]]
      by (cases x) simp_all
  qed
  show ?thesis
    unfolding start_recovered_def
    by (intro run_if run_here claim_job_run [OF assms] requeue_then beat_then stale_then)
qed

lemma start_job_run:
  assumes "conv_wf (sv_rows s)" and "se_token env \<noteq> []"
  shows "rows_run s (fst (start_job env job w k s))"
proof (cases "worker_message_ok w k")
  case True
  note w = worker_ok_nonempty [OF True]
  show ?thesis
  proof (cases "get_job_row job (sv_rows s)")
    case (Reply row0)
    obtain s1 x where r: "recover_finalizing_result env row0 s = (s1, x)" by force
    have "rows_run s s1"
      using recover_finalizing_run [OF assms(1)] get_job_row_Reply [OF Reply] r by (metis fst_conv)
    then show ?thesis
      using True Reply r rows_run_trans [OF _ start_recovered_run [OF w assms(2)]]
      by (auto simp: start_job_def split: response.splits)
  qed (simp add: start_job_def True run_refl)
qed (simp add: start_job_def run_refl)

lemma heartbeat_job_run: "rows_run s (fst (heartbeat_job env job w k s))"
proof (cases "worker_message_ok w k")
  case True
  show ?thesis
  proof (cases "get_job_row job (sv_rows s)")
    case (Reply row)
    have "rows_run s (fst (case heartbeat job w (se_now env) (sv_rows s) of
        Inl e \<Rightarrow> (s, conflict e) | Inr t \<Rightarrow> (s\<lparr>sv_rows := t\<rparr>, Reply ''ok'')))"
      by (cases "heartbeat job w (se_now env) (sv_rows s)")
        (simp_all add: run_refl heartbeat_run [OF _ worker_ok_nonempty [OF True]])
    then show ?thesis using True Reply by (simp add: heartbeat_job_def run_refl)
  qed (simp add: heartbeat_job_def True run_refl)
qed (simp add: heartbeat_job_def run_refl)

lemma fail_write_run:
  assumes "w \<noteq> []"
  shows "rows_run s (fst (fail_write env job w e s))"
proof (cases "transition_conversion job ''failed'' (Some w)
    (Some (take 500 (if se_sanitize env e = [] then ''Worker failed'' else se_sanitize env e))) [] (se_now env) [] (sv_rows s)")
  case (Inr p)
  then show ?thesis using fail_run [OF _ assms] by (cases p) (simp add: fail_write_def)
qed (simp add: fail_write_def run_refl)

lemma fail_job_run: "rows_run s (fst (fail_job env job w k e s))"
proof (cases "worker_message_ok w k")
  case True
  show ?thesis
    using fail_write_run [OF worker_ok_nonempty [OF True]]
    by (simp add: fail_job_def run_refl split: response.split fail_check.split)
qed (simp add: fail_job_def run_refl)

text \<open>A result announced as completed carries its score.\<close>

lemma bind_good: "at_least_90 x \<Longrightarrow> good_score (bind_score (Some x))"
  by (cases x) (auto simp: good_score_def bind_score_def)

lemma and_then_InrD: "and_then x f = Inr y \<Longrightarrow> \<exists>a. x = Inr a \<and> f a = Inr y"
  by (cases x) (auto simp: and_then_def)

lemma numeric_field_good:
  assumes "numeric_field env values key = Inr v" and "key = ''text_quality_score''"
    and "quality_allows_completed (se_parse_float env) values"
  shows "\<exists>x. v = Some x \<and> at_least_90 x"
  using assms by (auto simp: numeric_field_def quality_allows_completed_def split: json.splits float_result.splits)

lemma parse_result_cells:
  assumes "parse_result env m = Inr rv"
  shows "\<exists>ft tq lq fq engine time. rv_cells rv = [FileType ft, TextQuality tq, LayoutQuality lq,
      FinalQuality fq, WinningEngine engine, ProcessingTime time]
    \<and> rv_status rv \<in> {''completed'', ''manual_review''}
    \<and> (rv_status rv = ''completed'' \<longrightarrow> (\<exists>x. tq = Some x \<and> at_least_90 x))"
proof -
  obtain vals where m: "m = Some (JObj vals)"
    using assms by (auto simp: parse_result_def split: option.splits json.splits)
  then obtain target where st: "obj_get vals ''status'' = JStr target" and
    tg: "target \<in> {''completed'', ''manual_review''}"
    using assms by (auto simp: parse_result_def split: json.splits if_splits)
  define forced where "forced = (target = ''completed'' \<and> \<not> quality_allows_completed (se_parse_float env) vals)"
  from assms tg obtain tq lq fq time ft engine where
    tq: "numeric_field env vals ''text_quality_score'' = Inr tq" and
    rv: "rv = \<lparr>rv_status = (if forced then ''manual_review'' else target), rv_forced_review = forced,
           rv_cost_limit_reached = truthy (obj_get vals ''cost_limit_reached''),
           rv_cells = [FileType ft, TextQuality tq, LayoutQuality lq, FinalQuality fq,
             WinningEngine engine, ProcessingTime (case time of None \<Rightarrow> Finite 0 | Some x \<Rightarrow> x)]\<rparr>"
    unfolding parse_result_def m option.case json.case st Let_def forced_def
    by (auto dest!: and_then_InrD)
  have "\<exists>x. tq = Some x \<and> at_least_90 x" if "\<not> forced" "target = ''completed''"
    using numeric_field_good [OF tq refl] that by (simp add: forced_def)
  then show ?thesis using tg unfolding rv by auto
qed

lemma parse_result_sound:
  assumes "parse_result env m = Inr rv"
  shows "step_sound (DoPrepare job (rv_status rv) w k e (StoredDocx path # rv_cells rv) now) t"
proof -
  obtain ft tq lq fq engine time where c: "rv_cells rv = [FileType ft, TextQuality tq, LayoutQuality lq,
      FinalQuality fq, WinningEngine engine, ProcessingTime time]"
    and q: "rv_status rv = ''completed'' \<longrightarrow> (\<exists>x. tq = Some x \<and> at_least_90 x)"
    using parse_result_cells [OF assms] by blast
  show ?thesis using q by (auto simp: c only_columns_def result_columns_def bind_good)
qed

lemma prepared_row:
  assumes "conv_wf t" and "prepare_conversion_finalization job target w k e extra now t = Inr (u, prepared)"
  shows "\<exists>row. get_conversion job t = Some row \<and> owned_row ''processing'' job w k row \<and> target \<in> {''completed'', ''manual_review''}
    \<and> prepared = set_cells ([Status ''finalizing'', UpdatedAt (At now), CompletedAt Never, WorkerName (Some w),
          ErrorMessage e, IntendedFinal target] @ only_columns result_columns extra) row
    \<and> u = map (guarded_row (owned_row ''processing'' job w k) ([Status ''finalizing'', UpdatedAt (At now),
          CompletedAt Never, WorkerName (Some w), ErrorMessage e, IntendedFinal target] @ only_columns result_columns extra)) t
    \<and> cv_intended_final_status prepared = target"
proof -
  define cells where "cells = [Status ''finalizing'', UpdatedAt (At now), CompletedAt Never, WorkerName (Some w),
      ErrorMessage e, IntendedFinal target] @ only_columns result_columns extra"
  have tg: "target \<in> {''completed'', ''manual_review''}"
    and g: "guarded_update (owned_row ''processing'' job w k) cells job ''Worker does not own this processing job'' t = Inr (u, prepared)"
    using assms(2) by (auto simp: prepare_conversion_finalization_def cells_def split: if_splits)
  have u: "unique_jobs t" using assms(1) by (simp add: conv_wf_def)
  obtain row where row: "get_conversion job t = Some row"
    using g guarded_missing [OF _ owned_row_job, of job t] by (cases "get_conversion job t") auto
  have hit: "tbl_count (owned_row ''processing'' job w k) t = 1" and nn: "\<not> null_violation cells"
    using g by (auto simp: guarded_update_def Let_def split: if_splits)
  note found = guarded_found [OF u row, of "owned_row ''processing'' job w k" cells, OF owned_row_job nn]
  have own: "owned_row ''processing'' job w k row" using g found by (auto split: if_splits)
  with g found have "u = map (guarded_row (owned_row ''processing'' job w k) cells) t" "prepared = set_cells cells row"
    by auto
  then show ?thesis using row own tg unfolding cells_def by simp
qed

lemma finalize_upload_run:
  assumes "conv_wf (sv_rows s)" and "parse_result env m = Inr rv"
  shows "rows_run s (fst (finalize_upload env job w k path content rv s))"
proof (cases "prepare_conversion_finalization job (rv_status rv) w k (result_message rv)
             (StoredDocx path # rv_cells rv) (se_now env) (sv_rows s)")
  case (Inl e)
  then show ?thesis by (cases e) (simp_all add: finalize_upload_def run_refl)
next
  case (Inr p)
  obtain t prepared where p: "p = (t, prepared)" by force
  note prep = Inr [unfolded p]
  have run: "table_run (sv_rows s) t" by (rule prepare_run [OF prep parse_result_sound [OF assms(2)]])
  have wf: "conv_wf t" using run assms(1) by (rule table_run_wf)
  have mem: "prepared \<in> set t" "cv_job_id prepared = job"
    using prep get_conversion_SomeD [of job t prepared]
    by (auto simp: prepare_conversion_finalization_def guarded_update_def Let_def split: if_splits option.splits)
  have "cv_intended_final_status prepared = rv_status rv"
    using prepared_row [OF assms(1) prep] by blast
  then have sound: "step_sound (DoComplete job (rv_status rv) w k now) t" for now
    using complete_sound [OF wf mem] by blast
  have "table_run (sv_rows s) u"
    if "complete_conversion_finalization job (rv_status rv) w k (se_now env) t = Inr (u, r)" for u r
    using complete_run [OF that sound] run by (rule table_run_trans)
  then show ?thesis
    unfolding finalize_upload_def prep
    using run rollback_run [THEN table_run_trans, OF run]
    by (auto split: sum.splits db_error.splits prod.splits simp: Let_def)
qed

lemma upload_result_run:
  assumes "conv_wf (sv_rows s)"
  shows "rows_run s (fst (upload_result env job w k up s))"
proof -
  have fin: "rows_run s (fst (finalize_upload env job w k path content rv s))"
    if "parse_result env (up_metadata up) = Inr rv" for path content rv
    by (rule finalize_upload_run [OF assms that])
  show ?thesis
    unfolding upload_result_def Let_def
    by (intro run_if run_here; cases "get_job_row job (sv_rows s)"; cases "parse_result env (up_metadata up)")
      (simp_all add: run_refl fin split: option.split)
qed

lemma dispatch_run: "table_run t (fst (dispatch_conversion_job env job t))"
  by (auto simp: dispatch_conversion_job_def intro: table_runs split: option.split sum.split)

lemma re_dispatch_run: "table_run t (fst (re_dispatch env rs t n))"
proof (induction rs arbitrary: t n)
  case (Cons r rs)
  obtain t' st where d: "dispatch_conversion_job env (cv_job_id r) t = (t', st)" by force
  have "table_run t t'" using dispatch_run [of t env "cv_job_id r"] d by simp
  then have "table_run t (fst (re_dispatch env rs t' m))" for m using Cons.IH table_run_trans by blast
  then show ?case using Cons.IH d by simp
qed (simp add: run_refl)

lemma owner_row_Reply: "owner_row job user t = Reply r \<Longrightarrow> r \<in> set t \<and> cv_job_id r = job \<and> cv_owner_user_id r = user \<and> \<not> cv_hidden r"
  by (auto simp: owner_row_def get_owner_conversion_def dest: tbl_find_SomeD split: if_splits option.splits)

lemma retry_run: "rows_run s (fst (retry_user_document env job user s))"
proof (cases "owner_row job user (sv_rows s)")
  case (Reply row)
  let ?res = "transition_conversion job ''pending'' None None [] (se_now env) [] (sv_rows s)"
  show ?thesis
  proof (cases "cv_status row \<notin> {''failed'', ''cancelled''}")
    case False
    show ?thesis
    proof (cases ?res)
      case (Inr p)
      obtain t r where p: "p = (t, r)" by force
      have t: "table_run (sv_rows s) t" using requeue_run Inr p by blast
      have "table_run t t2" if "update_conversion (cv_id row) [RqJobId []] t = Inr t1"
        "t2 = fst (dispatch_conversion_job env job t1)" for t1 t2
        using that queue_id_run dispatch_run table_run_trans by metis
      then show ?thesis
        using Reply False Inr p t table_run_trans [OF _ t]
        by (auto simp: retry_user_document_def split: sum.split)
    qed (use Reply False in \<open>auto simp: retry_user_document_def run_refl\<close>)
  qed (use Reply in \<open>simp add: retry_user_document_def run_refl\<close>)
qed (simp add: retry_user_document_def run_refl)

lemma cancel_user_run: "rows_run s (fst (cancel_user_document env job user s))"
  using cancel_run [of job "se_now env" "sv_rows s"]
  by (simp add: cancel_user_document_def run_refl split: response.split sum.split prod.split)

lemma delete_run: "rows_run s (fst (delete_user_document env job user s))"
  using hide_run [of job user "se_now env" "sv_rows s"]
  by (simp add: delete_user_document_def run_refl split: response.split prod.split)

lemma guest_recovered_run: "conv_wf (sv_rows s) \<Longrightarrow> rows_run s (fst (guest_recovered env job s))"
  using recover_finalizing_run [of s _ env] get_conversion_SomeD [of job "sv_rows s"]
  by (simp add: guest_recovered_def run_refl split: option.split prod.split response.split) (metis fst_conv)

lemma guest_view_run: "conv_wf (sv_rows s) \<Longrightarrow> rows_run s (fst (view_guest_job env job scope s))"
  using guest_recovered_run [of s env job]
  by (cases "guest_recovered env job s"; cases "snd (guest_recovered env job s)")
    (auto simp: view_guest_job_def run_refl split: option.split)

lemma guest_download_run: "conv_wf (sv_rows s) \<Longrightarrow> rows_run s (fst (download_guest_result env job scope k s))"
  using guest_recovered_run [of s env job]
  by (cases "guest_recovered env job s"; cases "snd (guest_recovered env job s)")
    (auto simp: download_guest_result_def run_refl split: option.split prod.split)

lemma guest_claim_rows [simp]: "sv_rows (fst (guest_claim env job scope k user s)) = sv_rows s"
  by (simp add: guest_claim_def split: sum.split prod.split guest_error.split)

lemma create_user_run: "rows_run s (fst (create_user_document_record env job email user docx s))"
  using create_run [of job email user "[]" docx "se_now env" "sv_rows s"]
  by (simp add: create_user_document_record_def run_refl split: sum.split prod.split)

lemma create_guest_run: "rows_run s (fst (create_guest_trial_record env job scope k pdf docx pages bytes expires s))"
proof (cases "create_guest_job (se_digest env) job scope k pdf docx pages bytes expires (se_now env) (sv_guest s)")
  case (Inr p)
  obtain g row where p: "p = (g, row)" by force
  show ?thesis
  proof (cases "create_conversion (gj_job_id row) ''guest'' [] scope docx (se_now env) (sv_rows s)")
    case (Inl e)
    then show ?thesis using Inr p by (simp add: create_guest_trial_record_def run_refl)
  next
    case (Inr q)
    obtain t n where q: "q = (t, n)" by force
    have t: "table_run (sv_rows s) t" using create_run Inr q by blast
    obtain t' st where d: "dispatch_conversion_job env (gj_job_id row) t = (t', st)" by force
    have "table_run t t'" using dispatch_run [of t env "gj_job_id row"] d by simp
    then have "table_run (sv_rows s) t'" using t by (rule table_run_trans)
    then show ?thesis
      using \<open>create_guest_job _ _ _ _ _ _ _ _ _ _ _ = Inr p\<close> p Inr q d by (simp add: create_guest_trial_record_def)
  qed
qed (simp add: create_guest_trial_record_def run_refl)

lemma maintenance_run: "rows_run s (fst (run_maintenance_cycle env s))"
  using re_dispatch_run [of "sv_rows s" env "list_pending_conversions (sv_rows s)" 0]
  by (auto simp: run_maintenance_cycle_def re_dispatch_deferred_conversions_def split: prod.split)

text \<open>Every request is a run of steps of the table, and they are sound.\<close>

lemma serve_run:
  assumes "conv_wf (sv_rows s)" and "se_token env \<noteq> []"
  shows "rows_run s (serve env r s)"
  by (cases r) (simp_all add: assms start_job_run heartbeat_job_run fail_job_run upload_result_run create_user_run
    retry_run cancel_user_run delete_run create_guest_run guest_view_run guest_download_run run_refl
    maintenance_run)

lemma serve_all_run:
  assumes "\<forall>(env, r) \<in> set rs. se_token env \<noteq> []" and "conv_wf (sv_rows s)"
  shows "table_run (sv_rows s) (sv_rows (fold (\<lambda>(env, r). serve env r) rs s))"
  using assms
proof (induction rs arbitrary: s)
  case (Cons x rs)
  obtain env r where x: "x = (env, r)" by force
  have step: "rows_run s (serve env r s)" using Cons.prems x by (intro serve_run) auto
  then have "conv_wf (sv_rows (serve env r s))" using Cons.prems(2) by (rule table_run_wf)
  then have "rows_run (serve env r s) (fold (\<lambda>(env, r). serve env r) rs (serve env r s))"
    using Cons.IH Cons.prems(1) by simp
  then have "table_run (sv_rows s) (sv_rows (fold (\<lambda>(env, r). serve env r) rs (serve env r s)))"
    using step by (rule table_run_trans)
  then show ?case by (simp add: x)
qed (simp add: run_refl)

subsection \<open>Only good results are completed\<close>

definition quality_ok :: "conversion \<Rightarrow> bool" where
  "quality_ok r \<longleftrightarrow> (cv_status r = ''completed''
      \<or> cv_status r = ''finalizing'' \<and> cv_intended_final_status r = ''completed'')
     \<longrightarrow> good_score (cv_text_quality_score r)"

lemma quality_other: "cv_status r \<notin> {''completed'', ''finalizing''} \<Longrightarrow> quality_ok r"
  by (simp add: quality_ok_def)

lemma transition_row_quality:
  assumes "quality_ok r" and "target \<notin> {''completed'', ''finalizing''}"
  shows "quality_ok (transition_row job target w e now k r)"
  by (rule transition_row_cases [of job target w e now k r]) (use assms in \<open>auto intro: quality_other\<close>)

lemma step_row_quality:
  assumes "quality_ok r" and "step_sound x t" and "r \<in> set t"
  shows "quality_ok (step_row x r)"
proof (cases x)
  case (DoPrepare job target w k e extra now)
  define cells where "cells = [Status ''finalizing'', UpdatedAt (At now), CompletedAt Never, WorkerName (Some w),
      ErrorMessage e, IntendedFinal target] @ only_columns result_columns extra"
  have "quality_ok (set_cells cells r)"
    using assms(2) DoPrepare by (simp add: quality_ok_def cells_def)
  then show ?thesis
    using assms(1) unfolding DoPrepare step_row.simps guarded_row_def cells_def [symmetric] by presburger
next
  case (DoComplete job target w k now)
  define cells where "cells = [Status target, UpdatedAt (At now), CompletedAt (At now), IntendedFinal []]"
  have "quality_ok (set_cells cells r)"
    if "owned_row ''finalizing'' job w k r" "target \<in> {''completed'', ''manual_review''}"
    using assms that DoComplete by (auto simp: quality_ok_def owned_row_def cells_def)
  then show ?thesis
    using assms(1) unfolding DoComplete step_row.simps guarded_row_def cells_def [symmetric] by presburger
next
  case (DoRollback job w k now)
  then show ?thesis using assms(1) by (simp add: guarded_row_def quality_other)
next
  case (DoAbandonFinalizing job observed now)
  then show ?thesis using assms(1) by (simp add: guarded_row_def quality_other)
next
  case (DoAbandonProcessing job observed now)
  then show ?thesis using assms(1) by (simp add: guarded_row_def quality_other)
next
  case (DoBeat job w now)
  then show ?thesis using assms(1) by (simp add: quality_ok_def)
qed (use assms(1) in \<open>simp_all add: transition_row_quality, simp_all add: quality_ok_def\<close>)

lemma conv_step_quality:
  assumes "conv_wf t" and "step_sound x t" and "\<forall>r \<in> set t. quality_ok r"
  shows "\<forall>r \<in> set (conv_step x t). quality_ok r"
proof -
  have u: "unique_jobs t" using assms(1) by (simp add: conv_wf_def)
  show ?thesis
    by (rule conv_step_cases [OF u, of x])
      (use assms step_row_quality [of _ x t] in \<open>auto simp: step_rows_def quality_other\<close>)
qed

lemma table_run_quality:
  "table_run t u \<Longrightarrow> conv_wf t \<Longrightarrow> \<forall>r \<in> set t. quality_ok r \<Longrightarrow> \<forall>r \<in> set u. quality_ok r"
  by (induction rule: table_run.induct) (auto dest!: conv_step_quality [rotated] intro: table_run_wf)

end
