(* ===== verification/Job_Lifecycle.thy ===== *)
theory Job_Lifecycle
  imports Worker_Api
begin

text \<open>
  Properties of the job life cycle across the handlers, the table and the files: the quality gate, the
  path of a job from its start to its stored result, and the behaviours that the handlers leave open:
  a failure report that is not fenced, jobs that nothing re-dispatches, claimed guest documents that
  their new owner cannot reach, and a result that ends in an internal error.
\<close>

subsection \<open>A sample server\<close>

definition sample_env :: "instant \<Rightarrow> string \<Rightarrow> server_env" where
  "sample_env now token = \<lparr>se_now = now, se_token = token, se_resolve = Some, se_valid_archive = (\<lambda>c. True),
     se_parse_float = (\<lambda>s. if s = ''nan'' then Some NaN else None), se_max_result_bytes = 1000, se_replace_ok = True,
     se_enqueue = (\<lambda>j. Some j), se_sanitize = (\<lambda>e. e), se_digest = (\<lambda>v. v), se_finalizing_stale = None,
     se_processing_stale = None\<rparr>"

definition token_a :: string where "token_a = replicate 32 CHR ''a''"
definition token_b :: string where "token_b = replicate 32 CHR ''b''"

definition sample_upload :: "json \<Rightarrow> json \<Rightarrow> upload" where
  "sample_upload score time = \<lparr>up_suffix = ''.docx'', up_content = ''PK..result'',
     up_metadata = Some (JObj [(''status'', JStr ''completed''), (''text_quality_score'', score), (''processing_time'', time)])\<rparr>"

definition sample_requests :: "(server_env \<times> request) list" where
  "sample_requests =
     [(sample_env 1000 token_a, RCreateUser ''j1'' ''u@x.org'' ''u1'' ''out.docx''),
      (sample_env 2000 token_a, RStart ''j1'' ''w1'' None)]"

subsection \<open>The quality gate\<close>

text \<open>
  C15. Whatever requests the server has served, in whatever order, a job whose state is completed has
  a text quality score of at least 90; every other result went to manual review.
\<close>

theorem completed_meets_quality:
  assumes "\<forall>(env, req) \<in> set rs. se_token env \<noteq> []" and "r \<in> set (sv_rows (serve_all rs))"
    and "cv_status r = ''completed''"
  shows "\<exists>x. cv_text_quality_score r = Some x \<and> at_least_90 x"
proof -
  have wf: "conv_wf (sv_rows empty_server)" by (simp add: empty_server_def conv_wf_def unique_jobs_def)
  have "table_run (sv_rows empty_server) (sv_rows (serve_all rs))"
    unfolding serve_all_def using serve_all_run [OF assms(1) wf] .
  then have "\<forall>r \<in> set (sv_rows (serve_all rs)). quality_ok r"
    using wf by (rule table_run_quality) (simp add: empty_server_def)
  then show ?thesis using assms(2,3) by (auto simp: quality_ok_def good_score_def)
qed

lemma completed_meets_quality_witness:
  "\<exists>r x. r \<in> set (sv_rows (serve_all (sample_requests @
       [(sample_env 3000 token_a, RUpload ''j1'' ''w1'' (Some token_a) (sample_upload (JInt 95) JNull))])))
     \<and> cv_status r = ''completed'' \<and> cv_text_quality_score r = Some x \<and> at_least_90 x"
proof -
  let ?rs = "sample_requests @
       [(sample_env 3000 token_a, RUpload ''j1'' ''w1'' (Some token_a) (sample_upload (JInt 95) JNull))]"
  let ?r = "hd (sv_rows (serve_all ?rs))"
  have r: "?r \<in> set (sv_rows (serve_all ?rs))" "cv_status ?r = ''completed''" by code_simp+
  have "\<forall>(env, req) \<in> set ?rs. se_token env \<noteq> []" by code_simp
  from completed_meets_quality [OF this r] r show ?thesis by blast
qed

subsection \<open>From the start of a job to its result\<close>

lemma get_job_row_some: "job_id_ok job \<Longrightarrow> get_conversion job t = Some r \<Longrightarrow> get_job_row job t = Reply r"
  by (simp add: get_job_row_def)

lemma claim_job_pending:
  assumes "conv_wf (sv_rows s)" and "get_conversion job (sv_rows s) = Some row" and "cv_status row = ''pending''"
    and "job_id_ok job"
  shows "claim_job env job w s =
    (s\<lparr>sv_rows := map (transition_row job ''processing'' (Some w) None (se_now env) (se_token env)) (sv_rows s)\<rparr>,
     Reply (set_cells (transition_cells ''processing'' (Some w) None [] (se_now env) (se_token env) row) row))"
proof -
  let ?f = "transition_row job ''processing'' (Some w) None (se_now env) (se_token env)"
  have u: "unique_jobs (sv_rows s)" using assms(1) by (simp add: conv_wf_def)
  have j: "cv_job_id row = job" using get_conversion_SomeD [OF assms(2)] by simp
  have f: "?f row = set_cells (transition_cells ''processing'' (Some w) None [] (se_now env) (se_token env) row) row"
    using j assms(3) by (simp add: transition_row_def)
  have "get_conversion job (map ?f (sv_rows s)) = Some (?f row)"
    by (subst get_conversion_map) (simp_all add: assms(2))
  then show ?thesis
    using transition_step_found [OF u transition_known(1) assms(2)] assms(3,4) f
    by (simp add: claim_job_def get_job_row_def)
qed

lemma start_pending:
  assumes "conv_wf (sv_rows s)" and "get_conversion job (sv_rows s) = Some row" and "cv_status row = ''pending''"
    and "job_id_ok job" and "worker_message_ok w k"
  shows "start_job env job w k s = claim_job env job w s"
  using assms by (simp add: start_job_def get_job_row_some recover_finalizing_result_def start_recovered_def)

text \<open>An upload by the holder of the claim, when every check on the file and the metadata passes.\<close>

lemma finalize_upload_owned:
  assumes "conv_wf (sv_rows s)" and "get_conversion job (sv_rows s) = Some row"
    and "owned_row ''processing'' job w (Some k) row" and "parse_result env m = Inr rv"
    and "ProcessingTime NaN \<notin> set (rv_cells rv)" and "se_replace_ok env"
  shows "\<exists>s' r. finalize_upload env job w (Some k) path content rv s = (s', Reply (rv_status rv))
    \<and> sv_files s' = (sv_files s)(path \<mapsto> content) \<and> sv_parts s' = sv_parts s
    \<and> get_conversion job (sv_rows s') = Some r \<and> cv_status r = rv_status rv \<and> cv_stored_docx_path r = path"
proof -
  have u: "unique_jobs (sv_rows s)" using assms(1) by (simp add: conv_wf_def)
  obtain ft tq lq fq engine time where c: "rv_cells rv = [FileType ft, TextQuality tq, LayoutQuality lq,
      FinalQuality fq, WinningEngine engine, ProcessingTime time]"
    and tg: "rv_status rv \<in> {''completed'', ''manual_review''}"
    using parse_result_cells [OF assms(4)] by blast
  define cells where "cells = [Status ''finalizing'', UpdatedAt (At (se_now env)), CompletedAt Never, WorkerName (Some w),
      ErrorMessage (result_message rv), IntendedFinal (rv_status rv)] @ only_columns result_columns (StoredDocx path # rv_cells rv)"
  have cols: "only_columns result_columns (StoredDocx path # rv_cells rv) = StoredDocx path # rv_cells rv"
    by (simp add: c only_columns_def result_columns_def)
  have nn: "\<not> null_violation cells" using assms(5) by (auto simp: cells_def cols null_violation_def)
  let ?hit = "owned_row ''processing'' job w (Some k)"
  let ?t = "map (guarded_row ?hit cells) (sv_rows s)" and ?p = "set_cells cells row"
  have prep: "prepare_conversion_finalization job (rv_status rv) w (Some k) (result_message rv)
      (StoredDocx path # rv_cells rv) (se_now env) (sv_rows s) = Inr (?t, ?p)"
    using tg guarded_found [OF u assms(2), of ?hit cells, OF owned_row_job nn] assms(3)
    by (simp add: prepare_conversion_finalization_def cells_def)
  have wf: "conv_wf ?t"
    using prepare_run [OF prep parse_result_sound [OF assms(4)]] assms(1) by (rule table_run_wf)
  have p: "get_conversion job ?t = Some ?p"
    by (subst get_conversion_map) (simp_all add: assms(2,3) guarded_row_def nn)
  have own: "owned_row ''finalizing'' job w (Some k) ?p" and path: "cv_stored_docx_path ?p = path"
    using assms(3) by (simp_all add: cells_def owned_row_def cols [unfolded c] c)
  let ?done = "[Status (rv_status rv), UpdatedAt (At (se_now env)), CompletedAt (At (se_now env)), IntendedFinal []]"
  have nd: "\<not> null_violation ?done" by (simp add: null_violation_def)
  have comp: "complete_conversion_finalization job (rv_status rv) w (Some k) (se_now env) ?t =
      Inr (map (guarded_row (owned_row ''finalizing'' job w (Some k)) ?done) ?t, set_cells ?done ?p)"
    using tg guarded_found [OF wf [unfolded conv_wf_def, THEN conjunct1] p, of "owned_row ''finalizing'' job w (Some k)" ?done,
        OF owned_row_job nd] own
    by (simp add: complete_conversion_finalization_def)
  have last: "get_conversion job (map (guarded_row (owned_row ''finalizing'' job w (Some k)) ?done) ?t)
      = Some (set_cells ?done ?p)"
    by (subst get_conversion_map, rule guarded_row_ident)
      (simp only: p option.map guarded_row_def own nd simp_thms if_True)
  have "cv_status (set_cells ?done ?p) = rv_status rv" "cv_stored_docx_path (set_cells ?done ?p) = path"
    using path by simp_all
  then show ?thesis
    unfolding finalize_upload_def prep sum.case prod.case Let_def comp
    using last assms(6) by (simp add: mark_guest_def del: set_cells_Cons)
qed

text \<open>
  C16. The life of a job: started from pending, it is claimed by the worker under a fresh token, and
  a well-formed result uploaded with that token is stored at the job's path and ends the job in the
  announced state (completed, or manual review when the score does not suffice).
\<close>

theorem start_then_upload:
  assumes "conv_wf (sv_rows s)" and "get_conversion job (sv_rows s) = Some row" and "cv_status row = ''pending''"
    and "job_id_ok job" and "worker_message_ok w None" and "claim_token_ok (se_token env1)"
    and "up_suffix up = ''.docx''" and "parse_result env2 (up_metadata up) = Inr rv"
    and "ProcessingTime NaN \<notin> set (rv_cells rv)" and "se_resolve env2 (cv_stored_docx_path row) = Some path"
    and "docx_file_ok env2 (up_content up)" and "length (up_content up) \<le> se_max_result_bytes env2"
    and "se_replace_ok env2"
  shows "\<exists>s1 r1 s2 r2. start_job env1 job w None s = (s1, Reply r1)
    \<and> cv_status r1 = ''processing'' \<and> cv_worker_name r1 = Some w \<and> cv_claim_token r1 = se_token env1
    \<and> upload_result env2 job w (Some (cv_claim_token r1)) up s1 = (s2, Reply (rv_status rv))
    \<and> sv_files s2 = (sv_files s)(path \<mapsto> up_content up) \<and> sv_parts s2 = sv_parts s
    \<and> get_conversion job (sv_rows s2) = Some r2 \<and> cv_status r2 = rv_status rv \<and> cv_stored_docx_path r2 = path"
proof -
  let ?f = "transition_row job ''processing'' (Some w) None (se_now env1) (se_token env1)"
  let ?r1 = "set_cells (transition_cells ''processing'' (Some w) None [] (se_now env1) (se_token env1) row) row"
  let ?s1 = "s\<lparr>sv_rows := map ?f (sv_rows s)\<rparr>"
  have j: "cv_job_id row = job" using get_conversion_SomeD [OF assms(2)] by simp
  have start: "start_job env1 job w None s = (?s1, Reply ?r1)"
    using start_pending [OF assms(1-5)] claim_job_pending [OF assms(1-4)] by simp
  have tok: "se_token env1 \<noteq> []" using assms(6) by (auto simp: claim_token_ok_def)
  have "rows_run s ?s1" using start_job_run [OF assms(1) tok, of job w None] start by simp
  then have wf1: "conv_wf (sv_rows ?s1)" using assms(1) by (rule table_run_wf)
  have f: "?f row = ?r1" using j assms(3) by (simp add: transition_row_def)
  have r1: "get_conversion job (sv_rows ?s1) = Some ?r1"
    by (simp, subst get_conversion_map) (simp_all add: assms(2) f)
  have own: "owned_row ''processing'' job w (Some (se_token env1)) ?r1"
    using j assms(3) by (simp add: owned_row_def)
  obtain s2 r2 where fin: "finalize_upload env2 job w (Some (se_token env1)) path (up_content up) rv ?s1 = (s2, Reply (rv_status rv))"
    and s2: "sv_files s2 = (sv_files ?s1)(path \<mapsto> up_content up)" "sv_parts s2 = sv_parts ?s1"
    and r2: "get_conversion job (sv_rows s2) = Some r2" "cv_status r2 = rv_status rv" "cv_stored_docx_path r2 = path"
    using finalize_upload_owned [OF wf1 r1 own assms(8,9,13)] by blast
  have c: "cv_status ?r1 = ''processing''" "cv_worker_name ?r1 = Some w" "cv_claim_token ?r1 = se_token env1"
    "cv_stored_docx_path ?r1 = cv_stored_docx_path row"
    using assms(3) by simp_all
  have wok: "w \<noteq> [] \<and> length w \<le> 120 \<and> worker_name_ok w" "worker_message_ok w (Some (se_token env1))"
    using assms(5,6) by (auto simp: worker_message_ok_def worker_name_ok_def split: list.splits)
  have "upload_result env2 job w (Some (se_token env1)) up ?s1
      = finalize_upload env2 job w (Some (se_token env1)) path (up_content up) rv ?s1"
    unfolding upload_result_def Let_def get_job_row_some [OF assms(4) r1]
    using wok c assms(6,7,8,10-12)
    by (simp add: claim_token_ok_def claim_matches_def docx_file_ok_def)
  then show ?thesis using start c fin s2 r2 by (simp only: simp_thms prod.inject) force
qed

lemma start_then_upload_witness:
  "\<exists>s1 r1 s2. start_job (sample_env 2000 token_a) ''j1'' ''w1'' None (serve_all (take 1 sample_requests)) = (s1, Reply r1)
    \<and> upload_result (sample_env 3000 token_a) ''j1'' ''w1'' (Some (cv_claim_token r1)) (sample_upload (JInt 80) JNull) s1
      = (s2, Reply ''manual_review'')"
proof -
  let ?s = "serve_all (take 1 sample_requests)" and ?e1 = "sample_env 2000 token_a" and ?e2 = "sample_env 3000 token_a"
  let ?up = "sample_upload (JInt 80) JNull"
  let ?row = "hd (sv_rows ?s)"
  have tok: "\<forall>(env, req) \<in> set (take 1 sample_requests). se_token env \<noteq> []" by code_simp
  have "conv_wf (sv_rows empty_server)" by (simp add: empty_server_def conv_wf_def unique_jobs_def)
  then have wf: "conv_wf (sv_rows ?s)"
    unfolding serve_all_def using serve_all_run [OF tok] table_run_wf by blast
  have row: "get_conversion ''j1'' (sv_rows ?s) = Some ?row" "cv_status ?row = ''pending''"
    "se_resolve ?e2 (cv_stored_docx_path ?row) = Some ''out.docx''" by code_simp+
  have ok: "job_id_ok ''j1''" "worker_message_ok ''w1'' None" "claim_token_ok (se_token ?e1)"
    "up_suffix ?up = ''.docx''" "docx_file_ok ?e2 (up_content ?up)"
    "length (up_content ?up) \<le> se_max_result_bytes ?e2" "se_replace_ok ?e2" by code_simp+
  let ?rv = "projr (parse_result ?e2 (up_metadata ?up))"
  have rv: "parse_result ?e2 (up_metadata ?up) = Inr ?rv" "ProcessingTime NaN \<notin> set (rv_cells ?rv)"
    "rv_status ?rv = ''manual_review''" by code_simp+
  from start_then_upload [OF wf row(1,2) ok(1-4) rv(1,2) row(3) ok(5-7)] rv(3) show ?thesis by metis
qed

subsection \<open>A failure report is not fenced\<close>

lemma fail_write_known:
  assumes "conv_wf (sv_rows s)" and "get_conversion job (sv_rows s) = Some row" and "cv_status row = ''processing''"
  shows "\<exists>s' r. fail_write env job w e s = (s', Reply ''failed'') \<and> get_conversion job (sv_rows s') = Some r
    \<and> cv_status r = ''failed'' \<and> cv_worker_name r = Some w"
proof -
  have u: "unique_jobs (sv_rows s)" using assms(1) by (simp add: conv_wf_def)
  have j: "cv_job_id row = job" using get_conversion_SomeD [OF assms(2)] by simp
  let ?e = "Some (take 500 (if se_sanitize env e = [] then ''Worker failed'' else se_sanitize env e))"
  let ?f = "transition_row job ''failed'' (Some w) ?e (se_now env) []"
  have res: "transition_conversion job ''failed'' (Some w) ?e [] (se_now env) [] (sv_rows s)
      = Inr (map ?f (sv_rows s), ?f row)"
    using transition_step_found [OF u transition_known(4) assms(2)] assms(3) by simp
  have "get_conversion job (map ?f (sv_rows s)) = Some (?f row)"
    by (subst get_conversion_map) (simp_all add: assms(2))
  moreover have "cv_status (?f row) = ''failed''" "cv_worker_name (?f row) = Some w"
    using j assms(3) by (simp_all add: transition_row_def)
  ultimately show ?thesis unfolding fail_write_def res by simp
qed

lemma start_reply_processing:
  assumes "conv_wf (sv_rows s)" and "get_conversion job (sv_rows s) = Some row" and "cv_status row = ''processing''"
    and "\<not> claim_matches row w k" and "processing_is_stale env row" and "job_id_ok job" and "worker_message_ok w k"
    and "se_token env \<noteq> []"
  shows "\<exists>s' r. start_job env job w k s = (s', Reply r) \<and> conv_wf (sv_rows s') \<and> get_conversion job (sv_rows s') = Some r
    \<and> cv_status r = ''processing'' \<and> cv_worker_name r = Some w \<and> cv_claim_token r = se_token env"
proof -
  have j: "cv_job_id row = job" using get_conversion_SomeD [OF assms(2)] by simp
  let ?x = "DoAbandonProcessing job (cv_updated_at row) (se_now env)"
  let ?t = "conv_step ?x (sv_rows s)" and ?r = "step_row (DoAbandonProcessing job (cv_updated_at row) (se_now env)) row"
  let ?s1 = "s\<lparr>sv_rows := ?t\<rparr>"
  have u: "unique_jobs (sv_rows s)" using assms(1) by (simp add: conv_wf_def)
  have t: "?t = fst (abandon_stale_processing job (cv_updated_at row) (se_now env) (sv_rows s))"
    by (simp add: conv_step_def)
  have rows: "?t = map (step_row ?x) (sv_rows s)" using run_op_rows [OF u, of ?x] by (simp add: conv_step_def)
  have g: "get_conversion job ?t = Some ?r" unfolding rows by (subst get_conversion_map) (simp_all only: step_row_ident assms(2) option.map)
  have pend: "cv_status ?r = ''pending''"
    using j assms(3) by (simp add: guarded_row_def observed_row_def null_violation_def)
  have wf: "conv_wf (sv_rows ?s1)" using conv_step_wf [OF assms(1), of ?x] by simp
  have rec: "recover_stale_processing_job env row s = (?s1, Reply ?r)"
    using assms(3,5) g j t by (simp add: recover_stale_processing_job_def reread_def case_prod_unfold)
  have claim: "claim_job env job w ?s1 =
    (?s1\<lparr>sv_rows := map (transition_row job ''processing'' (Some w) None (se_now env) (se_token env)) ?t\<rparr>,
     Reply (set_cells (transition_cells ''processing'' (Some w) None [] (se_now env) (se_token env) ?r) ?r))"
    using claim_job_pending [OF wf _ pend assms(6)] g by simp
  let ?s2 = "?s1\<lparr>sv_rows := map (transition_row job ''processing'' (Some w) None (se_now env) (se_token env)) ?t\<rparr>"
  let ?r2 = "set_cells (transition_cells ''processing'' (Some w) None [] (se_now env) (se_token env) ?r) ?r"
  have start: "start_job env job w k s = (?s2, Reply ?r2)"
    using assms(2-4,6,7) rec claim pend
    by (simp add: start_job_def get_job_row_some recover_finalizing_result_def start_recovered_def del: step_row.simps)
  have wf2: "conv_wf (sv_rows ?s2)"
    using start_job_run [OF assms(1,8), of job w k] start assms(1) by (metis fst_conv table_run_wf)
  have "get_conversion job (sv_rows ?s2) = Some ?r2"
    using g pend j by (simp, subst get_conversion_map) (simp_all add: transition_row_def del: step_row.simps)
  then show ?thesis using start wf2 pend by (simp del: step_row.simps)
qed

text \<open>
  The check of a failure report and its write are separate: if a worker's check passes, and the
  job is then taken over as stale by another worker, the first worker's write still goes through. It
  fails the job under its own name, and the new holder's result is refused.
\<close>

theorem failure_report_is_unfenced:
  assumes "conv_wf (sv_rows s)" and "get_conversion job (sv_rows s) = Some row"
    and "fail_check_row a k row = FailWrite" and "processing_is_stale env row"
    and "b \<noteq> a" and "job_id_ok job" and "worker_message_ok b None" and "claim_token_ok (se_token env)"
  shows "\<exists>s1 r1 s2 r2. start_job env job b None s = (s1, Reply r1) \<and> cv_worker_name r1 = Some b
    \<and> fail_write env' job a e s1 = (s2, Reply ''failed'')
    \<and> get_conversion job (sv_rows s2) = Some r2 \<and> cv_status r2 = ''failed'' \<and> cv_worker_name r2 = Some a
    \<and> upload_result env2 job b (Some (cv_claim_token r1)) up s2 = (s2, Http 409 ''Worker does not own this processing job'')"
proof -
  have p: "cv_status row = ''processing''" "claim_matches row a k"
    using assms(3) by (auto simp: fail_check_row_def split: if_splits)
  have nm: "\<not> claim_matches row b None" using p(2) assms(5) by (simp add: claim_matches_def)
  have tok: "se_token env \<noteq> []" using assms(8) by (auto simp: claim_token_ok_def)
  obtain s1 r1 where s1: "start_job env job b None s = (s1, Reply r1)" "conv_wf (sv_rows s1)"
      "get_conversion job (sv_rows s1) = Some r1" "cv_status r1 = ''processing''" "cv_worker_name r1 = Some b"
      "cv_claim_token r1 = se_token env"
    using start_reply_processing [OF assms(1,2) p(1) nm assms(4,6,7) tok] by blast
  obtain s2 r2 where s2: "fail_write env' job a e s1 = (s2, Reply ''failed'')"
      "get_conversion job (sv_rows s2) = Some r2" "cv_status r2 = ''failed''" "cv_worker_name r2 = Some a"
    using fail_write_known [OF s1(2,3,4)] by blast
  have wok: "b \<noteq> [] \<and> length b \<le> 120 \<and> worker_name_ok b" "worker_message_ok b (Some (se_token env))"
      "length (se_token env) = 32"
    using assms(7,8) by (auto simp: worker_message_ok_def worker_name_ok_def claim_token_ok_def split: list.splits)
  have "upload_result env2 job b (Some (se_token env)) up s2 = (s2, Http 409 ''Worker does not own this processing job'')"
    unfolding upload_result_def Let_def get_job_row_some [OF assms(6) s2(2)] using wok s2(3) by simp
  then show ?thesis using s1 s2 by metis
qed

lemma failure_report_is_unfenced_witness:
  "\<exists>s1 r1 s2 r2. start_job (sample_env 1000000000 token_b) ''j1'' ''w2'' None (serve_all sample_requests) = (s1, Reply r1)
    \<and> fail_write (sample_env 1000000001 token_a) ''j1'' ''w1'' ''boom'' s1 = (s2, Reply ''failed'')
    \<and> get_conversion ''j1'' (sv_rows s2) = Some r2 \<and> cv_worker_name r2 = Some ''w1''"
proof -
  let ?s = "serve_all sample_requests" and ?env = "sample_env 1000000000 token_b"
  let ?row = "hd (sv_rows ?s)"
  have tok: "\<forall>(env, req) \<in> set sample_requests. se_token env \<noteq> []" by code_simp
  have "conv_wf (sv_rows empty_server)" by (simp add: empty_server_def conv_wf_def unique_jobs_def)
  then have wf: "conv_wf (sv_rows ?s)"
    unfolding serve_all_def using serve_all_run [OF tok] table_run_wf by blast
  have c: "get_conversion ''j1'' (sv_rows ?s) = Some ?row" "fail_check_row ''w1'' (Some token_a) ?row = FailWrite"
    "processing_is_stale ?env ?row" "''w2'' \<noteq> ''w1''" "job_id_ok ''j1''" "worker_message_ok ''w2'' None"
    "claim_token_ok (se_token ?env)" by code_simp+
  from failure_report_is_unfenced [OF wf c, of "sample_env 1000000001 token_a" "''boom''" ?env "sample_upload JNull JNull"]
  show ?thesis by blast
qed

subsection \<open>An abandoned finalization that nothing picks up\<close>

lemma update_queue_other:
  assumes "unique_jobs t" and "get_conversion job t = Some r" and "cv_id r \<noteq> n" and "update_conversion n [RqJobId rq] t = Inr u"
  shows "get_conversion job u = Some r"
proof -
  have "u = map (\<lambda>x. if cv_id x = n then set_cells [RqJobId rq] x else x) t"
    using assms(4) by (simp add: update_queue_id tbl_update_def)
  then show ?thesis using assms(2,3) by (simp only:) (subst get_conversion_map, auto)
qed

lemma dispatch_other:
  assumes "unique_jobs t" and "get_conversion job t = Some r" and "j \<noteq> job"
  shows "get_conversion job (fst (dispatch_conversion_job env j t)) = Some r"
proof (cases "se_enqueue env j")
  case None
  then show ?thesis using assms(2) by (simp add: dispatch_conversion_job_def)
next
  case (Some rq)
  show ?thesis
  proof (cases "get_conversion j t")
    case None
    then show ?thesis using Some assms(2) by (simp add: dispatch_conversion_job_def)
  next
    case (Some x)
    have "x \<noteq> r" using get_conversion_SomeD [OF Some] get_conversion_SomeD [OF assms(2)] assms(3) by auto
    then have "cv_id r \<noteq> cv_id x"
      using same_id_same_row [OF assms(1)] get_conversion_SomeD [OF Some] get_conversion_SomeD [OF assms(2)] by metis
    then show ?thesis
      using update_queue_other [OF assms(1,2), of "cv_id x"] \<open>se_enqueue env j = Some rq\<close> Some assms(2)
      by (simp add: dispatch_conversion_job_def split: sum.split)
  qed
qed

lemma re_dispatch_other:
  assumes "conv_wf t" and "get_conversion job t = Some r" and "\<forall>x \<in> set rs. cv_job_id x = job \<longrightarrow> cv_rq_job_id x \<noteq> []"
  shows "get_conversion job (fst (re_dispatch env rs t n)) = Some r"
  using assms
proof (induction rs arbitrary: t n)
  case (Cons x rs)
  show ?case
  proof (cases "cv_rq_job_id x = []")
    case True
    obtain t' st where d: "dispatch_conversion_job env (cv_job_id x) t = (t', st)" by force
    have "get_conversion job t' = Some r"
      using dispatch_other [of t job r "cv_job_id x" env] Cons.prems True d by (auto simp: conv_wf_def)
    moreover have "conv_wf t'"
      using dispatch_run [of t env "cv_job_id x"] d Cons.prems(1) table_run_wf by (metis fst_conv)
    ultimately show ?thesis using Cons.IH Cons.prems(3) True d by simp
  next
    case False
    then show ?thesis using Cons by simp
  qed
qed simp

lemma re_dispatch_skips:
  assumes "conv_wf t" and "get_conversion job t = Some r" and "cv_rq_job_id r \<noteq> []"
  shows "get_conversion job (fst (re_dispatch_deferred_conversions env t)) = Some r
    \<and> conv_wf (fst (re_dispatch_deferred_conversions env t))"
proof -
  have u: "unique_jobs t" using assms(1) by (simp add: conv_wf_def)
  have "\<forall>x \<in> set (list_pending_conversions t). cv_job_id x = job \<longrightarrow> cv_rq_job_id x \<noteq> []"
    using same_job_same_row [OF u] get_conversion_SomeD [OF assms(2)] assms(3)
    by (fastforce simp: list_pending_conversions_def)
  then show ?thesis
    using re_dispatch_other [OF assms(1,2)] table_run_wf [OF re_dispatch_run assms(1)]
    by (simp add: re_dispatch_deferred_conversions_def)
qed

text \<open>
  C17. When a guest looks at a job whose finalization has been abandoned, the job goes back to pending
  with its old queue id. No maintenance pass offers it to the queue again (only rows without a queue
  id are), and no owner's retry accepts it (only failed and cancelled jobs are).
\<close>

theorem abandoned_job_is_stuck:
  assumes "conv_wf (sv_rows s)" and "get_conversion job (sv_rows s) = Some row" and "cv_status row = ''finalizing''"
    and "cv_rq_job_id row \<noteq> []" and "job_id_ok job" and "get_guest_job job (Some scope) (se_now env) (sv_guest s) = Some g"
    and "se_resolve env (cv_stored_docx_path row) = Some path" and "sv_files s path = None" and "finalizing_is_stale env row"
  shows "\<exists>s1 r. view_guest_job env job scope s = (s1, Reply ''pending'')
    \<and> get_conversion job (sv_rows s1) = Some r \<and> cv_status r = ''pending''
    \<and> (\<forall>envs. get_conversion job (fold (\<lambda>e t. fst (re_dispatch_deferred_conversions e t)) envs (sv_rows s1)) = Some r)
    \<and> (\<forall>env' user. \<exists>c d. retry_user_document env' job user s1 = (s1, Http c d))"
proof -
  have j: "cv_job_id row = job" using get_conversion_SomeD [OF assms(2)] by simp
  let ?x = "DoAbandonFinalizing job (cv_updated_at row) (se_now env)"
  let ?t = "conv_step ?x (sv_rows s)" and ?r = "step_row (DoAbandonFinalizing job (cv_updated_at row) (se_now env)) row"
  let ?s1 = "s\<lparr>sv_rows := ?t\<rparr>"
  have u: "unique_jobs (sv_rows s)" and ok: "row_ok row"
    using assms(1) get_conversion_SomeD [OF assms(2)] by (simp_all add: conv_wf_def)
  have rows: "?t = map (step_row ?x) (sv_rows s)" using run_op_rows [OF u, of ?x] by (simp add: conv_step_def)
  have g: "get_conversion job ?t = Some ?r"
    unfolding rows by (subst get_conversion_map) (simp_all only: step_row_ident assms(2) option.map)
  have r: "cv_status ?r = ''pending''" "cv_rq_job_id ?r \<noteq> []"
    using j assms(3,4) by (simp_all add: guarded_row_def observed_row_def)
  have wf: "conv_wf ?t" by (rule conv_step_wf [OF assms(1)])
  have tg: "cv_intended_final_status row \<in> {''completed'', ''manual_review''}"
    using ok assms(3) by (simp add: row_ok_def)
  have t: "?t = fst (abandon_conversion_finalization job (cv_updated_at row) (se_now env) (sv_rows s))"
    by (simp add: conv_step_def)
  have "recover_finalizing_result env row s = reread job ?s1"
    unfolding recover_finalizing_result_def Let_def j assms(3,7) t case_prod_unfold
    using tg assms(8,9) by simp
  also have "\<dots> = (?s1, Reply ?r)" using g by (simp add: reread_def del: step_row.simps)
  finally have "recover_finalizing_result env row s = (?s1, Reply ?r)" .
  then have view: "view_guest_job env job scope s = (?s1, Reply ''pending'')"
    using assms(2,5,6) r(1) by (simp add: view_guest_job_def guest_recovered_def del: step_row.simps)
  have "get_conversion job (fold (\<lambda>e t. fst (re_dispatch_deferred_conversions e t)) envs t) = Some ?r"
    if "conv_wf t" "get_conversion job t = Some ?r" for envs t
    using that by (induction envs arbitrary: t) (use re_dispatch_skips r(2) in auto)
  then have skips: "\<forall>envs. get_conversion job (fold (\<lambda>e t. fst (re_dispatch_deferred_conversions e t)) envs ?t) = Some ?r"
    using wf g by blast
  have "\<exists>c d. retry_user_document env' job user ?s1 = (?s1, Http c d)" for env' user
  proof (cases "owner_row job user ?t")
    case (Reply x)
    then have "x = ?r"
      using owner_row_Reply [OF Reply] get_conversion_row [OF wf [unfolded conv_wf_def, THEN conjunct1], of x] g by simp
    then show ?thesis using Reply r(1) by (simp add: retry_user_document_def del: step_row.simps)
  qed (simp add: retry_user_document_def)
  then show ?thesis
    using view g r(1) skips by (intro exI [of _ ?s1] exI [of _ ?r]) (simp del: step_row.simps)
qed

definition stuck_server :: server where
  "stuck_server =
     (let s = serve_all [(sample_env 1000 token_a, RCreateUser ''j1'' ''guest'' ''x'' ''out.docx''), (sample_env 1500 token_a, RMaintenance),
                (sample_env 2000 token_a, RStart ''j1'' ''w1'' None)];
          t = conv_step (DoPrepare ''j1'' ''completed'' ''w1'' (Some token_a) None [] 3000) (sv_rows s)
      in s\<lparr>sv_rows := t, sv_guest := fold (guest_step id) [GCreateSession 3600 ''ip'' ''g1'' ''sid'' ''csrf'' 10,
         GCreateJob ''j1'' ''g1'' ''dl'' ''in.pdf'' ''out.docx'' 2 500 (At 900000000) 20] empty_guest_db\<rparr>)"

lemma abandoned_job_is_stuck_witness:
  "\<exists>s1 r. view_guest_job (sample_env 400000000 token_b) ''j1'' ''g1'' stuck_server = (s1, Reply ''pending'')
    \<and> get_conversion ''j1'' (sv_rows s1) = Some r
    \<and> get_conversion ''j1'' (fst (re_dispatch_deferred_conversions (sample_env 500000000 token_b) (sv_rows s1))) = Some r"
proof -
  let ?s = "stuck_server"
  let ?rs = "[(sample_env 1000 token_a, RCreateUser ''j1'' ''guest'' ''x'' ''out.docx''), (sample_env 1500 token_a, RMaintenance),
                (sample_env 2000 token_a, RStart ''j1'' ''w1'' None)]"
  let ?env = "sample_env 400000000 token_b"
  let ?row = "hd (sv_rows ?s)"
  have tok: "\<forall>(env, req) \<in> set ?rs. se_token env \<noteq> []" by code_simp
  have "conv_wf (sv_rows empty_server)" by (simp add: empty_server_def conv_wf_def unique_jobs_def)
  then have "conv_wf (sv_rows (serve_all ?rs))"
    unfolding serve_all_def using serve_all_run [OF tok] table_run_wf by blast
  then have wf: "conv_wf (sv_rows ?s)" by (simp add: stuck_server_def Let_def conv_step_wf)
  have c: "get_conversion ''j1'' (sv_rows ?s) = Some ?row" "cv_status ?row = ''finalizing''" "cv_rq_job_id ?row \<noteq> []"
    "job_id_ok ''j1''" "se_resolve ?env (cv_stored_docx_path ?row) = Some ''out.docx''" "sv_files ?s ''out.docx'' = None"
    "finalizing_is_stale ?env ?row" "get_guest_job ''j1'' (Some ''g1'') (se_now ?env) (sv_guest ?s) \<noteq> None"
    by code_simp+
  then obtain g where g: "get_guest_job ''j1'' (Some ''g1'') (se_now ?env) (sv_guest ?s) = Some g" by blast
  obtain s1 r where "view_guest_job ?env ''j1'' ''g1'' ?s = (s1, Reply ''pending'')" "get_conversion ''j1'' (sv_rows s1) = Some r"
    and keep: "\<forall>envs. get_conversion ''j1'' (fold (\<lambda>e t. fst (re_dispatch_deferred_conversions e t)) envs (sv_rows s1)) = Some r"
    using abandoned_job_is_stuck [OF wf c(1-4) g c(5-7)] by blast
  then show ?thesis using keep [rule_format, of "[sample_env 500000000 token_b]"] by (simp only: fold_simps) blast
qed

subsection \<open>A claimed guest document stays out of reach\<close>

lemma transition_row_owner [simp]: "cv_owner_user_id (transition_row job target w e now k r) = cv_owner_user_id r"
  by (simp add: transition_row_def)

lemma guarded_row_owner [simp]: "cv_owner_user_id (guarded_row hit cs r) = cv_owner_user_id r"
  by (simp add: guarded_row_def)

lemma step_keeps_owner:
  assumes "conv_wf t" and "get_conversion job t = Some r"
  shows "\<exists>r'. get_conversion job (conv_step x t) = Some r' \<and> cv_owner_user_id r' = cv_owner_user_id r"
proof -
  have u: "unique_jobs t" using assms(1) by (simp add: conv_wf_def)
  have own: "cv_owner_user_id (step_row x r) = cv_owner_user_id r" for x r
    by (cases x; simp only: step_row.simps guarded_row_owner transition_row_owner set_cells_ident split: if_split; simp)
  show ?thesis
  proof (rule conv_step_cases [OF u, of x])
    assume eq: "conv_step x t = map (step_rows x) t"
    show ?thesis unfolding eq by (subst get_conversion_map) (simp_all add: assms(2) step_rows_def own)
  next
    fix j user owner guest docx now
    assume "conv_step x t = t @ [new_conversion (next_conversion_id t) j user owner guest docx now]"
    then show ?thesis using assms(2) by (simp add: get_conversion_snoc)
  qed
qed

lemma run_keeps_owner:
  "table_run t u \<Longrightarrow> conv_wf t \<Longrightarrow> get_conversion job t = Some r
    \<Longrightarrow> \<exists>r'. get_conversion job u = Some r' \<and> cv_owner_user_id r' = cv_owner_user_id r"
proof (induction rule: table_run.induct)
  case (run_step t u x)
  then obtain r1 where r1: "get_conversion job u = Some r1" "cv_owner_user_id r1 = cv_owner_user_id r" by blast
  have "conv_wf u" using run_step.hyps(1) run_step.prems(1) by (rule table_run_wf)
  from step_keeps_owner [OF this r1(1), of x] show ?case using r1(2) by metis
qed blast

lemma guest_claim_Reply:
  assumes "guest_claim env job scope token user s = (s1, Reply owner)"
  shows "\<exists>g j. claim_guest_job (se_digest env) job scope token user (se_now env) (sv_guest s) = Inr (g, Some j)
    \<and> owner = gj_owner_user_id j \<and> s1 = s\<lparr>sv_guest := g\<rparr>"
proof (cases "claim_guest_job (se_digest env) job scope token user (se_now env) (sv_guest s)")
  case (Inl e)
  then show ?thesis using assms by (cases e) (simp_all add: guest_claim_def internal_error_def)
next
  case (Inr p)
  then show ?thesis using assms
    by (cases p; cases "snd p") (simp_all add: guest_claim_def internal_error_def)
qed

text \<open>
  Claiming a guest job writes the new owner into \<open>guest_jobs\<close> only. The user endpoints read
  \<open>conversions\<close>, whose row keeps its empty owner whatever is requested later, so the claimed document
  is never found for the user it was transferred to.
\<close>

theorem claimed_document_unreachable:
  assumes "conv_wf (sv_rows s)" and "get_conversion job (sv_rows s) = Some row" and "cv_owner_user_id row = []"
    and "guest_claim env job scope token user s = (s1, Reply owner)" and "user \<noteq> []" and "job_id_ok job"
    and "\<forall>(env, req) \<in> set rs. se_token env \<noteq> []"
  shows "owner = user
    \<and> download_user_document env' job user (fold (\<lambda>(env, r). serve env r) rs s1) = Http 404 ''Document not found''"
proof
  obtain g j where c: "claim_guest_job (se_digest env) job scope token user (se_now env) (sv_guest s) = Inr (g, Some j)"
    and ow: "owner = gj_owner_user_id j" and s1: "s1 = s\<lparr>sv_guest := g\<rparr>"
    using guest_claim_Reply [OF assms(4)] by blast
  have "tbl_find (\<lambda>j. gj_job_id j = job) (gd_jobs (claim_guest_write job scope user (se_now env) (sv_guest s))) = Some j"
    using c by (auto simp: claim_guest_job_def Let_def split: option.splits)
  from tbl_find_SomeD [OF this]
  have "gj_job_id j = job" and mem: "j \<in> set (gd_jobs (claim_guest_write job scope user (se_now env) (sv_guest s)))"
    by simp_all
  have "gd_jobs (claim_guest_write job scope user (se_now env) (sv_guest s)) = tbl_update (\<lambda>j. gj_job_id j = job)
      (\<lambda>j. j\<lparr>gj_owner_user_id := user, gj_claimed_at := At (se_now env), gj_status := ''claimed''\<rparr>) (gd_jobs (sv_guest s))"
    by (simp add: claim_guest_write_def)
  note mem [unfolded this set_tbl_update]
  then obtain x where x: "j = (if gj_job_id x = job
      then x\<lparr>gj_owner_user_id := user, gj_claimed_at := At (se_now env), gj_status := ''claimed''\<rparr> else x)"
    by (rule imageE)
  then have "gj_job_id x = job" using \<open>gj_job_id j = job\<close> by (cases "gj_job_id x = job") simp_all
  then show "owner = user" unfolding ow x by simp
  let ?s2 = "fold (\<lambda>(env, r). serve env r) rs s1"
  have wf: "conv_wf (sv_rows s1)" using assms(1) by (simp add: s1)
  have run: "table_run (sv_rows s1) (sv_rows ?s2)" by (rule serve_all_run [OF assms(7) wf])
  have wf2: "conv_wf (sv_rows ?s2)" using run wf by (rule table_run_wf)
  obtain r' where r': "get_conversion job (sv_rows ?s2) = Some r'" "cv_owner_user_id r' = []"
    using run_keeps_owner [OF run wf, of job row] assms(2,3) by (auto simp: s1)
  have "get_owner_conversion job user (sv_rows ?s2) = None"
    using get_conversion_row [OF wf2 [unfolded conv_wf_def, THEN conjunct1]] r' assms(5)
    by (fastforce simp: get_owner_conversion_def tbl_find_None)
  then show "download_user_document env' job user ?s2 = Http 404 ''Document not found''"
    using assms(6) by (simp add: download_user_document_def owner_row_def)
qed

definition guest_requests :: "(server_env \<times> request) list" where
  "guest_requests =
     [(sample_env 1000 token_a, RCreateGuest ''j1'' ''g1'' ''dl'' ''in.pdf'' ''out.docx'' 2 500 (At 900000000))]"

definition guest_server :: server where
  "guest_server = (let s = empty_server\<lparr>sv_guest := fold (guest_step id)
       [GCreateSession 3600 ''ip'' ''g1'' ''sid'' ''csrf'' 10, GIssueToken ''g1'' ''tok'' 20] empty_guest_db\<rparr>
     in fold (\<lambda>(env, r). serve env r) guest_requests s)"

lemma claimed_document_unreachable_witness:
  "\<exists>s1. guest_claim (sample_env 2000 token_a) ''j1'' ''g1'' ''tok'' ''u1'' guest_server = (s1, Reply ''u1'')
    \<and> download_user_document (sample_env 5000 token_a) ''j1'' ''u1''
        (fold (\<lambda>(env, r). serve env r) [(sample_env 3000 token_a, RStart ''j1'' ''w1'' None),
           (sample_env 4000 token_a, RUpload ''j1'' ''w1'' (Some token_a) (sample_upload (JInt 95) JNull))] s1)
      = Http 404 ''Document not found''"
proof -
  let ?s = "guest_server" and ?row = "hd (sv_rows guest_server)" and ?env = "sample_env 2000 token_a"
  let ?g = "fold (guest_step id) [GCreateSession 3600 ''ip'' ''g1'' ''sid'' ''csrf'' 10, GIssueToken ''g1'' ''tok'' 20] empty_guest_db"
  let ?rs = "[(sample_env 3000 token_a, RStart ''j1'' ''w1'' None),
           (sample_env 4000 token_a, RUpload ''j1'' ''w1'' (Some token_a) (sample_upload (JInt 95) JNull))]"
  have tok: "\<forall>(env, req) \<in> set guest_requests. se_token env \<noteq> []" "\<forall>(env, req) \<in> set ?rs. se_token env \<noteq> []" by code_simp+
  have "conv_wf (sv_rows (empty_server\<lparr>sv_guest := ?g\<rparr>))" by (simp add: empty_server_def conv_wf_def unique_jobs_def)
  then have wf: "conv_wf (sv_rows ?s)"
    unfolding guest_server_def Let_def using serve_all_run [OF tok(1)] table_run_wf by blast
  have c: "get_conversion ''j1'' (sv_rows ?s) = Some ?row" "cv_owner_user_id ?row = []" by code_simp+
  have d: "''u1'' \<noteq> []" "job_id_ok ''j1''" by code_simp+
  have "snd (guest_claim ?env ''j1'' ''g1'' ''tok'' ''u1'' ?s) = Reply ''u1''" by code_simp
  then have "guest_claim ?env ''j1'' ''g1'' ''tok'' ''u1'' ?s
      = (fst (guest_claim ?env ''j1'' ''g1'' ''tok'' ''u1'' ?s), Reply ''u1'')" by (metis prod.collapse)
  from claimed_document_unreachable [OF wf c this d tok(2)] this show ?thesis by blast
qed

subsection \<open>A result that ends in an internal error\<close>

text \<open>
  A processing time that \<open>float\<close> reads as NaN passes the metadata checks but violates the column's
  \<open>NOT NULL\<close>: the upload by the claim's holder ends in an internal error, the temporary file stays
  behind, and the job stays in processing.
\<close>

theorem nan_time_leaks_upload:
  assumes "conv_wf (sv_rows s)" and "get_conversion job (sv_rows s) = Some row" and "cv_status row = ''processing''"
    and "cv_worker_name row = Some w" and "cv_claim_token row = k" and "job_id_ok job" and "worker_message_ok w (Some k)"
    and "up_suffix up = ''.docx''" and "parse_result env (up_metadata up) = Inr rv"
    and "ProcessingTime NaN \<in> set (rv_cells rv)" and "se_resolve env (cv_stored_docx_path row) = Some path"
    and "docx_file_ok env (up_content up)" and "length (up_content up) \<le> se_max_result_bytes env"
  shows "upload_result env job w (Some k) up s
    = (s\<lparr>sv_parts := sv_parts s @ [up_content up]\<rparr>, Http 500 ''Internal Server Error'')"
proof -
  have j: "cv_job_id row = job" "row \<in> set (sv_rows s)" using get_conversion_SomeD [OF assms(2)] by simp_all
  have u: "unique_jobs (sv_rows s)" using assms(1) by (simp add: conv_wf_def)
  obtain ft tq lq fq engine time where c: "rv_cells rv = [FileType ft, TextQuality tq, LayoutQuality lq,
      FinalQuality fq, WinningEngine engine, ProcessingTime time]"
    and tg: "rv_status rv \<in> {''completed'', ''manual_review''}"
    using parse_result_cells [OF assms(9)] by blast
  have time: "time = NaN" using assms(10) by (simp add: c)
  let ?hit = "owned_row ''processing'' job w (Some k)"
  have "?hit row" using j assms(3-5) by (simp add: owned_row_def)
  then have n: "tbl_count ?hit (sv_rows s) \<noteq> 0" using j(2) by (auto simp: tbl_count_0)
  have "prepare_conversion_finalization job (rv_status rv) w (Some k) (result_message rv)
      (StoredDocx path # rv_cells rv) (se_now env) (sv_rows s) = Inl (DbIntegrityError ''conversions.processing_time'')"
    using tg n time
    by (simp add: prepare_conversion_finalization_def guarded_update_def Let_def null_violation_def c
        only_columns_def result_columns_def)
  then have fin: "finalize_upload env job w (Some k) path (up_content up) rv s
      = (s\<lparr>sv_parts := sv_parts s @ [up_content up]\<rparr>, Http 500 ''Internal Server Error'')"
    by (simp add: finalize_upload_def internal_error_def)
  have wok: "w \<noteq> [] \<and> length w \<le> 120 \<and> worker_name_ok w" "length k = 32"
    using assms(7) by (auto simp: worker_message_ok_def worker_name_ok_def claim_token_ok_def split: list.splits)
  show ?thesis
    unfolding upload_result_def Let_def get_job_row_some [OF assms(6,2)]
    using wok fin assms(3-5,7-9,11-13) by (simp add: claim_matches_def docx_file_ok_def)
qed

lemma nan_time_leaks_upload_witness:
  "upload_result (sample_env 3000 token_a) ''j1'' ''w1'' (Some token_a) (sample_upload (JInt 95) (JStr ''nan'')) (serve_all sample_requests)
    = ((serve_all sample_requests)\<lparr>sv_parts := sv_parts (serve_all sample_requests) @ [''PK..result'']\<rparr>,
       Http 500 ''Internal Server Error'')"
proof -
  let ?s = "serve_all sample_requests" and ?env = "sample_env 3000 token_a" and ?up = "sample_upload (JInt 95) (JStr ''nan'')"
  let ?row = "hd (sv_rows ?s)" and ?rv = "projr (parse_result (sample_env 3000 token_a) (up_metadata (sample_upload (JInt 95) (JStr ''nan''))))"
  have tok: "\<forall>(env, req) \<in> set sample_requests. se_token env \<noteq> []" by code_simp
  have "conv_wf (sv_rows empty_server)" by (simp add: empty_server_def conv_wf_def unique_jobs_def)
  then have wf: "conv_wf (sv_rows ?s)"
    unfolding serve_all_def using serve_all_run [OF tok] table_run_wf by blast
  have c: "get_conversion ''j1'' (sv_rows ?s) = Some ?row" "cv_status ?row = ''processing''" "cv_worker_name ?row = Some ''w1''"
    "cv_claim_token ?row = token_a" "job_id_ok ''j1''" "worker_message_ok ''w1'' (Some token_a)" "up_suffix ?up = ''.docx''"
    "parse_result ?env (up_metadata ?up) = Inr ?rv" "ProcessingTime NaN \<in> set (rv_cells ?rv)"
    "se_resolve ?env (cv_stored_docx_path ?row) = Some ''out.docx''" "docx_file_ok ?env (up_content ?up)"
    "length (up_content ?up) \<le> se_max_result_bytes ?env" by code_simp+
  have content: "up_content ?up = ''PK..result''" by code_simp
  from nan_time_leaks_upload [OF wf c] show ?thesis unfolding content .
qed

end
