(* ===== verification/Dataset_Sample.thy ===== *)
theory Dataset_Sample
  imports Json "HOL-Library.Monad_Syntax"
begin

text \<open>
  The sample of the pre-training data set (\<open>clouda_data/pretraining/schema.py\<close>): its enumerations,
  the record with its JSON form, the lexical normalization of provenance paths, and the order of
  samples in every manifest. Paths are strings of bytes in UTF-8; control characters are recognized
  in ASCII and the Latin-1 supplement's lead byte is left to the parameter \<open>unsafe\<close>.
\<close>

subsection \<open>Enumerations\<close>

datatype split_name = Unassigned | Train | Validation | Test | Holdout

fun split_value :: "split_name \<Rightarrow> string" where
  "split_value Unassigned = ''unassigned''"
| "split_value Train = ''train''"
| "split_value Validation = ''validation''"
| "split_value Test = ''test''"
| "split_value Holdout = ''holdout''"

datatype duplicate_state = Unique | Canonical | Duplicate | ConflictingDuplicate

fun duplicate_value :: "duplicate_state \<Rightarrow> string" where
  "duplicate_value Unique = ''unique''"
| "duplicate_value Canonical = ''canonical''"
| "duplicate_value Duplicate = ''duplicate''"
| "duplicate_value ConflictingDuplicate = ''conflicting_duplicate''"

datatype validation_status = StatusOk | StatusWarning | StatusError | StatusExcluded

fun validation_value :: "validation_status \<Rightarrow> string" where
  "validation_value StatusOk = ''ok''"
| "validation_value StatusWarning = ''warning''"
| "validation_value StatusError = ''error''"
| "validation_value StatusExcluded = ''excluded''"

definition EXPORTABLE_SPLITS :: "split_name list" where
  "EXPORTABLE_SPLITS = [Train, Validation, Test]"

definition EXPORTABLE_STATUSES :: "validation_status list" where
  "EXPORTABLE_STATUSES = [StatusOk, StatusWarning]"

definition EXPORTABLE_DUPLICATE_STATES :: "duplicate_state list" where
  "EXPORTABLE_DUPLICATE_STATES = [Unique, Canonical, ConflictingDuplicate]"

text \<open>\<open>SplitName(value)\<close> and its siblings: nothing where Python raises \<open>ValueError\<close>.\<close>

definition by_value :: "('e \<Rightarrow> string) \<Rightarrow> 'e list \<Rightarrow> string \<Rightarrow> 'e option" where
  "by_value f es v = List.find (\<lambda>e. f e = v) es"

definition split_of_value :: "string \<Rightarrow> split_name option" where
  "split_of_value = by_value split_value [Unassigned, Train, Validation, Test, Holdout]"

definition duplicate_of_value :: "string \<Rightarrow> duplicate_state option" where
  "duplicate_of_value = by_value duplicate_value [Unique, Canonical, Duplicate, ConflictingDuplicate]"

definition validation_of_value :: "string \<Rightarrow> validation_status option" where
  "validation_of_value = by_value validation_value [StatusOk, StatusWarning, StatusError, StatusExcluded]"

lemma split_value_inj [simp]: "split_value a = split_value b \<longleftrightarrow> a = b"
  by (cases a; cases b; simp)

lemma split_of_split_value [simp]: "split_of_value (split_value a) = Some a"
  by (cases a) (simp_all add: split_of_value_def by_value_def)

lemma duplicate_of_duplicate_value [simp]: "duplicate_of_value (duplicate_value a) = Some a"
  by (cases a) (simp_all add: duplicate_of_value_def by_value_def)

lemma validation_of_validation_value [simp]: "validation_of_value (validation_value a) = Some a"
  by (cases a) (simp_all add: validation_of_value_def by_value_def)

subsection \<open>Paths\<close>

text \<open>\<open>path.split('/')\<close> and \<open>'/'.join(parts)\<close>.\<close>

fun split_on :: "char \<Rightarrow> string \<Rightarrow> string list" where
  "split_on d [] = [[]]"
| "split_on d (c # cs) =
     (if c = d then [] # split_on d cs
      else case split_on d cs of [] \<Rightarrow> [[c]] | p # ps \<Rightarrow> (c # p) # ps)"

fun join_with :: "string \<Rightarrow> string list \<Rightarrow> string" where
  "join_with d [] = []"
| "join_with d [p] = p"
| "join_with d (p # q # ps) = p @ d @ join_with d (q # ps)"

text \<open>The component loop of \<open>posixpath.normpath\<close> on a relative path; the stack is kept in reverse.\<close>

fun norm_components :: "string list \<Rightarrow> string list \<Rightarrow> string list" where
  "norm_components acc [] = rev acc"
| "norm_components acc (p # ps) =
     (if p = [] \<or> p = ''.'' then norm_components acc ps
      else if p \<noteq> ''..'' \<or> acc = [] \<or> hd acc = ''..'' then norm_components (p # acc) ps
      else norm_components (tl acc) ps)"

definition normpath :: "string \<Rightarrow> string" where
  "normpath path = (let p = join_with ''/'' (norm_components [] (split_on CHR ''/'' path)) in if p = [] then ''.'' else p)"

datatype path_error = PathControls | PathAbsolute string | PathEscapes string | PathEmpty

definition windows_drive :: "string \<Rightarrow> bool" where
  "windows_drive s \<longleftrightarrow> (case s of
     c # d # rest \<Rightarrow> (let n = (of_char c :: nat) in (65 \<le> n \<and> n \<le> 90) \<or> (97 \<le> n \<and> n \<le> 122))
       \<and> d = CHR '':'' \<and> (rest = [] \<or> rest = [CHR 0x0A] \<or> hd rest = CHR ''/'')
   | _ \<Rightarrow> False)"

definition canonical_relative_path :: "(string \<Rightarrow> bool) \<Rightarrow> bool \<Rightarrow> string \<Rightarrow> path_error + string" where
  "canonical_relative_path unsafe allow_empty value =
     (let separated = map (\<lambda>c. if c = CHR 0x5C then CHR ''/'' else c) value;
          normalized = (let p = normpath separated in if p = ''.'' then [] else p)
      in if unsafe value then Inl PathControls
         else if has_prefix ''/'' separated \<or> windows_drive separated then Inl (PathAbsolute value)
         else if normalized = ''..'' \<or> has_prefix ''../'' normalized then Inl (PathEscapes value)
         else if normalized = [] \<and> \<not> allow_empty then Inl PathEmpty
         else Inr normalized)"

definition stable_sample_id ::
  "(string \<Rightarrow> bool) \<Rightarrow> (string \<Rightarrow> string) \<Rightarrow> string \<Rightarrow> string \<Rightarrow> string \<Rightarrow> path_error + string" where
  "stable_sample_id unsafe sha256 source_id source_path record_key =
     (if source_id = [] \<or> unsafe source_id then Inl PathControls
      else case canonical_relative_path unsafe False source_path of
        Inl e \<Rightarrow> Inl e
      | Inr path \<Rightarrow>
          (case canonical_relative_path unsafe True record_key of
             Inl e \<Rightarrow> Inl e
           | Inr key \<Rightarrow> Inr (''smp_'' @ take 20 (sha256 (join_with [CHR 0x00] [source_id, path, key])))))"

text \<open>Facts on splitting and joining.\<close>

lemma split_on_not_Nil [simp]: "split_on d s \<noteq> []"
  by (induction s) (auto split: list.splits)

lemma split_on_parts: "p \<in> set (split_on d s) \<Longrightarrow> d \<notin> set p"
  by (induction s arbitrary: p) (auto split: list.splits if_splits)

lemma split_on_single: "d \<notin> set p \<Longrightarrow> split_on d p = [p]"
  by (induction p) auto

lemma split_on_append: "d \<notin> set p \<Longrightarrow> split_on d (p @ d # s) = p # split_on d s"
  by (induction p) auto

lemma split_join: "ps \<noteq> [] \<Longrightarrow> \<forall>p \<in> set ps. d \<notin> set p \<Longrightarrow> split_on d (join_with [d] ps) = ps"
  by (induction "[d]" ps rule: join_with.induct) (auto simp: split_on_single split_on_append)

lemma join_split [simp]: "join_with [d] (split_on d s) = s"
proof (induction s)
  case (Cons c s)
  then show ?case by (cases "split_on d s"; cases "tl (split_on d s)") (auto split: list.splits)
qed simp

lemma join_Nil_iff: "\<forall>p \<in> set ps. p \<noteq> [] \<Longrightarrow> join_with d ps = [] \<longleftrightarrow> ps = []"
  by (cases ps rule: list.exhaust; cases "tl ps") auto

subsection \<open>What the normalized paths are\<close>

definition plain_component :: "string \<Rightarrow> bool" where
  "plain_component p \<longleftrightarrow> p \<notin> {[], ''.'', ''..''} \<and> CHR ''/'' \<notin> set p"

text \<open>The result is a run of \<open>..\<close> followed by plain components.\<close>

fun climbs_then_plain :: "string list \<Rightarrow> bool" where
  "climbs_then_plain [] \<longleftrightarrow> True"
| "climbs_then_plain (p # ps) \<longleftrightarrow> (p = ''..'' \<and> climbs_then_plain ps) \<or> (\<forall>q \<in> set (p # ps). plain_component q)"

lemma climbs_snoc_plain: "climbs_then_plain ps \<Longrightarrow> plain_component q \<Longrightarrow> climbs_then_plain (ps @ [q])"
  by (induction ps) auto

lemma climbs_snoc_up: "climbs_then_plain ps \<Longrightarrow> ps = [] \<or> last ps = ''..'' \<Longrightarrow> climbs_then_plain (ps @ [''..''])"
proof (induction ps)
  case (Cons p ps)
  show ?case
  proof (cases "p = ''..'' \<and> climbs_then_plain ps")
    case True
    then show ?thesis using Cons by (cases ps) auto
  next
    case False
    then have "\<forall>q \<in> set (p # ps). plain_component q" using Cons.prems(1) by auto
    then have "plain_component (last (p # ps))" using last_in_set [of "p # ps"] by blast
    then show ?thesis using Cons.prems(2) by (simp add: plain_component_def)
  qed
qed simp

lemma climbs_butlast: "climbs_then_plain ps \<Longrightarrow> climbs_then_plain (butlast ps)"
  by (induction ps) (auto dest: in_set_butlastD)

lemma norm_components_climbs:
  assumes "\<forall>p \<in> set ps. CHR ''/'' \<notin> set p" and "climbs_then_plain (rev acc)"
  shows "climbs_then_plain (norm_components acc ps)"
  using assms
proof (induction acc ps rule: norm_components.induct)
  case (2 acc p ps)
  have up: "climbs_then_plain (rev acc @ [''..''])" if "acc = [] \<or> hd acc = ''..''"
    using climbs_snoc_up [OF "2.prems"(2)] that by (auto simp: last_rev)
  have "climbs_then_plain (rev (tl acc))" using climbs_butlast [OF "2.prems"(2)] by (simp add: butlast_rev)
  moreover have "climbs_then_plain (rev (p # acc))" if "p \<noteq> [] \<and> p \<noteq> ''.''" "p \<noteq> ''..'' \<or> acc = [] \<or> hd acc = ''..''"
    using that up climbs_snoc_plain [OF "2.prems"(2), of p] "2.prems"(1) by (auto simp: plain_component_def)
  ultimately show ?case using "2.IH" "2.prems" by auto
qed simp

lemma norm_components_plain:
  assumes "\<forall>p \<in> set ps. plain_component p"
  shows "norm_components acc ps = rev acc @ ps"
  using assms by (induction ps arbitrary: acc) (auto simp: plain_component_def)

lemma plain_when_not_climbing:
  assumes "climbs_then_plain ps" and "ps = [] \<or> hd ps \<noteq> ''..''"
  shows "\<forall>p \<in> set ps. plain_component p"
  using assms by (cases ps) auto

lemma climbs_elem: "climbs_then_plain ps \<Longrightarrow> p \<in> set ps \<Longrightarrow> p = ''..'' \<or> plain_component p"
  by (induction ps) auto

lemma split_on_chars: "p \<in> set (split_on d s) \<Longrightarrow> set p \<subseteq> set s"
  by (induction s arbitrary: p) (fastforce split: list.splits if_splits)+

lemma join_with_chars: "set (join_with d ps) \<subseteq> set d \<union> (\<Union>p \<in> set ps. set p)"
  by (induction d ps rule: join_with.induct) auto

lemma norm_components_set: "set (norm_components acc ps) \<subseteq> set acc \<union> set ps"
proof (induction acc ps rule: norm_components.induct)
  case (2 acc p ps)
  have "set (tl acc) \<subseteq> set acc" by (cases acc) auto
  then show ?case using 2 by (auto split: if_splits)
qed simp

lemma normpath_chars: "set (normpath s) \<subseteq> set s \<union> {CHR ''/'', CHR ''.''}"
proof -
  have "set (join_with ''/'' (norm_components [] (split_on CHR ''/'' s))) \<subseteq> set s \<union> {CHR ''/''}"
    using join_with_chars [of "''/''" "norm_components [] (split_on CHR ''/'' s)"]
      norm_components_set [of "[]" "split_on CHR ''/'' s"] split_on_chars [of _ "CHR ''/''" s] by fastforce
  then show ?thesis by (auto simp: normpath_def Let_def)
qed

lemma join_hd: "ps \<noteq> [] \<Longrightarrow> hd ps \<noteq> [] \<Longrightarrow> join_with d ps \<noteq> [] \<and> hd (join_with d ps) = hd (hd ps)"
  by (cases "(d, ps)" rule: join_with.cases) auto

lemma join_dots: "hd ps = ''..'' \<Longrightarrow> ps \<noteq> [] \<Longrightarrow> join_with ''/'' ps = ''..'' \<or> has_prefix ''../'' (join_with ''/'' ps)"
  by (cases "(''/'', ps)" rule: join_with.cases) auto

text \<open>
  A canonical path stays inside its root and is a fixed point: it has no empty, \<open>.\<close> or \<open>..\<close>
  component and no leading slash, and unless it now reads as a Windows drive, canonicalizing it
  again gives it back.
\<close>

theorem canonical_path_safe:
  assumes "canonical_relative_path unsafe allow_empty value = Inr path"
  shows "(path \<noteq> [] \<longrightarrow> (\<forall>p \<in> set (split_on CHR ''/'' path). p \<notin> {[], ''.'', ''..''}))
    \<and> CHR 0x5C \<notin> set path
    \<and> (\<not> unsafe path \<and> \<not> windows_drive path \<longrightarrow> canonical_relative_path unsafe allow_empty path = Inr path)"
proof -
  let ?sep = "map (\<lambda>c. if c = CHR 0x5C then CHR ''/'' else c) value"
  let ?parts = "norm_components [] (split_on CHR ''/'' ?sep)"
  have path: "path = (let p = normpath ?sep in if p = ''.'' then [] else p)"
    and rel: "\<not> (path = ''..'' \<or> has_prefix ''../'' path)" and ne: "path \<noteq> [] \<or> allow_empty"
    using assms by (auto simp: canonical_relative_path_def Let_def split: if_splits)
  have climbs: "climbs_then_plain ?parts"
    by (rule norm_components_climbs) (auto dest: split_on_parts)
  have elems: "\<forall>p \<in> set ?parts. CHR ''/'' \<notin> set p \<and> p \<noteq> [] \<and> p \<noteq> ''.''"
    using climbs_elem [OF climbs] by (fastforce simp: plain_component_def)
  have no_back: "CHR 0x5C \<notin> set path"
    using normpath_chars [of ?sep] path by (auto simp: Let_def split: if_splits)
  then have same: "map (\<lambda>c. if c = CHR 0x5C then CHR ''/'' else c) path = path"
    by (intro map_idI) auto
  show ?thesis
  proof (cases "?parts = []")
    case True
    then have "path = []" using path by (simp add: normpath_def)
    then show ?thesis using ne by (auto simp: canonical_relative_path_def normpath_def windows_drive_def Let_def)
  next
    case False
    let ?join = "join_with ''/'' ?parts"
    have split: "split_on CHR ''/'' ?join = ?parts" using False elems by (intro split_join) auto
    have hd: "?join \<noteq> []" "hd ?join \<noteq> CHR ''/''"
    proof -
      have first: "hd ?parts \<noteq> []" "CHR ''/'' \<notin> set (hd ?parts)" using elems hd_in_set [OF False] by auto
      have "hd (hd ?parts) \<in> set (hd ?parts)" using first(1) by (rule hd_in_set)
      then show "?join \<noteq> []" "hd ?join \<noteq> CHR ''/''" using join_hd [OF False first(1), of "''/''"] first(2) by auto
    qed
    have "?join \<noteq> ''.''"
    proof
      assume "?join = ''.''"
      then have "?parts = [''.'']" using split by simp
      then show False using elems by simp
    qed
    then have eq: "path = ?join" using path hd(1) by (simp add: normpath_def)
    have "hd ?parts \<noteq> ''..''" using join_dots [OF _ False] rel eq by auto
    then have plain: "\<forall>p \<in> set ?parts. plain_component p"
      using plain_when_not_climbing [OF climbs] by simp
    have "normpath path = path"
      using norm_components_plain [OF plain, of "[]"] split hd(1) by (simp add: normpath_def eq)
    moreover have "\<not> has_prefix ''/'' path" using hd eq by (cases ?join) auto
    ultimately have "canonical_relative_path unsafe allow_empty path = Inr path" if "\<not> unsafe path" "\<not> windows_drive path"
      unfolding canonical_relative_path_def same Let_def using that rel hd(1) \<open>?join \<noteq> ''.''\<close> eq by simp
    then show ?thesis using plain split eq no_back by (auto simp: plain_component_def)
  qed
qed

lemma canonical_path_safe_witness:
  "canonical_relative_path (\<lambda>s. False) False ''./a//b/../c.png'' = Inr ''a/c.png''
   \<and> list_all (\<lambda>p. p \<notin> {[], ''.'', ''..''}) (split_on CHR ''/'' ''a/c.png'')
   \<and> canonical_relative_path (\<lambda>s. False) False ''a/c.png'' = Inr ''a/c.png''"
proof -
  have "canonical_relative_path (\<lambda>s. False) False ''./a//b/../c.png'' = Inr ''a/c.png''" by code_simp
  with canonical_path_safe [OF this] show ?thesis by (simp add: windows_drive_def)
qed

text \<open>
  Only the path as it is given is tested for a drive, so \<open>./C:/x\<close> is canonicalized to a path that
  the same function refuses.
\<close>

lemma drive_after_normalization:
  "canonical_relative_path (\<lambda>s. False) False ''./C:/x'' = Inr ''C:/x''
   \<and> canonical_relative_path (\<lambda>s. False) False ''C:/x'' = Inl (PathAbsolute ''C:/x'')"
  by code_simp

subsection \<open>Samples\<close>

record dataset_sample =
  ds_sample_id :: string
  ds_source_id :: string
  ds_source_dataset :: string
  ds_source_path :: string
  ds_source_record_id :: "string option"
  ds_source_url :: "string option"
  ds_source_license :: "string option"
  ds_source_split :: "string option"
  ds_document_id :: "string option"
  ds_page_id :: "string option"
  ds_page_index :: "int option"
  ds_group_id :: "string option"
  ds_image_path :: "string option"
  ds_text :: "string option"
  ds_raw_text :: "string option"
  ds_language :: string
  ds_script :: string
  ds_document_type :: "string option"
  ds_width :: "int option"
  ds_height :: "int option"
  ds_file_size :: "int option"
  ds_file_extension :: "string option"
  ds_mime_type :: "string option"
  ds_file_sha256 :: "string option"
  ds_normalized_text_sha256 :: "string option"
  ds_provenance :: "(string \<times> json) list"
  ds_transformations :: "string list"
  ds_quality_flags :: "string list"
  ds_validation_status :: validation_status
  ds_validation_findings :: "(string \<times> json) list list"
  ds_exclusion_reason :: "string option"
  ds_duplicate_state :: duplicate_state
  ds_duplicate_of :: "string option"
  ds_target_split :: split_name
  ds_schema_version :: string

definition SCHEMA_VERSION :: string where
  "SCHEMA_VERSION = ''clouda.pretraining.sample.v1''"

text \<open>A sample with the defaults of the class.\<close>

definition new_sample :: "string \<Rightarrow> string \<Rightarrow> dataset_sample" where
  "new_sample sample_id source_id =
     \<lparr>ds_sample_id = sample_id, ds_source_id = source_id, ds_source_dataset = [], ds_source_path = [],
      ds_source_record_id = None, ds_source_url = None, ds_source_license = None, ds_source_split = None,
      ds_document_id = None, ds_page_id = None, ds_page_index = None, ds_group_id = None,
      ds_image_path = None, ds_text = None, ds_raw_text = None, ds_language = ''ar'', ds_script = ''arabic'',
      ds_document_type = None, ds_width = None, ds_height = None, ds_file_size = None,
      ds_file_extension = None, ds_mime_type = None, ds_file_sha256 = None,
      ds_normalized_text_sha256 = None, ds_provenance = [], ds_transformations = [], ds_quality_flags = [],
      ds_validation_status = StatusOk, ds_validation_findings = [], ds_exclusion_reason = None,
      ds_duplicate_state = Unique, ds_duplicate_of = None, ds_target_split = Unassigned,
      ds_schema_version = SCHEMA_VERSION\<rparr>"

definition opt_str :: "string option \<Rightarrow> json" where
  "opt_str v = (case v of None \<Rightarrow> JNull | Some s \<Rightarrow> JStr s)"

definition opt_int :: "int option \<Rightarrow> json" where
  "opt_int v = (case v of None \<Rightarrow> JNull | Some n \<Rightarrow> JInt n)"

definition sample_to_dict :: "dataset_sample \<Rightarrow> (string \<times> json) list" where
  "sample_to_dict s =
     [(''sample_id'', JStr (ds_sample_id s)), (''source_id'', JStr (ds_source_id s)),
      (''source_dataset'', JStr (ds_source_dataset s)), (''source_path'', JStr (ds_source_path s)),
      (''source_record_id'', opt_str (ds_source_record_id s)), (''source_url'', opt_str (ds_source_url s)),
      (''source_license'', opt_str (ds_source_license s)), (''source_split'', opt_str (ds_source_split s)),
      (''document_id'', opt_str (ds_document_id s)), (''page_id'', opt_str (ds_page_id s)),
      (''page_index'', opt_int (ds_page_index s)), (''group_id'', opt_str (ds_group_id s)),
      (''image_path'', opt_str (ds_image_path s)), (''text'', opt_str (ds_text s)),
      (''raw_text'', opt_str (ds_raw_text s)), (''language'', JStr (ds_language s)),
      (''script'', JStr (ds_script s)), (''document_type'', opt_str (ds_document_type s)),
      (''width'', opt_int (ds_width s)), (''height'', opt_int (ds_height s)),
      (''file_size'', opt_int (ds_file_size s)), (''file_extension'', opt_str (ds_file_extension s)),
      (''mime_type'', opt_str (ds_mime_type s)), (''file_sha256'', opt_str (ds_file_sha256 s)),
      (''normalized_text_sha256'', opt_str (ds_normalized_text_sha256 s)),
      (''provenance'', JObj (ds_provenance s)),
      (''transformations'', JList (map JStr (ds_transformations s))),
      (''quality_flags'', JList (map JStr (ds_quality_flags s))),
      (''validation_status'', JStr (validation_value (ds_validation_status s))),
      (''validation_findings'', JList (map JObj (ds_validation_findings s))),
      (''exclusion_reason'', opt_str (ds_exclusion_reason s)),
      (''duplicate_state'', JStr (duplicate_value (ds_duplicate_state s))),
      (''duplicate_of'', opt_str (ds_duplicate_of s)),
      (''target_split'', JStr (split_value (ds_target_split s))),
      (''schema_version'', JStr (ds_schema_version s))]"

text \<open>\<open>sort_key\<close>, and the order of samples in manifests and exports.\<close>

definition sample_key :: "dataset_sample \<Rightarrow> string \<times> string \<times> string" where
  "sample_key s = (ds_source_id s, ds_source_path s, ds_sample_id s)"

subsection \<open>Reading a row\<close>

text \<open>
  \<open>from_dict\<close>. Python's dataclass stores values of any type; the record has the types the writers
  give the fields, so a value of another type is the separate outcome \<open>SampleUntyped\<close>.
\<close>

datatype sample_error =
  SampleUnknownFields "string list"
| SampleVersion json
| SampleEnum string
| SampleMissing
| SampleUntyped

fun as_str :: "json \<Rightarrow> string option" where
  "as_str (JStr s) = Some s"
| "as_str _ = None"

fun as_opt_str :: "json \<Rightarrow> string option option" where
  "as_opt_str JNull = Some None"
| "as_opt_str (JStr s) = Some (Some s)"
| "as_opt_str _ = None"

fun as_opt_int :: "json \<Rightarrow> int option option" where
  "as_opt_int JNull = Some None"
| "as_opt_int (JInt n) = Some (Some n)"
| "as_opt_int _ = None"

fun as_obj :: "json \<Rightarrow> (string \<times> json) list option" where
  "as_obj (JObj kvs) = Some kvs"
| "as_obj _ = None"

fun all_some :: "'a option list \<Rightarrow> 'a list option" where
  "all_some [] = Some []"
| "all_some (None # xs) = None"
| "all_some (Some x # xs) = map_option (Cons x) (all_some xs)"

fun as_list :: "(json \<Rightarrow> 'a option) \<Rightarrow> json \<Rightarrow> 'a list option" where
  "as_list f (JList xs) = all_some (map f xs)"
| "as_list f _ = None"

lemma all_some_map [simp]: "(\<And>x. x \<in> set xs \<Longrightarrow> f (g x) = Some x) \<Longrightarrow> all_some (map (f \<circ> g) xs) = Some xs"
  by (induction xs) auto

definition sample_fields :: "string list" where
  "sample_fields = map fst (sample_to_dict (new_sample [] []))"

text \<open>The fields besides the enumerations and the version, from a row with the defaults of the class.\<close>

definition read_fields ::
  "(string \<times> json) list \<Rightarrow> validation_status \<Rightarrow> duplicate_state \<Rightarrow> split_name \<Rightarrow> dataset_sample option" where
  "read_fields d status duplicate split = do {
     sample_id \<leftarrow> as_str (obj_get_or d ''sample_id'' (JStr []));
     source_id \<leftarrow> as_str (obj_get_or d ''source_id'' (JStr []));
     source_dataset \<leftarrow> as_str (obj_get_or d ''source_dataset'' (JStr []));
     source_path \<leftarrow> as_str (obj_get_or d ''source_path'' (JStr []));
     source_record_id \<leftarrow> as_opt_str (obj_get_or d ''source_record_id'' JNull);
     source_url \<leftarrow> as_opt_str (obj_get_or d ''source_url'' JNull);
     source_license \<leftarrow> as_opt_str (obj_get_or d ''source_license'' JNull);
     source_split \<leftarrow> as_opt_str (obj_get_or d ''source_split'' JNull);
     document_id \<leftarrow> as_opt_str (obj_get_or d ''document_id'' JNull);
     page_id \<leftarrow> as_opt_str (obj_get_or d ''page_id'' JNull);
     page_index \<leftarrow> as_opt_int (obj_get_or d ''page_index'' JNull);
     group_id \<leftarrow> as_opt_str (obj_get_or d ''group_id'' JNull);
     image_path \<leftarrow> as_opt_str (obj_get_or d ''image_path'' JNull);
     text \<leftarrow> as_opt_str (obj_get_or d ''text'' JNull);
     raw_text \<leftarrow> as_opt_str (obj_get_or d ''raw_text'' JNull);
     language \<leftarrow> as_str (obj_get_or d ''language'' (JStr ''ar''));
     script \<leftarrow> as_str (obj_get_or d ''script'' (JStr ''arabic''));
     document_type \<leftarrow> as_opt_str (obj_get_or d ''document_type'' JNull);
     width \<leftarrow> as_opt_int (obj_get_or d ''width'' JNull);
     height \<leftarrow> as_opt_int (obj_get_or d ''height'' JNull);
     file_size \<leftarrow> as_opt_int (obj_get_or d ''file_size'' JNull);
     file_extension \<leftarrow> as_opt_str (obj_get_or d ''file_extension'' JNull);
     mime_type \<leftarrow> as_opt_str (obj_get_or d ''mime_type'' JNull);
     file_sha256 \<leftarrow> as_opt_str (obj_get_or d ''file_sha256'' JNull);
     normalized_text_sha256 \<leftarrow> as_opt_str (obj_get_or d ''normalized_text_sha256'' JNull);
     provenance \<leftarrow> as_obj (obj_get_or d ''provenance'' (JObj []));
     transformations \<leftarrow> as_list as_str (obj_get_or d ''transformations'' (JList []));
     quality_flags \<leftarrow> as_list as_str (obj_get_or d ''quality_flags'' (JList []));
     validation_findings \<leftarrow> as_list as_obj (obj_get_or d ''validation_findings'' (JList []));
     exclusion_reason \<leftarrow> as_opt_str (obj_get_or d ''exclusion_reason'' JNull);
     duplicate_of \<leftarrow> as_opt_str (obj_get_or d ''duplicate_of'' JNull);
     Some \<lparr>ds_sample_id = sample_id, ds_source_id = source_id, ds_source_dataset = source_dataset, ds_source_path = source_path,
       ds_source_record_id = source_record_id, ds_source_url = source_url, ds_source_license = source_license, ds_source_split = source_split,
       ds_document_id = document_id, ds_page_id = page_id, ds_page_index = page_index, ds_group_id = group_id,
       ds_image_path = image_path, ds_text = text, ds_raw_text = raw_text, ds_language = language,
       ds_script = script, ds_document_type = document_type, ds_width = width, ds_height = height,
       ds_file_size = file_size, ds_file_extension = file_extension, ds_mime_type = mime_type, ds_file_sha256 = file_sha256,
       ds_normalized_text_sha256 = normalized_text_sha256, ds_provenance = provenance, ds_transformations = transformations, ds_quality_flags = quality_flags,
       ds_validation_status = status, ds_validation_findings = validation_findings, ds_exclusion_reason = exclusion_reason, ds_duplicate_state = duplicate,
       ds_duplicate_of = duplicate_of, ds_target_split = split, ds_schema_version = SCHEMA_VERSION\<rparr>}"

definition read_enum :: "(string \<Rightarrow> 'e option) \<Rightarrow> (string \<times> json) list \<Rightarrow> string \<Rightarrow> 'e \<Rightarrow> sample_error + 'e" where
  "read_enum of_value d key fallback =
     (case map_of d key of
        None \<Rightarrow> Inr fallback
      | Some (JStr v) \<Rightarrow> (case of_value v of None \<Rightarrow> Inl (SampleEnum key) | Some e \<Rightarrow> Inr e)
      | Some _ \<Rightarrow> Inl (SampleEnum key))"

definition sample_from_dict :: "(string \<times> json) list \<Rightarrow> sample_error + dataset_sample" where
  "sample_from_dict d =
     (let unknown = filter (\<lambda>k. k \<notin> set sample_fields) (map fst d);
          version = obj_get_or d ''schema_version'' (JStr SCHEMA_VERSION)
      in if unknown \<noteq> [] then Inl (SampleUnknownFields (sort (remdups unknown)))
         else if version \<noteq> JStr SCHEMA_VERSION then Inl (SampleVersion version)
         else case read_enum validation_of_value d ''validation_status'' StatusOk of
           Inl e \<Rightarrow> Inl e
         | Inr status \<Rightarrow>
         (case read_enum duplicate_of_value d ''duplicate_state'' Unique of
           Inl e \<Rightarrow> Inl e
         | Inr duplicate \<Rightarrow>
         (case read_enum split_of_value d ''target_split'' Unassigned of
           Inl e \<Rightarrow> Inl e
         | Inr split \<Rightarrow>
             if map_of d ''sample_id'' = None \<or> map_of d ''source_id'' = None then Inl SampleMissing
             else (case read_fields d status duplicate split of None \<Rightarrow> Inl SampleUntyped | Some s \<Rightarrow> Inr s))))"

lemma as_opt_str_opt_str [simp]: "as_opt_str (opt_str v) = Some v"
  by (cases v) (simp_all add: opt_str_def)

lemma as_opt_int_opt_int [simp]: "as_opt_int (opt_int v) = Some v"
  by (cases v) (simp_all add: opt_int_def)

lemma as_list_map [simp]:
  "as_list as_str (JList (map JStr xs)) = Some xs" "as_list as_obj (JList (map JObj ys)) = Some ys"
  using all_some_map [of xs as_str JStr] all_some_map [of ys as_obj JObj] by (simp_all add: comp_def)


lemma read_fields_to_dict:
  "read_fields (sample_to_dict s) (ds_validation_status s) (ds_duplicate_state s) (ds_target_split s)
    = Some (s\<lparr>ds_schema_version := SCHEMA_VERSION\<rparr>)"
  unfolding read_fields_def sample_to_dict_def obj_get_or_def by simp

text \<open>
  C20. Writing a sample into a manifest row and reading the row back gives the sample, for every sample of
  the current schema version; a row that has a field of its own besides is refused.
\<close>

theorem sample_row_roundtrip:
  assumes "ds_schema_version s = SCHEMA_VERSION"
  shows "sample_from_dict (sample_to_dict s) = Inr s
    \<and> (k \<notin> set sample_fields \<longrightarrow> sample_from_dict ((k, v) # sample_to_dict s) = Inl (SampleUnknownFields [k]))"
proof -
  have keys: "map fst (sample_to_dict s) = sample_fields"
    by (simp add: sample_fields_def sample_to_dict_def)
  have enums: "map_of (sample_to_dict s) ''validation_status'' = Some (JStr (validation_value (ds_validation_status s)))"
    "map_of (sample_to_dict s) ''duplicate_state'' = Some (JStr (duplicate_value (ds_duplicate_state s)))"
    "map_of (sample_to_dict s) ''target_split'' = Some (JStr (split_value (ds_target_split s)))"
    "map_of (sample_to_dict s) ''schema_version'' = Some (JStr SCHEMA_VERSION)"
    "map_of (sample_to_dict s) ''sample_id'' \<noteq> None" "map_of (sample_to_dict s) ''source_id'' \<noteq> None"
    by (simp_all add: sample_to_dict_def assms)
  have "sample_from_dict (sample_to_dict s) = Inr s"
    unfolding sample_from_dict_def Let_def keys obj_get_or_def
    by (simp add: enums read_enum_def read_fields_to_dict assms)
  moreover have "sample_from_dict ((k, v) # sample_to_dict s) = Inl (SampleUnknownFields [k])" if "k \<notin> set sample_fields"
  proof -
    have "filter (\<lambda>k. k \<notin> set sample_fields) (map fst ((k, v) # sample_to_dict s)) = [k]"
      using that by (simp add: keys)
    then show ?thesis by (simp add: sample_from_dict_def)
  qed
  ultimately show ?thesis by blast
qed

lemma sample_row_roundtrip_witness:
  "sample_from_dict (sample_to_dict (new_sample ''s1'' ''src'')) = Inr (new_sample ''s1'' ''src'')"
  using sample_row_roundtrip [of "new_sample ''s1'' ''src''"] by (simp add: new_sample_def)

end
