(* ===== verification/Union_Find.thy ===== *)
theory Union_Find
  imports Prelude "HOL-Library.AList"
begin

text \<open>
  The two disjoint-set forests of the data preparation: \<open>_UnionFind\<close> of
  \<open>clouda_data/pretraining/splitting.py\<close> (a dictionary of parents, with path compression) and the
  list of parents with path halving inside \<open>classify_duplicates\<close> of \<open>dedupe.py\<close>. Both link the
  larger root below the smaller one, so parents only decrease; a loop that follows parents visits an
  element at most once, and the number of elements is fuel enough. The locale states what the
  clients rely on.
\<close>

subsection \<open>Contract\<close>

text \<open>
  \<open>elems\<close> are the elements of a forest and \<open>root\<close> the smallest element of the class; \<open>link\<close> merges
  the classes of two elements.
\<close>

locale disjoint_sets =
  fixes ok :: "'f \<Rightarrow> bool" and elems :: "'f \<Rightarrow> 'a::linorder set" and root :: "'f \<Rightarrow> 'a \<Rightarrow> 'a"
    and link :: "'a \<Rightarrow> 'a \<Rightarrow> 'f \<Rightarrow> 'f"
  assumes root_elem: "ok p \<Longrightarrow> x \<in> elems p \<Longrightarrow> root p x \<in> elems p \<and> root p (root p x) = root p x \<and> root p x \<le> x"
    and link_ok: "ok p \<Longrightarrow> x \<in> elems p \<Longrightarrow> y \<in> elems p \<Longrightarrow> ok (link x y p) \<and> elems (link x y p) = elems p"
    and link_root: "ok p \<Longrightarrow> x \<in> elems p \<Longrightarrow> y \<in> elems p \<Longrightarrow> z \<in> elems p \<Longrightarrow>
      root (link x y p) z =
        (if root p z = root p x \<or> root p z = root p y then min (root p x) (root p y) else root p z)"
begin

definition same :: "'f \<Rightarrow> 'a \<Rightarrow> 'a \<Rightarrow> bool" where
  "same p x y \<longleftrightarrow> root p x = root p y"

lemma link_joins: "ok p \<Longrightarrow> x \<in> elems p \<Longrightarrow> y \<in> elems p \<Longrightarrow> same (link x y p) x y"
  by (simp add: same_def link_root)

lemma link_keeps:
  "ok p \<Longrightarrow> x \<in> elems p \<Longrightarrow> y \<in> elems p \<Longrightarrow> a \<in> elems p \<Longrightarrow> b \<in> elems p \<Longrightarrow> same p a b \<Longrightarrow> same (link x y p) a b"
  by (simp add: same_def link_root)

text \<open>A sequence of links.\<close>

definition links :: "('a \<times> 'a) list \<Rightarrow> 'f \<Rightarrow> 'f" where
  "links xs p = fold (\<lambda>(x, y). link x y) xs p"

lemma links_simps [simp]: "links [] p = p" "links ((x, y) # xs) p = links xs (link x y p)"
  by (simp_all add: links_def)

lemma links_append: "links (xs @ ys) p = links ys (links xs p)"
  by (simp add: links_def)

lemma links_ok:
  "ok p \<Longrightarrow> \<forall>(x, y) \<in> set xs. x \<in> elems p \<and> y \<in> elems p \<Longrightarrow> ok (links xs p) \<and> elems (links xs p) = elems p"
  by (induction xs arbitrary: p) (auto simp: link_ok)

text \<open>The classes after the links are the components of the linked elements and the classes before.\<close>

definition linked :: "('a \<times> 'a) list \<Rightarrow> 'f \<Rightarrow> ('a \<times> 'a) set" where
  "linked xs p = (set xs \<union> (set xs)\<inverse> \<union> {(u, v). u \<in> elems p \<and> v \<in> elems p \<and> same p u v})\<^sup>*"

lemma linked_sym: "(u, v) \<in> linked xs p \<Longrightarrow> (v, u) \<in> linked xs p"
proof -
  have "sym (set xs \<union> (set xs)\<inverse> \<union> {(u, v). u \<in> elems p \<and> v \<in> elems p \<and> same p u v})"
    by (auto simp: sym_def same_def)
  then have "sym (linked xs p)" unfolding linked_def by (rule sym_rtrancl)
  then show "(u, v) \<in> linked xs p \<Longrightarrow> (v, u) \<in> linked xs p" by (rule symD)
qed

lemma links_same_iff:
  assumes "ok p" and "\<forall>(x, y) \<in> set xs. x \<in> elems p \<and> y \<in> elems p" and "a \<in> elems p" and "b \<in> elems p"
  shows "same (links xs p) a b \<longleftrightarrow> (a, b) \<in> linked xs p"
  using assms(2-4)
proof (induction xs arbitrary: a b rule: rev_induct)
  case Nil
  have "root p u = root p v" if "(u, v) \<in> linked [] p" for u v
    using that unfolding linked_def by (induction rule: rtrancl_induct) (auto simp: same_def)
  moreover have "(a, b) \<in> linked [] p" if "same p a b" using that Nil by (auto simp: linked_def)
  ultimately show ?case by (auto simp: same_def)
next
  case (snoc l xs)
  obtain x y where l: "l = (x, y)" by force
  let ?p = "links xs p"
  have xs: "\<forall>(x, y) \<in> set xs. x \<in> elems p \<and> y \<in> elems p" using snoc.prems(1) by simp
  have ok: "ok ?p" "elems ?p = elems p" using links_ok [OF assms(1) xs] by blast+
  have xy: "x \<in> elems p" "y \<in> elems p" using snoc.prems(1) l by auto
  have IH: "same ?p u v \<longleftrightarrow> (u, v) \<in> linked xs p" if "u \<in> elems p" "v \<in> elems p" for u v
    using snoc.IH [OF xs that] .
  have mono: "linked xs p \<subseteq> linked (xs @ [l]) p" unfolding linked_def by (intro rtrancl_mono) auto
  have step: "(x, y) \<in> linked (xs @ [l]) p" using l by (auto simp: linked_def)
  note trans = rtrancl_trans [of _ _ "set (xs @ [l]) \<union> (set (xs @ [l]))\<inverse> \<union> {(u, v). u \<in> elems p \<and> v \<in> elems p \<and> same p u v}",
      folded linked_def]
  have same: "same (link x y ?p) u v \<longleftrightarrow> same ?p u v
      \<or> (same ?p u x \<or> same ?p u y) \<and> (same ?p v x \<or> same ?p v y)" if "u \<in> elems p" "v \<in> elems p" for u v
  proof -
    have "min (root ?p x) (root ?p y) \<in> {root ?p x, root ?p y}" by (simp add: min_def)
    then show ?thesis
      using link_root [OF ok(1), of x y] xy that ok(2) by (auto simp: same_def)
  qed
  have to_x: "(u, x) \<in> linked (xs @ [l]) p" if "u \<in> elems p" "same ?p u x \<or> same ?p u y" for u
    using that(2)
  proof
    assume "same ?p u x"
    then show ?thesis using IH [OF that(1) xy(1)] mono by blast
  next
    assume "same ?p u y"
    then have "(u, y) \<in> linked (xs @ [l]) p" using IH [OF that(1) xy(2)] mono by blast
    then show ?thesis using linked_sym [OF step] by (rule trans)
  qed
  have "(a, b) \<in> linked (xs @ [l]) p" if "same (link x y ?p) a b"
    using same [OF snoc.prems(2,3)] that
  proof -
    consider "same ?p a b" | "same ?p a x \<or> same ?p a y" "same ?p b x \<or> same ?p b y"
      using same [OF snoc.prems(2,3)] \<open>same (link x y ?p) a b\<close> by blast
    then show ?thesis
    proof cases
      case 1
      then show ?thesis using IH [OF snoc.prems(2,3)] mono by blast
    next
      case 2
      show ?thesis using to_x [OF snoc.prems(2) 2(1)] linked_sym [OF to_x [OF snoc.prems(3) 2(2)]] by (rule trans)
    qed
  qed
  moreover have "same (link x y ?p) a b" if "(a, b) \<in> linked (xs @ [l]) p"
  proof -
    have lnk: "root (link x y ?p) u = root (link x y ?p) v"
      if edge: "(u, v) \<in> set (xs @ [l]) \<union> (set (xs @ [l]))\<inverse> \<union> {(u, v). u \<in> elems p \<and> v \<in> elems p \<and> same p u v}" for u v
    proof -
      have uv: "u \<in> elems p" "v \<in> elems p" using edge snoc.prems(1) by auto
      show ?thesis
      proof (cases "(u, v) \<in> {(x, y), (y, x)}")
        case True
        then show ?thesis using link_joins [OF ok(1), of x y] xy ok(2) by (auto simp: same_def)
      next
        case False
        then have "(u, v) \<in> linked xs p" using edge l by (auto simp: linked_def)
        then have "same ?p u v" using IH [OF uv] by blast
        then show ?thesis using same [OF uv] by (simp add: same_def)
      qed
    qed
    from that have "root (link x y ?p) a = root (link x y ?p) b"
      unfolding linked_def by (induction rule: rtrancl_induct) (auto simp: lnk)
    then show ?thesis by (simp add: same_def)
  qed
  ultimately show ?case by (auto simp: links_append l)
qed

text \<open>In a forest whose elements are all apart the classes are the components of the links alone.\<close>

lemma linked_apart:
  assumes "\<And>u v. u \<in> elems p \<Longrightarrow> v \<in> elems p \<Longrightarrow> same p u v \<Longrightarrow> u = v"
  shows "linked xs p = (set xs \<union> (set xs)\<inverse>)\<^sup>*"
  unfolding linked_def
proof (rule equalityI)
  show "(set xs \<union> (set xs)\<inverse> \<union> {(u, v). u \<in> elems p \<and> v \<in> elems p \<and> same p u v})\<^sup>* \<subseteq> (set xs \<union> (set xs)\<inverse>)\<^sup>*"
    using assms by (intro rtrancl_subset_rtrancl) fastforce
qed (intro rtrancl_mono Un_upper1)

end

subsection \<open>Owners\<close>

text \<open>
  Both clients merge the elements that have a label in common in one pass: the first element with a
  label owns it, and every later one is linked to the owner.
\<close>

fun owner_links :: "('l \<times> 'a) list \<Rightarrow> ('a \<times> 'l) list \<Rightarrow> ('a \<times> 'a) list" where
  "owner_links owners [] = []"
| "owner_links owners ((x, l) # ts) =
     (case map_of owners l of
        None \<Rightarrow> (x, x) # owner_links ((l, x) # owners) ts
      | Some owner \<Rightarrow> (owner, x) # owner_links owners ts)"

lemma owner_links_sound:
  "(a, b) \<in> set (owner_links owners ts) \<Longrightarrow> \<exists>l. (b, l) \<in> set ts \<and> ((a, l) \<in> set ts \<or> map_of owners l = Some a)"
  by (induction owners ts rule: owner_links.induct) (auto split: option.splits if_splits)

lemma owner_links_complete:
  "\<exists>owner. (\<forall>x. (x, l) \<in> set ts \<longrightarrow> (owner, x) \<in> set (owner_links owners ts))
    \<and> (\<forall>k. map_of owners l = Some k \<longrightarrow> owner = k)"
proof (induction owners ts rule: owner_links.induct)
  case (1 owners)
  show ?case by (cases "map_of owners l") auto
next
  case (2 owners x l' ts)
  show ?case
  proof (cases "map_of owners l'")
    case None
    then show ?thesis using "2.IH"(1) [OF None] by (cases "l' = l") (auto split: if_splits)
  next
    case (Some k)
    then show ?thesis using "2.IH"(2) [OF Some] by (cases "l' = l") auto
  qed
qed

definition common_label :: "('a \<times> 'l) list \<Rightarrow> ('a \<times> 'a) set" where
  "common_label ts = {(a, b). \<exists>l. (a, l) \<in> set ts \<and> (b, l) \<in> set ts}"

lemma owner_links_common: "(a, b) \<in> set (owner_links [] ts) \<Longrightarrow> (a, b) \<in> common_label ts"
  using owner_links_sound [of a b "[]" ts] by (auto simp: common_label_def)

lemma owner_links_closure:
  assumes "set (owner_links [] ts) - Id \<subseteq> L" and "L \<subseteq> set (owner_links [] ts)"
  shows "(L \<union> L\<inverse>)\<^sup>* = (common_label ts)\<^sup>*"
proof (rule equalityI; rule rtrancl_subset_rtrancl)
  show "L \<union> L\<inverse> \<subseteq> (common_label ts)\<^sup>*"
    using assms(2) owner_links_common [of _ _ ts] by (fastforce simp: common_label_def)
  show "common_label ts \<subseteq> (L \<union> L\<inverse>)\<^sup>*"
  proof clarify
    fix a b assume "(a, b) \<in> common_label ts"
    then obtain l where ab: "(a, l) \<in> set ts" "(b, l) \<in> set ts" by (auto simp: common_label_def)
    obtain owner where o: "\<And>x. (x, l) \<in> set ts \<Longrightarrow> (owner, x) \<in> set (owner_links [] ts)"
      using owner_links_complete [of l ts "[]"] by blast
    have "(a, owner) \<in> (L \<union> L\<inverse>)\<^sup>*" "(owner, b) \<in> (L \<union> L\<inverse>)\<^sup>*"
      using o [OF ab(1)] o [OF ab(2)] assms(1) by auto
    then show "(a, b) \<in> (L \<union> L\<inverse>)\<^sup>*" by (rule rtrancl_trans)
  qed
qed

subsection \<open>The dictionary of parents\<close>

type_synonym 'k forest = "('k \<times> 'k) list"

definition uf_add :: "'k \<Rightarrow> 'k forest \<Rightarrow> 'k forest" where
  "uf_add x p = (if map_of p x = None then p @ [(x, x)] else p)"

fun uf_root :: "nat \<Rightarrow> 'k forest \<Rightarrow> 'k \<Rightarrow> 'k" where
  "uf_root 0 p x = x"
| "uf_root (Suc n) p x = (case map_of p x of None \<Rightarrow> x | Some y \<Rightarrow> if y = x then x else uf_root n p y)"

fun uf_compress :: "nat \<Rightarrow> 'k \<Rightarrow> 'k forest \<Rightarrow> 'k \<Rightarrow> 'k forest" where
  "uf_compress 0 r p x = p"
| "uf_compress (Suc n) r p x =
     (case map_of p x of None \<Rightarrow> p | Some y \<Rightarrow> if y = r then p else uf_compress n r (AList.update x r p) y)"

definition uf_find :: "'k \<Rightarrow> 'k forest \<Rightarrow> 'k forest \<times> 'k" where
  "uf_find x p = (let p1 = uf_add x p; r = uf_root (length p1) p1 x in (uf_compress (length p1) r p1 x, r))"

definition uf_union :: "'k::linorder \<Rightarrow> 'k \<Rightarrow> 'k forest \<Rightarrow> 'k forest" where
  "uf_union left right p =
     (let (p1, a) = uf_find left p; (p2, b) = uf_find right p1
      in if a = b then p2 else AList.update (max a b) (min a b) p2)"

definition uf_keys :: "'k forest \<Rightarrow> 'k set" where
  "uf_keys p = fst ` set p"

definition uf_ok :: "'k::linorder forest \<Rightarrow> bool" where
  "uf_ok p \<longleftrightarrow> distinct (map fst p) \<and> (\<forall>(x, y) \<in> set p. y \<in> uf_keys p \<and> y \<le> x)"

definition uf_rep :: "'k forest \<Rightarrow> 'k \<Rightarrow> 'k" where
  "uf_rep p x = uf_root (length p) p x"

text \<open>Below an element there are fewer elements than in the whole forest, so its length is fuel enough.\<close>

definition uf_rank :: "'k::linorder forest \<Rightarrow> 'k \<Rightarrow> nat" where
  "uf_rank p x = card {k \<in> uf_keys p. k < x}"

lemma uf_keys_finite [simp]: "finite (uf_keys p)"
  by (simp add: uf_keys_def)

lemma uf_keys_map_of: "x \<in> uf_keys p \<longleftrightarrow> map_of p x \<noteq> None"
  by (simp add: uf_keys_def map_of_eq_None_iff)

lemma uf_keys_SomeI: "map_of p x = Some y \<Longrightarrow> x \<in> uf_keys p"
  by (simp add: uf_keys_map_of)

lemma uf_parent: "uf_ok p \<Longrightarrow> map_of p x = Some y \<Longrightarrow> x \<in> uf_keys p \<and> y \<in> uf_keys p \<and> y \<le> x"
proof -
  assume ok: "uf_ok p" and "map_of p x = Some y"
  then have xy: "(x, y) \<in> set p" by (rule_tac map_of_SomeD)
  then have "y \<in> uf_keys p \<and> y \<le> x" using ok unfolding uf_ok_def by blast
  moreover have "x \<in> uf_keys p" unfolding uf_keys_def using xy by (rule rev_image_eqI) simp
  ultimately show ?thesis by blast
qed

lemma uf_rank_less: "x \<in> uf_keys p \<Longrightarrow> uf_rank p x < length p"
proof -
  assume x: "x \<in> uf_keys p"
  have "{k \<in> uf_keys p. k < x} \<subset> uf_keys p" using x by auto
  then have "uf_rank p x < card (uf_keys p)" unfolding uf_rank_def by (intro psubset_card_mono) auto
  also have "\<dots> \<le> length p" unfolding uf_keys_def using card_image_le [of "set p" fst] card_length [of p] by simp
  finally show ?thesis .
qed

lemma uf_rank_mono:
  assumes "y \<in> uf_keys p" and "y < x"
  shows "uf_rank p y < uf_rank p x"
proof -
  have "{k \<in> uf_keys p. k < y} \<subseteq> {k \<in> uf_keys p. k < x}" using assms(2) less_trans by blast
  moreover have "y \<in> {k \<in> uf_keys p. k < x}" "y \<notin> {k \<in> uf_keys p. k < y}" using assms by auto
  ultimately have "{k \<in> uf_keys p. k < y} \<subset> {k \<in> uf_keys p. k < x}" by blast
  then show ?thesis unfolding uf_rank_def by (intro psubset_card_mono) simp_all
qed

lemma uf_rank_parent: "uf_ok p \<Longrightarrow> map_of p x = Some y \<Longrightarrow> y \<noteq> x \<Longrightarrow> uf_rank p y < uf_rank p x"
  using uf_parent [of p x y] by (intro uf_rank_mono) auto

lemma uf_induct [consumes 2, case_names root parent]:
  assumes "uf_ok p" and "x \<in> uf_keys p"
    and root: "\<And>x. map_of p x = Some x \<Longrightarrow> P x"
    and parent: "\<And>x y. map_of p x = Some y \<Longrightarrow> y \<noteq> x \<Longrightarrow> P y \<Longrightarrow> P x"
  shows "P x"
  using assms(2)
proof (induction "uf_rank p x" arbitrary: x rule: less_induct)
  case less
  obtain y where y: "map_of p x = Some y" using less.prems by (auto simp: uf_keys_map_of)
  show ?case
  proof (cases "y = x")
    case True
    then show ?thesis using root y by simp
  next
    case False
    then have "P y" using less.hyps uf_rank_parent [OF assms(1) y] uf_parent [OF assms(1) y] by blast
    then show ?thesis using parent y False by blast
  qed
qed

text \<open>With enough fuel the loop of \<open>find\<close> ends at a root.\<close>

lemma uf_root_fuel:
  assumes "uf_ok p" and "x \<in> uf_keys p" and "uf_rank p x < n" and "uf_rank p x < m"
  shows "uf_root n p x = uf_root m p x"
  using assms(2-4)
proof (induction n arbitrary: m x)
  case (Suc n)
  obtain k where m: "m = Suc k" using Suc.prems(3) by (cases m) auto
  obtain y where y: "map_of p x = Some y" using Suc.prems(1) by (auto simp: uf_keys_map_of)
  show ?case
  proof (cases "y = x")
    case False
    have "uf_rank p y < uf_rank p x" using uf_rank_parent [OF assms(1) y False] .
    then have "uf_root n p y = uf_root k p y"
      using Suc uf_parent [OF assms(1) y] m by (intro Suc.IH) auto
    then show ?thesis using m y False by simp
  qed (simp add: m y)
qed simp

lemma uf_rep_root: "map_of p x = Some x \<Longrightarrow> uf_rep p x = x"
  unfolding uf_rep_def by (cases p) auto

lemma uf_rep_parent:
  assumes "uf_ok p" and "map_of p x = Some y" and "y \<noteq> x"
  shows "uf_rep p x = uf_rep p y"
proof -
  have x: "x \<in> uf_keys p" "y \<in> uf_keys p" using uf_parent [OF assms(1,2)] by auto
  obtain n where n: "length p = Suc n" using uf_rank_less [OF x(1)] by (cases "length p") auto
  have "uf_rank p y < n" using uf_rank_parent [OF assms] uf_rank_less [OF x(1)] n by simp
  then have "uf_root n p y = uf_root (length p) p y"
    using uf_rank_less [OF x(2)] by (intro uf_root_fuel [OF assms(1) x(2)])
  then show ?thesis using assms(2,3) n by (simp add: uf_rep_def)
qed

lemma uf_rep_facts:
  assumes "uf_ok p" and "x \<in> uf_keys p"
  shows "map_of p (uf_rep p x) = Some (uf_rep p x) \<and> uf_rep p (uf_rep p x) = uf_rep p x \<and> uf_rep p x \<le> x"
  using assms
proof (induction rule: uf_induct)
  case (parent x y)
  then show ?case using uf_rep_parent [OF assms(1) parent(1,2)] uf_parent [OF assms(1) parent(1)] by auto
qed (simp add: uf_rep_root)

text \<open>Re-parenting an element below one of its ancestors, or a root below another root.\<close>

lemma uf_update_ok:
  assumes "uf_ok p" and "x \<in> uf_keys p" and "r \<in> uf_keys p" and "r \<le> x"
  shows "uf_ok (AList.update x r p) \<and> uf_keys (AList.update x r p) = uf_keys p"
proof -
  have keys: "uf_keys (AList.update x r p) = uf_keys p"
    using assms(2) by (auto simp: uf_keys_def AList.dom_update)
  have "distinct (map fst (AList.update x r p))" using assms(1) by (simp add: uf_ok_def AList.distinct_update)
  moreover have "y \<in> uf_keys p \<and> y \<le> z" if "(z, y) \<in> set (AList.update x r p)" for z y
  proof -
    have "map_of (AList.update x r p) z = Some y" using that calculation by simp
    then show ?thesis using assms uf_parent [OF assms(1)] by (auto simp: update_conv' split: if_splits)
  qed
  ultimately show ?thesis using keys by (auto simp: uf_ok_def)
qed

lemma uf_update_ancestor:
  assumes "uf_ok p" and "x \<in> uf_keys p" and "r \<in> uf_keys p" and "r < x" and "uf_rep p r = uf_rep p x"
    and "z \<in> uf_keys p"
  shows "uf_rep (AList.update x r p) z = uf_rep p z"
  using assms(6)
proof (induction "uf_rank p z" arbitrary: z rule: less_induct)
  case less
  let ?q = "AList.update x r p"
  have ok: "uf_ok ?q" using uf_update_ok [OF assms(1-3)] assms(4) by simp
  show ?case
  proof (cases "z = x")
    case True
    have "uf_rep ?q x = uf_rep ?q r" using uf_rep_parent [OF ok, of x r] assms(4) by (simp add: update_conv')
    also have "\<dots> = uf_rep p r" using less.hyps [of r] uf_rank_mono [OF assms(3,4)] assms(3) True by simp
    finally show ?thesis using assms(5) True by simp
  next
    case False
    obtain y where y: "map_of p z = Some y" using less.prems by (auto simp: uf_keys_map_of)
    then have q: "map_of ?q z = Some y" using False by (simp add: update_conv')
    show ?thesis
    proof (cases "y = z")
      case True
      then show ?thesis using y q by (simp add: uf_rep_root)
    next
      case False
      then have "uf_rep ?q y = uf_rep p y"
        using less.hyps uf_rank_parent [OF assms(1) y] uf_parent [OF assms(1) y] by blast
      then show ?thesis using uf_rep_parent [OF ok q False] uf_rep_parent [OF assms(1) y False] by simp
    qed
  qed
qed

lemma uf_update_compress:
  assumes "uf_ok p" and "x \<in> uf_keys p" and "z \<in> uf_keys p"
  shows "uf_rep (AList.update x (uf_rep p x) p) z = uf_rep p z"
proof (cases "uf_rep p x = x")
  case True
  then have "map_of p x = Some x" using uf_rep_facts [OF assms(1,2)] by simp
  then have "AList.update x x p = p" by (induction p) auto
  then show ?thesis using True by simp
next
  case False
  then show ?thesis using uf_rep_facts [OF assms(1,2)] assms
    by (intro uf_update_ancestor) (auto intro: uf_keys_SomeI)
qed

lemma uf_update_link:
  assumes "uf_ok p" and "map_of p a = Some a" and "map_of p b = Some b" and "b < a" and "z \<in> uf_keys p"
  shows "uf_rep (AList.update a b p) z = (if uf_rep p z = a then b else uf_rep p z)"
proof -
  let ?q = "AList.update a b p"
  have ok: "uf_ok ?q" using uf_update_ok [OF assms(1), of a b] assms(2-4) by (simp add: uf_keys_map_of)
  have at_b: "uf_rep ?q b = b" using assms(3,4) by (intro uf_rep_root) (simp add: update_conv')
  have at_a: "uf_rep ?q a = b" using uf_rep_parent [OF ok, of a b] assms(4) at_b by (simp add: update_conv')
  show ?thesis using assms(1,5)
  proof (induction rule: uf_induct)
    case (root z)
    then show ?case by (cases "z = a") (simp_all add: at_a uf_rep_root update_conv')
  next
    case (parent z y)
    then have "z \<noteq> a" using assms(2) by auto
    then show ?case using parent by (simp add: uf_rep_parent [OF ok] uf_rep_parent [OF assms(1)] update_conv')
  qed
qed

lemma uf_compress_facts:
  assumes "uf_ok p" and "x \<in> uf_keys p" and "r = uf_rep p x"
  shows "uf_ok (uf_compress n r p x) \<and> uf_keys (uf_compress n r p x) = uf_keys p
    \<and> (\<forall>z \<in> uf_keys p. uf_rep (uf_compress n r p x) z = uf_rep p z)"
  using assms
proof (induction n r p x rule: uf_compress.induct)
  case (2 n r p x)
  obtain y where y: "map_of p x = Some y" using "2.prems"(2) by (auto simp: uf_keys_map_of)
  show ?case
  proof (cases "y = r")
    case False
    let ?q = "AList.update x r p"
    have yk: "y \<in> uf_keys p" using uf_parent [OF "2.prems"(1) y] by simp
    have r: "r \<in> uf_keys p" "r \<le> x"
      using uf_rep_facts [OF "2.prems"(1,2)] "2.prems"(3) by (auto simp: uf_keys_map_of)
    have ok: "uf_ok ?q" "uf_keys ?q = uf_keys p" using uf_update_ok [OF "2.prems"(1,2) r] by auto
    have rep: "uf_rep ?q z = uf_rep p z" if "z \<in> uf_keys p" for z
      using uf_update_compress [OF "2.prems"(1,2) that] "2.prems"(3) by simp
    have "x \<noteq> y" using False uf_rep_root [of p x] "2.prems"(3) y by auto
    then have "r = uf_rep ?q y" using rep [OF yk] uf_rep_parent [OF "2.prems"(1) y] "2.prems"(3) by simp
    then show ?thesis using "2.IH" [OF y False ok(1)] yk ok(2) rep y False by simp
  qed (use "2.prems" y in simp)
qed simp

lemma uf_find_known:
  assumes "uf_ok p" and "x \<in> uf_keys p"
  shows "snd (uf_find x p) = uf_rep p x \<and> uf_ok (fst (uf_find x p)) \<and> uf_keys (fst (uf_find x p)) = uf_keys p
    \<and> (\<forall>z \<in> uf_keys p. uf_rep (fst (uf_find x p)) z = uf_rep p z)"
proof -
  have "uf_add x p = p" using assms(2) by (simp add: uf_add_def uf_keys_map_of)
  then show ?thesis using uf_compress_facts [OF assms refl, of "length p"] by (simp add: uf_find_def Let_def uf_rep_def)
qed

lemma uf_union_facts:
  assumes "uf_ok p" and "x \<in> uf_keys p" and "y \<in> uf_keys p"
  shows "uf_ok (uf_union x y p) \<and> uf_keys (uf_union x y p) = uf_keys p
    \<and> (\<forall>z \<in> uf_keys p. uf_rep (uf_union x y p) z =
        (if uf_rep p z = uf_rep p x \<or> uf_rep p z = uf_rep p y then min (uf_rep p x) (uf_rep p y) else uf_rep p z))"
proof -
  obtain p1 a where f1: "uf_find x p = (p1, a)" by force
  obtain p2 b where f2: "uf_find y p1 = (p2, b)" by force
  note one = uf_find_known [OF assms(1,2), unfolded f1 fst_conv snd_conv]
  have "y \<in> uf_keys p1" using one assms(3) by simp
  note two = uf_find_known [OF _ this, unfolded f2 fst_conv snd_conv]
  have ok: "uf_ok p2" "uf_keys p2 = uf_keys p" "a = uf_rep p x" "b = uf_rep p y"
    and rep: "\<And>z. z \<in> uf_keys p \<Longrightarrow> uf_rep p2 z = uf_rep p z"
    using one two assms(3) by auto
  have roots: "map_of p2 a = Some a" "map_of p2 b = Some b"
    using uf_rep_facts [OF ok(1), of x] uf_rep_facts [OF ok(1), of y] rep assms(2,3) ok(2-4) by auto
  show ?thesis
  proof (cases "a = b")
    case True
    then have "uf_union x y p = p2" using f1 f2 by (simp add: uf_union_def)
    then show ?thesis using ok rep True by auto
  next
    case False
    then have eq: "uf_union x y p = AList.update (max a b) (min a b) p2" using f1 f2 by (simp add: uf_union_def)
    have mm: "map_of p2 (max a b) = Some (max a b)" "map_of p2 (min a b) = Some (min a b)" "min a b < max a b"
      using roots False by (auto simp: max_def min_def)
    have upd: "uf_ok (uf_union x y p) \<and> uf_keys (uf_union x y p) = uf_keys p"
      unfolding eq
      using uf_update_ok [OF ok(1) uf_keys_SomeI [OF mm(1)] uf_keys_SomeI [OF mm(2)] less_imp_le [OF mm(3)]] ok(2)
      by simp
    have "uf_rep (uf_union x y p) z = (if uf_rep p z = max a b then min a b else uf_rep p z)" if "z \<in> uf_keys p" for z
      unfolding eq using uf_update_link [OF ok(1) mm] that ok(2) rep [OF that] by simp
    then show ?thesis using upd ok(3,4) by (auto simp: max_def min_def)
  qed
qed

interpretation dict_forest: disjoint_sets uf_ok uf_keys uf_rep uf_union
proof
  fix p :: "'a forest" and x assume "uf_ok p" "x \<in> uf_keys p"
  then show "uf_rep p x \<in> uf_keys p \<and> uf_rep p (uf_rep p x) = uf_rep p x \<and> uf_rep p x \<le> x"
    using uf_rep_facts [of p x] by (simp add: uf_keys_map_of)
next
  fix p :: "'a forest" and x y z assume "uf_ok p" "x \<in> uf_keys p" "y \<in> uf_keys p"
  note facts = uf_union_facts [OF this]
  show "uf_ok (uf_union x y p) \<and> uf_keys (uf_union x y p) = uf_keys p" using facts by blast
  show "uf_rep (uf_union x y p) z =
      (if uf_rep p z = uf_rep p x \<or> uf_rep p z = uf_rep p y then min (uf_rep p x) (uf_rep p y) else uf_rep p z)"
    if "z \<in> uf_keys p"
    using facts that by blast
qed

subsection \<open>The list of parents\<close>

text \<open>\<open>find\<close> and \<open>union\<close> inside \<open>classify_duplicates\<close>; indices only decrease on the way to a root.\<close>

fun pl_halve :: "nat \<Rightarrow> nat list \<Rightarrow> nat \<Rightarrow> nat list \<times> nat" where
  "pl_halve 0 ps i = (ps, i)"
| "pl_halve (Suc n) ps i =
     (if ps ! i = i then (ps, i)
      else let ps' = ps[i := ps ! (ps ! i)] in pl_halve n ps' (ps' ! i))"

definition pl_find :: "nat \<Rightarrow> nat list \<Rightarrow> nat list \<times> nat" where
  "pl_find i ps = pl_halve (Suc i) ps i"

definition pl_union :: "nat \<Rightarrow> nat \<Rightarrow> nat list \<Rightarrow> nat list" where
  "pl_union left right ps =
     (let (p1, a) = pl_find left ps; (p2, b) = pl_find right p1
      in if a \<noteq> b then p2[max a b := min a b] else p2)"

text \<open>A list of parents is the forest of its indices.\<close>

definition pl_forest :: "nat list \<Rightarrow> nat forest" where
  "pl_forest ps = map (\<lambda>i. (i, ps ! i)) [0..<length ps]"

definition pl_ok :: "nat list \<Rightarrow> bool" where
  "pl_ok ps \<longleftrightarrow> (\<forall>i < length ps. ps ! i \<le> i)"

definition pl_root :: "nat list \<Rightarrow> nat \<Rightarrow> nat" where
  "pl_root ps i = uf_rep (pl_forest ps) i"

definition pl_elems :: "nat list \<Rightarrow> nat set" where
  "pl_elems ps = {..<length ps}"

lemma pl_keys [simp]: "uf_keys (pl_forest ps) = pl_elems ps"
  by (auto simp: uf_keys_def pl_forest_def pl_elems_def image_image)

lemma pl_forest_map_of: "i < length ps \<Longrightarrow> map_of (pl_forest ps) i = Some (ps ! i)"
  by (simp add: pl_forest_def map_of_map_restrict)

lemma pl_uf_ok: "pl_ok ps \<Longrightarrow> uf_ok (pl_forest ps)"
  unfolding uf_ok_def pl_keys by (auto simp: pl_ok_def pl_forest_def pl_elems_def comp_def)

lemma pl_ok_update: "pl_ok ps \<Longrightarrow> v \<le> i \<Longrightarrow> pl_ok (ps[i := v])"
  by (cases "i < length ps") (auto simp: pl_ok_def nth_list_update)

lemma update_map_pairs:
  "distinct xs \<Longrightarrow> i \<in> set xs \<Longrightarrow>
    AList.update i v (map (\<lambda>j. (j, f j)) xs) = map (\<lambda>j. (j, if j = i then v else f j)) xs"
  by (induction xs) auto

lemma pl_forest_update: "i < length ps \<Longrightarrow> pl_forest (ps[i := v]) = AList.update i v (pl_forest ps)"
  by (auto simp: pl_forest_def update_map_pairs nth_list_update)

lemma pl_halve_facts:
  assumes "pl_ok ps" and "i < length ps" and "i < n"
  shows "snd (pl_halve n ps i) = pl_root ps i \<and> pl_ok (fst (pl_halve n ps i))
    \<and> length (fst (pl_halve n ps i)) = length ps
    \<and> (\<forall>z < length ps. pl_root (fst (pl_halve n ps i)) z = pl_root ps z)"
  using assms
proof (induction n ps i rule: pl_halve.induct)
  case (2 n ps i)
  have ok: "uf_ok (pl_forest ps)" using "2.prems"(1) by (rule pl_uf_ok)
  have par: "map_of (pl_forest ps) i = Some (ps ! i)" using "2.prems"(2) by (rule pl_forest_map_of)
  show ?case
  proof (cases "ps ! i = i")
    case True
    then have "pl_root ps i = i" using uf_rep_root [of "pl_forest ps" i] par by (simp add: pl_root_def)
    then show ?thesis using True "2.prems" by simp
  next
    case False
    let ?g = "ps ! (ps ! i)" and ?q = "ps[i := ps ! (ps ! i)]"
    have lt: "ps ! i < i" using "2.prems"(1,2) False by (auto simp: pl_ok_def le_less)
    have "ps ! i < length ps" using lt "2.prems"(2) by simp
    then have g: "?g \<le> ps ! i" using "2.prems"(1) by (simp add: pl_ok_def)
    then have "?g < i" using lt by simp
    note g = g this
    have ks: "i \<in> uf_keys (pl_forest ps)" "?g \<in> uf_keys (pl_forest ps)" using "2.prems"(2) g(2) by (auto simp: pl_elems_def)
    have gp: "map_of (pl_forest ps) (ps ! i) = Some ?g" using "2.prems"(2) lt by (intro pl_forest_map_of) simp
    have "uf_rep (pl_forest ps) i = uf_rep (pl_forest ps) (ps ! i)" using uf_rep_parent [OF ok par False] .
    also have "\<dots> = uf_rep (pl_forest ps) ?g"
      using uf_rep_parent [OF ok gp] by (cases "?g = ps ! i") simp_all
    finally have same: "uf_rep (pl_forest ps) ?g = uf_rep (pl_forest ps) i" by simp
    have root: "pl_root ?q z = pl_root ps z" if "z < length ps" for z
      unfolding pl_root_def pl_forest_update [OF "2.prems"(2)]
      using that by (intro uf_update_ancestor [OF ok ks g(2) same]) (simp add: pl_elems_def)
    have okq: "pl_ok ?q" using "2.prems"(1) less_imp_le [OF g(2)] by (rule pl_ok_update)
    have at: "?q ! i = ?g" using "2.prems"(2) by simp
    have "pl_root ps ?g = pl_root ps i" using same by (simp add: pl_root_def)
    then show ?thesis
      using "2.IH" [OF False refl okq] "2.prems" g root at False by (simp add: Let_def)
  qed
qed simp

lemma pl_union_facts:
  assumes "pl_ok ps" and "x < length ps" and "y < length ps"
  shows "pl_ok (pl_union x y ps) \<and> length (pl_union x y ps) = length ps
    \<and> (\<forall>z < length ps. pl_root (pl_union x y ps) z =
        (if pl_root ps z = pl_root ps x \<or> pl_root ps z = pl_root ps y then min (pl_root ps x) (pl_root ps y)
         else pl_root ps z))"
proof -
  obtain p1 a where f1: "pl_find x ps = (p1, a)" by force
  obtain p2 b where f2: "pl_find y p1 = (p2, b)" by force
  note one = pl_halve_facts [OF assms(1,2), of "Suc x", folded pl_find_def, unfolded f1 fst_conv snd_conv]
  have "pl_ok p1" "y < length p1" using one assms(3) by auto
  note two = pl_halve_facts [OF this, of "Suc y", folded pl_find_def, unfolded f2 fst_conv snd_conv]
  have ok: "pl_ok p2" "length p2 = length ps" "a = pl_root ps x" "b = pl_root ps y"
    and root: "\<And>z. z < length ps \<Longrightarrow> pl_root p2 z = pl_root ps z"
    using one two assms(3) by auto
  have uok: "uf_ok (pl_forest p2)" using ok(1) by (rule pl_uf_ok)
  have roots: "map_of (pl_forest p2) a = Some a" "map_of (pl_forest p2) b = Some b"
    using uf_rep_facts [OF uok, of x] uf_rep_facts [OF uok, of y] root assms(2,3) ok(2-4)
    by (auto simp: pl_root_def pl_elems_def)
  then have len: "a < length ps" "b < length ps"
    using uf_keys_SomeI [OF roots(1)] uf_keys_SomeI [OF roots(2)] ok(2) by (auto simp: pl_elems_def)
  show ?thesis
  proof (cases "a = b")
    case True
    then have "pl_union x y ps = p2" using f1 f2 by (simp add: pl_union_def)
    then show ?thesis using ok root True by auto
  next
    case False
    then have eq: "pl_union x y ps = p2[max a b := min a b]" using f1 f2 by (simp add: pl_union_def)
    have mm: "map_of (pl_forest p2) (max a b) = Some (max a b)" "map_of (pl_forest p2) (min a b) = Some (min a b)"
      "min a b < max a b" "max a b < length p2"
      using roots False len ok(2) by (auto simp: max_def min_def)
    have "pl_root (pl_union x y ps) z = (if pl_root ps z = max a b then min a b else pl_root ps z)" if "z < length ps" for z
      using uf_update_link [OF uok mm(1-3)] that ok(2) root [OF that] pl_forest_update [OF mm(4)]
      unfolding eq pl_root_def by (simp add: pl_elems_def)
    moreover have "pl_ok (pl_union x y ps)"
      unfolding eq using ok(1) less_imp_le [OF mm(3)] by (rule pl_ok_update)
    ultimately show ?thesis using ok eq by (auto simp: max_def min_def)
  qed
qed

interpretation parent_list: disjoint_sets pl_ok pl_elems pl_root pl_union
proof
  fix ps x assume "pl_ok ps" "x \<in> pl_elems ps"
  then show "pl_root ps x \<in> pl_elems ps \<and> pl_root ps (pl_root ps x) = pl_root ps x \<and> pl_root ps x \<le> x"
    using uf_rep_facts [OF pl_uf_ok, of ps x] uf_keys_SomeI [of "pl_forest ps" "pl_root ps x"]
    by (auto simp: pl_root_def)
next
  fix ps x y z assume "pl_ok ps" "x \<in> pl_elems ps" "y \<in> pl_elems ps"
  then have facts: "pl_ok ps" "x < length ps" "y < length ps" by (auto simp: pl_elems_def)
  show "pl_ok (pl_union x y ps) \<and> pl_elems (pl_union x y ps) = pl_elems ps"
    using pl_union_facts [OF facts] by (simp add: pl_elems_def)
  show "pl_root (pl_union x y ps) z =
      (if pl_root ps z = pl_root ps x \<or> pl_root ps z = pl_root ps y then min (pl_root ps x) (pl_root ps y) else pl_root ps z)"
    if "z \<in> pl_elems ps"
    using pl_union_facts [OF facts] that by (simp add: pl_elems_def)
qed

text \<open>The list of all indices, each its own parent, and \<open>find\<close> on every index in turn.\<close>

lemma pl_fresh: "pl_ok [0..<n]" "pl_elems [0..<n] = {..<n}" "i < n \<Longrightarrow> pl_root [0..<n] i = i"
  using uf_rep_root [of "pl_forest [0..<n]" i] by (auto simp: pl_ok_def pl_elems_def pl_root_def pl_forest_map_of)

fun pl_find_all :: "nat list \<Rightarrow> nat list \<Rightarrow> (nat \<times> nat) list" where
  "pl_find_all [] p = []"
| "pl_find_all (i # is) p = (let (p', r) = pl_find i p in (i, r) # pl_find_all is p')"

lemma pl_find_all_root:
  "pl_ok p \<Longrightarrow> set is \<subseteq> pl_elems p \<Longrightarrow> pl_find_all is p = map (\<lambda>i. (i, pl_root p i)) is"
proof (induction "is" arbitrary: p)
  case (Cons i "is")
  obtain p' r where f: "pl_find i p = (p', r)" by force
  have "i < length p" using Cons.prems(2) by (simp add: pl_elems_def)
  from pl_halve_facts [OF Cons.prems(1) this lessI, folded pl_find_def, unfolded f fst_conv snd_conv]
  have facts: "r = pl_root p i" "pl_ok p'" "length p' = length p" "\<And>z. z < length p \<Longrightarrow> pl_root p' z = pl_root p z" by auto
  have "pl_find_all is p' = map (\<lambda>j. (j, pl_root p' j)) is"
    using facts Cons.prems(2) by (intro Cons.IH) (auto simp: pl_elems_def)
  also have "\<dots> = map (\<lambda>j. (j, pl_root p j)) is" using facts Cons.prems(2) by (auto simp: pl_elems_def)
  finally show ?case using facts by (simp add: f)
qed simp

end
