(* ===== verification/Splitting.thy ===== *)
theory Splitting
  imports Dataset_Sample Union_Find
begin

text \<open>
  The train/validation/test/holdout split (\<open>clouda_data/pretraining/splitting.py\<close>): groups of samples
  are merged where they share content, each merged component gets one split, and a report checks
  what must not be shared across splits. \<open>bucket\<close> is SHA-256 of a text, read as an integer.
\<close>

subsection \<open>Ratios\<close>

text \<open>A value of the dictionary of ratios; floats are finite or not.\<close>

datatype ratio = RatioFloat rat | RatioInt int | RatioBool bool | RatioNotFinite | RatioOther

definition DEFAULT_RATIOS :: "(string \<times> ratio) list" where
  "DEFAULT_RATIOS = [(''train'', RatioFloat (8 / 10)), (''validation'', RatioFloat (1 / 10)),
     (''test'', RatioFloat (5 / 100)), (''holdout'', RatioFloat (5 / 100))]"

definition SPLIT_ORDER :: "split_name list" where
  "SPLIT_ORDER = [Train, Validation, Test, Holdout]"

fun ratio_value :: "ratio \<Rightarrow> rat option" where
  "ratio_value (RatioFloat x) = (if 0 \<le> x \<and> x \<le> 1 then Some x else None)"
| "ratio_value (RatioInt n) = (if 0 \<le> n \<and> n \<le> 1 then Some (of_int n) else None)"
| "ratio_value _ = None"

definition exact_ratio :: "(string \<times> ratio) list \<Rightarrow> split_name \<Rightarrow> rat" where
  "exact_ratio ratios name =
     (case map_of ratios (split_value name) of None \<Rightarrow> 0 | Some v \<Rightarrow> (case ratio_value v of None \<Rightarrow> 0 | Some x \<Rightarrow> x))"

definition check_ratios :: "(string \<times> ratio) list \<Rightarrow> string option" where
  "check_ratios ratios =
     (if set (map fst ratios) \<noteq> set (map split_value SPLIT_ORDER)
      then Some ''Split ratios must define train, validation, test, holdout.''
      else if list_ex (\<lambda>(k, v). ratio_value v = None) ratios
      then Some ''Split ratios must be finite numbers between 0 and 1.''
      else if sum_list (map (exact_ratio ratios) SPLIT_ORDER) \<noteq> 1 then Some ''Split ratios must sum to 1.0.''
      else None)"

text \<open>The upper ends of the splits' intervals of hash values, in the order of the splits.\<close>

fun boundaries_from :: "rat \<Rightarrow> (split_name \<Rightarrow> rat) \<Rightarrow> split_name list \<Rightarrow> (split_name \<times> int) list" where
  "boundaries_from cumulative r [] = []"
| "boundaries_from cumulative r (name # names) =
     (name, \<lfloor>(cumulative + r name) * 2 ^ 256\<rfloor>) # boundaries_from (cumulative + r name) r names"

definition boundaries_of :: "(string \<times> ratio) list \<Rightarrow> (split_name \<times> int) list" where
  "boundaries_of ratios = boundaries_from 0 (exact_ratio ratios) SPLIT_ORDER"

definition split_for_key :: "(string \<Rightarrow> int) \<Rightarrow> string \<Rightarrow> int \<Rightarrow> (split_name \<times> int) list \<Rightarrow> split_name" where
  "split_for_key bucket key seed boundaries =
     (case List.find (\<lambda>(name, upper). bucket (int_text seed @ '':split:'' @ key) < upper) boundaries of
        Some (name, _) \<Rightarrow> name
      | None \<Rightarrow> Holdout)"

subsection \<open>Groups\<close>

definition active_sample :: "dataset_sample \<Rightarrow> bool" where
  "active_sample s \<longleftrightarrow> ds_validation_status s \<notin> {StatusError, StatusExcluded}"

definition resolve_group_key :: "dataset_sample \<Rightarrow> string" where
  "resolve_group_key s =
     (if opt_text (ds_group_id s) \<noteq> [] then ds_source_id s @ '':group:'' @ opt_text (ds_group_id s)
      else if opt_text (ds_document_id s) \<noteq> [] then ds_source_id s @ '':'' @ opt_text (ds_document_id s)
      else if opt_text (ds_source_record_id s) \<noteq> [] then ds_source_id s @ '':record:'' @ opt_text (ds_source_record_id s)
      else ds_sample_id s)"

text \<open>\<open>group_members\<close> in insertion order, and the samples of a group.\<close>

definition group_keys :: "dataset_sample list \<Rightarrow> string list" where
  "group_keys active = fromkeys (map resolve_group_key active)"

definition group_samples :: "dataset_sample list \<Rightarrow> string \<Rightarrow> dataset_sample list" where
  "group_samples active key = filter (\<lambda>s. resolve_group_key s = key) active"

subsection \<open>Merging\<close>

datatype hash_kind = FileHash | TextHash

text \<open>The first group with a content hash owns it; a later group with the same hash joins the owner.\<close>

definition link_hash ::
  "string \<times> hash_kind \<times> string \<Rightarrow> ((hash_kind \<times> string) \<times> string) list \<times> string forest
    \<Rightarrow> ((hash_kind \<times> string) \<times> string) list \<times> string forest" where
  "link_hash = (\<lambda>(key, kh) (owners, p).
     case map_of owners kh of
       None \<Rightarrow> ((kh, key) # owners, p)
     | Some owner \<Rightarrow> if owner \<noteq> key then (owners, uf_union owner key p) else (owners, p))"

definition sample_hashes :: "dataset_sample \<Rightarrow> (hash_kind \<times> string) list" where
  "sample_hashes s = filter (\<lambda>(kind, h). h \<noteq> [])
     [(FileHash, opt_text (ds_file_sha256 s)), (TextHash, opt_text (ds_normalized_text_sha256 s))]"

text \<open>The contents in the order of the loops: groups sorted by key, samples sorted within.\<close>

definition content_order :: "dataset_sample list \<Rightarrow> (string \<times> hash_kind \<times> string) list" where
  "content_order active =
     [(key, kh). key \<leftarrow> sort (group_keys active),
        s \<leftarrow> sort_key (\<lambda>s. (ds_sample_id s, ds_source_path s)) (group_samples active key),
        kh \<leftarrow> sample_hashes s]"

text \<open>Duplicates join all groups that have a sample with the canonical id.\<close>

definition duplicate_links :: "dataset_sample list \<Rightarrow> (string \<times> string) list" where
  "duplicate_links active =
     [(resolve_group_key s, key). s \<leftarrow> active, opt_text (ds_duplicate_of s) \<noteq> [],
        key \<leftarrow> sort (group_keys (filter (\<lambda>t. ds_sample_id t = opt_text (ds_duplicate_of s)) active))]"

definition merge_groups :: "dataset_sample list \<Rightarrow> string forest" where
  "merge_groups active =
     (let p0 = fold uf_add (group_keys active) [];
          (owners, p1) = fold link_hash (content_order active) ([], p0)
      in fold (\<lambda>(own, canonical). uf_union own canonical) (duplicate_links active) p1)"

text \<open>\<open>merged_root\<close>: \<open>find\<close> on every group in turn.\<close>

fun find_all :: "string list \<Rightarrow> string forest \<Rightarrow> (string \<times> string) list" where
  "find_all [] p = []"
| "find_all (k # ks) p = (let (p', r) = uf_find k p in (k, r) # find_all ks p')"

subsection \<open>Assignment\<close>

definition prior_splits :: "dataset_sample list \<Rightarrow> string list \<Rightarrow> split_name list" where
  "prior_splits active members =
     remdups (filter (\<lambda>x. x \<noteq> Unassigned)
       (concat (map (\<lambda>key. map ds_target_split (group_samples active key)) members)))"

definition component_split ::
  "(string \<Rightarrow> int) \<Rightarrow> dataset_sample list \<Rightarrow> int \<Rightarrow> (split_name \<times> int) list \<Rightarrow> string list \<Rightarrow> split_name" where
  "component_split bucket active seed boundaries members =
     (case prior_splits active members of
        [split] \<Rightarrow> split
      | _ \<Rightarrow> split_for_key bucket (Min (set members)) seed boundaries)"

definition split_of_group ::
  "(string \<Rightarrow> int) \<Rightarrow> dataset_sample list \<Rightarrow> int \<Rightarrow> (split_name \<times> int) list \<Rightarrow> (string \<times> string) list
    \<Rightarrow> string \<Rightarrow> split_name" where
  "split_of_group bucket active seed boundaries roots key =
     (case map_of roots key of
        None \<Rightarrow> Unassigned
      | Some r0 \<Rightarrow> component_split bucket active seed boundaries (map fst (filter (\<lambda>(k, r). r = r0) roots)))"

subsection \<open>Report\<close>

record split_report =
  sr_counts :: "(string \<times> nat) list"
  sr_group_counts :: "(string \<times> nat) list"
  sr_checks :: "(string \<times> bool \<times> nat) list"
  sr_seed :: int
  sr_ratios :: "(string \<times> ratio) list"
  sr_passed :: bool

text \<open>The keys that occur with more than one split.\<close>

definition crossing :: "('k \<times> split_name) list \<Rightarrow> 'k list" where
  "crossing pairs =
     filter (\<lambda>k. 1 < length (remdups (map snd (filter (\<lambda>(k', x). k' = k) pairs)))) (remdups (map fst pairs))"

definition tagged :: "(dataset_sample \<Rightarrow> string) \<Rightarrow> dataset_sample list \<Rightarrow> (string \<times> split_name) list" where
  "tagged f active = map (\<lambda>s. (f s, ds_target_split s)) (filter (\<lambda>s. f s \<noteq> []) active)"

definition document_key :: "dataset_sample \<Rightarrow> string" where
  "document_key s = (if opt_text (ds_document_id s) = [] then [] else ds_source_id s @ '':'' @ opt_text (ds_document_id s))"

definition cluster_pairs :: "dataset_sample list \<Rightarrow> (string \<times> split_name) list" where
  "cluster_pairs active =
     [(opt_text (ds_duplicate_of s), x). s \<leftarrow> active, opt_text (ds_duplicate_of s) \<noteq> [],
        x \<leftarrow> ds_target_split s # map ds_target_split (filter (\<lambda>t. ds_sample_id t = opt_text (ds_duplicate_of s)) active)]"

definition seen_groups :: "dataset_sample list \<Rightarrow> split_name \<Rightarrow> string list" where
  "seen_groups active x = remdups (map resolve_group_key (filter (\<lambda>s. ds_target_split s = x) active))"

definition leakage_checks :: "dataset_sample list \<Rightarrow> (string \<times> bool \<times> nat) list" where
  "leakage_checks active =
     (let record = (\<lambda>name violations. (name, violations = [], length violations));
          training = seen_groups active Train @ seen_groups active Validation @ seen_groups active Test
      in [record ''file_hash_not_shared_across_splits'' (crossing (tagged (\<lambda>s. opt_text (ds_file_sha256 s)) active)),
          record ''normalized_text_hash_not_shared_across_splits''
            (crossing (tagged (\<lambda>s. opt_text (ds_normalized_text_sha256 s)) active)),
          record ''document_not_shared_across_splits'' (crossing (tagged document_key active)),
          record ''group_not_shared_across_splits'' (crossing (map (\<lambda>s. (resolve_group_key s, ds_target_split s)) active)),
          record ''duplicate_cluster_not_shared_across_splits'' (crossing (cluster_pairs active)),
          record ''holdout_disjoint_from_training'' (filter (\<lambda>g. g \<in> set training) (seen_groups active Holdout))])"

definition build_report :: "dataset_sample list \<Rightarrow> int \<Rightarrow> (string \<times> ratio) list \<Rightarrow> split_report" where
  "build_report samples seed ratios =
     (let active = filter (\<lambda>s. active_sample s \<and> ds_target_split s \<noteq> Unassigned) samples;
          checks = leakage_checks active
      in \<lparr>sr_counts = map (\<lambda>x. (split_value x, length (filter (\<lambda>s. ds_target_split s = x) active))) SPLIT_ORDER,
          sr_group_counts = map (\<lambda>x. (split_value x, length (seen_groups active x))) SPLIT_ORDER,
          sr_checks = checks, sr_seed = seed, sr_ratios = ratios,
          sr_passed = list_all (\<lambda>(name, ok, n). ok) checks\<rparr>)"

definition effective_ratios :: "(string \<times> ratio) list option \<Rightarrow> (string \<times> ratio) list" where
  "effective_ratios given = (case given of None \<Rightarrow> DEFAULT_RATIOS | Some rs \<Rightarrow> if rs = [] then DEFAULT_RATIOS else rs)"

definition assign_splits ::
  "(string \<Rightarrow> int) \<Rightarrow> dataset_sample list \<Rightarrow> int \<Rightarrow> (string \<times> ratio) list option
    \<Rightarrow> string + (dataset_sample list \<times> split_report)" where
  "assign_splits bucket samples seed given =
     (let ratios = effective_ratios given
      in case check_ratios ratios of
           Some complaint \<Rightarrow> Inl complaint
         | None \<Rightarrow>
             let active = filter active_sample samples;
                 roots = find_all (group_keys active) (merge_groups active);
                 split = split_of_group bucket active seed (boundaries_of ratios) roots;
                 updated = map (\<lambda>s. s\<lparr>ds_target_split :=
                     (if active_sample s then split (resolve_group_key s) else Unassigned)\<rparr>) (sort_key ds_sample_id samples)
             in Inr (updated, build_report updated seed ratios))"

subsection \<open>The merged groups are the components of shared content\<close>

lemma set_group_keys [simp]: "set (group_keys active) = resolve_group_key ` set active"
  by (simp add: group_keys_def)

lemma fold_uf_add:
  "distinct ks \<Longrightarrow> set ks \<inter> uf_keys p = {} \<Longrightarrow> fold uf_add ks p = p @ map (\<lambda>k. (k, k)) ks"
proof (induction ks arbitrary: p)
  case (Cons k ks)
  then have "uf_add k p = p @ [(k, k)]" by (auto simp: uf_add_def uf_keys_map_of)
  moreover have "set ks \<inter> uf_keys (p @ [(k, k)]) = {}" using Cons.prems by (auto simp: uf_keys_def)
  ultimately show ?case using Cons by simp
qed simp

lemma fresh_forest:
  assumes "distinct ks"
  shows "uf_ok (fold uf_add ks []) \<and> uf_keys (fold uf_add ks []) = set ks
    \<and> (\<forall>k \<in> set ks. uf_rep (fold uf_add ks []) k = k)"
proof -
  have eq: "fold uf_add ks [] = map (\<lambda>k. (k, k)) ks" using fold_uf_add [OF assms, of "[]"] by (simp add: uf_keys_def)
  have keys: "uf_keys (map (\<lambda>k. (k, k)) ks) = set ks" by (force simp: uf_keys_def)
  have "uf_ok (map (\<lambda>k. (k, k)) ks)"
    unfolding uf_ok_def keys using assms by (auto simp: comp_def)
  moreover have "map_of (map (\<lambda>k. (k, k)) ks) k = Some k" if "k \<in> set ks" for k
    using that by (simp add: map_of_map_restrict)
  ultimately show ?thesis unfolding eq using keys by (auto intro: uf_rep_root)
qed

text \<open>The links that the loop over the contents makes.\<close>

definition hash_links :: "(string \<times> hash_kind \<times> string) list \<Rightarrow> (string \<times> string) list" where
  "hash_links ts = filter (\<lambda>(a, b). a \<noteq> b) (owner_links [] ts)"

lemma fold_link_hash:
  "snd (fold link_hash ts (owners, p)) = dict_forest.links (filter (\<lambda>(a, b). a \<noteq> b) (owner_links owners ts)) p"
  by (induction owners ts arbitrary: p rule: owner_links.induct) (auto simp: link_hash_def split: option.split)

lemma hash_links_common: "(a, b) \<in> set (hash_links ts) \<Longrightarrow> (a, b) \<in> common_label ts"
  by (auto simp: hash_links_def dest: owner_links_common)

lemma hash_links_closure: "(set (hash_links ts) \<union> (set (hash_links ts))\<inverse>)\<^sup>* = (common_label ts)\<^sup>*"
  by (rule owner_links_closure) (auto simp: hash_links_def)

text \<open>
  Two samples share content if they have a content hash in common or one is marked as a duplicate of
  the other's id; the groups of such samples belong together.
\<close>

definition shares :: "dataset_sample \<Rightarrow> dataset_sample \<Rightarrow> bool" where
  "shares s t \<longleftrightarrow> set (sample_hashes s) \<inter> set (sample_hashes t) \<noteq> {}
     \<or> opt_text (ds_duplicate_of s) \<noteq> [] \<and> opt_text (ds_duplicate_of s) = ds_sample_id t"

definition group_edges :: "dataset_sample set \<Rightarrow> (string \<times> string) set" where
  "group_edges A = {(resolve_group_key s, resolve_group_key t) | s t. s \<in> A \<and> t \<in> A \<and> shares s t}"

definition same_component :: "dataset_sample set \<Rightarrow> (string \<times> string) set" where
  "same_component A = (group_edges A \<union> (group_edges A)\<inverse>)\<^sup>*"

lemma same_component_trans:
  "(a, b) \<in> same_component A \<Longrightarrow> (b, c) \<in> same_component A \<Longrightarrow> (a, c) \<in> same_component A"
  unfolding same_component_def by (rule rtrancl_trans)

lemma same_component_sym: "(a, b) \<in> same_component A \<Longrightarrow> (b, a) \<in> same_component A"
  unfolding same_component_def by (meson symD sym_Un_converse sym_rtrancl)

lemma same_component_refl [simp]: "(a, a) \<in> same_component A"
  by (simp add: same_component_def)

lemma set_content_order:
  "(key, kh) \<in> set (content_order active) \<longleftrightarrow>
    (\<exists>s \<in> set active. resolve_group_key s = key \<and> kh \<in> set (sample_hashes s))"
  by (force simp: content_order_def group_samples_def)

lemma set_duplicate_links:
  "(a, b) \<in> set (duplicate_links active) \<longleftrightarrow>
    (\<exists>s \<in> set active. \<exists>t \<in> set active. resolve_group_key s = a \<and> resolve_group_key t = b
       \<and> opt_text (ds_duplicate_of s) \<noteq> [] \<and> opt_text (ds_duplicate_of s) = ds_sample_id t)"
  by (force simp: duplicate_links_def)

lemma merge_groups_facts:
  "uf_ok (merge_groups active) \<and> uf_keys (merge_groups active) = set (group_keys active)
    \<and> (\<forall>a \<in> set (group_keys active). \<forall>b \<in> set (group_keys active).
         uf_rep (merge_groups active) a = uf_rep (merge_groups active) b \<longleftrightarrow> (a, b) \<in> same_component (set active))"
proof -
  let ?ks = "group_keys active" and ?L = "hash_links (content_order active)" and ?D = "duplicate_links active"
  let ?p0 = "fold uf_add ?ks []" and ?G = "group_edges (set active)"
  have "distinct ?ks" by (simp add: group_keys_def)
  note p0 = fresh_forest [OF this]
  obtain owners p1 where p1: "fold link_hash (content_order active) ([], ?p0) = (owners, p1)" by force
  have "p1 = dict_forest.links ?L ?p0" using fold_link_hash [of "content_order active" "[]" ?p0] p1 by (simp add: hash_links_def)
  then have eq: "merge_groups active = dict_forest.links (?L @ ?D) ?p0"
    by (simp add: merge_groups_def p1 dict_forest.links_append) (simp add: dict_forest.links_def)
  have L: "(a, b) \<in> common_label (content_order active)" if "(a, b) \<in> set ?L" for a b
    using that by (rule hash_links_common)
  have inside: "\<forall>(x, y) \<in> set (?L @ ?D). x \<in> uf_keys ?p0 \<and> y \<in> uf_keys ?p0"
    using L by (fastforce simp: p0 set_content_order set_duplicate_links common_label_def)
  let ?X = "set (?L @ ?D) \<union> (set (?L @ ?D))\<inverse>"
  have "dict_forest.linked (?L @ ?D) ?p0 = ?X\<^sup>*"
    by (rule dict_forest.linked_apart) (use p0 in \<open>simp add: dict_forest.same_def\<close>)
  also have "\<dots> = same_component (set active)"
    unfolding same_component_def
  proof (rule equalityI; rule rtrancl_subset_rtrancl)
    have "(a, b) \<in> ?G" if "(a, b) \<in> set (?L @ ?D)" for a b
      using that L [of a b] by (fastforce simp: group_edges_def shares_def set_content_order set_duplicate_links common_label_def)
    then show "?X \<subseteq> (?G \<union> ?G\<inverse>)\<^sup>*" by fastforce
    have LX: "(set ?L \<union> (set ?L)\<inverse>)\<^sup>* \<subseteq> ?X\<^sup>*" by (intro rtrancl_mono) auto
    have edge: "(a, b) \<in> ?X\<^sup>*" if ab: "(a, b) \<in> ?G" for a b
    proof -
      obtain s t where st: "s \<in> set active" "t \<in> set active" "a = resolve_group_key s" "b = resolve_group_key t" "shares s t"
        using ab by (auto simp: group_edges_def)
      show ?thesis
      proof (cases "set (sample_hashes s) \<inter> set (sample_hashes t) \<noteq> {}")
        case True
        then have "(a, b) \<in> common_label (content_order active)"
          using st by (force simp: set_content_order common_label_def)
        then have "(a, b) \<in> (set ?L \<union> (set ?L)\<inverse>)\<^sup>*" unfolding hash_links_closure by (rule r_into_rtrancl)
        then show ?thesis using LX by blast
      next
        case False
        then have "(a, b) \<in> set ?D" using st by (auto simp: shares_def set_duplicate_links)
        then show ?thesis by auto
      qed
    qed
    have "sym (?X\<^sup>*)" by (intro sym_rtrancl sym_Un_converse)
    then show "?G \<union> ?G\<inverse> \<subseteq> ?X\<^sup>*" using edge by (auto dest: symD)
  qed
  finally show ?thesis
    using dict_forest.links_ok [OF conjunct1 [OF p0] inside] dict_forest.links_same_iff [OF conjunct1 [OF p0] inside] p0
    unfolding eq by (auto simp: dict_forest.same_def)
qed

lemma find_all_rep:
  "uf_ok p \<Longrightarrow> set ks \<subseteq> uf_keys p \<Longrightarrow> find_all ks p = map (\<lambda>k. (k, uf_rep p k)) ks"
proof (induction ks arbitrary: p)
  case (Cons k ks)
  obtain p' r where f: "uf_find k p = (p', r)" by force
  have "k \<in> uf_keys p" using Cons.prems(2) by simp
  note facts = uf_find_known [OF Cons.prems(1) this, unfolded f fst_conv snd_conv]
  have "find_all ks p' = map (\<lambda>k. (k, uf_rep p' k)) ks" using facts Cons.prems(2) by (intro Cons.IH) auto
  also have "\<dots> = map (\<lambda>k. (k, uf_rep p k)) ks" using facts Cons.prems(2) by auto
  finally show ?case using facts by (simp add: f)
qed simp

subsection \<open>Reference\<close>

text \<open>
  The split of a group by its component alone: the split that all earlier assignments in the
  component agree on, or else the one that the smallest key of the component hashes to.
\<close>

definition component :: "dataset_sample set \<Rightarrow> string \<Rightarrow> string set" where
  "component A key = {k \<in> resolve_group_key ` A. (key, k) \<in> same_component A}"

definition earlier_splits :: "dataset_sample set \<Rightarrow> string \<Rightarrow> split_name set" where
  "earlier_splits A key = {ds_target_split t | t. t \<in> A \<and> resolve_group_key t \<in> component A key \<and> ds_target_split t \<noteq> Unassigned}"

definition reference_split ::
  "(string \<Rightarrow> int) \<Rightarrow> dataset_sample set \<Rightarrow> int \<Rightarrow> (split_name \<times> int) list \<Rightarrow> string \<Rightarrow> split_name" where
  "reference_split bucket A seed boundaries key =
     (if card (earlier_splits A key) = 1 then the_elem (earlier_splits A key)
      else split_for_key bucket (Min (component A key)) seed boundaries)"

lemma component_same: "(a, b) \<in> same_component A \<Longrightarrow> component A a = component A b"
  using same_component_trans same_component_sym unfolding component_def by blast

lemma reference_same:
  "(a, b) \<in> same_component A \<Longrightarrow> reference_split bucket A seed bounds a = reference_split bucket A seed bounds b"
  using component_same [of a b A] by (simp add: reference_split_def earlier_splits_def)

lemma split_of_group_reference:
  assumes "key \<in> resolve_group_key ` set active"
  shows "split_of_group bucket active seed bounds (find_all (group_keys active) (merge_groups active)) key
    = reference_split bucket (set active) seed bounds key"
proof -
  let ?p = "merge_groups active" and ?ks = "group_keys active" and ?A = "set active"
  note facts = merge_groups_facts [of active]
  have roots: "find_all ?ks ?p = map (\<lambda>k. (k, uf_rep ?p k)) ?ks" using facts by (intro find_all_rep) auto
  let ?ms = "filter (\<lambda>k. uf_rep ?p k = uf_rep ?p key) ?ks"
  have lookup: "map_of (find_all ?ks ?p) key = Some (uf_rep ?p key)"
    using assms by (simp add: roots map_of_map_restrict)
  have "map fst (filter (\<lambda>(k, r). r = uf_rep ?p key) (map (\<lambda>k. (k, uf_rep ?p k)) ?ks)) = ?ms"
    by (simp add: filter_map comp_def)
  then have split: "split_of_group bucket active seed bounds (find_all ?ks ?p) key
      = component_split bucket active seed bounds ?ms"
    by (simp add: split_of_group_def lookup) (simp add: roots)
  have "uf_rep ?p k = uf_rep ?p key \<longleftrightarrow> (key, k) \<in> same_component ?A" if "k \<in> set ?ks" for k
    using facts that assms by (metis set_group_keys)
  then have ms: "set ?ms = component ?A key" by (auto simp: component_def)
  have prior: "set (prior_splits active ?ms) = earlier_splits ?A key"
    using ms by (auto simp: prior_splits_def earlier_splits_def group_samples_def)
  have card: "card (earlier_splits ?A key) = length (prior_splits active ?ms)"
    unfolding prior [symmetric] by (intro distinct_card) (simp add: prior_splits_def)
  show ?thesis
  proof (cases "\<exists>x. prior_splits active ?ms = [x]")
    case True
    then obtain x where x: "prior_splits active ?ms = [x]" by blast
    then have "earlier_splits ?A key = {x}" using prior by simp
    then show ?thesis by (simp add: split component_split_def x reference_split_def)
  next
    case False
    then have "length (prior_splits active ?ms) \<noteq> 1" by (cases "prior_splits active ?ms") auto
    moreover have "component_split bucket active seed bounds ?ms = split_for_key bucket (Min (set ?ms)) seed bounds"
      using False by (auto simp only: component_split_def split: list.split)
    ultimately show ?thesis unfolding split reference_split_def card ms by simp
  qed
qed

definition active_set :: "dataset_sample list \<Rightarrow> dataset_sample set" where
  "active_set samples = {s \<in> set samples. active_sample s}"

lemma assign_splits_eq:
  "assign_splits bucket samples seed given =
     (case check_ratios (effective_ratios given) of
        Some complaint \<Rightarrow> Inl complaint
      | None \<Rightarrow>
          let updated = map (\<lambda>s. s\<lparr>ds_target_split :=
                (if active_sample s
                 then reference_split bucket (active_set samples) seed (boundaries_of (effective_ratios given)) (resolve_group_key s)
                 else Unassigned)\<rparr>) (sort_key ds_sample_id samples)
          in Inr (updated, build_report updated seed (effective_ratios given)))"
proof -
  have A: "set (filter active_sample samples) = active_set samples" by (simp add: active_set_def)
  let ?split = "split_of_group bucket (filter active_sample samples) seed (boundaries_of (effective_ratios given))
      (find_all (group_keys (filter active_sample samples)) (merge_groups (filter active_sample samples)))"
  have "map (\<lambda>s. s\<lparr>ds_target_split := (if active_sample s then ?split (resolve_group_key s) else Unassigned)\<rparr>)
      (sort_key ds_sample_id samples)
    = map (\<lambda>s. s\<lparr>ds_target_split := (if active_sample s
        then reference_split bucket (active_set samples) seed (boundaries_of (effective_ratios given)) (resolve_group_key s)
        else Unassigned)\<rparr>) (sort_key ds_sample_id samples)"
    using split_of_group_reference [of _ "filter active_sample samples", unfolded A]
    by (intro map_cong) (auto simp: active_set_def)
  note eq = this
  show ?thesis unfolding assign_splits_def Let_def eq by (rule refl)
qed

text \<open>
  C19. The assignment computes its specification: union-find, loops and dictionaries together give
  every active sample the split of its component, and every other sample none. In particular the
  split of a sample depends on the set of the samples only, not on their order.
\<close>

theorem assign_splits_reference:
  "assign_splits bucket samples seed given =
     (case check_ratios (effective_ratios given) of
        Some complaint \<Rightarrow> Inl complaint
      | None \<Rightarrow>
          let updated = map (\<lambda>s. s\<lparr>ds_target_split :=
                (if active_sample s
                 then reference_split bucket (active_set samples) seed (boundaries_of (effective_ratios given)) (resolve_group_key s)
                 else Unassigned)\<rparr>) (sort_key ds_sample_id samples)
          in Inr (updated, build_report updated seed (effective_ratios given)))"
  by (rule assign_splits_eq)

subsection \<open>What the splits guarantee\<close>

definition final_split ::
  "(string \<Rightarrow> int) \<Rightarrow> dataset_sample list \<Rightarrow> int \<Rightarrow> (string \<times> ratio) list option \<Rightarrow> dataset_sample \<Rightarrow> split_name" where
  "final_split bucket samples seed given s =
     (if active_sample s
      then reference_split bucket (active_set samples) seed (boundaries_of (effective_ratios given)) (resolve_group_key s)
      else Unassigned)"

lemma assign_splits_InrD:
  assumes "assign_splits bucket samples seed given = Inr (updated, report)"
  shows "updated = map (\<lambda>s. s\<lparr>ds_target_split := final_split bucket samples seed given s\<rparr>) (sort_key ds_sample_id samples)
    \<and> report = build_report updated seed (effective_ratios given)"
  using assms unfolding assign_splits_eq final_split_def by (auto simp: Let_def split: option.splits)

lemma retarget_simps [simp]:
  "active_sample (s\<lparr>ds_target_split := x\<rparr>) = active_sample s"
  "resolve_group_key (s\<lparr>ds_target_split := x\<rparr>) = resolve_group_key s"
  "sample_hashes (s\<lparr>ds_target_split := x\<rparr>) = sample_hashes s"
  "shares (s\<lparr>ds_target_split := x\<rparr>) t = shares s t" "shares t (s\<lparr>ds_target_split := x\<rparr>) = shares t s"
  by (simp_all add: active_sample_def resolve_group_key_def sample_hashes_def shares_def)

lemma boundary_names: "(name, upper) \<in> set (boundaries_from c r names) \<Longrightarrow> name \<in> set names"
  by (induction c r names rule: boundaries_from.induct) auto

lemma split_for_key_assigned: "split_for_key bucket key seed (boundaries_of ratios) \<noteq> Unassigned"
proof -
  have "name \<noteq> Unassigned" if "(name, upper) \<in> set (boundaries_of ratios)" for name upper
    using boundary_names [OF that [unfolded boundaries_of_def]] by (auto simp: SPLIT_ORDER_def)
  then show ?thesis
    unfolding split_for_key_def by (auto split: option.split dest!: find_Some_iff [THEN iffD1]) (metis nth_mem)
qed

lemma reference_assigned: "reference_split bucket A seed (boundaries_of ratios) key \<noteq> Unassigned"
proof (cases "card (earlier_splits A key) = 1")
  case True
  then obtain x where "earlier_splits A key = {x}" by (auto simp: card_1_singleton_iff)
  moreover from this have "x \<in> earlier_splits A key" by simp
  then have "x \<noteq> Unassigned" by (auto simp: earlier_splits_def)
  ultimately show ?thesis by (simp add: reference_split_def)
qed (simp add: reference_split_def split_for_key_assigned)

lemma final_split_joined:
  assumes "s \<in> active_set samples" and "t \<in> active_set samples"
    and "resolve_group_key s = resolve_group_key t \<or> shares s t"
  shows "final_split bucket samples seed given s = final_split bucket samples seed given t
    \<and> final_split bucket samples seed given s \<noteq> Unassigned"
proof -
  have "(resolve_group_key s, resolve_group_key t) \<in> same_component (active_set samples)"
    using assms by (auto simp: same_component_def group_edges_def)
  from reference_same [OF this] show ?thesis
    using assms(1,2) reference_assigned by (auto simp: final_split_def active_set_def)
qed

text \<open>The report's checks, on samples that agree where they are joined.\<close>

lemma crossing_Nil:
  assumes "\<And>k x y. (k, x) \<in> set pairs \<Longrightarrow> (k, y) \<in> set pairs \<Longrightarrow> x = y"
  shows "crossing pairs = []"
proof -
  have "length (remdups (map snd (filter (\<lambda>(k', x). k' = k) pairs))) \<le> 1" for k
  proof -
    let ?xs = "map snd (filter (\<lambda>(k', x). k' = k) pairs)"
    have eq: "x = y" if "x \<in> set ?xs" "y \<in> set ?xs" for x y using that assms [of k x y] by auto
    have "card (set ?xs) \<le> Suc 0" using eq by (intro card_le_Suc0_iff_eq [THEN iffD2]) auto
    then show ?thesis by (simp add: length_remdups_card_conv)
  qed
  then show ?thesis by (auto simp: crossing_def filter_empty_conv not_less)
qed

lemma set_sample_hashes:
  "kh \<in> set (sample_hashes s) \<longleftrightarrow> snd kh \<noteq> []
    \<and> kh \<in> {(FileHash, opt_text (ds_file_sha256 s)), (TextHash, opt_text (ds_normalized_text_sha256 s))}"
  by (cases kh) (auto simp: sample_hashes_def)

lemma shares_iff:
  "shares s t \<longleftrightarrow> opt_text (ds_file_sha256 s) \<noteq> [] \<and> opt_text (ds_file_sha256 s) = opt_text (ds_file_sha256 t)
     \<or> opt_text (ds_normalized_text_sha256 s) \<noteq> [] \<and> opt_text (ds_normalized_text_sha256 s) = opt_text (ds_normalized_text_sha256 t)
     \<or> opt_text (ds_duplicate_of s) \<noteq> [] \<and> opt_text (ds_duplicate_of s) = ds_sample_id t"
proof -
  have "set (sample_hashes s) \<inter> set (sample_hashes t) \<noteq> {} \<longleftrightarrow>
      opt_text (ds_file_sha256 s) \<noteq> [] \<and> opt_text (ds_file_sha256 s) = opt_text (ds_file_sha256 t)
    \<or> opt_text (ds_normalized_text_sha256 s) \<noteq> [] \<and> opt_text (ds_normalized_text_sha256 s) = opt_text (ds_normalized_text_sha256 t)"
    unfolding disjoint_iff set_sample_hashes by auto
  then show ?thesis by (auto simp: shares_def)
qed

lemma crossing_tagged:
  assumes "\<And>s t. s \<in> set active \<Longrightarrow> t \<in> set active \<Longrightarrow> f s \<noteq> [] \<Longrightarrow> f s = f t \<Longrightarrow> ds_target_split s = ds_target_split t"
  shows "crossing (tagged f active) = []"
proof (rule crossing_Nil)
  fix k x y assume "(k, x) \<in> set (tagged f active)" "(k, y) \<in> set (tagged f active)"
  then obtain s t where "s \<in> set active" "t \<in> set active" "f s \<noteq> []" "f s = f t" "ds_target_split s = x" "ds_target_split t = y"
    by (auto simp: tagged_def)
  then show "x = y" using assms by blast
qed

definition CONDITIONAL_CHECKS :: "string list" where
  "CONDITIONAL_CHECKS = [''document_not_shared_across_splits'', ''duplicate_cluster_not_shared_across_splits'']"

lemma checks_pass:
  assumes "\<And>s t. s \<in> set active \<Longrightarrow> t \<in> set active \<Longrightarrow> resolve_group_key s = resolve_group_key t \<or> shares s t
      \<Longrightarrow> ds_target_split s = ds_target_split t"
  shows "\<forall>(name, ok, n) \<in> set (leakage_checks active). name \<notin> set CONDITIONAL_CHECKS \<longrightarrow> ok"
proof -
  have files: "crossing (tagged (\<lambda>s. opt_text (ds_file_sha256 s)) active) = []"
    by (rule crossing_tagged, rule assms) (simp_all add: shares_iff)
  have texts: "crossing (tagged (\<lambda>s. opt_text (ds_normalized_text_sha256 s)) active) = []"
    by (rule crossing_tagged, rule assms) (simp_all add: shares_iff)
  have groups: "crossing (map (\<lambda>s. (resolve_group_key s, ds_target_split s)) active) = []"
    by (rule crossing_Nil) (auto intro: assms)
  have "g \<notin> set (seen_groups active x)" if x: "x \<noteq> Holdout" and g: "g \<in> set (seen_groups active Holdout)" for g x
  proof
    assume "g \<in> set (seen_groups active x)"
    then obtain t where t: "t \<in> set active" "ds_target_split t = x" "resolve_group_key t = g"
      unfolding seen_groups_def by auto
    obtain s where s: "s \<in> set active" "ds_target_split s = Holdout" "resolve_group_key s = g"
      using g unfolding seen_groups_def by auto
    show False using assms [OF s(1) t(1)] s t x by simp
  qed
  then have holdout: "filter (\<lambda>g. g \<in> set (seen_groups active Train @ seen_groups active Validation @ seen_groups active Test))
      (seen_groups active Holdout) = []"
    by (auto simp: filter_empty_conv)
  show ?thesis
    unfolding leakage_checks_def Let_def files texts groups holdout by (simp add: CONDITIONAL_CHECKS_def)
qed

lemma updated_active:
  assumes "assign_splits bucket samples seed given = Inr (updated, report)" and "s \<in> active_set updated"
  shows "\<exists>s0 \<in> active_set samples. s = s0\<lparr>ds_target_split := final_split bucket samples seed given s0\<rparr>"
  using assms(2) assign_splits_InrD [OF assms(1)] by (auto simp: active_set_def)

lemma updated_joined:
  assumes "assign_splits bucket samples seed given = Inr (updated, report)" and "s \<in> active_set updated"
    and "t \<in> active_set updated" and "resolve_group_key s = resolve_group_key t \<or> shares s t"
  shows "ds_target_split s = ds_target_split t \<and> ds_target_split s \<noteq> Unassigned"
proof -
  obtain s0 t0 where s0: "s0 \<in> active_set samples" "s = s0\<lparr>ds_target_split := final_split bucket samples seed given s0\<rparr>"
    and t0: "t0 \<in> active_set samples" "t = t0\<lparr>ds_target_split := final_split bucket samples seed given t0\<rparr>"
    using updated_active [OF assms(1,2)] updated_active [OF assms(1,3)] by blast
  have "resolve_group_key s0 = resolve_group_key t0 \<or> shares s0 t0"
    using assms(4) unfolding s0(2) t0(2) by simp
  from final_split_joined [OF s0(1) t0(1) this, of bucket seed given]
  have "final_split bucket samples seed given s0 = final_split bucket samples seed given t0"
    "final_split bucket samples seed given t0 \<noteq> Unassigned" by auto
  then show ?thesis unfolding s0(2) t0(2) by simp
qed

text \<open>
  C18. No leakage: two samples of the result that take part and share a group, a file hash, a text
  hash or a duplicate link are in the same split, and in one. Every check of the report that does not
  depend on the given document ids and duplicate links passes.
\<close>

theorem splits_never_leak:
  assumes "assign_splits bucket samples seed given = Inr (updated, report)"
    and "s \<in> active_set updated" and "t \<in> active_set updated"
    and "resolve_group_key s = resolve_group_key t \<or> shares s t"
  shows "ds_target_split s = ds_target_split t \<and> ds_target_split s \<noteq> Unassigned
    \<and> (\<forall>(name, ok, n) \<in> set (sr_checks report). name \<notin> set CONDITIONAL_CHECKS \<longrightarrow> ok)"
proof -
  let ?active = "filter (\<lambda>s. active_sample s \<and> ds_target_split s \<noteq> Unassigned) updated"
  have eq: "sr_checks report = leakage_checks ?active"
    using assign_splits_InrD [OF assms(1)] by (simp add: build_report_def Let_def)
  have checks: "\<forall>(name, ok, n) \<in> set (leakage_checks ?active). name \<notin> set CONDITIONAL_CHECKS \<longrightarrow> ok"
  proof (rule checks_pass)
    fix s t assume "s \<in> set ?active" "t \<in> set ?active" "resolve_group_key s = resolve_group_key t \<or> shares s t"
    then show "ds_target_split s = ds_target_split t"
      using updated_joined [OF assms(1), of s t] by (simp add: active_set_def)
  qed
  from updated_joined [OF assms] have "ds_target_split s = ds_target_split t" "ds_target_split s \<noteq> Unassigned" by blast+
  then show ?thesis unfolding eq by (intro conjI checks)
qed

definition sample_bucket :: "string \<Rightarrow> int" where
  "sample_bucket key = (if last key = CHR ''2'' then 2 ^ 256 - 1 else 0)"

definition sample_pages :: "dataset_sample list" where
  "sample_pages =
     [(new_sample ''p1'' ''src'')\<lparr>ds_document_id := Some ''d1'', ds_group_id := Some ''g1'', ds_file_sha256 := Some ''f1''\<rparr>,
      (new_sample ''p2'' ''src'')\<lparr>ds_document_id := Some ''d1'', ds_group_id := Some ''g2'', ds_file_sha256 := Some ''f2''\<rparr>,
      (new_sample ''p3'' ''src'')\<lparr>ds_document_id := Some ''d3'', ds_file_sha256 := Some ''f1''\<rparr>]"

lemma sample_run:
  "case assign_splits sample_bucket sample_pages 7 None of Inl e \<Rightarrow> False
   | Inr (updated, report) \<Rightarrow>
       map (\<lambda>s. (ds_document_id s, ds_file_sha256 s, ds_target_split s, active_sample s)) updated
         = [(Some ''d1'', Some ''f1'', Train, True), (Some ''d1'', Some ''f2'', Holdout, True),
            (Some ''d3'', Some ''f1'', Train, True)]
       \<and> \<not> sr_passed report"
  by code_simp

lemma sample_runE:
  obtains updated report s t u where
    "assign_splits sample_bucket sample_pages 7 None = Inr (updated, report)" "updated = [s, t, u]"
    "ds_document_id s = Some ''d1''" "ds_document_id t = Some ''d1''" "ds_document_id u = Some ''d3''"
    "ds_target_split s = Train" "ds_target_split t = Holdout" "ds_target_split u = Train"
    "s \<in> active_set updated" "u \<in> active_set updated" "shares s u" "\<not> sr_passed report"
  using sample_run
  by (auto simp: active_set_def shares_def sample_hashes_def opt_text_def map_eq_Cons_conv split: sum.splits prod.splits)

lemma splits_never_leak_witness:
  "\<exists>updated report s t u. assign_splits sample_bucket sample_pages 7 None = Inr (updated, report)
     \<and> updated = [s, t, u] \<and> ds_target_split s = ds_target_split u
     \<and> list_all (\<lambda>(name, ok, n). name \<in> set CONDITIONAL_CHECKS \<or> ok) (sr_checks report)"
proof (rule sample_runE)
  fix updated report s t u
  assume r: "assign_splits sample_bucket sample_pages 7 None = Inr (updated, report)" "updated = [s, t, u]"
    and joined: "s \<in> active_set updated" "u \<in> active_set updated" "shares s u"
  note all = splits_never_leak [OF r(1) joined(1,2) disjI2 [OF joined(3)]]
  then have "list_all (\<lambda>(name, ok, n). name \<in> set CONDITIONAL_CHECKS \<or> ok) (sr_checks report)"
    unfolding list_all_iff by blast
  then show ?thesis using r all by blast
qed

text \<open>
  The module promises that a document can never straddle splits. A group id takes precedence over
  the document id, so two pages of one document with group ids of their own can: here page 1 trains
  and page 2 is held out, and the report says so.
\<close>

lemma document_straddles_splits:
  "\<exists>updated report s t u. assign_splits sample_bucket sample_pages 7 None = Inr (updated, report)
     \<and> updated = [s, t, u] \<and> ds_document_id s = ds_document_id t
     \<and> ds_target_split s = Train \<and> ds_target_split t = Holdout \<and> \<not> sr_passed report"
  by (rule sample_runE, intro exI conjI) (assumption | simp)+

subsection \<open>Runs on assigned samples\<close>

text \<open>Changing only the assignments changes no group and no component.\<close>

definition retarget :: "(dataset_sample \<Rightarrow> split_name) \<Rightarrow> dataset_sample \<Rightarrow> dataset_sample" where
  "retarget f s = s\<lparr>ds_target_split := f s\<rparr>"

lemma retarget_facts [simp]:
  "active_sample (retarget f s) = active_sample s" "resolve_group_key (retarget f s) = resolve_group_key s"
  "ds_sample_id (retarget f s) = ds_sample_id s" "ds_target_split (retarget f s) = f s"
  "shares (retarget f s) (retarget f t) = shares s t"
  by (simp_all add: retarget_def)

lemma group_edges_iff:
  "(a, b) \<in> group_edges A \<longleftrightarrow> (\<exists>s \<in> A. \<exists>t \<in> A. a = resolve_group_key s \<and> b = resolve_group_key t \<and> shares s t)"
  by (auto simp: group_edges_def)

lemma retarget_edges: "group_edges (retarget f ` A) = group_edges A"
  by (rule set_eqI) (simp add: split_paired_all group_edges_iff)

lemma earlier_splits_iff:
  "x \<in> earlier_splits A key \<longleftrightarrow> x \<noteq> Unassigned \<and> (\<exists>t \<in> A. x = ds_target_split t \<and> resolve_group_key t \<in> component A key)"
  by (auto simp: earlier_splits_def)

lemma retarget_component: "component (retarget f ` A) key = component A key"
  by (simp add: component_def same_component_def retarget_edges image_image)

text \<open>
  Splits are stable: assigning again what has been assigned changes nothing, with any seed and
  any valid ratios.
\<close>

theorem assigned_splits_are_kept:
  assumes "assign_splits bucket samples seed given = Inr (updated, report)"
    and "check_ratios (effective_ratios given') = None"
  shows "\<exists>report'. assign_splits bucket' updated seed' given' = Inr (updated, report')"
proof -
  let ?A = "active_set samples" and ?f = "final_split bucket samples seed given"
  have upd: "updated = map (retarget ?f) (sort_key ds_sample_id samples)"
    using assign_splits_InrD [OF assms(1)] by (simp add: retarget_def [abs_def])
  have A': "active_set updated = retarget ?f ` ?A" by (auto simp: active_set_def upd)
  have "earlier_splits (active_set updated) (resolve_group_key s) = {?f s}" if s: "s \<in> ?A" for s
  proof -
    have joined: "?f t = ?f s \<and> ?f t \<noteq> Unassigned"
      if t: "t \<in> ?A" "resolve_group_key t \<in> component ?A (resolve_group_key s)" for t
    proof -
      have "(resolve_group_key s, resolve_group_key t) \<in> same_component ?A" using t by (simp add: component_def)
      from reference_same [OF this] show ?thesis
        using s t(1) reference_assigned by (auto simp: final_split_def active_set_def)
    qed
    have own: "resolve_group_key s \<in> component ?A (resolve_group_key s)" using s by (simp add: component_def)
    have mem: "x \<in> earlier_splits (active_set updated) (resolve_group_key s)
        \<longleftrightarrow> x \<noteq> Unassigned \<and> (\<exists>t \<in> ?A. x = ?f t \<and> resolve_group_key t \<in> component ?A (resolve_group_key s))" for x
      by (simp only: earlier_splits_iff A' retarget_component bex_simps retarget_facts)
    show ?thesis
    proof (rule set_eqI)
      fix x
      show "x \<in> earlier_splits (active_set updated) (resolve_group_key s) \<longleftrightarrow> x \<in> {?f s}"
      proof
        assume "x \<in> earlier_splits (active_set updated) (resolve_group_key s)"
        then obtain t where t: "t \<in> ?A" "x = ?f t" "resolve_group_key t \<in> component ?A (resolve_group_key s)"
          unfolding mem by blast
        then show "x \<in> {?f s}" using joined [OF t(1,3)] by simp
      next
        assume "x \<in> {?f s}"
        then have "x = ?f s" by simp
        moreover have "?f s \<noteq> Unassigned" using joined [OF s own] by simp
        ultimately show "x \<in> earlier_splits (active_set updated) (resolve_group_key s)"
          unfolding mem by (intro conjI bexI [OF _ s]) (simp_all only: own simp_thms)
      qed
    qed
  qed
  then have "final_split bucket' updated seed' given' (retarget ?f s) = ?f s" if "s \<in> set samples" for s
    using that by (auto simp: final_split_def reference_split_def active_set_def)
  then have "map (\<lambda>s. s\<lparr>ds_target_split := final_split bucket' updated seed' given' s\<rparr>) updated = updated"
    by (intro map_idI) (auto simp: upd retarget_def)
  moreover have "sort_key ds_sample_id updated = updated"
    by (intro sort_key_id_if_sorted) (simp add: upd comp_def)
  ultimately show ?thesis
    using assms(2) by (simp add: assign_splits_eq Let_def final_split_def)
qed

lemma assigned_splits_are_kept_witness:
  "\<exists>updated report report'. assign_splits sample_bucket sample_pages 7 None = Inr (updated, report)
     \<and> assign_splits (\<lambda>_. 0) updated 8 None = Inr (updated, report')"
proof (rule sample_runE)
  fix updated report s t u
  assume r: "assign_splits sample_bucket sample_pages 7 None = Inr (updated, report)"
  have "check_ratios (effective_ratios None) = None" by code_simp
  from assigned_splits_are_kept [OF r this, of "\<lambda>_. 0" 8] r show ?thesis by blast
qed

end
