(* ===== verification/Json_Text.thy ===== *)
theory Json_Text
  imports Json
begin

text \<open>
  \<open>json.dumps(value, ensure_ascii=False, sort_keys=True)\<close>, the canonical text that sort keys, hashes
  and manifests are made of. The text of a float is the argument \<open>float_text\<close>.
\<close>

definition hex_digit_char :: "nat \<Rightarrow> char" where
  "hex_digit_char d = (if d < 10 then char_of (48 + d) else char_of (87 + d))"

definition json_char :: "char \<Rightarrow> string" where
  "json_char c = (let n = (of_char c :: nat) in
     if n = 34 then [CHR 0x5C, CHR 0x22] else if n = 92 then [CHR 0x5C, CHR 0x5C]
     else if n = 10 then [CHR 0x5C, CHR ''n''] else if n = 13 then [CHR 0x5C, CHR ''r'']
     else if n = 9 then [CHR 0x5C, CHR ''t''] else if n = 12 then [CHR 0x5C, CHR ''f'']
     else if n = 8 then [CHR 0x5C, CHR ''b'']
     else if n < 32 then [CHR 0x5C, CHR ''u'', CHR ''0'', CHR ''0'', hex_digit_char (n div 16), hex_digit_char (n mod 16)]
     else [c])"

definition json_string :: "string \<Rightarrow> string" where
  "json_string s = CHR 0x22 # concat (map json_char s) @ [CHR 0x22]"

fun comma_join :: "string list \<Rightarrow> string" where
  "comma_join [] = []"
| "comma_join [p] = p"
| "comma_join (p # q # ps) = p @ '', '' @ comma_join (q # ps)"

fun json_dumps :: "(rat \<Rightarrow> string) \<Rightarrow> json \<Rightarrow> string" where
  "json_dumps ft JNull = ''null''"
| "json_dumps ft (JBool b) = (if b then ''true'' else ''false'')"
| "json_dumps ft (JInt n) = int_text n"
| "json_dumps ft (JFloat x) = ft x"
| "json_dumps ft (JStr s) = json_string s"
| "json_dumps ft (JList xs) = ''['' @ comma_join (map (json_dumps ft) xs) @ '']''"
| "json_dumps ft (JObj kvs) =
     ''{'' @ comma_join (map (\<lambda>(k, v). json_string k @ '': '' @ json_dumps ft v) (sort_key fst kvs)) @ ''}''"

end
