(* ===== verification/Dedupe.thy ===== *)
theory Dedupe
  imports Splitting Json_Text "HOL-Library.Multiset"
begin

text \<open>
  Duplicate detection (\<open>clouda_data/pretraining/dedupe.py\<close>): samples that share an id, a source record
  or a file hash are merged into families with one canonical sample each; then samples that are left
  and have the same text over different files are marked as conflicting. Nothing is deleted. The text
  of a float in \<open>json.dumps\<close> is the argument \<open>ft\<close>.
\<close>

subsection \<open>Order and signals\<close>

definition duplicate_reasons :: "string list" where
  "duplicate_reasons = [''duplicate_sample_id'', ''duplicate_source_record'', ''duplicate_file_hash'']"

definition canonical_key ::
  "(rat \<Rightarrow> string) \<Rightarrow> dataset_sample \<Rightarrow> bool \<times> string \<times> string \<times> string \<times> string \<times> string" where
  "canonical_key ft s =
     (\<not> active_sample s, ds_source_id s, ds_source_path s, ds_sample_id s, opt_text (ds_source_record_id s),
      json_dumps ft (JObj (filter (\<lambda>(k, v). k \<notin>
        set [''duplicate_state'', ''duplicate_of'', ''target_split'', ''validation_findings'']) (sample_to_dict s))))"

datatype signal = SignalId string | SignalRecord string string | SignalFile string

definition signals :: "dataset_sample \<Rightarrow> signal list" where
  "signals s = SignalId (ds_sample_id s)
     # (if opt_text (ds_source_record_id s) \<noteq> [] then [SignalRecord (ds_source_id s) (opt_text (ds_source_record_id s))] else [])
     @ (if opt_text (ds_file_sha256 s) \<noteq> [] then [SignalFile (opt_text (ds_file_sha256 s))] else [])"

subsection \<open>Families\<close>

definition link_signal ::
  "nat \<times> signal \<Rightarrow> (signal \<times> nat) list \<times> nat list \<Rightarrow> (signal \<times> nat) list \<times> nat list" where
  "link_signal = (\<lambda>(index, sg) (owners, parent).
     case map_of owners sg of
       None \<Rightarrow> ((sg, index) # owners, pl_union index index parent)
     | Some owner \<Rightarrow> (owners, pl_union owner index parent))"

definition signal_order :: "dataset_sample list \<Rightarrow> (nat \<times> signal) list" where
  "signal_order ordered = [(i, sg). (i, s) \<leftarrow> enumerate 0 ordered, sg \<leftarrow> signals s]"

definition merge_samples :: "dataset_sample list \<Rightarrow> nat list" where
  "merge_samples ordered = snd (fold link_signal (signal_order ordered) ([], [0..<length ordered]))"

text \<open>\<open>components\<close>: the indices by their root, both in ascending order.\<close>

definition components :: "dataset_sample list \<Rightarrow> nat list list" where
  "components ordered =
     (let found = pl_find_all [0..<length ordered] (merge_samples ordered)
      in map (\<lambda>r. map fst (filter (\<lambda>(i, r'). r' = r) found)) (fromkeys (map snd found)))"

datatype family = ExactFamily "string list" string "string list" | TextFamily string "string list"

record duplicate_report =
  dr_unique :: nat
  dr_file_hash :: nat
  dr_sample_id :: nat
  dr_source_record :: nat
  dr_conflicting :: nat
  dr_families :: "family list"

definition new_report :: duplicate_report where
  "new_report = \<lparr>dr_unique = 0, dr_file_hash = 0, dr_sample_id = 0, dr_source_record = 0,
     dr_conflicting = 0, dr_families = []\<rparr>"

definition family_ids :: "dataset_sample list \<Rightarrow> string list" where
  "family_ids members = map ds_sample_id members"

definition family_records :: "dataset_sample list \<Rightarrow> (string \<times> string) list" where
  "family_records members = [(ds_source_id s, opt_text (ds_source_record_id s)).
     s \<leftarrow> members, opt_text (ds_source_record_id s) \<noteq> []]"

definition family_hashes :: "dataset_sample list \<Rightarrow> string list" where
  "family_hashes members = [opt_text (ds_file_sha256 s). s \<leftarrow> members, opt_text (ds_file_sha256 s) \<noteq> []]"

definition family_criteria :: "dataset_sample list \<Rightarrow> string list" where
  "family_criteria members = sort
     ((if distinct (family_ids members) then [] else [''sample_id''])
      @ (if distinct (family_records members) then [] else [''source_record''])
      @ (if distinct (family_hashes members) then [] else [''file_hash'']))"

definition duplicate_reason :: "dataset_sample list \<Rightarrow> dataset_sample \<Rightarrow> string" where
  "duplicate_reason members s =
     (if 1 < count_list (family_ids members) (ds_sample_id s) then ''duplicate_sample_id''
      else if opt_text (ds_source_record_id s) \<noteq> []
        \<and> 1 < count_list (family_records members) (ds_source_id s, opt_text (ds_source_record_id s))
        then ''duplicate_source_record''
      else if opt_text (ds_file_sha256 s) \<noteq> [] \<and> 1 < count_list (family_hashes members) (opt_text (ds_file_sha256 s))
        then ''duplicate_file_hash''
      else ''duplicate_cluster'')"

definition count_reason :: "string \<Rightarrow> duplicate_report \<Rightarrow> duplicate_report" where
  "count_reason reason r =
     (if reason = ''duplicate_sample_id'' then r\<lparr>dr_sample_id := dr_sample_id r + 1\<rparr>
      else if reason = ''duplicate_source_record'' then r\<lparr>dr_source_record := dr_source_record r + 1\<rparr>
      else if reason = ''duplicate_file_hash'' then r\<lparr>dr_file_hash := dr_file_hash r + 1\<rparr>
      else r)"

text \<open>A sample that represents its family, or is alone; and one that does not.\<close>

definition as_representative :: "duplicate_state \<Rightarrow> dataset_sample \<Rightarrow> dataset_sample" where
  "as_representative state s = s\<lparr>ds_duplicate_state := state, ds_duplicate_of := None,
     ds_exclusion_reason := (if opt_text (ds_exclusion_reason s) \<in> set duplicate_reasons then None else ds_exclusion_reason s)\<rparr>"

definition as_duplicate :: "string \<Rightarrow> string \<Rightarrow> dataset_sample \<Rightarrow> dataset_sample" where
  "as_duplicate canonical reason s = s\<lparr>ds_duplicate_state := Duplicate, ds_duplicate_of := Some canonical,
     ds_exclusion_reason := (if opt_text (ds_exclusion_reason s) = [] then Some reason else ds_exclusion_reason s)\<rparr>"

text \<open>What the loop over the components writes for one of them, all from \<open>ordered\<close>, and reports.\<close>

definition canonical_index :: "(rat \<Rightarrow> string) \<Rightarrow> dataset_sample list \<Rightarrow> nat list \<Rightarrow> nat" where
  "canonical_index ft xs indexes = arg_min_list (\<lambda>i. canonical_key ft (xs ! i)) indexes"

definition component_writes :: "(rat \<Rightarrow> string) \<Rightarrow> dataset_sample list \<Rightarrow> nat list \<Rightarrow> (nat \<times> dataset_sample) list" where
  "component_writes ft ordered indexes =
     (if length indexes = 1 then [(hd indexes, as_representative Unique (ordered ! hd indexes))]
      else let c = canonical_index ft ordered indexes; members = map ((!) ordered) indexes
           in (c, as_representative Canonical (ordered ! c))
              # map (\<lambda>i. (i, as_duplicate (ds_sample_id (ordered ! c)) (duplicate_reason members (ordered ! i)) (ordered ! i)))
                  (filter (\<lambda>i. i \<noteq> c) indexes))"

definition component_report ::
  "(rat \<Rightarrow> string) \<Rightarrow> dataset_sample list \<Rightarrow> nat list \<Rightarrow> duplicate_report \<Rightarrow> duplicate_report" where
  "component_report ft ordered indexes r =
     (if length indexes = 1 then r\<lparr>dr_unique := dr_unique r + 1\<rparr>
      else let c = canonical_index ft ordered indexes; members = map ((!) ordered) indexes;
               others = map ((!) ordered) (filter (\<lambda>i. i \<noteq> c) indexes);
               r' = fold (\<lambda>s. count_reason (duplicate_reason members s)) others r
           in r'\<lparr>dr_families := dr_families r' @
                [ExactFamily (family_criteria members) (ds_sample_id (ordered ! c)) (sort (map ds_sample_id others))]\<rparr>)"

definition write_all :: "(nat \<times> 'a) list \<Rightarrow> 'a list \<Rightarrow> 'a list" where
  "write_all ws xs = fold (\<lambda>(i, s) xs. xs[i := s]) ws xs"

definition exact_families ::
  "(rat \<Rightarrow> string) \<Rightarrow> dataset_sample list \<Rightarrow> dataset_sample list \<times> duplicate_report" where
  "exact_families ft ordered =
     (let comps = sort_key (\<lambda>indexes. canonical_key ft (ordered ! Min (set indexes))) (components ordered)
      in (write_all (concat (map (component_writes ft ordered) comps)) ordered,
          fold (component_report ft ordered) comps new_report))"

subsection \<open>Same text over different files\<close>

text \<open>\<open>by_text_hash\<close>, sorted by the hash.\<close>

definition text_groups :: "dataset_sample list \<Rightarrow> nat list list" where
  "text_groups updated =
     (let texts = [(opt_text (ds_normalized_text_sha256 s), i). (i, s) \<leftarrow> enumerate 0 updated,
            opt_text (ds_normalized_text_sha256 s) \<noteq> [], ds_duplicate_state s \<noteq> Duplicate]
      in map (\<lambda>h. map snd (filter (\<lambda>(h', i). h' = h) texts)) (sort (fromkeys (map fst texts))))"

definition mark_conflicts ::
  "(rat \<Rightarrow> string) \<Rightarrow> nat list \<Rightarrow> dataset_sample list \<times> duplicate_report \<Rightarrow> dataset_sample list \<times> duplicate_report" where
  "mark_conflicts ft indexes = (\<lambda>(updated, r).
     if length indexes < 2 \<or> card (set (map (\<lambda>i. ds_file_sha256 (updated ! i)) indexes)) < 2 then (updated, r)
     else let c = canonical_index ft updated indexes; others = filter (\<lambda>i. i \<noteq> c) indexes;
              updated' = fold (\<lambda>i xs. xs[i := (xs ! i)\<lparr>ds_duplicate_state := ConflictingDuplicate,
                  ds_duplicate_of := Some (ds_sample_id (xs ! c))\<rparr>]) others updated
          in (updated', r\<lparr>dr_conflicting := dr_conflicting r + length others, dr_families := dr_families r @
                [TextFamily (ds_sample_id (updated' ! c)) (sort (map (\<lambda>i. ds_sample_id (updated' ! i)) others))]\<rparr>))"

definition classify_duplicates ::
  "(rat \<Rightarrow> string) \<Rightarrow> dataset_sample list \<Rightarrow> dataset_sample list \<times> duplicate_report" where
  "classify_duplicates ft samples =
     (let ordered = sort_key (canonical_key ft) samples;
          (updated, r) = exact_families ft ordered;
          (updated', r') = fold (mark_conflicts ft) (text_groups updated) (updated, r)
      in (sort_key sample_key updated', r'))"


subsection \<open>Families are the components of shared signals\<close>

lemma set_signal_order: "(i, sg) \<in> set (signal_order xs) \<longleftrightarrow> i < length xs \<and> sg \<in> set (signals (xs ! i))"
  by (force simp: signal_order_def in_set_enumerate_eq)

definition same_family :: "dataset_sample list \<Rightarrow> (nat \<times> nat) set" where
  "same_family xs = (common_label (signal_order xs))\<^sup>*"

lemma fold_link_signal: "snd (fold link_signal ts (owners, p)) = parent_list.links (owner_links owners ts) p"
  by (induction owners ts arbitrary: p rule: owner_links.induct) (auto simp: link_signal_def split: option.split)

lemma merge_samples_facts:
  "pl_ok (merge_samples xs) \<and> length (merge_samples xs) = length xs
    \<and> (\<forall>i < length xs. \<forall>j < length xs.
         pl_root (merge_samples xs) i = pl_root (merge_samples xs) j \<longleftrightarrow> (i, j) \<in> same_family xs)"
proof -
  let ?L = "owner_links [] (signal_order xs)" and ?p = "[0..<length xs]"
  have eq: "merge_samples xs = parent_list.links ?L ?p" by (simp add: merge_samples_def fold_link_signal)
  have inside: "\<forall>(x, y) \<in> set ?L. x \<in> pl_elems ?p \<and> y \<in> pl_elems ?p"
    using owner_links_common [of _ _ "signal_order xs"] by (fastforce simp: common_label_def set_signal_order pl_fresh)
  have "parent_list.linked ?L ?p = (set ?L \<union> (set ?L)\<inverse>)\<^sup>*"
    by (rule parent_list.linked_apart) (simp add: parent_list.same_def pl_fresh)
  also have "\<dots> = same_family xs"
    unfolding same_family_def by (rule owner_links_closure) auto
  finally have "parent_list.linked ?L ?p = same_family xs" .
  then show ?thesis
    using parent_list.links_ok [OF pl_fresh(1) inside] parent_list.links_same_iff [OF pl_fresh(1) inside]
    unfolding eq by (auto simp: parent_list.same_def pl_fresh pl_elems_def)
qed

lemma same_family_sym: "(i, j) \<in> same_family xs \<Longrightarrow> (j, i) \<in> same_family xs"
proof -
  have "sym (same_family xs)" unfolding same_family_def by (rule sym_rtrancl) (auto simp: sym_def common_label_def)
  then show "(i, j) \<in> same_family xs \<Longrightarrow> (j, i) \<in> same_family xs" by (rule symD)
qed

lemma same_family_trans: "(i, j) \<in> same_family xs \<Longrightarrow> (j, k) \<in> same_family xs \<Longrightarrow> (i, k) \<in> same_family xs"
  unfolding same_family_def by (rule rtrancl_trans)

lemma same_family_refl [simp]: "(i, i) \<in> same_family xs"
  by (simp add: same_family_def)

lemma same_familyI:
  "i < length xs \<Longrightarrow> j < length xs \<Longrightarrow> sg \<in> set (signals (xs ! i)) \<Longrightarrow> sg \<in> set (signals (xs ! j))
    \<Longrightarrow> (i, j) \<in> same_family xs"
  unfolding same_family_def by (rule r_into_rtrancl) (auto simp: common_label_def set_signal_order)

text \<open>A sample that is not alone shares a signal with another of its family.\<close>

lemma first_step_away: "(i, j) \<in> R\<^sup>* \<Longrightarrow> i \<noteq> j \<Longrightarrow> \<exists>k. k \<noteq> i \<and> (i, k) \<in> R"
proof (induction rule: converse_rtrancl_induct)
  case (step i k)
  then show ?case by metis
qed simp

lemma same_family_neighbour:
  assumes "(i, j) \<in> same_family xs" and "i \<noteq> j"
  shows "\<exists>k sg. k \<noteq> i \<and> (i, k) \<in> same_family xs \<and> k < length xs \<and> sg \<in> set (signals (xs ! i)) \<and> sg \<in> set (signals (xs ! k))"
proof -
  obtain k where k: "k \<noteq> i" "(i, k) \<in> common_label (signal_order xs)"
    using first_step_away [OF assms [unfolded same_family_def]] by blast
  then obtain sg where "sg \<in> set (signals (xs ! i))" "sg \<in> set (signals (xs ! k))" "k < length xs"
    by (auto simp: common_label_def set_signal_order)
  then show ?thesis using k by (auto simp: same_family_def)
qed

definition family_of :: "dataset_sample list \<Rightarrow> nat \<Rightarrow> nat list" where
  "family_of xs i = filter (\<lambda>j. (i, j) \<in> same_family xs) [0..<length xs]"

lemma set_family_of: "set (family_of xs i) = {j. j < length xs \<and> (i, j) \<in> same_family xs}"
  by (auto simp: family_of_def)

lemma family_of_eq: "(i, j) \<in> same_family xs \<Longrightarrow> family_of xs i = family_of xs j"
  unfolding family_of_def using same_family_sym same_family_trans by (intro filter_cong) blast+

text \<open>The loop's components are the families, each index in one.\<close>

lemma distinct_classes:
  "distinct rs \<Longrightarrow> distinct xs \<Longrightarrow> distinct (concat (map (\<lambda>r. filter (\<lambda>x. f x = r) xs) rs))"
  by (induction rs) auto

lemma components_facts:
  "distinct (concat (components xs)) \<and> set (concat (components xs)) = {..<length xs}
    \<and> (\<forall>c \<in> set (components xs). c \<noteq> [] \<and> (\<forall>i \<in> set c. c = family_of xs i))"
proof -
  let ?p = "merge_samples xs" and ?is = "[0..<length xs]"
  have found: "pl_find_all ?is ?p = map (\<lambda>i. (i, pl_root ?p i)) ?is"
    using merge_samples_facts by (intro pl_find_all_root) (auto simp: pl_elems_def)
  have eq: "components xs = map (\<lambda>r. filter (\<lambda>i. pl_root ?p i = r) ?is) (fromkeys (map (pl_root ?p) ?is))"
    by (simp add: components_def found filter_map comp_def Let_def)
  have "c = family_of xs i" if "c \<in> set (components xs)" "i \<in> set c" for c i
  proof -
    obtain r where c: "c = filter (\<lambda>j. pl_root ?p j = r) ?is" using \<open>c \<in> set (components xs)\<close> by (auto simp: eq)
    have i: "i < length xs" "pl_root ?p i = r" using \<open>i \<in> set c\<close> c by auto
    have "pl_root ?p j = r \<longleftrightarrow> (i, j) \<in> same_family xs" if "j \<in> set ?is" for j
      using merge_samples_facts [of xs] i that by fastforce
    then show ?thesis unfolding c family_of_def by (intro filter_cong refl)
  qed
  moreover have "c \<noteq> []" if "c \<in> set (components xs)" for c
  proof -
    obtain i where "i < length xs" "c = filter (\<lambda>j. pl_root ?p j = pl_root ?p i) ?is" using \<open>c \<in> set (components xs)\<close> by (auto simp: eq)
    then have "i \<in> set c" by simp
    then show ?thesis by auto
  qed
  ultimately show ?thesis
    by (auto simp: eq intro!: distinct_classes)
qed


subsection \<open>What the loops write\<close>

lemma length_write_all [simp]: "length (write_all ws xs) = length xs"
  by (induction ws arbitrary: xs) (auto simp: write_all_def)

lemma write_all_nth:
  "distinct (map fst ws) \<Longrightarrow> i < length xs \<Longrightarrow>
    write_all ws xs ! i = (case map_of ws i of None \<Rightarrow> xs ! i | Some s \<Rightarrow> s)"
proof (induction ws arbitrary: xs)
  case (Cons w ws)
  obtain j s where w: "w = (j, s)" by force
  have "write_all ws (xs[j := s]) ! i = (case map_of ws i of None \<Rightarrow> xs[j := s] ! i | Some s \<Rightarrow> s)"
    using Cons by simp
  moreover have "map_of ws j = None" using Cons.prems(1) by (simp add: w map_of_eq_None_iff)
  ultimately show ?case
    using Cons.prems(2) by (cases "i = j") (auto simp: w write_all_def nth_list_update split: option.split)
qed (simp add: write_all_def)

lemma canonical_index_least:
  assumes "indexes \<noteq> []"
  shows "canonical_index ft xs indexes \<in> set indexes
    \<and> (\<forall>i \<in> set indexes. canonical_key ft (xs ! canonical_index ft xs indexes) \<le> canonical_key ft (xs ! i))"
  unfolding canonical_index_def
  using assms arg_min_list_in [OF assms, of "\<lambda>i. canonical_key ft (xs ! i)"]
    f_arg_min_list_f [OF assms, of "\<lambda>i. canonical_key ft (xs ! i)"] by simp

lemma component_write_indices:
  assumes "indexes \<noteq> []" and "distinct indexes"
  shows "distinct (map fst (component_writes ft xs indexes))
    \<and> set (map fst (component_writes ft xs indexes)) = set indexes"
proof (cases "length indexes = 1")
  case True
  then show ?thesis by (auto simp: component_writes_def length_Suc_conv)
next
  case False
  then show ?thesis
    using canonical_index_least [OF assms(1)] assms(2)
    by (auto simp: component_writes_def Let_def comp_def)
qed

lemma distinct_concat_map:
  "distinct (concat yss) \<Longrightarrow> (\<And>ys. ys \<in> set yss \<Longrightarrow> distinct (f ys) \<and> set (f ys) = set ys)
    \<Longrightarrow> distinct (concat (map f yss)) \<and> set (concat (map f yss)) = set (concat yss)"
  by (induction yss) auto

text \<open>
  The sample of an index after the exact families: the representative of its family keeps its place,
  every other member is a duplicate of it.
\<close>

definition representative :: "(rat \<Rightarrow> string) \<Rightarrow> dataset_sample list \<Rightarrow> nat \<Rightarrow> nat" where
  "representative ft xs i = canonical_index ft xs (family_of xs i)"

definition family_sample :: "(rat \<Rightarrow> string) \<Rightarrow> dataset_sample list \<Rightarrow> nat \<Rightarrow> dataset_sample" where
  "family_sample ft xs i =
     (let c = representative ft xs i
      in if i = c then as_representative (if family_of xs i = [i] then Unique else Canonical) (xs ! i)
         else as_duplicate (ds_sample_id (xs ! c)) (duplicate_reason (map ((!) xs) (family_of xs i)) (xs ! i)) (xs ! i))"

lemma component_writes_family:
  assumes "i < length xs"
  shows "(i, family_sample ft xs i) \<in> set (component_writes ft xs (family_of xs i))"
proof -
  have i: "i \<in> set (family_of xs i)" using assms by (simp add: set_family_of)
  show ?thesis
  proof (cases "length (family_of xs i) = 1")
    case True
    then have "family_of xs i = [i]" using i by (auto simp: length_Suc_conv)
    then show ?thesis
      by (simp add: component_writes_def family_sample_def representative_def canonical_index_def Let_def)
  next
    case False
    then have "family_of xs i \<noteq> [i]" by auto
    then show ?thesis using i False
      by (auto simp: component_writes_def family_sample_def representative_def Let_def)
  qed
qed

lemma concat_mapI: "c \<in> set cs \<Longrightarrow> x \<in> set (f c) \<Longrightarrow> x \<in> set (concat (map f cs))"
  by auto

lemma exact_families_samples: "fst (exact_families ft xs) = map (family_sample ft xs) [0..<length xs]"
proof -
  let ?comps = "sort_key (\<lambda>indexes. canonical_key ft (xs ! Min (set indexes))) (components xs)"
  let ?ws = "concat (map (component_writes ft xs) ?comps)"
  have perm: "distinct (concat ?comps) \<and> set (concat ?comps) = {..<length xs}"
  proof -
    have "mset (concat ?comps) = mset (concat (components xs))"
      by (simp add: mset_concat flip: sum_mset_sum_list)
    then show ?thesis using components_facts [of xs] by (metis mset_eq_setD mset_eq_imp_distinct_iff)
  qed
  have comp: "c \<noteq> [] \<and> distinct c" if "c \<in> set ?comps" for c
  proof -
    have "c \<in> set (components xs)" using that by simp
    then have "c \<noteq> []" "\<forall>i \<in> set c. c = family_of xs i" using components_facts [of xs] by blast+
    moreover then have "c = family_of xs (hd c)" by simp
    moreover have "distinct (family_of xs (hd c))" by (simp add: family_of_def)
    ultimately show ?thesis by simp
  qed
  have ws: "distinct (map fst ?ws) \<and> set (map fst ?ws) = {..<length xs}"
    using distinct_concat_map [of ?comps "\<lambda>c. map fst (component_writes ft xs c)"] perm comp component_write_indices [of _ ft xs]
    by (simp add: map_concat comp_def)
  have "write_all ?ws xs ! i = family_sample ft xs i" if i: "i < length xs" for i
  proof -
    obtain c where c: "c \<in> set (components xs)" "i \<in> set c" using components_facts [of xs] i by auto
    then have "c = family_of xs i" using components_facts [of xs] by blast
    then have "(i, family_sample ft xs i) \<in> set (component_writes ft xs c)" using component_writes_family [OF i] by simp
    then have "(i, family_sample ft xs i) \<in> set ?ws" by (rule concat_mapI [rotated]) (simp add: c(1))
    then have "map_of ?ws i = Some (family_sample ft xs i)" by (rule map_of_is_SomeI [OF conjunct1 [OF ws]])
    then show ?thesis unfolding write_all_nth [OF conjunct1 [OF ws] i] by simp
  qed
  then have "write_all ?ws xs = map (family_sample ft xs) [0..<length xs]"
    by (intro nth_equalityI) simp_all
  then show ?thesis by (simp only: exact_families_def Let_def fst_conv)
qed


subsection \<open>Conflicts keep the families\<close>

text \<open>
  Marking conflicts leaves the duplicates alone. A sample that is kept stays as it is, or is marked as
  conflicting with a kept sample of the same text, one that takes part if it does itself.
\<close>

definition conflict_marked :: "dataset_sample \<Rightarrow> dataset_sample list \<Rightarrow> dataset_sample \<Rightarrow> bool" where
  "conflict_marked s0 us s \<longleftrightarrow> s = s0 \<or>
     (ds_duplicate_state s0 \<noteq> Duplicate \<and> (\<exists>c \<in> set us. ds_duplicate_state c \<noteq> Duplicate
       \<and> opt_text (ds_normalized_text_sha256 s0) \<noteq> []
       \<and> opt_text (ds_normalized_text_sha256 c) = opt_text (ds_normalized_text_sha256 s0)
       \<and> (active_sample s0 \<longrightarrow> active_sample c)
       \<and> s = s0\<lparr>ds_duplicate_state := ConflictingDuplicate, ds_duplicate_of := Some (ds_sample_id c)\<rparr>))"

definition marked_from :: "dataset_sample list \<Rightarrow> dataset_sample list \<Rightarrow> bool" where
  "marked_from us vs \<longleftrightarrow> length vs = length us \<and> (\<forall>i < length us. conflict_marked (us ! i) us (vs ! i))"

lemma marked_from_refl: "marked_from us us"
  by (simp add: marked_from_def conflict_marked_def)

lemma canonical_key_marked [simp]:
  "canonical_key ft (s\<lparr>ds_duplicate_state := d, ds_duplicate_of := o'\<rparr>) = canonical_key ft s"
  by (simp add: canonical_key_def sample_to_dict_def active_sample_def)

lemma conflict_marked_fields:
  "conflict_marked s0 us s \<Longrightarrow> ds_sample_id s = ds_sample_id s0 \<and> canonical_key ft s = canonical_key ft s0
    \<and> ds_file_sha256 s = ds_file_sha256 s0 \<and> active_sample s = active_sample s0 \<and> signals s = signals s0
    \<and> (ds_duplicate_state s = Duplicate \<longleftrightarrow> ds_duplicate_state s0 = Duplicate)"
  unfolding conflict_marked_def by (elim disjE conjE bexE) (simp_all add: signals_def active_sample_def)

lemma marked_from_update:
  assumes m: "marked_from us vs" and ic: "i < length us" "c < length us"
    and kept: "ds_duplicate_state (us ! i) \<noteq> Duplicate" "ds_duplicate_state (us ! c) \<noteq> Duplicate"
    and tx: "opt_text (ds_normalized_text_sha256 (us ! i)) \<noteq> []"
      "opt_text (ds_normalized_text_sha256 (us ! c)) = opt_text (ds_normalized_text_sha256 (us ! i))"
    and act: "active_sample (us ! i) \<Longrightarrow> active_sample (us ! c)"
  shows "marked_from us (vs[i := (vs ! i)\<lparr>ds_duplicate_state := ConflictingDuplicate,
    ds_duplicate_of := Some (ds_sample_id (vs ! c))\<rparr>])"
proof -
  have ci: "conflict_marked (us ! i) us (vs ! i)" and cc: "conflict_marked (us ! c) us (vs ! c)" and len: "length vs = length us"
    using m ic by (simp_all add: marked_from_def)
  have id: "ds_sample_id (vs ! c) = ds_sample_id (us ! c)" using conflict_marked_fields [OF cc] by blast
  have same: "(vs ! i)\<lparr>ds_duplicate_state := ConflictingDuplicate, ds_duplicate_of := Some (ds_sample_id (us ! c))\<rparr>
      = (us ! i)\<lparr>ds_duplicate_state := ConflictingDuplicate, ds_duplicate_of := Some (ds_sample_id (us ! c))\<rparr>"
    using ci by (auto simp: conflict_marked_def)
  have "conflict_marked (us ! i) us ((vs ! i)\<lparr>ds_duplicate_state := ConflictingDuplicate, ds_duplicate_of := Some (ds_sample_id (vs ! c))\<rparr>)"
    unfolding id same conflict_marked_def using ic kept tx act by (auto intro!: bexI [of _ "us ! c"])
  then show ?thesis using m len ic(1) by (simp add: marked_from_def nth_list_update)
qed

lemma text_groups_members:
  assumes "indexes \<in> set (text_groups us)"
  shows "\<exists>h. h \<noteq> [] \<and> (\<forall>i \<in> set indexes. i < length us \<and> opt_text (ds_normalized_text_sha256 (us ! i)) = h
    \<and> ds_duplicate_state (us ! i) \<noteq> Duplicate)"
  using assms by (force simp: text_groups_def Let_def in_set_enumerate_eq)

lemma mark_conflicts_marked:
  assumes "marked_from us vs" and "indexes \<in> set (text_groups us)"
  shows "marked_from us (fst (mark_conflicts ft indexes (vs, r)))"
proof -
  obtain h where h: "h \<noteq> []" "\<And>i. i \<in> set indexes \<Longrightarrow> i < length us \<and> opt_text (ds_normalized_text_sha256 (us ! i)) = h
    \<and> ds_duplicate_state (us ! i) \<noteq> Duplicate"
    using text_groups_members [OF assms(2)] by blast
  have key: "canonical_key ft (vs ! i) = canonical_key ft (us ! i)" if "i \<in> set indexes" for i
    using assms(1) h(2) [OF that] conflict_marked_fields by (auto simp: marked_from_def)
  let ?c = "canonical_index ft vs indexes"
  have step: "marked_from us (fold (\<lambda>i xs. xs[i := (xs ! i)\<lparr>ds_duplicate_state := ConflictingDuplicate,
      ds_duplicate_of := Some (ds_sample_id (xs ! ?c))\<rparr>]) others vs')"
    if "marked_from us vs'" "set others \<subseteq> set indexes" for others vs'
    using that
  proof (induction others arbitrary: vs')
    case (Cons i others)
    have i: "i \<in> set indexes" using Cons.prems(2) by simp
    then have ne: "indexes \<noteq> []" by auto
    have c: "?c \<in> set indexes" "canonical_key ft (us ! ?c) \<le> canonical_key ft (us ! i)"
      using canonical_index_least [OF ne, of ft vs] i key by auto
    have "active_sample (us ! ?c)" if "active_sample (us ! i)"
      using c(2) that by (auto simp: canonical_key_def)
    then have "marked_from us (vs'[i := (vs' ! i)\<lparr>ds_duplicate_state := ConflictingDuplicate,
      ds_duplicate_of := Some (ds_sample_id (vs' ! ?c))\<rparr>])"
      using Cons.prems(1) h(1) h(2) [OF i] h(2) [OF c(1)] by (intro marked_from_update) auto
    then show ?case using Cons by simp
  qed simp
  show ?thesis using assms(1) step [OF assms(1)] by (simp add: mark_conflicts_def Let_def)
qed

lemma all_conflicts_marked:
  "marked_from us vs \<Longrightarrow> set groups \<subseteq> set (text_groups us) \<Longrightarrow> marked_from us (fst (fold (mark_conflicts ft) groups (vs, r)))"
proof (induction groups arbitrary: vs r)
  case (Cons g groups)
  obtain vs' r' where step: "mark_conflicts ft g (vs, r) = (vs', r')" by force
  have "marked_from us vs'" using mark_conflicts_marked [of us vs g ft r] Cons.prems step by simp
  then show ?case using Cons step by simp
qed simp


subsection \<open>Representatives\<close>

lemma representative_facts:
  assumes "i < length xs"
  shows "representative ft xs i < length xs" "(i, representative ft xs i) \<in> same_family xs"
    "canonical_key ft (xs ! representative ft xs i) \<le> canonical_key ft (xs ! i)"
proof -
  have i: "i \<in> set (family_of xs i)" using assms by (simp add: set_family_of)
  then have "family_of xs i \<noteq> []" by auto
  from canonical_index_least [OF this, of ft xs] i
  show "representative ft xs i < length xs" "(i, representative ft xs i) \<in> same_family xs"
    "canonical_key ft (xs ! representative ft xs i) \<le> canonical_key ft (xs ! i)"
    by (auto simp: representative_def set_family_of)
qed

lemma representative_cong: "(i, j) \<in> same_family xs \<Longrightarrow> representative ft xs i = representative ft xs j"
  by (simp add: representative_def family_of_eq)

lemma family_sample_fields [simp]:
  "ds_sample_id (family_sample ft xs i) = ds_sample_id (xs ! i)"
  "active_sample (family_sample ft xs i) = active_sample (xs ! i)"
  "signals (family_sample ft xs i) = signals (xs ! i)"
  by (simp_all add: family_sample_def as_representative_def as_duplicate_def active_sample_def signals_def Let_def)

lemma family_sample_state:
  "ds_duplicate_state (family_sample ft xs i) = Duplicate \<longleftrightarrow> i \<noteq> representative ft xs i"
  "ds_duplicate_of (family_sample ft xs i)
    = (if i = representative ft xs i then None else Some (ds_sample_id (xs ! representative ft xs i)))"
  by (simp_all add: family_sample_def as_representative_def as_duplicate_def Let_def)

lemma representative_active:
  assumes "i < length xs" and "active_sample (xs ! i)"
  shows "active_sample (xs ! representative ft xs i)"
  using representative_facts(3) [OF assms(1), of ft] assms(2) by (auto simp: canonical_key_def)

text \<open>A member that is not the representative has a signal in common with another member, hence a reason.\<close>

lemma count_list_twice:
  assumes "i < length xs" and "j < length xs" and "i \<noteq> j" and "xs ! i = x" and "xs ! j = x"
  shows "1 < count_list xs x"
proof -
  have "{i, j} \<subseteq> {k. k < length xs \<and> xs ! k = x}" using assms by auto
  then have "card {i, j} \<le> card {k. k < length xs \<and> xs ! k = x}" by (intro card_mono) auto
  moreover have "count_list xs x = card {k. k < length xs \<and> xs ! k = x}"
    by (simp add: count_list_eq_length_filter length_filter_conv_card eq_commute)
  ultimately show ?thesis using assms(3) by simp
qed

lemma count_list_concat_twice:
  assumes "distinct ks" and "i \<in> set ks" and "j \<in> set ks" and "i \<noteq> j" and "x \<in> set (f i)" and "x \<in> set (f j)"
  shows "1 < count_list (concat (map f ks)) x"
  using assms(1-4)
proof (induction ks)
  case (Cons k ks)
  have pos: "0 < count_list (concat (map f ks)) x" if "l \<in> set ks" "x \<in> set (f l)" for l
    using that by (auto simp: count_list_0_iff neq0_conv [symmetric] simp del: neq0_conv)
  have own: "0 < count_list (f k) x" if "x \<in> set (f k)"
    using that by (auto simp: count_list_0_iff neq0_conv [symmetric] simp del: neq0_conv)
  show ?case
  proof (cases "i \<in> set ks \<and> j \<in> set ks")
    case True
    then show ?thesis using Cons by auto
  next
    case False
    then obtain l where "x \<in> set (f k)" "l \<in> set ks" "x \<in> set (f l)" using Cons.prems assms(5,6) by auto
    then show ?thesis using pos own by fastforce
  qed
qed simp

lemma family_signals:
  "family_ids members = concat (map (\<lambda>s. [ds_sample_id s]) members)"
  "family_records members = concat (map (\<lambda>s. if opt_text (ds_source_record_id s) \<noteq> []
     then [(ds_source_id s, opt_text (ds_source_record_id s))] else []) members)"
  "family_hashes members = concat (map (\<lambda>s. if opt_text (ds_file_sha256 s) \<noteq> [] then [opt_text (ds_file_sha256 s)] else []) members)"
  by (simp_all add: family_ids_def family_records_def family_hashes_def)

lemma reason_is_exact:
  assumes i: "i < length xs" and ne: "i \<noteq> representative ft xs i"
  shows "duplicate_reason (map ((!) xs) (family_of xs i)) (xs ! i) \<in> set duplicate_reasons"
proof -
  obtain k sg where k: "k \<noteq> i" "(i, k) \<in> same_family xs" "k < length xs" "sg \<in> set (signals (xs ! i))" "sg \<in> set (signals (xs ! k))"
    using same_family_neighbour [OF representative_facts(2) [OF i] ne] by blast
  have mem: "i \<in> set (family_of xs i)" "k \<in> set (family_of xs i)" using i k by (auto simp: set_family_of)
  have "distinct (family_of xs i)" by (simp add: family_of_def)
  note twice = count_list_concat_twice [OF this mem k(1) [symmetric]]
  show ?thesis
    using k(4,5)
      twice [of "ds_sample_id (xs ! i)" "\<lambda>j. [ds_sample_id (xs ! j)]"]
      twice [of "(ds_source_id (xs ! i), opt_text (ds_source_record_id (xs ! i)))"
        "\<lambda>j. if opt_text (ds_source_record_id (xs ! j)) \<noteq> [] then [(ds_source_id (xs ! j), opt_text (ds_source_record_id (xs ! j)))] else []"]
      twice [of "opt_text (ds_file_sha256 (xs ! i))"
        "\<lambda>j. if opt_text (ds_file_sha256 (xs ! j)) \<noteq> [] then [opt_text (ds_file_sha256 (xs ! j))] else []"]
    unfolding duplicate_reason_def family_signals map_map comp_def
    by (auto simp: signals_def duplicate_reasons_def split: if_splits)
qed


subsection \<open>The report's counts\<close>

fun is_exact :: "family \<Rightarrow> bool" where
  "is_exact (ExactFamily _ _ _) = True"
| "is_exact (TextFamily _ _) = False"

definition kept_count :: "duplicate_report \<Rightarrow> nat" where
  "kept_count r = dr_unique r + length (filter is_exact (dr_families r))"

definition duplicate_count :: "duplicate_report \<Rightarrow> nat" where
  "duplicate_count r = dr_sample_id r + dr_source_record r + dr_file_hash r"

lemma count_reasons:
  "\<forall>s \<in> set others. reason s \<in> set duplicate_reasons \<Longrightarrow>
    duplicate_count (fold (\<lambda>s. count_reason (reason s)) others r) = duplicate_count r + length others
    \<and> kept_count (fold (\<lambda>s. count_reason (reason s)) others r) = kept_count r"
  by (induction others arbitrary: r) (auto simp: duplicate_reasons_def count_reason_def duplicate_count_def kept_count_def)

lemma filter_single: "distinct xs \<Longrightarrow> x \<in> set xs \<Longrightarrow> filter (\<lambda>y. y = x) xs = [x]"
  by (induction xs) (auto simp: filter_empty_conv)

lemma component_report_counts:
  assumes "c \<in> set (components xs)"
  shows "duplicate_count (component_report ft xs c r) = duplicate_count r + length (filter (\<lambda>i. i \<noteq> representative ft xs i) c)
    \<and> kept_count (component_report ft xs c r) = kept_count r + length (filter (\<lambda>i. i = representative ft xs i) c)"
proof -
  have c: "c \<noteq> []" "\<And>i. i \<in> set c \<Longrightarrow> c = family_of xs i \<and> i < length xs"
    using components_facts [of xs] assms by auto
  let ?k = "canonical_index ft xs c"
  have rep: "representative ft xs i = ?k" if "i \<in> set c" for i using c(2) [OF that] by (simp add: representative_def)
  have "distinct (family_of xs (hd c))" by (simp add: family_of_def)
  then have "distinct c" using c by (metis hd_in_set)
  have k: "?k \<in> set c" using canonical_index_least [OF c(1)] by blast
  have "filter (\<lambda>i. i = ?k) c = [?k]" using \<open>distinct c\<close> k by (rule filter_single)
  then have one: "filter (\<lambda>i. i = representative ft xs i) c = [?k]" using rep by (metis (mono_tags, lifting) filter_cong)
  have rest: "filter (\<lambda>i. i \<noteq> representative ft xs i) c = filter (\<lambda>i. i \<noteq> ?k) c" using rep by (intro filter_cong) auto
  have reasons: "\<forall>s \<in> set (map ((!) xs) (filter (\<lambda>i. i \<noteq> ?k) c)). duplicate_reason (map ((!) xs) c) s \<in> set duplicate_reasons"
  proof -
    have "duplicate_reason (map ((!) xs) c) (xs ! i) \<in> set duplicate_reasons" if "i \<in> set c" "i \<noteq> ?k" for i
    proof -
      have "c = family_of xs i" "i < length xs" using c(2) [OF that(1)] by blast+
      then show ?thesis using reason_is_exact [of i xs ft] rep [OF that(1)] that(2) by simp
    qed
    then show ?thesis by simp
  qed
  show ?thesis
  proof (cases "length c = 1")
    case True
    then have "filter (\<lambda>i. i \<noteq> ?k) c = []" using k by (auto simp: length_Suc_conv)
    then show ?thesis using True unfolding one rest by (simp add: component_report_def duplicate_count_def kept_count_def)
  next
    case False
    then show ?thesis
      using count_reasons [OF reasons, of r] unfolding one rest
      by (simp add: component_report_def Let_def duplicate_count_def kept_count_def)
  qed
qed

lemma fold_report_counts:
  "set cs \<subseteq> set (components xs) \<Longrightarrow>
    duplicate_count (fold (component_report ft xs) cs r)
      = duplicate_count r + length (filter (\<lambda>i. i \<noteq> representative ft xs i) (concat cs))
    \<and> kept_count (fold (component_report ft xs) cs r)
      = kept_count r + length (filter (\<lambda>i. i = representative ft xs i) (concat cs))"
  by (induction cs arbitrary: r) (auto simp: component_report_counts)

lemma mark_conflicts_counts:
  "duplicate_count (snd (fold (mark_conflicts ft) groups (us, r))) = duplicate_count r
    \<and> kept_count (snd (fold (mark_conflicts ft) groups (us, r))) = kept_count r"
proof (induction groups arbitrary: us r)
  case (Cons g groups)
  obtain us' r' where step: "mark_conflicts ft g (us, r) = (us', r')" by force
  then have "duplicate_count r' = duplicate_count r \<and> kept_count r' = kept_count r"
    by (auto simp: mark_conflicts_def Let_def duplicate_count_def kept_count_def split: if_splits)
  then show ?case using Cons.IH [of us' r'] step by simp
qed simp

lemma length_filter_mset: "mset xs = mset ys \<Longrightarrow> length (filter P xs) = length (filter P ys)"
  by (metis mset_filter size_mset)

lemma exact_families_counts:
  "duplicate_count (snd (exact_families ft xs)) = length (filter (\<lambda>i. i \<noteq> representative ft xs i) [0..<length xs])
   \<and> kept_count (snd (exact_families ft xs)) = length (filter (\<lambda>i. i = representative ft xs i) [0..<length xs])"
proof -
  let ?comps = "sort_key (\<lambda>indexes. canonical_key ft (xs ! Min (set indexes))) (components xs)"
  have "mset (concat ?comps) = mset (concat (components xs))" by (simp add: mset_concat flip: sum_mset_sum_list)
  also have "\<dots> = mset [0..<length xs]"
    using components_facts [of xs] by (intro set_eq_iff_mset_eq_distinct [THEN iffD1]) auto
  finally have perm: "mset (concat ?comps) = mset [0..<length xs]" .
  have snd: "snd (exact_families ft xs) = fold (component_report ft xs) ?comps new_report"
    by (simp only: exact_families_def Let_def snd_conv)
  have "duplicate_count new_report = 0" "kept_count new_report = 0"
    by (simp_all add: new_report_def duplicate_count_def kept_count_def)
  then show ?thesis
    using fold_report_counts [of ?comps xs ft new_report] unfolding snd length_filter_mset [OF perm, symmetric] by simp
qed

subsection \<open>The result\<close>

text \<open>Everything the classification does, before the final sort.\<close>

lemma classify_shape:
  assumes "classify_duplicates ft samples = (result, report)"
  obtains vs where "marked_from (map (family_sample ft (sort_key (canonical_key ft) samples)) [0..<length (sort_key (canonical_key ft) samples)]) vs"
    "result = sort_key sample_key vs"
    "duplicate_count report = length (filter (\<lambda>i. i \<noteq> representative ft (sort_key (canonical_key ft) samples) i) [0..<length (sort_key (canonical_key ft) samples)])"
    "kept_count report = length (filter (\<lambda>i. i = representative ft (sort_key (canonical_key ft) samples) i) [0..<length (sort_key (canonical_key ft) samples)])"
proof -
  let ?xs = "sort_key (canonical_key ft) samples"
  obtain us r where e: "exact_families ft ?xs = (us, r)" by force
  obtain vs r' where f: "fold (mark_conflicts ft) (text_groups us) (us, r) = (vs, r')" by force
  have us: "us = map (family_sample ft ?xs) [0..<length ?xs]"
    using exact_families_samples [of ft ?xs] e by simp
  have "marked_from us vs" using all_conflicts_marked [OF marked_from_refl subset_refl, of us ft r] f by simp
  moreover have "result = sort_key sample_key vs" "report = r'"
    using assms e f by (simp_all add: classify_duplicates_def Let_def)
  moreover have "duplicate_count r' = duplicate_count r \<and> kept_count r' = kept_count r"
    using mark_conflicts_counts [of ft "text_groups us" us r] f by simp
  ultimately show ?thesis
    using that [of vs] exact_families_counts [of ft ?xs] unfolding e us by simp
qed


lemma conflict_marked_of:
  assumes "marked_from us vs" and "s \<in> set vs"
  shows "\<exists>i < length us. conflict_marked (us ! i) us s"
  using assms by (auto simp: marked_from_def in_set_conv_nth)

lemma sorted_wrt_disjoint:
  "sorted_wrt (\<lambda>s t. set (f s) \<inter> set (f t) = {}) xs \<Longrightarrow> (\<And>s. distinct (f s)) \<Longrightarrow> distinct (concat (map f xs))"
  by (induction xs) auto

lemma distinct_signals: "distinct (signals s)"
  by (simp add: signals_def)

lemma kept_signals_distinct:
  assumes "marked_from (map (family_sample ft xs) [0..<length xs]) vs"
  shows "distinct (concat (map signals (filter (\<lambda>s. ds_duplicate_state s \<noteq> Duplicate) vs)))"
proof -
  have len: "length vs = length xs" using assms by (simp add: marked_from_def)
  have marked: "conflict_marked (family_sample ft xs i) (map (family_sample ft xs) [0..<length xs]) (vs ! i)" if "i < length xs" for i
    using assms that by (simp add: marked_from_def)
  have kept: "i = representative ft xs i" if "i < length xs" "ds_duplicate_state (vs ! i) \<noteq> Duplicate" for i
    using conflict_marked_fields [OF marked [OF that(1)]] that(2) family_sample_state(1) by blast
  have sig: "signals (vs ! i) = signals (xs ! i)" if "i < length xs" for i
    using conflict_marked_fields [OF marked [OF that]] by simp
  have "sorted_wrt (\<lambda>s t. ds_duplicate_state s \<noteq> Duplicate \<longrightarrow> ds_duplicate_state t \<noteq> Duplicate
      \<longrightarrow> set (signals s) \<inter> set (signals t) = {}) vs"
    unfolding sorted_wrt_iff_nth_less
  proof (intro allI impI)
    fix i j assume ij: "i < j" "j < length vs" and d: "ds_duplicate_state (vs ! i) \<noteq> Duplicate" "ds_duplicate_state (vs ! j) \<noteq> Duplicate"
    have lt: "i < length xs" "j < length xs" using ij len by auto
    show "set (signals (vs ! i)) \<inter> set (signals (vs ! j)) = {}"
    proof (rule ccontr)
      assume "set (signals (vs ! i)) \<inter> set (signals (vs ! j)) \<noteq> {}"
      then obtain sg where "sg \<in> set (signals (xs ! i))" "sg \<in> set (signals (xs ! j))" using sig lt by auto
      from representative_cong [OF same_familyI [OF lt this], of ft] have "i = j"
        using kept [OF lt(1) d(1)] kept [OF lt(2) d(2)] by simp
      then show False using ij by simp
    qed
  qed
  then have "sorted_wrt (\<lambda>s t. set (signals s) \<inter> set (signals t) = {}) (filter (\<lambda>s. ds_duplicate_state s \<noteq> Duplicate) vs)"
    by (intro sorted_wrt_mono_rel [OF _ sorted_wrt_filter]) auto
  then show ?thesis using distinct_signals by (rule sorted_wrt_disjoint)
qed

text \<open>What the classification may not touch.\<close>

definition unclassified :: "dataset_sample \<Rightarrow> dataset_sample" where
  "unclassified s = s\<lparr>ds_duplicate_state := Unique, ds_duplicate_of := None, ds_exclusion_reason := None\<rparr>"

lemma unclassified_marked:
  assumes "marked_from (map (family_sample ft xs) [0..<length xs]) vs"
  shows "map unclassified vs = map unclassified xs"
proof (rule nth_equalityI)
  fix i assume "i < length (map unclassified vs)"
  then have i: "i < length xs" using assms by (simp add: marked_from_def)
  have "conflict_marked (family_sample ft xs i) (map (family_sample ft xs) [0..<length xs]) (vs ! i)"
    using assms i by (simp add: marked_from_def)
  then have "unclassified (vs ! i) = unclassified (family_sample ft xs i)"
    by (auto simp: conflict_marked_def unclassified_def)
  also have "\<dots> = unclassified (xs ! i)"
    by (simp add: unclassified_def family_sample_def as_representative_def as_duplicate_def Let_def)
  finally show "map unclassified vs ! i = map unclassified xs ! i" using i assms by (simp add: marked_from_def)
qed (use assms in \<open>simp add: marked_from_def\<close>)

text \<open>A sample that is a duplicate of another names one that is kept, and takes part if it does.\<close>

lemma conflict_marked_cases:
  assumes "conflict_marked s0 us s"
  obtains "s = s0"
  | c where "c \<in> set us" "ds_duplicate_state c \<noteq> Duplicate" "active_sample s0 \<Longrightarrow> active_sample c"
      "ds_duplicate_of s = Some (ds_sample_id c)"
  using assms unfolding conflict_marked_def
proof (elim disjE conjE bexE)
  fix c assume c: "c \<in> set us" "ds_duplicate_state c \<noteq> Duplicate" "active_sample s0 \<longrightarrow> active_sample c"
    "s = s0\<lparr>ds_duplicate_state := ConflictingDuplicate, ds_duplicate_of := Some (ds_sample_id c)\<rparr>"
  show thesis by (rule that(2) [of c]) (use c in simp_all)
qed (rule that(1))

lemma duplicate_target:
  assumes "marked_from (map (family_sample ft xs) [0..<length xs]) vs" and "s \<in> set vs" and "ds_duplicate_of s = Some d"
  shows "\<exists>t \<in> set vs. ds_sample_id t = d \<and> ds_duplicate_state t \<noteq> Duplicate \<and> (active_sample s \<longrightarrow> active_sample t)"
proof -
  let ?us = "map (family_sample ft xs) [0..<length xs]"
  obtain i where i: "i < length xs" "conflict_marked (family_sample ft xs i) ?us s"
    using conflict_marked_of [OF assms(1,2)] by auto
  have here: "\<exists>t \<in> set vs. ds_sample_id t = ds_sample_id (xs ! j) \<and> ds_duplicate_state t \<noteq> Duplicate
      \<and> (active_sample t \<longleftrightarrow> active_sample (xs ! j))"
    if j: "j < length xs" "ds_duplicate_state (family_sample ft xs j) \<noteq> Duplicate" for j
  proof -
    have "conflict_marked (family_sample ft xs j) ?us (vs ! j)" "j < length vs" using assms(1) j by (auto simp: marked_from_def)
    then show ?thesis using conflict_marked_fields j(2) by (intro bexI [of _ "vs ! j"]) auto
  qed
  have act: "active_sample s = active_sample (xs ! i)" using conflict_marked_fields [OF i(2)] by simp
  from i(2) show ?thesis
  proof (cases rule: conflict_marked_cases)
    case same: 1
    let ?r = "representative ft xs i"
    have "d = ds_sample_id (xs ! ?r)" using same assms(3) family_sample_state(2) [of ft xs i] by (simp split: if_splits)
    moreover have "representative ft xs ?r = ?r"
      using representative_cong [OF representative_facts(2) [OF i(1)], of ft] by simp
    ultimately show ?thesis
      using here [OF representative_facts(1) [OF i(1)], of ft] family_sample_state(1) representative_active [OF i(1)] act by auto
  next
    case marked: (2 c)
    then obtain j where j: "j < length xs" "c = family_sample ft xs j" by auto
    have "d = ds_sample_id (xs ! j)" "active_sample s \<Longrightarrow> active_sample (xs ! j)"
      using marked(3,4) assms(3) act unfolding j(2) by simp_all
    then show ?thesis using here [OF j(1)] marked(2) unfolding j(2) by blast
  qed
qed


text \<open>Which samples of the result are duplicates, by the representatives.\<close>

lemma marked_states:
  assumes "marked_from (map (family_sample ft xs) [0..<length xs]) vs"
  shows "length (filter (\<lambda>s. P (ds_duplicate_state s = Duplicate)) vs)
    = length (filter (\<lambda>i. P (i \<noteq> representative ft xs i)) [0..<length xs])"
proof -
  have state: "map (\<lambda>s. ds_duplicate_state s = Duplicate) vs = map (\<lambda>i. i \<noteq> representative ft xs i) [0..<length xs]"
  proof (rule nth_equalityI)
    fix i assume "i < length (map (\<lambda>s. ds_duplicate_state s = Duplicate) vs)"
    then have i: "i < length xs" "i < length vs" using assms by (simp_all add: marked_from_def)
    then have "conflict_marked (family_sample ft xs i) (map (family_sample ft xs) [0..<length xs]) (vs ! i)"
      using assms by (simp add: marked_from_def)
    from conflict_marked_fields [OF this] show "map (\<lambda>s. ds_duplicate_state s = Duplicate) vs ! i
        = map (\<lambda>i. i \<noteq> representative ft xs i) [0..<length xs] ! i"
      using i family_sample_state(1) [of ft xs i] by simp
  qed (use assms in \<open>simp add: marked_from_def\<close>)
  have "length (filter (\<lambda>s. P (ds_duplicate_state s = Duplicate)) vs)
      = length (filter P (map (\<lambda>s. ds_duplicate_state s = Duplicate) vs))" by (simp add: filter_map comp_def)
  also have "\<dots> = length (filter (\<lambda>i. P (i \<noteq> representative ft xs i)) [0..<length xs])"
    unfolding state by (simp add: filter_map comp_def)
  finally show ?thesis .
qed

lemma mset_concat_map: "mset xs = mset ys \<Longrightarrow> mset (concat (map f xs)) = mset (concat (map f ys))"
  by (simp add: mset_concat flip: sum_mset_sum_list)

text \<open>
  C21. Deduplication loses nothing and settles every family: the result holds the same samples but for
  their classification; no id, source record or file hash occurs twice among the samples that are not
  marked as duplicates; each other one names a kept sample, which takes part if it does; and the
  report's numbers of duplicates add up to the samples that are marked, so each of them was given one
  of the three reasons.
\<close>

theorem families_are_settled:
  assumes "classify_duplicates ft samples = (result, report)"
  shows "mset (map unclassified result) = mset (map unclassified samples)
    \<and> distinct (concat (map signals (filter (\<lambda>s. ds_duplicate_state s \<noteq> Duplicate) result)))
    \<and> (\<forall>s \<in> set result. \<forall>d. ds_duplicate_of s = Some d \<longrightarrow>
         (\<exists>t \<in> set result. ds_sample_id t = d \<and> ds_duplicate_state t \<noteq> Duplicate \<and> (active_sample s \<longrightarrow> active_sample t)))
    \<and> length (filter (\<lambda>s. ds_duplicate_state s = Duplicate) result)
        = dr_sample_id report + dr_source_record report + dr_file_hash report
    \<and> length (filter (\<lambda>s. ds_duplicate_state s \<noteq> Duplicate) result)
        = dr_unique report + length (filter is_exact (dr_families report))"
proof -
  let ?xs = "sort_key (canonical_key ft) samples"
  obtain vs where vs: "marked_from (map (family_sample ft ?xs) [0..<length ?xs]) vs" "result = sort_key sample_key vs"
    and counts: "duplicate_count report = length (filter (\<lambda>i. i \<noteq> representative ft ?xs i) [0..<length ?xs])"
      "kept_count report = length (filter (\<lambda>i. i = representative ft ?xs i) [0..<length ?xs])"
    by (rule classify_shape [OF assms])
  have res: "mset result = mset vs" by (simp add: vs(2))
  have "mset (map unclassified result) = mset (map unclassified vs)" by (simp add: res)
  also have "\<dots> = mset (map unclassified samples)" unfolding unclassified_marked [OF vs(1)] by simp
  finally have same: "mset (map unclassified result) = mset (map unclassified samples)" .
  have "mset (filter P result) = mset (filter P vs)" for P by (simp add: res)
  then have dist: "distinct (concat (map signals (filter (\<lambda>s. ds_duplicate_state s \<noteq> Duplicate) result)))"
    using kept_signals_distinct [OF vs(1)] mset_concat_map mset_eq_imp_distinct_iff by metis
  have len: "length (filter (\<lambda>s. P (ds_duplicate_state s = Duplicate)) result)
      = length (filter (\<lambda>i. P (i \<noteq> representative ft ?xs i)) [0..<length ?xs])" for P
    using length_filter_mset [OF res] marked_states [OF vs(1), of P] by metis
  have target: "\<exists>t \<in> set result. ds_sample_id t = d \<and> ds_duplicate_state t \<noteq> Duplicate \<and> (active_sample s \<longrightarrow> active_sample t)"
    if "s \<in> set result" "ds_duplicate_of s = Some d" for s d
    using duplicate_target [OF vs(1), of s d] that unfolding vs(2) set_sort by blast
  have dup: "length (filter (\<lambda>s. ds_duplicate_state s = Duplicate) result)
        = dr_sample_id report + dr_source_record report + dr_file_hash report"
    using len [of "\<lambda>b. b"] counts(1) unfolding duplicate_count_def by simp
  have kept: "length (filter (\<lambda>s. ds_duplicate_state s \<noteq> Duplicate) result)
        = dr_unique report + length (filter is_exact (dr_families report))"
    using len [of Not] counts(2) unfolding kept_count_def not_not by simp
  show ?thesis by (intro conjI ballI allI impI same dist dup kept) (rule target)
qed


subsection \<open>Deduplication before splitting\<close>

text \<open>The links of a deduplicated list never dangle, so splitting keeps each cluster together.\<close>

definition links_resolve :: "dataset_sample list \<Rightarrow> bool" where
  "links_resolve samples \<longleftrightarrow> (\<forall>s \<in> active_set samples. \<forall>d. ds_duplicate_of s = Some d \<longrightarrow>
     (\<exists>t \<in> active_set samples. ds_sample_id t = d))"

lemma classified_links_resolve:
  assumes "classify_duplicates ft samples = (result, report)"
  shows "links_resolve result"
proof -
  let ?xs = "sort_key (canonical_key ft) samples"
  obtain vs where vs: "marked_from (map (family_sample ft ?xs) [0..<length ?xs]) vs" "result = sort_key sample_key vs"
    by (rule classify_shape [OF assms])
  show ?thesis
    unfolding links_resolve_def active_set_def vs(2) set_sort using duplicate_target [OF vs(1)] by blast
qed

lemma links_resolve_split:
  assumes "links_resolve samples" and "assign_splits bucket samples seed given = Inr (updated, report)"
  shows "links_resolve updated"
  unfolding links_resolve_def
proof (intro ballI allI impI)
  fix s d assume s: "s \<in> active_set updated" "ds_duplicate_of s = Some d"
  let ?f = "final_split bucket samples seed given"
  obtain s0 where s0: "s0 \<in> active_set samples" "s = s0\<lparr>ds_target_split := ?f s0\<rparr>"
    using updated_active [OF assms(2) s(1)] by blast
  then have "ds_duplicate_of s0 = Some d" using s(2) by simp
  then obtain t0 where t0: "t0 \<in> active_set samples" "ds_sample_id t0 = d"
    using assms(1) s0(1) unfolding links_resolve_def by blast
  have "t0\<lparr>ds_target_split := ?f t0\<rparr> \<in> active_set updated"
    using t0(1) assign_splits_InrD [OF assms(2)] by (auto simp: active_set_def)
  then show "\<exists>t \<in> active_set updated. ds_sample_id t = d" using t0(2) by (intro bexI) auto
qed

lemma cluster_check_passes:
  assumes "links_resolve updated"
    and joined: "\<And>s t. s \<in> active_set updated \<Longrightarrow> t \<in> active_set updated \<Longrightarrow> shares s t \<Longrightarrow>
      ds_target_split s = ds_target_split t \<and> ds_target_split s \<noteq> Unassigned"
  shows "crossing (cluster_pairs (filter (\<lambda>s. active_sample s \<and> ds_target_split s \<noteq> Unassigned) updated)) = []"
proof (rule crossing_Nil)
  let ?active = "filter (\<lambda>s. active_sample s \<and> ds_target_split s \<noteq> Unassigned) updated"
  fix k x y assume xy: "(k, x) \<in> set (cluster_pairs ?active)" "(k, y) \<in> set (cluster_pairs ?active)"
  have pair: "k \<noteq> [] \<and> (\<exists>s \<in> active_set updated. ds_duplicate_of s = Some k
      \<and> (\<forall>t \<in> active_set updated. ds_sample_id t = k \<longrightarrow> z = ds_target_split t))"
    if z: "(k, z) \<in> set (cluster_pairs ?active)" for z
  proof -
    obtain s where s: "s \<in> active_set updated" "opt_text (ds_duplicate_of s) = k" "k \<noteq> []"
      and or: "z = ds_target_split s \<or> (\<exists>t \<in> active_set updated. ds_sample_id t = k \<and> z = ds_target_split t)"
      using z by (auto simp: cluster_pairs_def active_set_def)
    have link: "ds_target_split s = ds_target_split t" if "t \<in> active_set updated" "ds_sample_id t = k" for t
      using joined [OF s(1) that(1)] s(2,3) that(2) by (simp add: shares_def)
    have "ds_duplicate_of s = Some k" using s(2,3) by (auto simp: opt_text_def split: option.splits)
    moreover have "z = ds_target_split s" using or link by fastforce
    ultimately show ?thesis using s link by (intro conjI bexI [of _ s]) auto
  qed
  obtain s where "s \<in> active_set updated" "ds_duplicate_of s = Some k" using pair [OF xy(1)] by blast
  then obtain t where "t \<in> active_set updated" "ds_sample_id t = k" using assms(1) unfolding links_resolve_def by blast
  then show "x = y" using pair [OF xy(1)] pair [OF xy(2)] by blast
qed

text \<open>
  C22. Splitting what deduplication returns never tears a duplicate from its original: the report's
  check of duplicate clusters passes with no violation, and every sample that takes part and is
  marked as a duplicate or a conflict is in the same split as the sample it names.
\<close>

theorem duplicates_split_together:
  assumes "classify_duplicates ft samples = (result, duplicates)"
    and "assign_splits bucket result seed given = Inr (updated, report)"
  shows "(''duplicate_cluster_not_shared_across_splits'', True, 0) \<in> set (sr_checks report)
    \<and> (\<forall>s \<in> active_set updated. \<forall>d. ds_duplicate_of s = Some d \<longrightarrow> d \<noteq> [] \<longrightarrow>
         (\<exists>t \<in> active_set updated. ds_sample_id t = d \<and> ds_target_split t = ds_target_split s
            \<and> ds_target_split s \<noteq> Unassigned))"
proof -
  have resolve: "links_resolve updated" using classified_links_resolve [OF assms(1)] assms(2) by (rule links_resolve_split)
  have joined: "ds_target_split s = ds_target_split t \<and> ds_target_split s \<noteq> Unassigned"
    if "s \<in> active_set updated" "t \<in> active_set updated" "shares s t" for s t
    using updated_joined [OF assms(2) that(1,2) disjI2 [OF that(3)]] .
  have "sr_checks report = leakage_checks (filter (\<lambda>s. active_sample s \<and> ds_target_split s \<noteq> Unassigned) updated)"
    using assign_splits_InrD [OF assms(2)] by (simp add: build_report_def Let_def)
  then have check: "(''duplicate_cluster_not_shared_across_splits'', True, 0) \<in> set (sr_checks report)"
    using cluster_check_passes [OF resolve joined] by (simp add: leakage_checks_def Let_def)
  have "\<exists>t \<in> active_set updated. ds_sample_id t = d \<and> ds_target_split t = ds_target_split s \<and> ds_target_split s \<noteq> Unassigned"
    if s: "s \<in> active_set updated" "ds_duplicate_of s = Some d" "d \<noteq> []" for s d
  proof -
    obtain t where t: "t \<in> active_set updated" "ds_sample_id t = d" using resolve s unfolding links_resolve_def by blast
    have "shares s t" using s t(2) by (simp add: shares_def opt_text_def)
    from joined [OF s(1) t(1) this] show ?thesis using t by (intro bexI [of _ t]) auto
  qed
  with check show ?thesis by blast
qed

subsection \<open>Examples\<close>

text \<open>Two scans of one file.\<close>

definition first_scan :: dataset_sample where
  "first_scan = (new_sample ''s1'' ''src'')\<lparr>ds_source_path := ''a'', ds_file_sha256 := Some ''f1''\<rparr>"

definition second_scan :: dataset_sample where
  "second_scan = (new_sample ''s2'' ''src'')\<lparr>ds_source_path := ''b'', ds_file_sha256 := Some ''f1''\<rparr>"

definition sample_result :: "dataset_sample list" where
  "sample_result = [first_scan\<lparr>ds_duplicate_state := Canonical\<rparr>,
     second_scan\<lparr>ds_duplicate_state := Duplicate, ds_duplicate_of := Some ''s1'',
       ds_exclusion_reason := Some ''duplicate_file_hash''\<rparr>]"

lemma scans_components:
  "components [first_scan, second_scan] = [[0, Suc 0]]" "text_groups sample_result = []"
  "sort_key sample_key sample_result = sample_result"
  by code_simp+

lemma scans_order: "canonical_key ft first_scan < canonical_key ft second_scan"
proof -
  have "''a'' < (''b'' :: string)" by code_simp
  then show ?thesis by (simp add: canonical_key_def first_scan_def second_scan_def new_sample_def active_sample_def)
qed

lemma scans_writes:
  "write_all (component_writes ft [first_scan, second_scan] [0, Suc 0]) [first_scan, second_scan] = sample_result"
proof -
  have c: "canonical_index ft [first_scan, second_scan] [0, Suc 0] = 0"
    using less_imp_le [OF scans_order, of ft] by (simp add: canonical_index_def)
  have "as_representative Canonical first_scan = first_scan\<lparr>ds_duplicate_state := Canonical\<rparr>"
    "as_duplicate (ds_sample_id first_scan) (duplicate_reason [first_scan, second_scan] second_scan) second_scan
      = sample_result ! 1" by code_simp+
  then show ?thesis by (simp add: component_writes_def c write_all_def sample_result_def)
qed

lemma scans_run: "fst (classify_duplicates ft [first_scan, second_scan]) = sample_result"
proof -
  have "sort_key (canonical_key ft) [first_scan, second_scan] = [first_scan, second_scan]"
    using less_imp_le [OF scans_order, of ft] by simp
  then show ?thesis
    by (simp add: classify_duplicates_def exact_families_def scans_components scans_writes Let_def split: prod.split)
qed

lemma families_are_settled_witness:
  "\<exists>report. classify_duplicates (\<lambda>_. []) [first_scan, second_scan] = (sample_result, report)
     \<and> dr_sample_id report + dr_source_record report + dr_file_hash report = 1
     \<and> dr_unique report + length (filter is_exact (dr_families report)) = 1"
proof -
  obtain report where r: "classify_duplicates (\<lambda>_. []) [first_scan, second_scan] = (sample_result, report)"
    using scans_run [of "\<lambda>_. []"] by (metis prod.collapse)
  have "length (filter (\<lambda>s. ds_duplicate_state s = Duplicate) sample_result) = 1"
    "length (filter (\<lambda>s. ds_duplicate_state s \<noteq> Duplicate) sample_result) = 1" by code_simp+
  with families_are_settled [OF r] r show ?thesis by simp
qed

lemma duplicates_split_together_witness:
  "\<exists>duplicates updated report. classify_duplicates (\<lambda>_. []) [first_scan, second_scan] = (sample_result, duplicates)
     \<and> assign_splits sample_bucket sample_result 7 None = Inr (updated, report)
     \<and> (''duplicate_cluster_not_shared_across_splits'', True, 0) \<in> set (sr_checks report)"
proof -
  obtain duplicates where d: "classify_duplicates (\<lambda>_. []) [first_scan, second_scan] = (sample_result, duplicates)"
    using scans_run [of "\<lambda>_. []"] by (metis prod.collapse)
  have "check_ratios (effective_ratios None) = None" by code_simp
  then obtain updated report where a: "assign_splits sample_bucket sample_result 7 None = Inr (updated, report)"
    by (simp add: assign_splits_eq Let_def)
  from duplicates_split_together [OF d a] d a show ?thesis by blast
qed

end
