(* ===== verification/Auth_Accounts.thy ===== *)
theory Auth_Accounts
  imports Prelude
begin

text \<open>
  Accounts and sessions: the methods of \<open>Database\<close> (\<open>pdfword/database.py\<close>) on the tables
  \<open>auth_users\<close>, \<open>auth_identities\<close>, \<open>auth_sessions\<close> and \<open>auth_audit_events\<close>. The digest
  \<open>hash_secret\<close> (SHA-256) is the argument \<open>digest\<close>, \<open>strip().casefold()\<close> of a text is \<open>fold_text\<close>;
  random identifiers and secrets are arguments of the methods that draw them. The versions of the
  accepted terms, which no method writes, and the identifiers of audit events are left out.
\<close>

subsection \<open>Rows\<close>

record auth_user =
  au_user_id :: string
  au_email :: string
  au_email_verified :: bool
  au_display_name :: string
  au_role :: string
  au_status :: string
  au_created_at :: stamp
  au_updated_at :: stamp
  au_last_login_at :: stamp

record auth_identity =
  ai_identity_id :: string
  ai_user_id :: string
  ai_provider :: string
  ai_provider_user_id :: string
  ai_email_at_link :: string
  ai_email_verified :: bool
  ai_display_name :: string
  ai_created_at :: stamp
  ai_updated_at :: stamp

record auth_session =
  ss_id_hash :: string
  ss_user_id :: string
  ss_csrf_hash :: string
  ss_created_at :: stamp
  ss_last_seen_at :: stamp
  ss_expires_at :: stamp
  ss_absolute_expires_at :: stamp
  ss_revoked_at :: stamp
  ss_user_agent_hash :: string
  ss_ip_hash :: string
  ss_idle_seconds :: int

record audit_event =
  ev_type :: string
  ev_actor :: string
  ev_target :: string
  ev_resource_type :: string
  ev_resource_id :: string
  ev_result :: string
  ev_ip_hash :: string
  ev_metadata :: "(string \<times> string) list"
  ev_created_at :: stamp

record auth_db =
  ad_users :: "auth_user list"
  ad_identities :: "auth_identity list"
  ad_sessions :: "auth_session list"
  ad_audit :: "audit_event list"

text \<open>\<open>VerifiedIdentity\<close> of \<open>pdfword/auth.py\<close>.\<close>

record verified_identity =
  vi_provider_user_id :: string
  vi_email :: "string option"
  vi_email_verified :: bool
  vi_provider :: string
  vi_display_name :: "string option"

datatype auth_error =
  AuthValueError string
| AuthPermissionError string
| AuthKeyError string
| AuthIntegrityError string

text \<open>The keys of the tables: \<open>COLLATE NOCASE\<close> compares ASCII letters without their case.\<close>

definition email_key :: "auth_user \<Rightarrow> string" where
  "email_key u = py_lower (au_email u)"

definition identity_key :: "auth_identity \<Rightarrow> string \<times> string" where
  "identity_key i = (ai_provider i, ai_provider_user_id i)"

definition get_auth_user :: "string \<Rightarrow> auth_db \<Rightarrow> auth_user option" where
  "get_auth_user uid d = tbl_find (\<lambda>u. au_user_id u = uid) (ad_users d)"

subsection \<open>Audit\<close>

definition audit :: "string \<Rightarrow> string \<Rightarrow> string \<Rightarrow> (string \<times> string) list \<Rightarrow> instant \<Rightarrow> audit_event" where
  "audit ty actor target metadata now =
     \<lparr>ev_type = ty, ev_actor = actor, ev_target = target, ev_resource_type = [], ev_resource_id = [],
      ev_result = ''success'', ev_ip_hash = [], ev_metadata = metadata, ev_created_at = At now\<rparr>"

definition record_auth_audit :: "audit_event \<Rightarrow> auth_db \<Rightarrow> auth_db" where
  "record_auth_audit e d = d\<lparr>ad_audit := ad_audit d @ [e]\<rparr>"

subsection \<open>Accounts\<close>

text \<open>The identity as it is linked, and the user it is linked to.\<close>

definition linked_user :: "verified_identity \<Rightarrow> auth_db \<Rightarrow> auth_user option" where
  "linked_user v d =
     (case tbl_find (\<lambda>i. identity_key i = (vi_provider v, vi_provider_user_id v)
              \<and> get_auth_user (ai_user_id i) d \<noteq> None) (ad_identities d) of
        None \<Rightarrow> None
      | Some i \<Rightarrow> get_auth_user (ai_user_id i) d)"

definition new_user :: "string \<Rightarrow> string \<Rightarrow> verified_identity \<Rightarrow> instant \<Rightarrow> auth_user" where
  "new_user uid email v now =
     \<lparr>au_user_id = uid, au_email = email, au_email_verified = vi_email_verified v,
      au_display_name = opt_text (vi_display_name v), au_role = ''user'', au_status = ''active'',
      au_created_at = At now, au_updated_at = At now, au_last_login_at = At now\<rparr>"

definition new_identity :: "string \<Rightarrow> string \<Rightarrow> string \<Rightarrow> verified_identity \<Rightarrow> instant \<Rightarrow> auth_identity" where
  "new_identity iid uid email v now =
     \<lparr>ai_identity_id = iid, ai_user_id = uid, ai_provider = vi_provider v,
      ai_provider_user_id = vi_provider_user_id v, ai_email_at_link = email,
      ai_email_verified = vi_email_verified v, ai_display_name = opt_text (vi_display_name v),
      ai_created_at = At now, ai_updated_at = At now\<rparr>"

text \<open>The two updates: of the user of a known identity, and of the user with the email of a new one.\<close>

definition refresh_user :: "string \<Rightarrow> verified_identity \<Rightarrow> instant \<Rightarrow> auth_user \<Rightarrow> auth_user" where
  "refresh_user email v now u =
     u\<lparr>au_email := email, au_email_verified := vi_email_verified v, au_display_name := opt_text (vi_display_name v),
       au_updated_at := At now, au_last_login_at := At now\<rparr>"

definition merge_user :: "verified_identity \<Rightarrow> instant \<Rightarrow> auth_user \<Rightarrow> auth_user" where
  "merge_user v now u =
     u\<lparr>au_email_verified := (au_email_verified u \<or> vi_email_verified v),
       au_display_name := (if au_display_name u = [] then opt_text (vi_display_name v) else au_display_name u),
       au_updated_at := At now, au_last_login_at := At now\<rparr>"

definition link_identity :: "auth_identity \<Rightarrow> instant \<Rightarrow> auth_db \<Rightarrow> auth_error + auth_db" where
  "link_identity i now d =
     (if identity_key i \<in> identity_key ` set (ad_identities d)
         \<or> ai_identity_id i \<in> ai_identity_id ` set (ad_identities d)
      then Inl (AuthIntegrityError ''auth_identities'')
      else Inr (record_auth_audit
        (audit ''identity_linked'' (ai_user_id i) (ai_user_id i) [(''provider'', ai_provider i)] now)
        (d\<lparr>ad_identities := ad_identities d @ [i]\<rparr>)))"

definition upsert_auth_user ::
  "(string \<Rightarrow> string) \<Rightarrow> string \<Rightarrow> string \<Rightarrow> verified_identity \<Rightarrow> instant \<Rightarrow> auth_db
    \<Rightarrow> auth_error + (auth_db \<times> auth_user)" where
  "upsert_auth_user fold_text uid iid v now d =
     (let email = fold_text (opt_text (vi_email v));
          reread = (\<lambda>user_id d'. case get_auth_user user_id d' of
              None \<Rightarrow> Inl (AuthKeyError user_id) | Some u \<Rightarrow> Inr (d', u))
      in if email = [] then Inl (AuthValueError ''Verified email is required'')
         else case linked_user v d of
           Some known \<Rightarrow>
             if list_ex (\<lambda>u. au_user_id u \<noteq> au_user_id known \<and> email_key u = py_lower email) (ad_users d)
             then Inl (AuthIntegrityError ''auth_users.normalized_email'')
             else reread (au_user_id known)
               (d\<lparr>ad_users := tbl_update (\<lambda>u. au_user_id u = au_user_id known) (refresh_user email v now) (ad_users d)\<rparr>)
         | None \<Rightarrow>
             (case tbl_find (\<lambda>u. email_key u = py_lower email) (ad_users d) of
                None \<Rightarrow>
                  if uid \<in> au_user_id ` set (ad_users d) then Inl (AuthIntegrityError ''auth_users'')
                  else (case link_identity (new_identity iid uid email v now) now
                              (d\<lparr>ad_users := ad_users d @ [new_user uid email v now]\<rparr>) of
                          Inl e \<Rightarrow> Inl e | Inr d' \<Rightarrow> reread uid d')
              | Some u \<Rightarrow>
                  if au_status u \<in> {''deleted'', ''deletion_pending''}
                  then Inl (AuthPermissionError ''Account is not active'')
                  else (case link_identity (new_identity iid (au_user_id u) email v now) now
                              (d\<lparr>ad_users := tbl_update (\<lambda>x. au_user_id x = au_user_id u) (merge_user v now) (ad_users d)\<rparr>) of
                          Inl e \<Rightarrow> Inl e | Inr d' \<Rightarrow> reread (au_user_id u) d')))"

text \<open>\<open>LIKE\<close>: \<open>%\<close> stands for any text and \<open>_\<close> for a character.\<close>

fun sql_like :: "string \<Rightarrow> string \<Rightarrow> bool" where
  "sql_like [] s = (s = [])"
| "sql_like (p # ps) [] = (p = CHR ''%'' \<and> sql_like ps [])"
| "sql_like (p # ps) (c # cs) =
     (if p = CHR ''%'' then sql_like ps (c # cs) \<or> sql_like (p # ps) cs
      else (p = CHR ''_'' \<or> lower_char p = lower_char c) \<and> sql_like ps cs)"

definition list_auth_users :: "(string \<Rightarrow> string) \<Rightarrow> string \<Rightarrow> auth_db \<Rightarrow> auth_user list" where
  "list_auth_users fold_text query d =
     (let pattern = ''%'' @ fold_text query @ ''%''
      in take 100 (rev (sort_key au_created_at (rev (filter (\<lambda>u. pattern = ''%%'' \<or> sql_like pattern (au_email u)) (ad_users d))))))"

definition admin_count :: "auth_db \<Rightarrow> nat" where
  "admin_count d = tbl_count (\<lambda>u. au_role u = ''admin'' \<and> au_status u = ''active'') (ad_users d)"

subsection \<open>Sessions\<close>

definition revoke_where :: "(auth_session \<Rightarrow> bool) \<Rightarrow> instant \<Rightarrow> auth_db \<Rightarrow> auth_db" where
  "revoke_where P now d = d\<lparr>ad_sessions := tbl_update P (\<lambda>s. s\<lparr>ss_revoked_at := At now\<rparr>) (ad_sessions d)\<rparr>"

definition revoke_session :: "(string \<Rightarrow> string) \<Rightarrow> string \<Rightarrow> instant \<Rightarrow> auth_db \<Rightarrow> auth_db" where
  "revoke_session digest sid now d = revoke_where (\<lambda>s. ss_id_hash s = digest sid) now d"

definition revoke_user_sessions :: "string \<Rightarrow> instant \<Rightarrow> auth_db \<Rightarrow> auth_db" where
  "revoke_user_sessions uid now d = revoke_where (\<lambda>s. ss_user_id s = uid \<and> ss_revoked_at s = Never) now d"

definition update_user :: "string \<Rightarrow> (auth_user \<Rightarrow> auth_user) \<Rightarrow> auth_db \<Rightarrow> auth_db" where
  "update_user uid f d = d\<lparr>ad_users := tbl_update (\<lambda>u. au_user_id u = uid) f (ad_users d)\<rparr>"

text \<open>
  Setting the status or the role of an account. An unknown account raises only after the transaction,
  whose audit event stays.
\<close>

definition user_or_key_error :: "string \<Rightarrow> auth_db \<Rightarrow> auth_db \<times> (auth_error + auth_user)" where
  "user_or_key_error uid d =
     (d, case get_auth_user uid d of None \<Rightarrow> Inl (AuthKeyError uid) | Some u \<Rightarrow> Inr u)"

definition set_auth_user_status ::
  "string \<Rightarrow> string \<Rightarrow> string \<Rightarrow> instant \<Rightarrow> auth_db \<Rightarrow> auth_db \<times> (auth_error + auth_user)" where
  "set_auth_user_status uid status actor now d =
     (if status \<notin> {''active'', ''disabled'', ''deletion_pending'', ''deleted''}
      then (d, Inl (AuthValueError ''Invalid user status''))
      else let d1 = update_user uid (\<lambda>u. u\<lparr>au_status := status, au_updated_at := At now\<rparr>) d;
               d2 = (if status \<noteq> ''active'' then revoke_user_sessions uid now d1 else d1)
           in user_or_key_error uid
                (record_auth_audit (audit ''user_status_changed'' actor uid [(''status'', status)] now) d2))"

definition set_auth_user_role ::
  "string \<Rightarrow> string \<Rightarrow> string \<Rightarrow> instant \<Rightarrow> auth_db \<Rightarrow> auth_db \<times> (auth_error + auth_user)" where
  "set_auth_user_role uid role actor now d =
     (if role \<notin> {''user'', ''admin''} then (d, Inl (AuthValueError ''Invalid role''))
      else if actor = uid then (d, Inl (AuthPermissionError ''Cannot change own role''))
      else let d1 = update_user uid (\<lambda>u. u\<lparr>au_role := role, au_updated_at := At now\<rparr>) d
           in user_or_key_error uid
                (record_auth_audit (audit ''role_changed'' actor uid [(''role'', role)] now)
                  (revoke_user_sessions uid now d1)))"

definition new_session ::
  "(string \<Rightarrow> string) \<Rightarrow> string \<Rightarrow> string \<Rightarrow> string \<Rightarrow> int \<Rightarrow> int \<Rightarrow> string \<Rightarrow> string \<Rightarrow> instant \<Rightarrow> auth_session" where
  "new_session digest sid csrf uid lifetime idle ip_hash user_agent_hash now =
     (let expires = At (now + microseconds lifetime)
      in \<lparr>ss_id_hash = digest sid, ss_user_id = uid, ss_csrf_hash = digest csrf, ss_created_at = At now,
          ss_last_seen_at = At now, ss_expires_at = expires, ss_absolute_expires_at = expires, ss_revoked_at = Never,
          ss_user_agent_hash = user_agent_hash, ss_ip_hash = ip_hash, ss_idle_seconds = idle\<rparr>)"

definition create_session ::
  "(string \<Rightarrow> string) \<Rightarrow> string \<Rightarrow> string \<Rightarrow> string \<Rightarrow> int \<Rightarrow> int \<Rightarrow> string \<Rightarrow> string \<Rightarrow> instant \<Rightarrow> auth_db
    \<Rightarrow> auth_error + auth_db" where
  "create_session digest sid csrf uid lifetime idle ip_hash user_agent_hash now d =
     (if digest sid \<in> ss_id_hash ` set (ad_sessions d) \<or> get_auth_user uid d = None
      then Inl (AuthIntegrityError ''auth_sessions'')
      else Inr (d\<lparr>ad_sessions := ad_sessions d @ [new_session digest sid csrf uid lifetime idle ip_hash user_agent_hash now]\<rparr>))"

definition usable_session :: "instant \<Rightarrow> auth_session \<Rightarrow> bool" where
  "usable_session now s \<longleftrightarrow> ss_revoked_at s = Never \<and> At now < ss_expires_at s \<and> At now < ss_absolute_expires_at s"

definition idle_expired :: "instant \<Rightarrow> auth_session \<Rightarrow> bool" where
  "idle_expired now s \<longleftrightarrow> ss_idle_seconds s \<le> 0
     \<or> (case ss_last_seen_at s of Never \<Rightarrow> True | At t \<Rightarrow> microseconds (ss_idle_seconds s) < now - t)"

definition get_session_user ::
  "(string \<Rightarrow> string) \<Rightarrow> string \<Rightarrow> instant \<Rightarrow> auth_db \<Rightarrow> auth_db \<times> (auth_user \<times> auth_session) option" where
  "get_session_user digest sid now d =
     (case tbl_find (\<lambda>s. ss_id_hash s = digest sid \<and> usable_session now s \<and> get_auth_user (ss_user_id s) d \<noteq> None)
             (ad_sessions d) of
        None \<Rightarrow> (d, None)
      | Some s \<Rightarrow>
          if idle_expired now s then (revoke_session digest sid now d, None)
          else (d\<lparr>ad_sessions := tbl_update
                   (\<lambda>x. ss_id_hash x = digest sid \<and> ss_revoked_at x = Never \<and> At now < ss_absolute_expires_at x)
                   (\<lambda>x. x\<lparr>ss_last_seen_at := At now\<rparr>) (ad_sessions d)\<rparr>,
                map_option (\<lambda>u. (u, s)) (get_auth_user (ss_user_id s) d)))"

definition session_csrf_matches :: "(string \<Rightarrow> string) \<Rightarrow> string \<Rightarrow> string option \<Rightarrow> auth_db \<Rightarrow> bool" where
  "session_csrf_matches digest sid csrf d =
     (opt_text csrf \<noteq> [] \<and>
       (case tbl_find (\<lambda>s. ss_id_hash s = digest sid \<and> ss_revoked_at s = Never) (ad_sessions d) of
          None \<Rightarrow> False
        | Some s \<Rightarrow> ss_csrf_hash s = digest (opt_text csrf)))"


subsection \<open>Steps\<close>

text \<open>The promotion of the first administrator, as the transaction of \<open>admin_bootstrap\<close> writes it.\<close>

definition grant_first_admin :: "string \<Rightarrow> instant \<Rightarrow> auth_db \<Rightarrow> auth_db" where
  "grant_first_admin uid now d =
     record_auth_audit (audit ''first_admin_bootstrap'' uid uid [] now)
       (update_user uid (\<lambda>u. u\<lparr>au_role := ''admin'', au_updated_at := At now\<rparr>) d)"

datatype auth_op =
  OpUpsert string string verified_identity instant
| OpStatus string string string instant
| OpRole string string string instant
| OpGrant string instant
| OpCreate string string string int int string string instant
| OpRead string instant
| OpRevoke string instant
| OpRevokeUser string instant
| OpAudit audit_event

definition or_same :: "auth_db \<Rightarrow> auth_error + auth_db \<Rightarrow> auth_db" where
  "or_same d r = (case r of Inl _ \<Rightarrow> d | Inr d' \<Rightarrow> d')"

fun auth_step :: "(string \<Rightarrow> string) \<Rightarrow> (string \<Rightarrow> string) \<Rightarrow> auth_op \<Rightarrow> auth_db \<Rightarrow> auth_db" where
  "auth_step digest fold_text (OpUpsert uid iid v now) d =
     (case upsert_auth_user fold_text uid iid v now d of Inl _ \<Rightarrow> d | Inr (d', u) \<Rightarrow> d')"
| "auth_step digest fold_text (OpStatus uid status actor now) d = fst (set_auth_user_status uid status actor now d)"
| "auth_step digest fold_text (OpRole uid role actor now) d = fst (set_auth_user_role uid role actor now d)"
| "auth_step digest fold_text (OpGrant uid now) d = grant_first_admin uid now d"
| "auth_step digest fold_text (OpCreate sid csrf uid lifetime idle ip ua now) d =
     or_same d (create_session digest sid csrf uid lifetime idle ip ua now d)"
| "auth_step digest fold_text (OpRead sid now) d = fst (get_session_user digest sid now d)"
| "auth_step digest fold_text (OpRevoke sid now) d = revoke_session digest sid now d"
| "auth_step digest fold_text (OpRevokeUser uid now) d = revoke_user_sessions uid now d"
| "auth_step digest fold_text (OpAudit e) d = record_auth_audit e d"

definition empty_auth_db :: auth_db where
  "empty_auth_db = \<lparr>ad_users = [], ad_identities = [], ad_sessions = [], ad_audit = []\<rparr>"

subsection \<open>The three tables, one by one\<close>

definition user_ok :: "auth_user \<Rightarrow> bool" where
  "user_ok u \<longleftrightarrow> au_role u \<in> {''user'', ''admin''}
     \<and> au_status u \<in> {''active'', ''disabled'', ''deletion_pending'', ''deleted''}"

definition users_ok :: "auth_user list \<Rightarrow> bool" where
  "users_ok us \<longleftrightarrow> distinct (map au_user_id us) \<and> distinct (map email_key us) \<and> (\<forall>u \<in> set us. user_ok u)"

definition auth_wf :: "auth_db \<Rightarrow> bool" where
  "auth_wf d \<longleftrightarrow> users_ok (ad_users d) \<and> distinct (map identity_key (ad_identities d))
     \<and> distinct (map ss_id_hash (ad_sessions d))
     \<and> ai_user_id ` set (ad_identities d) \<subseteq> au_user_id ` set (ad_users d)
     \<and> ss_user_id ` set (ad_sessions d) \<subseteq> au_user_id ` set (ad_users d)
     \<and> (\<forall>s \<in> set (ad_sessions d). ss_absolute_expires_at s = ss_expires_at s)"

text \<open>
  What every operation keeps: accounts, the links of identities, and of a session everything but
  its last use and its revocation, which is not taken back.
\<close>

definition session_after :: "auth_session \<Rightarrow> auth_session \<Rightarrow> bool" where
  "session_after s s' \<longleftrightarrow> ss_id_hash s' = ss_id_hash s \<and> ss_user_id s' = ss_user_id s \<and> ss_csrf_hash s' = ss_csrf_hash s
     \<and> ss_created_at s' = ss_created_at s \<and> ss_expires_at s' = ss_expires_at s
     \<and> ss_absolute_expires_at s' = ss_absolute_expires_at s \<and> ss_idle_seconds s' = ss_idle_seconds s
     \<and> (ss_revoked_at s \<noteq> Never \<longrightarrow> ss_revoked_at s' \<noteq> Never)"

definition auth_kept :: "auth_db \<Rightarrow> auth_db \<Rightarrow> bool" where
  "auth_kept d d' \<longleftrightarrow> au_user_id ` set (ad_users d) \<subseteq> au_user_id ` set (ad_users d')
     \<and> set (ad_identities d) \<subseteq> set (ad_identities d')
     \<and> (\<forall>s \<in> set (ad_sessions d). \<exists>s' \<in> set (ad_sessions d'). session_after s s')"

lemma session_after_refl [simp]: "session_after s s"
  by (simp add: session_after_def)

lemma auth_keptI:
  "au_user_id ` set (ad_users d) \<subseteq> au_user_id ` set (ad_users d') \<Longrightarrow> set (ad_identities d) \<subseteq> set (ad_identities d')
    \<Longrightarrow> set (ad_sessions d) \<subseteq> set (ad_sessions d') \<Longrightarrow> auth_kept d d'"
  unfolding auth_kept_def using session_after_refl by blast

lemma auth_kept_refl: "auth_kept d d"
  by (rule auth_keptI) simp_all

lemma auth_kept_trans:
  assumes "auth_kept d e" and "auth_kept e f"
  shows "auth_kept d f"
proof -
  have "\<exists>s'' \<in> set (ad_sessions f). session_after s s''" if s: "s \<in> set (ad_sessions d)" for s
  proof -
    obtain s' where s': "s' \<in> set (ad_sessions e)" "session_after s s'" using assms(1) s by (auto simp: auth_kept_def)
    then obtain s'' where "s'' \<in> set (ad_sessions f)" "session_after s' s''" using assms(2) by (auto simp: auth_kept_def)
    with s'(2) show ?thesis by (auto simp: session_after_def)
  qed
  then show ?thesis using assms by (fastforce simp: auth_kept_def)
qed

lemma users_ok_update:
  assumes "users_ok us"
    and "\<And>u. u \<in> set us \<Longrightarrow> P u \<Longrightarrow> au_user_id (f u) = au_user_id u \<and> email_key (f u) = email_key u \<and> user_ok (f u)"
  shows "users_ok (tbl_update P f us) \<and> au_user_id ` set (tbl_update P f us) = au_user_id ` set us"
proof -
  have ids: "map au_user_id (tbl_update P f us) = map au_user_id us" "map email_key (tbl_update P f us) = map email_key us"
    using assms(2) by (auto simp: tbl_update_def)
  moreover have "au_user_id ` set (tbl_update P f us) = au_user_id ` set us"
    using arg_cong [OF ids(1), of set] by simp
  ultimately show ?thesis
    using assms unfolding users_ok_def by (auto simp: set_tbl_update)
qed

text \<open>Updates of sessions.\<close>

lemma sessions_update:
  assumes "auth_wf d" and "\<And>s. P s \<Longrightarrow> session_after s (f s)"
  shows "auth_wf (d\<lparr>ad_sessions := tbl_update P f (ad_sessions d)\<rparr>)"
    and "auth_kept d (d\<lparr>ad_sessions := tbl_update P f (ad_sessions d)\<rparr>)"
proof -
  have "map ss_id_hash (tbl_update P f (ad_sessions d)) = map ss_id_hash (ad_sessions d)"
    using assms(2) by (intro tbl_update_keys) (simp add: session_after_def)
  then show "auth_wf (d\<lparr>ad_sessions := tbl_update P f (ad_sessions d)\<rparr>)"
    using assms by (auto simp: auth_wf_def set_tbl_update session_after_def)
  have "\<exists>s' \<in> set (tbl_update P f (ad_sessions d)). session_after s s'" if "s \<in> set (ad_sessions d)" for s
    using that assms(2) [of s] by (intro bexI [of _ "if P s then f s else s"]) (auto simp: set_tbl_update)
  then show "auth_kept d (d\<lparr>ad_sessions := tbl_update P f (ad_sessions d)\<rparr>)"
    by (simp add: auth_kept_def)
qed

lemma revoke_kept: "auth_wf d \<Longrightarrow> auth_wf (revoke_where P now d) \<and> auth_kept d (revoke_where P now d)"
  unfolding revoke_where_def by (intro conjI sessions_update) (auto simp: session_after_def)

lemma audit_kept: "auth_wf (record_auth_audit e d) = auth_wf d" "auth_kept d (record_auth_audit e d') = auth_kept d d'"
  by (simp_all add: auth_wf_def auth_kept_def record_auth_audit_def)

lemma update_user_kept:
  assumes "auth_wf d"
    and "\<And>u. u \<in> set (ad_users d) \<Longrightarrow> au_user_id (f u) = au_user_id u \<and> email_key (f u) = email_key u \<and> user_ok (f u)"
  shows "auth_wf (update_user uid f d) \<and> auth_kept d (update_user uid f d)"
proof -
  have "users_ok (ad_users d)" using assms(1) by (simp add: auth_wf_def)
  note upd = users_ok_update [OF this, of "\<lambda>u. au_user_id u = uid" f]
  have "auth_kept d (update_user uid f d)" using upd assms(2) by (intro auth_keptI) (auto simp: update_user_def)
  moreover have "auth_wf (update_user uid f d)" using upd assms unfolding auth_wf_def by (simp add: update_user_def)
  ultimately show ?thesis by blast
qed

lemma user_domains: "auth_wf d \<Longrightarrow> u \<in> set (ad_users d) \<Longrightarrow> user_ok u"
  by (simp add: auth_wf_def users_ok_def)

lemma get_auth_user_None: "get_auth_user uid d = None \<longleftrightarrow> uid \<notin> au_user_id ` set (ad_users d)"
  by (auto simp: get_auth_user_def tbl_find_None)

lemma get_auth_user_SomeD: "get_auth_user uid d = Some u \<Longrightarrow> u \<in> set (ad_users d) \<and> au_user_id u = uid"
  by (auto simp: get_auth_user_def dest: tbl_find_SomeD)


subsection \<open>Every operation keeps the tables\<close>

lemma distinct_update_fresh:
  assumes "distinct (map ident us)" and "distinct (map key us)"
    and "\<And>u. u \<in> set us \<Longrightarrow> ident u \<noteq> k \<Longrightarrow> key u \<noteq> x" and "\<And>u. key (f u) = x"
  shows "distinct (map key (tbl_update (\<lambda>u. ident u = k) f us))"
  using assms(1-3)
proof (induction us)
  case (Cons u us)
  have rest: "key (if ident w = k then f w else w) \<noteq> key (if ident u = k then f u else u)" if "w \<in> set us" for w
    using that Cons.prems assms(4) by (cases "ident w = k"; cases "ident u = k") (auto simp: rev_image_eqI)
  have "distinct (map key (tbl_update (\<lambda>u. ident u = k) f us))" using Cons by simp
  moreover have "key (if ident u = k then f u else u) \<notin> set (map key (tbl_update (\<lambda>u. ident u = k) f us))"
    using rest by (force simp: tbl_update_def)
  ultimately show ?case by (simp add: tbl_update_def)
qed (simp add: tbl_update_def)

lemma link_identity_kept:
  assumes "link_identity i now d = Inr d'" and "auth_wf d" and "ai_user_id i \<in> au_user_id ` set (ad_users d)"
  shows "auth_wf d' \<and> auth_kept d d' \<and> ad_users d' = ad_users d \<and> i \<in> set (ad_identities d')"
proof -
  have d': "d' = record_auth_audit (audit ''identity_linked'' (ai_user_id i) (ai_user_id i) [(''provider'', ai_provider i)] now)
        (d\<lparr>ad_identities := ad_identities d @ [i]\<rparr>)" and fresh: "identity_key i \<notin> identity_key ` set (ad_identities d)"
    using assms(1) by (auto simp: link_identity_def split: if_splits)
  have "auth_wf (d\<lparr>ad_identities := ad_identities d @ [i]\<rparr>)" using assms(2,3) fresh by (auto simp: auth_wf_def)
  moreover have "auth_kept d (d\<lparr>ad_identities := ad_identities d @ [i]\<rparr>)" by (rule auth_keptI) auto
  ultimately have "auth_wf d'" "auth_kept d d'" unfolding d' by (simp_all add: audit_kept)
  then show ?thesis unfolding d' by (simp add: record_auth_audit_def)
qed

lemma refresh_kept:
  assumes "auth_wf d" and "\<And>u. u \<in> set (ad_users d) \<Longrightarrow> au_user_id u \<noteq> k \<Longrightarrow> email_key u \<noteq> py_lower email"
  shows "auth_wf (d\<lparr>ad_users := tbl_update (\<lambda>u. au_user_id u = k) (refresh_user email v now) (ad_users d)\<rparr>)
    \<and> auth_kept d (d\<lparr>ad_users := tbl_update (\<lambda>u. au_user_id u = k) (refresh_user email v now) (ad_users d)\<rparr>)"
proof -
  let ?us = "tbl_update (\<lambda>u. au_user_id u = k) (refresh_user email v now) (ad_users d)"
  have ok: "users_ok (ad_users d)" using assms(1) by (simp add: auth_wf_def)
  have ids: "map au_user_id ?us = map au_user_id (ad_users d)"
    by (rule tbl_update_keys) (simp add: refresh_user_def)
  then have idset: "au_user_id ` set ?us = au_user_id ` set (ad_users d)" by (metis set_map)
  have "distinct (map email_key ?us)"
    using ok assms(2) by (intro distinct_update_fresh [where x = "py_lower email"])
      (simp_all add: users_ok_def email_key_def refresh_user_def)
  moreover have "user_ok u" if "u \<in> set ?us" for u
    using that ok by (auto simp: set_tbl_update users_ok_def user_ok_def refresh_user_def)
  ultimately have "users_ok ?us" using ok ids by (simp add: users_ok_def)
  then show ?thesis
    using assms(1) idset by (intro conjI auth_keptI) (simp_all add: auth_wf_def)
qed

lemma merge_kept:
  assumes "auth_wf d"
  shows "auth_wf (update_user k (merge_user v now) d) \<and> auth_kept d (update_user k (merge_user v now) d)"
  using assms by (rule update_user_kept) (use user_domains [OF assms] in \<open>simp add: merge_user_def email_key_def user_ok_def\<close>)

lemma new_user_kept:
  assumes "auth_wf d" and "uid \<notin> au_user_id ` set (ad_users d)"
    and "\<And>u. u \<in> set (ad_users d) \<Longrightarrow> email_key u \<noteq> py_lower email"
  shows "auth_wf (d\<lparr>ad_users := ad_users d @ [new_user uid email v now]\<rparr>)
    \<and> auth_kept d (d\<lparr>ad_users := ad_users d @ [new_user uid email v now]\<rparr>)"
proof -
  have key: "email_key (new_user uid email v now) = py_lower email" by (simp add: new_user_def email_key_def)
  have "py_lower email \<notin> email_key ` set (ad_users d)" using assms(3) by fastforce
  moreover have "user_ok (new_user uid email v now)" "au_user_id (new_user uid email v now) = uid"
    by (simp_all add: user_ok_def new_user_def)
  ultimately show ?thesis
    using assms(1,2) key by (intro conjI auth_keptI) (auto simp: auth_wf_def users_ok_def)
qed

text \<open>What a successful sign-in leaves: its identity is linked to the account it returns.\<close>

lemma upsert_kept:
  assumes "upsert_auth_user fold_text uid iid v now d = Inr (d', u)" and "auth_wf d"
  shows "auth_wf d' \<and> auth_kept d d' \<and> get_auth_user (au_user_id u) d' = Some u
    \<and> (\<exists>i \<in> set (ad_identities d'). identity_key i = (vi_provider v, vi_provider_user_id v) \<and> ai_user_id i = au_user_id u)
    \<and> (\<forall>known. linked_user v d = Some known \<longrightarrow> au_user_id u = au_user_id known)"
proof -
  let ?email = "fold_text (opt_text (vi_email v))"
  have reread: "d' = e \<and> get_auth_user k e = Some u \<and> au_user_id u = k"
    if "(case get_auth_user k e of None \<Rightarrow> Inl (AuthKeyError k) | Some u \<Rightarrow> Inr (e, u)) = Inr (d', u)" for k e
    using that by (auto split: option.splits dest: get_auth_user_SomeD)
  have ne: "?email \<noteq> []" using assms(1) by (auto simp: upsert_auth_user_def Let_def split: if_splits)
  show ?thesis
  proof (cases "linked_user v d")
    case (Some known)
    let ?e = "d\<lparr>ad_users := tbl_update (\<lambda>u. au_user_id u = au_user_id known) (refresh_user ?email v now) (ad_users d)\<rparr>"
    have up: "\<not> list_ex (\<lambda>u. au_user_id u \<noteq> au_user_id known \<and> email_key u = py_lower ?email) (ad_users d)"
      "(case get_auth_user (au_user_id known) ?e of None \<Rightarrow> Inl (AuthKeyError (au_user_id known)) | Some u \<Rightarrow> Inr (?e, u)) = Inr (d', u)"
      using assms(1) ne Some by (simp_all add: upsert_auth_user_def Let_def split: if_splits)
    from reread [OF up(2)] have d': "d' = ?e" "get_auth_user (au_user_id known) ?e = Some u" "au_user_id u = au_user_id known" by auto
    obtain i where i: "i \<in> set (ad_identities d)" "identity_key i = (vi_provider v, vi_provider_user_id v)" "get_auth_user (ai_user_id i) d = Some known"
      using Some by (auto simp: linked_user_def split: option.splits dest!: tbl_find_SomeD)
    then have "ai_user_id i = au_user_id known" using get_auth_user_SomeD by metis
    then show ?thesis
      using refresh_kept [OF assms(2), of "au_user_id known" ?email v now] up(1) d' i Some by (auto simp: list_ex_iff)
  next
    case None
    have linked: "auth_wf d' \<and> auth_kept d d' \<and> get_auth_user (au_user_id u) d' = Some u
        \<and> (\<exists>i \<in> set (ad_identities d'). identity_key i = (vi_provider v, vi_provider_user_id v) \<and> ai_user_id i = au_user_id u)"
      if l: "(case link_identity (new_identity iid k ?email v now) now e of Inl x \<Rightarrow> Inl x
          | Inr d1 \<Rightarrow> (case get_auth_user k d1 of None \<Rightarrow> Inl (AuthKeyError k) | Some u \<Rightarrow> Inr (d1, u))) = Inr (d', u)"
        and e: "auth_wf e \<and> auth_kept d e" "k \<in> au_user_id ` set (ad_users e)" for k e
    proof -
      obtain d1 where d1: "link_identity (new_identity iid k ?email v now) now e = Inr d1"
        "(case get_auth_user k d1 of None \<Rightarrow> Inl (AuthKeyError k) | Some u \<Rightarrow> Inr (d1, u)) = Inr (d', u)"
        using l by (auto split: sum.splits)
      from reread [OF d1(2)] have r: "d' = d1" "get_auth_user k d1 = Some u" "au_user_id u = k" by auto
      have "ai_user_id (new_identity iid k ?email v now) \<in> au_user_id ` set (ad_users e)" using e(2) by (simp add: new_identity_def)
      from link_identity_kept [OF d1(1) conjunct1 [OF e(1)] this] show ?thesis
        using r e(1) auth_kept_trans by (auto simp: new_identity_def identity_key_def intro!: bexI [of _ "new_identity iid k ?email v now"])
    qed
    show ?thesis
    proof (cases "tbl_find (\<lambda>u. email_key u = py_lower ?email) (ad_users d)")
      case fresh: None
      let ?e = "d\<lparr>ad_users := ad_users d @ [new_user uid ?email v now]\<rparr>"
      have id: "uid \<notin> au_user_id ` set (ad_users d)"
        and l: "(case link_identity (new_identity iid uid ?email v now) now ?e of Inl x \<Rightarrow> Inl x
          | Inr d1 \<Rightarrow> (case get_auth_user uid d1 of None \<Rightarrow> Inl (AuthKeyError uid) | Some u \<Rightarrow> Inr (d1, u))) = Inr (d', u)"
        using assms(1) ne None fresh by (simp_all add: upsert_auth_user_def Let_def split: if_splits)
      have "auth_wf ?e \<and> auth_kept d ?e" by (rule new_user_kept [OF assms(2) id]) (use fresh in \<open>simp add: tbl_find_None\<close>)
      from linked [OF l this] None show ?thesis by (simp add: new_user_def)
    next
      case (Some w)
      let ?e = "update_user (au_user_id w) (merge_user v now) d"
      have l: "(case link_identity (new_identity iid (au_user_id w) ?email v now) now ?e of Inl x \<Rightarrow> Inl x
          | Inr d1 \<Rightarrow> (case get_auth_user (au_user_id w) d1 of None \<Rightarrow> Inl (AuthKeyError (au_user_id w)) | Some u \<Rightarrow> Inr (d1, u))) = Inr (d', u)"
        using assms(1) ne None Some by (simp add: upsert_auth_user_def update_user_def Let_def split: if_splits)
      have w: "w \<in> set (ad_users d)" using tbl_find_SomeD [OF Some] by blast
      then have "au_user_id w \<in> au_user_id ` set (ad_users ?e)"
        using merge_kept [OF assms(2), of "au_user_id w" v now] by (auto simp: auth_kept_def)
      from linked [OF l merge_kept [OF assms(2)] this] None show ?thesis by simp
    qed
  qed
qed


lemma status_result:
  "fst (set_auth_user_status uid status actor now d) =
     (if status \<in> {''active'', ''disabled'', ''deletion_pending'', ''deleted''}
      then let d1 = update_user uid (\<lambda>u. u\<lparr>au_status := status, au_updated_at := At now\<rparr>) d
           in record_auth_audit (audit ''user_status_changed'' actor uid [(''status'', status)] now)
                (if status \<noteq> ''active'' then revoke_user_sessions uid now d1 else d1)
      else d)"
  by (simp add: set_auth_user_status_def user_or_key_error_def Let_def)

lemma role_result:
  "fst (set_auth_user_role uid role actor now d) =
     (if role \<in> {''user'', ''admin''} \<and> actor \<noteq> uid
      then record_auth_audit (audit ''role_changed'' actor uid [(''role'', role)] now)
             (revoke_user_sessions uid now (update_user uid (\<lambda>u. u\<lparr>au_role := role, au_updated_at := At now\<rparr>) d))
      else d)"
  by (simp add: set_auth_user_role_def user_or_key_error_def Let_def)

lemma set_status_kept:
  assumes "auth_wf d"
  shows "auth_wf (fst (set_auth_user_status uid status actor now d)) \<and> auth_kept d (fst (set_auth_user_status uid status actor now d))"
proof (cases "status \<in> {''active'', ''disabled'', ''deletion_pending'', ''deleted''}")
  case True
  let ?d1 = "update_user uid (\<lambda>u. u\<lparr>au_status := status, au_updated_at := At now\<rparr>) d"
  have one: "auth_wf ?d1 \<and> auth_kept d ?d1"
    using assms by (rule update_user_kept) (use user_domains [OF assms] True in \<open>auto simp: email_key_def user_ok_def\<close>)
  then have two: "auth_wf (revoke_where P now ?d1) \<and> auth_kept d (revoke_where P now ?d1)" for P
    using revoke_kept [of ?d1 P now] auth_kept_trans [of d ?d1] by blast
  show ?thesis
    unfolding status_result if_P [OF True] Let_def audit_kept revoke_user_sessions_def
    using one two by (cases "status = ''active''") simp_all
qed (use assms auth_kept_refl in \<open>simp add: set_auth_user_status_def\<close>)

lemma set_role_kept:
  assumes "auth_wf d"
  shows "auth_wf (fst (set_auth_user_role uid role actor now d)) \<and> auth_kept d (fst (set_auth_user_role uid role actor now d))"
proof (cases "role \<in> {''user'', ''admin''} \<and> actor \<noteq> uid")
  case True
  let ?d1 = "update_user uid (\<lambda>u. u\<lparr>au_role := role, au_updated_at := At now\<rparr>) d"
  have one: "auth_wf ?d1 \<and> auth_kept d ?d1"
    using assms by (rule update_user_kept) (use user_domains [OF assms] True in \<open>auto simp: email_key_def user_ok_def\<close>)
  then have two: "auth_wf (revoke_where P now ?d1) \<and> auth_kept d (revoke_where P now ?d1)" for P
    using revoke_kept [of ?d1 P now] auth_kept_trans [of d ?d1] by blast
  show ?thesis unfolding role_result if_P [OF True] audit_kept revoke_user_sessions_def by (rule two)
qed (use assms auth_kept_refl in \<open>auto simp: set_auth_user_role_def\<close>)

lemma grant_kept:
  assumes "auth_wf d"
  shows "auth_wf (grant_first_admin uid now d) \<and> auth_kept d (grant_first_admin uid now d)"
proof -
  have "auth_wf (update_user uid (\<lambda>u. u\<lparr>au_role := ''admin'', au_updated_at := At now\<rparr>) d)
      \<and> auth_kept d (update_user uid (\<lambda>u. u\<lparr>au_role := ''admin'', au_updated_at := At now\<rparr>) d)"
    using assms by (rule update_user_kept) (use user_domains [OF assms] in \<open>auto simp: email_key_def user_ok_def\<close>)
  then show ?thesis by (simp add: grant_first_admin_def audit_kept)
qed

lemma create_session_kept:
  assumes "create_session digest sid csrf uid lifetime idle ip ua now d = Inr d'" and "auth_wf d"
  shows "auth_wf d' \<and> auth_kept d d'"
proof -
  let ?row = "new_session digest sid csrf uid lifetime idle ip ua now"
  have d': "d' = d\<lparr>ad_sessions := ad_sessions d @ [?row]\<rparr>"
    and fresh: "digest sid \<notin> ss_id_hash ` set (ad_sessions d)" "uid \<in> au_user_id ` set (ad_users d)"
    using assms(1) by (simp_all add: create_session_def get_auth_user_None split: if_splits)
  have row: "ss_id_hash ?row = digest sid" "ss_user_id ?row = uid" "ss_absolute_expires_at ?row = ss_expires_at ?row"
    by (simp_all add: new_session_def Let_def)
  show ?thesis
    using assms(2) row fresh unfolding d' by (intro conjI auth_keptI) (simp_all add: auth_wf_def ball_Un subset_insertI)
qed

lemma get_session_kept:
  assumes "auth_wf d"
  shows "auth_wf (fst (get_session_user digest sid now d)) \<and> auth_kept d (fst (get_session_user digest sid now d))"
proof (cases "tbl_find (\<lambda>s. ss_id_hash s = digest sid \<and> usable_session now s \<and> get_auth_user (ss_user_id s) d \<noteq> None) (ad_sessions d)")
  case None
  then show ?thesis using assms auth_kept_refl by (simp add: get_session_user_def)
next
  case (Some s)
  have "auth_wf (d\<lparr>ad_sessions := tbl_update P (\<lambda>x. x\<lparr>ss_last_seen_at := At now\<rparr>) (ad_sessions d)\<rparr>)
      \<and> auth_kept d (d\<lparr>ad_sessions := tbl_update P (\<lambda>x. x\<lparr>ss_last_seen_at := At now\<rparr>) (ad_sessions d)\<rparr>)" for P
    using assms by (intro conjI sessions_update) (auto simp: session_after_def)
  then show ?thesis
    using assms revoke_kept [OF assms] Some by (simp add: get_session_user_def revoke_session_def)
qed

lemma auth_step_kept:
  assumes "auth_wf d"
  shows "auth_wf (auth_step digest fold_text x d) \<and> auth_kept d (auth_step digest fold_text x d)"
proof (cases x)
  case (OpUpsert uid iid v now)
  then show ?thesis
    using upsert_kept [OF _ assms] assms auth_kept_refl by (auto split: sum.splits)
next
  case (OpCreate sid csrf uid lifetime idle ip ua now)
  then show ?thesis
    using create_session_kept [OF _ assms] assms auth_kept_refl by (auto simp: or_same_def split: sum.splits)
qed (use assms set_status_kept set_role_kept grant_kept get_session_kept revoke_kept audit_kept auth_kept_refl
  in \<open>auto simp: revoke_session_def revoke_user_sessions_def\<close>)

interpretation accounts: run_order "auth_step digest fold_text" auth_kept auth_wf for digest fold_text
  by unfold_locales (auto intro: auth_kept_refl auth_kept_trans simp: auth_step_kept)

lemma empty_auth_wf: "auth_wf empty_auth_db"
  by (simp add: auth_wf_def users_ok_def empty_auth_db_def)


subsection \<open>Properties\<close>

lemma accounts_reachable_wf: "auth_wf (fold (auth_step digest fold_text) ops empty_auth_db)"
  by (rule accounts.run_inv [OF empty_auth_wf])

text \<open>
  C23. Whatever is called in whatever order, the tables stay well formed: accounts have one row and
  one email (compared without case) each and a known role and status, an identity of a provider is
  linked once, a session identifier is used once, and identities and sessions belong to existing
  accounts.
\<close>

theorem auth_tables_typed:
  "let d = fold (auth_step digest fold_text) ops empty_auth_db
   in distinct (map au_user_id (ad_users d)) \<and> distinct (map email_key (ad_users d)) \<and> list_all user_ok (ad_users d)
      \<and> distinct (map identity_key (ad_identities d)) \<and> distinct (map ss_id_hash (ad_sessions d))
      \<and> ai_user_id ` set (ad_identities d) \<subseteq> au_user_id ` set (ad_users d)
      \<and> ss_user_id ` set (ad_sessions d) \<subseteq> au_user_id ` set (ad_users d)"
  using accounts_reachable_wf [of digest fold_text ops] unfolding Let_def auth_wf_def users_ok_def list_all_iff by blast

text \<open>A session whose identifier has a revoked row is not found.\<close>

definition dead_session :: "(string \<Rightarrow> string) \<Rightarrow> string \<Rightarrow> auth_db \<Rightarrow> bool" where
  "dead_session digest sid d \<longleftrightarrow> (\<exists>s \<in> set (ad_sessions d). ss_id_hash s = digest sid \<and> ss_revoked_at s \<noteq> Never)"

lemma session_unique:
  "auth_wf d \<Longrightarrow> s \<in> set (ad_sessions d) \<Longrightarrow> t \<in> set (ad_sessions d) \<Longrightarrow> ss_id_hash s = ss_id_hash t \<Longrightarrow> s = t"
  unfolding auth_wf_def by (meson distinct_map_key_eq)

lemma dead_session_kept: "dead_session digest sid d \<Longrightarrow> auth_kept d d' \<Longrightarrow> dead_session digest sid d'"
  by (fastforce simp: dead_session_def auth_kept_def session_after_def)

lemma dead_session_refused:
  assumes "auth_wf d" and "dead_session digest sid d"
  shows "get_session_user digest sid now d = (d, None) \<and> \<not> session_csrf_matches digest sid csrf d"
proof -
  obtain s where s: "s \<in> set (ad_sessions d)" "ss_id_hash s = digest sid" "ss_revoked_at s \<noteq> Never"
    using assms(2) by (auto simp: dead_session_def)
  have dead: "ss_revoked_at t \<noteq> Never" if "t \<in> set (ad_sessions d)" "ss_id_hash t = digest sid" for t
    using session_unique [OF assms(1) s(1) that(1)] s that by simp
  have none: "tbl_find (\<lambda>s. ss_id_hash s = digest sid \<and> usable_session now s \<and> get_auth_user (ss_user_id s) d \<noteq> None) (ad_sessions d) = None"
    "tbl_find (\<lambda>s. ss_id_hash s = digest sid \<and> ss_revoked_at s = Never) (ad_sessions d) = None"
    using dead by (auto simp: tbl_find_None usable_session_def)
  show ?thesis unfolding get_session_user_def session_csrf_matches_def none by simp
qed

fun revoking :: "(string \<Rightarrow> string) \<Rightarrow> auth_op \<Rightarrow> auth_session \<Rightarrow> bool" where
  "revoking digest (OpStatus uid status actor now) s \<longleftrightarrow>
     status \<in> {''disabled'', ''deletion_pending'', ''deleted''} \<and> ss_user_id s = uid"
| "revoking digest (OpRole uid role actor now) s \<longleftrightarrow> role \<in> {''user'', ''admin''} \<and> actor \<noteq> uid \<and> ss_user_id s = uid"
| "revoking digest (OpRevoke sid now) s \<longleftrightarrow> ss_id_hash s = digest sid"
| "revoking digest (OpRevokeUser uid now) s \<longleftrightarrow> ss_user_id s = uid"
| "revoking digest _ s \<longleftrightarrow> False"

lemma revoke_where_dead:
  assumes "s \<in> set (ad_sessions d)" and "ss_id_hash s = digest sid" and "P s \<or> ss_revoked_at s \<noteq> Never"
  shows "dead_session digest sid (revoke_where P now d)"
  using assms unfolding dead_session_def revoke_where_def
  by (intro bexI [of _ "if P s then s\<lparr>ss_revoked_at := At now\<rparr> else s"]) (auto simp: set_tbl_update)

lemma audit_dead [simp]: "dead_session digest sid (record_auth_audit e d) = dead_session digest sid d"
  by (simp add: dead_session_def record_auth_audit_def)

lemma revoking_dead:
  assumes "s \<in> set (ad_sessions d)" and "ss_id_hash s = digest sid" and "revoking digest x s"
  shows "dead_session digest sid (auth_step digest fold_text x d)"
proof -
  have user: "dead_session digest sid (revoke_user_sessions (ss_user_id s) now e)" if "ad_sessions e = ad_sessions d" for now e
    unfolding revoke_user_sessions_def using assms(1,2) that by (intro revoke_where_dead [of s]) auto
  show ?thesis
  proof (cases x)
    case (OpStatus uid status actor now)
    then have st: "status \<in> {''active'', ''disabled'', ''deletion_pending'', ''deleted''}" "status \<noteq> ''active''" and uid: "uid = ss_user_id s"
      using assms(3) by auto
    show ?thesis
      unfolding OpStatus auth_step.simps status_result if_P [OF st(1)] if_P [OF st(2)] Let_def audit_dead uid
      by (rule user) (simp add: update_user_def)
  next
    case (OpRole uid role actor now)
    then have r: "role \<in> {''user'', ''admin''} \<and> actor \<noteq> uid" and uid: "uid = ss_user_id s" using assms(3) by auto
    show ?thesis
      unfolding OpRole auth_step.simps role_result if_P [OF r] audit_dead
      using user [of "update_user uid (\<lambda>u. u\<lparr>au_role := role, au_updated_at := At now\<rparr>) d" now] uid by (simp add: update_user_def)
  next
    case (OpRevoke sid' now)
    then show ?thesis using assms unfolding revoke_session_def by (auto simp: revoke_session_def intro: revoke_where_dead [of s])
  next
    case (OpRevokeUser uid now)
    then show ?thesis using user [of d now] assms(3) by simp
  qed (use assms(3) in simp_all)
qed

text \<open>
  C24. A revoked session stays revoked: once a session is logged out, all sessions of its account are
  logged out, the account loses its active status or changes its role, no later call accepts the
  session's identifier again, neither as a sign-in nor for its CSRF token; not even when the account
  is activated again or the same identifier is drawn for a new session.
\<close>

theorem revoked_sessions_stay_dead:
  assumes "d = fold (auth_step digest fold_text) earlier empty_auth_db"
    and "s \<in> set (ad_sessions d)" and "ss_id_hash s = digest sid" and "revoking digest x s"
  shows "snd (get_session_user digest sid now (fold (auth_step digest fold_text) later (auth_step digest fold_text x d))) = None
    \<and> \<not> session_csrf_matches digest sid csrf (fold (auth_step digest fold_text) later (auth_step digest fold_text x d))"
proof -
  let ?d1 = "auth_step digest fold_text x d"
  have wf: "auth_wf ?d1" using accounts_reachable_wf auth_step_kept assms(1) by blast
  have "dead_session digest sid ?d1" using assms(2-4) by (rule revoking_dead)
  then have "dead_session digest sid (fold (auth_step digest fold_text) later ?d1)"
    using accounts.run_ord [OF wf] by (rule dead_session_kept)
  from dead_session_refused [OF accounts.run_inv [OF wf] this] show ?thesis by simp
qed

text \<open>
  A session lives no longer than it was given: whatever happens after it was created, it is
  accepted only for its own account, before its lifetime has passed, and when its last use is not
  longer ago than its idle time.
\<close>

theorem session_lifetime_bounded:
  assumes "create_session digest sid csrf uid lifetime idle ip ua start (fold (auth_step digest fold_text) earlier empty_auth_db) = Inr d1"
    and "get_session_user digest sid now (fold (auth_step digest fold_text) later d1) = (d2, Some (u, s))"
  shows "au_user_id u = uid \<and> now < start + microseconds lifetime \<and> ss_revoked_at s = Never
    \<and> (\<exists>seen. ss_last_seen_at s = At seen \<and> now \<le> seen + microseconds idle) \<and> 0 < idle"
proof -
  let ?e = "fold (auth_step digest fold_text) later d1"
  let ?row = "new_session digest sid csrf uid lifetime idle ip ua start"
  have wf1: "auth_wf d1" using create_session_kept [OF assms(1) accounts_reachable_wf] by blast
  have "?row \<in> set (ad_sessions d1)" using assms(1) by (auto simp: create_session_def split: if_splits)
  then obtain t where t: "t \<in> set (ad_sessions ?e)" "session_after ?row t"
    using accounts.run_ord [OF wf1, of digest fold_text later] by (auto simp: auth_kept_def)
  have found: "tbl_find (\<lambda>s. ss_id_hash s = digest sid \<and> usable_session now s \<and> get_auth_user (ss_user_id s) ?e \<noteq> None) (ad_sessions ?e) = Some s"
    "\<not> idle_expired now s" "get_auth_user (ss_user_id s) ?e = Some u"
    using assms(2) by (auto simp: get_session_user_def split: option.splits if_splits)
  have s: "s \<in> set (ad_sessions ?e)" "ss_id_hash s = digest sid" "usable_session now s" using tbl_find_SomeD [OF found(1)] by auto
  have "ss_id_hash t = digest sid" using t(2) by (simp add: session_after_def new_session_def Let_def)
  then have "s = t" using session_unique [OF accounts.run_inv [OF wf1] s(1) t(1)] s(2) by simp
  then have "ss_user_id s = uid" "ss_expires_at s = At (start + microseconds lifetime)" "ss_idle_seconds s = idle"
    using t(2) by (simp_all add: session_after_def new_session_def Let_def)
  then show ?thesis
    using s(3) found(2) get_auth_user_SomeD [OF found(3)]
    by (auto simp: usable_session_def idle_expired_def split: stamp.splits)
qed

text \<open>
  An identity keeps its account: whoever signs in again with the same provider and provider id,
  after anything else has happened and under any email, either is refused or reaches the same account.
\<close>

theorem identity_keeps_account:
  assumes "upsert_auth_user fold_text uid iid v t (fold (auth_step digest fold_text) earlier empty_auth_db) = Inr (d1, u)"
    and "upsert_auth_user fold_text uid' iid' v' t' (fold (auth_step digest fold_text) later d1) = Inr (d2, u')"
    and "vi_provider v' = vi_provider v" and "vi_provider_user_id v' = vi_provider_user_id v"
  shows "au_user_id u' = au_user_id u"
proof -
  let ?e = "fold (auth_step digest fold_text) later d1"
  note one = upsert_kept [OF assms(1) accounts_reachable_wf]
  then obtain i where i: "i \<in> set (ad_identities d1)" "identity_key i = (vi_provider v, vi_provider_user_id v)" "ai_user_id i = au_user_id u"
    by blast
  have wf1: "auth_wf d1" using one by blast
  have wf: "auth_wf ?e" using wf1 by (rule accounts.run_inv)
  have "i \<in> set (ad_identities ?e)" using accounts.run_ord [OF wf1, of digest fold_text later] i(1) by (auto simp: auth_kept_def)
  moreover have "get_auth_user (ai_user_id i) ?e \<noteq> None"
    using wf calculation by (auto simp: auth_wf_def get_auth_user_None)
  ultimately have "tbl_find (\<lambda>j. identity_key j = (vi_provider v', vi_provider_user_id v') \<and> get_auth_user (ai_user_id j) ?e \<noteq> None)
      (ad_identities ?e) = Some i"
    using wf i(2) assms(3,4) by (intro tbl_find_unique [of identity_key]) (auto simp: auth_wf_def)
  then have "linked_user v' ?e = get_auth_user (ai_user_id i) ?e" by (simp add: linked_user_def)
  with \<open>get_auth_user (ai_user_id i) ?e \<noteq> None\<close> obtain known where "linked_user v' ?e = Some known" "au_user_id known = au_user_id u"
    using get_auth_user_SomeD i(3) by fastforce
  then show ?thesis using upsert_kept [OF assms(2) wf] by auto
qed


subsection \<open>Examples\<close>

definition sample_identity :: "string \<Rightarrow> string \<Rightarrow> verified_identity" where
  "sample_identity pid email = \<lparr>vi_provider_user_id = pid, vi_email = Some email, vi_email_verified = True,
     vi_provider = ''firebase'', vi_display_name = None\<rparr>"

definition sample_accounts :: "auth_op list" where
  "sample_accounts = [OpUpsert ''u1'' ''i1'' (sample_identity ''p1'' ''a@x'') 0, OpUpsert ''u2'' ''i2'' (sample_identity ''p2'' ''b@x'') 0,
     OpCreate ''sid'' ''csrf'' ''u1'' 3600 900 [] [] 0]"

definition sample_db :: auth_db where
  "sample_db = fold (auth_step (\<lambda>x. x) py_lower) sample_accounts empty_auth_db"

lemma revoked_sessions_stay_dead_witness:
  "snd (get_session_user (\<lambda>x. x) ''sid'' 10 (fold (auth_step (\<lambda>x. x) py_lower)
      [OpStatus ''u1'' ''active'' ''u2'' 6, OpCreate ''sid'' ''csrf'' ''u1'' 3600 900 [] [] 7]
      (auth_step (\<lambda>x. x) py_lower (OpStatus ''u1'' ''disabled'' ''u2'' 5) sample_db))) = None"
proof -
  have row: "new_session (\<lambda>x. x) ''sid'' ''csrf'' ''u1'' 3600 900 [] [] 0 \<in> set (ad_sessions sample_db)" by code_simp
  have "revoking (\<lambda>x. x) (OpStatus ''u1'' ''disabled'' ''u2'' 5) (new_session (\<lambda>x. x) ''sid'' ''csrf'' ''u1'' 3600 900 [] [] 0)"
    "ss_id_hash (new_session (\<lambda>x. x) ''sid'' ''csrf'' ''u1'' 3600 900 [] [] 0) = (\<lambda>x. x) ''sid''" by code_simp+
  from revoked_sessions_stay_dead [OF sample_db_def row this(2) this(1)] show ?thesis by blast
qed

lemma session_lifetime_bounded_witness:
  "\<exists>d1 d2 u s. create_session (\<lambda>x. x) ''sid'' ''csrf'' ''u1'' 3600 900 [] [] 0
        (fold (auth_step (\<lambda>x. x) py_lower) (take 2 sample_accounts) empty_auth_db) = Inr d1
     \<and> get_session_user (\<lambda>x. x) ''sid'' 10 d1 = (d2, Some (u, s)) \<and> au_user_id u = ''u1'' \<and> 10 < microseconds 3600"
proof -
  let ?r = "create_session (\<lambda>x. x) ''sid'' ''csrf'' ''u1'' 3600 900 [] [] 0 (fold (auth_step (\<lambda>x. x) py_lower) (take 2 sample_accounts) empty_auth_db)"
  have "\<not> isl ?r \<and> snd (get_session_user (\<lambda>x. x) ''sid'' 10 (projr ?r)) \<noteq> None" by code_simp
  then obtain d1 d2 u s where r: "?r = Inr d1" "get_session_user (\<lambda>x. x) ''sid'' 10 d1 = (d2, Some (u, s))"
    by (cases ?r; cases "get_session_user (\<lambda>x. x) ''sid'' 10 (projr ?r)") auto
  have "get_session_user (\<lambda>x. x) ''sid'' 10 (fold (auth_step (\<lambda>x. x) py_lower) [] d1) = (d2, Some (u, s))" using r(2) by simp
  from session_lifetime_bounded [OF r(1) this] r show ?thesis by auto
qed

lemma identity_keeps_account_witness:
  "\<exists>d1 d2 u u'. upsert_auth_user py_lower ''u1'' ''i1'' (sample_identity ''p1'' ''a@x'') 0 empty_auth_db = Inr (d1, u)
     \<and> upsert_auth_user py_lower ''u9'' ''i9'' (sample_identity ''p1'' ''c@x'') 5 d1 = Inr (d2, u') \<and> au_user_id u' = au_user_id u"
proof -
  let ?r = "upsert_auth_user py_lower ''u1'' ''i1'' (sample_identity ''p1'' ''a@x'') 0 (fold (auth_step (\<lambda>x. x) py_lower) [] empty_auth_db)"
  have "\<not> isl ?r \<and> \<not> isl (upsert_auth_user py_lower ''u9'' ''i9'' (sample_identity ''p1'' ''c@x'') 5 (fst (projr ?r)))" by code_simp
  then obtain d1 u d2 u' where r: "?r = Inr (d1, u)"
    "upsert_auth_user py_lower ''u9'' ''i9'' (sample_identity ''p1'' ''c@x'') 5 d1 = Inr (d2, u')"
    by (cases ?r; cases "upsert_auth_user py_lower ''u9'' ''i9'' (sample_identity ''p1'' ''c@x'') 5 (fst (projr ?r))") auto
  have "upsert_auth_user py_lower ''u9'' ''i9'' (sample_identity ''p1'' ''c@x'') 5 (fold (auth_step (\<lambda>x. x) py_lower) [] d1) = Inr (d2, u')"
    using r(2) by simp
  from identity_keeps_account [OF r(1) this] r show ?thesis by (auto simp: sample_identity_def)
qed

text \<open>
  Two sign-ins collide when the email of a known identity has changed to that of another account:
  the unique index raises inside the update, and the server has no handler for it.
\<close>

lemma email_collision_raises:
  assumes "auth_wf d" and "linked_user v d = Some known" and "other \<in> set (ad_users d)"
    and "au_user_id other \<noteq> au_user_id known" and "fold_text (opt_text (vi_email v)) \<noteq> []"
    and "email_key other = py_lower (fold_text (opt_text (vi_email v)))"
  shows "upsert_auth_user fold_text uid iid v now d = Inl (AuthIntegrityError ''auth_users.normalized_email'')"
  using assms unfolding upsert_auth_user_def Let_def by (auto simp: list_ex_iff)

end
