(* ===== verification/Auth_Api.thy ===== *)
theory Auth_Api
  imports Auth_Accounts Guest_Jobs Worker_Api "HOL-Library.AList"
begin

text \<open>
  The endpoints of \<open>pdfword/worker_api.py\<close> that sign users in and out and administer accounts
  (\<open>/auth/session\<close>, \<open>/auth/streamlit/bridge\<close>, \<open>/auth/me\<close>, \<open>/auth/logout\<close>,
  \<open>/auth/logout-all\<close>, \<open>/auth/delete-account\<close>, \<open>/admin/bootstrap\<close>, \<open>/admin/users\<close> and the
  changes of role and status), with the dependencies \<open>_require_user\<close> and \<open>_require_csrf\<close>. The
  verification of a bearer token is the argument \<open>verify\<close>; random values come with the request.
\<close>

subsection \<open>State, requests and answers\<close>

record profile =
  pf_user_id :: string
  pf_email :: string
  pf_email_verified :: bool
  pf_display_name :: string
  pf_role :: string
  pf_status :: string

definition public_profile :: "auth_user \<Rightarrow> profile" where
  "public_profile u = \<lparr>pf_user_id = au_user_id u, pf_email = au_email u, pf_email_verified = au_email_verified u,
     pf_display_name = au_display_name u, pf_role = au_role u, pf_status = au_status u\<rparr>"

record bridge =
  br_session_id :: string
  br_csrf :: string
  br_expires_at :: instant
  br_user :: profile

text \<open>The bridges are a dictionary of the process, in insertion order.\<close>

record api =
  ap_auth :: auth_db
  ap_usage :: guest_db
  ap_bridges :: "(string \<times> bridge) list"

text \<open>The environment, as the code reads it before clamping.\<close>

record auth_config =
  ac_require_verified :: bool
  ac_lifetime :: int
  ac_idle :: int
  ac_bootstrap_token :: string
  ac_admin_limit :: int

record draws =
  dr_user_id :: string
  dr_identity_id :: string
  dr_session_id :: string
  dr_csrf :: string
  dr_bridge :: string

datatype auth_request =
  AExchange "string option" "string option" bool string string draws
| ABridge string
| AMe "string option"
| ALogout "string option" "string option"
| ALogoutAll "string option" "string option"
| ADelete "string option" "string option"
| ABootstrap "string option" "string option" "string option"
| AUsers "string option"
| ARole "string option" "string option" string string
| AStatus "string option" "string option" string string

datatype auth_answer =
  Signed profile string string instant "(string \<times> instant) option"
| Bridged string string profile
| Profile profile
| Done
| Users "auth_user list"

subsection \<open>Helpers\<close>

definition session_lifetime_seconds :: "auth_config \<Rightarrow> int" where
  "session_lifetime_seconds cfg = max 300 (ac_lifetime cfg)"

definition hash_signal :: "(string \<Rightarrow> string) \<Rightarrow> string \<Rightarrow> string" where
  "hash_signal digest v = (if v \<noteq> [] then take 16 (digest v) else [])"

definition user_id_ok :: "string \<Rightarrow> bool" where
  "user_id_ok v \<longleftrightarrow> v \<noteq> [] \<and> length v \<le> 128 \<and> list_all (\<lambda>c. let n = (of_char c :: nat) in
     (65 \<le> n \<and> n \<le> 90) \<or> (97 \<le> n \<and> n \<le> 122) \<or> (48 \<le> n \<and> n \<le> 57) \<or> n = 95 \<or> n = 45) v"

text \<open>\<open>hmac.compare_digest\<close> on texts: it raises on a character outside ASCII.\<close>

definition is_ascii :: "string \<Rightarrow> bool" where
  "is_ascii s \<longleftrightarrow> list_all (\<lambda>c. (of_char c :: nat) < 128) s"

definition on_auth :: "(auth_db \<Rightarrow> auth_db) \<Rightarrow> api \<Rightarrow> api" where
  "on_auth f s = s\<lparr>ap_auth := f (ap_auth s)\<rparr>"

definition create_streamlit_auth_bridge :: "string \<Rightarrow> string \<Rightarrow> string \<Rightarrow> profile \<Rightarrow> instant \<Rightarrow> api \<Rightarrow> api" where
  "create_streamlit_auth_bridge token sid csrf user now s =
     s\<lparr>ap_bridges := AList.update token \<lparr>br_session_id = sid, br_csrf = csrf,
          br_expires_at = now + microseconds 60, br_user = user\<rparr> (ap_bridges s)\<rparr>"

definition pop_streamlit_auth_bridge :: "string \<Rightarrow> instant \<Rightarrow> api \<Rightarrow> api \<times> bridge option" where
  "pop_streamlit_auth_bridge token now s =
     (let live = filter (\<lambda>(k, b). now < br_expires_at b) (ap_bridges s)
      in (s\<lparr>ap_bridges := AList.delete token live\<rparr>, map_of live token))"

subsection \<open>Who is asking\<close>

definition require_user ::
  "(string \<Rightarrow> string) \<Rightarrow> string option \<Rightarrow> instant \<Rightarrow> api \<Rightarrow> api \<times> (auth_user \<times> string) response" where
  "require_user digest cookie now s =
     (if opt_text cookie = [] then (s, Http 401 ''Authentication required'')
      else let (d, found) = get_session_user digest (opt_text cookie) now (ap_auth s); s1 = s\<lparr>ap_auth := d\<rparr>
           in case found of
                None \<Rightarrow> (s1, Http 401 ''Authentication required'')
              | Some (u, row) \<Rightarrow>
                  if au_status u \<noteq> ''active'' then (s1, Http 403 ''Account is not active'')
                  else (s1, Reply (u, opt_text cookie)))"

definition require_csrf ::
  "(string \<Rightarrow> string) \<Rightarrow> string option \<Rightarrow> string option \<Rightarrow> instant \<Rightarrow> api \<Rightarrow> api \<times> (auth_user \<times> string) response" where
  "require_csrf digest cookie csrf now s =
     (case require_user digest cookie now s of
        (s1, Http code msg) \<Rightarrow> (s1, Http code msg)
      | (s1, Reply (u, sid)) \<Rightarrow>
          if session_csrf_matches digest sid csrf (ap_auth s1) then (s1, Reply (u, sid))
          else (s1, Http 403 ''CSRF validation failed''))"

text \<open>An endpoint behind a dependency.\<close>

definition behind ::
  "api \<times> 'a response \<Rightarrow> ('a \<Rightarrow> api \<Rightarrow> api \<times> 'b response) \<Rightarrow> api \<times> 'b response" where
  "behind r k = (case r of (s, Http code msg) \<Rightarrow> (s, Http code msg) | (s, Reply a) \<Rightarrow> k a s)"

definition consume_admin_action_quota :: "auth_config \<Rightarrow> auth_user \<Rightarrow> instant \<Rightarrow> api \<Rightarrow> api \<times> unit response" where
  "consume_admin_action_quota cfg u now s =
     (let (g, ok) = consume_window_quota ''admin'' (au_user_id u) ''admin_action'' (ac_admin_limit cfg) 60 now (ap_usage s)
      in (s\<lparr>ap_usage := g\<rparr>, if ok then Reply () else Http 429 ''Admin action limit exceeded''))"

subsection \<open>Endpoints\<close>

text \<open>A sign-in after the account is known: the old session is revoked and a new one is issued.\<close>

definition issue_session ::
  "auth_config \<Rightarrow> (string \<Rightarrow> string) \<Rightarrow> auth_user \<Rightarrow> string \<Rightarrow> string option \<Rightarrow> bool \<Rightarrow> string \<Rightarrow> string \<Rightarrow> draws \<Rightarrow> instant
    \<Rightarrow> api \<Rightarrow> api \<times> auth_answer response" where
  "issue_session cfg digest u provider cookie bridge ip agent dr now s =
     (let s1 = (if opt_text cookie \<noteq> [] then on_auth (revoke_session digest (opt_text cookie) now) s else s);
          expires = now + microseconds (session_lifetime_seconds cfg);
          login = (audit ''login_success'' (au_user_id u) (au_user_id u) [(''provider'', provider)] now)
                    \<lparr>ev_ip_hash := hash_signal digest ip\<rparr>
      in case create_session digest (dr_session_id dr) (dr_csrf dr) (au_user_id u) (session_lifetime_seconds cfg)
                (max 60 (ac_idle cfg)) (hash_signal digest ip) (hash_signal digest agent) now (ap_auth s1) of
           Inl _ \<Rightarrow> (s1, internal_error)
         | Inr d \<Rightarrow>
             let s2 = s1\<lparr>ap_auth := record_auth_audit login d\<rparr>
             in (if bridge then create_streamlit_auth_bridge (dr_bridge dr) (dr_session_id dr) (dr_csrf dr) (public_profile u) now s2
                 else s2,
                 Reply (Signed (public_profile u) (dr_csrf dr) (dr_session_id dr) expires
                   (if bridge then Some (dr_bridge dr, now + microseconds 60) else None))))"

definition exchange_auth_session ::
  "auth_config \<Rightarrow> (string \<Rightarrow> verified_identity option) \<Rightarrow> (string \<Rightarrow> string) \<Rightarrow> (string \<Rightarrow> string) \<Rightarrow> string option
    \<Rightarrow> string option \<Rightarrow> bool \<Rightarrow> string \<Rightarrow> string \<Rightarrow> draws \<Rightarrow> instant \<Rightarrow> api \<Rightarrow> api \<times> auth_answer response" where
  "exchange_auth_session cfg verify digest fold_text authorization cookie bridge ip agent dr now s =
     (if \<not> has_prefix ''Bearer '' (opt_text authorization) then (s, Http 401 ''Bearer token required'')
      else case verify (py_strip (drop 7 (opt_text authorization))) of
        None \<Rightarrow> (s, Http 401 ''Invalid identity'')
      | Some v \<Rightarrow>
          if ac_require_verified cfg \<and> \<not> vi_email_verified v then (s, Http 401 ''Invalid identity'')
          else (case upsert_auth_user fold_text (dr_user_id dr) (dr_identity_id dr) v now (ap_auth s) of
            Inl (AuthPermissionError _) \<Rightarrow> (s, Http 403 ''Account is not active'')
          | Inl _ \<Rightarrow> (s, internal_error)
          | Inr (d, u) \<Rightarrow>
              if au_status u \<noteq> ''active'' then (s\<lparr>ap_auth := d\<rparr>, Http 403 ''Account is not active'')
              else issue_session cfg digest u (vi_provider v) cookie bridge ip agent dr now (s\<lparr>ap_auth := d\<rparr>)))"

definition consume_streamlit_auth_bridge ::
  "(string \<Rightarrow> string) \<Rightarrow> string \<Rightarrow> instant \<Rightarrow> api \<Rightarrow> api \<times> auth_answer response" where
  "consume_streamlit_auth_bridge digest token now s =
     (let (s1, found) = pop_streamlit_auth_bridge token now s
      in case found of
           None \<Rightarrow> (s1, Http 401 ''Invalid auth bridge token'')
         | Some b \<Rightarrow>
             let (d, session) = get_session_user digest (br_session_id b) now (ap_auth s1)
             in (s1\<lparr>ap_auth := d\<rparr>, if session = None then Http 401 ''Invalid auth bridge token''
                  else Reply (Bridged (br_session_id b) (br_csrf b) (br_user b))))"

definition auth_logout :: "(string \<Rightarrow> string) \<Rightarrow> instant \<Rightarrow> auth_user \<times> string \<Rightarrow> api \<Rightarrow> api \<times> auth_answer response" where
  "auth_logout digest now = (\<lambda>(u, sid) s.
     (on_auth (record_auth_audit (audit ''logout'' (au_user_id u) (au_user_id u) [] now))
        (on_auth (revoke_session digest sid now) s), Reply Done))"

definition auth_logout_all :: "instant \<Rightarrow> auth_user \<times> string \<Rightarrow> api \<Rightarrow> api \<times> auth_answer response" where
  "auth_logout_all now = (\<lambda>(u, sid) s.
     (on_auth (record_auth_audit (audit ''logout_all'' (au_user_id u) (au_user_id u) [] now))
        (on_auth (revoke_user_sessions (au_user_id u) now) s), Reply Done))"

definition auth_delete_account :: "instant \<Rightarrow> auth_user \<times> string \<Rightarrow> api \<Rightarrow> api \<times> auth_answer response" where
  "auth_delete_account now = (\<lambda>(u, sid) s.
     (case set_auth_user_status (au_user_id u) ''deletion_pending'' (au_user_id u) now (ap_auth s) of
        (d, Inl _) \<Rightarrow> (s\<lparr>ap_auth := d\<rparr>, internal_error)
      | (d, Inr updated) \<Rightarrow>
          (on_auth (record_auth_audit (audit ''account_deletion_requested'' (au_user_id u) (au_user_id u) [] now))
             (s\<lparr>ap_auth := d\<rparr>), Reply (Profile (public_profile updated)))))"

text \<open>The checks of the bootstrap are reads; the promotion is a transaction of its own.\<close>

definition bootstrap_check :: "auth_config \<Rightarrow> string option \<Rightarrow> auth_db \<Rightarrow> unit response" where
  "bootstrap_check cfg token d =
     (if ac_bootstrap_token cfg = [] \<or> opt_text token = [] then Http 403 ''Bootstrap not allowed''
      else if \<not> is_ascii (ac_bootstrap_token cfg) \<or> \<not> is_ascii (opt_text token) then internal_error
      else if ac_bootstrap_token cfg \<noteq> opt_text token then Http 403 ''Bootstrap not allowed''
      else if 0 < admin_count d then Http 409 ''Admin already exists''
      else Reply ())"

definition bootstrap_write :: "auth_user \<Rightarrow> instant \<Rightarrow> auth_db \<Rightarrow> auth_db" where
  "bootstrap_write u now d = revoke_user_sessions (au_user_id u) now (grant_first_admin (au_user_id u) now d)"

definition admin_bootstrap ::
  "auth_config \<Rightarrow> string option \<Rightarrow> instant \<Rightarrow> auth_user \<times> string \<Rightarrow> api \<Rightarrow> api \<times> auth_answer response" where
  "admin_bootstrap cfg token now = (\<lambda>(u, sid) s.
     behind (consume_admin_action_quota cfg u now s) (\<lambda>_ s1.
       case bootstrap_check cfg token (ap_auth s1) of
         Http code msg \<Rightarrow> (s1, Http code msg)
       | Reply _ \<Rightarrow>
           let s2 = on_auth (bootstrap_write u now) s1
           in (s2, case get_auth_user (au_user_id u) (ap_auth s2) of
                 None \<Rightarrow> Http 404 ''User not found'' | Some w \<Rightarrow> Reply (Profile (public_profile w)))))"

definition admin_users :: "(string \<Rightarrow> string) \<Rightarrow> instant \<Rightarrow> auth_user \<times> string \<Rightarrow> api \<Rightarrow> api \<times> auth_answer response" where
  "admin_users fold_text now = (\<lambda>(u, sid) s.
     if au_role u \<noteq> ''admin'' then (s, Http 403 ''Admin role required'')
     else let s1 = on_auth (record_auth_audit (audit ''admin_user_search'' (au_user_id u) [] [] now)) s
          in (s1, Reply (Users (list_auth_users fold_text [] (ap_auth s1)))))"

text \<open>The body of a change is validated before the endpoint runs.\<close>

definition admin_change ::
  "auth_config \<Rightarrow> (string \<Rightarrow> instant \<Rightarrow> auth_db \<Rightarrow> auth_db \<times> (auth_error + auth_user)) \<Rightarrow> string \<Rightarrow> instant
    \<Rightarrow> auth_user \<times> string \<Rightarrow> api \<Rightarrow> api \<times> auth_answer response" where
  "admin_change cfg change uid now = (\<lambda>(actor, sid) s.
     if \<not> user_id_ok uid then (s, Http 400 ''Invalid user ID'')
     else if au_role actor \<noteq> ''admin'' then (s, Http 403 ''Admin role required'')
     else behind (consume_admin_action_quota cfg actor now s) (\<lambda>_ s1.
       let (d, result) = change (au_user_id actor) now (ap_auth s1); s2 = s1\<lparr>ap_auth := d\<rparr>
       in (s2, case result of
             Inr u \<Rightarrow> Reply (Profile (public_profile u))
           | Inl (AuthPermissionError msg) \<Rightarrow> Http 403 msg
           | Inl (AuthKeyError _) \<Rightarrow> Http 404 ''User not found''
           | Inl _ \<Rightarrow> internal_error)))"

definition admin_change_role ::
  "auth_config \<Rightarrow> string \<Rightarrow> string \<Rightarrow> instant \<Rightarrow> auth_user \<times> string \<Rightarrow> api \<Rightarrow> api \<times> auth_answer response" where
  "admin_change_role cfg uid role now = (\<lambda>actor s.
     if role \<notin> {''user'', ''admin''} then (s, Http 422 ''role'')
     else admin_change cfg (\<lambda>actor now. set_auth_user_role uid role actor now) uid now actor s)"

definition admin_change_status ::
  "auth_config \<Rightarrow> string \<Rightarrow> string \<Rightarrow> instant \<Rightarrow> auth_user \<times> string \<Rightarrow> api \<Rightarrow> api \<times> auth_answer response" where
  "admin_change_status cfg uid status now = (\<lambda>actor s.
     if status \<notin> {''active'', ''disabled'', ''deletion_pending'', ''deleted''} then (s, Http 422 ''status'')
     else admin_change cfg (\<lambda>actor now. set_auth_user_status uid status actor now) uid now actor s)"

fun serve_auth ::
  "auth_config \<Rightarrow> (string \<Rightarrow> verified_identity option) \<Rightarrow> (string \<Rightarrow> string) \<Rightarrow> (string \<Rightarrow> string)
    \<Rightarrow> auth_request \<Rightarrow> instant \<Rightarrow> api \<Rightarrow> api \<times> auth_answer response" where
  "serve_auth cfg verify digest fold_text (AExchange authorization cookie bridge ip agent dr) now s =
     exchange_auth_session cfg verify digest fold_text authorization cookie bridge ip agent dr now s"
| "serve_auth cfg verify digest fold_text (ABridge token) now s = consume_streamlit_auth_bridge digest token now s"
| "serve_auth cfg verify digest fold_text (AMe cookie) now s =
     behind (require_user digest cookie now s) (\<lambda>(u, sid) s1. (s1, Reply (Profile (public_profile u))))"
| "serve_auth cfg verify digest fold_text (ALogout cookie csrf) now s =
     behind (require_csrf digest cookie csrf now s) (auth_logout digest now)"
| "serve_auth cfg verify digest fold_text (ALogoutAll cookie csrf) now s =
     behind (require_csrf digest cookie csrf now s) (auth_logout_all now)"
| "serve_auth cfg verify digest fold_text (ADelete cookie csrf) now s =
     behind (require_csrf digest cookie csrf now s) (auth_delete_account now)"
| "serve_auth cfg verify digest fold_text (ABootstrap cookie csrf token) now s =
     behind (require_csrf digest cookie csrf now s) (admin_bootstrap cfg token now)"
| "serve_auth cfg verify digest fold_text (AUsers cookie) now s =
     behind (require_user digest cookie now s) (admin_users fold_text now)"
| "serve_auth cfg verify digest fold_text (ARole cookie csrf uid role) now s =
     behind (require_csrf digest cookie csrf now s) (admin_change_role cfg uid role now)"
| "serve_auth cfg verify digest fold_text (AStatus cookie csrf uid status) now s =
     behind (require_csrf digest cookie csrf now s) (admin_change_status cfg uid status now)"


subsection \<open>Who becomes an administrator\<close>

definition admins :: "auth_db \<Rightarrow> string set" where
  "admins d = set (map au_user_id (filter (\<lambda>u. au_role u = ''admin'') (ad_users d)))"

lemma admins_users: "ad_users d' = ad_users d \<Longrightarrow> admins d' = admins d"
  by (simp add: admins_def)

lemma users_same [simp]:
  "ad_users (record_auth_audit e d) = ad_users d" "ad_users (revoke_where P now d) = ad_users d"
  "ad_users (revoke_session digest sid now d) = ad_users d" "ad_users (revoke_user_sessions uid now d) = ad_users d"
  by (simp_all add: record_auth_audit_def revoke_where_def revoke_session_def revoke_user_sessions_def)

lemma users_get_session [simp]: "ad_users (fst (get_session_user digest sid now d)) = ad_users d"
proof (cases "tbl_find (\<lambda>s. ss_id_hash s = digest sid \<and> usable_session now s \<and> get_auth_user (ss_user_id s) d \<noteq> None) (ad_sessions d)")
  case (Some s)
  then show ?thesis unfolding get_session_user_def by (cases "idle_expired now s") simp_all
qed (simp add: get_session_user_def)

lemma admins_same [simp]:
  "admins (record_auth_audit e d) = admins d" "admins (revoke_where P now d) = admins d"
  "admins (revoke_session digest sid now d) = admins d" "admins (revoke_user_sessions uid now d) = admins d"
  "admins (fst (get_session_user digest sid now d)) = admins d"
  by (rule admins_users, simp)+

lemma admins_create: "create_session digest sid csrf uid lifetime idle ip ua now d = Inr d' \<Longrightarrow> admins d' = admins d"
  by (intro admins_users) (auto simp: create_session_def split: if_splits)

lemma admins_update:
  assumes "\<And>u. au_user_id (f u) = au_user_id u \<and> au_role (f u) = au_role u"
  shows "admins (d\<lparr>ad_users := tbl_update P f (ad_users d)\<rparr>) = admins d"
proof -
  have "map au_user_id (filter (\<lambda>u. au_role u = ''admin'') (tbl_update P f us))
      = map au_user_id (filter (\<lambda>u. au_role u = ''admin'') us)" for us
    using assms by (induction us) (simp_all add: tbl_update_def)
  then show ?thesis by (simp add: admins_def)
qed

lemma admins_link: "link_identity i now d = Inr d' \<Longrightarrow> admins d' = admins d"
  by (intro admins_users) (auto simp: link_identity_def split: if_splits)

lemma upsert_cases:
  assumes "upsert_auth_user fold_text uid iid v now d = Inr (d', u)"
  obtains P email where "d' = d\<lparr>ad_users := tbl_update P (refresh_user email v now) (ad_users d)\<rparr>"
  | email i where "link_identity i now (d\<lparr>ad_users := ad_users d @ [new_user uid email v now]\<rparr>) = Inr d'"
  | P i where "link_identity i now (d\<lparr>ad_users := tbl_update P (merge_user v now) (ad_users d)\<rparr>) = Inr d'"
proof -
  let ?email = "fold_text (opt_text (vi_email v))"
  have ne: "?email \<noteq> []" using assms by (auto simp: upsert_auth_user_def Let_def split: if_splits)
  show thesis
  proof (cases "linked_user v d")
    case (Some known)
    with assms ne have "d' = d\<lparr>ad_users := tbl_update (\<lambda>u. au_user_id u = au_user_id known) (refresh_user ?email v now) (ad_users d)\<rparr>"
      by (simp add: upsert_auth_user_def Let_def split: if_splits option.splits)
    then show thesis by (rule that(1))
  next
    case None
    show thesis
    proof (cases "tbl_find (\<lambda>u. email_key u = py_lower ?email) (ad_users d)")
      case fresh: None
      with assms ne None show thesis
        by (simp add: upsert_auth_user_def Let_def split: if_splits sum.splits option.splits) (rule that(2), simp)
    next
      case (Some w)
      with assms ne None show thesis
        by (simp add: upsert_auth_user_def Let_def split: if_splits sum.splits option.splits) (rule that(3), simp)
    qed
  qed
qed

lemma admins_upsert:
  assumes "upsert_auth_user fold_text uid iid v now d = Inr (d', u)"
  shows "admins d' = admins d"
proof -
  have "admins (d\<lparr>ad_users := ad_users d @ [new_user uid email v now]\<rparr>) = admins d" for email
    by (auto simp: admins_def new_user_def)
  moreover have "admins (d\<lparr>ad_users := tbl_update P (refresh_user email v now) (ad_users d)\<rparr>) = admins d" for P email
    by (rule admins_update) (simp add: refresh_user_def)
  moreover have "admins (d\<lparr>ad_users := tbl_update P (merge_user v now) (ad_users d)\<rparr>) = admins d" for P
    by (rule admins_update) (simp add: merge_user_def)
  moreover note upsert_cases [OF assms, of "admins d' = admins d"] admins_link
  ultimately show ?thesis by metis
qed

lemma admins_status: "admins (fst (set_auth_user_status uid status actor now d)) = admins d"
proof -
  have "admins (update_user uid (\<lambda>u. u\<lparr>au_status := status, au_updated_at := At now\<rparr>) d) = admins d"
    unfolding update_user_def by (rule admins_update) simp
  then show ?thesis
    unfolding status_result Let_def by (simp only: if_distrib [of admins] admins_same if_cancel)
qed

lemma admins_role_update:
  "admins (update_user uid (\<lambda>u. u\<lparr>au_role := role, au_updated_at := At now\<rparr>) d)
    \<subseteq> (if role = ''admin'' then insert uid (admins d) else admins d)"
  by (auto simp: admins_def update_user_def set_tbl_update)

lemma admins_role: "admins (fst (set_auth_user_role uid role actor now d))
    \<subseteq> (if role = ''admin'' \<and> actor \<noteq> uid then insert uid (admins d) else admins d)"
proof (cases "role \<in> {''user'', ''admin''} \<and> actor \<noteq> uid")
  case True
  show ?thesis
    unfolding role_result if_P [OF True] admins_same
    using admins_role_update [where uid = uid and role = role and now = now and d = d] conjunct2 [OF True] by simp
qed (auto simp: role_result)

lemma admins_bootstrap: "admins (bootstrap_write u now d) \<subseteq> insert (au_user_id u) (admins d)"
  using admins_role_update [where uid = "au_user_id u" and role = "''admin''" and now = now and d = d] by (simp add: bootstrap_write_def grant_first_admin_def)

subsection \<open>Dependencies\<close>

lemma require_user_frame:
  "ap_auth (fst (require_user digest cookie now s)) =
     (if opt_text cookie = [] then ap_auth s else fst (get_session_user digest (opt_text cookie) now (ap_auth s)))"
  by (auto simp: require_user_def Let_def split: prod.splits option.splits)

lemma require_csrf_frame: "fst (require_csrf digest cookie csrf now s) = fst (require_user digest cookie now s)"
  by (auto simp: require_csrf_def split: prod.splits response.splits)

lemma require_users [simp]:
  "ad_users (ap_auth (fst (require_user digest cookie now s))) = ad_users (ap_auth s)"
  "ad_users (ap_auth (fst (require_csrf digest cookie csrf now s))) = ad_users (ap_auth s)"
  by (simp_all add: require_csrf_frame require_user_frame)

lemma require_user_Reply:
  assumes "require_user digest cookie now s = (s1, Reply (u, sid))"
  shows "sid = opt_text cookie \<and> sid \<noteq> [] \<and> au_status u = ''active'' \<and> u \<in> set (ad_users (ap_auth s))
    \<and> (\<exists>row \<in> set (ad_sessions (ap_auth s)). ss_id_hash row = digest sid \<and> ss_user_id row = au_user_id u
         \<and> usable_session now row \<and> \<not> idle_expired now row)"
proof -
  obtain d row where g: "get_session_user digest (opt_text cookie) now (ap_auth s) = (d, Some (u, row))"
    and u: "sid = opt_text cookie" "sid \<noteq> []" "au_status u = ''active''"
    using assms by (auto simp: require_user_def Let_def split: prod.splits option.splits if_splits)
  then have f: "tbl_find (\<lambda>s. ss_id_hash s = digest sid \<and> usable_session now s \<and> get_auth_user (ss_user_id s) (ap_auth s') \<noteq> None)
      (ad_sessions (ap_auth s')) = Some row" "\<not> idle_expired now row" "get_auth_user (ss_user_id row) (ap_auth s') = Some u" if "s' = s" for s'
    using that by (auto simp: get_session_user_def split: option.splits if_splits)
  from tbl_find_SomeD [OF f(1) [OF refl]] f(2,3) [OF refl] get_auth_user_SomeD [OF f(3) [OF refl]] u show ?thesis
    by auto
qed

lemma require_csrf_Reply:
  assumes "require_csrf digest cookie csrf now s = (s1, Reply (u, sid))"
  shows "require_user digest cookie now s = (s1, Reply (u, sid)) \<and> session_csrf_matches digest sid csrf (ap_auth s1)"
  using assms by (auto simp: require_csrf_def split: prod.splits response.splits if_splits)

lemma behind_Reply: "behind r k = (s', Reply b) \<Longrightarrow> \<exists>s a. r = (s, Reply a) \<and> k a s = (s', Reply b)"
  by (auto simp: behind_def split: prod.splits response.splits)

lemma behind_cases:
  obtains a where "snd r = Reply a" "behind r k = k a (fst r)"
  | "fst (behind r k) = fst r"
  by (cases r; cases "snd r") (auto simp: behind_def)

lemma quota_auth [simp]: "ap_auth (fst (consume_admin_action_quota cfg u now s)) = ap_auth s"
  by (simp add: consume_admin_action_quota_def split: prod.split)


subsection \<open>Endpoint effects on administrators\<close>

text \<open>The one request that may have made \<open>uid\<close> an administrator, given the state it was served in.\<close>

definition promoted :: "auth_config \<Rightarrow> auth_request \<Rightarrow> auth_db \<Rightarrow> string \<Rightarrow> bool" where
  "promoted cfg req d uid \<longleftrightarrow>
     (\<exists>cookie csrf token. req = ABootstrap cookie csrf (Some token) \<and> token \<noteq> [] \<and> token = ac_bootstrap_token cfg
        \<and> admin_count d = 0)
     \<or> (\<exists>cookie csrf actor. req = ARole cookie csrf uid ''admin'' \<and> actor \<in> set (ad_users d) \<and> au_role actor = ''admin''
        \<and> au_status actor = ''active'' \<and> au_user_id actor \<noteq> uid)"

lemma admins_issue: "admins (ap_auth (fst (issue_session cfg digest u provider cookie bridge ip agent dr now s))) = admins (ap_auth s)"
proof -
  let ?s1 = "if opt_text cookie \<noteq> [] then on_auth (revoke_session digest (opt_text cookie) now) s else s"
  have one: "admins (ap_auth ?s1) = admins (ap_auth s)" by (simp add: on_auth_def)
  let ?c = "create_session digest (dr_session_id dr) (dr_csrf dr) (au_user_id u) (session_lifetime_seconds cfg)
        (max 60 (ac_idle cfg)) (hash_signal digest ip) (hash_signal digest agent) now (ap_auth ?s1)"
  show ?thesis
  proof (cases ?c)
    case (Inl e)
    then show ?thesis unfolding issue_session_def Let_def Inl by (simp only: sum.case fst_conv one)
  next
    case (Inr d)
    have "admins d = admins (ap_auth s)" using admins_create [OF Inr] one by simp
    then show ?thesis
      unfolding issue_session_def Let_def Inr by (simp add: create_streamlit_auth_bridge_def)
  qed
qed

lemma admins_exchange:
  "admins (ap_auth (fst (exchange_auth_session cfg verify digest fold_text authorization cookie bridge ip agent dr now s)))
    = admins (ap_auth s)"
proof (cases "verify (py_strip (drop 7 (opt_text authorization)))")
  case (Some v)
  let ?up = "upsert_auth_user fold_text (dr_user_id dr) (dr_identity_id dr) v now (ap_auth s)"
  show ?thesis
  proof (cases ?up)
    case (Inl e)
    then show ?thesis using Some by (cases e) (simp_all add: exchange_auth_session_def)
  next
    case (Inr du)
    obtain d u where du: "du = (d, u)" by force
    have "admins d = admins (ap_auth s)" using Inr admins_upsert unfolding du by blast
    then show ?thesis using Inr Some unfolding du by (simp add: exchange_auth_session_def admins_issue)
  qed
qed (simp add: exchange_auth_session_def)

lemma admins_bridge: "admins (ap_auth (fst (consume_streamlit_auth_bridge digest token now s))) = admins (ap_auth s)"
proof -
  have "admins d = admins e" if "get_session_user digest sid now e = (d, x)" for sid d x e
    using admins_same(5) [of digest sid now e] that by simp
  then show ?thesis
    by (auto simp: consume_streamlit_auth_bridge_def pop_streamlit_auth_bridge_def Let_def split: option.splits prod.splits)
qed

lemma admins_behind:
  assumes "admins (ap_auth (fst r)) = A" and "\<And>a. snd r = Reply a \<Longrightarrow> uid \<in> admins (ap_auth (fst (k a (fst r)))) \<Longrightarrow> uid \<in> A \<or> Q"
    and "uid \<in> admins (ap_auth (fst (behind r k)))"
  shows "uid \<in> A \<or> Q"
  by (rule behind_cases [of r k]) (use assms in \<open>auto\<close>)

lemma admins_change:
  assumes "\<And>now d. admins (fst (change (au_user_id u) now d)) \<subseteq> (if Q then insert uid0 (admins d) else admins d)"
    and "w \<in> admins (ap_auth (fst (admin_change cfg change uid now (u, sid) s)))"
  shows "w \<in> admins (ap_auth s) \<or> Q \<and> w = uid0 \<and> au_role u = ''admin''"
proof (cases "user_id_ok uid \<and> au_role u = ''admin''")
  case True
  obtain g ok where q: "consume_admin_action_quota cfg u now s = (g, ok)" by force
  then have g: "ap_auth g = ap_auth s" using quota_auth [of cfg u now s] by simp
  obtain d res where c: "change (au_user_id u) now (ap_auth g) = (d, res)" by force
  have "w \<in> admins (ap_auth s) \<or> w \<in> admins d"
    using assms(2) True q c g by (auto simp: admin_change_def behind_def split: response.splits)
  then show ?thesis using assms(1) [of now "ap_auth g"] c g True by (auto split: if_splits)
qed (use assms(2) in \<open>auto simp: admin_change_def split: if_splits\<close>)


lemma require_admins [simp]:
  "admins (ap_auth (fst (require_user digest cookie now s))) = admins (ap_auth s)"
  "admins (ap_auth (fst (require_csrf digest cookie csrf now s))) = admins (ap_auth s)"
  by (rule admins_users, simp)+

lemma admins_quiet:
  "admins (ap_auth (fst (auth_logout digest now a s))) = admins (ap_auth s)"
  "admins (ap_auth (fst (auth_logout_all now a s))) = admins (ap_auth s)"
  "admins (ap_auth (fst (admin_users fold_text now a s))) = admins (ap_auth s)"
  by (simp_all add: auth_logout_def auth_logout_all_def admin_users_def on_auth_def Let_def split: prod.split)

lemma admins_delete: "admins (ap_auth (fst (auth_delete_account now a s))) = admins (ap_auth s)"
proof -
  have "admins d = admins e" if "set_auth_user_status uid st actor now e = (d, x)" for uid st actor d x e
    using admins_status [of uid st actor now e] that by simp
  then show ?thesis by (auto simp: auth_delete_account_def on_auth_def split: prod.splits sum.splits)
qed

lemma admins_bootstrap_request:
  assumes "w \<in> admins (ap_auth (fst (admin_bootstrap cfg token now (u, sid) s)))"
  shows "w \<in> admins (ap_auth s) \<or> opt_text token \<noteq> [] \<and> opt_text token = ac_bootstrap_token cfg \<and> admin_count (ap_auth s) = 0"
proof -
  obtain g ok where q: "consume_admin_action_quota cfg u now s = (g, ok)" by force
  then have g: "ap_auth g = ap_auth s" using quota_auth [of cfg u now s] by simp
  show ?thesis
  proof (cases "ok = Reply () \<and> bootstrap_check cfg token (ap_auth s) = Reply ()")
    case True
    then show ?thesis by (auto simp: bootstrap_check_def internal_error_def split: if_splits)
  next
    case False
    then have "fst (admin_bootstrap cfg token now (u, sid) s) = g"
      using q g by (cases ok) (auto simp: admin_bootstrap_def behind_def split: response.split)
    then show ?thesis using assms g by simp
  qed
qed



subsection \<open>Who may act\<close>

text \<open>The requests that change an account, with the cookie and the CSRF token they carry.\<close>

fun changing :: "auth_request \<Rightarrow> (string option \<times> string option) option" where
  "changing (ALogout cookie csrf) = Some (cookie, csrf)"
| "changing (ALogoutAll cookie csrf) = Some (cookie, csrf)"
| "changing (ADelete cookie csrf) = Some (cookie, csrf)"
| "changing (ABootstrap cookie csrf token) = Some (cookie, csrf)"
| "changing (ARole cookie csrf uid role) = Some (cookie, csrf)"
| "changing (AStatus cookie csrf uid status) = Some (cookie, csrf)"
| "changing _ = None"

lemma changing_behind:
  assumes "changing req = Some (cookie, csrf)"
  obtains k where "serve_auth cfg verify digest fold_text req now s = behind (require_csrf digest cookie csrf now s) k"
  using assms by (cases req) auto

text \<open>Reading a session changes no row's CSRF hash, so the token is compared with the row that was read.\<close>

lemma get_session_rows:
  "x \<in> set (ad_sessions (fst (get_session_user digest sid now d))) \<Longrightarrow>
    \<exists>y \<in> set (ad_sessions d). ss_id_hash y = ss_id_hash x \<and> ss_csrf_hash y = ss_csrf_hash x"
  by (cases "tbl_find (\<lambda>s. ss_id_hash s = digest sid \<and> usable_session now s \<and> get_auth_user (ss_user_id s) d \<noteq> None) (ad_sessions d)")
    (auto simp: get_session_user_def revoke_session_def revoke_where_def set_tbl_update split: if_splits)

lemma csrf_row:
  assumes "auth_wf (ap_auth s)" and "require_csrf digest cookie csrf now s = (s1, Reply (u, sid))"
  shows "\<exists>row \<in> set (ad_sessions (ap_auth s)). ss_id_hash row = digest (opt_text cookie) \<and> ss_user_id row = au_user_id u
    \<and> usable_session now row \<and> \<not> idle_expired now row \<and> opt_text csrf \<noteq> [] \<and> ss_csrf_hash row = digest (opt_text csrf)"
proof -
  note r = require_csrf_Reply [OF assms(2)]
  note u = require_user_Reply [OF conjunct1 [OF r]]
  then obtain row where row: "row \<in> set (ad_sessions (ap_auth s))" "ss_id_hash row = digest sid" "ss_user_id row = au_user_id u"
    "usable_session now row" "\<not> idle_expired now row" by blast
  have s1: "ap_auth s1 = fst (get_session_user digest sid now (ap_auth s))"
    using require_user_frame [of digest cookie now s] conjunct1 [OF r] u by auto
  obtain x where "x \<in> set (ad_sessions (ap_auth s1))" "ss_id_hash x = digest sid" "opt_text csrf \<noteq> []" "ss_csrf_hash x = digest (opt_text csrf)"
    using conjunct2 [OF r] by (auto simp: session_csrf_matches_def split: option.splits dest!: tbl_find_SomeD)
  moreover then obtain y where "y \<in> set (ad_sessions (ap_auth s))" "ss_id_hash y = digest sid" "ss_csrf_hash y = ss_csrf_hash x"
    using get_session_rows [of x digest sid now "ap_auth s"] unfolding s1 by auto
  moreover then have "y = row" using session_unique [OF assms(1)] row by metis
  ultimately show ?thesis using row u by auto
qed

text \<open>
  C26. Every accepted change is authenticated: when a request that changes an account is answered with
  success, it carries the identifier of a session that exists, is not revoked, expired or idle, it
  carries that session's CSRF token (up to the digest), and the session's account is active.
\<close>

theorem accepted_changes_are_authenticated:
  assumes "ap_auth s = fold (auth_step digest fold_text) earlier empty_auth_db" and "changing req = Some (cookie, csrf)"
    and "serve_auth cfg verify digest fold_text req now s = (s', Reply answer)"
  shows "\<exists>u \<in> set (ad_users (ap_auth s)). \<exists>row \<in> set (ad_sessions (ap_auth s)). au_status u = ''active''
    \<and> ss_user_id row = au_user_id u \<and> ss_id_hash row = digest (opt_text cookie) \<and> opt_text csrf \<noteq> []
    \<and> ss_csrf_hash row = digest (opt_text csrf) \<and> usable_session now row \<and> \<not> idle_expired now row"
proof -
  obtain k where "serve_auth cfg verify digest fold_text req now s = behind (require_csrf digest cookie csrf now s) k"
    by (rule changing_behind [OF assms(2)])
  with assms(3) have "behind (require_csrf digest cookie csrf now s) k = (s', Reply answer)" by simp
  from behind_Reply [OF this] obtain s1 u sid where r: "require_csrf digest cookie csrf now s = (s1, Reply (u, sid))"
    by (metis surj_pair)
  have "auth_wf (ap_auth s)" unfolding assms(1) by (rule accounts_reachable_wf)
  from csrf_row [OF this r] require_user_Reply [OF conjunct1 [OF require_csrf_Reply [OF r]]] show ?thesis by blast
qed

subsection \<open>Examples\<close>

definition sample_config :: auth_config where
  "sample_config = \<lparr>ac_require_verified = True, ac_lifetime = 3600, ac_idle = 900, ac_bootstrap_token = ''first'', ac_admin_limit = 30\<rparr>"

definition sample_api :: api where
  "sample_api = \<lparr>ap_auth = sample_db, ap_usage = empty_guest_db, ap_bridges = []\<rparr>"

definition sample_promotion :: "api \<times> auth_answer response" where
  "sample_promotion = serve_auth sample_config (\<lambda>_. None) (\<lambda>x. x) py_lower (ABootstrap (Some ''sid'') (Some ''csrf'') (Some ''first'')) 10 sample_api"

lemma sample_promotion_run:
  "(case snd sample_promotion of Reply _ \<Rightarrow> True | Http _ _ \<Rightarrow> False) \<and> admins (ap_auth (fst sample_promotion)) = {''u1''}
    \<and> admins (ap_auth sample_api) = {}"
  by code_simp


lemma accepted_changes_are_authenticated_witness:
  "\<exists>s' answer. serve_auth sample_config (\<lambda>_. None) (\<lambda>x. x) py_lower (ABootstrap (Some ''sid'') (Some ''csrf'') (Some ''first'')) 10 sample_api = (s', Reply answer)
     \<and> (\<exists>u \<in> set (ad_users (ap_auth sample_api)). au_status u = ''active'')"
proof -
  obtain s' answer where r: "sample_promotion = (s', Reply answer)"
    using sample_promotion_run by (metis prod.collapse response.exhaust response.simps(6))
  have "ap_auth sample_api = fold (auth_step (\<lambda>x. x) py_lower) sample_accounts empty_auth_db" "changing (ABootstrap (Some ''sid'') (Some ''csrf'') (Some ''first'')) = Some (Some ''sid'', Some ''csrf'')"
    by (simp_all only: sample_api_def sample_db_def api.select_convs changing.simps)
  from accepted_changes_are_authenticated [OF this r [unfolded sample_promotion_def]] r [unfolded sample_promotion_def]
  show ?thesis by blast
qed

text \<open>
  The checks of the bootstrap and the promotion are not one transaction: two users who both hold the
  token and are checked before either is promoted both become administrators.
\<close>

lemma concurrent_bootstrap:
  "bootstrap_check sample_config (Some ''first'') (ap_auth sample_api) = Reply ()
   \<and> admins (bootstrap_write (ad_users sample_db ! 1) 11 (bootstrap_write (ad_users sample_db ! 0) 10 (ap_auth sample_api))) = {''u1'', ''u2''}"
  by code_simp

end
