(* ===== verification/Py_Text.thy ===== *)
theory Py_Text
  imports Prelude
begin

text \<open>
  Methods of Python's \<open>str\<close> beyond those of Prelude: code points of a text given by its bytes in UTF-8,
  \<open>replace\<close>, \<open>count\<close>, \<open>split\<close>, on bytes or on code points.
\<close>

type_synonym code_points = "nat list"

subsection \<open>Code points of a UTF-8 text\<close>

definition continuation_byte :: "char \<Rightarrow> bool" where
  "continuation_byte c = (let n = (of_char c :: nat) in 128 \<le> n \<and> n < 192)"

definition utf8_length :: "string \<Rightarrow> nat" where
  "utf8_length s = length (filter (\<lambda>c. \<not> continuation_byte c) s)"

fun utf8_drop :: "nat \<Rightarrow> string \<Rightarrow> string" where
  "utf8_drop 0 s = s"
| "utf8_drop (Suc n) [] = []"
| "utf8_drop (Suc n) (c # cs) = utf8_drop n (dropWhile continuation_byte cs)"

text \<open>\<open>s[-n:]\<close> and \<open>s[:n]\<close>.\<close>

definition utf8_last :: "nat \<Rightarrow> string \<Rightarrow> string" where
  "utf8_last n s = utf8_drop (utf8_length s - n) s"

definition utf8_take :: "nat \<Rightarrow> string \<Rightarrow> string" where
  "utf8_take n s = take (length s - length (utf8_drop n s)) s"

subsection \<open>Replacing and counting in text\<close>

text \<open>\<open>text.replace(wrong, correct)\<close> and \<open>text.count(wrong)\<close> for a text \<open>wrong\<close> that is not empty; the
  first argument is the number of characters of the last occurrence still to pass.\<close>

fun replace_from :: "nat \<Rightarrow> 'a list \<Rightarrow> 'a list \<Rightarrow> 'a list \<Rightarrow> 'a list" where
  "replace_from k wrong correct [] = []"
| "replace_from (Suc k) wrong correct (c # cs) = replace_from k wrong correct cs"
| "replace_from 0 wrong correct (c # cs) =
     (if has_prefix wrong (c # cs) then correct @ replace_from (length wrong - 1) wrong correct cs
      else c # replace_from 0 wrong correct cs)"

fun count_from :: "nat \<Rightarrow> 'a list \<Rightarrow> 'a list \<Rightarrow> nat" where
  "count_from k wrong [] = 0"
| "count_from (Suc k) wrong (c # cs) = count_from k wrong cs"
| "count_from 0 wrong (c # cs) =
     (if has_prefix wrong (c # cs) then Suc (count_from (length wrong - 1) wrong cs)
      else count_from 0 wrong cs)"

definition py_replace :: "'a list \<Rightarrow> 'a list \<Rightarrow> 'a list \<Rightarrow> 'a list" where
  "py_replace wrong correct s = replace_from 0 wrong correct s"

definition py_count :: "'a list \<Rightarrow> 'a list \<Rightarrow> nat" where
  "py_count wrong s = count_from 0 wrong s"

subsection \<open>What replacing does\<close>

lemma replace_from_drop: "replace_from k wrong correct s = py_replace wrong correct (drop k s)"
  unfolding py_replace_def
proof (induction s arbitrary: k)
  case (Cons c cs)
  then show ?case by (cases k) simp_all
qed simp

lemma count_from_drop: "count_from k wrong s = py_count wrong (drop k s)"
  unfolding py_count_def
proof (induction s arbitrary: k)
  case (Cons c cs)
  then show ?case by (cases k) simp_all
qed simp

lemma py_replace_Nil [simp]: "py_replace wrong correct [] = []"
  by (simp add: py_replace_def)

lemma py_count_Nil [simp]: "py_count wrong [] = 0"
  by (simp add: py_count_def)

text \<open>The next occurrence starts where the last one ended.\<close>

lemma py_replace_found:
  assumes "wrong \<noteq> []"
  shows "py_replace wrong correct (wrong @ s) = correct @ py_replace wrong correct s"
    and "py_count wrong (wrong @ s) = Suc (py_count wrong s)"
proof -
  obtain w ws where w: "wrong = w # ws" using assms by (cases wrong) auto
  have p: "has_prefix (w # ws) (w # ws @ s)" by (auto simp: has_prefix_iff)
  have "py_replace wrong correct (wrong @ s) = correct @ replace_from (length ws) wrong correct (ws @ s)"
    using p by (simp add: w py_replace_def del: has_prefix.simps)
  also have "\<dots> = correct @ py_replace wrong correct s" by (simp add: replace_from_drop)
  finally show "py_replace wrong correct (wrong @ s) = correct @ py_replace wrong correct s" .
  have "py_count wrong (wrong @ s) = Suc (count_from (length ws) wrong (ws @ s))"
    using p by (simp add: w py_count_def del: has_prefix.simps)
  also have "\<dots> = Suc (py_count wrong s)" by (simp add: count_from_drop)
  finally show "py_count wrong (wrong @ s) = Suc (py_count wrong s)" .
qed

lemma py_replace_skip:
  assumes "\<not> has_prefix wrong (c # cs)"
  shows "py_replace wrong correct (c # cs) = c # py_replace wrong correct cs"
    and "py_count wrong (c # cs) = py_count wrong cs"
  using assms by (simp_all add: py_replace_def py_count_def)

lemma occurrence_cases:
  obtains (empty) "s = []" | (found) t where "s = wrong @ t"
  | (skip) c cs where "s = c # cs" "\<not> has_prefix wrong (c # cs)"
proof (cases s)
  case (Cons c cs)
  then show thesis by (cases "has_prefix wrong (c # cs)") (auto simp: has_prefix_iff intro: found skip)
qed (use empty in simp)

lemma py_replace_length:
  assumes "wrong \<noteq> []"
  shows "length (py_replace wrong correct s) + py_count wrong s * length wrong
    = length s + py_count wrong s * length correct"
proof (induction "length s" arbitrary: s rule: less_induct)
  case less
  show ?case
  proof (cases rule: occurrence_cases [where s = s and wrong = wrong])
    case (found t)
    then show ?thesis using less [of t] assms by (simp add: py_replace_found algebra_simps)
  next
    case (skip c cs)
    then show ?thesis using less [of cs] by (simp add: py_replace_skip)
  qed simp
qed

lemma py_count_contains:
  assumes "wrong \<noteq> []"
  shows "0 < py_count wrong s \<longleftrightarrow> contains wrong s"
proof (induction s)
  case (Cons c cs)
  show ?case
  proof (cases "has_prefix wrong (c # cs)")
    case True
    then obtain t where "c # cs = wrong @ t" by (auto simp: has_prefix_iff)
    then have "0 < py_count wrong (c # cs)" using assms by (simp add: py_replace_found)
    then show ?thesis using True by simp
  next
    case False
    then show ?thesis using Cons by (simp add: py_replace_skip)
  qed
qed (use assms in simp)

subsection \<open>White space\<close>

text \<open>\<open>str.isspace\<close> of a code point.\<close>

definition unicode_space :: "nat \<Rightarrow> bool" where
  "unicode_space n \<longleftrightarrow> (9 \<le> n \<and> n \<le> 13) \<or> (28 \<le> n \<and> n \<le> 32) \<or> n = 133 \<or> n = 160 \<or> n = 5760
     \<or> (8192 \<le> n \<and> n \<le> 8202) \<or> n = 8232 \<or> n = 8233 \<or> n = 8239 \<or> n = 8287 \<or> n = 12288"

text \<open>\<open>text.split()\<close> and \<open>text.strip()\<close>; the first argument is the word read so far, reversed.\<close>

fun split_from :: "code_points \<Rightarrow> code_points \<Rightarrow> code_points list" where
  "split_from w [] = (if w = [] then [] else [rev w])"
| "split_from w (c # cs) =
     (if unicode_space c then (if w = [] then split_from [] cs else rev w # split_from [] cs)
      else split_from (c # w) cs)"

definition py_split :: "code_points \<Rightarrow> code_points list" where
  "py_split s = split_from [] s"

definition strip_points :: "code_points \<Rightarrow> code_points" where
  "strip_points s = rev (dropWhile unicode_space (rev (dropWhile unicode_space s)))"

end
