(* ===== verification/Corrections.thy ===== *)
theory Corrections
  imports Conversions Py_Text
begin

text \<open>
  Corrections that users make to results, and what is learned from them: the methods of \<open>Database\<close>
  (\<open>pdfword/database.py\<close>) on the tables \<open>correction_rules\<close>, \<open>correction_revisions\<close>,
  \<open>correction_examples\<close>, \<open>correction_memory_rules\<close>, \<open>correction_applications\<close> and
  \<open>correction_evaluations\<close>. A method that runs several transactions is composed of one function for
  each. \<open>casefold\<close> of a user name is the argument \<open>fold_name\<close>. The columns of memory rules that no method
  writes are left out, and so are the row numbers of applications and evaluations.
\<close>

subsection \<open>Rows\<close>

record correction_rule =
  cr_id :: int
  cr_pattern :: string
  cr_replacement :: string
  cr_rule_type :: string
  cr_occurrences :: int
  cr_approved :: bool
  cr_enabled :: bool
  cr_created_at :: stamp

record revision =
  rv_id :: int
  rv_job_id :: string
  rv_user_id :: string
  rv_version :: int
  rv_stored_path :: string
  rv_file_hash :: string
  rv_file_size :: int
  rv_uploaded_at :: stamp
  rv_uploaded_by :: string
  rv_comparison_status :: string
  rv_learning_status :: string
  rv_change_count :: int

record example =
  ex_id :: int
  ex_revision_id :: int
  ex_job_id :: string
  ex_user_id :: string
  ex_wrong_text :: string
  ex_correct_text :: string
  ex_context_before :: string
  ex_context_after :: string
  ex_paragraph_index :: "int option"
  ex_sentence_index :: "int option"
  ex_change_type :: string
  ex_language :: string
  ex_is_sensitive :: bool
  ex_status :: string
  ex_approved_by :: "string option"
  ex_approved_at :: stamp
  ex_rejected_at :: stamp
  ex_created_at :: stamp

record memory_rule =
  mr_id :: int
  mr_wrong_text :: string
  mr_correct_text :: string
  mr_context_pattern :: string
  mr_scope :: string
  mr_scope_value :: string
  mr_language :: string
  mr_document_type :: string
  mr_source_count :: int
  mr_occurrence_count :: int
  mr_accepted_count :: int
  mr_rejected_count :: int
  mr_confidence :: pyfloat
  mr_is_sensitive :: bool
  mr_approved :: bool
  mr_enabled :: bool
  mr_approved_by :: "string option"
  mr_approved_at :: stamp
  mr_updated_at :: stamp

record application =
  ap_job_id :: string
  ap_rule_id :: string
  ap_before_text :: string
  ap_after_text :: string
  ap_confidence :: score
  ap_context_match :: bool
  ap_applied_at :: stamp

record evaluation =
  ev_revision_id :: int
  ev_job_id :: string
  ev_dataset_split :: string
  ev_pre_word_accuracy :: "pyfloat option"
  ev_pre_char_accuracy :: "pyfloat option"
  ev_post_word_accuracy :: "pyfloat option"
  ev_post_char_accuracy :: "pyfloat option"
  ev_created_at :: stamp

text \<open>The tables, and the last number \<open>AUTOINCREMENT\<close> has given in those whose rows are deleted.\<close>

record corrections =
  cd_rules :: "correction_rule list"
  cd_rule_seq :: int
  cd_revisions :: "revision list"
  cd_examples :: "example list"
  cd_example_seq :: int
  cd_memory :: "memory_rule list"
  cd_applications :: "application list"
  cd_evaluations :: "evaluation list"

definition no_corrections :: corrections where
  "no_corrections = \<lparr>cd_rules = [], cd_rule_seq = 0, cd_revisions = [], cd_examples = [],
     cd_example_seq = 0, cd_memory = [], cd_applications = [], cd_evaluations = []\<rparr>"

datatype correction_error =
  CorrectionPermissionError string
| CorrectionValueError string
| CorrectionKeyError int
| CorrectionIntegrityError

definition next_id :: "('r \<Rightarrow> int) \<Rightarrow> 'r list \<Rightarrow> int" where
  "next_id key t = fold (\<lambda>r n. max n (key r)) t 0 + 1"

subsection \<open>Rules proposed from word differences\<close>

definition rule_key :: "correction_rule \<Rightarrow> string \<times> string \<times> string" where
  "rule_key r = (cr_pattern r, cr_replacement r, cr_rule_type r)"

definition add_correction_rule :: "string \<Rightarrow> string \<Rightarrow> string \<Rightarrow> instant \<Rightarrow> corrections \<Rightarrow> corrections" where
  "add_correction_rule pattern replacement ty now d =
     (if (pattern, replacement, ty) \<in> rule_key ` set (cd_rules d)
      then d\<lparr>cd_rules := tbl_update (\<lambda>r. rule_key r = (pattern, replacement, ty))
               (\<lambda>r. r\<lparr>cr_occurrences := cr_occurrences r + 1\<rparr>) (cd_rules d)\<rparr>
      else d\<lparr>cd_rule_seq := cd_rule_seq d + 1,
             cd_rules := cd_rules d @
               [\<lparr>cr_id = cd_rule_seq d + 1, cr_pattern = pattern, cr_replacement = replacement,
                 cr_rule_type = ty, cr_occurrences = 1, cr_approved = False, cr_enabled = False,
                 cr_created_at = At now\<rparr>]\<rparr>)"

definition list_correction_rules :: "corrections \<Rightarrow> correction_rule list" where
  "list_correction_rules d = sort_key (\<lambda>r. (- cr_occurrences r, - cr_id r)) (cd_rules d)"

definition enabled_correction_rules :: "corrections \<Rightarrow> correction_rule list" where
  "enabled_correction_rules d =
     sort_key (\<lambda>r. (- cr_occurrences r, cr_id r)) (filter (\<lambda>r. cr_approved r \<and> cr_enabled r) (cd_rules d))"

definition set_correction_rule_state :: "int \<Rightarrow> bool \<Rightarrow> bool \<Rightarrow> corrections \<Rightarrow> corrections" where
  "set_correction_rule_state i approved enabled d =
     d\<lparr>cd_rules := tbl_update (\<lambda>r. cr_id r = i)
         (\<lambda>r. r\<lparr>cr_approved := approved, cr_enabled := enabled \<and> approved\<rparr>) (cd_rules d)\<rparr>"

definition delete_correction_rule :: "int \<Rightarrow> corrections \<Rightarrow> corrections" where
  "delete_correction_rule i d = d\<lparr>cd_rules := filter (\<lambda>r. cr_id r \<noteq> i) (cd_rules d)\<rparr>"

subsection \<open>Revisions\<close>

definition get_user_conversion :: "string \<Rightarrow> string \<Rightarrow> conversions \<Rightarrow> conversion option" where
  "get_user_conversion job username t = tbl_find (\<lambda>r. cv_job_id r = job \<and> cv_username r = username) t"

definition get_correction_revision :: "int \<Rightarrow> string option \<Rightarrow> corrections \<Rightarrow> revision option" where
  "get_correction_revision i username d =
     tbl_find (\<lambda>r. rv_id r = i \<and> (case username of None \<Rightarrow> True | Some u \<Rightarrow> rv_user_id r = u)) (cd_revisions d)"

definition list_correction_revisions :: "string \<Rightarrow> string \<Rightarrow> corrections \<Rightarrow> revision list" where
  "list_correction_revisions job username d =
     sort_key (\<lambda>r. - rv_version r) (filter (\<lambda>r. rv_job_id r = job \<and> rv_user_id r = username) (cd_revisions d))"

text \<open>\<open>COALESCE(MAX(version), 0) + 1\<close>.\<close>

definition next_version :: "string \<Rightarrow> corrections \<Rightarrow> int" where
  "next_version job d = next_id rv_version (filter (\<lambda>r. rv_job_id r = job) (cd_revisions d))"

definition create_correction_revision ::
  "conversions \<Rightarrow> string \<Rightarrow> string \<Rightarrow> string \<Rightarrow> string \<Rightarrow> int \<Rightarrow> string \<Rightarrow> instant \<Rightarrow> corrections
    \<Rightarrow> correction_error + (corrections \<times> revision)" where
  "create_correction_revision cv job username path hash nbytes learning now d =
     (case get_user_conversion job username cv of
        None \<Rightarrow> Inl (CorrectionPermissionError ''Conversion does not belong to this user'')
      | Some row \<Rightarrow>
          let version = next_version job d;
              fresh = \<lparr>rv_id = next_id rv_id (cd_revisions d), rv_job_id = job, rv_user_id = username,
                rv_version = version, rv_stored_path = path, rv_file_hash = hash, rv_file_size = nbytes,
                rv_uploaded_at = At now, rv_uploaded_by = username, rv_comparison_status = ''pending'',
                rv_learning_status = learning, rv_change_count = 0\<rparr>
          in if (job, version) \<in> (\<lambda>r. (rv_job_id r, rv_version r)) ` set (cd_revisions d)
                \<or> (job, hash) \<in> (\<lambda>r. (rv_job_id r, rv_file_hash r)) ` set (cd_revisions d)
             then Inl CorrectionIntegrityError
             else Inr (d\<lparr>cd_revisions := cd_revisions d @ [fresh]\<rparr>, fresh))"

datatype revision_cell =
  StoredPath string
| ComparisonStatus string
| LearningStatus string
| ChangeCount int

fun set_revision_cell :: "revision_cell \<Rightarrow> revision \<Rightarrow> revision" where
  "set_revision_cell (StoredPath v) r = r\<lparr>rv_stored_path := v\<rparr>"
| "set_revision_cell (ComparisonStatus v) r = r\<lparr>rv_comparison_status := v\<rparr>"
| "set_revision_cell (LearningStatus v) r = r\<lparr>rv_learning_status := v\<rparr>"
| "set_revision_cell (ChangeCount v) r = r\<lparr>rv_change_count := v\<rparr>"

definition update_correction_revision :: "int \<Rightarrow> revision_cell list \<Rightarrow> corrections \<Rightarrow> corrections" where
  "update_correction_revision i cells d =
     d\<lparr>cd_revisions := tbl_update (\<lambda>r. rv_id r = i) (fold set_revision_cell cells) (cd_revisions d)\<rparr>"

subsection \<open>Examples and their review\<close>

text \<open>What a comparison proposes: the keys of an example that \<open>replace_revision_examples\<close> reads.\<close>

record proposed =
  pr_wrong_text :: string
  pr_correct_text :: string
  pr_context_before :: string
  pr_context_after :: string
  pr_paragraph_index :: "int option"
  pr_sentence_index :: "int option"
  pr_change_type :: string
  pr_language :: string
  pr_is_sensitive :: bool

definition new_example :: "int \<Rightarrow> int \<Rightarrow> string \<Rightarrow> string \<Rightarrow> instant \<Rightarrow> proposed \<Rightarrow> example" where
  "new_example i rid job username now p =
     \<lparr>ex_id = i, ex_revision_id = rid, ex_job_id = job, ex_user_id = username,
      ex_wrong_text = pr_wrong_text p, ex_correct_text = pr_correct_text p,
      ex_context_before = pr_context_before p, ex_context_after = pr_context_after p,
      ex_paragraph_index = pr_paragraph_index p, ex_sentence_index = pr_sentence_index p,
      ex_change_type = pr_change_type p, ex_language = pr_language p,
      ex_is_sensitive = pr_is_sensitive p, ex_status = ''proposed'', ex_approved_by = None,
      ex_approved_at = Never, ex_rejected_at = Never, ex_created_at = At now\<rparr>"

definition insert_example :: "int \<Rightarrow> string \<Rightarrow> string \<Rightarrow> instant \<Rightarrow> proposed \<Rightarrow> corrections \<Rightarrow> corrections" where
  "insert_example rid job username now p d =
     d\<lparr>cd_example_seq := cd_example_seq d + 1,
       cd_examples := cd_examples d @ [new_example (cd_example_seq d + 1) rid job username now p]\<rparr>"

text \<open>The transaction of \<open>replace_revision_examples\<close>, and the whole method.\<close>

definition put_examples :: "int \<Rightarrow> string \<Rightarrow> string \<Rightarrow> proposed list \<Rightarrow> instant \<Rightarrow> corrections \<Rightarrow> corrections" where
  "put_examples rid job username ps now d =
     fold (insert_example rid job username now) ps
       (d\<lparr>cd_examples := filter (\<lambda>e. ex_revision_id e \<noteq> rid) (cd_examples d)\<rparr>)"

definition replace_revision_examples ::
  "int \<Rightarrow> string \<Rightarrow> string \<Rightarrow> proposed list \<Rightarrow> instant \<Rightarrow> corrections \<Rightarrow> correction_error + corrections" where
  "replace_revision_examples rid job username ps now d =
     (if get_correction_revision rid (Some username) d = None
      then Inl (CorrectionPermissionError ''Revision does not belong to this user'')
      else Inr (update_correction_revision rid
             [ComparisonStatus ''completed'', ChangeCount (int (length ps))]
             (put_examples rid job username ps now d)))"

definition list_correction_examples :: "int option \<Rightarrow> string option \<Rightarrow> corrections \<Rightarrow> example list" where
  "list_correction_examples rid status d =
     sort_key ex_id (filter (\<lambda>e. (case rid of None \<Rightarrow> True | Some i \<Rightarrow> ex_revision_id e = i)
       \<and> (opt_text status = [] \<or> ex_status e = opt_text status)) (cd_examples d))"

definition review_action :: "string \<Rightarrow> bool" where
  "review_action a \<longleftrightarrow> a = ''approved'' \<or> a = ''rejected'' \<or> a = ''ignored''"

definition review_example :: "string \<Rightarrow> string \<Rightarrow> instant \<Rightarrow> example \<Rightarrow> example" where
  "review_example action reviewer now e =
     e\<lparr>ex_status := action,
       ex_approved_by := (if action = ''approved'' then Some reviewer else None),
       ex_approved_at := (if action = ''approved'' then At now else Never),
       ex_rejected_at := (if action = ''rejected'' then At now else Never)\<rparr>"

text \<open>What becomes a rule of the memory, and the key of its row.\<close>

definition teaches :: "revision \<Rightarrow> example \<Rightarrow> bool" where
  "teaches r e \<longleftrightarrow> rv_learning_status r = ''learning'' \<and> \<not> ex_is_sensitive e
     \<and> ex_wrong_text e \<noteq> [] \<and> ex_correct_text e \<noteq> []
     \<and> \<not> has_prefix ''formatting:'' (ex_change_type e)"

definition memory_key :: "memory_rule \<Rightarrow> string \<times> string \<times> string \<times> string \<times> string" where
  "memory_key m = (mr_wrong_text m, mr_correct_text m, mr_context_pattern m, mr_scope m, mr_scope_value m)"

definition source_jobs :: "string \<Rightarrow> string \<Rightarrow> example list \<Rightarrow> string list" where
  "source_jobs wrong correct es =
     fromkeys (map ex_job_id (filter (\<lambda>e. ex_wrong_text e = wrong \<and> ex_correct_text e = correct
       \<and> ex_status e = ''approved'') es))"

definition new_memory_rule :: "int \<Rightarrow> example \<Rightarrow> instant \<Rightarrow> memory_rule" where
  "new_memory_rule i e now =
     \<lparr>mr_id = i, mr_wrong_text = ex_wrong_text e, mr_correct_text = ex_correct_text e,
      mr_context_pattern = utf8_last 30 (ex_context_before e), mr_scope = ''global'', mr_scope_value = [],
      mr_language = ex_language e, mr_document_type = [], mr_source_count = 1, mr_occurrence_count = 1,
      mr_accepted_count = 1, mr_rejected_count = 0, mr_confidence = 0, mr_is_sensitive = False,
      mr_approved = False, mr_enabled = False, mr_approved_by = None, mr_approved_at = Never,
      mr_updated_at = At now\<rparr>"

definition repeat_memory_rule :: "int \<Rightarrow> instant \<Rightarrow> memory_rule \<Rightarrow> memory_rule" where
  "repeat_memory_rule sources now m =
     m\<lparr>mr_occurrence_count := mr_occurrence_count m + 1, mr_accepted_count := mr_accepted_count m + 1,
       mr_source_count := sources, mr_updated_at := At now\<rparr>"

definition learn :: "example \<Rightarrow> instant \<Rightarrow> corrections \<Rightarrow> corrections" where
  "learn e now d =
     (let fresh = new_memory_rule (next_id mr_id (cd_memory d)) e now
      in if memory_key fresh \<in> memory_key ` set (cd_memory d)
         then d\<lparr>cd_memory := tbl_update (\<lambda>m. memory_key m = memory_key fresh)
                  (repeat_memory_rule
                     (int (length (source_jobs (ex_wrong_text e) (ex_correct_text e) (cd_examples d)))) now)
                  (cd_memory d)\<rparr>
         else d\<lparr>cd_memory := cd_memory d @ [fresh]\<rparr>)"

text \<open>The transaction of \<open>review_correction_example\<close>; the recalculation is a second one.\<close>

definition review_transaction ::
  "(string \<Rightarrow> string) \<Rightarrow> int \<Rightarrow> string \<Rightarrow> string \<Rightarrow> instant \<Rightarrow> corrections \<Rightarrow> correction_error + corrections" where
  "review_transaction fold_name i action reviewer now d =
     (if \<not> review_action action then Inl (CorrectionValueError ''Invalid review action'')
      else case tbl_find (\<lambda>e. ex_id e = i \<and> get_correction_revision (ex_revision_id e) None d \<noteq> None)
             (cd_examples d) of
        None \<Rightarrow> Inl (CorrectionKeyError i)
      | Some e \<Rightarrow>
          if fold_name (ex_user_id e) \<noteq> fold_name reviewer
          then Inl (CorrectionPermissionError ''Example does not belong to this user'')
          else
            let d' = d\<lparr>cd_examples := tbl_update (\<lambda>x. ex_id x = i) (review_example action reviewer now) (cd_examples d)\<rparr>
            in case get_correction_revision (ex_revision_id e) None d of
                 Some r \<Rightarrow> Inr (if action = ''approved'' \<and> teaches r e then learn e now d' else d')
               | None \<Rightarrow> Inr d')"

definition rule_confidence :: "memory_rule \<Rightarrow> pyfloat" where
  "rule_confidence m =
     min (99 / 100)
       (of_int (mr_accepted_count m) / of_int (max 1 (mr_accepted_count m + mr_rejected_count m))
         * min 1 (of_int (mr_source_count m) / 3))"

definition recalculate_correction_confidence :: "corrections \<Rightarrow> corrections" where
  "recalculate_correction_confidence d =
     d\<lparr>cd_memory := map (\<lambda>m. m\<lparr>mr_confidence := rule_confidence m\<rparr>) (cd_memory d)\<rparr>"

definition review_correction_example ::
  "(string \<Rightarrow> string) \<Rightarrow> int \<Rightarrow> string \<Rightarrow> string \<Rightarrow> instant \<Rightarrow> corrections \<Rightarrow> correction_error + corrections" where
  "review_correction_example fold_name i action reviewer now d =
     (case review_transaction fold_name i action reviewer now d of
        Inl err \<Rightarrow> Inl err
      | Inr d' \<Rightarrow> Inr (recalculate_correction_confidence d'))"

subsection \<open>The memory\<close>

definition list_memory_rules :: "corrections \<Rightarrow> memory_rule list" where
  "list_memory_rules d = sort_key (\<lambda>m. (- mr_confidence m, mr_id m)) (cd_memory d)"

definition set_memory_rule_state ::
  "int \<Rightarrow> bool \<Rightarrow> bool \<Rightarrow> string \<Rightarrow> instant \<Rightarrow> corrections \<Rightarrow> corrections" where
  "set_memory_rule_state i approved enabled reviewer now d =
     d\<lparr>cd_memory := tbl_update (\<lambda>m. mr_id m = i \<and> \<not> mr_is_sensitive m)
         (\<lambda>m. m\<lparr>mr_approved := approved, mr_enabled := approved \<and> enabled,
                mr_approved_by := (if approved then Some reviewer else None),
                mr_approved_at := (if approved then At now else Never), mr_updated_at := At now\<rparr>)
         (cd_memory d)\<rparr>"

definition active_rule :: "int \<Rightarrow> pyfloat \<Rightarrow> memory_rule \<Rightarrow> bool" where
  "active_rule min_sources threshold m \<longleftrightarrow> mr_approved m \<and> mr_enabled m \<and> \<not> mr_is_sensitive m
     \<and> min_sources \<le> mr_source_count m \<and> threshold \<le> mr_confidence m"

definition active_memory_rules :: "int \<Rightarrow> pyfloat \<Rightarrow> corrections \<Rightarrow> memory_rule list" where
  "active_memory_rules min_sources threshold d =
     sort_key (\<lambda>m. (- mr_confidence m, mr_id m)) (filter (active_rule min_sources threshold) (cd_memory d))"

subsection \<open>Applications, evaluations and reports\<close>

text \<open>SQLite stores a NaN as \<open>NULL\<close>, and \<open>confidence\<close> is \<open>NOT NULL\<close>.\<close>

definition record_correction_applications ::
  "application list \<Rightarrow> corrections \<Rightarrow> correction_error + corrections" where
  "record_correction_applications apps d =
     (if list_ex (\<lambda>a. ap_confidence a = NaN) apps then Inl CorrectionIntegrityError
      else Inr (d\<lparr>cd_applications := cd_applications d @ apps\<rparr>))"

definition record_correction_evaluation :: "evaluation \<Rightarrow> corrections \<Rightarrow> correction_error + corrections" where
  "record_correction_evaluation ev d =
     (if ev_dataset_split ev \<noteq> ''training'' \<and> ev_dataset_split ev \<noteq> ''evaluation''
      then Inl (CorrectionValueError ''Invalid dataset split'')
      else Inr (d\<lparr>cd_evaluations := cd_evaluations d @ [ev]\<rparr>))"

record readiness =
  rd_corrected_files :: int
  rd_learning_files :: int
  rd_examples :: int
  rd_trusted_rules :: int
  rd_evaluation_size :: int
  rd_readiness :: string

definition correction_readiness :: "corrections \<Rightarrow> readiness" where
  "correction_readiness d =
     (let corrected = int (length (fromkeys (map rv_job_id (cd_revisions d))))
      in \<lparr>rd_corrected_files = corrected,
          rd_learning_files = int (length (fromkeys (map rv_job_id
            (filter (\<lambda>r. rv_learning_status r = ''learning'') (cd_revisions d))))),
          rd_examples = int (length (cd_examples d)),
          rd_trusted_rules = int (tbl_count (\<lambda>m. mr_approved m \<and> mr_enabled m) (cd_memory d)),
          rd_evaluation_size = int (tbl_count (\<lambda>e. ev_dataset_split e = ''evaluation'') (cd_evaluations d)),
          rd_readiness = (if corrected < 10 then ''insufficient''
            else if corrected < 50 then ''early'' else ''evaluation_ready'')\<rparr>)"

text \<open>\<open>AVG\<close> ignores \<open>NULL\<close> and is \<open>NULL\<close> on no values.\<close>

definition sql_avg :: "pyfloat option list \<Rightarrow> pyfloat option" where
  "sql_avg vs = (let xs = map the (filter (\<lambda>v. v \<noteq> None) vs)
     in if xs = [] then None else Some (sum_list xs / of_nat (length xs)))"

definition correction_evaluation_summary ::
  "corrections \<Rightarrow> int \<times> pyfloat option \<times> pyfloat option \<times> pyfloat option" where
  "correction_evaluation_summary d =
     (let es = filter (\<lambda>e. ev_dataset_split e = ''evaluation'') (cd_evaluations d);
          before = sql_avg (map ev_pre_word_accuracy es);
          after = sql_avg (map ev_post_word_accuracy es)
      in (int (length es), before, after,
          (case (before, after) of (Some x, Some y) \<Rightarrow> Some (y - x) | _ \<Rightarrow> None)))"

text \<open>The rows that \<open>export_approved_dataset\<close> writes, one JSON object a line.\<close>

definition exported_examples :: "corrections \<Rightarrow> example list" where
  "exported_examples d =
     sort_key ex_id (filter (\<lambda>e. ex_status e = ''approved'' \<and> \<not> ex_is_sensitive e
       \<and> get_correction_revision (ex_revision_id e) None d \<noteq> None) (cd_examples d))"

subsection \<open>Transactions in any order\<close>

datatype correction_op =
  AddRule string string string instant
| SetRuleState int bool bool
| DeleteRule int
| CreateRevision conversions string string string string int string instant
| UpdateRevision int "revision_cell list"
| PutExamples int string string "proposed list" instant
| ReviewExample int string string instant
| Recalculate
| SetMemoryState int bool bool string instant
| RecordApplications "application list"
| RecordEvaluation evaluation

definition or_unchanged :: "corrections \<Rightarrow> correction_error + corrections \<Rightarrow> corrections" where
  "or_unchanged d r = (case r of Inl err \<Rightarrow> d | Inr d' \<Rightarrow> d')"

fun correction_step :: "(string \<Rightarrow> string) \<Rightarrow> correction_op \<Rightarrow> corrections \<Rightarrow> corrections" where
  "correction_step f (AddRule p r ty now) d = add_correction_rule p r ty now d"
| "correction_step f (SetRuleState i a e) d = set_correction_rule_state i a e d"
| "correction_step f (DeleteRule i) d = delete_correction_rule i d"
| "correction_step f (CreateRevision cv job user path hash n learning now) d =
     (case create_correction_revision cv job user path hash n learning now d of
        Inl err \<Rightarrow> d | Inr (d', r) \<Rightarrow> d')"
| "correction_step f (UpdateRevision i cells) d = update_correction_revision i cells d"
| "correction_step f (PutExamples rid job user ps now) d =
     (if get_correction_revision rid (Some user) d = None then d else put_examples rid job user ps now d)"
| "correction_step f (ReviewExample i action reviewer now) d =
     or_unchanged d (review_transaction f i action reviewer now d)"
| "correction_step f Recalculate d = recalculate_correction_confidence d"
| "correction_step f (SetMemoryState i a e reviewer now) d = set_memory_rule_state i a e reviewer now d"
| "correction_step f (RecordApplications apps) d = or_unchanged d (record_correction_applications apps d)"
| "correction_step f (RecordEvaluation ev) d = or_unchanged d (record_correction_evaluation ev d)"

definition corrections_after :: "(string \<Rightarrow> string) \<Rightarrow> correction_op list \<Rightarrow> corrections" where
  "corrections_after f ops = fold (correction_step f) ops no_corrections"

text \<open>The methods of two transactions are runs of these steps.\<close>

lemma replace_is_run:
  assumes "replace_revision_examples rid job user ps now d = Inr d'"
  shows "d' = fold (correction_step f) [PutExamples rid job user ps now,
    UpdateRevision rid [ComparisonStatus ''completed'', ChangeCount (int (length ps))]] d"
  using assms by (auto simp: replace_revision_examples_def split: if_splits)

lemma review_is_run:
  assumes "review_correction_example f i action reviewer now d = Inr d'"
  shows "d' = fold (correction_step f) [ReviewExample i action reviewer now, Recalculate] d"
  using assms by (auto simp: review_correction_example_def or_unchanged_def split: sum.splits)

subsection \<open>What a step does to the memory\<close>

text \<open>A review that becomes or repeats a rule.\<close>

definition learns :: "(string \<Rightarrow> string) \<Rightarrow> int \<Rightarrow> string \<Rightarrow> corrections \<Rightarrow> example \<Rightarrow> revision \<Rightarrow> bool" where
  "learns f i reviewer d e r \<longleftrightarrow> e \<in> set (cd_examples d) \<and> ex_id e = i \<and> r \<in> set (cd_revisions d)
     \<and> rv_id r = ex_revision_id e \<and> teaches r e \<and> f (ex_user_id e) = f reviewer"

definition reviewed :: "int \<Rightarrow> string \<Rightarrow> string \<Rightarrow> instant \<Rightarrow> corrections \<Rightarrow> corrections" where
  "reviewed i action reviewer now d =
     d\<lparr>cd_examples := tbl_update (\<lambda>x. ex_id x = i) (review_example action reviewer now) (cd_examples d)\<rparr>"

lemma get_correction_revision_SomeD:
  "get_correction_revision i u d = Some r \<Longrightarrow> r \<in> set (cd_revisions d) \<and> rv_id r = i"
  by (auto simp: get_correction_revision_def dest: tbl_find_SomeD)

lemma review_transaction_cases:
  obtains (unchanged) err where "review_transaction f i action reviewer now d = Inl err"
  | (plain) "review_transaction f i action reviewer now d = Inr (reviewed i action reviewer now d)"
  | (learned) e r where "action = ''approved''" "learns f i reviewer d e r"
      "review_transaction f i action reviewer now d = Inr (learn e now (reviewed i action reviewer now d))"
proof -
  let ?P = "\<lambda>e. ex_id e = i \<and> get_correction_revision (ex_revision_id e) None d \<noteq> None"
  show thesis
  proof (cases "review_action action")
    case False
    then show thesis using unchanged by (simp add: review_transaction_def)
  next
    case act: True
    show thesis
    proof (cases "tbl_find ?P (cd_examples d)")
      case None
      then show thesis using act unchanged by (simp add: review_transaction_def)
    next
      case (Some e)
      have e: "e \<in> set (cd_examples d)" "ex_id e = i" using tbl_find_SomeD [OF Some] by auto
      obtain r where r: "get_correction_revision (ex_revision_id e) None d = Some r"
        using tbl_find_SomeD [OF Some] by auto
      show thesis
      proof (cases "f (ex_user_id e) = f reviewer")
        case False
        then show thesis using act Some unchanged by (simp add: review_transaction_def)
      next
        case own: True
        have eq: "review_transaction f i action reviewer now d =
            Inr (if action = ''approved'' \<and> teaches r e then learn e now (reviewed i action reviewer now d)
              else reviewed i action reviewer now d)"
          using act Some own r by (simp add: review_transaction_def reviewed_def Let_def)
        show thesis
        proof (cases "action = ''approved'' \<and> teaches r e")
          case True
          then have "learns f i reviewer d e r"
            using e r own get_correction_revision_SomeD by (auto simp: learns_def)
          then show thesis using learned [of e r] True eq by auto
        next
          case False
          then show thesis using plain eq by auto
        qed
      qed
    qed
  qed
qed

lemma fold_insert_example_memory: "cd_memory (fold (insert_example rid job u now) ps d) = cd_memory d"
  by (induction ps arbitrary: d) (simp_all add: insert_example_def)

lemma put_examples_memory: "cd_memory (put_examples rid job u ps now d) = cd_memory d"
  by (simp add: put_examples_def fold_insert_example_memory)

text \<open>Four steps touch the memory: a new rule, a repeated one, a recalculation, a change of state.\<close>

lemma memory_step_cases:
  obtains (same) "cd_memory (correction_step f x d) = cd_memory d"
  | (recalc) "cd_memory (correction_step f x d) = map (\<lambda>m. m\<lparr>mr_confidence := rule_confidence m\<rparr>) (cd_memory d)"
  | (state) i a e reviewer now where "x = SetMemoryState i a e reviewer now"
  | (learn) i reviewer now e r where "x = ReviewExample i ''approved'' reviewer now"
      "learns f i reviewer d e r"
      "correction_step f x d = learn e now (reviewed i ''approved'' reviewer now d)"
proof (cases x)
  case (ReviewExample i action reviewer now)
  show thesis
  proof (cases rule: review_transaction_cases [of f i action reviewer now d])
    case (unchanged err)
    then show thesis using same ReviewExample by (simp add: or_unchanged_def)
  next
    case plain
    then show thesis using same ReviewExample by (simp add: or_unchanged_def reviewed_def)
  next
    case (learned e r)
    then show thesis using learn ReviewExample by (simp add: or_unchanged_def)
  qed
next
  case (AddRule p r ty now)
  then show thesis using same by (simp add: add_correction_rule_def)
next
  case (CreateRevision cv job user path hash n learning now)
  then show thesis using same
    by (cases "create_correction_revision cv job user path hash n learning now d")
      (auto simp: create_correction_revision_def Let_def split: option.splits if_splits)
next
  case (PutExamples rid job u ps now)
  then show thesis using same by (simp add: put_examples_memory)
next
  case Recalculate
  then show thesis using recalc by (simp add: recalculate_correction_confidence_def)
next
  case (RecordApplications apps)
  then show thesis using same by (simp add: or_unchanged_def record_correction_applications_def)
next
  case (RecordEvaluation ev)
  then show thesis using same by (simp add: or_unchanged_def record_correction_evaluation_def)
qed (use same state in \<open>simp_all add: set_correction_rule_state_def delete_correction_rule_def update_correction_revision_def\<close>)

lemma learn_memory_cases:
  obtains (fresh) "cd_memory (learn e now d) = cd_memory d @ [new_memory_rule (next_id mr_id (cd_memory d)) e now]"
      "memory_key (new_memory_rule (next_id mr_id (cd_memory d)) e now) \<notin> memory_key ` set (cd_memory d)"
  | (again) k where "cd_memory (learn e now d) = tbl_update (\<lambda>m. memory_key m = k)
      (repeat_memory_rule (int (length (source_jobs (ex_wrong_text e) (ex_correct_text e) (cd_examples d)))) now)
      (cd_memory d)"
      "k = memory_key (new_memory_rule (next_id mr_id (cd_memory d)) e now)"
proof (cases "memory_key (new_memory_rule (next_id mr_id (cd_memory d)) e now) \<in> memory_key ` set (cd_memory d)")
  case True
  then show thesis by (intro again [OF _ refl]) (simp add: learn_def Let_def)
next
  case False
  then show thesis by (intro fresh) (simp_all add: learn_def Let_def)
qed

subsection \<open>Every rule was approved by someone\<close>

definition same_texts :: "memory_rule \<Rightarrow> memory_rule \<Rightarrow> bool" where
  "same_texts m m' \<longleftrightarrow> mr_wrong_text m = mr_wrong_text m' \<and> mr_correct_text m = mr_correct_text m'"

definition taught_by :: "memory_rule \<Rightarrow> example \<Rightarrow> bool" where
  "taught_by m e \<longleftrightarrow> mr_wrong_text m = ex_wrong_text e \<and> mr_correct_text m = ex_correct_text e"

lemma memory_step_origin:
  assumes "m \<in> set (cd_memory (correction_step f x d))"
  obtains (old) m0 where "m0 \<in> set (cd_memory d)" "same_texts m m0"
  | (taught) i reviewer now e r where "x = ReviewExample i ''approved'' reviewer now"
      "learns f i reviewer d e r" "taught_by m e"
proof (cases rule: memory_step_cases [of f x d])
  case same
  then show thesis using assms old [of m] by (simp add: same_texts_def)
next
  case recalc
  then show thesis using assms old by (auto simp: same_texts_def)
next
  case (state i a e reviewer now)
  then show thesis using assms old
    by (auto simp: set_memory_rule_state_def set_tbl_update same_texts_def split: if_splits)
next
  case (learn i reviewer now e r)
  let ?d = "reviewed i ''approved'' reviewer now d"
  have mem: "cd_memory ?d = cd_memory d" by (simp add: reviewed_def)
  show thesis
  proof (cases rule: learn_memory_cases [of e now ?d])
    case fresh
    then consider "m \<in> set (cd_memory d)" | "m = new_memory_rule (next_id mr_id (cd_memory d)) e now"
      using assms learn(3) mem by auto
    then show thesis
    proof cases
      case 1
      then show thesis using old [of m] by (simp add: same_texts_def)
    next
      case 2
      then show thesis using taught [OF learn(1,2)] by (simp add: taught_by_def new_memory_rule_def)
    qed
  next
    case (again k)
    then show thesis using assms learn(3) old mem
      by (auto simp: set_tbl_update same_texts_def repeat_memory_rule_def split: if_splits)
  qed
qed

lemma corrections_after_snoc: "corrections_after f (ops @ [x]) = correction_step f x (corrections_after f ops)"
  by (simp add: corrections_after_def)

lemma memory_rule_origin:
  assumes "m \<in> set (cd_memory (corrections_after f ops))"
  shows "\<exists>k i reviewer now e r. k < length ops \<and> ops ! k = ReviewExample i ''approved'' reviewer now
    \<and> learns f i reviewer (corrections_after f (take k ops)) e r \<and> taught_by m e"
  using assms
proof (induction ops arbitrary: m rule: rev_induct)
  case Nil
  then show ?case by (simp add: corrections_after_def no_corrections_def)
next
  case (snoc x ops)
  have "m \<in> set (cd_memory (correction_step f x (corrections_after f ops)))"
    using snoc.prems by (simp add: corrections_after_snoc)
  then show ?case
  proof (cases rule: memory_step_origin)
    case (old m0)
    from snoc.IH [OF old(1)] obtain k i reviewer now e r where "k < length ops"
      "ops ! k = ReviewExample i ''approved'' reviewer now"
      "learns f i reviewer (corrections_after f (take k ops)) e r" "taught_by m0 e" by blast
    moreover have "taught_by m e" using \<open>taught_by m0 e\<close> old(2) by (simp add: taught_by_def same_texts_def)
    ultimately show ?thesis by (intro exI [of _ k]) (auto simp: nth_append)
  next
    case (taught i reviewer now e r)
    then show ?thesis by (intro exI [of _ "length ops"]) auto
  qed
qed

subsection \<open>The invariant of the memory\<close>

definition memory_rule_ok :: "memory_rule \<Rightarrow> bool" where
  "memory_rule_ok m \<longleftrightarrow> mr_rejected_count m = 0 \<and> 1 \<le> mr_accepted_count m
     \<and> mr_occurrence_count m = mr_accepted_count m \<and> 1 \<le> mr_source_count m \<and> \<not> mr_is_sensitive m
     \<and> (mr_enabled m \<longrightarrow> mr_approved m) \<and> (mr_approved m \<longleftrightarrow> mr_approved_by m \<noteq> None)
     \<and> 0 \<le> mr_confidence m \<and> mr_confidence m \<le> 99 / 100
     \<and> mr_scope m = ''global'' \<and> mr_wrong_text m \<noteq> [] \<and> mr_correct_text m \<noteq> []"

definition memory_ok :: "corrections \<Rightarrow> bool" where
  "memory_ok d \<longleftrightarrow> list_all memory_rule_ok (cd_memory d) \<and> distinct (map memory_key (cd_memory d))
     \<and> distinct (map mr_id (cd_memory d))"

lemma fold_max_ge: "x \<le> fold (\<lambda>r n. max n (key r)) t x" for key :: "'r \<Rightarrow> int"
proof (induction t arbitrary: x)
  case Nil
  show ?case by simp
next
  case (Cons a t)
  have "x \<le> max x (key a)" by simp
  also have "\<dots> \<le> fold (\<lambda>r n. max n (key r)) t (max x (key a))" by (rule Cons.IH)
  finally show ?case by simp
qed

lemma next_id_greater: "r \<in> set t \<Longrightarrow> key r < next_id key t"
proof -
  assume "r \<in> set t"
  then have "key r \<le> fold (\<lambda>r n. max n (key r)) t x" for x
  proof (induction t arbitrary: x)
    case (Cons a t)
    have "key a \<le> fold (\<lambda>r n. max n (key r)) t (max x (key a))"
      by (rule order_trans [OF max.cobounded2 fold_max_ge])
    with Cons show ?case by auto
  qed simp
  from this [of 0] show ?thesis by (simp add: next_id_def)
qed

lemma next_id_unused: "next_id key t \<notin> key ` set t"
  using next_id_greater [of _ t key] by fastforce

lemma confidence_range:
  assumes "memory_rule_ok m"
  shows "rule_confidence m = min (99 / 100) (of_int (mr_source_count m) / 3)"
    and "0 \<le> rule_confidence m" and "rule_confidence m \<le> 99 / 100"
proof -
  have "of_int (mr_accepted_count m) / of_int (max 1 (mr_accepted_count m + mr_rejected_count m)) = (1 :: pyfloat)"
    using assms by (simp add: memory_rule_ok_def max_def)
  then have "rule_confidence m = min (99 / 100) (min 1 (of_int (mr_source_count m) / 3))"
    by (simp only: rule_confidence_def mult_1)
  also have "\<dots> = min (99 / 100) (of_int (mr_source_count m) / 3)" by (simp add: min_def)
  finally show eq: "rule_confidence m = min (99 / 100) (of_int (mr_source_count m) / 3)" .
  have "0 \<le> mr_source_count m" using assms by (simp add: memory_rule_ok_def)
  then show "0 \<le> rule_confidence m" and "rule_confidence m \<le> 99 / 100" by (simp_all add: eq)
qed

lemma recalculated_ok: "memory_rule_ok m \<Longrightarrow> memory_rule_ok (m\<lparr>mr_confidence := rule_confidence m\<rparr>)"
  using confidence_range(2,3) [of m] unfolding memory_rule_ok_def by auto

lemma new_memory_rule_ok: "teaches r e \<Longrightarrow> memory_rule_ok (new_memory_rule i e now)"
  by (simp add: memory_rule_ok_def new_memory_rule_def teaches_def)

lemma repeat_memory_rule_ok: "memory_rule_ok m \<Longrightarrow> 1 \<le> n \<Longrightarrow> memory_rule_ok (repeat_memory_rule n now m)"
  by (auto simp: memory_rule_ok_def repeat_memory_rule_def)

text \<open>The approval under way counts as a source.\<close>

lemma approved_is_source:
  assumes "learns f i reviewer d e r"
  shows "1 \<le> int (length (source_jobs (ex_wrong_text e) (ex_correct_text e)
    (cd_examples (reviewed i ''approved'' reviewer now d))))"
proof -
  let ?e = "review_example ''approved'' reviewer now e"
  have "?e \<in> set (cd_examples (reviewed i ''approved'' reviewer now d))"
    using assms by (auto simp: learns_def reviewed_def set_tbl_update)
  moreover have "ex_wrong_text ?e = ex_wrong_text e" "ex_correct_text ?e = ex_correct_text e"
    "ex_status ?e = ''approved''" by (simp_all add: review_example_def)
  ultimately have "ex_job_id ?e \<in> set (source_jobs (ex_wrong_text e) (ex_correct_text e)
      (cd_examples (reviewed i ''approved'' reviewer now d)))"
    unfolding source_jobs_def set_fromkeys set_map set_filter by blast
  then show ?thesis by (cases "source_jobs (ex_wrong_text e) (ex_correct_text e)
      (cd_examples (reviewed i ''approved'' reviewer now d))") auto
qed

lemma list_all_tbl_update:
  "list_all Q t \<Longrightarrow> (\<And>r. Q r \<Longrightarrow> P r \<Longrightarrow> Q (f r)) \<Longrightarrow> list_all Q (tbl_update P f t)"
  by (auto simp: list_all_iff set_tbl_update)

lemma memory_key_simps [simp]:
  "memory_key (m\<lparr>mr_confidence := c\<rparr>) = memory_key m"
  "memory_key (repeat_memory_rule n now m) = memory_key m"
  "memory_key (m\<lparr>mr_approved := a, mr_enabled := b, mr_approved_by := u, mr_approved_at := s, mr_updated_at := s'\<rparr>)
     = memory_key m"
  by (simp_all add: memory_key_def repeat_memory_rule_def)

lemma memory_step_keeps:
  assumes "memory_ok d"
  shows "memory_ok (correction_step f x d)"
proof (cases rule: memory_step_cases [of f x d])
  case same
  then show ?thesis using assms by (simp add: memory_ok_def)
next
  case recalc
  then show ?thesis using assms
    by (simp add: memory_ok_def list_all_iff recalculated_ok comp_def)
next
  case (state i a e reviewer now)
  then show ?thesis using assms unfolding memory_ok_def
    by (auto simp: set_memory_rule_state_def tbl_update_keys memory_rule_ok_def intro!: list_all_tbl_update)
next
  case (learn i reviewer now e r)
  let ?d = "reviewed i ''approved'' reviewer now d"
  have mem: "cd_memory ?d = cd_memory d" by (simp add: reviewed_def)
  have t: "teaches r e" using learn(2) by (simp add: learns_def)
  note n = approved_is_source [OF learn(2)]
  show ?thesis
  proof (cases rule: learn_memory_cases [of e now ?d])
    case fresh
    then show ?thesis using assms learn(3) mem new_memory_rule_ok [OF t] next_id_unused [of mr_id "cd_memory d"]
      by (simp add: memory_ok_def new_memory_rule_def)
  next
    case (again k)
    then show ?thesis using assms learn(3) mem repeat_memory_rule_ok [OF _ n] unfolding memory_ok_def
      by (simp add: tbl_update_keys list_all_tbl_update)
        (simp add: repeat_memory_rule_def tbl_update_keys)
  qed
qed

interpretation correction_memory: kept_invariant "correction_step f" memory_ok for f
  by unfold_locales (rule memory_step_keeps)

lemma memory_reachable_ok: "memory_ok (corrections_after f ops)"
  unfolding corrections_after_def
  by (rule correction_memory.run_keeps) (simp add: memory_ok_def no_corrections_def)

subsection \<open>The revisions of a job are numbered\<close>

definition job_revisions :: "string \<Rightarrow> corrections \<Rightarrow> revision list" where
  "job_revisions job d = filter (\<lambda>r. rv_job_id r = job) (cd_revisions d)"

definition numbered :: "corrections \<Rightarrow> bool" where
  "numbered d \<longleftrightarrow> (\<forall>job. map rv_version (job_revisions job d) = map int [1..<Suc (length (job_revisions job d))]
     \<and> distinct (map rv_file_hash (job_revisions job d)))"

lemma next_id_map: "next_id key t = next_id id (map key t)"
proof -
  have "fold (\<lambda>r n. max n (key r)) t x = fold (\<lambda>r n. max n (id r)) (map key t) x" for x
    by (induction t arbitrary: x) simp_all
  then show ?thesis by (simp add: next_id_def)
qed

lemma next_id_upt: "next_id id (map int [1..<Suc n]) = int n + 1"
  by (induction n) (simp_all add: next_id_def)

lemma next_version_numbered:
  assumes "numbered d"
  shows "next_version job d = int (length (job_revisions job d)) + 1"
proof -
  have "next_version job d = next_id id (map rv_version (job_revisions job d))"
    by (simp add: next_version_def job_revisions_def next_id_map [of rv_version])
  also have "map rv_version (job_revisions job d) = map int [1..<Suc (length (job_revisions job d))]"
    using assms by (simp add: numbered_def)
  finally show ?thesis by (simp only: next_id_upt)
qed

text \<open>A number is never taken twice, so only a repeated file is refused by the table.\<close>

lemma create_revision_outcome:
  assumes "numbered d"
  shows "create_correction_revision cv job username path hash nbytes learning now d =
     (if get_user_conversion job username cv = None
      then Inl (CorrectionPermissionError ''Conversion does not belong to this user'')
      else if hash \<in> rv_file_hash ` set (job_revisions job d) then Inl CorrectionIntegrityError
      else let fresh = \<lparr>rv_id = next_id rv_id (cd_revisions d), rv_job_id = job, rv_user_id = username,
             rv_version = int (length (job_revisions job d)) + 1, rv_stored_path = path, rv_file_hash = hash,
             rv_file_size = nbytes, rv_uploaded_at = At now, rv_uploaded_by = username,
             rv_comparison_status = ''pending'', rv_learning_status = learning, rv_change_count = 0\<rparr>
           in Inr (d\<lparr>cd_revisions := cd_revisions d @ [fresh]\<rparr>, fresh))"
proof -
  let ?v = "int (length (job_revisions job d)) + 1"
  have "v \<le> int (length (job_revisions job d))" if "v \<in> set (map rv_version (job_revisions job d))" for v
  proof -
    have "v \<in> set (map int [1..<Suc (length (job_revisions job d))])"
      using that assms unfolding numbered_def by (simp del: upt_Suc set_map)
    then show ?thesis by auto
  qed
  then have "?v \<notin> set (map rv_version (job_revisions job d))" by force
  then have free: "(job, ?v) \<notin> (\<lambda>r. (rv_job_id r, rv_version r)) ` set (cd_revisions d)"
    by (auto simp: job_revisions_def)
  have same: "(job, hash) \<in> (\<lambda>r. (rv_job_id r, rv_file_hash r)) ` set (cd_revisions d)
      \<longleftrightarrow> hash \<in> rv_file_hash ` set (job_revisions job d)"
    by (auto simp: job_revisions_def)
  show ?thesis
    by (simp add: create_correction_revision_def next_version_numbered [OF assms] Let_def free same
        split: option.split)
qed

lemma fold_insert_example_revisions: "cd_revisions (fold (insert_example rid job u now) ps d) = cd_revisions d"
  by (induction ps arbitrary: d) (simp_all add: insert_example_def)

lemma learn_revisions: "cd_revisions (learn e now d) = cd_revisions d"
  by (simp add: learn_def Let_def)

lemma revision_step_cases:
  obtains (same) "cd_revisions (correction_step f x d) = cd_revisions d"
  | (update) i cells where "x = UpdateRevision i cells"
  | (create) cv job user path hash n learning now where "x = CreateRevision cv job user path hash n learning now"
proof (cases x)
  case (ReviewExample i action reviewer now)
  show thesis
    by (cases rule: review_transaction_cases [of f i action reviewer now d])
      (use same ReviewExample in \<open>simp_all add: or_unchanged_def reviewed_def learn_revisions\<close>)
next
  case (PutExamples rid job u ps now)
  then show thesis using same by (simp add: put_examples_def fold_insert_example_revisions)
next
  case (AddRule p r ty now)
  then show thesis using same by (simp add: add_correction_rule_def)
qed (use same update create in \<open>simp_all add: set_correction_rule_state_def delete_correction_rule_def
  recalculate_correction_confidence_def set_memory_rule_state_def or_unchanged_def
  record_correction_applications_def record_correction_evaluation_def\<close>)

lemma revision_cells_keep:
  "rv_job_id (fold set_revision_cell cells r) = rv_job_id r"
  "rv_version (fold set_revision_cell cells r) = rv_version r"
  "rv_file_hash (fold set_revision_cell cells r) = rv_file_hash r"
proof (induction cells arbitrary: r)
  case (Cons c cells)
  { case 1 show ?case using Cons(1) by (cases c) simp_all }
  { case 2 show ?case using Cons(2) by (cases c) simp_all }
  { case 3 show ?case using Cons(3) by (cases c) simp_all }
qed simp_all

lemma job_revisions_update:
  assumes "\<And>r. rv_job_id (g r) = rv_job_id r"
  shows "filter (\<lambda>r. rv_job_id r = job) (tbl_update P g t) = tbl_update P g (filter (\<lambda>r. rv_job_id r = job) t)"
  using assms by (induction t) (auto simp: tbl_update_def)

lemma numbered_keeps:
  assumes "numbered d"
  shows "numbered (correction_step f x d)"
proof (cases rule: revision_step_cases [of f x d])
  case same
  then show ?thesis using assms by (simp add: numbered_def job_revisions_def)
next
  case (update i cells)
  then have "job_revisions job (correction_step f x d)
      = tbl_update (\<lambda>r. rv_id r = i) (fold set_revision_cell cells) (job_revisions job d)" for job
    by (simp add: job_revisions_def update_correction_revision_def job_revisions_update revision_cells_keep)
  then show ?thesis using assms
    by (simp add: numbered_def length_tbl_update tbl_update_keys revision_cells_keep)
next
  case (create cv job user path hash n learning now)
  show ?thesis
  proof (cases "get_user_conversion job user cv = None \<or> hash \<in> rv_file_hash ` set (job_revisions job d)")
    case True
    then have "correction_step f x d = d" using create by (auto simp: create_revision_outcome [OF assms])
    then show ?thesis using assms by simp
  next
    case False
    then obtain fresh where eq: "cd_revisions (correction_step f x d) = cd_revisions d @ [fresh]"
      and fresh: "rv_job_id fresh = job" "rv_version fresh = int (length (job_revisions job d)) + 1"
        "rv_file_hash fresh = hash"
      using create by (auto simp: create_revision_outcome [OF assms] Let_def)
    have "job_revisions j (correction_step f x d) = job_revisions j d @ (if j = job then [fresh] else [])" for j
      by (simp add: job_revisions_def eq fresh)
    then show ?thesis using assms False fresh by (simp add: numbered_def)
  qed
qed

interpretation correction_revisions: kept_invariant "correction_step f" numbered for f
  by unfold_locales (rule numbered_keeps)

lemma numbered_reachable: "numbered (corrections_after f ops)"
  unfolding corrections_after_def
  by (rule correction_revisions.run_keeps) (simp add: numbered_def no_corrections_def job_revisions_def)

subsection \<open>Who enabled a rule\<close>

lemma enabled_step:
  assumes "m \<in> set (cd_memory (correction_step f x d))" and "mr_enabled m"
  obtains (old) m0 where "m0 \<in> set (cd_memory d)" "mr_id m0 = mr_id m" "mr_enabled m0"
  | (now) reviewer now where "x = SetMemoryState (mr_id m) True True reviewer now"
proof (cases rule: memory_step_cases [of f x d])
  case same
  then show thesis using assms old [of m] by simp
next
  case recalc
  then show thesis using assms old by auto
next
  case (state i a e reviewer t)
  then obtain m0 where m0: "m0 \<in> set (cd_memory d)"
    and m: "m = (if mr_id m0 = i \<and> \<not> mr_is_sensitive m0
      then m0\<lparr>mr_approved := a, mr_enabled := a \<and> e, mr_approved_by := (if a then Some reviewer else None),
             mr_approved_at := (if a then At t else Never), mr_updated_at := At t\<rparr> else m0)"
    using assms(1) by (auto simp: set_memory_rule_state_def set_tbl_update)
  show thesis
  proof (cases "mr_id m0 = i \<and> \<not> mr_is_sensitive m0")
    case True
    then have "x = SetMemoryState (mr_id m) True True reviewer t" using m assms(2) state by simp
    then show thesis by (rule now)
  next
    case False
    then have "m = m0" using m by auto
    then show thesis using m0 assms(2) old by simp
  qed
next
  case (learn i reviewer t e r)
  let ?d = "reviewed i ''approved'' reviewer t d"
  have mem: "cd_memory ?d = cd_memory d" by (simp add: reviewed_def)
  show thesis
  proof (cases rule: learn_memory_cases [of e t ?d])
    case fresh
    then show thesis using assms learn(3) mem old by (auto simp: new_memory_rule_def)
  next
    case (again k)
    then show thesis using assms learn(3) mem old
      by (auto simp: set_tbl_update repeat_memory_rule_def split: if_splits)
  qed
qed

lemma enabled_rule_origin:
  assumes "m \<in> set (cd_memory (corrections_after f ops))" and "mr_enabled m"
  shows "\<exists>reviewer now. SetMemoryState (mr_id m) True True reviewer now \<in> set ops"
  using assms
proof (induction ops arbitrary: m rule: rev_induct)
  case Nil
  then show ?case by (simp add: corrections_after_def no_corrections_def)
next
  case (snoc x ops)
  have "m \<in> set (cd_memory (correction_step f x (corrections_after f ops)))"
    using snoc.prems by (simp add: corrections_after_snoc)
  then show ?case using snoc.prems(2)
  proof (cases rule: enabled_step)
    case (old m0)
    then show ?thesis using snoc.IH [of m0] by auto
  qed auto
qed

subsection \<open>Examples\<close>

text \<open>
  Three users correct the same word; only the first lets the server learn from it. The first approves
  the example, then the two others approve theirs, then the first once more.
\<close>

definition sample_row :: "string \<Rightarrow> conversion" where
  "sample_row job = new_conversion 1 job ''ann'' [] [] [] 0"

definition sample_proposal :: proposed where
  "sample_proposal = \<lparr>pr_wrong_text = ''teh'', pr_correct_text = ''the'', pr_context_before = [],
     pr_context_after = [], pr_paragraph_index = Some 0, pr_sentence_index = Some 0,
     pr_change_type = ''replacement'', pr_language = ''en'', pr_is_sensitive = False\<rparr>"

definition sample_revision :: "int \<Rightarrow> string \<Rightarrow> string \<Rightarrow> correction_op list" where
  "sample_revision i job learning =
     [CreateRevision [sample_row job] job ''ann'' ''v.docx'' ''h'' 10 learning 0,
      PutExamples i job ''ann'' [sample_proposal] 1]"

definition sample_approvals :: "correction_op list" where
  "sample_approvals = sample_revision 1 ''a'' ''learning'' @ sample_revision 2 ''b'' ''review_only''
     @ sample_revision 3 ''c'' ''review_only''
     @ [ReviewExample 1 ''approved'' ''ann'' 2, ReviewExample 2 ''approved'' ''ann'' 3,
        ReviewExample 3 ''approved'' ''ann'' 4, ReviewExample 1 ''approved'' ''ann'' 5,
        SetMemoryState 1 True True ''root'' 6, Recalculate]"

lemma sample_approved:
  "map (\<lambda>m. (mr_id m, mr_wrong_text m, mr_source_count m, mr_confidence m)) (active_memory_rules 3 (9 / 10)
     (corrections_after py_lower sample_approvals)) = [(1, ''teh'', 3, 99 / 100)]"
  by code_simp

text \<open>So the revisions that were only to be reviewed make up two of the three sources of an active rule.\<close>

lemma unconsented_sources_activate:
  "length (active_memory_rules 3 (9 / 10) (corrections_after py_lower sample_approvals)) = 1
   \<and> map rv_learning_status (cd_revisions (corrections_after py_lower sample_approvals))
       = [''learning'', ''review_only'', ''review_only'']"
  by code_simp

text \<open>A rejection changes no rule, whatever the rule was learned from.\<close>

lemma rejection_keeps_rules:
  "cd_memory (correction_step f (ReviewExample i ''rejected'' reviewer now) d) = cd_memory d"
proof (cases rule: review_transaction_cases [of f i "''rejected''" reviewer now d])
  case (learned e r)
  then show ?thesis by simp
qed (simp_all add: or_unchanged_def reviewed_def)

subsection \<open>Properties\<close>



text \<open>
  The revisions of a job are numbered in the order of their upload from 1 without gaps, no file is
  uploaded twice for a job, and an upload is refused only to a user who does not own the conversion or
  for a file the job already has; otherwise its number is one more than the last.
\<close>

theorem revisions_are_numbered:
  "map rv_version (job_revisions job (corrections_after f ops))
     = map int [1..<Suc (length (job_revisions job (corrections_after f ops)))]
   \<and> distinct (map rv_file_hash (job_revisions job (corrections_after f ops)))
   \<and> map_sum id (rv_version \<circ> snd)
       (create_correction_revision cv job username path hash nbytes learning now (corrections_after f ops))
     = (if get_user_conversion job username cv = None
        then Inl (CorrectionPermissionError ''Conversion does not belong to this user'')
        else if hash \<in> rv_file_hash ` set (job_revisions job (corrections_after f ops))
        then Inl CorrectionIntegrityError
        else Inr (int (length (job_revisions job (corrections_after f ops))) + 1))"
proof -
  have "numbered (corrections_after f ops)" by (rule numbered_reachable)
  then show ?thesis
    by (simp add: create_revision_outcome Let_def del: upt_Suc) (simp add: numbered_def del: upt_Suc)
qed

end
