(* ===== verification/Correction_Rules.thy ===== *)
theory Correction_Rules
  imports Corrections Worker_Api
begin

text \<open>
  Rules of the correction memory at work: the snapshot the server sends (\<open>correction_snapshot\<close> of
  \<open>pdfword/worker_api.py\<close>), their application to the text of a page (\<open>apply_correction_rules\<close> of
  \<open>correction_learning.py\<close>, called by \<open>conversion_service.py\<close>), and the records of applications that
  \<open>upload_result\<close> takes from a worker. \<open>str\<close> of a JSON value that is not a text is the argument \<open>show\<close>.
\<close>

subsection \<open>Applying rules to a page\<close>

text \<open>A rule as the snapshot sends it.\<close>

record rule_payload =
  rp_id :: int
  rp_wrong_text :: string
  rp_correct_text :: string
  rp_context_pattern :: string
  rp_scope :: string
  rp_scope_value :: string
  rp_language :: string
  rp_document_type :: string
  rp_confidence :: pyfloat
  rp_approved :: bool
  rp_enabled :: bool
  rp_is_sensitive :: bool
  rp_threshold :: pyfloat

text \<open>An entry of \<open>applications\<close>; its \<open>context_match\<close> is always true.\<close>

record rule_application =
  ra_rule_id :: int
  ra_before :: string
  ra_after :: string
  ra_confidence :: pyfloat
  ra_count :: int

record applied =
  at_text :: string
  at_occupied :: "string list"
  at_applications :: "rule_application list"
  at_conflicts :: "(int \<times> string) list"

definition eligible :: "string \<Rightarrow> string \<Rightarrow> rule_payload \<Rightarrow> bool" where
  "eligible job document_type r \<longleftrightarrow>
     rp_approved r \<and> rp_enabled r \<and> \<not> rp_is_sensitive r
     \<and> \<not> rp_confidence r < (if rp_threshold r = 0 then 9 / 10 else rp_threshold r)
     \<and> \<not> (rp_scope r = ''job_only'' \<and> rp_scope_value r \<noteq> job)
     \<and> \<not> (rp_scope r = ''document_type'' \<and> rp_scope_value r \<noteq> document_type)"

definition apply_rule :: "rule_payload \<Rightarrow> applied \<Rightarrow> applied" where
  "apply_rule r s =
     (let wrong = rp_wrong_text r; context_text = rp_context_pattern r in
      if wrong \<in> set (at_occupied s) then s\<lparr>at_conflicts := at_conflicts s @ [(rp_id r, wrong)]\<rparr>
      else if wrong = [] \<or> \<not> contains wrong (at_text s) then s
      else if context_text \<noteq> [] \<and> \<not> contains context_text (at_text s) then s
      else
        let n = py_count wrong (at_text s);
            s' = s\<lparr>at_text := py_replace wrong (rp_correct_text r) (at_text s)\<rparr>
        in if n = 0 then s'
           else s'\<lparr>at_occupied := at_occupied s @ [wrong],
                   at_applications := at_applications s @
                     [\<lparr>ra_rule_id = rp_id r, ra_before = wrong, ra_after = rp_correct_text r,
                       ra_confidence = rp_confidence r, ra_count = int n\<rparr>]\<rparr>)"

definition apply_correction_rules :: "string \<Rightarrow> string \<Rightarrow> rule_payload list \<Rightarrow> string \<Rightarrow> applied" where
  "apply_correction_rules job document_type rules s =
     fold apply_rule (sort_key (\<lambda>r. (- rp_confidence r, rp_id r)) (filter (eligible job document_type) rules))
       \<lparr>at_text = s, at_occupied = [], at_applications = [], at_conflicts = []\<rparr>"

text \<open>The pages of a conversion: their new texts, and every application in order.\<close>

definition corrected_pages :: "string \<Rightarrow> rule_payload list \<Rightarrow> string list \<Rightarrow> string list \<times> rule_application list" where
  "corrected_pages job rules pages =
     (let rs = map (apply_correction_rules job [] rules) pages
      in (map at_text rs, concat (map at_applications rs)))"

subsection \<open>The snapshot\<close>

record correction_config =
  cc_memory_enabled :: bool
  cc_min_source_files :: int
  cc_auto_apply_threshold :: pyfloat
  cc_max_rules_per_page :: nat

definition rule_payload_of :: "pyfloat \<Rightarrow> memory_rule \<Rightarrow> rule_payload" where
  "rule_payload_of threshold m =
     \<lparr>rp_id = mr_id m, rp_wrong_text = mr_wrong_text m, rp_correct_text = mr_correct_text m,
      rp_context_pattern = mr_context_pattern m, rp_scope = mr_scope m, rp_scope_value = mr_scope_value m,
      rp_language = mr_language m, rp_document_type = mr_document_type m, rp_confidence = mr_confidence m,
      rp_approved = mr_approved m, rp_enabled = mr_enabled m, rp_is_sensitive = mr_is_sensitive m,
      rp_threshold = threshold\<rparr>"

text \<open>The list \<open>rules\<close> of the answer.\<close>

definition correction_snapshot :: "correction_config \<Rightarrow> corrections \<Rightarrow> rule_payload list" where
  "correction_snapshot c d =
     (let rules = (if cc_memory_enabled c
                   then active_memory_rules (cc_min_source_files c) (cc_auto_apply_threshold c) d else [])
      in take (cc_max_rules_per_page c) (map (rule_payload_of (cc_auto_apply_threshold c)) rules))"

subsection \<open>What a worker reports\<close>

definition application_json :: "rule_application \<Rightarrow> json" where
  "application_json a =
     JObj [(''rule_id'', JInt (ra_rule_id a)), (''before'', JStr (ra_before a)), (''after'', JStr (ra_after a)),
           (''confidence'', JFloat (ra_confidence a)), (''context_match'', JBool True),
           (''count'', JInt (ra_count a))]"

definition text_or_empty :: "(json \<Rightarrow> string) \<Rightarrow> json \<Rightarrow> string" where
  "text_or_empty show v = (case py_or v (JStr []) of JStr s \<Rightarrow> s | w \<Rightarrow> show w)"

text \<open>The items that are kept; \<open>None\<close> is the \<open>OverflowError\<close> of \<open>float\<close>, which is not caught.\<close>

fun normalized_applications ::
  "server_env \<Rightarrow> (json \<Rightarrow> string) \<Rightarrow> string \<Rightarrow> json list \<Rightarrow> application list option" where
  "normalized_applications env show job [] = Some []"
| "normalized_applications env show job (JObj item # items) =
     (case obj_get item ''rule_id'' of
        JStr rule_id \<Rightarrow>
          if rule_id = [] then normalized_applications env show job items
          else case float_of (se_parse_float env) (py_or (obj_get item ''confidence'') (JFloat 0)) of
            TooLarge \<Rightarrow> None
          | v \<Rightarrow>
              map_option ((#) \<lparr>ap_job_id = job, ap_rule_id = utf8_take 200 rule_id,
                ap_before_text = text_or_empty show (obj_get item ''before''),
                ap_after_text = text_or_empty show (obj_get item ''after''),
                ap_confidence = (case v of Number x \<Rightarrow> x | _ \<Rightarrow> Finite 0),
                ap_context_match = truthy (obj_get item ''context_match''), ap_applied_at = At (se_now env)\<rparr>)
                (normalized_applications env show job items)
      | _ \<Rightarrow> normalized_applications env show job items)"
| "normalized_applications env show job (item # items) = normalized_applications env show job items"

text \<open>The end of \<open>upload_result\<close>, after the conversion has been completed.\<close>

definition record_uploaded_applications ::
  "server_env \<Rightarrow> (json \<Rightarrow> string) \<Rightarrow> string \<Rightarrow> (string \<times> json) list \<Rightarrow> corrections
    \<Rightarrow> corrections \<times> unit response" where
  "record_uploaded_applications env show job values d =
     (case py_or (obj_get values ''correction_applications'') (JList []) of
        JList items \<Rightarrow>
          (case normalized_applications env show job (take 500 items) of
             None \<Rightarrow> (d, internal_error)
           | Some apps \<Rightarrow>
               (case record_correction_applications apps d of
                  Inl err \<Rightarrow> (d, internal_error)
                | Inr d' \<Rightarrow> (d', Reply ())))
      | _ \<Rightarrow> (d, Reply ()))"

subsection \<open>What applying rules does\<close>

definition replay :: "rule_application list \<Rightarrow> string \<Rightarrow> string" where
  "replay apps s = fold (\<lambda>a. py_replace (ra_before a) (ra_after a)) apps s"

definition source_of :: "rule_payload \<Rightarrow> int \<times> string \<times> string \<times> pyfloat" where
  "source_of r = (rp_id r, rp_wrong_text r, rp_correct_text r, rp_confidence r)"

definition recorded_as :: "rule_application \<Rightarrow> int \<times> string \<times> string \<times> pyfloat" where
  "recorded_as a = (ra_rule_id a, ra_before a, ra_after a, ra_confidence a)"

text \<open>How the texts of the applications change the length.\<close>

definition growth :: "rule_application list \<Rightarrow> int" where
  "growth apps = (\<Sum>a \<leftarrow> apps. ra_count a * (int (length (ra_after a)) - int (length (ra_before a))))"

lemma replay_snoc: "replay (apps @ [a]) s = py_replace (ra_before a) (ra_after a) (replay apps s)"
  by (simp add: replay_def)

lemma growth_snoc:
  "growth (apps @ [a]) = growth apps + ra_count a * (int (length (ra_after a)) - int (length (ra_before a)))"
  by (simp add: growth_def)

definition explained :: "string \<Rightarrow> rule_payload set \<Rightarrow> applied \<Rightarrow> bool" where
  "explained s rules st \<longleftrightarrow> at_text st = replay (at_applications st) s
     \<and> int (length (at_text st)) = int (length s) + growth (at_applications st)
     \<and> at_occupied st = map ra_before (at_applications st) \<and> distinct (at_occupied st)
     \<and> [] \<notin> set (at_occupied st) \<and> list_all (\<lambda>a. 1 \<le> ra_count a) (at_applications st)
     \<and> recorded_as ` set (at_applications st) \<subseteq> source_of ` rules"

lemma apply_rule_cases:
  obtains (conflict) c where "apply_rule r s = s\<lparr>at_conflicts := c\<rparr>"
  | (nothing) "apply_rule r s = s"
  | (changed) n a where "apply_rule r s = s\<lparr>at_text := py_replace (rp_wrong_text r) (rp_correct_text r) (at_text s),
        at_occupied := at_occupied s @ [rp_wrong_text r], at_applications := at_applications s @ [a]\<rparr>"
      "rp_wrong_text r \<notin> set (at_occupied s)" "rp_wrong_text r \<noteq> []" "n = py_count (rp_wrong_text r) (at_text s)"
      "0 < n" "ra_count a = int n" "recorded_as a = source_of r"
proof -
  let ?w = "rp_wrong_text r"
  let ?n = "py_count ?w (at_text s)"
  let ?a = "\<lparr>ra_rule_id = rp_id r, ra_before = ?w, ra_after = rp_correct_text r,
    ra_confidence = rp_confidence r, ra_count = int ?n\<rparr>"
  show thesis
  proof (cases "?w \<in> set (at_occupied s) \<or> ?w = [] \<or> \<not> contains ?w (at_text s)
      \<or> (rp_context_pattern r \<noteq> [] \<and> \<not> contains (rp_context_pattern r) (at_text s))")
    case True
    show thesis
    proof (cases "?w \<in> set (at_occupied s)")
      case True
      then show thesis using conflict by (simp add: apply_rule_def Let_def)
    next
      case False
      with True have "apply_rule r s = s" by (auto simp: apply_rule_def Let_def)
      then show thesis by (rule nothing)
    qed
  next
    case False
    then have n: "0 < ?n" by (simp add: py_count_contains)
    show thesis
    proof (rule changed [of ?a ?n])
      show "apply_rule r s = s\<lparr>at_text := py_replace ?w (rp_correct_text r) (at_text s),
          at_occupied := at_occupied s @ [?w], at_applications := at_applications s @ [?a]\<rparr>"
        using False n by (auto simp: apply_rule_def Let_def)
    qed (use False n in \<open>simp_all add: recorded_as_def source_of_def\<close>)
  qed
qed

lemma apply_rule_explained:
  assumes "explained s rules st" and "r \<in> rules"
  shows "explained s rules (apply_rule r st)"
proof (cases rule: apply_rule_cases [of r st])
  case (changed n a)
  have ab: "ra_before a = rp_wrong_text r" "ra_after a = rp_correct_text r"
    using changed(7) by (simp_all add: recorded_as_def source_of_def)
  have "int (length (py_replace (rp_wrong_text r) (rp_correct_text r) (at_text st)))
      = int (length (at_text st)) + int n * (int (length (rp_correct_text r)) - int (length (rp_wrong_text r)))"
    using arg_cong [OF py_replace_length [OF changed(3), of "rp_correct_text r" "at_text st"], of int]
    by (simp add: changed(4) algebra_simps)
  moreover have "recorded_as a \<in> source_of ` rules" using changed(7) assms(2) by simp
  ultimately show ?thesis using assms(1) changed(1,2,3,5,6) ab
    by (auto simp: explained_def replay_snoc growth_snoc)
qed (use assms(1) in \<open>auto simp: explained_def\<close>)

lemma applied_explained:
  "explained s (set (filter (eligible job ty) rules)) (apply_correction_rules job ty rules s)"
proof -
  let ?R = "set (filter (eligible job ty) rules)"
  have "explained s ?R (fold apply_rule rs st)" if "explained s ?R st" "set rs \<subseteq> ?R" for rs st
    using that by (induction rs arbitrary: st) (auto simp: apply_rule_explained)
  then show ?thesis unfolding apply_correction_rules_def
    by (rule meta_mp [OF meta_mp]) (simp_all add: explained_def replay_def growth_def)
qed

subsection \<open>The snapshot at a worker\<close>

lemma sorted_active: "set (active_memory_rules k t d) = {m \<in> set (cd_memory d). active_rule k t m}"
  by (auto simp: active_memory_rules_def)

lemma snapshot_rule:
  assumes "r \<in> set (correction_snapshot c d)"
  obtains m where "m \<in> set (cd_memory d)" "active_rule (cc_min_source_files c) (cc_auto_apply_threshold c) m"
    "r = rule_payload_of (cc_auto_apply_threshold c) m"
  using in_set_takeD [OF assms [unfolded correction_snapshot_def Let_def]] that
  by (auto simp: sorted_active split: if_splits)

lemma snapshot_eligible:
  assumes "memory_ok d" and "r \<in> set (correction_snapshot c d)"
  shows "eligible job ty r \<longleftrightarrow> cc_auto_apply_threshold c \<noteq> 0 \<or> 9 / 10 \<le> rp_confidence r"
proof -
  obtain m where m: "m \<in> set (cd_memory d)" "active_rule (cc_min_source_files c) (cc_auto_apply_threshold c) m"
    "r = rule_payload_of (cc_auto_apply_threshold c) m" using assms(2) by (rule snapshot_rule)
  have "mr_scope m = ''global''" using assms(1) m(1) by (simp add: memory_ok_def list_all_iff memory_rule_ok_def)
  then show ?thesis using m(2,3) by (auto simp: eligible_def active_rule_def rule_payload_of_def)
qed

lemma numbers_are_dropped: "normalized_applications env show job (map application_json apps) = Some []"
  by (induction apps) (simp_all add: application_json_def obj_get_def obj_get_or_def)

subsection \<open>Examples\<close>

definition sample_config :: correction_config where
  "sample_config = \<lparr>cc_memory_enabled = True, cc_min_source_files = 3, cc_auto_apply_threshold = 9 / 10,
     cc_max_rules_per_page = 50\<rparr>"

lemma sample_correction:
  "map recorded_as (at_applications (apply_correction_rules ''a'' []
     (correction_snapshot sample_config (corrections_after py_lower sample_approvals)) ''teh end of teh page''))
     = [(1, ''teh'', ''the'', 99 / 100)]"
  by code_simp

text \<open>A NaN as the confidence of a reported application fails after the conversion is completed.\<close>

lemma nan_confidence_fails_upload:
  assumes "se_parse_float env ''nan'' = Some NaN"
  shows "record_uploaded_applications env show job
    [(''correction_applications'', JList [JObj [(''rule_id'', JStr ''7''), (''confidence'', JStr ''nan'')]])] d
      = (d, internal_error)"
  using assms
  by (simp add: record_uploaded_applications_def obj_get_def obj_get_or_def py_or_def float_of_def
      record_correction_applications_def)

subsection \<open>Properties\<close>

text \<open>
  What a worker changed in a page is what it recorded: replacing the recorded texts in the recorded
  order turns the old text into the new one, the recorded counts account for the change in length, no
  text is replaced under two rules, and every record is of a rule of the list that is approved, enabled,
  not sensitive and of enough confidence.
\<close>

theorem corrections_are_explained:
  "let st = apply_correction_rules job ty rules s in
     at_text st = replay (at_applications st) s
     \<and> int (length (at_text st)) = int (length s) + growth (at_applications st)
     \<and> distinct (map ra_before (at_applications st)) \<and> [] \<notin> set (map ra_before (at_applications st))
     \<and> recorded_as ` set (at_applications st) \<subseteq> source_of ` {r. r \<in> set rules \<and> rp_approved r \<and> rp_enabled r
         \<and> \<not> rp_is_sensitive r \<and> (if rp_threshold r = 0 then 9 / 10 else rp_threshold r) \<le> rp_confidence r}"
proof -
  have "set (filter (eligible job ty) rules) \<subseteq> {r. r \<in> set rules \<and> rp_approved r \<and> rp_enabled r
      \<and> \<not> rp_is_sensitive r \<and> (if rp_threshold r = 0 then 9 / 10 else rp_threshold r) \<le> rp_confidence r}"
    by (auto simp: eligible_def)
  then have "source_of ` set (filter (eligible job ty) rules) \<subseteq> source_of ` {r. r \<in> set rules \<and> rp_approved r
      \<and> rp_enabled r \<and> \<not> rp_is_sensitive r
      \<and> (if rp_threshold r = 0 then 9 / 10 else rp_threshold r) \<le> rp_confidence r}" by (rule image_mono)
  moreover note e = applied_explained [of s job ty rules, unfolded explained_def]
  ultimately have "recorded_as ` set (at_applications (apply_correction_rules job ty rules s))
      \<subseteq> source_of ` {r. r \<in> set rules \<and> rp_approved r \<and> rp_enabled r \<and> \<not> rp_is_sensitive r
        \<and> (if rp_threshold r = 0 then 9 / 10 else rp_threshold r) \<le> rp_confidence r}"
    by (elim conjE) (rule order_trans)
  moreover from e have "distinct (map ra_before (at_applications (apply_correction_rules job ty rules s)))"
    and "[] \<notin> set (map ra_before (at_applications (apply_correction_rules job ty rules s)))"
    by (elim conjE; simp only:)+
  ultimately show ?thesis unfolding Let_def using conjunct1 [OF e] conjunct1 [OF conjunct2 [OF e]]
    by (intro conjI)
qed

text \<open>
  C27. Two people stand behind every correction: when a worker, with the rules of the snapshot of a server
  after any sequence of transactions, changes a text, then some earlier transaction approved an example
  with exactly these two texts, not sensitive, from its own user and of a revision given for learning,
  and another transaction approved and enabled the rule.
\<close>

theorem corrections_are_vouched:
  assumes "a \<in> set (at_applications (apply_correction_rules job ty
    (correction_snapshot c (corrections_after f ops)) s))"
  shows "(\<exists>k i reviewer now e r. k < length ops \<and> ops ! k = ReviewExample i ''approved'' reviewer now
      \<and> e \<in> set (cd_examples (corrections_after f (take k ops))) \<and> ex_id e = i
      \<and> r \<in> set (cd_revisions (corrections_after f (take k ops))) \<and> rv_id r = ex_revision_id e
      \<and> rv_learning_status r = ''learning'' \<and> \<not> ex_is_sensitive e \<and> f (ex_user_id e) = f reviewer
      \<and> ra_before a = ex_wrong_text e \<and> ra_after a = ex_correct_text e)
    \<and> (\<exists>reviewer now. SetMemoryState (ra_rule_id a) True True reviewer now \<in> set ops)"
proof -
  let ?d = "corrections_after f ops"
  have "recorded_as a \<in> source_of ` set (filter (eligible job ty) (correction_snapshot c ?d))"
    using applied_explained [of s job ty "correction_snapshot c ?d"] assms unfolding explained_def by blast
  then obtain r where r: "r \<in> set (correction_snapshot c ?d)" "recorded_as a = source_of r" by auto
  obtain m where m: "m \<in> set (cd_memory ?d)" "active_rule (cc_min_source_files c) (cc_auto_apply_threshold c) m"
    "r = rule_payload_of (cc_auto_apply_threshold c) m" using r(1) by (rule snapshot_rule)
  have same: "ra_before a = mr_wrong_text m" "ra_after a = mr_correct_text m" "ra_rule_id a = mr_id m"
    using r(2) m(3) by (simp_all add: recorded_as_def source_of_def rule_payload_of_def)
  have "\<exists>reviewer now. SetMemoryState (ra_rule_id a) True True reviewer now \<in> set ops"
    using enabled_rule_origin [OF m(1)] m(2) same by (simp add: active_rule_def)
  moreover obtain k i reviewer now e rv where k: "k < length ops" "ops ! k = ReviewExample i ''approved'' reviewer now"
    "learns f i reviewer (corrections_after f (take k ops)) e rv" "taught_by m e"
    using memory_rule_origin [OF m(1)] by blast
  have "\<exists>k i reviewer now e r. k < length ops \<and> ops ! k = ReviewExample i ''approved'' reviewer now
      \<and> e \<in> set (cd_examples (corrections_after f (take k ops))) \<and> ex_id e = i
      \<and> r \<in> set (cd_revisions (corrections_after f (take k ops))) \<and> rv_id r = ex_revision_id e
      \<and> rv_learning_status r = ''learning'' \<and> \<not> ex_is_sensitive e \<and> f (ex_user_id e) = f reviewer
      \<and> ra_before a = ex_wrong_text e \<and> ra_after a = ex_correct_text e"
    using k same unfolding learns_def taught_by_def teaches_def
    by (intro exI [of _ k] exI [of _ i] exI [of _ reviewer] exI [of _ now] exI [of _ e] exI [of _ rv]) simp
  with calculation show ?thesis by (intro conjI)
qed

lemma corrections_are_vouched_witness:
  "\<exists>reviewer now. SetMemoryState 1 True True reviewer now \<in> set sample_approvals"
proof -
  let ?st = "apply_correction_rules ''a'' [] (correction_snapshot sample_config
    (corrections_after py_lower sample_approvals)) ''teh end of teh page''"
  obtain a where a: "at_applications ?st = [a]" "recorded_as a = (1, ''teh'', ''the'', 99 / 100)"
    using sample_correction by (cases "at_applications ?st") auto
  then have "a \<in> set (at_applications ?st)" by simp
  from conjunct2 [OF corrections_are_vouched [OF this]] show ?thesis using a(2) by (simp add: recorded_as_def)
qed

text \<open>
  C0. Workers apply the snapshot as the server means it, except with a threshold of zero, which the server
  takes as it is and a worker as 0.9: of the rules sent, exactly those that the worker drops then have
  less confidence.
\<close>

theorem snapshot_is_applied:
  "filter (eligible job ty) (correction_snapshot c (corrections_after f ops))
     = filter (\<lambda>r. cc_auto_apply_threshold c \<noteq> 0 \<or> 9 / 10 \<le> rp_confidence r)
         (correction_snapshot c (corrections_after f ops))"
  using snapshot_eligible [OF memory_reachable_ok] by (rule filter_cong [OF refl])

text \<open>
  The applications that a conversion reports are never recorded: \<open>apply_correction_rules\<close> reports the
  number of a rule, and \<open>upload_result\<close> passes over every item whose \<open>rule_id\<close> is not a text, so
  whatever was corrected the table of applications stays as it is.
\<close>

theorem reported_applications_are_dropped:
  "record_uploaded_applications env show job
     ((''correction_applications'', JList (map application_json (snd (corrected_pages job rules pages)))) # values') d
   = (d, Reply ())"
proof -
  have "normalized_applications env show job
      (take 500 (map application_json (snd (corrected_pages job rules pages)))) = Some []"
    by (simp add: take_map numbers_are_dropped)
  then show ?thesis
    by (simp add: record_uploaded_applications_def obj_get_def obj_get_or_def py_or_def
        record_correction_applications_def)
qed

end
