(* ===== verification/Edit_Distance.thy ===== *)
theory Edit_Distance
  imports Prelude
begin

text \<open>
  The two edit distances of the program, \<open>levenshtein\<close> of \<open>clouda_data/evaluation/cer.py\<close> and
  \<open>levenshtein_distance\<close> of \<open>pdfword/accuracy.py\<close>: tables of which only two rows are kept, filled from
  left to right. Both are the least number of insertions, deletions and replacements that turn one list
  into the other; the locale says what the error rates need of them.
\<close>

subsection \<open>Single edits\<close>

inductive edit1 :: "'a list \<Rightarrow> 'a list \<Rightarrow> bool" where
  delete: "edit1 (us @ x # vs) (us @ vs)"
| insert: "edit1 (us @ vs) (us @ x # vs)"
| replace: "edit1 (us @ x # vs) (us @ y # vs)"

inductive edits :: "nat \<Rightarrow> 'a list \<Rightarrow> 'a list \<Rightarrow> bool" where
  none: "edits 0 xs xs"
| more: "edit1 xs ys \<Longrightarrow> edits n ys zs \<Longrightarrow> edits (Suc n) xs zs"

lemma edit1_Cons: "edit1 xs ys \<Longrightarrow> edit1 (z # xs) (z # ys)"
proof (induction rule: edit1.induct)
  case (delete us x vs)
  show ?case using edit1.delete [of "z # us"] by simp
next
  case (insert us vs x)
  show ?case using edit1.insert [of "z # us"] by simp
next
  case (replace us x vs y)
  show ?case using edit1.replace [of "z # us"] by simp
qed

lemma edit1_rev: "edit1 xs ys \<Longrightarrow> edit1 (rev xs) (rev ys)"
proof (induction rule: edit1.induct)
  case (delete us x vs)
  show ?case using edit1.delete [of "rev vs" x "rev us"] by simp
next
  case (insert us vs x)
  show ?case using edit1.insert [of "rev vs" "rev us" x] by simp
next
  case (replace us x vs y)
  show ?case using edit1.replace [of "rev vs" x "rev us" y] by simp
qed

lemma edits_Cons: "edits n xs ys \<Longrightarrow> edits n (z # xs) (z # ys)"
  by (induction rule: edits.induct) (auto intro: edits.intros edit1_Cons)

lemma edits_rev: "edits n xs ys \<Longrightarrow> edits n (rev xs) (rev ys)"
  by (induction rule: edits.induct) (auto intro: edits.intros edit1_rev)

subsection \<open>The recursive distance\<close>

fun distance :: "'a list \<Rightarrow> 'a list \<Rightarrow> nat" where
  "distance [] ys = length ys"
| "distance (x # xs) [] = Suc (length xs)"
| "distance (x # xs) (y # ys) =
     min (min (distance (x # xs) ys + 1) (distance xs (y # ys) + 1))
       (distance xs ys + (if x = y then 0 else 1))"

lemma distance_Nil [simp]: "distance xs [] = length xs"
  by (cases xs) simp_all

lemma distance_refl [simp]: "distance xs xs = 0"
  by (induction xs) simp_all

lemma distance_sym: "distance xs ys = distance ys xs"
  by (induction xs ys rule: distance.induct) (auto simp: min.commute min.left_commute)

lemma edits_to_Nil: "edits (length xs) xs []"
  by (induction xs) (auto intro: edits.intros edit1.delete [of "[]", simplified])

lemma edits_from_Nil: "edits (length ys) [] ys"
proof (induction ys)
  case (Cons y ys)
  have "edit1 [] [y]" using edit1.insert [of "[]" "[]" y] by simp
  then show ?case using edits_Cons [OF Cons, of y] by (auto intro: edits.more)
qed (simp add: edits.none)

text \<open>The distance is reached by edits.\<close>

lemma distance_edits: "edits (distance xs ys) xs ys"
proof (induction xs ys rule: distance.induct)
  case (1 ys)
  show ?case by (simp add: edits_from_Nil)
next
  case (2 x xs)
  show ?case using edits_to_Nil [of "x # xs"] by simp
next
  case (3 x xs y ys)
  let ?a = "distance (x # xs) ys" and ?b = "distance xs (y # ys)"
    and ?c = "distance xs ys + (if x = y then 0 else 1)"
  have ins: "edits (Suc ?a) (x # xs) (y # ys)"
    using edits.more [OF edit1.insert [of "[]", simplified] edits_Cons [OF 3(1)]] by simp
  have del: "edits (Suc ?b) (x # xs) (y # ys)"
    using edits.more [OF edit1.delete [of "[]", simplified] 3(2)] by simp
  have rep: "edits ?c (x # xs) (y # ys)"
    using edits_Cons [OF 3(3)] edits.more [OF edit1.replace [of "[]", simplified] edits_Cons [OF 3(3)]] by simp
  have "min (min a b) c = a \<or> min (min a b) c = b \<or> min (min a b) c = c" for a b c :: nat by linarith
  from this [of "?a + 1" "?b + 1" ?c] consider "distance (x # xs) (y # ys) = Suc ?a"
    | "distance (x # xs) (y # ys) = Suc ?b" | "distance (x # xs) (y # ys) = ?c"
    unfolding distance.simps Suc_eq_plus1 by blast
  then show ?case using ins del rep by cases simp_all
qed

text \<open>One edit changes the distance by at most one.\<close>

lemma distance_Cons_upper: "distance (x # xs) zs \<le> Suc (distance xs zs)"
  by (cases zs) simp_all

lemma distance_Cons_upper2: "distance xs (z # zs) \<le> Suc (distance xs zs)"
  by (cases xs) simp_all

lemma distance_Cons_lower: "distance xs zs \<le> Suc (distance (x # xs) zs)"
proof (induction zs)
  case (Cons z zs)
  have "distance xs (z # zs) \<le> Suc (distance xs zs)" by (rule distance_Cons_upper2)
  with Cons show ?case by (simp add: min_def)
qed simp

lemma distance_replace: "distance (x # vs) zs \<le> Suc (distance (y # vs) zs)"
proof (induction zs)
  case (Cons z zs)
  then show ?case by (simp add: min_def)
qed simp

lemma distance_lift:
  assumes "\<And>zs. distance xs zs \<le> Suc (distance ys zs)"
  shows "distance (u # xs) zs \<le> Suc (distance (u # ys) zs)"
proof (induction zs)
  case Nil
  show ?case using assms [of "[]"] by simp
next
  case (Cons z zs)
  then show ?case using assms [of zs] assms [of "z # zs"] by (simp add: min_def)
qed

lemma distance_lift_prefix:
  assumes "\<And>zs. distance xs zs \<le> Suc (distance ys zs)"
  shows "distance (us @ xs) zs \<le> Suc (distance (us @ ys) zs)"
proof (induction us arbitrary: zs)
  case (Cons u us)
  then show ?case using distance_lift [of "us @ xs" "us @ ys" u zs] by simp
qed (simp add: assms)

lemma distance_edit1: "edit1 xs ys \<Longrightarrow> distance xs zs \<le> Suc (distance ys zs)"
  by (induction rule: edit1.induct)
    (auto intro: distance_lift_prefix distance_Cons_upper distance_Cons_lower distance_replace)

text \<open>So no sequence of edits is shorter.\<close>

lemma distance_least: "edits n xs ys \<Longrightarrow> distance xs ys \<le> n"
proof (induction rule: edits.induct)
  case (more xs ys n zs)
  then show ?case using distance_edit1 [OF more(1), of zs] by simp
qed simp

lemma distance_Least: "distance xs ys = (LEAST n. edits n xs ys)"
  by (rule Least_equality [symmetric]) (simp_all add: distance_edits distance_least)

lemma distance_rev: "distance (rev xs) (rev ys) = distance xs ys"
proof (rule antisym)
  show "distance (rev xs) (rev ys) \<le> distance xs ys" by (rule distance_least [OF edits_rev [OF distance_edits]])
  show "distance xs ys \<le> distance (rev xs) (rev ys)"
    using distance_least [OF edits_rev [OF distance_edits [of "rev xs" "rev ys"]]] by simp
qed

lemma distance_0: "distance xs ys = 0 \<longleftrightarrow> xs = ys"
proof
  assume "distance xs ys = 0"
  then have "edits 0 xs ys" using distance_edits [of xs ys] by simp
  then show "xs = ys" by (cases rule: edits.cases) simp_all
qed simp

lemma distance_max: "distance xs ys \<le> max (length xs) (length ys)"
  by (induction xs ys rule: distance.induct) (auto simp: min_def max_def)

lemma distance_length: "length xs \<le> length ys + distance xs ys"
  by (induction xs ys rule: distance.induct) (auto simp: min_def)

subsection \<open>The tables of the code\<close>

text \<open>\<open>levenshtein\<close> of \<open>cer.py\<close>: one cell, one row, all rows. Positions count from 1 as in the code.\<close>

definition lev_cell :: "'a \<Rightarrow> nat list \<Rightarrow> nat \<times> 'a \<Rightarrow> nat list \<Rightarrow> nat list" where
  "lev_cell r prev jh current =
     (case jh of (j, h) \<Rightarrow>
        current @ [min (min (prev ! j + 1) (current ! (j - 1) + 1)) (prev ! (j - 1) + (if r \<noteq> h then 1 else 0))])"

definition lev_row :: "'a list \<Rightarrow> nat \<times> 'a \<Rightarrow> nat list \<Rightarrow> nat list" where
  "lev_row hypothesis ir prev =
     (case ir of (i, r) \<Rightarrow> fold (lev_cell r prev) (enumerate 1 hypothesis) [i])"

definition levenshtein :: "'a list \<Rightarrow> 'a list \<Rightarrow> nat" where
  "levenshtein reference hypothesis =
     last (fold (lev_row hypothesis) (enumerate 1 reference) [0..<length hypothesis + 1])"

text \<open>\<open>levenshtein_distance\<close> of \<open>accuracy.py\<close> keeps the longer list in the rows.\<close>

definition acc_cell :: "'a \<Rightarrow> nat list \<Rightarrow> nat \<times> 'a \<Rightarrow> nat list \<Rightarrow> nat list" where
  "acc_cell a prev jb current =
     (case jb of (j, b) \<Rightarrow>
        let ins = current ! (j - 1) + 1;
            delete = prev ! j + 1;
            replace = prev ! (j - 1) + (if a = b then 0 else 1)
        in current @ [min (min ins delete) replace])"

definition acc_row :: "'a list \<Rightarrow> nat \<times> 'a \<Rightarrow> nat list \<Rightarrow> nat list" where
  "acc_row seq2 ia prev = (case ia of (i, a) \<Rightarrow> fold (acc_cell a prev) (enumerate 1 seq2) [i])"

definition levenshtein_distance :: "'a list \<Rightarrow> 'a list \<Rightarrow> nat" where
  "levenshtein_distance seq1 seq2 =
     (let (s1, s2) = (if length seq1 < length seq2 then (seq2, seq1) else (seq1, seq2))
      in last (fold (acc_row s2) (enumerate 1 s1) [0..<length s2 + 1]))"

lemma acc_cell_eq: "acc_cell = (lev_cell :: 'a \<Rightarrow> nat list \<Rightarrow> nat \<times> 'a \<Rightarrow> nat list \<Rightarrow> nat list)"
proof (intro ext, clarify)
  fix r :: 'a and prev current :: "nat list" and j :: nat and h :: 'a
  show "acc_cell r prev (j, h) current = lev_cell r prev (j, h) current"
    unfolding acc_cell_def lev_cell_def Let_def prod.case
    by (subst min.commute [of "current ! (j - 1) + 1"]) simp
qed

lemma acc_row_eq: "acc_row = lev_row"
  by (intro ext) (simp add: acc_row_def lev_row_def acc_cell_eq)

text \<open>Row \<open>i\<close> holds the distances of the first \<open>i\<close> items to the prefixes of the other list.\<close>

definition prefix_distances :: "'a list \<Rightarrow> 'a list \<Rightarrow> nat list" where
  "prefix_distances xs ys = map (\<lambda>j. distance (rev xs) (rev (take j ys))) [0..<length ys + 1]"

lemma length_prefix_distances [simp]: "length (prefix_distances xs ys) = length ys + 1"
  by (simp add: prefix_distances_def)

lemma nth_prefix_distances [simp]:
  "j \<le> length ys \<Longrightarrow> prefix_distances xs ys ! j = distance (rev xs) (rev (take j ys))"
  by (simp add: prefix_distances_def del: upt_Suc)

lemma prefix_distances_snoc:
  "prefix_distances xs (ys @ [y]) = prefix_distances xs ys @ [distance (rev xs) (y # rev ys)]"
  by (simp add: prefix_distances_def)

lemma lev_cells:
  "fold (lev_cell r (prefix_distances xs (ys @ zs))) (enumerate (length ys + 1) zs) (prefix_distances (xs @ [r]) ys)
     = prefix_distances (xs @ [r]) (ys @ zs)"
proof (induction zs arbitrary: ys)
  case (Cons z zs)
  have "lev_cell r (prefix_distances xs (ys @ z # zs)) (length ys + 1, z) (prefix_distances (xs @ [r]) ys)
      = prefix_distances (xs @ [r]) (ys @ [z])"
    by (simp add: lev_cell_def prefix_distances_snoc min.commute min.left_commute)
  then show ?case using Cons [of "ys @ [z]"] by simp
qed simp

lemma lev_row_step:
  "lev_row ys (length xs + 1, r) (prefix_distances xs ys) = prefix_distances (xs @ [r]) ys"
proof -
  have "prefix_distances (xs @ [r]) [] = [length xs + 1]" by (simp add: prefix_distances_def)
  with lev_cells [of r xs "[]" ys] show ?thesis by (simp add: lev_row_def)
qed

lemma lev_rows:
  "fold (lev_row ys) (enumerate (length xs + 1) rest) (prefix_distances xs ys) = prefix_distances (xs @ rest) ys"
proof (induction rest arbitrary: xs)
  case (Cons r rest)
  then show ?case using Cons [of "xs @ [r]"] lev_row_step [of ys xs r] by simp
qed simp

lemma first_row: "prefix_distances [] ys = [0..<length ys + 1]"
  by (rule nth_equalityI) (simp_all del: upt_Suc)

lemma last_prefix_distances: "last (prefix_distances xs ys) = distance xs ys"
  by (simp add: last_conv_nth prefix_distances_def distance_rev)

lemma levenshtein_eq: "levenshtein xs ys = distance xs ys"
  using lev_rows [of ys "[]" xs] unfolding levenshtein_def first_row [symmetric] by (simp add: last_prefix_distances)

lemma levenshtein_distance_eq: "levenshtein_distance xs ys = distance xs ys"
  using levenshtein_eq [of xs ys] levenshtein_eq [of ys xs]
  by (simp add: levenshtein_distance_def levenshtein_def acc_row_eq distance_sym [of ys xs])

subsection \<open>Contract: what error rates need\<close>

locale edit_measure =
  fixes dist :: "'a list \<Rightarrow> 'a list \<Rightarrow> nat"
  assumes dist_zero: "dist xs ys = 0 \<longleftrightarrow> xs = ys"
    and dist_max: "dist xs ys \<le> max (length xs) (length ys)"
begin

text \<open>The rate is zero exactly for equal lists, and above one only when the second list is longer.\<close>

definition rate :: "'a list \<Rightarrow> 'a list \<Rightarrow> rat" where
  "rate xs ys = of_nat (dist xs ys) / of_nat (length xs)"

lemma rate_zero: "xs \<noteq> [] \<Longrightarrow> rate xs ys = 0 \<longleftrightarrow> xs = ys"
  by (simp add: rate_def dist_zero)

lemma rate_nonneg: "0 \<le> rate xs ys"
  by (simp add: rate_def)

lemma rate_le_1: "xs \<noteq> [] \<Longrightarrow> length ys \<le> length xs \<Longrightarrow> rate xs ys \<le> 1"
  using dist_max [of xs ys] by (simp add: rate_def divide_le_eq max_def)

end

interpretation foundation: edit_measure levenshtein
  by unfold_locales (simp_all add: levenshtein_eq distance_0 distance_max)

interpretation accuracy: edit_measure levenshtein_distance
  by unfold_locales (simp_all add: levenshtein_distance_eq distance_0 distance_max)

text \<open>
  C29. Both implementations compute the edit distance: the number they return suffices to turn one list
  into the other by insertions, deletions and replacements, and no smaller number does. They agree.
\<close>

theorem levenshtein_is_least:
  "levenshtein xs ys = (LEAST n. edits n xs ys) \<and> edits (levenshtein xs ys) xs ys
   \<and> levenshtein_distance xs ys = levenshtein xs ys"
  using distance_Least [of xs ys] distance_edits [of xs ys] by (simp add: levenshtein_eq levenshtein_distance_eq)

end
