(* ===== verification/Accuracy.thy ===== *)
theory Accuracy
  imports Edit_Distance Py_Text
begin

text \<open>
  Accuracy of recognized text: \<open>pdfword/accuracy.py\<close> (metrics against a reference, and the decision
  whether a text without reference is accepted) and the error rates of \<open>clouda_data/evaluation\<close>
  (\<open>cer.py\<close>, \<open>wer.py\<close>, \<open>aggregations.py\<close>) with the metrics of \<open>clouda_data/results/metrics.py\<close> built on
  them. Texts are lists of code points. Unicode normalization is the argument \<open>nfc\<close>, the folding of Arabic
  letters the argument \<open>fold_arabic\<close>. What the regular expressions of \<open>analyze_text_corruption\<close> count in a
  text is a record of counts. Rates are exact, and \<open>round\<close> rounds exact values.
\<close>

subsection \<open>Error rates of the evaluation\<close>

definition cer :: "code_points \<Rightarrow> code_points \<Rightarrow> pyfloat" where
  "cer reference hypothesis =
     (if reference = [] then (if hypothesis = [] then 0 else 1)
      else of_nat (levenshtein reference hypothesis) / of_nat (length reference))"

definition wer :: "code_points \<Rightarrow> code_points \<Rightarrow> pyfloat" where
  "wer reference hypothesis =
     (let ref_words = py_split reference; hyp_words = py_split hypothesis in
      if ref_words = [] then (if hyp_words = [] then 0 else 1)
      else of_nat (levenshtein ref_words hyp_words) / of_nat (length ref_words))"

record page_metric =
  pm_page_id :: string
  pm_profile :: string
  pm_cer :: pyfloat
  pm_wer :: pyfloat

definition mean :: "pyfloat list \<Rightarrow> pyfloat" where
  "mean xs = sum_list xs / of_nat (length xs)"

text \<open>Pages, mean CER and mean WER.\<close>

definition aggregate_metrics :: "page_metric list \<Rightarrow> nat \<times> pyfloat \<times> pyfloat" where
  "aggregate_metrics ms =
     (if ms = [] then (0, 0, 0) else (length ms, mean (map pm_cer ms), mean (map pm_wer ms)))"

definition group_by_profile :: "page_metric list \<Rightarrow> (string \<times> nat \<times> pyfloat \<times> pyfloat) list" where
  "group_by_profile ms =
     map (\<lambda>p. (p, aggregate_metrics (filter (\<lambda>m. pm_profile m = p) ms))) (fromkeys (map pm_profile ms))"

record result_metrics =
  rm_cer :: pyfloat
  rm_wer :: pyfloat
  rm_exact_match :: bool
  rm_normalized_exact_match :: bool
  rm_character_accuracy :: pyfloat
  rm_word_accuracy :: pyfloat
  rm_missing_text :: bool
  rm_hallucination :: bool
  rm_empty_output :: bool

definition compute_page_metrics ::
  "(code_points \<Rightarrow> code_points) \<Rightarrow> string \<Rightarrow> code_points \<Rightarrow> code_points \<Rightarrow> result_metrics option" where
  "compute_page_metrics fold_arabic normalization raw_text prediction =
     (if normalization \<noteq> ''raw'' \<and> normalization \<noteq> ''comparison_arabic_fold_digits'' then None
      else
        let view = (if normalization = ''raw'' then id else fold_arabic);
            reference = view raw_text; hypothesis = view prediction;
            c = cer reference hypothesis; w = wer reference hypothesis
        in Some \<lparr>rm_cer = c, rm_wer = w, rm_exact_match = (raw_text = prediction),
             rm_normalized_exact_match = (fold_arabic raw_text = fold_arabic prediction),
             rm_character_accuracy = max 0 (1 - c), rm_word_accuracy = max 0 (1 - w),
             rm_missing_text = (reference \<noteq> [] \<and> prediction = []),
             rm_hallucination = (reference = [] \<and> prediction \<noteq> []),
             rm_empty_output = (strip_points prediction = [])\<rparr>)"

subsection \<open>Metrics against a reference\<close>

definition normalize_for_accuracy :: "(code_points \<Rightarrow> code_points) \<Rightarrow> code_points \<Rightarrow> code_points" where
  "normalize_for_accuracy nfc s = nfc (py_replace [13] [10] (py_replace [13, 10] [10] s))"

record accuracy_metrics =
  am_wer :: pyfloat
  am_cer :: pyfloat
  am_character_accuracy :: pyfloat
  am_word_accuracy :: pyfloat
  am_ref_words :: nat
  am_hyp_words :: nat
  am_reference_text :: code_points
  am_extracted_text :: code_points
  am_word_errors :: nat
  am_char_errors :: nat

definition compute_accuracy_metrics ::
  "(code_points \<Rightarrow> code_points) \<Rightarrow> code_points \<Rightarrow> code_points \<Rightarrow> accuracy_metrics" where
  "compute_accuracy_metrics nfc reference_text extracted_text =
     (let ref = normalize_for_accuracy nfc reference_text;
          hyp = normalize_for_accuracy nfc extracted_text;
          ref_words = py_split ref; hyp_words = py_split hyp;
          word_errors = (if ref_words = [] then 0 else levenshtein_distance ref_words hyp_words);
          char_errors = (if ref = [] then 0 else levenshtein_distance ref hyp);
          w = of_nat word_errors / of_nat (max 1 (length ref_words)) * 100;
          c = of_nat char_errors / of_nat (max 1 (length ref)) * 100
      in \<lparr>am_wer = w, am_cer = c, am_character_accuracy = max 0 (100 - c), am_word_accuracy = max 0 (100 - w),
          am_ref_words = length ref_words, am_hyp_words = length hyp_words, am_reference_text = ref,
          am_extracted_text = hyp, am_word_errors = word_errors, am_char_errors = char_errors\<rparr>)"

text \<open>The aggregate of \<open>evaluate_pages_against_references\<close>: pages, pages with a reference, and the means
  over these of CER, WER and the two accuracies.\<close>

definition page_rows ::
  "(code_points \<Rightarrow> code_points) \<Rightarrow> code_points list \<Rightarrow> code_points list \<Rightarrow> accuracy_metrics list" where
  "page_rows nfc pages references =
     map (\<lambda>(i, page). compute_accuracy_metrics nfc (if i < length references then references ! i else []) page)
       (enumerate 0 pages)"

definition mean_or_none :: "(accuracy_metrics \<Rightarrow> pyfloat) \<Rightarrow> accuracy_metrics list \<Rightarrow> pyfloat option" where
  "mean_or_none f rows = (if rows = [] then None else Some (mean (map f rows)))"

definition evaluate_pages_against_references ::
  "(code_points \<Rightarrow> code_points) \<Rightarrow> code_points list \<Rightarrow> code_points list
    \<Rightarrow> nat \<times> nat \<times> pyfloat option \<times> pyfloat option \<times> pyfloat option \<times> pyfloat option" where
  "evaluate_pages_against_references nfc pages references =
     (let per_page = page_rows nfc pages references;
          valid = filter (\<lambda>r. strip_points (am_reference_text r) \<noteq> []) per_page
      in (length per_page, length valid, mean_or_none am_cer valid, mean_or_none am_wer valid,
          mean_or_none am_character_accuracy valid, mean_or_none am_word_accuracy valid))"

subsection \<open>The decision without a reference\<close>

text \<open>What \<open>analyze_text_corruption\<close> measures in the text: lengths and the counts of its patterns.\<close>

record text_counts =
  tc_length :: nat                \<comment> \<open>code points of the stripped text\<close>
  tc_chars :: nat                 \<comment> \<open>of these, not white space\<close>
  tc_arabic :: nat
  tc_arabic_words :: nat
  tc_lines :: "code_points list"  \<comment> \<open>the lines that are not blank, with white space normalized\<close>
  tc_replacement :: nat
  tc_private_use :: nat
  tc_control :: nat
  tc_combining :: nat
  tc_symbol :: nat
  tc_noise_words :: nat
  tc_malformed_words :: nat
  tc_isolated :: nat
  tc_detached :: nat
  tc_mojibake_chars :: nat
  tc_mojibake_hits :: nat
  tc_punctuation_noise :: nat
  tc_repeated_garbage :: nat

definition duplicate_line_ratio :: "code_points list \<Rightarrow> pyfloat" where
  "duplicate_line_ratio normalized =
     (if length normalized < 3 then 0
      else of_nat (length normalized - card (set normalized)) / of_nat (max 1 (length normalized)))"

definition mojibake_ratio :: "text_counts \<Rightarrow> pyfloat" where
  "mojibake_ratio t = of_nat (tc_mojibake_chars t) / of_nat (max 1 (tc_arabic t))"

definition mojibake_like :: "text_counts \<Rightarrow> bool" where
  "mojibake_like t \<longleftrightarrow> 20 \<le> tc_arabic t \<and> 34 / 100 \<le> mojibake_ratio t \<and> 5 \<le> tc_mojibake_hits t"

definition symbol_density :: "text_counts \<Rightarrow> pyfloat" where
  "symbol_density t = of_nat (tc_symbol t) / of_nat (max 1 (tc_chars t))"

definition combining_density :: "text_counts \<Rightarrow> pyfloat" where
  "combining_density t = of_nat (tc_combining t) / of_nat (max 1 (tc_chars t))"

definition isolated_ratio :: "text_counts \<Rightarrow> pyfloat" where
  "isolated_ratio t = of_nat (tc_isolated t) / of_nat (max 1 (tc_arabic_words t))"

definition critical_flags :: "bool \<Rightarrow> text_counts \<Rightarrow> string list" where
  "critical_flags expected_non_empty t =
     (if expected_non_empty \<and> tc_length t = 0 then [''empty_output_from_non_empty_page''] else [])
     @ (if tc_replacement t \<noteq> 0 then [''replacement_characters''] else [])
     @ (if tc_private_use t \<noteq> 0 then [''private_use_glyphs''] else [])
     @ (if tc_control t \<noteq> 0 then [''control_characters''] else [])
     @ (if tc_noise_words t \<noteq> 0 then [''noise_inside_arabic_words''] else [])
     @ (if mojibake_like t then [''mojibake_like_arabic''] else [])
     @ (if 12 / 100 < symbol_density t then [''symbol_dominated_text''] else [])
     @ (if 22 / 100 < combining_density t \<or> 5 < tc_detached t then [''abnormal_combining_marks''] else [])
     @ (if tc_repeated_garbage t \<noteq> 0 then [''repeated_garbage''] else [])
     @ (if 35 / 100 \<le> duplicate_line_ratio (tc_lines t) then [''large_duplicate_sections''] else [])"

definition unicode_integrity :: "text_counts \<Rightarrow> pyfloat" where
  "unicode_integrity t =
     100 - min 55 (of_nat (tc_replacement t) * 18) - min 55 (of_nat (tc_private_use t) * 14)
     - (min 30 (of_nat (tc_control t) * 8) + min 35 (combining_density t * 120))"

definition arabic_integrity :: "text_counts \<Rightarrow> pyfloat" where
  "arabic_integrity t =
     100 - min 45 (of_nat (tc_noise_words t) * 18) - min 35 (of_nat (tc_malformed_words t) * 8)
     - min 35 (if mojibake_like t then mojibake_ratio t * 80 else mojibake_ratio t * 15)
     - min 25 (isolated_ratio t * 80)"

definition structure_score :: "text_counts \<Rightarrow> pyfloat" where
  "structure_score t =
     100 - min 45 (duplicate_line_ratio (tc_lines t) * 100) - min 30 (of_nat (tc_punctuation_noise t) * 10)
     - min 30 (of_nat (tc_repeated_garbage t) * 12)"

definition readability :: "pyfloat option \<Rightarrow> text_counts \<Rightarrow> pyfloat" where
  "readability estimate t =
     (let r = unicode_integrity t * (35 / 100) + arabic_integrity t * (45 / 100) + structure_score t * (20 / 100)
      in case estimate of None \<Rightarrow> r | Some q \<Rightarrow> min r (max 0 q + 8))"

definition coverage :: "bool \<Rightarrow> text_counts \<Rightarrow> pyfloat" where
  "coverage expected_non_empty t =
     (if expected_non_empty \<and> tc_length t = 0 then 0 else min 100 (35 + min 65 (of_nat (tc_length t) / 4)))"

definition numeric_quality :: "pyfloat option \<Rightarrow> bool \<Rightarrow> text_counts \<Rightarrow> pyfloat" where
  "numeric_quality estimate expected_non_empty t =
     (let n = readability estimate t * (45 / 100) + unicode_integrity t * (20 / 100)
              + arabic_integrity t * (20 / 100) + structure_score t * (10 / 100)
              + coverage expected_non_empty t * (5 / 100)
      in case estimate of None \<Rightarrow> n | Some q \<Rightarrow> min q n)"

definition text_accepted :: "pyfloat option \<Rightarrow> bool \<Rightarrow> text_counts \<Rightarrow> bool" where
  "text_accepted estimate expected_non_empty t \<longleftrightarrow>
     critical_flags expected_non_empty t = [] \<and> 90 \<le> numeric_quality estimate expected_non_empty t
     \<and> 88 \<le> readability estimate t \<and> 20 \<le> coverage expected_non_empty t"

text \<open>\<open>round(x, 2)\<close> rounds ties to even.\<close>

definition round_cents :: "pyfloat \<Rightarrow> pyfloat" where
  "round_cents x =
     (let n = \<lfloor>x * 100\<rfloor>; d = x * 100 - of_int n
      in of_int (if d < 1 / 2 then n else if 1 / 2 < d then n + 1 else if even n then n else n + 1) / 100)"

definition safe_percent :: "pyfloat \<Rightarrow> pyfloat" where
  "safe_percent x = round_cents (max 0 (min 100 x))"

definition recommended_route :: "pyfloat option \<Rightarrow> bool \<Rightarrow> text_counts \<Rightarrow> string" where
  "recommended_route estimate expected_non_empty t =
     (if text_accepted estimate expected_non_empty t then ''accept''
      else if tc_length t \<noteq> 0 then ''ocr_or_cloud'' else ''manual_review'')"

datatype review_reason =
  IndeterminateQuality
| CriticalCorruption "string list"
| BelowThreshold pyfloat

record acceptance =
  ac_accepted :: bool
  ac_estimated_text_quality :: pyfloat
  ac_review_reason :: "review_reason option"

definition final_acceptance_decision ::
  "pyfloat option \<Rightarrow> pyfloat \<Rightarrow> bool \<Rightarrow> text_counts \<Rightarrow> acceptance" where
  "final_acceptance_decision estimate threshold0 expected_non_empty t =
     (let quality = safe_percent (numeric_quality estimate expected_non_empty t);
          flags = critical_flags expected_non_empty t;
          threshold = max 90 threshold0;
          accepted = (estimate \<noteq> None \<and> threshold \<le> quality
            \<and> text_accepted estimate expected_non_empty t \<and> flags = [])
      in \<lparr>ac_accepted = accepted, ac_estimated_text_quality = quality,
          ac_review_reason =
            (if accepted then None
             else if estimate = None then Some IndeterminateQuality
             else if flags \<noteq> [] then Some (CriticalCorruption flags)
             else Some (BelowThreshold threshold))\<rparr>)"

subsection \<open>What the metrics mean\<close>

lemma cer_rate: "reference \<noteq> [] \<Longrightarrow> cer reference hypothesis = foundation.rate reference hypothesis"
  by (simp add: cer_def foundation.rate_def)

lemma error_percent:
  "of_nat (levenshtein_distance xs ys) / of_nat (max 1 (length xs)) * 100 = 100 * foundation.rate xs ys"
  if "xs \<noteq> []"
proof -
  have "max 1 (length xs) = length xs" using that by (cases xs) simp_all
  then show ?thesis by (simp add: foundation.rate_def levenshtein_eq levenshtein_distance_eq)
qed

lemma rounded_upper:
  assumes "of_int n \<le> (y :: pyfloat)"
  shows "of_int (if y - of_int n < 1 / 2 then n else if 1 / 2 < y - of_int n then n + 1
    else if even n then n else n + 1) \<le> y + 1 / 2"
  using assms by auto

lemma round_cents_upper: "round_cents x \<le> x + 1 / 200"
  using rounded_upper [OF of_int_floor_le, of "x * 100"] unfolding round_cents_def Let_def
  by (simp add: field_simps)

lemma flag_raised: "(if b then [x] else []) = [] \<longleftrightarrow> \<not> b"
  by simp

lemma numeric_quality_le: "numeric_quality (Some q) e t \<le> q"
  by (simp add: numeric_quality_def Let_def)

lemma safe_percent_upper: "0 \<le> x \<Longrightarrow> safe_percent x \<le> x + 1 / 200"
  using round_cents_upper [of "max 0 (min 100 x)"] by (auto simp: safe_percent_def)

text \<open>
  The two evaluations differ on an empty reference: whatever is recognized on an empty page, the server
  reports full accuracy and the evaluation an error rate of one.
\<close>

lemma empty_reference_differs:
  assumes "normalize_for_accuracy nfc [] = []" and "normalize_for_accuracy nfc h = x # xs"
  shows "am_character_accuracy (compute_accuracy_metrics nfc [] h) = 100
    \<and> cer (normalize_for_accuracy nfc []) (normalize_for_accuracy nfc h) = 1"
  using assms by (simp add: compute_accuracy_metrics_def Let_def cer_def)

subsection \<open>Properties\<close>

text \<open>
  The metrics of the server are those of the evaluation in percent whenever there is a reference:
  character and word error rates are a hundred times CER and WER of the normalized texts. Accuracies lie
  between 0 and 100, and a text has no character errors exactly when it is the reference, or when the
  reference is empty.
\<close>

theorem metrics_are_error_rates:
  "let m = compute_accuracy_metrics nfc reference_text extracted_text;
       r = normalize_for_accuracy nfc reference_text; h = normalize_for_accuracy nfc extracted_text
   in am_cer m = (if r = [] then 0 else 100 * cer r h)
      \<and> am_wer m = (if py_split r = [] then 0 else 100 * wer r h)
      \<and> 0 \<le> am_character_accuracy m \<and> am_character_accuracy m \<le> 100
      \<and> 0 \<le> am_word_accuracy m \<and> am_word_accuracy m \<le> 100
      \<and> (am_char_errors m = 0 \<longleftrightarrow> r = [] \<or> r = h)"
proof -
  let ?m = "compute_accuracy_metrics nfc reference_text extracted_text"
  let ?r = "normalize_for_accuracy nfc reference_text" and ?h = "normalize_for_accuracy nfc extracted_text"
  have c: "am_cer ?m = (if ?r = [] then 0 else 100 * cer ?r ?h)"
    by (simp add: compute_accuracy_metrics_def Let_def cer_rate error_percent [symmetric])
  have w: "am_wer ?m = (if py_split ?r = [] then 0 else 100 * wer ?r ?h)"
    by (simp add: compute_accuracy_metrics_def Let_def wer_def foundation.rate_def [symmetric]
        error_percent [symmetric])
  have acc: "am_character_accuracy ?m = max 0 (100 - am_cer ?m)" "am_word_accuracy ?m = max 0 (100 - am_wer ?m)"
    by (simp_all add: compute_accuracy_metrics_def Let_def)
  have nonneg: "0 \<le> am_cer ?m" "0 \<le> am_wer ?m" by (simp_all add: compute_accuracy_metrics_def Let_def)
  have "am_char_errors ?m = 0 \<longleftrightarrow> ?r = [] \<or> ?r = ?h"
    by (simp add: compute_accuracy_metrics_def Let_def accuracy.dist_zero)
  then show ?thesis unfolding Let_def using c w nonneg by (simp add: acc)
qed


definition sample_counts :: text_counts where
  "sample_counts = \<lparr>tc_length = 400, tc_chars = 350, tc_arabic = 300, tc_arabic_words = 70, tc_lines = [],
     tc_replacement = 0, tc_private_use = 0, tc_control = 0, tc_combining = 0, tc_symbol = 3, tc_noise_words = 0,
     tc_malformed_words = 0, tc_isolated = 0, tc_detached = 0, tc_mojibake_chars = 3, tc_mojibake_hits = 1,
     tc_punctuation_noise = 0, tc_repeated_garbage = 0\<rparr>"


end
