(* ===== verification/Protection.thy ===== *)
theory Protection
  imports Json
begin

text \<open>
  The policy for protected data (\<open>clouda_contracts/protection.py\<close>): which records are protected from
  training, whose protection metadata is malformed, and which split may train. Records are JSON values, so
  the guards against cyclic structures never strike and are left out. \<open>strip().casefold()\<close> of a text is
  the argument \<open>fold_text\<close>.
\<close>

subsection \<open>Markers\<close>

definition TRUE_STRINGS :: "string list" where
  "TRUE_STRINGS = [''true'', ''yes'', ''1'', ''protected'']"

definition FALSE_STRINGS :: "string list" where
  "FALSE_STRINGS = [''false'', ''no'', ''0'']"

definition PROTECTED_SPLIT_NAMES :: "string list" where
  "PROTECTED_SPLIT_NAMES = [''holdout'', ''protected_holdout'', ''benchmark_holdout'', ''private_holdout'']"

definition PROTECTED_ROLES :: "string list" where
  "PROTECTED_ROLES = [''holdout'', ''protected_holdout'', ''benchmark'', ''evaluation_only'', ''protected'']"

definition MARKER_SUBSTRINGS :: "string list" where
  "MARKER_SUBSTRINGS = [''holdout'', ''protected'', ''evaluation_only'', ''benchmark'']"

definition OPTIONAL_STRING_FIELDS :: "string list" where
  "OPTIONAL_STRING_FIELDS = [''target_split'', ''split'', ''source_split'', ''dataset_role'', ''role'', ''purpose'']"

definition PROTECTION_FIELDS :: "string list" where
  "PROTECTION_FIELDS = [''protected'', ''target_split'', ''split'', ''source_split'', ''dataset_role'', ''role'',
     ''purpose'', ''evaluation_only'', ''benchmark'']"

definition NESTED_PROTECTION_FIELDS :: "string list" where
  "NESTED_PROTECTION_FIELDS = [''provenance'', ''metadata'', ''protection'']"

definition string_marks_protected :: "(string \<Rightarrow> string) \<Rightarrow> string \<Rightarrow> bool" where
  "string_marks_protected fold_text v =
     (let normalized = fold_text v in
      if normalized \<in> set FALSE_STRINGS then False
      else if normalized \<in> set TRUE_STRINGS \<or> normalized \<in> set PROTECTED_SPLIT_NAMES
        \<or> normalized \<in> set PROTECTED_ROLES then True
      else list_ex (\<lambda>marker. contains marker normalized) MARKER_SUBSTRINGS)"

subsection \<open>One mapping\<close>

definition field_is_malformed :: "(string \<Rightarrow> string) \<Rightarrow> string \<Rightarrow> json \<Rightarrow> bool" where
  "field_is_malformed fold_text name v =
     (case v of
        JNull \<Rightarrow> name \<notin> set OPTIONAL_STRING_FIELDS
      | JBool b \<Rightarrow> False
      | JStr s \<Rightarrow> name \<in> set [''protected'', ''evaluation_only'', ''benchmark'']
          \<and> fold_text s \<notin> set TRUE_STRINGS \<and> fold_text s \<notin> set FALSE_STRINGS
      | _ \<Rightarrow> True)"

definition mapping_is_malformed :: "(string \<Rightarrow> string) \<Rightarrow> (string \<times> json) list \<Rightarrow> bool" where
  "mapping_is_malformed fold_text kvs =
     list_ex (\<lambda>name. case map_of kvs name of None \<Rightarrow> False | Some v \<Rightarrow> field_is_malformed fold_text name v)
       PROTECTION_FIELDS"

definition mapping_is_protected :: "(string \<Rightarrow> string) \<Rightarrow> (string \<times> json) list \<Rightarrow> bool" where
  "mapping_is_protected fold_text kvs \<longleftrightarrow>
     mapping_is_malformed fold_text kvs
     \<or> list_ex (\<lambda>name. case map_of kvs name of Some (JBool b) \<Rightarrow> b
           | Some (JStr s) \<Rightarrow> string_marks_protected fold_text s | _ \<Rightarrow> False) PROTECTION_FIELDS"

text \<open>A nested metadata block that is there and is no mapping.\<close>

definition is_mapping :: "json \<Rightarrow> bool" where
  "is_mapping v = (case v of JObj kvs \<Rightarrow> True | _ \<Rightarrow> False)"

definition block_is_malformed :: "(string \<times> json) list \<Rightarrow> bool" where
  "block_is_malformed kvs =
     list_ex (\<lambda>name. case map_of kvs name of None \<Rightarrow> False | Some v \<Rightarrow> v \<noteq> JNull \<and> \<not> is_mapping v)
       NESTED_PROTECTION_FIELDS"

subsection \<open>Records\<close>

fun nested_value_is_protected :: "(string \<Rightarrow> string) \<Rightarrow> json \<Rightarrow> bool" where
  "nested_value_is_protected f (JObj kvs) =
     (mapping_is_protected f kvs \<or> block_is_malformed kvs
      \<or> list_ex (\<lambda>(k, v). nested_value_is_protected f v) kvs)"
| "nested_value_is_protected f (JList xs) = list_ex (nested_value_is_protected f) xs"
| "nested_value_is_protected f v = False"

definition record_is_protected :: "(string \<Rightarrow> string) \<Rightarrow> json \<Rightarrow> bool" where
  "record_is_protected f v = (is_mapping v \<longrightarrow> nested_value_is_protected f v)"

fun protection_metadata_is_malformed :: "(string \<Rightarrow> string) \<Rightarrow> json \<Rightarrow> bool" where
  "protection_metadata_is_malformed f (JObj kvs) =
     (mapping_is_malformed f kvs \<or> block_is_malformed kvs
      \<or> list_ex (\<lambda>(k, v). case v of
            JObj o' \<Rightarrow> protection_metadata_is_malformed f (JObj o')
          | JList xs \<Rightarrow> list_ex (\<lambda>x. is_mapping x \<and> protection_metadata_is_malformed f x) xs
          | _ \<Rightarrow> False) kvs)"
| "protection_metadata_is_malformed f v = True"

definition is_training_split_eligible :: "(string \<Rightarrow> string) \<Rightarrow> json \<Rightarrow> bool" where
  "is_training_split_eligible f v = (case v of JStr s \<Rightarrow> f s = ''train'' | _ \<Rightarrow> False)"

subsection \<open>What protection means\<close>

declare protection_metadata_is_malformed.simps(1) [simp del]

text \<open>\<open>inside u v\<close>: the value \<open>u\<close> is \<open>v\<close> or occurs in it, at any depth of mappings and lists.\<close>

inductive inside :: "json \<Rightarrow> json \<Rightarrow> bool" where
  self: "inside v v"
| member: "(k, w) \<in> set kvs \<Longrightarrow> inside u w \<Longrightarrow> inside u (JObj kvs)"
| item: "w \<in> set xs \<Longrightarrow> inside u w \<Longrightarrow> inside u (JList xs)"

inductive_simps inside_JObj: "inside u (JObj kvs)"
inductive_simps inside_JList: "inside u (JList xs)"

lemma inside_scalar:
  "inside (JObj m) JNull = False" "inside (JObj m) (JBool b) = False" "inside (JObj m) (JInt n) = False"
  "inside (JObj m) (JFloat x) = False" "inside (JObj m) (JStr s) = False"
  by (auto elim: inside.cases)

definition marked :: "(string \<Rightarrow> string) \<Rightarrow> (string \<times> json) list \<Rightarrow> bool" where
  "marked f m \<longleftrightarrow> mapping_is_protected f m \<or> block_is_malformed m"

lemma list_ex_pair: "list_ex (\<lambda>(k, v). P v) kvs \<longleftrightarrow> (\<exists>k v. (k, v) \<in> set kvs \<and> P v)"
  by (auto simp: list_ex_iff)

lemma nested_value_iff: "nested_value_is_protected f v \<longleftrightarrow> (\<exists>m. inside (JObj m) v \<and> marked f m)"
proof (induction f v rule: nested_value_is_protected.induct)
  case (1 f kvs)
  have IH: "nested_value_is_protected f w \<longleftrightarrow> (\<exists>m. inside (JObj m) w \<and> marked f m)" if "(k, w) \<in> set kvs" for k w
    using 1 [OF that refl] .
  have "nested_value_is_protected f (JObj kvs) \<longleftrightarrow> marked f kvs
      \<or> (\<exists>k w. (k, w) \<in> set kvs \<and> nested_value_is_protected f w)"
    by (auto simp: marked_def list_ex_pair)
  also have "\<dots> \<longleftrightarrow> marked f kvs \<or> (\<exists>k w m. (k, w) \<in> set kvs \<and> inside (JObj m) w \<and> marked f m)"
    using IH by blast
  also have "\<dots> \<longleftrightarrow> (\<exists>m. inside (JObj m) (JObj kvs) \<and> marked f m)" unfolding inside_JObj by blast
  finally show ?case .
next
  case (2 f xs)
  have "nested_value_is_protected f (JList xs) \<longleftrightarrow> (\<exists>w \<in> set xs. \<exists>m. inside (JObj m) w \<and> marked f m)"
    using 2 by (simp add: list_ex_iff)
  then show ?case unfolding inside_JList by blast
qed (simp_all add: inside_scalar)

lemma malformed_is_protected:
  "is_mapping v \<Longrightarrow> protection_metadata_is_malformed f v \<Longrightarrow> nested_value_is_protected f v"
proof (induction f v rule: protection_metadata_is_malformed.induct)
  case (1 f kvs)
  show ?case
  proof (cases "mapping_is_malformed f kvs \<or> block_is_malformed kvs")
    case True
    then show ?thesis by (auto simp: mapping_is_protected_def)
  next
    case False
    with 1(4) have "list_ex (\<lambda>(k, v). case v of JObj o' \<Rightarrow> protection_metadata_is_malformed f (JObj o')
        | JList xs \<Rightarrow> list_ex (\<lambda>x. is_mapping x \<and> protection_metadata_is_malformed f x) xs | _ \<Rightarrow> False) kvs"
      by (subst (asm) protection_metadata_is_malformed.simps(1)) blast
    then obtain k v where kv: "(k, v) \<in> set kvs"
      and bad: "case v of JObj o' \<Rightarrow> protection_metadata_is_malformed f (JObj o')
          | JList xs \<Rightarrow> list_ex (\<lambda>x. is_mapping x \<and> protection_metadata_is_malformed f x) xs | _ \<Rightarrow> False"
      unfolding list_ex_pair by blast
    have "nested_value_is_protected f v"
    proof (cases v)
      case (JObj o')
      have "is_mapping (JObj o')" by (simp add: is_mapping_def)
      moreover have "protection_metadata_is_malformed f (JObj o')" using bad JObj by (simp only: json.case)
      ultimately show ?thesis using 1(2) [OF kv refl] JObj by blast
    next
      case (JList xs)
      then obtain x where "x \<in> set xs" "is_mapping x" "protection_metadata_is_malformed f x"
        using bad unfolding JList json.case list_ex_iff by blast
      then show ?thesis using 1(1) [OF kv refl] JList unfolding JList nested_value_is_protected.simps list_ex_iff
        by blast
    qed (use bad in \<open>simp_all only: json.case\<close>)
    with kv show ?thesis unfolding nested_value_is_protected.simps list_ex_pair by blast
  qed
qed (simp_all add: is_mapping_def)


end
