(* ===== verification/Training_Manifest.thy ===== *)
theory Training_Manifest
  imports Protection
begin

text \<open>
  The input contract of the training data loader (\<open>clouda_data/training_data/input_contract.py\<close>, with
  \<open>iter_manifest\<close> of \<open>pretraining/manifest.py\<close>): a manifest is accepted for training or refused. A
  manifest file is the list of its lines that are not blank, each a JSON value or malformed; \<open>digest\<close> is
  SHA-256 of the file. Text functions outside ASCII (\<open>strip\<close>, \<open>casefold\<close>, \<open>str\<close>) are the record
  \<open>text_fns\<close>. Messages are those of the code without the row they name.
\<close>

record text_fns =
  tx_fold :: "string \<Rightarrow> string"    \<comment> \<open>\<open>strip().casefold()\<close>\<close>
  tx_strip :: "string \<Rightarrow> string"
  tx_show :: "json \<Rightarrow> string"      \<comment> \<open>\<open>str\<close> of a value\<close>

type_synonym manifest_row = "(string \<times> json) list"
type_synonym manifest_file = "json option list"

datatype manifest_error =
  ManifestFileNotFound
| MalformedManifest
| ManifestInputError string
| ProtectedManifestError string

record manifest_identity =
  mi_dataset_id :: string
  mi_dataset_version :: string
  mi_manifest_sha256 :: string
  mi_row_count :: nat
  mi_split :: string

definition MANIFEST_SCHEMA_VERSION :: string where
  "MANIFEST_SCHEMA_VERSION = ''clouda.pretraining.manifest.v1''"

text \<open>\<open>iter_manifest\<close>, up to the first line it raises on.\<close>

fun manifest_rows :: "manifest_file \<Rightarrow> manifest_row list" where
  "manifest_rows (Some (JObj kvs) # rest) = kvs # manifest_rows rest"
| "manifest_rows _ = []"

definition well_formed :: "manifest_file \<Rightarrow> bool" where
  "well_formed = list_all (\<lambda>l. case l of Some v \<Rightarrow> is_mapping v | None \<Rightarrow> False)"

definition has_key :: "string \<Rightarrow> manifest_row \<Rightarrow> bool" where
  "has_key k row = (map_of row k \<noteq> None)"

definition is_header :: "manifest_row \<Rightarrow> bool" where
  "is_header row \<longleftrightarrow> has_key ''_schema_version'' row \<and> \<not> has_key ''sample_id'' row"

definition require_str :: "text_fns \<Rightarrow> manifest_row \<Rightarrow> string \<Rightarrow> string option" where
  "require_str t row k =
     (case obj_get row k of JStr s \<Rightarrow> if tx_strip t s = [] then None else Some (tx_strip t s) | _ \<Rightarrow> None)"

definition optional_str :: "json \<Rightarrow> bool" where
  "optional_str v = (case v of JNull \<Rightarrow> True | JStr s \<Rightarrow> True | _ \<Rightarrow> False)"

definition text_in :: "(string \<Rightarrow> string) \<Rightarrow> json \<Rightarrow> string list \<Rightarrow> bool" where
  "text_in f v names = (case v of JStr s \<Rightarrow> f s \<in> set names | _ \<Rightarrow> False)"

definition eligibility_error :: "text_fns \<Rightarrow> manifest_row \<Rightarrow> string option" where
  "eligibility_error t row =
     (if \<not> list_all (\<lambda>k. optional_str (obj_get row k))
           [''target_split'', ''split'', ''source_split'', ''dataset_role'', ''role'']
      then Some ''field must be a string when present''
      else if \<not> is_training_split_eligible (tx_fold t) (obj_get_or row ''target_split'' (obj_get row ''split''))
      then Some ''explicit training split is required''
      else if obj_get row ''training_eligible'' \<noteq> JNull \<and> obj_get row ''training_eligible'' \<noteq> JBool True
      then Some ''training_eligible must be true when present''
      else if text_in (tx_fold t) (obj_get row ''validation_status'') [''error'']
      then Some ''validation_status=error is not training-eligible''
      else if text_in (tx_fold t) (obj_get row ''duplicate_state'') [''duplicate'', ''conflicting_duplicate'']
      then Some ''duplicate_state is not training-eligible''
      else if truthy (obj_get row ''exclusion_reason'')
      then Some ''excluded sample cannot be used for training''
      else None)"

definition identity_matches :: "text_fns \<Rightarrow> manifest_row \<Rightarrow> string \<Rightarrow> string \<Rightarrow> bool" where
  "identity_matches t row k expected =
     (case obj_get row k of JNull \<Rightarrow> True | JStr s \<Rightarrow> tx_strip t s = expected | v \<Rightarrow> tx_strip t (tx_show t v) = expected)"

text \<open>One row: the id that it adds, or why it is refused.\<close>

definition check_row ::
  "text_fns \<Rightarrow> string \<Rightarrow> string \<Rightarrow> string list \<Rightarrow> manifest_row \<Rightarrow> manifest_error + string" where
  "check_row t header_id header_version seen row =
     (if is_header row then Inl (ManifestInputError ''Manifest contains more than one header'')
      else if \<not> list_all (\<lambda>k. optional_str (obj_get row k)) [''target_split'', ''split'', ''source_split'']
      then Inl (ManifestInputError ''malformed split metadata'')
      else if protection_metadata_is_malformed (tx_fold t) (JObj row)
      then Inl (ManifestInputError ''malformed protection metadata'')
      else if record_is_protected (tx_fold t) (JObj row)
      then Inl (ProtectedManifestError ''protected data cannot train'')
      else case require_str t row ''sample_id'' of
        None \<Rightarrow> Inl (ManifestInputError ''sample_id must be a non-empty string'')
      | Some sid \<Rightarrow>
          if sid \<in> set seen then Inl (ManifestInputError ''Duplicate sample_id in manifest'')
          else if (case obj_get row ''source_id'' of JNull \<Rightarrow> False | JStr s \<Rightarrow> s = [] | _ \<Rightarrow> True)
          then Inl (ManifestInputError ''source_id must be a string'')
          else if obj_get row ''image_path'' = JNull \<and> obj_get row ''text'' = JNull
          then Inl (ManifestInputError ''sample has neither image_path nor text reference'')
          else if obj_get row ''provenance'' \<noteq> JNull \<and> \<not> is_mapping (obj_get row ''provenance'')
          then Inl (ManifestInputError ''provenance must be an object'')
          else if \<not> identity_matches t row ''dataset_id'' header_id
            \<or> \<not> identity_matches t row ''dataset_version'' header_version
          then Inl (ManifestInputError ''identity does not match manifest header'')
          else case eligibility_error t row of
            Some m \<Rightarrow> Inl (ManifestInputError m)
          | None \<Rightarrow> Inr sid)"

text \<open>The loop over the rows; it returns the ids seen, the last first.\<close>

fun check_rows ::
  "text_fns \<Rightarrow> string \<Rightarrow> string \<Rightarrow> string list \<Rightarrow> manifest_file \<Rightarrow> manifest_error + string list" where
  "check_rows t hid hver seen [] = Inr seen"
| "check_rows t hid hver seen (Some (JObj row) # rest) =
     (case check_row t hid hver seen row of Inl err \<Rightarrow> Inl err | Inr sid \<Rightarrow> check_rows t hid hver (sid # seen) rest)"
| "check_rows t hid hver seen (_ # rest) = Inl MalformedManifest"

definition recorded_hash_ok :: "text_fns \<Rightarrow> manifest_row \<Rightarrow> bool" where
  "recorded_hash_ok t header =
     (case obj_get header ''manifest_sha256'' of
        JNull \<Rightarrow> True
      | v \<Rightarrow> let s = tx_strip t (case v of JStr s \<Rightarrow> s | _ \<Rightarrow> tx_show t v) in
          s = [] \<or> (length s = 64
            \<and> list_all (\<lambda>c. let n = (of_char c :: nat) in (48 \<le> n \<and> n \<le> 57) \<or> (97 \<le> n \<and> n \<le> 102)) (py_lower s)))"

text \<open>\<open>isinstance(recorded, int)\<close> also holds of a truth value.\<close>

definition count_matches :: "json \<Rightarrow> nat \<Rightarrow> bool" where
  "count_matches v n = (case v of JInt i \<Rightarrow> i = int n | JBool b \<Rightarrow> n = (if b then 1 else 0) | _ \<Rightarrow> False)"

definition validate_canonical_manifest ::
  "text_fns \<Rightarrow> (manifest_file \<Rightarrow> string) \<Rightarrow> manifest_file option \<Rightarrow> string \<Rightarrow> string \<Rightarrow> string
    \<Rightarrow> manifest_error + manifest_identity" where
  "validate_canonical_manifest t digest path dataset_id dataset_version split =
     (case path of
        None \<Rightarrow> Inl ManifestFileNotFound
      | Some lines \<Rightarrow>
          if \<not> is_training_split_eligible (tx_fold t) (JStr split)
          then Inl (ProtectedManifestError ''Training Data Loader only accepts the explicit train split'')
          else case lines of
            [] \<Rightarrow> Inl (ManifestInputError ''Canonical manifest is empty'')
          | Some (JObj header) # rest \<Rightarrow>
              if obj_get header ''_schema_version'' \<noteq> JStr MANIFEST_SCHEMA_VERSION
              then Inl (ManifestInputError ''Unsupported manifest schema version'')
              else if protection_metadata_is_malformed (tx_fold t) (JObj header)
              then Inl (ManifestInputError ''Manifest header has malformed protection metadata'')
              else if record_is_protected (tx_fold t) (JObj header)
              then Inl (ProtectedManifestError ''Manifest header is marked protected'')
              else (case (require_str t header ''dataset_id'', require_str t header ''dataset_version'') of
                  (Some hid, Some hver) \<Rightarrow>
                    if hid \<noteq> tx_strip t dataset_id \<or> hver \<noteq> tx_strip t dataset_version
                    then Inl (ManifestInputError ''Manifest dataset identity does not match configured value'')
                    else if \<not> recorded_hash_ok t header
                    then Inl (ManifestInputError ''Header manifest_sha256 is not a SHA-256 digest'')
                    else (case check_rows t hid hver [] rest of
                        Inl err \<Rightarrow> Inl err
                      | Inr seen \<Rightarrow>
                          if \<not> count_matches (obj_get header ''_row_count'') (length seen)
                          then Inl (ManifestInputError ''Manifest row count mismatch'')
                          else if seen = []
                          then Inl (ManifestInputError ''Canonical manifest contains no training rows'')
                          else Inr \<lparr>mi_dataset_id = dataset_id, mi_dataset_version = dataset_version,
                            mi_manifest_sha256 = digest lines, mi_row_count = length seen, mi_split = split\<rparr>)
                | _ \<Rightarrow> Inl (ManifestInputError ''dataset identity must be a non-empty string''))
          | _ \<Rightarrow> Inl MalformedManifest)"

definition iter_canonical_rows :: "manifest_file \<Rightarrow> manifest_row list" where
  "iter_canonical_rows lines = filter (\<lambda>row. \<not> is_header row) (manifest_rows lines)"

text \<open>\<open>str(row.get("sample_id", ""))\<close>.\<close>

definition row_sample_id :: "text_fns \<Rightarrow> manifest_row \<Rightarrow> string" where
  "row_sample_id t row = (case obj_get_or row ''sample_id'' (JStr []) of JStr s \<Rightarrow> s | v \<Rightarrow> tx_show t v)"

subsection \<open>What an accepted manifest holds\<close>

text \<open>A row that may train: an explicit train split, unprotected at every depth, no duplicate, not excluded,
  not marked as an error, with an id and something to learn from.\<close>

definition trainable :: "text_fns \<Rightarrow> manifest_row \<Rightarrow> bool" where
  "trainable t row \<longleftrightarrow>
     is_training_split_eligible (tx_fold t) (obj_get_or row ''target_split'' (obj_get row ''split''))
     \<and> \<not> record_is_protected (tx_fold t) (JObj row)
     \<and> \<not> text_in (tx_fold t) (obj_get row ''duplicate_state'') [''duplicate'', ''conflicting_duplicate'']
     \<and> \<not> text_in (tx_fold t) (obj_get row ''validation_status'') [''error'']
     \<and> \<not> truthy (obj_get row ''exclusion_reason'')
     \<and> (obj_get row ''image_path'' \<noteq> JNull \<or> obj_get row ''text'' \<noteq> JNull)
     \<and> row_sample_id t row \<noteq> []"

lemma eligible_row:
  assumes "eligibility_error t row = None"
  shows "is_training_split_eligible (tx_fold t) (obj_get_or row ''target_split'' (obj_get row ''split''))
    \<and> \<not> text_in (tx_fold t) (obj_get row ''duplicate_state'') [''duplicate'', ''conflicting_duplicate'']
    \<and> \<not> text_in (tx_fold t) (obj_get row ''validation_status'') [''error'']
    \<and> \<not> truthy (obj_get row ''exclusion_reason'')"
  using assms unfolding eligibility_error_def by (simp split: if_split_asm)

lemma require_sample_id:
  assumes "require_str t row ''sample_id'' = Some sid" and "tx_strip t [] = []"
  shows "row_sample_id t row \<noteq> [] \<and> tx_strip t (row_sample_id t row) = sid \<and> \<not> is_header row"
  using assms by (auto simp: require_str_def row_sample_id_def obj_get_def obj_get_or_def is_header_def has_key_def
      split: json.splits option.splits if_splits)

lemma check_row_accepts:
  assumes "check_row t hid hver seen row = Inr sid" and "tx_strip t [] = []"
  shows "trainable t row \<and> tx_strip t (row_sample_id t row) = sid \<and> sid \<notin> set seen \<and> \<not> is_header row"
proof -
  obtain s where s: "require_str t row ''sample_id'' = Some s" and ok: "eligibility_error t row = None"
    and rest: "sid = s" "s \<notin> set seen" "\<not> record_is_protected (tx_fold t) (JObj row)"
      "\<not> (obj_get row ''image_path'' = JNull \<and> obj_get row ''text'' = JNull)"
    using assms(1) unfolding check_row_def by (simp split: if_split_asm option.split_asm)
  then show ?thesis using require_sample_id [OF s assms(2)] eligible_row [OF ok] unfolding trainable_def by blast
qed

lemma check_rows_accepts:
  assumes "tx_strip t [] = []" and "check_rows t hid hver seen lines = Inr seen'"
  shows "well_formed lines \<and> list_all (trainable t) (manifest_rows lines)
    \<and> list_all (\<lambda>row. \<not> is_header row) (manifest_rows lines)
    \<and> seen' = rev (map (\<lambda>row. tx_strip t (row_sample_id t row)) (manifest_rows lines)) @ seen
    \<and> (distinct seen \<longrightarrow> distinct seen')"
  using assms(2)
proof (induction lines arbitrary: seen)
  case Nil
  then show ?case by (simp add: well_formed_def)
next
  case (Cons l rest)
  then obtain row where l: "l = Some (JObj row)" by (cases "(t, hid, hver, seen, l # rest)" rule: check_rows.cases) auto
  then obtain sid where sid: "check_row t hid hver seen row = Inr sid"
    and more: "check_rows t hid hver (sid # seen) rest = Inr seen'" using Cons.prems by (auto split: sum.split_asm)
  note ih = Cons.IH [OF more] and c = check_row_accepts [OF sid assms(1)]
  have "distinct (sid # seen) \<longrightarrow> distinct seen'" using ih by blast
  then have "distinct seen \<longrightarrow> distinct seen'" using c by simp
  moreover have "well_formed (l # rest) \<and> list_all (trainable t) (manifest_rows (l # rest))
      \<and> list_all (\<lambda>row. \<not> is_header row) (manifest_rows (l # rest))
      \<and> seen' = rev (map (\<lambda>row. tx_strip t (row_sample_id t row)) (manifest_rows (l # rest))) @ seen"
    using ih c by (simp add: l well_formed_def is_mapping_def)
  ultimately show ?case by blast
qed

lemma validate_accepts:
  assumes "validate_canonical_manifest t digest (Some lines) did dver split = Inr ident"
  obtains header rest hid hver seen where "lines = Some (JObj header) # rest"
    "check_rows t hid hver [] rest = Inr seen" "seen \<noteq> []" "mi_row_count ident = length seen"
    "mi_manifest_sha256 ident = digest lines" "\<not> record_is_protected (tx_fold t) (JObj header)"
    "obj_get header ''_schema_version'' = JStr MANIFEST_SCHEMA_VERSION"
proof -
  obtain header rest where lines: "lines = Some (JObj header) # rest"
    using assms by (cases lines) (auto simp: validate_canonical_manifest_def split: if_split_asm option.split_asm json.split_asm)
  obtain hid hver where h: "require_str t header ''dataset_id'' = Some hid"
    "require_str t header ''dataset_version'' = Some hver"
    using assms unfolding validate_canonical_manifest_def lines
    by (simp split: if_split_asm option.split_asm)
  obtain seen where "check_rows t hid hver [] rest = Inr seen"
    using assms unfolding validate_canonical_manifest_def lines
    by (cases "check_rows t hid hver [] rest") (simp_all add: h split: if_split_asm)
  with assms h show thesis unfolding validate_canonical_manifest_def lines
    by (intro that [OF lines]) (auto simp: lines split: if_split_asm)
qed

lemma accepted_manifest:
  assumes "validate_canonical_manifest t digest (Some lines) did dver split = Inr ident"
    and "tx_strip t [] = []"
  shows "list_all (trainable t) (tl (manifest_rows lines))
    \<and> distinct (map (row_sample_id t) (tl (manifest_rows lines)))
    \<and> length (tl (manifest_rows lines)) = mi_row_count ident \<and> well_formed lines
    \<and> iter_canonical_rows lines =
        (if has_key ''sample_id'' (hd (manifest_rows lines)) then manifest_rows lines else tl (manifest_rows lines))"
proof -
  obtain header rest hid hver seen where v: "lines = Some (JObj header) # rest"
    "check_rows t hid hver [] rest = Inr seen" "mi_row_count ident = length seen"
    "obj_get header ''_schema_version'' = JStr MANIFEST_SCHEMA_VERSION"
    using assms(1) by (rule validate_accepts)
  note r = check_rows_accepts [OF assms(2) v(2)]
  have "distinct (map (\<lambda>row. tx_strip t (row_sample_id t row)) (manifest_rows rest))"
    using r by auto
  then have "distinct (map (tx_strip t) (map (row_sample_id t) (manifest_rows rest)))" by (simp add: comp_def)
  then have d: "distinct (map (row_sample_id t) (manifest_rows rest))" unfolding distinct_map [of "tx_strip t"] by (rule conjunct1)
  have "is_header header \<longleftrightarrow> \<not> has_key ''sample_id'' header"
    using v(4) by (auto simp: is_header_def has_key_def obj_get_def obj_get_or_def split: option.split_asm)
  moreover have "filter (\<lambda>row. \<not> is_header row) (manifest_rows rest) = manifest_rows rest"
    using r by (simp add: filter_id_conv list_all_iff)
  ultimately show ?thesis using r d v by (simp add: iter_canonical_rows_def well_formed_def is_mapping_def)
qed

text \<open>
  C32. What is accepted for training may be trained on: every row after the header has an explicit train
  split and no protection marker at any depth, is no duplicate, not excluded and not marked as an error;
  the rows have distinct ids and are as many as the identity says. The rows that are read for training
  later are these, unless the header itself carries a \<open>sample_id\<close>.
\<close>

theorem accepted_rows_are_trainable:
  assumes "validate_canonical_manifest t digest (Some lines) did dver split = Inr ident"
    and "tx_strip t [] = []"
  shows "list_all (trainable t) (tl (manifest_rows lines))
    \<and> distinct (map (row_sample_id t) (tl (manifest_rows lines)))
    \<and> length (tl (manifest_rows lines)) = mi_row_count ident \<and> well_formed lines
    \<and> iter_canonical_rows lines =
        (if has_key ''sample_id'' (hd (manifest_rows lines)) then manifest_rows lines else tl (manifest_rows lines))"
  by (rule accepted_manifest [OF assms])

subsection \<open>Examples\<close>

definition sample_text_fns :: text_fns where
  "sample_text_fns = \<lparr>tx_fold = (\<lambda>s. py_lower (py_strip s)), tx_strip = py_strip, tx_show = (\<lambda>_. [])\<rparr>"

definition sample_header :: manifest_row where
  "sample_header = [(''_schema_version'', JStr MANIFEST_SCHEMA_VERSION), (''_row_count'', JInt 1),
     (''dataset_id'', JStr ''d''), (''dataset_version'', JStr ''1'')]"

definition sample_train_row :: manifest_row where
  "sample_train_row = [(''sample_id'', JStr ''s1''), (''target_split'', JStr ''train''), (''text'', JStr ''x'')]"

definition sample_manifest :: "manifest_row \<Rightarrow> manifest_file" where
  "sample_manifest header = [Some (JObj header), Some (JObj sample_train_row)]"

lemma sample_manifest_accepted:
  "validate_canonical_manifest sample_text_fns (\<lambda>_. ''h'') (Some (sample_manifest sample_header)) ''d'' ''1'' ''train''
     = Inr \<lparr>mi_dataset_id = ''d'', mi_dataset_version = ''1'', mi_manifest_sha256 = ''h'', mi_row_count = 1,
         mi_split = ''train''\<rparr>"
  by code_simp

lemma accepted_rows_are_trainable_witness:
  "list_all (trainable sample_text_fns) [sample_train_row]"
proof -
  have "tx_strip sample_text_fns [] = []" by (simp add: sample_text_fns_def py_strip_def)
  from accepted_rows_are_trainable [OF sample_manifest_accepted this] show ?thesis
    by (simp add: sample_manifest_def)
qed

text \<open>
  A header with a \<open>sample_id\<close> is validated as a header only and then read as a row: an accepted manifest
  trains on it although it has no split.
\<close>

lemma header_is_trained_on:
  "let header = (''sample_id'', JStr ''h1'') # sample_header in
     validate_canonical_manifest sample_text_fns (\<lambda>_. ''h'') (Some (sample_manifest header)) ''d'' ''1'' ''train''
       = Inr \<lparr>mi_dataset_id = ''d'', mi_dataset_version = ''1'', mi_manifest_sha256 = ''h'', mi_row_count = 1,
           mi_split = ''train''\<rparr>
     \<and> iter_canonical_rows (sample_manifest header) = [header, sample_train_row]
     \<and> \<not> trainable sample_text_fns header"
  by code_simp

end
