(* ===== verification/Data_Order.thy ===== *)
theory Data_Order
  imports Json "HOL-Library.Multiset"
begin

text \<open>
  The deterministic order of training data (\<open>clouda_data/training_data/ordering.py\<close>): permutations, the
  shuffle through a bounded buffer, and the order of shards. BLAKE2b of a state is the argument \<open>next\<close>, of
  a text \<open>blake\<close>; \<open>stable_hash\<close> (SHA-256) is the argument \<open>hash\<close>. A stream is the list of its items.
\<close>

subsection \<open>Random numbers\<close>

text \<open>\<open>x & _SEED_MASK\<close>.\<close>

definition seed_mask :: "int \<Rightarrow> int" where
  "seed_mask x = x mod 2 ^ 63"

definition next_state :: "(int \<Rightarrow> int) \<Rightarrow> int \<Rightarrow> int" where
  "next_state blake_state s = seed_mask (blake_state s)"

text \<open>\<open>randbelow(n)\<close> of \<open>StableRandom\<close>, with the state after it.\<close>

definition randbelow :: "(int \<Rightarrow> int) \<Rightarrow> int \<Rightarrow> nat \<Rightarrow> nat \<times> int" where
  "randbelow blake_state s n =
     (let s' = next_state blake_state s
      in (nat (\<lfloor>(of_int s' / 2 ^ 63 :: pyfloat) * of_nat n\<rfloor> mod int n), s'))"

definition unit_separated :: "string list \<Rightarrow> string" where
  "unit_separated parts = concat (butlast (concat (map (\<lambda>p. [p, [char_of (31 :: nat)]]) parts)))"

definition derive_loader_seed ::
  "(string \<Rightarrow> int) \<Rightarrow> int \<Rightarrow> int \<Rightarrow> int \<Rightarrow> int \<Rightarrow> int \<Rightarrow> int \<Rightarrow> string \<Rightarrow> int" where
  "derive_loader_seed blake global_seed epoch world_size rank num_workers worker_id config_hash =
     seed_mask (blake (unit_separated
       [''clouda.training_data.shuffle.v1'', int_text global_seed, int_text epoch, int_text world_size,
        int_text rank, int_text num_workers, int_text worker_id, config_hash]))"

subsection \<open>Permutations\<close>

text \<open>The swaps of Fisher and Yates for \<open>i = n, ..., 1\<close>.\<close>

fun swaps :: "(int \<Rightarrow> int) \<Rightarrow> nat \<Rightarrow> int \<Rightarrow> 'a list \<Rightarrow> 'a list" where
  "swaps blake_state 0 s order = order"
| "swaps blake_state (Suc n) s order =
     (let s' = next_state blake_state s;
          i = Suc n;
          j = nat (s' mod (int i + 1))
      in swaps blake_state n s' (order[i := order ! j, j := order ! i]))"

definition permute_indices :: "(int \<Rightarrow> int) \<Rightarrow> nat \<Rightarrow> int \<Rightarrow> nat list" where
  "permute_indices blake_state n seed = swaps blake_state (n - 1) (seed_mask seed) [0..<n]"

definition shard_order :: "(int \<Rightarrow> int) \<Rightarrow> (string \<Rightarrow> int) \<Rightarrow> string list \<Rightarrow> int \<Rightarrow> string list" where
  "shard_order blake_state hash shard_ids seed =
     map (\<lambda>i. shard_ids ! i)
       (permute_indices blake_state (length shard_ids) (Bit_Operations.xor seed (hash ''shard_order'')))"

subsection \<open>The bounded shuffle\<close>

text \<open>\<open>buffer.pop(randbelow(len(buffer)))\<close> until the buffer is empty.\<close>

lemma randbelow_less: "0 < n \<Longrightarrow> fst (randbelow blake_state s n) < n"
  by (simp add: randbelow_def Let_def nat_less_iff)

function drain :: "(int \<Rightarrow> int) \<Rightarrow> int \<Rightarrow> 'a list \<Rightarrow> 'a list" where
  "drain blake_state s buffer =
     (if buffer = [] then []
      else let (i, s') = randbelow blake_state s (length buffer)
           in buffer ! i # drain blake_state s' (take i buffer @ drop (Suc i) buffer))"
  by pat_completeness auto

termination
proof (relation "measure (\<lambda>(f, s, buffer). length buffer)")
  fix f :: "int \<Rightarrow> int" and s :: int and buffer :: "'a list" and x i s'
  assume "buffer \<noteq> []" and "x = randbelow f s (length buffer)" and "(i, s') = x"
  then have "i < length buffer" using randbelow_less [of "length buffer" f s] by (metis fst_conv length_greater_0_conv)
  then show "((f, s', take i buffer @ drop (Suc i) buffer), f, s, buffer) \<in> measure (\<lambda>(f, s, buffer). length buffer)"
    by simp
qed simp

declare drain.simps [simp del]

fun shuffle_through :: "(int \<Rightarrow> int) \<Rightarrow> nat \<Rightarrow> int \<Rightarrow> 'a list \<Rightarrow> 'a list \<Rightarrow> 'a list" where
  "shuffle_through blake_state size_limit s buffer [] = drain blake_state s buffer"
| "shuffle_through blake_state size_limit s buffer (item # stream) =
     (if length buffer < size_limit then shuffle_through blake_state size_limit s (buffer @ [item]) stream
      else let (i, s') = randbelow blake_state s (length buffer)
           in buffer ! i # shuffle_through blake_state size_limit s' (buffer[i := item]) stream)"

text \<open>\<open>None\<close> is the \<open>ValueError\<close> for a buffer of no size.\<close>

definition bounded_shuffle_stream :: "(int \<Rightarrow> int) \<Rightarrow> 'a list \<Rightarrow> nat \<Rightarrow> int \<Rightarrow> 'a list option" where
  "bounded_shuffle_stream blake_state stream buffer_size seed =
     (if buffer_size < 1 then None
      else Some (shuffle_through blake_state buffer_size (seed_mask seed) [] stream))"

subsection \<open>Nothing is lost or repeated\<close>

lemma mset_swap_update:
  assumes "i < length xs" and "j < length xs"
  shows "mset (xs[i := xs ! j, j := xs ! i]) = mset xs"
  using assms by (simp add: mset_swap)

lemma mset_swaps: "n < length order \<or> n = 0 \<Longrightarrow> mset (swaps f n s order) = mset order"
proof (induction f n s order rule: swaps.induct)
  case (2 f n s order)
  let ?s = "next_state f s"
  let ?j = "nat (?s mod (int (Suc n) + 1))"
  have "?j < Suc (Suc n)" by (simp add: nat_less_iff)
  then have j: "?j < length order" using 2(2) by simp
  have "mset (swaps f (Suc n) s order) = mset (swaps f n ?s (order[Suc n := order ! ?j, ?j := order ! Suc n]))"
    by (simp add: Let_def)
  also have "\<dots> = mset (order[Suc n := order ! ?j, ?j := order ! Suc n])" using 2 by (simp add: Let_def)
  also have "\<dots> = mset order" using 2(2) j by (intro mset_swap_update) simp_all
  finally show ?case .
qed simp

lemma mset_permute_indices: "mset (permute_indices f n seed) = mset [0..<n]"
  unfolding permute_indices_def by (rule mset_swaps) auto

lemma mset_shard_order: "mset (shard_order f hash ids seed) = mset ids"
proof -
  have "mset (shard_order f hash ids seed)
      = image_mset ((!) ids) (mset (permute_indices f (length ids) (Bit_Operations.xor seed (hash ''shard_order''))))"
    by (simp add: shard_order_def)
  also have "\<dots> = mset (map ((!) ids) [0..<length ids])" by (simp only: mset_permute_indices mset_map)
  finally show ?thesis by (simp add: map_nth)
qed

lemma mset_pop: "i < length xs \<Longrightarrow> add_mset (xs ! i) (mset (take i xs @ drop (Suc i) xs)) = mset xs"
  by (metis id_take_nth_drop mset.simps(2) mset_append union_mset_add_mset_right)

lemma mset_drain: "mset (drain f s buffer) = mset buffer"
proof (induction f s buffer rule: drain.induct)
  case (1 f s buffer)
  show ?case
  proof (cases "buffer = []")
    case True
    then show ?thesis by (simp add: drain.simps)
  next
    case False
    obtain i s' where r: "randbelow f s (length buffer) = (i, s')" by fastforce
    then have i: "i < length buffer" using randbelow_less [of "length buffer" f s] False by simp
    have "mset (drain f s buffer) = add_mset (buffer ! i) (mset (take i buffer @ drop (Suc i) buffer))"
      using 1 [OF False r [symmetric] refl] False r by (subst drain.simps) simp
    then show ?thesis using mset_pop [OF i] by simp
  qed
qed

lemma mset_exchange: "i < length xs \<Longrightarrow> add_mset (xs ! i) (mset (xs[i := y])) = add_mset y (mset xs)"
  by (simp add: mset_update)

lemma mset_shuffle_through:
  "0 < n \<Longrightarrow> mset (shuffle_through f n s buffer stream) = mset buffer + mset stream"
proof (induction f n s buffer stream rule: shuffle_through.induct)
  case (2 f n s buffer item stream)
  show ?case
  proof (cases "length buffer < n")
    case True
    then show ?thesis using 2 by simp
  next
    case False
    obtain i s' where r: "randbelow f s (length buffer) = (i, s')" by fastforce
    then have i: "i < length buffer" using randbelow_less [of "length buffer" f s] False 2(3) by (cases buffer) auto
    then show ?thesis using 2(2) [OF False r [symmetric] refl 2(3)] False mset_exchange [OF i, of item] by (simp add: r)
  qed
qed (simp add: mset_drain)

lemma mset_take_subset: "mset (take k xs) \<subseteq># mset xs"
  by (metis append_take_drop_id mset_append mset_subset_eq_add_left)

lemma shuffle_window:
  assumes "0 < n"
  shows "length buffer \<le> n \<Longrightarrow>
    mset (take k (shuffle_through f n s buffer stream)) \<subseteq># mset buffer + mset (take (k + n - length buffer) stream)"
proof (induction stream arbitrary: buffer s k)
  case Nil
  then show ?case using mset_take_subset [of k "drain f s buffer"] by (simp add: mset_drain)
next
  case (Cons item stream)
  show ?case
  proof (cases "length buffer < n")
    case True
    then have "mset (take k (shuffle_through f n s buffer (item # stream)))
        \<subseteq># mset (buffer @ [item]) + mset (take (k + n - length (buffer @ [item])) stream)"
      using Cons.IH [of "buffer @ [item]" k s] by simp
    also have "k + n - length buffer = Suc (k + n - length (buffer @ [item]))" using True by simp
    then have "mset (buffer @ [item]) + mset (take (k + n - length (buffer @ [item])) stream)
        = mset buffer + mset (take (k + n - length buffer) (item # stream))" by simp
    finally show ?thesis .
  next
    case False
    obtain i s' where r: "randbelow f s (length buffer) = (i, s')" by fastforce
    then have i: "i < length buffer" using randbelow_less [of "length buffer" f s] False assms by (cases buffer) auto
    show ?thesis
    proof (cases k)
      case (Suc k')
      have "mset (take k' (shuffle_through f n s' (buffer[i := item]) stream))
          \<subseteq># mset (buffer[i := item]) + mset (take (k' + n - length buffer) stream)"
        using Cons.IH [of "buffer[i := item]" k' s'] Cons.prems by simp
      then have "add_mset (buffer ! i) (mset (take k' (shuffle_through f n s' (buffer[i := item]) stream)))
          \<subseteq># add_mset (buffer ! i) (mset (buffer[i := item])) + mset (take (k' + n - length buffer) stream)"
        by simp
      also have "\<dots> = mset buffer + mset (take (k + n - length buffer) (item # stream))"
        using False Cons.prems Suc by (simp add: mset_exchange [OF i])
      finally show ?thesis using False r Suc by simp
    qed simp
  qed
qed

text \<open>
  The orders of an epoch lose and repeat nothing: shard order and index permutations are permutations,
  and the bounded shuffle of a stream is one as well; it needs only its buffer, since what it delivers first
  was read first, up to the size of the buffer. Only a buffer without size is refused.
\<close>

theorem orders_are_permutations:
  "mset (permute_indices f n seed) = mset [0..<n] \<and> mset (shard_order f hash ids seed) = mset ids
   \<and> (case bounded_shuffle_stream f stream buffer_size seed of
        None \<Rightarrow> buffer_size = 0
      | Some out \<Rightarrow> mset out = mset stream \<and> mset (take k out) \<subseteq># mset (take (k + buffer_size) stream))"
proof -
  have "case bounded_shuffle_stream f stream buffer_size seed of
        None \<Rightarrow> buffer_size = 0
      | Some out \<Rightarrow> mset out = mset stream \<and> mset (take k out) \<subseteq># mset (take (k + buffer_size) stream)"
  proof (cases buffer_size)
    case (Suc n)
    then show ?thesis
      using mset_shuffle_through [of buffer_size f "seed_mask seed" "[]" stream]
        shuffle_window [of buffer_size "[]" k f "seed_mask seed" stream]
      by (simp add: bounded_shuffle_stream_def)
  qed (simp add: bounded_shuffle_stream_def)
  then show ?thesis by (simp add: mset_permute_indices mset_shard_order)
qed

end
