(* ===== verification/Sharding.thy ===== *)
theory Sharding
  imports Training_Manifest Json_Text Data_Order
begin

text \<open>
  Sharding of a training manifest (\<open>clouda_data/training_data/sharding.py\<close>): the rows of an accepted
  manifest are written into shard files with an index; the index is read back and the files are verified
  against it. A shard file is the list of the JSON values of its lines, its bytes are their canonical texts
  with line ends. SHA-256 is \<open>sx_sha\<close>, the 16 bytes of BLAKE2b are \<open>sx_blake\<close>.
\<close>

subsection \<open>Configuration and index\<close>

datatype shard_strategy = CountStrategy | SizeAwareStrategy

record shard_config =
  sc_strategy :: shard_strategy
  sc_samples_per_shard :: int
  sc_max_shard_bytes :: int

text \<open>What \<open>__post_init__\<close> lets through.\<close>

definition shard_config_ok :: "shard_config \<Rightarrow> bool" where
  "shard_config_ok c \<longleftrightarrow> 1 \<le> sc_samples_per_shard c \<and> 1 \<le> sc_max_shard_bytes c"

record shard_entry =
  sh_shard_id :: string
  sh_ordinal :: int
  sh_sample_count :: int
  sh_approx_bytes :: int
  sh_sha256 :: string
  sh_path :: string

record shard_index =
  si_dataset_id :: string
  si_dataset_version :: string
  si_source_manifest_sha256 :: string
  si_shard_config_hash :: string
  si_total_samples :: int
  si_shards :: "shard_entry list"

record shard_env =
  sx_text :: text_fns
  sx_float_text :: "rat \<Rightarrow> string"
  sx_sha :: "string \<Rightarrow> string"
  sx_blake :: "string \<Rightarrow> nat list"

type_synonym shard_files = "string \<rightharpoonup> json list"

datatype shard_error =
  ShardManifest manifest_error
| ShardValueError string
| ShardIndexError string
| ShardKeyError string
| ShardTypeError

definition hexdigest :: "nat list \<Rightarrow> string" where
  "hexdigest bytes = concat (map (\<lambda>b. [hex_digit_char (b div 16 mod 16), hex_digit_char (b mod 16)]) bytes)"

definition derive_shard_id :: "shard_env \<Rightarrow> string \<Rightarrow> string \<Rightarrow> string \<Rightarrow> string \<Rightarrow> int \<Rightarrow> string" where
  "derive_shard_id env dataset_id dataset_version manifest_sha256 config_hash ordinal =
     ''shard-'' @ take 16 (hexdigest (sx_blake env
       (unit_separated [dataset_id, dataset_version, manifest_sha256, config_hash, int_text ordinal])))"

subsection \<open>Rows and files\<close>

definition SHARD_ROW_SCHEMA_VERSION :: string where
  "SHARD_ROW_SCHEMA_VERSION = ''clouda.training_data.shard_record.v1''"

definition shard_row_payload :: "text_fns \<Rightarrow> manifest_row \<Rightarrow> string \<Rightarrow> nat \<Rightarrow> json" where
  "shard_row_payload t row shard_id position =
     JObj [(''schema_version'', JStr SHARD_ROW_SCHEMA_VERSION), (''sample_id'', JStr (row_sample_id t row)),
           (''shard_id'', JStr shard_id), (''position'', JInt (int position)), (''row'', JObj row)]"

text \<open>A truth value is an integer here too.\<close>

definition approx_row_bytes :: "shard_env \<Rightarrow> manifest_row \<Rightarrow> int" where
  "approx_row_bytes env row =
     (let size_of_text = int (length (json_dumps (sx_float_text env) (JObj row)))
      in case obj_get row ''file_size'' of
           JInt n \<Rightarrow> if 0 < n then n else size_of_text
         | JBool b \<Rightarrow> if b then 1 else size_of_text
         | _ \<Rightarrow> size_of_text)"

definition file_text :: "shard_env \<Rightarrow> json list \<Rightarrow> string" where
  "file_text env lines = concat (map (\<lambda>l. json_dumps (sx_float_text env) l @ [CHR 0x0A]) lines)"

subsection \<open>Building\<close>

text \<open>The variables of \<open>build_shards\<close>, and what it has written.\<close>

record shard_build =
  sb_ordinal :: nat
  sb_current_id :: "string option"
  sb_lines :: "json list"
  sb_bytes :: int
  sb_entries :: "shard_entry list"
  sb_files :: shard_files

definition start_build :: shard_build where
  "start_build = \<lparr>sb_ordinal = 0, sb_current_id = None, sb_lines = [], sb_bytes = 0, sb_entries = [],
     sb_files = Map.empty\<rparr>"

definition flush_shard :: "shard_env \<Rightarrow> shard_build \<Rightarrow> shard_build" where
  "flush_shard env b =
     (case sb_current_id b of
        None \<Rightarrow> b
      | Some sid \<Rightarrow>
          if sb_lines b = [] then b
          else
            let path = sid @ ''.jsonl''
            in \<lparr>sb_ordinal = sb_ordinal b + 1, sb_current_id = None, sb_lines = [], sb_bytes = 0,
                sb_entries = sb_entries b @
                  [\<lparr>sh_shard_id = sid, sh_ordinal = int (sb_ordinal b), sh_sample_count = int (length (sb_lines b)),
                    sh_approx_bytes = sb_bytes b, sh_sha256 = sx_sha env (file_text env (sb_lines b)),
                    sh_path = path\<rparr>],
                sb_files = (sb_files b)(path \<mapsto> sb_lines b)\<rparr>)"

definition name_shard :: "(int \<Rightarrow> string) \<Rightarrow> shard_build \<Rightarrow> shard_build" where
  "name_shard ids b = b\<lparr>sb_current_id := Some (ids (int (sb_ordinal b)))\<rparr>"

definition shard_full :: "shard_config \<Rightarrow> int \<Rightarrow> shard_build \<Rightarrow> bool" where
  "shard_full c row_bytes b \<longleftrightarrow> sc_strategy c = SizeAwareStrategy \<and> sb_lines b \<noteq> []
     \<and> (sc_samples_per_shard c \<le> int (length (sb_lines b)) \<or> sc_max_shard_bytes c < sb_bytes b + row_bytes)"

definition append_row :: "shard_env \<Rightarrow> manifest_row \<Rightarrow> shard_build \<Rightarrow> shard_build" where
  "append_row env row b =
     b\<lparr>sb_lines := sb_lines b @
         [shard_row_payload (sx_text env) row (the (sb_current_id b)) (length (sb_lines b))],
       sb_bytes := sb_bytes b + approx_row_bytes env row\<rparr>"

definition shard_row :: "shard_env \<Rightarrow> shard_config \<Rightarrow> (int \<Rightarrow> string) \<Rightarrow> manifest_row \<Rightarrow> shard_build \<Rightarrow> shard_build" where
  "shard_row env c ids row b =
     (let b1 = (if sb_current_id b = None then name_shard ids b else b);
          b2 = (if shard_full c (approx_row_bytes env row) b1 then name_shard ids (flush_shard env b1) else b1);
          b3 = append_row env row b2
      in if sc_strategy c = CountStrategy \<and> sc_samples_per_shard c \<le> int (length (sb_lines b3))
         then flush_shard env b3 else b3)"

definition build_shards ::
  "shard_env \<Rightarrow> (manifest_file \<Rightarrow> string) \<Rightarrow> (shard_config \<Rightarrow> string) \<Rightarrow> manifest_file option \<Rightarrow> shard_config
    \<Rightarrow> string \<Rightarrow> string \<Rightarrow> string option \<Rightarrow> nat option \<Rightarrow> shard_error + (shard_index \<times> shard_files)" where
  "build_shards env digest config_hash manifest c did dver expected sample_limit =
     (case validate_canonical_manifest (sx_text env) digest manifest did dver ''train'' of
        Inl err \<Rightarrow> Inl (ShardManifest err)
      | Inr ident \<Rightarrow>
          if (case expected of None \<Rightarrow> False | Some h \<Rightarrow> h \<noteq> mi_manifest_sha256 ident)
          then Inl (ShardValueError ''Provided manifest_sha256 does not match the manifest file'')
          else
            let all_rows = iter_canonical_rows (the manifest);
                rows = (case sample_limit of None \<Rightarrow> all_rows | Some n \<Rightarrow> take n all_rows);
                ids = derive_shard_id env did dver (mi_manifest_sha256 ident) (config_hash c);
                b = flush_shard env (fold (shard_row env c ids) rows start_build)
            in if rows = [] then Inl (ShardValueError ''Manifest contains no training-eligible rows'')
               else Inr (\<lparr>si_dataset_id = did, si_dataset_version = dver,
                 si_source_manifest_sha256 = mi_manifest_sha256 ident, si_shard_config_hash = config_hash c,
                 si_total_samples = int (length rows), si_shards = sb_entries b\<rparr>, sb_files b))"

subsection \<open>Verifying\<close>

definition verify_line ::
  "text_fns \<Rightarrow> shard_entry \<Rightarrow> json \<Rightarrow> string list \<times> int \<Rightarrow> shard_error + (string list \<times> int)" where
  "verify_line t e l acc =
     (case l of
        JObj record \<Rightarrow>
          if obj_get record ''shard_id'' \<noteq> JStr (sh_shard_id e) then Inl (ShardIndexError ''Shard id mismatch'')
          else
            let sample_id = row_sample_id t record
            in if sample_id = [] then Inl (ShardIndexError ''Missing sample_id'')
               else if sample_id \<in> set (fst acc) then Inl (ShardIndexError ''Duplicate sample across shards'')
               else Inr (sample_id # fst acc, snd acc + 1)
      | _ \<Rightarrow> Inl ShardTypeError)"

fun verify_lines ::
  "text_fns \<Rightarrow> shard_entry \<Rightarrow> json list \<Rightarrow> string list \<times> int \<Rightarrow> shard_error + (string list \<times> int)" where
  "verify_lines t e [] acc = Inr acc"
| "verify_lines t e (l # ls) acc =
     (case verify_line t e l acc of Inl err \<Rightarrow> Inl err | Inr acc' \<Rightarrow> verify_lines t e ls acc')"

text \<open>The ids seen and the total so far.\<close>

fun verify_entries ::
  "shard_env \<Rightarrow> shard_files \<Rightarrow> shard_entry list \<Rightarrow> string list \<times> int \<Rightarrow> shard_error + (string list \<times> int)" where
  "verify_entries env files [] acc = Inr acc"
| "verify_entries env files (e # es) acc =
     (case files (sh_path e) of
        None \<Rightarrow> Inl (ShardIndexError ''Shard file missing'')
      | Some lines \<Rightarrow>
          if sx_sha env (file_text env lines) \<noteq> sh_sha256 e then Inl (ShardIndexError ''Shard hash mismatch'')
          else case verify_lines (sx_text env) e lines (fst acc, 0) of
            Inl err \<Rightarrow> Inl err
          | Inr (seen, n) \<Rightarrow>
              if n \<noteq> sh_sample_count e then Inl (ShardIndexError ''Shard sample count mismatch'')
              else verify_entries env files es (seen, snd acc + n))"

text \<open>Verified shards, verified samples and unique samples.\<close>

definition verify_shards :: "shard_env \<Rightarrow> shard_index \<Rightarrow> shard_files \<Rightarrow> shard_error + (nat \<times> int \<times> nat)" where
  "verify_shards env idx files =
     (case verify_entries env files (si_shards idx) ([], 0) of
        Inl err \<Rightarrow> Inl err
      | Inr (seen, n) \<Rightarrow>
          if n \<noteq> si_total_samples idx then Inl (ShardIndexError ''Total sample mismatch'')
          else Inr (length (si_shards idx), n, length seen))"

subsection \<open>The index as JSON\<close>

text \<open>\<open>ShardIndex.to_dict\<close> and \<open>from_dict\<close>; a value that the code reads with \<open>str\<close> or \<open>int\<close> is converted.\<close>

definition SHARD_INDEX_SCHEMA_VERSION :: string where
  "SHARD_INDEX_SCHEMA_VERSION = ''clouda.training_data.shard_index.v1''"

definition entry_to_dict :: "shard_entry \<Rightarrow> json" where
  "entry_to_dict e =
     JObj [(''shard_id'', JStr (sh_shard_id e)), (''ordinal'', JInt (sh_ordinal e)),
           (''sample_count'', JInt (sh_sample_count e)), (''approx_bytes'', JInt (sh_approx_bytes e)),
           (''sha256'', JStr (sh_sha256 e)), (''path'', JStr (sh_path e))]"

definition index_to_dict :: "shard_index \<Rightarrow> (string \<times> json) list" where
  "index_to_dict idx =
     [(''schema_version'', JStr SHARD_INDEX_SCHEMA_VERSION), (''dataset_id'', JStr (si_dataset_id idx)),
      (''dataset_version'', JStr (si_dataset_version idx)),
      (''source_manifest_sha256'', JStr (si_source_manifest_sha256 idx)),
      (''shard_config_hash'', JStr (si_shard_config_hash idx)), (''total_samples'', JInt (si_total_samples idx)),
      (''total_shards'', JInt (int (length (si_shards idx)))), (''created_by'', JStr ''clouda-pdf 0.2.0''),
      (''shards'', JList (map entry_to_dict (si_shards idx)))]"

fun and_then :: "'e + 'a \<Rightarrow> ('a \<Rightarrow> 'e + 'b) \<Rightarrow> 'e + 'b" where
  "and_then (Inl err) f = Inl err"
| "and_then (Inr x) f = f x"

definition item_at :: "(string \<times> json) list \<Rightarrow> string \<Rightarrow> shard_error + json" where
  "item_at kvs k = (case map_of kvs k of None \<Rightarrow> Inl (ShardKeyError k) | Some v \<Rightarrow> Inr v)"

definition text_at :: "text_fns \<Rightarrow> (string \<times> json) list \<Rightarrow> string \<Rightarrow> shard_error + string" where
  "text_at t kvs k = and_then (item_at kvs k) (\<lambda>v. Inr (case v of JStr s \<Rightarrow> s | _ \<Rightarrow> tx_show t v))"

definition int_of :: "json \<Rightarrow> shard_error + int" where
  "int_of v =
     (case v of
        JInt n \<Rightarrow> Inr n
      | JBool b \<Rightarrow> Inr (if b then 1 else 0)
      | JFloat x \<Rightarrow> Inr (if x < 0 then \<lceil>x\<rceil> else \<lfloor>x\<rfloor>)
      | JStr s \<Rightarrow> (case py_int s of Some n \<Rightarrow> Inr n | None \<Rightarrow> Inl (ShardValueError ''invalid literal for int()''))
      | _ \<Rightarrow> Inl ShardTypeError)"

text \<open>On a POSIX file system.\<close>

definition validated_shard_path :: "string \<Rightarrow> shard_error + string" where
  "validated_shard_path path =
     (if path = [] \<or> path \<in> {''.'', ''..''} \<or> CHR ''/'' \<in> set path \<or> CHR 0x5C \<in> set path
      then Inl (ShardIndexError ''Unsafe shard path'') else Inr path)"

definition entry_from_dict :: "text_fns \<Rightarrow> json \<Rightarrow> shard_error + shard_entry" where
  "entry_from_dict t v =
     (case v of
        JObj item \<Rightarrow>
          and_then (text_at t item ''shard_id'') (\<lambda>sid.
          and_then (and_then (item_at item ''ordinal'') int_of) (\<lambda>ordinal.
          and_then (and_then (item_at item ''sample_count'') int_of) (\<lambda>n.
          and_then (int_of (obj_get_or item ''approx_bytes'' (JInt 0))) (\<lambda>approx.
          and_then (text_at t item ''sha256'') (\<lambda>sha.
          and_then (and_then (text_at t item ''path'') validated_shard_path) (\<lambda>path.
            Inr \<lparr>sh_shard_id = sid, sh_ordinal = ordinal, sh_sample_count = n, sh_approx_bytes = approx,
              sh_sha256 = sha, sh_path = path\<rparr>))))))
      | _ \<Rightarrow> Inl ShardTypeError)"

fun all_inr :: "('a \<Rightarrow> 'e + 'b) \<Rightarrow> 'a list \<Rightarrow> 'e + 'b list" where
  "all_inr f [] = Inr []"
| "all_inr f (x # xs) = and_then (f x) (\<lambda>y. and_then (all_inr f xs) (\<lambda>ys. Inr (y # ys)))"

definition items_of :: "json \<Rightarrow> shard_error + json list" where
  "items_of v =
     (case v of
        JList xs \<Rightarrow> Inr xs
      | JStr [] \<Rightarrow> Inr []
      | JObj [] \<Rightarrow> Inr []
      | _ \<Rightarrow> Inl ShardTypeError)"

text \<open>The loop over the entries, which stops at the first bad one.\<close>

fun check_entries :: "(int \<Rightarrow> string) \<Rightarrow> shard_entry list \<Rightarrow> shard_error + unit" where
  "check_entries ids [] = Inr ()"
| "check_entries ids (e # es) =
     (if sh_shard_id e \<noteq> ids (sh_ordinal e) then Inl (ShardIndexError ''Shard identity mismatch'')
      else if sh_sample_count e < 1 then Inl (ShardIndexError ''Shard sample_count must be positive'')
      else check_entries ids es)"

definition index_from_dict :: "shard_env \<Rightarrow> (string \<times> json) list \<Rightarrow> shard_error + shard_index" where
  "index_from_dict env payload =
     (let t = sx_text env in
      if obj_get payload ''schema_version'' \<noteq> JStr SHARD_INDEX_SCHEMA_VERSION
      then Inl (ShardIndexError ''Unsupported shard index schema'')
      else
        and_then (text_at t payload ''dataset_id'') (\<lambda>did.
        and_then (text_at t payload ''dataset_version'') (\<lambda>dver.
        and_then (text_at t payload ''source_manifest_sha256'') (\<lambda>manifest_hash.
        and_then (text_at t payload ''shard_config_hash'') (\<lambda>config_hash.
        and_then (and_then (and_then (item_at payload ''shards'') items_of) (all_inr (entry_from_dict t))) (\<lambda>entries.
        and_then (int_of (obj_get_or payload ''total_shards'' (JInt (-1)))) (\<lambda>n.
          if n \<noteq> int (length entries) then Inl (ShardIndexError ''Shard index total_shards does not match entries'')
          else if map sh_ordinal entries \<noteq> map int [0..<length entries]
          then Inl (ShardIndexError ''Shard index ordinals must be contiguous and ordered'')
          else if \<not> distinct (map sh_path entries) then Inl (ShardIndexError ''Shard index contains duplicate paths'')
          else
            and_then (check_entries (derive_shard_id env did dver manifest_hash config_hash) entries) (\<lambda>_.
            and_then (and_then (item_at payload ''total_samples'') int_of) (\<lambda>n.
              if n \<noteq> sum_list (map sh_sample_count entries)
              then Inl (ShardIndexError ''Shard index total_samples does not match entry counts'')
              else Inr \<lparr>si_dataset_id = did, si_dataset_version = dver, si_source_manifest_sha256 = manifest_hash,
                si_shard_config_hash = config_hash, si_total_samples = n, si_shards = entries\<rparr>)))))))))"

subsection \<open>The groups of rows\<close>

text \<open>What is written for the rows of one shard.\<close>

definition payloads :: "text_fns \<Rightarrow> string \<Rightarrow> manifest_row list \<Rightarrow> json list" where
  "payloads t sid g = map (\<lambda>(p, row). shard_row_payload t row sid p) (enumerate 0 g)"

definition group_bytes :: "shard_env \<Rightarrow> manifest_row list \<Rightarrow> int" where
  "group_bytes env g = sum_list (map (approx_row_bytes env) g)"

definition group_entry :: "shard_env \<Rightarrow> (int \<Rightarrow> string) \<Rightarrow> nat \<times> manifest_row list \<Rightarrow> shard_entry" where
  "group_entry env ids kg = (case kg of (k, g) \<Rightarrow>
     let lines = payloads (sx_text env) (ids (int k)) g
     in \<lparr>sh_shard_id = ids (int k), sh_ordinal = int k, sh_sample_count = int (length g),
         sh_approx_bytes = group_bytes env g, sh_sha256 = sx_sha env (file_text env lines),
         sh_path = ids (int k) @ ''.jsonl''\<rparr>)"

definition group_file :: "shard_env \<Rightarrow> (int \<Rightarrow> string) \<Rightarrow> nat \<times> manifest_row list \<Rightarrow> string \<times> json list" where
  "group_file env ids kg = (case kg of (k, g) \<Rightarrow> (ids (int k) @ ''.jsonl'', payloads (sx_text env) (ids (int k)) g))"

lemma length_payloads [simp]: "length (payloads t sid g) = length g"
  by (simp add: payloads_def)

lemma payloads_Nil_iff [simp]: "payloads t sid g = [] \<longleftrightarrow> g = []"
  by (cases g) (simp_all add: payloads_def)

lemma payloads_snoc: "payloads t sid (g @ [row]) = payloads t sid g @ [shard_row_payload t row sid (length g)]"
  by (simp add: payloads_def enumerate_append_eq)

text \<open>A group that keeps the limits of the configuration.\<close>

definition fits :: "shard_env \<Rightarrow> shard_config \<Rightarrow> manifest_row list \<Rightarrow> bool" where
  "fits env c g \<longleftrightarrow> int (length g) \<le> sc_samples_per_shard c
     \<and> (sc_strategy c = CountStrategy \<or> group_bytes env g \<le> sc_max_shard_bytes c \<or> length g \<le> 1)"

definition written :: "shard_env \<Rightarrow> (int \<Rightarrow> string) \<Rightarrow> manifest_row list list \<Rightarrow> manifest_row list \<Rightarrow> shard_build \<Rightarrow> bool" where
  "written env ids groups cur b \<longleftrightarrow> sb_ordinal b = length groups
     \<and> sb_lines b = payloads (sx_text env) (ids (int (length groups))) cur \<and> sb_bytes b = group_bytes env cur
     \<and> sb_entries b = map (group_entry env ids) (enumerate 0 groups)
     \<and> sb_files b = map_of (rev (map (group_file env ids) (enumerate 0 groups)))"

definition named :: "(int \<Rightarrow> string) \<Rightarrow> manifest_row list list \<Rightarrow> manifest_row list \<Rightarrow> shard_build \<Rightarrow> bool" where
  "named ids groups cur b \<longleftrightarrow>
     sb_current_id b = (if cur = [] then None else Some (ids (int (length groups))))"

definition build_ok :: "shard_env \<Rightarrow> shard_config \<Rightarrow> manifest_row list list \<Rightarrow> manifest_row list \<Rightarrow> bool" where
  "build_ok env c groups cur \<longleftrightarrow> list_all (\<lambda>g. g \<noteq> [] \<and> fits env c g) groups \<and> fits env c cur
     \<and> (sc_strategy c = CountStrategy \<longrightarrow> int (length cur) < sc_samples_per_shard c)"

lemma flush_written:
  assumes "written env ids groups cur b" and "sb_current_id b = Some (ids (int (length groups)))" and "cur \<noteq> []"
  shows "written env ids (groups @ [cur]) [] (flush_shard env b) \<and> sb_current_id (flush_shard env b) = None"
  using assms by (simp add: written_def flush_shard_def Let_def group_entry_def group_file_def enumerate_append_eq
      group_bytes_def payloads_def [of _ _ "[]"])

lemma flush_nothing: "named ids groups [] b \<Longrightarrow> flush_shard env b = b"
  by (simp add: named_def flush_shard_def)

lemma append_written:
  assumes "written env ids groups cur b" and "sb_current_id b = Some (ids (int (length groups)))"
  shows "written env ids groups (cur @ [row]) (append_row env row b)
    \<and> sb_current_id (append_row env row b) = Some (ids (int (length groups)))
    \<and> length (sb_lines (append_row env row b)) = Suc (length cur)"
  using assms by (simp add: written_def append_row_def payloads_snoc group_bytes_def)

lemma name_written:
  "written env ids groups cur b \<Longrightarrow> written env ids groups cur (name_shard ids b)
    \<and> sb_current_id (name_shard ids b) = Some (ids (int (length groups)))"
  by (simp add: written_def name_shard_def)

text \<open>A row that would overfill the open group closes it and opens the next; any other row joins it.\<close>

lemma row_closes:
  assumes w: "written env ids groups cur b" "sb_current_id b = Some (ids (int (length groups)))"
    and "build_ok env c groups cur" and "shard_full c n b" and "shard_config_ok c"
  shows "written env ids (groups @ [cur]) [row] (append_row env row (name_shard ids (flush_shard env b)))
    \<and> named ids (groups @ [cur]) [row] (append_row env row (name_shard ids (flush_shard env b)))
    \<and> build_ok env c (groups @ [cur]) [row] \<and> sc_strategy c \<noteq> CountStrategy"
proof -
  have cur: "cur \<noteq> []" and size_aware: "sc_strategy c \<noteq> CountStrategy"
    using assms(4) w(1) by (auto simp: shard_full_def written_def)
  have "written env ids (groups @ [cur]) [] (flush_shard env b)" using flush_written [OF w cur] by simp
  from name_written [OF this] have "written env ids (groups @ [cur]) [] (name_shard ids (flush_shard env b))"
    and "sb_current_id (name_shard ids (flush_shard env b)) = Some (ids (int (length (groups @ [cur]))))" by simp_all
  from append_written [OF this, of row] show ?thesis
    using assms(3,5) cur size_aware by (simp add: named_def build_ok_def fits_def shard_config_ok_def)
qed

lemma row_fits:
  assumes "written env ids groups cur b" and "build_ok env c groups cur" and "shard_config_ok c"
    and "\<not> shard_full c (approx_row_bytes env row) b"
  shows "fits env c (cur @ [row])"
proof (cases "sc_strategy c = CountStrategy \<or> cur = []")
  case True
  then show ?thesis using assms(2,3) by (auto simp: build_ok_def fits_def shard_config_ok_def)
next
  case False
  then have "sc_strategy c = SizeAwareStrategy" "cur \<noteq> []" by (cases "sc_strategy c"; simp)+
  then have "int (length cur) < sc_samples_per_shard c"
    "group_bytes env cur + approx_row_bytes env row \<le> sc_max_shard_bytes c"
    using assms(1,4) by (auto simp: shard_full_def written_def)
  then show ?thesis by (simp add: fits_def group_bytes_def)
qed

lemma row_joins:
  assumes w: "written env ids groups cur b" "sb_current_id b = Some (ids (int (length groups)))"
    and ok: "build_ok env c groups cur" "shard_config_ok c" and "fits env c (cur @ [row])"
    and b3: "b3 = append_row env row b"
    and r: "r = (if sc_strategy c = CountStrategy \<and> sc_samples_per_shard c \<le> int (length (sb_lines b3))
      then flush_shard env b3 else b3)"
  shows "\<exists>groups' cur'. concat groups' @ cur' = concat groups @ cur @ [row] \<and> written env ids groups' cur' r
    \<and> named ids groups' cur' r \<and> build_ok env c groups' cur'"
proof -
  note a = append_written [OF w, of row, folded b3]
  show ?thesis
  proof (cases "sc_strategy c = CountStrategy \<and> sc_samples_per_shard c \<le> int (length (sb_lines b3))")
    case True
    have "written env ids (groups @ [cur @ [row]]) [] (flush_shard env b3)"
      "sb_current_id (flush_shard env b3) = None" using flush_written [of env ids groups "cur @ [row]" b3] a by simp_all
    moreover have "build_ok env c (groups @ [cur @ [row]]) []"
      using ok assms(5) by (simp add: build_ok_def) (simp add: fits_def shard_config_ok_def group_bytes_def)
    ultimately show ?thesis using r True
      by (intro exI [of _ "groups @ [cur @ [row]]"] exI [of _ "[]"]) (simp add: named_def)
  next
    case False
    then have "build_ok env c groups (cur @ [row])" using ok(1) assms(5) a by (auto simp: build_ok_def)
    then show ?thesis using a r False
      by (intro exI [of _ groups] exI [of _ "cur @ [row]"]) (auto simp: named_def)
  qed
qed

lemma shard_row_written:
  assumes w: "written env ids groups cur b" "named ids groups cur b" and ok: "build_ok env c groups cur"
    and c: "shard_config_ok c"
  shows "\<exists>groups' cur'. concat groups' @ cur' = concat groups @ cur @ [row]
    \<and> written env ids groups' cur' (shard_row env c ids row b) \<and> named ids groups' cur' (shard_row env c ids row b)
    \<and> build_ok env c groups' cur'"
proof -
  let ?b1 = "if sb_current_id b = None then name_shard ids b else b"
  have b1: "written env ids groups cur ?b1" "sb_current_id ?b1 = Some (ids (int (length groups)))"
    using w name_written [OF w(1)] by (auto simp: named_def)
  show ?thesis
  proof (cases "shard_full c (approx_row_bytes env row) ?b1")
    case True
    note closed = row_closes [OF b1 ok True c, of row]
    then have "shard_row env c ids row b = append_row env row (name_shard ids (flush_shard env ?b1))"
      using True by (simp only: shard_row_def Let_def if_True) simp
    then show ?thesis using closed by (intro exI [of _ "groups @ [cur]"] exI [of _ "[row]"]) simp
  next
    case False
    show ?thesis
      by (rule row_joins [OF b1 ok c row_fits [OF b1(1) ok c False] refl])
        (simp only: shard_row_def Let_def False if_False)
  qed
qed

lemma rows_written:
  assumes "shard_config_ok c"
  shows "\<exists>groups cur. concat groups @ cur = rows
    \<and> written env ids groups cur (fold (shard_row env c ids) rows start_build)
    \<and> named ids groups cur (fold (shard_row env c ids) rows start_build) \<and> build_ok env c groups cur"
proof (induction rows rule: rev_induct)
  case Nil
  have "written env ids [] [] start_build \<and> named ids [] [] start_build \<and> build_ok env c [] []"
    using assms by (simp add: written_def named_def build_ok_def start_build_def group_bytes_def payloads_def
        fits_def shard_config_ok_def)
  then show ?case by (intro exI [of _ "[]"]) simp
next
  case (snoc row rows)
  then obtain groups cur where g: "concat groups @ cur = rows"
    "written env ids groups cur (fold (shard_row env c ids) rows start_build)"
    "named ids groups cur (fold (shard_row env c ids) rows start_build)" "build_ok env c groups cur" by blast
  obtain groups' cur' where s: "concat groups' @ cur' = concat groups @ cur @ [row]"
    "written env ids groups' cur' (shard_row env c ids row (fold (shard_row env c ids) rows start_build))"
    "named ids groups' cur' (shard_row env c ids row (fold (shard_row env c ids) rows start_build))"
    "build_ok env c groups' cur'" using shard_row_written [OF g(2-4) assms, of row] by blast
  moreover have "concat groups' @ cur' = rows @ [row]" using s(1) g(1) by (metis append_assoc)
  moreover have "fold (shard_row env c ids) (rows @ [row]) start_build
      = shard_row env c ids row (fold (shard_row env c ids) rows start_build)" by simp
  ultimately show ?case by metis
qed

lemma groups_written:
  assumes "shard_config_ok c"
  shows "\<exists>groups. concat groups = rows
    \<and> written env ids groups [] (flush_shard env (fold (shard_row env c ids) rows start_build))
    \<and> list_all (\<lambda>g. g \<noteq> [] \<and> fits env c g) groups"
proof -
  let ?b = "fold (shard_row env c ids) rows start_build"
  obtain groups cur where g: "concat groups @ cur = rows" "written env ids groups cur ?b" "named ids groups cur ?b"
    "build_ok env c groups cur" using rows_written [OF assms] by blast
  show ?thesis
  proof (cases "cur = []")
    case True
    then show ?thesis using g flush_nothing [of ids groups ?b env] by (auto simp: build_ok_def)
  next
    case False
    have "written env ids (groups @ [cur]) [] (flush_shard env ?b)"
      using flush_written [OF g(2) _ False] g(3) False by (simp add: named_def)
    then show ?thesis using g(1,4) False
      by (intro exI [of _ "groups @ [cur]"]) (simp add: build_ok_def)
  qed
qed

subsection \<open>The files verify\<close>

lemma row_sample_id_payload: "row_sample_id t
    [(''schema_version'', v), (''sample_id'', JStr s), (''shard_id'', w), (''position'', p), (''row'', r)] = s"
  by (simp add: row_sample_id_def obj_get_or_def)

lemma verify_payloads:
  assumes "sh_shard_id e = sid"
  shows "[] \<notin> set (map (row_sample_id t) g) \<Longrightarrow> distinct (map (row_sample_id t) g) \<Longrightarrow>
    set (map (row_sample_id t) g) \<inter> set seen = {} \<Longrightarrow>
    verify_lines t e (map (\<lambda>(p, row). shard_row_payload t row sid p) (enumerate p g)) (seen, n)
      = Inr (rev (map (row_sample_id t) g) @ seen, n + int (length g))"
proof (induction g arbitrary: p seen n)
  case (Cons row g)
  have "verify_line t e (shard_row_payload t row sid p) (seen, n) = Inr (row_sample_id t row # seen, n + 1)"
    using Cons.prems assms
    by (auto simp: verify_line_def shard_row_payload_def row_sample_id_payload obj_get_def obj_get_or_def Let_def)
  then show ?case using Cons.prems Cons.IH [of "row_sample_id t row # seen" "Suc p" "n + 1"] by (simp add: algebra_simps)
qed simp

lemma verify_groups:
  assumes files: "\<And>k g. (k, g) \<in> set (enumerate p groups) \<Longrightarrow>
      files (ids (int k) @ ''.jsonl'') = Some (payloads (sx_text env) (ids (int k)) g)"
  shows "[] \<notin> set (map (row_sample_id (sx_text env)) (concat groups)) \<Longrightarrow>
    distinct (map (row_sample_id (sx_text env)) (concat groups)) \<Longrightarrow>
    set (map (row_sample_id (sx_text env)) (concat groups)) \<inter> set seen = {} \<Longrightarrow>
    verify_entries env files (map (group_entry env ids) (enumerate p groups)) (seen, n)
      = Inr (rev (map (row_sample_id (sx_text env)) (concat groups)) @ seen, n + int (length (concat groups)))"
  using files
proof (induction groups arbitrary: p seen n)
  case (Cons g groups)
  let ?t = "sx_text env" and ?e = "group_entry env ids (p, g)"
  have f: "files (sh_path ?e) = Some (payloads ?t (ids (int p)) g)"
    using Cons.prems(4) [of p g] by (simp add: group_entry_def Let_def)
  have "verify_lines ?t ?e (payloads ?t (ids (int p)) g) (seen, 0)
      = Inr (rev (map (row_sample_id ?t) g) @ seen, 0 + int (length g))"
    unfolding payloads_def by (rule verify_payloads) (use Cons.prems in \<open>auto simp: group_entry_def Let_def\<close>)
  moreover have "sx_sha env (file_text env (payloads ?t (ids (int p)) g)) = sh_sha256 ?e"
    and "sh_sample_count ?e = int (length g)" by (simp_all add: group_entry_def Let_def)
  moreover have "verify_entries env files (map (group_entry env ids) (enumerate (Suc p) groups))
      (rev (map (row_sample_id ?t) g) @ seen, n + int (length g))
      = Inr (rev (map (row_sample_id ?t) (concat groups)) @ rev (map (row_sample_id ?t) g) @ seen,
          n + int (length g) + int (length (concat groups)))"
  proof (rule Cons.IH)
    have "set (map (row_sample_id ?t) g) \<inter> set (map (row_sample_id ?t) (concat groups)) = {}"
      using Cons.prems(2) by (simp only: concat.simps map_append distinct_append)
    moreover have "set (map (row_sample_id ?t) (concat groups)) \<inter> set seen = {}" using Cons.prems(3) by auto
    moreover have "set (rev (map (row_sample_id ?t) g) @ seen) = set (map (row_sample_id ?t) g) \<union> set seen"
      by simp
    ultimately show "set (map (row_sample_id ?t) (concat groups))
      \<inter> set (rev (map (row_sample_id ?t) g) @ seen) = {}" by blast
    show "[] \<notin> set (map (row_sample_id ?t) (concat groups))" using Cons.prems(1) by auto
    show "distinct (map (row_sample_id ?t) (concat groups))" using Cons.prems(2) by simp
    show "files (ids (int k) @ ''.jsonl'') = Some (payloads ?t (ids (int k)) h)"
      if "(k, h) \<in> set (enumerate (Suc p) groups)" for k h
      using Cons.prems(4) [of k h] that by simp
  qed
  ultimately show ?case using f by (simp add: algebra_simps)
qed simp

lemma length_groups:
  "list_all (\<lambda>g. g \<noteq> [] \<and> P g) groups \<Longrightarrow> length groups \<le> length (concat groups)"
proof (induction groups)
  case (Cons g groups)
  then show ?case by (cases g) auto
qed simp

text \<open>Under different names no file is overwritten.\<close>

lemma distinct_shard_paths:
  assumes "inj_on ids {0..<int n}"
  shows "distinct (map (\<lambda>k. ids (int k) @ ''.jsonl'') [0..<n])"
proof -
  have "inj_on (\<lambda>k. ids (int k) @ ''.jsonl'') (set [0..<n])"
  proof (rule inj_onI)
    fix x y assume "x \<in> set [0..<n]" and "y \<in> set [0..<n]" and "ids (int x) @ ''.jsonl'' = ids (int y) @ ''.jsonl''"
    then show "x = y" using inj_onD [OF assms, of "int x" "int y"] by simp
  qed
  then show ?thesis by (simp add: distinct_map)
qed

lemma group_files:
  assumes "inj_on ids {0..<int (length groups)}" and "(k, g) \<in> set (enumerate 0 groups)"
  shows "map_of (rev (map (group_file env ids) (enumerate 0 groups))) (ids (int k) @ ''.jsonl'')
    = Some (payloads (sx_text env) (ids (int k)) g)"
proof (rule map_of_is_SomeI)
  have "map fst (map (group_file env ids) (enumerate 0 groups))
      = map (\<lambda>k. ids (int k) @ ''.jsonl'') (map fst (enumerate 0 groups))"
    unfolding map_map by (rule map_cong [OF refl]) (simp add: group_file_def split: prod.split)
  moreover have "map fst (enumerate 0 groups) = [0..<length groups]" by (simp only: map_fst_enumerate add_0)
  ultimately have names: "map fst (map (group_file env ids) (enumerate 0 groups))
      = map (\<lambda>k. ids (int k) @ ''.jsonl'') [0..<length groups]" by argo
  then show "distinct (map fst (rev (map (group_file env ids) (enumerate 0 groups))))"
    using distinct_shard_paths [OF assms(1)] by (simp only: rev_map [symmetric] distinct_rev)
  have "group_file env ids (k, g) \<in> set (map (group_file env ids) (enumerate 0 groups))"
    using assms(2) by auto
  then show "(ids (int k) @ ''.jsonl'', payloads (sx_text env) (ids (int k)) g)
      \<in> set (rev (map (group_file env ids) (enumerate 0 groups)))" by (simp add: group_file_def)
qed


subsection \<open>The index is read back\<close>

lemma entry_roundtrip:
  assumes "validated_shard_path (sh_path e) = Inr (sh_path e)"
  shows "entry_from_dict t (entry_to_dict e) = Inr e"
  using assms by (simp add: entry_from_dict_def entry_to_dict_def text_at_def item_at_def int_of_def obj_get_or_def)

lemma all_inr_map:
  "list_all (\<lambda>x. f (g x) = Inr x) xs \<Longrightarrow> all_inr f (map g xs) = Inr xs"
  by (induction xs) auto

lemma check_entries_ok:
  "list_all (\<lambda>e. sh_shard_id e = ids (sh_ordinal e) \<and> 1 \<le> sh_sample_count e) es \<Longrightarrow> check_entries ids es = Inr ()"
  by (induction es) auto

lemma index_roundtrip:
  assumes "list_all (\<lambda>e. validated_shard_path (sh_path e) = Inr (sh_path e)) (si_shards idx)"
    and "list_all (\<lambda>e. sh_shard_id e = derive_shard_id env (si_dataset_id idx) (si_dataset_version idx)
        (si_source_manifest_sha256 idx) (si_shard_config_hash idx) (sh_ordinal e)
      \<and> 1 \<le> sh_sample_count e) (si_shards idx)"
    and "map sh_ordinal (si_shards idx) = map int [0..<length (si_shards idx)]"
    and "distinct (map sh_path (si_shards idx))"
    and "si_total_samples idx = sum_list (map sh_sample_count (si_shards idx))"
  shows "index_from_dict env (index_to_dict idx) = Inr idx"
proof -
  have "all_inr (entry_from_dict t) (map entry_to_dict (si_shards idx)) = Inr (si_shards idx)" for t
    using assms(1) by (intro all_inr_map) (simp add: list_all_iff entry_roundtrip)
  moreover note check_entries_ok [OF assms(2)]
  ultimately show ?thesis using assms(3-5)
    by (simp add: index_from_dict_def index_to_dict_def text_at_def item_at_def int_of_def items_of_def
        obj_get_def obj_get_or_def)
qed

lemma hexdigest_chars: "c \<in> set (hexdigest bytes) \<Longrightarrow> (of_char c :: nat) \<in> {48..57} \<union> {97..102}"
proof -
  have digit: "(of_char (hex_digit_char d) :: nat) \<in> {48..57} \<union> {97..102}" if "d < 16" for d
  proof (cases "d < 10")
    case False
    then have "hex_digit_char d = char_of (87 + d)" and "87 + d < 256" using that by (simp_all add: hex_digit_char_def)
    then show ?thesis using False that by simp
  qed (simp add: hex_digit_char_def)
  assume "c \<in> set (hexdigest bytes)"
  then obtain b where "c = hex_digit_char (b div 16 mod 16) \<or> c = hex_digit_char (b mod 16)"
    by (auto simp: hexdigest_def)
  then show ?thesis using digit [of "b div 16 mod 16"] digit [of "b mod 16"] by auto
qed

lemma shard_path_valid:
  "validated_shard_path (derive_shard_id env did dver h ch k @ ''.jsonl'') = Inr (derive_shard_id env did dver h ch k @ ''.jsonl'')"
proof -
  define tail where "tail = take 16 (hexdigest (sx_blake env (unit_separated [did, dver, h, ch, int_text k])))"
  have "c \<in> set (hexdigest (sx_blake env (unit_separated [did, dver, h, ch, int_text k])))" if "c \<in> set tail" for c
    using that unfolding tail_def by (rule in_set_takeD)
  then have "CHR ''/'' \<notin> set tail" "CHR 0x5C \<notin> set tail"
    using hexdigest_chars by fastforce+
  moreover have "derive_shard_id env did dver h ch k = ''shard-'' @ tail" by (simp add: derive_shard_id_def tail_def)
  ultimately show ?thesis by (simp add: validated_shard_path_def)
qed


subsection \<open>What a build promises\<close>

text \<open>The rows in the files, read in the order of the index.\<close>

definition stored_row :: "json \<Rightarrow> json" where
  "stored_row l = (case l of JObj record \<Rightarrow> obj_get record ''row'' | _ \<Rightarrow> JNull)"

definition stored_rows :: "shard_index \<Rightarrow> shard_files \<Rightarrow> json list" where
  "stored_rows idx files =
     concat (map (\<lambda>e. case files (sh_path e) of None \<Rightarrow> [] | Some lines \<Rightarrow> map stored_row lines) (si_shards idx))"

text \<open>The rows that \<open>sample_limit\<close> leaves.\<close>

definition limited :: "nat option \<Rightarrow> 'a list \<Rightarrow> 'a list" where
  "limited sample_limit rows = (case sample_limit of None \<Rightarrow> rows | Some n \<Rightarrow> take n rows)"

lemma stored_payloads: "map stored_row (payloads t sid g) = map JObj g"
  by (simp add: payloads_def stored_row_def shard_row_payload_def obj_get_def obj_get_or_def comp_def case_prod_beta
      flip: map_map [of JObj snd, unfolded comp_def])

lemma map_enumerate_snd: "(\<And>k g. f (k, g) = h g) \<Longrightarrow> map f (enumerate n gs) = map h gs"
  by (induction gs arbitrary: n) auto

lemma map_enumerate_fst: "(\<And>k g. f (k, g) = h k) \<Longrightarrow> map f (enumerate n gs) = map h [n..<n + length gs]"
  by (induction gs arbitrary: n) (auto simp: upt_rec)

lemma group_ordinals: "map sh_ordinal (map (group_entry env ids) (enumerate 0 groups)) = map int [0..<length groups]"
  using map_enumerate_fst [of "\<lambda>x. sh_ordinal (group_entry env ids x)" int 0 groups]
  by (simp add: comp_def group_entry_def Let_def)

lemma group_paths: "map sh_path (map (group_entry env ids) (enumerate 0 groups))
    = map (\<lambda>k. ids (int k) @ ''.jsonl'') [0..<length groups]"
  using map_enumerate_fst [of "\<lambda>x. sh_path (group_entry env ids x)" "\<lambda>k. ids (int k) @ ''.jsonl''" 0 groups]
  by (simp add: comp_def group_entry_def Let_def)

lemma group_counts: "map sh_sample_count (map (group_entry env ids) (enumerate 0 groups)) = map (int \<circ> length) groups"
  using map_enumerate_snd [of "\<lambda>x. sh_sample_count (group_entry env ids x)" "int \<circ> length" 0 groups]
  by (simp add: comp_def group_entry_def Let_def)

lemma sum_lengths: "sum_list (map (int \<circ> length) groups) = int (length (concat groups))"
  by (induction groups) auto

lemma build_shards_groups:
  assumes "build_shards env digest config_hash (Some lines) c did dver expected sample_limit = Inr (idx, files)"
    and "shard_config_ok c"
  obtains groups ident where "concat groups = limited sample_limit (iter_canonical_rows lines)"
    "list_all (\<lambda>g. g \<noteq> [] \<and> fits env c g) groups"
    "validate_canonical_manifest (sx_text env) digest (Some lines) did dver ''train'' = Inr ident"
    "idx = \<lparr>si_dataset_id = did, si_dataset_version = dver, si_source_manifest_sha256 = mi_manifest_sha256 ident,
       si_shard_config_hash = config_hash c, si_total_samples = int (length (concat groups)),
       si_shards = map (group_entry env (derive_shard_id env did dver (mi_manifest_sha256 ident) (config_hash c)))
         (enumerate 0 groups)\<rparr>"
    "files = map_of (rev (map (group_file env (derive_shard_id env did dver (mi_manifest_sha256 ident) (config_hash c)))
       (enumerate 0 groups)))"
proof -
  obtain ident where i: "validate_canonical_manifest (sx_text env) digest (Some lines) did dver ''train'' = Inr ident"
    using assms(1) by (cases "validate_canonical_manifest (sx_text env) digest (Some lines) did dver ''train''")
      (simp_all add: build_shards_def)
  let ?ids = "derive_shard_id env did dver (mi_manifest_sha256 ident) (config_hash c)"
  let ?rows = "limited sample_limit (iter_canonical_rows lines)"
  let ?b = "flush_shard env (fold (shard_row env c ?ids) ?rows start_build)"
  obtain groups where g: "concat groups = ?rows" "written env ?ids groups [] ?b"
    "list_all (\<lambda>g. g \<noteq> [] \<and> fits env c g) groups" using groups_written [OF assms(2)] by blast
  have "idx = \<lparr>si_dataset_id = did, si_dataset_version = dver, si_source_manifest_sha256 = mi_manifest_sha256 ident,
       si_shard_config_hash = config_hash c, si_total_samples = int (length ?rows), si_shards = sb_entries ?b\<rparr>
     \<and> files = sb_files ?b"
    using assms(1) unfolding build_shards_def limited_def by (simp add: i Let_def split: if_split_asm)
  with g that [OF g(1,3) i] show thesis by (simp add: written_def)
qed


lemma accepted_sample_ids:
  assumes "validate_canonical_manifest t digest (Some lines) did dver ''train'' = Inr ident"
    and "tx_strip t [] = []" and "\<not> has_key ''sample_id'' (hd (manifest_rows lines))"
  shows "iter_canonical_rows lines = tl (manifest_rows lines) \<and> mi_manifest_sha256 ident = digest lines
    \<and> [] \<notin> set (map (row_sample_id t) (tl (manifest_rows lines)))
    \<and> distinct (map (row_sample_id t) (tl (manifest_rows lines)))"
proof -
  have "mi_manifest_sha256 ident = digest lines" by (rule validate_accepts [OF assms(1)])
  moreover have "[] \<notin> set (map (row_sample_id t) rows)" if "list_all (trainable t) rows" for rows
    using that by (auto simp: trainable_def list_all_iff)
  ultimately show ?thesis using accepted_manifest [OF assms(1,2)] assms(3) by simp
qed

lemma distinct_limited: "distinct (map f rows) \<Longrightarrow> distinct (map f (limited n rows))"
  by (auto simp: limited_def take_map [symmetric] split: option.split)

lemma set_limited: "x \<in> set (limited n rows) \<Longrightarrow> x \<in> set rows"
  by (auto simp: limited_def dest: in_set_takeD split: option.splits)

lemma length_limited: "length (limited n rows) \<le> length rows"
  by (auto simp: limited_def split: option.split)

lemma length_manifest_rows: "length (manifest_rows lines) \<le> length lines"
  by (induction lines rule: manifest_rows.induct) auto

text \<open>What holds of the files of any groups under different names.\<close>

lemma stored_groups:
  assumes "inj_on ids {0..<int (length groups)}" and "si_shards idx = map (group_entry env ids) (enumerate 0 groups)"
  shows "stored_rows idx (map_of (rev (map (group_file env ids) (enumerate 0 groups)))) = map JObj (concat groups)"
proof -
  let ?files = "map_of (rev (map (group_file env ids) (enumerate 0 groups)))"
  let ?read = "\<lambda>e. case ?files (sh_path e) of None \<Rightarrow> [] | Some lines \<Rightarrow> map stored_row lines"
  have "?read (group_entry env ids kg) = map JObj (snd kg)" if "kg \<in> set (enumerate 0 groups)" for kg
    using group_files [OF assms(1), of "fst kg" "snd kg" env] that
    by (simp add: group_entry_def Let_def case_prod_beta stored_payloads)
  then have "map ?read (si_shards idx) = map (\<lambda>kg. map JObj (snd kg)) (enumerate 0 groups)"
    by (simp add: assms(2))
  also have "\<dots> = map (map JObj) groups" by (rule map_enumerate_snd) simp
  finally show ?thesis by (simp add: stored_rows_def map_concat)
qed

lemma verify_built:
  assumes "inj_on ids {0..<int (length groups)}" and "si_shards idx = map (group_entry env ids) (enumerate 0 groups)"
    and "si_total_samples idx = int (length (concat groups))"
    and "[] \<notin> set (map (row_sample_id (sx_text env)) (concat groups))"
    and "distinct (map (row_sample_id (sx_text env)) (concat groups))"
  shows "verify_shards env idx (map_of (rev (map (group_file env ids) (enumerate 0 groups))))
    = Inr (length (si_shards idx), si_total_samples idx, nat (si_total_samples idx))"
proof -
  have "verify_entries env (map_of (rev (map (group_file env ids) (enumerate 0 groups))))
      (map (group_entry env ids) (enumerate 0 groups)) ([], 0)
    = Inr (rev (map (row_sample_id (sx_text env)) (concat groups)) @ [], 0 + int (length (concat groups)))"
    by (rule verify_groups, rule group_files [OF assms(1)]) (use assms(4,5) in simp_all)
  then show ?thesis unfolding verify_shards_def assms(2,3) by simp
qed


lemma built_index_roundtrip:
  assumes "si_shards idx = map (group_entry env ids) (enumerate 0 groups)"
    and "ids = derive_shard_id env (si_dataset_id idx) (si_dataset_version idx) (si_source_manifest_sha256 idx)
      (si_shard_config_hash idx)"
    and "si_total_samples idx = int (length (concat groups))"
    and "inj_on ids {0..<int (length groups)}" and "[] \<notin> set groups"
  shows "index_from_dict env (index_to_dict idx) = Inr idx"
proof (rule index_roundtrip)
  show "map sh_ordinal (si_shards idx) = map int [0..<length (si_shards idx)]"
    unfolding assms(1) group_ordinals by simp
  show "distinct (map sh_path (si_shards idx))"
    unfolding assms(1) group_paths by (rule distinct_shard_paths [OF assms(4)])
  show "si_total_samples idx = sum_list (map sh_sample_count (si_shards idx))"
    unfolding assms(1,3) group_counts sum_lengths ..
  show "list_all (\<lambda>e. validated_shard_path (sh_path e) = Inr (sh_path e)) (si_shards idx)"
    unfolding assms(1,2) by (auto simp: list_all_iff group_entry_def Let_def shard_path_valid)
  have "1 \<le> int (length g)" if "(k, g) \<in> set (enumerate 0 groups)" for k g
    using that assms(5) by (cases g) (auto simp: enumerate_eq_zip dest: set_zip_rightD)
  then show "list_all (\<lambda>e. sh_shard_id e = derive_shard_id env (si_dataset_id idx) (si_dataset_version idx)
      (si_source_manifest_sha256 idx) (si_shard_config_hash idx) (sh_ordinal e) \<and> 1 \<le> sh_sample_count e) (si_shards idx)"
    unfolding assms(1,2) by (auto simp: list_all_iff group_entry_def Let_def)
qed

text \<open>
  C33. Sharding keeps the manifest. If the manifest is accepted, its header is no row and the names of its
  shards differ, then the files, read in the order of the index, hold exactly the rows of the manifest up to
  the limit, in their order; the shards are numbered from 0 and hold between one row and the configured
  number; the files pass \<open>verify_shards\<close>; and the index that is written is read back as it was.
\<close>

theorem shards_hold_the_manifest:
  assumes "build_shards env digest config_hash (Some lines) c did dver expected sample_limit = Inr (idx, files)"
    and "shard_config_ok c" and "tx_strip (sx_text env) [] = []"
    and "\<not> has_key ''sample_id'' (hd (manifest_rows lines))"
    and "inj_on (derive_shard_id env did dver (digest lines) (config_hash c)) {0..<int (length lines)}"
  shows "stored_rows idx files = map JObj (limited sample_limit (tl (manifest_rows lines)))
    \<and> map sh_ordinal (si_shards idx) = map int [0..<length (si_shards idx)]
    \<and> list_all (\<lambda>n. 1 \<le> n \<and> n \<le> sc_samples_per_shard c) (map sh_sample_count (si_shards idx))
    \<and> verify_shards env idx files = Inr (length (si_shards idx), si_total_samples idx, nat (si_total_samples idx))
    \<and> index_from_dict env (index_to_dict idx) = Inr idx"
proof -
  let ?rows = "limited sample_limit (tl (manifest_rows lines))"
  let ?ids = "derive_shard_id env did dver (digest lines) (config_hash c)"
  obtain groups ident where b: "concat groups = limited sample_limit (iter_canonical_rows lines)"
      "list_all (\<lambda>g. g \<noteq> [] \<and> fits env c g) groups"
      "validate_canonical_manifest (sx_text env) digest (Some lines) did dver ''train'' = Inr ident"
    and idx: "idx = \<lparr>si_dataset_id = did, si_dataset_version = dver,
        si_source_manifest_sha256 = mi_manifest_sha256 ident, si_shard_config_hash = config_hash c,
        si_total_samples = int (length (concat groups)),
        si_shards = map (group_entry env (derive_shard_id env did dver (mi_manifest_sha256 ident) (config_hash c)))
          (enumerate 0 groups)\<rparr>"
    and files: "files = map_of (rev (map (group_file env
        (derive_shard_id env did dver (mi_manifest_sha256 ident) (config_hash c))) (enumerate 0 groups)))"
    using assms(1,2) by (rule build_shards_groups)
  note m = accepted_sample_ids [OF b(3) assms(3,4)]
  then have sha: "mi_manifest_sha256 ident = digest lines" and rows: "concat groups = ?rows" using b(1) by simp_all
  note shards = idx [unfolded sha] and files = files [unfolded sha]
  have "length groups \<le> length lines"
    using length_groups [OF b(2)] length_limited [of sample_limit "tl (manifest_rows lines)"]
      length_manifest_rows [of lines] by (simp add: rows)
  then have inj: "inj_on ?ids {0..<int (length groups)}" by (intro inj_on_subset [OF assms(5)]) auto
  have entries: "si_shards idx = map (group_entry env ?ids) (enumerate 0 groups)" by (simp add: shards)
  have "[] \<notin> set (map (row_sample_id (sx_text env)) ?rows)" using m by (auto dest: set_limited)
  moreover have "distinct (map (row_sample_id (sx_text env)) ?rows)" using m by (intro distinct_limited) blast
  ultimately have "verify_shards env idx files
      = Inr (length (si_shards idx), si_total_samples idx, nat (si_total_samples idx))"
    unfolding files
    by (intro verify_built [OF inj entries]) (simp_all add: shards rows)
  moreover have "stored_rows idx files = map JObj ?rows"
    unfolding files stored_groups [OF inj entries] rows ..
  moreover have "map sh_ordinal (si_shards idx) = map int [0..<length (si_shards idx)]"
    unfolding entries group_ordinals by simp
  moreover have "list_all (\<lambda>n. 1 \<le> n \<and> n \<le> sc_samples_per_shard c) (map sh_sample_count (si_shards idx))"
    unfolding entries group_counts using b(2) by (auto simp: list_all_iff fits_def Suc_le_eq)
  moreover have "index_from_dict env (index_to_dict idx) = Inr idx"
    using b(2) by (intro built_index_roundtrip [OF entries _ _ inj]) (auto simp: shards sha list_all_iff)
  ultimately show ?thesis by blast
qed


definition sample_shard_env :: shard_env where
  "sample_shard_env = \<lparr>sx_text = sample_text_fns, sx_float_text = (\<lambda>_. []), sx_sha = (\<lambda>s. s),
     sx_blake = (\<lambda>s. map of_char (List.rev s))\<rparr>"

definition two_rows :: manifest_file where
  "two_rows = [Some (JObj [(''_schema_version'', JStr MANIFEST_SCHEMA_VERSION), (''_row_count'', JInt 2),
     (''dataset_id'', JStr ''d''), (''dataset_version'', JStr ''1'')]), Some (JObj sample_train_row),
     Some (JObj [(''sample_id'', JStr ''s2''), (''split'', JStr ''train''), (''text'', JStr ''y'')])]"

definition one_per_shard :: shard_config where
  "one_per_shard = \<lparr>sc_strategy = CountStrategy, sc_samples_per_shard = 1, sc_max_shard_bytes = 1\<rparr>"

lemma shards_hold_the_manifest_witness:
  "case build_shards sample_shard_env (\<lambda>_. ''h'') (\<lambda>_. ''c'') (Some two_rows) one_per_shard ''d'' ''1'' None None of
     Inl err \<Rightarrow> False
   | Inr (idx, files) \<Rightarrow> stored_rows idx files
       = [JObj sample_train_row, JObj [(''sample_id'', JStr ''s2''), (''split'', JStr ''train''), (''text'', JStr ''y'')]]
     \<and> verify_shards sample_shard_env idx files = Inr (length (si_shards idx), si_total_samples idx, nat (si_total_samples idx))
     \<and> index_from_dict sample_shard_env (index_to_dict idx) = Inr idx"
proof -
  let ?build = "build_shards sample_shard_env (\<lambda>_. ''h'') (\<lambda>_. ''c'') (Some two_rows) one_per_shard ''d'' ''1'' None None"
  let ?id = "derive_shard_id sample_shard_env ''d'' ''1'' ''h'' ''c''"
  have "isl ?build = False" by code_simp
  then obtain idx files where b: "?build = Inr (idx, files)" by (cases ?build) auto
  have "?id 0 \<noteq> ?id 1 \<and> ?id 0 \<noteq> ?id 2 \<and> ?id 1 \<noteq> ?id 2" by code_simp
  moreover have "{0..<int (length two_rows)} = {0, 1, 2}" by (auto simp: two_rows_def)
  ultimately have "inj_on ?id {0..<int (length two_rows)}" by auto
  moreover have "shard_config_ok one_per_shard" "tx_strip (sx_text sample_shard_env) [] = []"
    "\<not> has_key ''sample_id'' (hd (manifest_rows two_rows))" by code_simp+
  ultimately show ?thesis
    using shards_hold_the_manifest [OF b] unfolding b sum.case prod.case by (simp add: two_rows_def limited_def)
qed

end
