(* ===== verification/Loader.thy ===== *)
theory Loader
  imports Sharding
begin

text \<open>
  The training data loader (\<open>clouda_data/training_data/loader.py\<close>, with the configuration, cursors and
  samples of \<open>models.py\<close>): an epoch visits the shards in a permuted order and the samples of each shard in
  the order of the shuffle, delivers those that its worker owns, and can be resumed from a cursor. A
  generator is the list of what it yields, each with the state of the loader at that moment, and how it
  ends. What it takes from outside are the manifest, the shard files, the hashes and the answers to whether
  an image is there and can be decoded; these stay the same during a run. Timings are left out.
\<close>

subsection \<open>Configuration, samples and cursors\<close>

datatype shuffle_mode = ShuffleNone | ShuffleShardOrder | ShuffleBuffered

datatype validation_mode = ValidationNone | ValidationLight | ValidationStrict

datatype bad_sample_policy = FailFast | SkipAndRecord

datatype trace_mode = TraceNone | TraceSummary | TraceFull

record worker_config =
  wk_world_size :: int
  wk_rank :: int
  wk_num_workers :: int
  wk_worker_id :: int

definition worker_config_ok :: "worker_config \<Rightarrow> bool" where
  "worker_config_ok w \<longleftrightarrow> 1 \<le> wk_world_size w \<and> 0 \<le> wk_rank w \<and> wk_rank w < wk_world_size w
     \<and> 1 \<le> wk_num_workers w \<and> 0 \<le> wk_worker_id w \<and> wk_worker_id w < wk_num_workers w"

record loader_config =
  lc_dataset_id :: string
  lc_dataset_version :: string
  lc_split :: string
  lc_global_seed :: int
  lc_shuffle_mode :: shuffle_mode
  lc_buffer_size :: nat
  lc_batch_size :: nat
  lc_drop_last :: bool
  lc_workers :: worker_config
  lc_validation_mode :: validation_mode
  lc_bad_sample_policy :: bad_sample_policy
  lc_trace_mode :: trace_mode

definition loader_config_ok :: "loader_config \<Rightarrow> bool" where
  "loader_config_ok c \<longleftrightarrow> (lc_shuffle_mode c = ShuffleBuffered \<longrightarrow> 1 \<le> lc_buffer_size c)
     \<and> 1 \<le> lc_batch_size c \<and> worker_config_ok (lc_workers c)"

record sample_reference =
  sr_sample_id :: string
  sr_shard_id :: string
  sr_position :: nat
  sr_image_path :: json
  sr_text :: json
  sr_row :: manifest_row

record resume_cursor =
  rc_schema_version :: string
  rc_dataset_id :: string
  rc_dataset_version :: string
  rc_manifest_sha256 :: string
  rc_loader_config_hash :: string
  rc_global_seed :: int
  rc_epoch :: int
  rc_world_size :: int
  rc_rank :: int
  rc_num_workers :: int
  rc_worker_id :: int
  rc_shard_position :: nat
  rc_sample_position :: nat
  rc_yielded_count :: nat

record loader_stats =
  st_samples_read :: nat
  st_samples_yielded :: nat
  st_samples_skipped :: nat
  st_rejected :: "(sample_reference \<times> string list \<times> int) list"

record loader_state =
  ls_epoch :: int
  ls_shard_position :: nat
  ls_sample_position :: nat
  ls_yielded :: nat
  ls_delivered :: "string list"
  ls_identity :: "manifest_identity option"
  ls_stats :: loader_stats

datatype loader_error =
  LoaderManifest manifest_error
| ResumeError string
| BadSample string "string list"
| LoaderAttributeError
| ShardFileNotFound

text \<open>The surroundings of a loader, and its index.\<close>

record loader_env =
  lx_shard :: shard_env
  lx_seed_hash :: "string \<Rightarrow> int"          \<comment> \<open>BLAKE2b of a text\<close>
  lx_next :: "int \<Rightarrow> int"                 \<comment> \<open>BLAKE2b of a state\<close>
  lx_stable_hash :: "string \<Rightarrow> int"
  lx_resolves :: "json \<Rightarrow> bool"
  lx_decodable :: "json \<Rightarrow> bool"
  lx_config_hash :: "loader_config \<Rightarrow> string"
  lx_digest :: "manifest_file \<Rightarrow> string"
  lx_manifest :: "manifest_file option"
  lx_files :: shard_files
  lx_index :: shard_index

definition LOADER_STATE_SCHEMA_VERSION :: string where
  "LOADER_STATE_SCHEMA_VERSION = ''clouda.training_data.loader_state.v1''"

definition new_loader :: "loader_env \<Rightarrow> loader_config \<Rightarrow> loader_error + loader_state" where
  "new_loader env c =
     (if lc_dataset_id c \<noteq> si_dataset_id (lx_index env) \<or> lc_dataset_version c \<noteq> si_dataset_version (lx_index env)
      then Inl (ResumeError ''Loader config dataset identity does not match shard index'')
      else Inr \<lparr>ls_epoch = 0, ls_shard_position = 0, ls_sample_position = 0, ls_yielded = 0, ls_delivered = [],
        ls_identity = None, ls_stats = \<lparr>st_samples_read = 0, st_samples_yielded = 0, st_samples_skipped = 0,
          st_rejected = []\<rparr>\<rparr>)"

text \<open>\<open>open\<close>: the identity is kept even when it does not match the index.\<close>

definition open_loader ::
  "loader_env \<Rightarrow> loader_config \<Rightarrow> loader_state \<Rightarrow> loader_state \<times> (loader_error + manifest_identity)" where
  "open_loader env c s =
     (case ls_identity s of
        Some ident \<Rightarrow> (s, Inr ident)
      | None \<Rightarrow>
          (case validate_canonical_manifest (sx_text (lx_shard env)) (lx_digest env) (lx_manifest env)
              (lc_dataset_id c) (lc_dataset_version c) (lc_split c) of
             Inl err \<Rightarrow> (s, Inl (LoaderManifest err))
           | Inr ident \<Rightarrow>
               let s1 = s\<lparr>ls_identity := Some ident\<rparr>
               in if mi_manifest_sha256 ident \<noteq> si_source_manifest_sha256 (lx_index env)
                  then (s1, Inl (ResumeError ''Manifest hash changed since sharding''))
                  else (s1, Inr ident)))"

subsection \<open>The samples of a shard\<close>

definition epoch_seed :: "loader_env \<Rightarrow> loader_config \<Rightarrow> int \<Rightarrow> int" where
  "epoch_seed env c epoch =
     (let w = lc_workers c in
      derive_loader_seed (lx_seed_hash env) (lc_global_seed c) epoch (wk_world_size w) (wk_rank w)
        (wk_num_workers w) (wk_worker_id w) (lx_config_hash env c))"

definition epoch_shard_order :: "loader_env \<Rightarrow> loader_config \<Rightarrow> int \<Rightarrow> string list" where
  "epoch_shard_order env c epoch =
     shard_order (lx_next env) (lx_stable_hash env) (map sh_shard_id (si_shards (lx_index env))) (epoch_seed env c epoch)"

text \<open>The lines of a shard with their positions, in the order of the epoch.\<close>

definition shuffled_lines :: "loader_env \<Rightarrow> loader_config \<Rightarrow> int \<Rightarrow> json list \<Rightarrow> (nat \<times> json) list" where
  "shuffled_lines env c epoch lines =
     (case lc_shuffle_mode c of
        ShuffleBuffered \<Rightarrow>
          (case bounded_shuffle_stream (lx_next env) (enumerate 0 lines) (lc_buffer_size c) (epoch_seed env c epoch) of
             None \<Rightarrow> [] | Some out \<Rightarrow> out)
      | ShuffleShardOrder \<Rightarrow>
          map (\<lambda>i. (i, lines ! i)) (permute_indices (lx_next env) (length lines) (epoch_seed env c epoch))
      | ShuffleNone \<Rightarrow> enumerate 0 lines)"

text \<open>A line without a sample id is passed over.\<close>

definition read_sample :: "text_fns \<Rightarrow> string \<Rightarrow> nat \<times> json \<Rightarrow> loader_error + sample_reference option" where
  "read_sample t shard_id pl =
     (case snd pl of
        JObj record \<Rightarrow>
          if row_sample_id t record = [] then Inr None
          else (case obj_get_or record ''row'' (JObj []) of
              JObj row \<Rightarrow> Inr (Some \<lparr>sr_sample_id = row_sample_id t record, sr_shard_id = shard_id,
                sr_position = fst pl, sr_image_path = obj_get row ''image_path'', sr_text = obj_get row ''text'',
                sr_row = row\<rparr>)
            | _ \<Rightarrow> Inl LoaderAttributeError)
      | _ \<Rightarrow> Inl LoaderAttributeError)"

definition image_issues :: "loader_env \<Rightarrow> validation_mode \<Rightarrow> sample_reference \<Rightarrow> string list" where
  "image_issues env mode ref =
     (if truthy (sr_image_path ref) then
        if \<not> lx_resolves env (sr_image_path ref) then [''missing_image'']
        else if mode = ValidationStrict \<and> \<not> lx_decodable env (sr_image_path ref) then [''corrupt_image'']
        else []
      else if mode = ValidationStrict \<and> \<not> truthy (sr_text ref) then [''missing_payload'']
      else [])"

definition text_issues :: "loader_env \<Rightarrow> validation_mode \<Rightarrow> sample_reference \<Rightarrow> loader_error + string list" where
  "text_issues env mode ref =
     (let text_hash = obj_get (sr_row ref) ''normalized_text_sha256'';
          t = sx_text (lx_shard env)
      in if mode = ValidationStrict \<and> truthy (sr_text ref) \<and> truthy text_hash then
           case sr_text ref of
             JStr s \<Rightarrow> Inr (if sx_sha (lx_shard env) s = (case text_hash of JStr h \<Rightarrow> h | v \<Rightarrow> tx_show t v) then []
                 else [''text_hash_mismatch''])
           | _ \<Rightarrow> Inl LoaderAttributeError
         else Inr [])"

text \<open>\<open>_validate_sample\<close>: the issues of a sample, or what the validation raises.\<close>

definition sample_issues :: "loader_env \<Rightarrow> validation_mode \<Rightarrow> sample_reference \<Rightarrow> loader_error + string list" where
  "sample_issues env mode ref =
     (if mode = ValidationNone then Inr []
      else case text_issues env mode ref of
        Inl err \<Rightarrow> Inl err
      | Inr issues \<Rightarrow> Inr (image_issues env mode ref @ issues))"

definition owned_by_topology :: "loader_env \<Rightarrow> worker_config \<Rightarrow> string \<Rightarrow> bool" where
  "owned_by_topology env w sample_id =
     (let n = wk_world_size w * wk_num_workers w
      in n = 1 \<or> lx_stable_hash env sample_id mod n = wk_rank w * wk_num_workers w + wk_worker_id w)"

subsection \<open>An epoch\<close>

definition count_read :: "loader_state \<Rightarrow> loader_state" where
  "count_read s = s\<lparr>ls_stats := (ls_stats s)\<lparr>st_samples_read := st_samples_read (ls_stats s) + 1\<rparr>\<rparr>"

definition record_rejection :: "sample_reference \<Rightarrow> string list \<Rightarrow> loader_state \<Rightarrow> loader_state" where
  "record_rejection ref issues s =
     s\<lparr>ls_stats := (ls_stats s)\<lparr>st_rejected := st_rejected (ls_stats s) @ [(ref, issues, ls_epoch s)]\<rparr>\<rparr>"

definition count_skipped :: "loader_state \<Rightarrow> loader_state" where
  "count_skipped s = s\<lparr>ls_stats := (ls_stats s)\<lparr>st_samples_skipped := st_samples_skipped (ls_stats s) + 1\<rparr>\<rparr>"

text \<open>The state when the sample is yielded.\<close>

definition deliver_sample :: "loader_config \<Rightarrow> nat \<Rightarrow> sample_reference \<Rightarrow> loader_state \<Rightarrow> loader_state" where
  "deliver_sample c seen_in_shard ref s =
     s\<lparr>ls_sample_position := seen_in_shard,
       ls_delivered := (if lc_trace_mode c = TraceFull then ls_delivered s @ [sr_sample_id ref] else ls_delivered s),
       ls_yielded := ls_yielded s + 1,
       ls_stats := (ls_stats s)\<lparr>st_samples_yielded := st_samples_yielded (ls_stats s) + 1\<rparr>\<rparr>"

type_synonym deliveries = "(sample_reference \<times> loader_state) list"

text \<open>The lines of one shard; the result has the error that ended it, and the last state.\<close>

fun shard_samples ::
  "loader_env \<Rightarrow> loader_config \<Rightarrow> string \<Rightarrow> bool \<Rightarrow> nat \<Rightarrow> (nat \<times> json) list \<Rightarrow> loader_state
    \<Rightarrow> deliveries \<times> loader_error option \<times> loader_state" where
  "shard_samples env c sid skipping seen [] s = ([], None, s)"
| "shard_samples env c sid skipping seen (pl # rest) s =
     (case read_sample (sx_text (lx_shard env)) sid pl of
        Inl err \<Rightarrow> ([], Some err, s)
      | Inr None \<Rightarrow> shard_samples env c sid skipping seen rest s
      | Inr (Some ref) \<Rightarrow>
          (case sample_issues env (lc_validation_mode c) ref of
             Inl err \<Rightarrow> ([], Some err, count_read s)
           | Inr (i # issues) \<Rightarrow>
               let s1 = record_rejection ref (i # issues) (count_read s)
               in if lc_bad_sample_policy c = FailFast
                  then ([], Some (BadSample (sr_sample_id ref) (i # issues)), s1)
                  else shard_samples env c sid skipping seen rest (count_skipped s1)
           | Inr [] \<Rightarrow>
               let s1 = count_read s
               in if skipping \<and> Suc seen \<le> ls_sample_position s1
                  then shard_samples env c sid skipping (Suc seen) rest s1
                  else if \<not> owned_by_topology env (lc_workers c) (sr_sample_id ref)
                  then shard_samples env c sid skipping (Suc seen) rest s1
                  else
                    let s2 = deliver_sample c (Suc seen) ref s1;
                        (out, err, s3) = shard_samples env c sid skipping (Suc seen) rest s2
                    in ((ref, s2) # out, err, s3)))"

definition shard_lines :: "loader_env \<Rightarrow> string \<Rightarrow> json list option" where
  "shard_lines env sid =
     (case tbl_find (\<lambda>e. sh_shard_id e = sid) (si_shards (lx_index env)) of
        None \<Rightarrow> None
      | Some e \<Rightarrow> lx_files env (sh_path e))"

text \<open>The shards that are left, from the number \<open>k\<close> on.\<close>

fun epoch_samples ::
  "loader_env \<Rightarrow> loader_config \<Rightarrow> nat \<Rightarrow> string list \<Rightarrow> loader_state
    \<Rightarrow> deliveries \<times> loader_error option \<times> loader_state" where
  "epoch_samples env c k [] s =
     ([], None, s\<lparr>ls_epoch := ls_epoch s + 1, ls_shard_position := 0, ls_sample_position := 0\<rparr>)"
| "epoch_samples env c k (sid # rest) s =
     (if k < ls_shard_position s then epoch_samples env c (Suc k) rest s
      else case shard_lines env sid of
        None \<Rightarrow> ([], Some ShardFileNotFound, s)
      | Some lines \<Rightarrow>
          let skipping = (k = ls_shard_position s \<and> 0 < ls_sample_position s);
              (out, err, s1) = shard_samples env c sid skipping 0 (shuffled_lines env c (ls_epoch s) lines) s
          in case err of
               Some e \<Rightarrow> (out, Some e, s1)
             | None \<Rightarrow>
                 let (out', err', s2) =
                   epoch_samples env c (Suc k) rest (s1\<lparr>ls_shard_position := Suc k, ls_sample_position := 0\<rparr>)
                 in (out @ out', err', s2))"

definition iter_samples ::
  "loader_env \<Rightarrow> loader_config \<Rightarrow> int option \<Rightarrow> loader_state \<Rightarrow> deliveries \<times> loader_error option \<times> loader_state" where
  "iter_samples env c epoch s =
     (let s1 = (case epoch of
            Some e \<Rightarrow> if e \<noteq> ls_epoch s
              then s\<lparr>ls_epoch := e, ls_shard_position := 0, ls_sample_position := 0\<rparr> else s
          | None \<Rightarrow> s)
      in case open_loader env c s1 of
           (s2, Inl err) \<Rightarrow> ([], Some err, s2)
         | (s2, Inr ident) \<Rightarrow> epoch_samples env c 0 (epoch_shard_order env c (ls_epoch s2)) s2)"

subsection \<open>Cursors\<close>

definition get_cursor :: "loader_env \<Rightarrow> loader_config \<Rightarrow> loader_state \<Rightarrow> resume_cursor" where
  "get_cursor env c s =
     (let w = lc_workers c in
      \<lparr>rc_schema_version = LOADER_STATE_SCHEMA_VERSION, rc_dataset_id = lc_dataset_id c,
       rc_dataset_version = lc_dataset_version c,
       rc_manifest_sha256 = (case ls_identity s of Some ident \<Rightarrow> mi_manifest_sha256 ident | None \<Rightarrow> []),
       rc_loader_config_hash = lx_config_hash env c, rc_global_seed = lc_global_seed c, rc_epoch = ls_epoch s,
       rc_world_size = wk_world_size w, rc_rank = wk_rank w, rc_num_workers = wk_num_workers w,
       rc_worker_id = wk_worker_id w, rc_shard_position = ls_shard_position s,
       rc_sample_position = ls_sample_position s, rc_yielded_count = ls_yielded s\<rparr>)"

definition restore ::
  "loader_env \<Rightarrow> loader_config \<Rightarrow> resume_cursor \<Rightarrow> loader_state \<Rightarrow> loader_state \<times> (loader_error + unit)" where
  "restore env c cursor s =
     (case open_loader env c s of
        (s1, Inl err) \<Rightarrow> (s1, Inl err)
      | (s1, Inr ident) \<Rightarrow>
          let w = lc_workers c in
          if rc_schema_version cursor \<noteq> LOADER_STATE_SCHEMA_VERSION
          then (s1, Inl (ResumeError ''Unsupported resume cursor schema version''))
          else if rc_dataset_id cursor \<noteq> lc_dataset_id c then (s1, Inl (ResumeError ''dataset changed''))
          else if rc_dataset_version cursor \<noteq> lc_dataset_version c
          then (s1, Inl (ResumeError ''dataset version changed''))
          else if rc_manifest_sha256 cursor \<noteq> mi_manifest_sha256 ident
          then (s1, Inl (ResumeError ''manifest hash changed''))
          else if rc_loader_config_hash cursor \<noteq> lx_config_hash env c
          then (s1, Inl (ResumeError ''loader config changed''))
          else if rc_global_seed cursor \<noteq> lc_global_seed c then (s1, Inl (ResumeError ''global seed changed''))
          else if rc_world_size cursor \<noteq> wk_world_size w then (s1, Inl (ResumeError ''world_size changed''))
          else if rc_rank cursor \<noteq> wk_rank w then (s1, Inl (ResumeError ''rank changed''))
          else if rc_num_workers cursor \<noteq> wk_num_workers w then (s1, Inl (ResumeError ''num_workers changed''))
          else if rc_worker_id cursor \<noteq> wk_worker_id w then (s1, Inl (ResumeError ''worker_id changed''))
          else (s1\<lparr>ls_epoch := rc_epoch cursor, ls_shard_position := rc_shard_position cursor,
                 ls_sample_position := rc_sample_position cursor, ls_yielded := rc_yielded_count cursor\<rparr>, Inr ()))"

subsection \<open>Batches and epochs\<close>

record batch =
  ba_sample_ids :: "string list"
  ba_samples :: "sample_reference list"
  ba_shard_ids :: "string list"
  ba_epoch :: int
  ba_size :: nat

definition make_batch :: "sample_reference list \<Rightarrow> loader_state \<Rightarrow> batch" where
  "make_batch b s =
     \<lparr>ba_sample_ids = map sr_sample_id b, ba_samples = b, ba_shard_ids = sort (remdups (map sr_shard_id b)),
      ba_epoch = ls_epoch s, ba_size = length b\<rparr>"

text \<open>The full batches and what is left in the buffer.\<close>

fun full_batches :: "nat \<Rightarrow> sample_reference list \<Rightarrow> deliveries \<Rightarrow> batch list \<times> sample_reference list" where
  "full_batches n buffer [] = ([], buffer)"
| "full_batches n buffer ((ref, s) # rest) =
     (if n \<le> length (buffer @ [ref])
      then (let (out, left_over) = full_batches n [] rest in (make_batch (buffer @ [ref]) s # out, left_over))
      else full_batches n (buffer @ [ref]) rest)"

definition iter_batches ::
  "loader_env \<Rightarrow> loader_config \<Rightarrow> int option \<Rightarrow> loader_state \<Rightarrow> batch list \<times> loader_error option \<times> loader_state" where
  "iter_batches env c epoch s =
     (let (out, err, s1) = iter_samples env c epoch s;
          (batches, left_over) = full_batches (lc_batch_size c) [] out
      in (batches @ (if err = None \<and> left_over \<noteq> [] \<and> \<not> lc_drop_last c then [make_batch left_over s1] else []),
          err, s1))"

text \<open>\<open>iter_epoch\<close> of \<open>EpochManager\<close>, whose \<open>current_epoch\<close> starts at 0.\<close>

definition iter_epoch ::
  "loader_env \<Rightarrow> loader_config \<Rightarrow> int option \<Rightarrow> int \<times> loader_state
    \<Rightarrow> deliveries \<times> loader_error option \<times> int \<times> loader_state" where
  "iter_epoch env c epoch cs =
     (let current = (case epoch of Some e \<Rightarrow> e | None \<Rightarrow> fst cs);
          (out, err, s1) = iter_samples env c (Some current) (snd cs)
      in (out, err, if err = None then current + 1 else current, s1))"

subsection \<open>What is delivered\<close>

text \<open>The valid samples among lines, up to what ends them.\<close>

fun valid_refs ::
  "loader_env \<Rightarrow> loader_config \<Rightarrow> string \<Rightarrow> (nat \<times> json) list \<Rightarrow> sample_reference list \<times> loader_error option" where
  "valid_refs env c sid [] = ([], None)"
| "valid_refs env c sid (pl # rest) =
     (case read_sample (sx_text (lx_shard env)) sid pl of
        Inl err \<Rightarrow> ([], Some err)
      | Inr None \<Rightarrow> valid_refs env c sid rest
      | Inr (Some ref) \<Rightarrow>
          (case sample_issues env (lc_validation_mode c) ref of
             Inl err \<Rightarrow> ([], Some err)
           | Inr (i # issues) \<Rightarrow>
               if lc_bad_sample_policy c = FailFast then ([], Some (BadSample (sr_sample_id ref) (i # issues)))
               else valid_refs env c sid rest
           | Inr [] \<Rightarrow> (ref # fst (valid_refs env c sid rest), snd (valid_refs env c sid rest))))"

text \<open>The part of the state that a shard keeps.\<close>

definition kept :: "loader_state \<Rightarrow> int \<times> nat \<times> manifest_identity option" where
  "kept s = (ls_epoch s, ls_shard_position s, ls_identity s)"

lemma bookkeeping [simp]:
  "kept (count_read s) = kept s" "kept (record_rejection ref issues s) = kept s" "kept (count_skipped s) = kept s"
  "kept (deliver_sample c n ref s) = kept s" "ls_sample_position (count_read s) = ls_sample_position s"
  "ls_sample_position (record_rejection ref issues s) = ls_sample_position s"
  "ls_sample_position (count_skipped s) = ls_sample_position s"
  "ls_sample_position (deliver_sample c n ref s) = n" "ls_yielded (count_read s) = ls_yielded s"
  "ls_yielded (record_rejection ref issues s) = ls_yielded s" "ls_yielded (count_skipped s) = ls_yielded s"
  "ls_yielded (deliver_sample c n ref s) = Suc (ls_yielded s)"
  by (simp_all add: kept_def count_read_def record_rejection_def count_skipped_def deliver_sample_def)

definition picked :: "loader_env \<Rightarrow> loader_config \<Rightarrow> nat \<Rightarrow> nat \<Rightarrow> sample_reference list \<Rightarrow> (nat \<times> sample_reference) list" where
  "picked env c q seen refs =
     filter (\<lambda>(i, ref). q < i \<and> owned_by_topology env (lc_workers c) (sr_sample_id ref)) (enumerate (Suc seen) refs)"

lemma picked_Cons: "picked env c q seen (ref # refs) =
    (if q < Suc seen \<and> owned_by_topology env (lc_workers c) (sr_sample_id ref)
     then (Suc seen, ref) # picked env c q (Suc seen) refs else picked env c q (Suc seen) refs)"
  by (simp add: picked_def)

lemma picked_past: "q \<le> seen \<Longrightarrow> picked env c q seen refs = picked env c 0 seen refs"
  unfolding picked_def by (rule filter_cong [OF refl]) (auto simp: in_set_enumerate_eq)

lemma shard_samples_out:
  assumes "shard_samples env c sid skipping seen pls s = (out, err, s')"
  shows "map (\<lambda>(ref, st). (ref, kept st, ls_sample_position st)) out
      = map (\<lambda>(i, ref). (ref, kept s, i))
          (picked env c (if skipping then ls_sample_position s else 0) seen (fst (valid_refs env c sid pls)))
    \<and> err = snd (valid_refs env c sid pls) \<and> kept s' = kept s
    \<and> (\<forall>k<length out. ls_yielded (snd (out ! k)) = ls_yielded s + Suc k) \<and> ls_yielded s' = ls_yielded s + length out"
  using assms
proof (induction env c sid skipping seen pls s arbitrary: out err s' rule: shard_samples.induct)
  case (1 env c sid skipping seen s)
  then show ?case by (simp add: picked_def)
next
  case (2 env c sid skipping seen pl rest s)
  show ?case
  proof (cases "read_sample (sx_text (lx_shard env)) sid pl")
    case (Inl e)
    then show ?thesis using 2(6) by (simp add: picked_def)
  next
    case read: (Inr r)
    show ?thesis
    proof (cases r)
      case None
      then show ?thesis using 2(1) [OF read None] 2(6) read by simp
    next
      case ref: (Some ref)
      show ?thesis
      proof (cases "sample_issues env (lc_validation_mode c) ref")
        case (Inl e)
        then show ?thesis using 2(6) read ref by (auto simp: picked_def)
      next
        case issues: (Inr xs)
        show ?thesis
        proof (cases xs)
          case (Cons i issues)
          then show ?thesis using 2(6) 2(5) [OF read ref issues Cons refl] read ref issues
            by (auto simp: Let_def picked_def [of _ _ _ _ "[]"] split: if_split_asm)
        next
          case Nil
          let ?q = "if skipping then ls_sample_position s else 0"
          note step = read ref issues Nil
          consider (skip) "skipping \<and> Suc seen \<le> ls_sample_position (count_read s)"
            | (other) "\<not> (skipping \<and> Suc seen \<le> ls_sample_position (count_read s))"
                "\<not> owned_by_topology env (lc_workers c) (sr_sample_id ref)"
            | (yield) "\<not> (skipping \<and> Suc seen \<le> ls_sample_position (count_read s))"
                "owned_by_topology env (lc_workers c) (sr_sample_id ref)" by blast
          then show ?thesis
          proof cases
            case skip
            then have "shard_samples env c sid skipping (Suc seen) rest (count_read s) = (out, err, s')"
              using 2(6) step by (simp add: Let_def)
            from 2(2) [OF step refl skip this] show ?thesis using step skip by (auto simp: picked_Cons)
          next
            case other
            then have "shard_samples env c sid skipping (Suc seen) rest (count_read s) = (out, err, s')"
              using 2(6) step by (simp add: Let_def split: if_split_asm)
            from 2(3) [OF step refl other this] show ?thesis using step other by (simp add: picked_Cons)
          next
            case yield
            let ?s2 = "deliver_sample c (Suc seen) ref (count_read s)"
            obtain out' where o: "shard_samples env c sid skipping (Suc seen) rest ?s2 = (out', err, s')"
              and out: "out = (ref, ?s2) # out'"
              using 2(6) step yield by (auto simp: Let_def split: prod.splits)
            have "?q < Suc seen" using yield(1) by (auto simp: not_less_eq_eq)
            then have "picked env c (if skipping then Suc seen else 0) (Suc seen) refs = picked env c ?q (Suc seen) refs"
              for refs using picked_past [of ?q "Suc seen"] picked_past [of "Suc seen" "Suc seen"] by auto
            moreover have "\<not> \<not> owned_by_topology env (lc_workers c) (sr_sample_id ref)" using yield(2) by simp
            ultimately show ?thesis using 2(4) [OF step refl yield(1) _ refl o] step yield out \<open>?q < Suc seen\<close>
              by (cases skipping) (simp_all add: picked_Cons All_less_Suc2)
          qed
        qed
      qed
    qed
  qed
qed


text \<open>The valid samples of a shard in the order of an epoch, and whether its pass ends well.\<close>

definition shard_refs :: "loader_env \<Rightarrow> loader_config \<Rightarrow> int \<Rightarrow> string \<Rightarrow> sample_reference list" where
  "shard_refs env c epoch sid =
     (case shard_lines env sid of None \<Rightarrow> [] | Some lines \<Rightarrow> fst (valid_refs env c sid (shuffled_lines env c epoch lines)))"

definition clean :: "loader_env \<Rightarrow> loader_config \<Rightarrow> int \<Rightarrow> string \<Rightarrow> bool" where
  "clean env c epoch sid =
     (case shard_lines env sid of None \<Rightarrow> False
      | Some lines \<Rightarrow> snd (valid_refs env c sid (shuffled_lines env c epoch lines)) = None)"

text \<open>What the worker owns from the shard number \<open>k\<close> on, with the positions of shard and sample.\<close>

definition plan ::
  "loader_env \<Rightarrow> loader_config \<Rightarrow> int \<Rightarrow> nat \<Rightarrow> string list \<Rightarrow> (sample_reference \<times> nat \<times> nat) list" where
  "plan env c epoch k sids =
     concat (map (\<lambda>(j, sid). map (\<lambda>(i, ref). (ref, j, i)) (picked env c 0 0 (shard_refs env c epoch sid)))
       (enumerate k sids))"

lemma plan_simps [simp]:
  "plan env c epoch k [] = []"
  "plan env c epoch k (sid # sids) =
     map (\<lambda>(i, ref). (ref, k, i)) (picked env c 0 0 (shard_refs env c epoch sid)) @ plan env c epoch (Suc k) sids"
  by (simp_all add: plan_def)

lemma plan_positions: "(ref, j, i) \<in> set (plan env c epoch k sids) \<Longrightarrow> k \<le> j \<and> 0 < i"
  by (induction sids arbitrary: k) (auto simp: picked_def in_set_enumerate_eq dest: Suc_leD)

lemma plan_after_past:
  assumes "fst pos < k"
  shows "filter (\<lambda>(ref, key). pos < key) (plan env c epoch k sids) = plan env c epoch k sids"
  unfolding filter_id_conv using assms plan_positions [of _ _ _ env c epoch k sids]
  by (cases pos) (fastforce simp: less_prod_def)

lemma picked_after: "filter (\<lambda>(i, ref). q < i) (picked env c 0 0 refs) = picked env c q 0 refs"
  unfolding picked_def filter_filter by (rule filter_cong [OF refl]) auto


lemma plan_skipped:
  fixes k p q :: nat and xs :: "(nat \<times> sample_reference) list"
  assumes "k < p"
  shows "filter (\<lambda>(ref, key). (p, q) < key) (map (\<lambda>(i, ref). (ref, k, i)) xs) = []"
  unfolding filter_empty_conv using assms by auto

lemma plan_current:
  fixes k q :: nat
  shows "filter (\<lambda>(ref, key). (k, q) < key) (map (\<lambda>(i, ref). (ref, k, i)) (picked env c 0 0 refs))
    = map (\<lambda>(i, ref). (ref, k, i)) (picked env c q 0 refs)"
proof -
  have "filter (\<lambda>(ref, key). (k, q) < key) (map (\<lambda>(i, ref). (ref, k, i)) xs)
      = map (\<lambda>(i, ref). (ref, k, i)) (filter (\<lambda>(i, ref). q < i) xs)" for xs :: "(nat \<times> sample_reference) list"
    by (induction xs) auto
  then show ?thesis by (simp only: picked_after)
qed

text \<open>What a shard delivers when its turn comes.\<close>

lemma shard_turn:
  assumes "shard_samples env c sid (k = ls_shard_position s \<and> 0 < ls_sample_position s) 0
      (shuffled_lines env c (ls_epoch s) lines) s = (out, err, s')"
    and "shard_lines env sid = Some lines" and "k = ls_shard_position s"
  shows "map (\<lambda>(ref, st). (ref, ls_shard_position st, ls_sample_position st)) out
      = map (\<lambda>(i, ref). (ref, k, i)) (picked env c (ls_sample_position s) 0 (shard_refs env c (ls_epoch s) sid))
    \<and> list_all (\<lambda>(ref, st). ls_epoch st = ls_epoch s \<and> ls_identity st = ls_identity s) out
    \<and> (err = None \<longleftrightarrow> clean env c (ls_epoch s) sid) \<and> kept s' = kept s
    \<and> (\<forall>n<length out. ls_yielded (snd (out ! n)) = ls_yielded s + Suc n) \<and> ls_yielded s' = ls_yielded s + length out"
proof -
  let ?q = "if k = ls_shard_position s \<and> 0 < ls_sample_position s then ls_sample_position s else 0"
  note o = shard_samples_out [OF assms(1)]
  have q: "?q = ls_sample_position s" using assms(3) by simp
  have m: "map (\<lambda>(ref, st). (ref, kept st, ls_sample_position st)) out
      = map (\<lambda>(i, ref). (ref, kept s, i)) (picked env c (ls_sample_position s) 0 (shard_refs env c (ls_epoch s) sid))"
    using o unfolding q by (simp add: shard_refs_def assms(2))
  then have "map (\<lambda>(ref, kp, i). (ref, fst (snd kp), i)) (map (\<lambda>(ref, st). (ref, kept st, ls_sample_position st)) out)
      = map (\<lambda>(ref, kp, i). (ref, fst (snd kp), i)) (map (\<lambda>(i, ref). (ref, kept s, i))
          (picked env c (ls_sample_position s) 0 (shard_refs env c (ls_epoch s) sid)))" by (rule arg_cong)
  then have "map (\<lambda>(ref, st). (ref, ls_shard_position st, ls_sample_position st)) out
      = map (\<lambda>(i, ref). (ref, k, i)) (picked env c (ls_sample_position s) 0 (shard_refs env c (ls_epoch s) sid))"
    using assms(3) by (simp add: comp_def case_prod_unfold kept_def)
  moreover have "list_all (\<lambda>(ref, st). ls_epoch st = ls_epoch s \<and> ls_identity st = ls_identity s) out"
  proof -
    have "kept (snd d) = kept s" if "d \<in> set out" for d
    proof -
      have "(fst d, kept (snd d), ls_sample_position (snd d))
          \<in> set (map (\<lambda>(ref, st). (ref, kept st, ls_sample_position st)) out)" using that by force
      then show ?thesis unfolding m by auto
    qed
    then show ?thesis by (fastforce simp: list_all_iff kept_def)
  qed
  ultimately show ?thesis using o by (simp add: clean_def assms(2))
qed

lemma epoch_samples_clean:
  "k \<le> ls_shard_position s \<Longrightarrow> fst (snd (epoch_samples env c k sids s)) = None \<longleftrightarrow>
    list_all (\<lambda>(j, sid). ls_shard_position s \<le> j \<longrightarrow> clean env c (ls_epoch s) sid) (enumerate k sids)"
proof (induction sids arbitrary: k s)
  case (Cons sid sids)
  show ?case
  proof (cases "k < ls_shard_position s")
    case True
    then show ?thesis using Cons.IH [of "Suc k" s] by simp
  next
    case False
    then have k: "k = ls_shard_position s" using Cons.prems by simp
    show ?thesis
    proof (cases "shard_lines env sid")
      case None
      then show ?thesis using k by (simp add: clean_def)
    next
      case (Some lines)
      obtain out err s1 where o: "shard_samples env c sid (k = ls_shard_position s \<and> 0 < ls_sample_position s) 0
          (shuffled_lines env c (ls_epoch s) lines) s = (out, err, s1)" using prod_cases3 by blast
      note t = shard_turn [OF o Some k]
      let ?s1 = "s1\<lparr>ls_shard_position := Suc k, ls_sample_position := 0\<rparr>"
      have "list_all (\<lambda>(j, sid). Suc k \<le> j \<longrightarrow> clean env c (ls_epoch s) sid) (enumerate (Suc k) sids)
          \<longleftrightarrow> list_all (\<lambda>(j, sid). k \<le> j \<longrightarrow> clean env c (ls_epoch s) sid) (enumerate (Suc k) sids)"
        by (auto simp: list_all_iff in_set_enumerate_eq)
      then show ?thesis using Cons.IH [of "Suc k" ?s1] t o Some k
        by (cases err) (auto simp: kept_def split: prod.split)
    qed
  qed
qed simp


lemma epoch_samples_out:
  "epoch_samples env c k sids s = (out, None, s') \<Longrightarrow> k \<le> ls_shard_position s \<Longrightarrow>
    map (\<lambda>(ref, st). (ref, ls_shard_position st, ls_sample_position st)) out
      = filter (\<lambda>(ref, key). (ls_shard_position s, ls_sample_position s) < key) (plan env c (ls_epoch s) k sids)
    \<and> list_all (\<lambda>(ref, st). ls_epoch st = ls_epoch s \<and> ls_identity st = ls_identity s) out
    \<and> (\<forall>n<length out. ls_yielded (snd (out ! n)) = ls_yielded s + Suc n)
    \<and> ls_epoch s' = ls_epoch s + 1 \<and> ls_shard_position s' = 0 \<and> ls_sample_position s' = 0
    \<and> ls_identity s' = ls_identity s \<and> ls_yielded s' = ls_yielded s + length out"
proof (induction sids arbitrary: k s out s')
  case Nil
  then show ?case by auto
next
  case (Cons sid sids)
  show ?case
  proof (cases "k < ls_shard_position s")
    case True
    then show ?thesis using Cons.IH [of "Suc k" s out s'] Cons.prems by (simp add: plan_skipped)
  next
    case False
    then have k: "k = ls_shard_position s" using Cons.prems by simp
    obtain lines where lines: "shard_lines env sid = Some lines"
      using Cons.prems(1) False by (cases "shard_lines env sid") auto
    obtain out1 err s1 where o: "shard_samples env c sid (k = ls_shard_position s \<and> 0 < ls_sample_position s) 0
        (shuffled_lines env c (ls_epoch s) lines) s = (out1, err, s1)" using prod_cases3 by blast
    let ?s1 = "s1\<lparr>ls_shard_position := Suc k, ls_sample_position := 0\<rparr>"
    obtain out2 where o2: "epoch_samples env c (Suc k) sids ?s1 = (out2, None, s')" and out: "out = out1 @ out2"
      using Cons.prems(1) False lines o by (auto simp: Let_def split: option.split_asm prod.split_asm)
    note t = shard_turn [OF o lines k]
    then have e: "ls_epoch s1 = ls_epoch s" "ls_identity s1 = ls_identity s" by (simp_all add: kept_def)
    have ih: "map (\<lambda>(ref, st). (ref, ls_shard_position st, ls_sample_position st)) out2
        = plan env c (ls_epoch s) (Suc k) sids
      \<and> list_all (\<lambda>(ref, st). ls_epoch st = ls_epoch s \<and> ls_identity st = ls_identity s) out2
      \<and> (\<forall>n<length out2. ls_yielded (snd (out2 ! n)) = ls_yielded s1 + Suc n)
      \<and> ls_epoch s' = ls_epoch s + 1 \<and> ls_shard_position s' = 0 \<and> ls_sample_position s' = 0
      \<and> ls_identity s' = ls_identity s \<and> ls_yielded s' = ls_yielded s1 + length out2"
    proof -
      have "filter (\<lambda>(ref, key). (Suc k, 0) < key) (plan env c (ls_epoch s) (Suc k) sids)
          = plan env c (ls_epoch s) (Suc k) sids"
        unfolding filter_id_conv using plan_positions [of _ _ _ env c "ls_epoch s" "Suc k" sids]
        by (fastforce simp: less_prod_def)
      then show ?thesis using Cons.IH [OF o2] e by simp
    qed
    have "(\<forall>n<length out. ls_yielded (snd (out ! n)) = ls_yielded s + Suc n)"
      using t ih unfolding out by (auto simp: nth_append)
    moreover have "filter (\<lambda>(ref, key). (ls_shard_position s, ls_sample_position s) < key)
          (plan env c (ls_epoch s) k (sid # sids))
        = map (\<lambda>(ref, st). (ref, ls_shard_position st, ls_sample_position st)) out"
      using t ih plan_current [of k "ls_sample_position s" env c "shard_refs env c (ls_epoch s) sid"]
        plan_after_past [of "(k, ls_sample_position s)" "Suc k" env c "ls_epoch s" sids]
      by (simp add: out k [symmetric])
    ultimately show ?thesis using t ih by (simp add: out)
  qed
qed


subsection \<open>Resuming\<close>

lemma drop_after:
  fixes key :: "'a \<Rightarrow> 'k::linorder"
  assumes "sorted_wrt (\<lambda>a b. key a < key b) xs" and "n < length xs"
  shows "filter (\<lambda>x. key (xs ! n) < key x) xs = drop (Suc n) xs"
proof -
  have xs: "xs = take n xs @ xs ! n # drop (Suc n) xs" using assms(2) by (rule id_take_nth_drop)
  have "sorted_wrt (\<lambda>a b. key a < key b) (take n xs @ xs ! n # drop (Suc n) xs)" using assms(1) xs by metis
  then have before: "\<forall>x\<in>set (take n xs). \<not> key (xs ! n) < key x" and after: "\<forall>x\<in>set (drop (Suc n) xs). key (xs ! n) < key x"
    by (auto simp: sorted_wrt_append)
  have "filter (\<lambda>x. key (xs ! n) < key x) (take n xs @ xs ! n # drop (Suc n) xs) = drop (Suc n) xs"
    using before after by (simp add: filter_empty_conv filter_id_conv)
  then show ?thesis using xs by metis
qed

lemma plan_sorted: "sorted_wrt (\<lambda>a b. snd a < snd b) (plan env c epoch k sids)"
proof (induction sids arbitrary: k)
  case (Cons sid sids)
  have "sorted_wrt (\<lambda>a b. fst a < fst b) (enumerate 1 refs)" for refs :: "sample_reference list"
    unfolding sorted_wrt_map [of "(<)" fst, symmetric] by (simp del: upt_Suc)
  then have "sorted_wrt (\<lambda>a b. fst a < fst b) (picked env c 0 0 refs)" for refs
    unfolding picked_def by (simp add: sorted_wrt_filter)
  then have "sorted_wrt (\<lambda>a b. snd a < snd b)
      (map (\<lambda>(i, ref). (ref, k, i)) (picked env c 0 0 (shard_refs env c epoch sid)))"
    by (simp add: sorted_wrt_map case_prod_beta)
  then show ?case using Cons.IH [of "Suc k"] plan_positions [of _ _ _ env c epoch "Suc k" sids]
    by (fastforce simp: sorted_wrt_append less_prod_def)
qed simp

lemma plan_resumed:
  fixes pos :: "nat \<times> nat"
  assumes "n < length (filter (\<lambda>(ref, key). pos < key) (plan env c epoch k sids))"
    and "filter (\<lambda>(ref, key). pos < key) (plan env c epoch k sids) ! n = (ref, pos')"
  shows "filter (\<lambda>(ref, key). pos' < key) (plan env c epoch k sids)
    = drop (Suc n) (filter (\<lambda>(ref, key). pos < key) (plan env c epoch k sids))"
proof -
  let ?after = "filter (\<lambda>(ref, key). pos < key) (plan env c epoch k sids)"
  have "(ref, pos') \<in> set ?after" using assms by (metis nth_mem)
  then have "pos < pos'" by simp
  then have "filter (\<lambda>(ref, key). pos' < key) (plan env c epoch k sids)
      = filter (\<lambda>x. snd (?after ! n) < snd x) ?after"
    unfolding filter_filter assms(2) by (intro filter_cong [OF refl]) auto
  also have "\<dots> = drop (Suc n) ?after" using plan_sorted assms(1) by (intro drop_after sorted_wrt_filter)
  finally show ?thesis .
qed

lemma open_loader_ok:
  assumes "open_loader env c s = (s', Inr ident)"
  shows "s' = s\<lparr>ls_identity := Some ident\<rparr>"
  using assms by (auto simp: open_loader_def Let_def split: option.split_asm sum.split_asm if_split_asm)

lemma iter_samples_run:
  assumes "iter_samples env c epoch s = (out, None, s_end)"
  obtains s1 ident where "open_loader env c s1 = (s1\<lparr>ls_identity := Some ident\<rparr>, Inr ident)"
    "epoch_samples env c 0 (epoch_shard_order env c (ls_epoch s1)) (s1\<lparr>ls_identity := Some ident\<rparr>) = (out, None, s_end)"
    "ls_identity s1 = ls_identity s"
proof -
  let ?s1 = "case epoch of Some e \<Rightarrow> if e \<noteq> ls_epoch s
      then s\<lparr>ls_epoch := e, ls_shard_position := 0, ls_sample_position := 0\<rparr> else s | None \<Rightarrow> s"
  obtain s2 ident where o: "open_loader env c ?s1 = (s2, Inr ident)"
    and e: "epoch_samples env c 0 (epoch_shard_order env c (ls_epoch s2)) s2 = (out, None, s_end)"
    using assms by (auto simp: iter_samples_def Let_def split: prod.split_asm sum.split_asm)
  note s2 = open_loader_ok [OF o]
  show thesis
    by (rule that [of ?s1 ident]) (use o e in \<open>auto simp: s2 split: option.splits\<close>)
qed


text \<open>A restored loader goes on where the cursor was taken.\<close>

lemma restore_own_cursor:
  assumes "snd (open_loader env c fresh) = Inr ident" and "ls_identity st = Some ident"
  shows "restore env c (get_cursor env c st) fresh =
    (fresh\<lparr>ls_identity := Some ident, ls_epoch := ls_epoch st, ls_shard_position := ls_shard_position st,
       ls_sample_position := ls_sample_position st, ls_yielded := ls_yielded st\<rparr>, Inr ())"
proof -
  obtain f where f: "open_loader env c fresh = (f, Inr ident)" using assms(1) by (metis prod.collapse)
  then show ?thesis using open_loader_ok [OF f] assms(2) by (simp add: restore_def get_cursor_def Let_def)
qed

definition progress :: "loader_state \<Rightarrow> nat \<times> nat" where
  "progress s = (ls_shard_position s, ls_sample_position s)"

lemma progress_pairs: "map (\<lambda>(ref, st). (ref, ls_shard_position st, ls_sample_position st)) out = map (\<lambda>d. (fst d, progress (snd d))) out"
  by (simp add: progress_def case_prod_beta)

lemma get_cursor_eq:
  "ls_epoch s = ls_epoch s' \<Longrightarrow> ls_identity s = ls_identity s' \<Longrightarrow> progress s = progress s' \<Longrightarrow>
    ls_yielded s = ls_yielded s' \<Longrightarrow> get_cursor env c s = get_cursor env c s'"
  by (simp add: get_cursor_def progress_def)

lemma epoch_samples_resumed:
  fixes sids :: "string list"
  assumes run: "epoch_samples env c 0 sids s = (out, None, s_end)" and n: "n < length out"
    and r: "ls_epoch r = ls_epoch s" "ls_identity r = ls_identity s" "progress r = progress (snd (out ! n))"
      "ls_yielded r = ls_yielded s + Suc n"
    and rest: "epoch_samples env c 0 sids r = (out', err, r_end)"
  shows "err = None \<and> map fst out' = drop (Suc n) (map fst out)
    \<and> map (get_cursor env c \<circ> snd) out' = drop (Suc n) (map (get_cursor env c \<circ> snd) out)
    \<and> get_cursor env c r_end = get_cursor env c s_end"
proof -
  let ?plan = "plan env c (ls_epoch s) 0 sids"
  note o = epoch_samples_out [OF run le0, unfolded progress_pairs]
  have pairs: "map (\<lambda>d. (fst d, progress (snd d))) out = filter (\<lambda>(ref, key). progress s < key) ?plan"
    using o by (simp add: progress_def)
  have nth: "filter (\<lambda>(ref, key). progress s < key) ?plan ! n = (fst (out ! n), progress r)"
    unfolding pairs [symmetric] using n r(3) by simp
  have resumed: "filter (\<lambda>(ref, key). progress r < key) ?plan
      = drop (Suc n) (map (\<lambda>d. (fst d, progress (snd d))) out)"
    unfolding pairs by (rule plan_resumed [OF _ nth]) (use n in \<open>simp flip: pairs\<close>)
  have "(fst (out ! n), progress r) \<in> set (filter (\<lambda>(ref, key). progress s < key) ?plan)"
    unfolding nth [symmetric] using n by (intro nth_mem) (simp flip: pairs)
  then have "ls_shard_position s \<le> ls_shard_position r" by (auto simp: progress_def)
  moreover have "list_all (\<lambda>(j, sid). ls_shard_position s \<le> j \<longrightarrow> clean env c (ls_epoch s) sid) (enumerate 0 sids)"
    using epoch_samples_clean [of 0 s env c sids] run by simp
  ultimately have "list_all (\<lambda>(j, sid). ls_shard_position r \<le> j \<longrightarrow> clean env c (ls_epoch r) sid) (enumerate 0 sids)"
    using r(1) by (auto simp: list_all_iff)
  then have err: "err = None" using epoch_samples_clean [of 0 r env c sids] rest by simp
  note o' = epoch_samples_out [OF rest [unfolded err] le0, unfolded progress_pairs]
  have pairs': "map (\<lambda>d. (fst d, progress (snd d))) out' = drop (Suc n) (map (\<lambda>d. (fst d, progress (snd d))) out)"
    using o' r(1) resumed by (simp add: progress_def)
  from arg_cong [OF this, of length] have len: "length out' = length out - Suc n" by simp
  have same: "fst (out' ! m) = fst (out ! (Suc n + m)) \<and> progress (snd (out' ! m)) = progress (snd (out ! (Suc n + m)))"
    if "m < length out'" for m
    using that len n arg_cong [OF pairs', of "\<lambda>xs. xs ! m"] by simp
  have "map fst out' = drop (Suc n) (map fst out)"
    using len same by (intro nth_equalityI) auto
  moreover have "get_cursor env c (snd (out' ! m)) = get_cursor env c (snd (out ! (Suc n + m)))"
    if m: "m < length out'" for m
  proof (rule get_cursor_eq)
    have "Suc n + m < length out" using m len by simp
    then show "ls_yielded (snd (out' ! m)) = ls_yielded (snd (out ! (Suc n + m)))" using o o' m r(4) by simp
    show "progress (snd (out' ! m)) = progress (snd (out ! (Suc n + m)))" using same [OF m] by simp
    have "out' ! m \<in> set out'" "out ! (Suc n + m) \<in> set out" using m \<open>Suc n + m < length out\<close> by simp_all
    then show "ls_epoch (snd (out' ! m)) = ls_epoch (snd (out ! (Suc n + m)))"
      and "ls_identity (snd (out' ! m)) = ls_identity (snd (out ! (Suc n + m)))"
      using o o' r(1,2) by (auto simp: list_all_iff case_prod_unfold)
  qed
  then have "map (get_cursor env c \<circ> snd) out' = drop (Suc n) (map (get_cursor env c \<circ> snd) out)"
    using len by (intro nth_equalityI) auto
  moreover have "get_cursor env c r_end = get_cursor env c s_end"
  proof (rule get_cursor_eq)
    show "ls_yielded r_end = ls_yielded s_end" using o o' r(4) n len by linarith
    show "ls_epoch r_end = ls_epoch s_end" "ls_identity r_end = ls_identity s_end" "progress r_end = progress s_end"
      using conjunct2 [OF conjunct2 [OF conjunct2 [OF o]]] conjunct2 [OF conjunct2 [OF conjunct2 [OF o']]] r(1,2)
      by (simp_all add: progress_def)
  qed
  ultimately show ?thesis using err by blast
qed

text \<open>
  C34. A loader resumes without repeating or losing a sample. Take the cursor after any sample of a pass that
  ends well, and restore it in a new loader on the same files: the restoration is accepted, and the rest
  of the pass delivers exactly the samples that were left, in the same order and with the same cursors, and
  ends where the first pass ended.
\<close>

theorem resume_continues:
  assumes "new_loader env c = Inr fresh" and "snd (open_loader env c fresh) = Inr ident"
    and "ls_identity s \<in> {None, Some ident}"
    and "iter_samples env c epoch s = (out, None, s_end)" and "n < length out"
    and "restore env c (get_cursor env c (snd (out ! n))) fresh = (r, answer)"
    and "iter_samples env c None r = (out', err, r_end)"
  shows "answer = Inr () \<and> err = None \<and> map fst out' = drop (Suc n) (map fst out)
    \<and> map (get_cursor env c \<circ> snd) out' = drop (Suc n) (map (get_cursor env c \<circ> snd) out)
    \<and> get_cursor env c r_end = get_cursor env c s_end"
proof -
  obtain s1 ident' where o: "open_loader env c s1 = (s1\<lparr>ls_identity := Some ident'\<rparr>, Inr ident')"
    and run: "epoch_samples env c 0 (epoch_shard_order env c (ls_epoch s1)) (s1\<lparr>ls_identity := Some ident'\<rparr>) = (out, None, s_end)"
    and "ls_identity s1 = ls_identity s" using assms(4) by (rule iter_samples_run)
  then have "ident' = ident"
    using assms(1-3) by (auto simp: open_loader_def new_loader_def Let_def split: option.splits sum.splits if_split_asm)
  note run = run [unfolded this]
  note shape = epoch_samples_out [OF run le0]
  have "out ! n \<in> set out" using assms(5) by simp
  then have st: "ls_epoch (snd (out ! n)) = ls_epoch s1" "ls_identity (snd (out ! n)) = Some ident"
    using shape by (auto simp: list_all_iff case_prod_unfold)
  note restored = restore_own_cursor [OF assms(2) st(2)]
  have "epoch_samples env c 0 (epoch_shard_order env c (ls_epoch s1)) r = (out', err, r_end)"
    using assms(6,7) restored st(1) by (auto simp: iter_samples_def open_loader_def)
  then show ?thesis using epoch_samples_resumed [OF run assms(5), of r out' err r_end] assms(5,6) restored st shape
    by (auto simp: progress_def)
qed


subsection \<open>The workers share an epoch\<close>

text \<open>One line on its own: its error, or the sample if it is valid.\<close>

definition line_ref :: "loader_env \<Rightarrow> loader_config \<Rightarrow> string \<Rightarrow> nat \<times> json \<Rightarrow> loader_error + sample_reference option" where
  "line_ref env c sid pl =
     (case read_sample (sx_text (lx_shard env)) sid pl of
        Inl err \<Rightarrow> Inl err
      | Inr None \<Rightarrow> Inr None
      | Inr (Some ref) \<Rightarrow>
          (case sample_issues env (lc_validation_mode c) ref of
             Inl err \<Rightarrow> Inl err
           | Inr [] \<Rightarrow> Inr (Some ref)
           | Inr (i # issues) \<Rightarrow>
               if lc_bad_sample_policy c = FailFast then Inl (BadSample (sr_sample_id ref) (i # issues)) else Inr None))"

definition ref_option :: "loader_error + sample_reference option \<Rightarrow> sample_reference option" where
  "ref_option v = (case v of Inl err \<Rightarrow> None | Inr r \<Rightarrow> r)"

lemma valid_refs_Cons:
  "valid_refs env c sid (pl # rest) =
     (case line_ref env c sid pl of
        Inl err \<Rightarrow> ([], Some err)
      | Inr None \<Rightarrow> valid_refs env c sid rest
      | Inr (Some ref) \<Rightarrow> (ref # fst (valid_refs env c sid rest), snd (valid_refs env c sid rest)))"
  by (simp add: line_ref_def split: sum.split option.split list.split)

lemma valid_refs_lines:
  "snd (valid_refs env c sid pls) = None \<longleftrightarrow> list_all (\<lambda>pl. \<not> isl (line_ref env c sid pl)) pls"
  "snd (valid_refs env c sid pls) = None \<Longrightarrow>
    fst (valid_refs env c sid pls) = List.map_filter (\<lambda>pl. ref_option (line_ref env c sid pl)) pls"
proof -
  have "(snd (valid_refs env c sid pls) = None \<longleftrightarrow> list_all (\<lambda>pl. \<not> isl (line_ref env c sid pl)) pls)
    \<and> (snd (valid_refs env c sid pls) = None \<longrightarrow>
        fst (valid_refs env c sid pls) = List.map_filter (\<lambda>pl. ref_option (line_ref env c sid pl)) pls)"
  proof (induction pls)
    case (Cons pl pls)
    then show ?case
      by (simp add: valid_refs_Cons ref_option_def map_filter_simps del: valid_refs.simps split: sum.split option.split)
  qed (simp add: map_filter_simps)
  then show "snd (valid_refs env c sid pls) = None \<longleftrightarrow> list_all (\<lambda>pl. \<not> isl (line_ref env c sid pl)) pls"
    and "snd (valid_refs env c sid pls) = None \<Longrightarrow>
      fst (valid_refs env c sid pls) = List.map_filter (\<lambda>pl. ref_option (line_ref env c sid pl)) pls" by blast+
qed

lemma mset_shuffled_lines:
  assumes "loader_config_ok c"
  shows "mset (shuffled_lines env c epoch lines) = mset (enumerate 0 lines)"
proof (cases "lc_shuffle_mode c")
  case ShuffleBuffered
  then show ?thesis
    using assms mset_shuffle_through [of "lc_buffer_size c" "lx_next env" "seed_mask (epoch_seed env c epoch)" "[]"]
    by (simp add: shuffled_lines_def loader_config_ok_def bounded_shuffle_stream_def)
next
  case ShuffleShardOrder
  have "mset (map (\<lambda>i. (i, lines ! i)) (permute_indices f (length lines) seed))
      = mset (map (\<lambda>i. (i, lines ! i)) [0..<length lines])" for f seed
    by (simp only: mset_map mset_permute_indices)
  moreover have "map (\<lambda>i. (i, lines ! i)) [0..<length lines] = enumerate 0 lines"
    by (intro nth_equalityI) (simp_all add: nth_enumerate_eq)
  ultimately show ?thesis using ShuffleShardOrder by (simp add: shuffled_lines_def)
qed (simp add: shuffled_lines_def)

text \<open>A shard file that can be read, and its valid samples in the order of the file.\<close>

definition readable :: "loader_env \<Rightarrow> loader_config \<Rightarrow> string \<Rightarrow> bool" where
  "readable env c sid =
     (case shard_lines env sid of None \<Rightarrow> False
      | Some lines \<Rightarrow> snd (valid_refs env c sid (enumerate 0 lines)) = None)"

definition file_refs :: "loader_env \<Rightarrow> loader_config \<Rightarrow> string \<Rightarrow> sample_reference list" where
  "file_refs env c sid =
     (case shard_lines env sid of None \<Rightarrow> [] | Some lines \<Rightarrow> fst (valid_refs env c sid (enumerate 0 lines)))"

lemma mset_map_filter: "mset xs = mset ys \<Longrightarrow> mset (List.map_filter f xs) = mset (List.map_filter f ys)"
  by (simp add: List.map_filter_def)

lemma readable_shard:
  assumes "readable env c sid" and "loader_config_ok c"
  shows "clean env c epoch sid \<and> mset (shard_refs env c epoch sid) = mset (file_refs env c sid)"
proof -
  obtain lines where lines: "shard_lines env sid = Some lines"
    "snd (valid_refs env c sid (enumerate 0 lines)) = None"
    using assms(1) by (auto simp: readable_def split: option.splits)
  let ?pls = "shuffled_lines env c epoch lines"
  have m: "mset ?pls = mset (enumerate 0 lines)" by (rule mset_shuffled_lines [OF assms(2)])
  then have "list_all (\<lambda>pl. \<not> isl (line_ref env c sid pl)) ?pls"
    using lines(2) mset_eq_setD [OF m] unfolding valid_refs_lines(1) list_all_iff by simp
  then have "snd (valid_refs env c sid ?pls) = None" by (simp only: valid_refs_lines(1))
  then show ?thesis
    using lines mset_map_filter [OF m] by (simp add: clean_def shard_refs_def file_refs_def valid_refs_lines(2))
qed

lemma plan_owned:
  "map fst (plan env c epoch k sids)
    = filter (\<lambda>ref. owned_by_topology env (lc_workers c) (sr_sample_id ref)) (concat (map (shard_refs env c epoch) sids))"
proof (induction sids arbitrary: k)
  case (Cons sid sids)
  have "map snd (picked env c 0 n refs)
      = filter (\<lambda>ref. owned_by_topology env (lc_workers c) (sr_sample_id ref)) refs" for n refs
  proof (induction refs arbitrary: n)
    case (Cons ref refs)
    then show ?case by (simp add: picked_Cons)
  qed (simp add: picked_def)
  then show ?case using Cons by (simp add: comp_def case_prod_unfold)
qed simp


definition as_worker :: "loader_config \<Rightarrow> nat \<Rightarrow> nat \<Rightarrow> loader_config" where
  "as_worker c r w = c\<lparr>lc_workers := (lc_workers c)\<lparr>wk_rank := int r, wk_worker_id := int w\<rparr>\<rparr>"

lemma flat_workers: "map (\<lambda>(r, w). r * m + w) (List.product [0..<n] [0..<m]) = [0..<n * m]"
proof (induction n)
  case (Suc n)
  have "map (\<lambda>w. n * m + w) [0..<m] = [n * m..<n * m + m]" by (simp add: map_add_upt add.commute)
  moreover have "[0..<n * m] @ [n * m..<n * m + m] = [0..<n * m + m]" using upt_add_eq_append [of 0 "n * m" m] by simp
  ultimately show ?case using Suc by (simp add: product_concat_map comp_def add.commute)
qed simp

lemma shares_sum:
  assumes "\<And>x. f x < n"
  shows "sum_list (map (\<lambda>j. filter_mset (\<lambda>x. f x = j) A) [0..<n]) = A"
proof (induction A)
  case (add x A)
  have none: "n \<le> k \<Longrightarrow> sum_list (map (\<lambda>j. if k = j then {#x#} else {#}) [0..<n]) = {#}" for k n
    by (induction n) auto
  have one: "k < n \<Longrightarrow> sum_list (map (\<lambda>j. if k = j then {#x#} else {#}) [0..<n]) = {#x#}" for k n
    by (induction n) (auto simp: none less_Suc_eq)
  have "filter_mset (\<lambda>x. f x = j) (add_mset x A) = (if f x = j then {#x#} else {#}) + filter_mset (\<lambda>x. f x = j) A" for j
    by simp
  then have "sum_list (map (\<lambda>j. filter_mset (\<lambda>x. f x = j) (add_mset x A)) [0..<n]) = {#x#} + A"
    unfolding sum_list_addf using add.IH one [OF assms [of x]] by (simp add: sum_list_addf)
  then show ?case by simp
qed simp

lemma owned_slot:
  assumes "wk_world_size wc = int n" and "wk_num_workers wc = int m" and "r < n" and "w < m"
  shows "owned_by_topology env (wc\<lparr>wk_rank := int r, wk_worker_id := int w\<rparr>) sid
    \<longleftrightarrow> nat (lx_stable_hash env sid mod int (n * m)) = r * m + w"
proof -
  have "0 < n * m" using assms(3,4) by simp
  then have "0 \<le> lx_stable_hash env sid mod int (n * m)" by (intro pos_mod_sign) linarith
  then have "nat (lx_stable_hash env sid mod int (n * m)) = r * m + w
      \<longleftrightarrow> lx_stable_hash env sid mod int (n * m) = int r * int m + int w" by (auto simp: nat_eq_iff)
  moreover have "n = 1 \<and> m = 1 \<and> r = 0 \<and> w = 0" if "int n * int m = 1" using that assms(3,4) by (simp add: zmult_eq_1_iff)
  ultimately show ?thesis using assms(1,2) by (auto simp: owned_by_topology_def Let_def)
qed

lemma workers_sum:
  assumes "wk_world_size wc = int n" and "wk_num_workers wc = int m" and "0 < n" and "0 < m"
  shows "sum_list (map (\<lambda>(r, w). filter_mset
      (\<lambda>ref. owned_by_topology env (wc\<lparr>wk_rank := int r, wk_worker_id := int w\<rparr>) (sr_sample_id ref)) A)
        (List.product [0..<n] [0..<m])) = A"
proof -
  let ?slot = "\<lambda>ref. nat (lx_stable_hash env (sr_sample_id ref) mod int (n * m))"
  have "?slot ref < n * m" for ref using assms(3,4) by (simp add: nat_less_iff)
  then have sum: "sum_list (map (\<lambda>j. filter_mset (\<lambda>ref. ?slot ref = j) A) (map (\<lambda>(r, w). r * m + w) (List.product [0..<n] [0..<m]))) = A"
    unfolding flat_workers by (rule shares_sum)
  have "map (\<lambda>(r, w). filter_mset
      (\<lambda>ref. owned_by_topology env (wc\<lparr>wk_rank := int r, wk_worker_id := int w\<rparr>) (sr_sample_id ref)) A)
        (List.product [0..<n] [0..<m])
    = map (\<lambda>j. filter_mset (\<lambda>ref. ?slot ref = j) A) (map (\<lambda>(r, w). r * m + w) (List.product [0..<n] [0..<m]))"
    unfolding map_map by (rule map_cong [OF refl]) (auto simp: owned_slot [OF assms(1,2)] intro!: filter_mset_cong)
  then show ?thesis using sum by (simp only:)
qed


lemma as_worker_fields [simp]:
  "lc_validation_mode (as_worker c r w) = lc_validation_mode c"
  "lc_bad_sample_policy (as_worker c r w) = lc_bad_sample_policy c"
  "lc_dataset_id (as_worker c r w) = lc_dataset_id c" "lc_dataset_version (as_worker c r w) = lc_dataset_version c"
  "lc_split (as_worker c r w) = lc_split c"
  "lc_workers (as_worker c r w) = (lc_workers c)\<lparr>wk_rank := int r, wk_worker_id := int w\<rparr>"
  by (simp_all add: as_worker_def)

lemma valid_refs_worker [simp]: "valid_refs env (as_worker c r w) sid pls = valid_refs env c sid pls"
  by (induction pls) (simp_all split: sum.split option.split list.split)

lemma as_worker_same:
  "readable env (as_worker c r w) = readable env c" "file_refs env (as_worker c r w) = file_refs env c"
  "open_loader env (as_worker c r w) s = open_loader env c s"
  by (simp_all add: readable_def file_refs_def open_loader_def fun_eq_iff cong: option.case_cong)

lemma as_worker_ok:
  "loader_config_ok c \<Longrightarrow> wk_world_size (lc_workers c) = int n \<Longrightarrow> wk_num_workers (lc_workers c) = int m \<Longrightarrow>
    r < n \<Longrightarrow> w < m \<Longrightarrow> loader_config_ok (as_worker c r w)"
  by (simp add: loader_config_ok_def worker_config_ok_def) (simp add: as_worker_def)

text \<open>What one worker delivers in an epoch.\<close>

lemma worker_delivers:
  assumes "new_loader env c = Inr fresh" and "snd (open_loader env c fresh) = Inr ident" and "loader_config_ok c"
    and "list_all (readable env c) (map sh_shard_id (si_shards (lx_index env)))"
    and "iter_samples env c (Some epoch) fresh = (out, err, s')"
  shows "err = None \<and> mset (map fst out)
    = filter_mset (\<lambda>ref. owned_by_topology env (lc_workers c) (sr_sample_id ref))
        (mset (concat (map (file_refs env c) (map sh_shard_id (si_shards (lx_index env))))))"
proof -
  let ?ids = "map sh_shard_id (si_shards (lx_index env))"
  let ?sids = "epoch_shard_order env c epoch"
  let ?s = "fresh\<lparr>ls_epoch := epoch, ls_identity := Some ident\<rparr>"
  have "validate_canonical_manifest (sx_text (lx_shard env)) (lx_digest env) (lx_manifest env)
      (lc_dataset_id c) (lc_dataset_version c) (lc_split c) = Inr ident
    \<and> mi_manifest_sha256 ident = si_source_manifest_sha256 (lx_index env)"
    using assms(1,2) by (auto simp: open_loader_def new_loader_def Let_def split: sum.splits if_split_asm)
  then have run: "epoch_samples env c 0 ?sids ?s = (out, err, s')"
    using assms(1,5) by (auto simp: iter_samples_def open_loader_def new_loader_def Let_def split: if_split_asm)
  have m: "mset ?sids = mset ?ids" by (simp add: epoch_shard_order_def mset_shard_order del: mset_map)
  then have "\<forall>sid\<in>set ?sids. readable env c sid" using assms(4) mset_eq_setD [OF m] by (simp add: list_all_iff)
  then have shards: "clean env c epoch sid \<and> mset (shard_refs env c epoch sid) = mset (file_refs env c sid)"
    if "sid \<in> set ?sids" for sid using that readable_shard [OF _ assms(3)] by blast
  have start: "ls_shard_position ?s = 0" "ls_sample_position ?s = 0" "ls_epoch ?s = epoch"
    using assms(1) by (auto simp: new_loader_def split: if_split_asm)
  have "list_all (\<lambda>(j, sid). 0 \<le> j \<longrightarrow> clean env c epoch sid) (enumerate 0 ?sids)"
    using shards by (auto simp: list_all_iff in_set_enumerate_eq)
  then have err: "err = None" using epoch_samples_clean [of 0 ?s env c ?sids] run start by simp
  have "map (\<lambda>d. (fst d, progress (snd d))) out = filter (\<lambda>(ref, key). (0, 0) < key) (plan env c epoch 0 ?sids)"
    using epoch_samples_out [OF run [unfolded err] le0, unfolded progress_pairs] start by simp
  also have "\<dots> = plan env c epoch 0 ?sids"
    unfolding filter_id_conv using plan_positions [of _ _ _ env c epoch 0 ?sids] by (fastforce simp: less_prod_def)
  finally have "map fst out = map fst (plan env c epoch 0 ?sids)" by (metis (no_types, lifting) fst_conv map_map comp_apply map_cong)
  moreover have "mset (concat (map (shard_refs env c epoch) ?sids)) = mset (concat (map (file_refs env c) ?ids))"
  proof -
    have "mset (concat (map (shard_refs env c epoch) ?sids)) = sum_list (map (\<lambda>sid. mset (file_refs env c sid)) ?sids)"
      using shards by (simp add: mset_concat comp_def cong: map_cong)
    also have "\<dots> = sum_mset (image_mset (\<lambda>sid. mset (file_refs env c sid)) (mset ?sids))"
      by (simp only: sum_mset_sum_list flip: mset_map)
    also have "\<dots> = sum_list (map (\<lambda>sid. mset (file_refs env c sid)) ?ids)"
      unfolding m by (simp only: sum_mset_sum_list flip: mset_map)
    finally show ?thesis by (simp add: mset_concat comp_def)
  qed
  ultimately show ?thesis using err by (simp add: plan_owned del: map_map)
qed

text \<open>
  C35. The workers of an epoch share its data. When the manifest and the shard files can be read, the passes of
  all workers of a topology, each in its own order, end well and together deliver every valid sample of the
  shards exactly once.
\<close>

theorem workers_share_the_epoch:
  assumes "new_loader env c = Inr fresh" and "snd (open_loader env c fresh) = Inr ident" and "loader_config_ok c"
    and "wk_world_size (lc_workers c) = int n" and "wk_num_workers (lc_workers c) = int m"
    and "list_all (readable env c) (map sh_shard_id (si_shards (lx_index env)))"
  shows "list_all (\<lambda>(r, w). fst (snd (iter_samples env (as_worker c r w) (Some epoch) fresh)) = None)
      (List.product [0..<n] [0..<m])
    \<and> sum_list (map (\<lambda>(r, w). mset (map fst (fst (iter_samples env (as_worker c r w) (Some epoch) fresh))))
        (List.product [0..<n] [0..<m]))
      = mset (concat (map (file_refs env c) (map sh_shard_id (si_shards (lx_index env)))))"
proof -
  let ?all = "mset (concat (map (file_refs env c) (map sh_shard_id (si_shards (lx_index env)))))"
  let ?run = "\<lambda>r w. iter_samples env (as_worker c r w) (Some epoch) fresh"
  have "new_loader env (as_worker c r w) = Inr fresh" for r w using assms(1) by (simp add: new_loader_def)
  then have one: "fst (snd (?run r w)) = None \<and> mset (map fst (fst (?run r w)))
      = filter_mset (\<lambda>ref. owned_by_topology env ((lc_workers c)\<lparr>wk_rank := int r, wk_worker_id := int w\<rparr>)
          (sr_sample_id ref)) ?all" if "r < n" "w < m" for r w
    using that assms(2,6) as_worker_ok [OF assms(3-5) that]
      worker_delivers [of env "as_worker c r w" fresh ident epoch "fst (?run r w)" "fst (snd (?run r w))"
        "snd (snd (?run r w))"]
    by (simp add: as_worker_same)
  then have eq: "map (\<lambda>(r, w). mset (map fst (fst (?run r w)))) (List.product [0..<n] [0..<m])
      = map (\<lambda>(r, w). filter_mset (\<lambda>ref. owned_by_topology env ((lc_workers c)\<lparr>wk_rank := int r, wk_worker_id := int w\<rparr>)
          (sr_sample_id ref)) ?all) (List.product [0..<n] [0..<m])"
    by (intro map_cong [OF refl]) auto
  have pos: "0 < n" "0 < m" using assms(3-5) by (simp_all add: loader_config_ok_def worker_config_ok_def)
  have "list_all (\<lambda>(r, w). fst (snd (?run r w)) = None) (List.product [0..<n] [0..<m])"
    using one by (auto simp: list_all_iff)
  then show ?thesis unfolding eq workers_sum [OF assms(4,5) pos] by (rule conjI [OF _ refl])
qed


subsection \<open>Batches\<close>

lemma full_batches_keep:
  "full_batches n buffer out = (batches, left_over) \<Longrightarrow> length buffer < n \<Longrightarrow>
    concat (map ba_samples batches) @ left_over = buffer @ map fst out
    \<and> list_all (\<lambda>b. ba_size b = n) batches \<and> length left_over < n"
proof (induction n buffer out arbitrary: batches left_over rule: full_batches.induct)
  case (2 n buffer ref s rest)
  show ?case
  proof (cases "n \<le> length (buffer @ [ref])")
    case True
    then obtain more where "full_batches n [] rest = (more, left_over)"
      and "batches = make_batch (buffer @ [ref]) s # more" using 2(3) by (auto split: prod.splits)
    then show ?thesis using 2(1) [OF True] 2(4) True by (simp add: make_batch_def)
  next
    case False
    then show ?thesis using 2(2) [OF False] 2(3) by simp
  qed
qed simp

text \<open>Without \<open>drop_last\<close> the batches of a pass that ends well hold what it delivers, in order.\<close>

lemma batches_hold_the_samples:
  assumes "loader_config_ok c" and "iter_samples env c epoch s = (out, None, s1)" and "\<not> lc_drop_last c"
  shows "concat (map ba_samples (fst (iter_batches env c epoch s))) = map fst out"
proof -
  obtain batches left_over where b: "full_batches (lc_batch_size c) [] out = (batches, left_over)" by fastforce
  then show ?thesis using assms full_batches_keep [OF b]
    by (auto simp: iter_batches_def loader_config_ok_def make_batch_def)
qed

subsection \<open>Examples, and what the loader does not keep\<close>

definition image_line :: "string \<Rightarrow> json" where
  "image_line sid = JObj [(''sample_id'', JStr sid), (''shard_id'', JStr ''a''),
     (''row'', JObj [(''image_path'', JStr sid)])]"

definition sample_loader_env :: "(json \<Rightarrow> bool) \<Rightarrow> loader_env" where
  "sample_loader_env resolves = \<lparr>lx_shard = sample_shard_env, lx_seed_hash = (\<lambda>_. 5), lx_next = (\<lambda>x. x + 1),
     lx_stable_hash = (\<lambda>t. int (length t)), lx_resolves = resolves, lx_decodable = (\<lambda>_. True),
     lx_config_hash = (\<lambda>_. ''c''), lx_digest = (\<lambda>_. ''h''), lx_manifest = Some two_rows,
     lx_files = [''a.jsonl'' \<mapsto> [image_line ''s1'', image_line ''s22'', image_line ''s3'']],
     lx_index = \<lparr>si_dataset_id = ''d'', si_dataset_version = ''1'', si_source_manifest_sha256 = ''h'',
       si_shard_config_hash = ''c'', si_total_samples = 3,
       si_shards = [\<lparr>sh_shard_id = ''a'', sh_ordinal = 0, sh_sample_count = 3, sh_approx_bytes = 0,
         sh_sha256 = ''x'', sh_path = ''a.jsonl''\<rparr>]\<rparr>\<rparr>"

definition sample_loader_config :: "int \<Rightarrow> loader_config" where
  "sample_loader_config world_size = \<lparr>lc_dataset_id = ''d'', lc_dataset_version = ''1'', lc_split = ''train'',
     lc_global_seed = 1, lc_shuffle_mode = ShuffleNone, lc_buffer_size = 1, lc_batch_size = 2, lc_drop_last = False,
     lc_workers = \<lparr>wk_world_size = world_size, wk_rank = 0, wk_num_workers = 1, wk_worker_id = 0\<rparr>,
     lc_validation_mode = ValidationLight, lc_bad_sample_policy = SkipAndRecord, lc_trace_mode = TraceNone\<rparr>"

abbreviation all_there :: loader_env where
  "all_there \<equiv> sample_loader_env (\<lambda>_. True)"

abbreviation one_worker :: loader_config where
  "one_worker \<equiv> sample_loader_config 1"

definition fresh_loader :: loader_state where
  "fresh_loader = \<lparr>ls_epoch = 0, ls_shard_position = 0, ls_sample_position = 0, ls_yielded = 0, ls_delivered = [],
     ls_identity = None, ls_stats = \<lparr>st_samples_read = 0, st_samples_yielded = 0, st_samples_skipped = 0,
       st_rejected = []\<rparr>\<rparr>"

lemma fresh_loader_new: "new_loader all_there (sample_loader_config k) = Inr fresh_loader"
  by (simp add: new_loader_def sample_loader_env_def sample_loader_config_def fresh_loader_def)

definition sample_pass :: "deliveries \<times> loader_error option \<times> loader_state" where
  "sample_pass = iter_samples all_there one_worker None fresh_loader"

lemma sample_pass_ids: "map (\<lambda>(ref, s). sr_sample_id ref) (fst sample_pass) = [''s1'', ''s22'', ''s3'']"
  by code_simp

lemma sample_pass_ok: "fst (snd sample_pass) = None"
  by code_simp

lemma sample_open: "snd (open_loader all_there (sample_loader_config 1) fresh_loader) = Inr \<lparr>mi_dataset_id = ''d'',
    mi_dataset_version = ''1'', mi_manifest_sha256 = ''h'', mi_row_count = 2, mi_split = ''train''\<rparr>"
  by code_simp

lemma resume_continues_witness:
  "case restore all_there one_worker (get_cursor all_there one_worker (snd (fst sample_pass ! 1))) fresh_loader of
     (r, answer) \<Rightarrow> answer = Inr ()
       \<and> map sr_sample_id (map fst (fst (iter_samples all_there one_worker None r))) = [''s3'']"
proof -
  obtain out err s_end where p: "sample_pass = (out, err, s_end)" using prod_cases3 by blast
  obtain r answer where r: "restore all_there one_worker (get_cursor all_there one_worker (snd (out ! 1))) fresh_loader = (r, answer)"
    by fastforce
  obtain out' err' r_end where i: "iter_samples all_there one_worker None r = (out', err', r_end)" using prod_cases3 by blast
  have ids: "map sr_sample_id (map fst out) = [''s1'', ''s22'', ''s3'']" and "err = None"
    using sample_pass_ids sample_pass_ok unfolding p by (simp_all add: case_prod_unfold comp_def)
  then have "length out = 3" by (metis length_map length_Cons list.size(3) numeral_3_eq_3)
  have pass: "iter_samples all_there one_worker None fresh_loader = (out, None, s_end)"
    using p \<open>err = None\<close> by (simp add: sample_pass_def)
  have "ls_identity fresh_loader \<in> {None, Some \<lparr>mi_dataset_id = ''d'',
    mi_dataset_version = ''1'', mi_manifest_sha256 = ''h'', mi_row_count = 2, mi_split = ''train''\<rparr>}"
    by (simp add: fresh_loader_def)
  from resume_continues [OF fresh_loader_new sample_open this pass _ r i] \<open>length out = 3\<close>
  have "answer = Inr ()" and "map fst out' = drop 2 (map fst out)" by (simp_all add: numeral_2_eq_2)
  then have "map sr_sample_id (map fst out') = drop 2 (map sr_sample_id (map fst out))" by (simp only: drop_map)
  then show ?thesis unfolding p using r i ids \<open>answer = Inr ()\<close> by simp
qed


lemma workers_share_the_epoch_witness:
  "sum_list (map (\<lambda>(r, w). mset (map fst (fst (iter_samples all_there (as_worker (sample_loader_config 2) r w)
      (Some 0) fresh_loader)))) (List.product [0..<2] [0..<1]))
    = mset (concat (map (file_refs all_there (sample_loader_config 2)) [''a'']))"
proof -
  have "snd (open_loader all_there (sample_loader_config 2) fresh_loader) = Inr \<lparr>mi_dataset_id = ''d'',
    mi_dataset_version = ''1'', mi_manifest_sha256 = ''h'', mi_row_count = 2, mi_split = ''train''\<rparr>"
    by code_simp
  moreover have "loader_config_ok (sample_loader_config 2)" by code_simp
  moreover have "wk_world_size (lc_workers (sample_loader_config 2)) = int 2"
    "wk_num_workers (lc_workers (sample_loader_config 2)) = int 1" by (simp_all add: sample_loader_config_def)
  moreover have ids: "map sh_shard_id (si_shards (lx_index all_there)) = [''a'']" by code_simp
  moreover have "list_all (readable all_there (sample_loader_config 2)) [''a'']" by code_simp
  ultimately show ?thesis
    using workers_share_the_epoch [OF fresh_loader_new, of 2 _ 2 1 0] unfolding ids by blast
qed

text \<open>
  A position counts the valid samples, so it depends on the files: when the image of \<open>s1\<close> has gone since the
  cursor was taken after \<open>s22\<close>, the resumed pass loses \<open>s3\<close>.
\<close>

lemma vanished_image_loses_sample:
  "let c = get_cursor all_there one_worker (snd (fst sample_pass ! 1));
       without_s1 = sample_loader_env (\<lambda>p. p \<noteq> JStr ''s1'');
       r = fst (restore without_s1 one_worker c fresh_loader)
   in map (\<lambda>(ref, s). sr_sample_id ref) (fst (iter_samples without_s1 one_worker None fresh_loader)) = [''s22'', ''s3'']
     \<and> snd (restore without_s1 one_worker c fresh_loader) = Inr ()
     \<and> fst (iter_samples without_s1 one_worker None r) = []"
  by code_simp

text \<open>The last batch of a pass, when it is not full, is made after the epoch has been advanced.\<close>

lemma last_batch_epoch:
  assumes "loader_config_ok c" and "iter_samples env c epoch s = (out, None, s1)" and "\<not> lc_drop_last c"
    and "fst (iter_batches env c epoch s) = batches @ [b]" and "ba_size b < lc_batch_size c"
  shows "ba_epoch b = ls_epoch s1"
proof -
  obtain full left_over where f: "full_batches (lc_batch_size c) [] out = (full, left_over)" by fastforce
  have "list_all (\<lambda>b. ba_size b = lc_batch_size c) full"
    using full_batches_keep [OF f] assms(1) by (simp add: loader_config_ok_def)
  moreover have "batches @ [b] = full @ (if left_over \<noteq> [] then [make_batch left_over s1] else [])"
    using assms(2-4) f by (simp add: iter_batches_def)
  ultimately show ?thesis using assms(5)
    by (cases "left_over = []") (auto simp: make_batch_def list_all_iff)
qed

lemma last_batch_of_next_epoch: "map ba_epoch (fst (iter_batches all_there one_worker None fresh_loader)) = [0, 1]"
  by code_simp

text \<open>A changed manifest is refused once; the second \<open>open\<close> answers with its identity.\<close>

lemma mismatch_is_forgotten:
  assumes "open_loader env c s = (s1, Inl (ResumeError ''Manifest hash changed since sharding''))"
  shows "\<exists>ident. open_loader env c s1 = (s1, Inr ident)
    \<and> mi_manifest_sha256 ident \<noteq> si_source_manifest_sha256 (lx_index env)"
  using assms by (auto simp: open_loader_def Let_def split: option.split_asm sum.split_asm if_split_asm)

text \<open>An epoch manager around a restored loader starts epoch 0 again.\<close>

lemma epoch_manager_restarts:
  assumes "ls_epoch r \<noteq> 0"
  shows "iter_epoch env c None (0, r)
    = iter_epoch env c None (0, r\<lparr>ls_epoch := 0, ls_shard_position := 0, ls_sample_position := 0\<rparr>)"
  using assms by (simp add: iter_epoch_def iter_samples_def)

end
