(* ===== verification/Near_Duplicates.thy ===== *)
theory Near_Duplicates
  imports Json_Text Py_Text "HOL-Library.Word"
begin

text \<open>
  Candidates for near duplicates (\<open>clouda_data/quality/near_index.py\<close> for images and \<open>text_dup.py\<close> for
  texts): both cut a signature into bands, collect the samples that agree on a band in buckets, pass over
  buckets that are too big and compare only pairs from one bucket. The locale \<open>banded_search\<close> is what
  the two searches have in common. Fingerprints of images are given; a hexadecimal text of 16 digits is the
  word it denotes. Of texts the normalized form and the two BLAKE2b hashes are arguments.
\<close>

unbundle bit_operations_syntax

subsection \<open>Buckets\<close>

text \<open>\<open>buckets.setdefault(key, []).append(x)\<close>.\<close>

fun append_at :: "'k \<Rightarrow> 'x \<Rightarrow> ('k \<times> 'x list) list \<Rightarrow> ('k \<times> 'x list) list" where
  "append_at k x [] = [(k, [x])]"
| "append_at k x ((k', xs) # b) = (if k = k' then (k', xs @ [x]) # b else (k', xs) # append_at k x b)"

definition bucketed :: "('x \<Rightarrow> 'k) \<Rightarrow> ('x \<Rightarrow> 'n) \<Rightarrow> 'x list \<Rightarrow> ('k \<times> 'n list) list" where
  "bucketed key name xs = fold (\<lambda>x. append_at (key x) (name x)) xs []"

text \<open>\<open>combinations(xs, 2)\<close>.\<close>

fun pairs_of :: "'x list \<Rightarrow> ('x \<times> 'x) list" where
  "pairs_of [] = []"
| "pairs_of (x # xs) = map (Pair x) xs @ pairs_of xs"

lemma append_at_map:
  "distinct (map fst b) \<Longrightarrow> append_at k x b =
    (if k \<in> fst ` set b then map (\<lambda>(k', xs). (k', if k' = k then xs @ [x] else xs)) b else b @ [(k, [x])])"
proof (induction k x b rule: append_at.induct)
  case (2 k x k' xs b)
  have "map (\<lambda>(k', xs). (k', if k' = k then xs @ [x] else xs)) b = b" if "k \<notin> fst ` set b"
    using that by (intro map_idI) force
  then show ?case using 2 by auto
qed simp

lemma keys_append_at: "map fst (append_at k x b) = (if k \<in> fst ` set b then map fst b else map fst b @ [k])"
  by (induction k x b rule: append_at.induct) auto

lemma bucketed_buckets:
  "distinct (map fst (bucketed key name xs))
    \<and> set (bucketed key name xs) = (\<lambda>x. (key x, map name (filter (\<lambda>z. key z = key x) xs))) ` set xs"
proof (induction xs rule: rev_induct)
  case (snoc y xs)
  let ?b = "bucketed key name xs"
  have b: "bucketed key name (xs @ [y]) = append_at (key y) (name y) ?b" by (simp add: bucketed_def)
  have keys: "fst ` set ?b = key ` set xs" using snoc by (simp add: image_image)
  have "set (append_at (key y) (name y) ?b)
      = (\<lambda>x. (key x, map name (filter (\<lambda>z. key z = key x) (xs @ [y])))) ` set (xs @ [y])"
  proof (cases "key y \<in> key ` set xs")
    case True
    then obtain x where "x \<in> set xs" "key y = key x" by auto
    then show ?thesis using True snoc keys by (force simp: append_at_map image_image)
  next
    case False
    then have ne: "key x \<noteq> key y" if "x \<in> set xs" for x using that by (metis imageI)
    then have none: "filter (\<lambda>z. key z = key y) xs = []" by (simp add: filter_empty_conv)
    have "(\<lambda>x. (key x, map name (filter (\<lambda>z. key z = key x) (xs @ [y])))) ` set xs
        = (\<lambda>x. (key x, map name (filter (\<lambda>z. key z = key x) xs))) ` set xs"
      by (rule image_cong [OF refl]) (use ne in \<open>auto dest: sym\<close>)
    then show ?thesis using False snoc keys none by (simp add: append_at_map)
  qed
  then show ?case using snoc keys by (simp add: b keys_append_at)
qed (simp add: bucketed_def)

lemma pairs_of_sorted:
  fixes xs :: "'x::linorder list"
  assumes "distinct xs"
  shows "set (pairs_of (sort xs)) = {(a, b). a \<in> set xs \<and> b \<in> set xs \<and> a < b}"
proof -
  have "set (pairs_of ys) = {(a, b). a \<in> set ys \<and> b \<in> set ys \<and> a < b}" if "sorted_wrt (<) ys" for ys :: "'x list"
    using that by (induction ys) auto
  moreover have "sorted_wrt (<) (sort xs)" using assms by (simp add: strict_sorted_iff)
  ultimately show ?thesis by simp
qed

text \<open>The pairs from the buckets that are not too big.\<close>

lemma bucket_pairs:
  fixes name :: "'x \<Rightarrow> 'n::linorder"
  assumes "distinct (map name xs)"
  shows "(\<Union>(k, members)\<in>set (bucketed key name xs). if big (length members) then {} else set (pairs_of (sort members)))
    = {(name x, name y) | x y. x \<in> set xs \<and> y \<in> set xs \<and> name x < name y \<and> key x = key y
        \<and> \<not> big (length (filter (\<lambda>z. key z = key x) xs))}" (is "?found = ?pairs")
proof -
  let ?bucket = "\<lambda>x. map name (filter (\<lambda>z. key z = key x) xs)"
  have sorted: "set (pairs_of (sort (?bucket x))) = {(a, b). a \<in> set (?bucket x) \<and> b \<in> set (?bucket x) \<and> a < b}" for x
    using assms by (intro pairs_of_sorted) (simp add: distinct_map_filter)
  have found: "?found = (\<Union>x\<in>set xs. if big (length (?bucket x)) then {} else set (pairs_of (sort (?bucket x))))"
    by (simp add: bucketed_buckets)
  show ?thesis unfolding found
  proof (intro subset_antisym subsetI)
    fix p assume "p \<in> (\<Union>x\<in>set xs. if big (length (?bucket x)) then {} else set (pairs_of (sort (?bucket x))))"
    then obtain x a b where "\<not> big (length (?bucket x))" "p = (name a, name b)" "a \<in> set xs" "b \<in> set xs"
      "key a = key x" "key b = key x" "name a < name b"
      unfolding sorted by (auto split: if_split_asm)
    then show "p \<in> ?pairs" unfolding mem_Collect_eq by (intro exI [of _ a] exI [of _ b]) simp
  next
    fix p assume "p \<in> ?pairs"
    then obtain a b where "p = (name a, name b)" "a \<in> set xs" "b \<in> set xs" "name a < name b" "key a = key b"
      "\<not> big (length (?bucket a))" by auto
    then show "p \<in> (\<Union>x\<in>set xs. if big (length (?bucket x)) then {} else set (pairs_of (sort (?bucket x))))"
      unfolding sorted by (intro UN_I [of a]) auto
  qed
qed

lemma banded_Suc:
  "{(name x, name y) | x y. x \<in> set xs \<and> y \<in> set xs \<and> name x < name y \<and> (\<exists>b<Suc n. Q b x y)}
    = {(name x, name y) | x y. x \<in> set xs \<and> y \<in> set xs \<and> name x < name y \<and> (\<exists>b<n. Q b x y)}
      \<union> {(name x, name y) | x y. x \<in> set xs \<and> y \<in> set xs \<and> name x < name y \<and> Q n x y}"
  by (auto simp: less_Suc_eq)

subsection \<open>The contract of a banded search\<close>

locale banded_search =
  fixes bands :: nat
    and key :: "nat \<Rightarrow> 'x \<Rightarrow> 'k"
    and too_big :: "nat \<Rightarrow> bool"
    and name :: "'x \<Rightarrow> string"
    and pairs :: "'x list \<Rightarrow> (string \<times> string) set"
  assumes pairs_iff: "distinct (map name xs) \<Longrightarrow> pairs xs =
    {(name x, name y) | x y. x \<in> set xs \<and> y \<in> set xs \<and> name x < name y
      \<and> (\<exists>b<bands. key b x = key b y \<and> \<not> too_big (length (filter (\<lambda>z. key b z = key b x) xs)))}"
begin

lemma ordered: "distinct (map name xs) \<Longrightarrow> (a, b) \<in> pairs xs \<Longrightarrow> a < b \<and> a \<in> name ` set xs \<and> b \<in> name ` set xs"
  using pairs_iff by auto

lemma found:
  assumes "distinct (map name xs)" and "x \<in> set xs" and "y \<in> set xs" and "x \<noteq> y"
    and "k < bands" and "key k x = key k y" and "\<not> too_big (length (filter (\<lambda>z. key k z = key k x) xs))"
  shows "(min (name x) (name y), max (name x) (name y)) \<in> pairs xs"
proof -
  have "name x \<noteq> name y" using assms(1-4) by (metis distinct_map inj_onD)
  then consider "name x < name y" | "name y < name x" by fastforce
  then show ?thesis
  proof cases
    case 1
    then have "(name x, name y) \<in> pairs xs" unfolding pairs_iff [OF assms(1)] using assms by blast
    then show ?thesis using less_imp_le [OF 1] by (simp add: min_absorb1 max_absorb2)
  next
    case 2
    have "length (filter (\<lambda>z. key k z = key k y) xs) = length (filter (\<lambda>z. key k z = key k x) xs)"
      using assms(6) by simp
    then have "(name y, name x) \<in> pairs xs" unfolding pairs_iff [OF assms(1)] using assms 2 by fastforce
    then show ?thesis using less_imp_le [OF 2] by (simp add: min_absorb2 max_absorb1)
  qed
qed

lemma shares_band: "distinct (map name xs) \<Longrightarrow> (name x, name y) \<in> pairs xs \<Longrightarrow> x \<in> set xs \<Longrightarrow> y \<in> set xs \<Longrightarrow>
    \<exists>b<bands. key b x = key b y"
  unfolding pairs_iff by (auto simp: distinct_map dest: inj_onD)

end

subsection \<open>Fingerprints of images\<close>

record fingerprint =
  fp_sample_id :: string
  fp_ahash :: "64 word"
  fp_dhash :: "64 word"
  fp_phash :: "64 word"
  fp_aspect_bucket :: string
  fp_blankish :: bool

definition CONFIRMED_P_MAX :: nat where "CONFIRMED_P_MAX = 8"

definition CONFIRMED_D_MAX :: nat where "CONFIRMED_D_MAX = 10"

definition CONFIRMED_A_MAX :: nat where "CONFIRMED_A_MAX = 10"

definition LIKELY_P_MAX :: nat where "LIKELY_P_MAX = 12"

definition LSH_BANDS :: nat where "LSH_BANDS = 12"

datatype near_level = NearCandidate | LikelyDuplicate | ConfirmedNearDuplicate

text \<open>\<open>(a ^ b).bit_count()\<close>.\<close>

definition hamming :: "64 word \<Rightarrow> 64 word \<Rightarrow> nat" where
  "hamming v w = length (filter (\<lambda>n. bit (v XOR w) n) [0..<64])"

definition concat_int :: "fingerprint \<Rightarrow> 192 word" where
  "concat_int fp = push_bit 128 (ucast (fp_phash fp)) OR push_bit 64 (ucast (fp_dhash fp)) OR ucast (fp_ahash fp)"

definition band_key :: "192 word \<Rightarrow> nat \<Rightarrow> 192 word" where
  "band_key c band = drop_bit (band * 16) c AND mask 16"

definition classify :: "nat \<Rightarrow> nat \<Rightarrow> nat \<Rightarrow> near_level" where
  "classify d_p d_d d_a =
     (if d_p \<le> CONFIRMED_P_MAX \<and> d_d \<le> CONFIRMED_D_MAX \<and> d_a \<le> CONFIRMED_A_MAX then ConfirmedNearDuplicate
      else if d_p \<le> LIKELY_P_MAX then LikelyDuplicate else NearCandidate)"

record near_candidate =
  nc_sample_id_a :: string
  nc_sample_id_b :: string
  nc_level :: near_level
  nc_distances :: "nat \<times> nat \<times> nat"

record candidate_summary =
  cs_indexed :: nat
  cs_overflowed_buckets :: "string list"
  cs_overflowed_entries :: nat
  cs_pairs_before_dedupe :: nat
  cs_adjacent_pairs :: nat

subsection \<open>Candidates of images\<close>

record pair_stage =
  ps_pairs :: "(string \<times> string) set"
  ps_overflowed :: "(string \<times> nat) list"
  ps_before :: nat

definition image_key :: "nat \<Rightarrow> fingerprint \<Rightarrow> 192 word \<times> string" where
  "image_key band fp = (band_key (concat_int fp) band, fp_aspect_bucket fp)"

definition hex4 :: "192 word \<Rightarrow> string" where
  "hex4 k = map (\<lambda>i. hex_digit_char (unat k div 16 ^ i mod 16)) [3, 2, 1, 0]"

definition bucket_label :: "nat \<Rightarrow> 192 word \<times> string \<Rightarrow> string" where
  "bucket_label band k = ''band_'' @ nat_text band @ '':bucket_'' @ hex4 (fst k) @ '':'' @ snd k"

definition take_bucket :: "nat \<Rightarrow> nat \<Rightarrow> (192 word \<times> string) \<times> string list \<Rightarrow> pair_stage \<Rightarrow> pair_stage" where
  "take_bucket max_bucket band kb s =
     (case kb of (k, members) \<Rightarrow>
        if max_bucket \<le> length members
        then s\<lparr>ps_overflowed := ps_overflowed s @ [(bucket_label band k, length members)]\<rparr>
        else s\<lparr>ps_pairs := ps_pairs s \<union> set (pairs_of (sort members)),
               ps_before := ps_before s + length (pairs_of (sort members))\<rparr>)"

definition take_band :: "nat \<Rightarrow> fingerprint list \<Rightarrow> nat \<Rightarrow> pair_stage \<Rightarrow> pair_stage" where
  "take_band max_bucket fps band s =
     fold (take_bucket max_bucket band) (sort_key fst (bucketed (image_key band) fp_sample_id fps)) s"

definition band_pairs :: "nat \<Rightarrow> fingerprint list \<Rightarrow> pair_stage" where
  "band_pairs max_bucket fps =
     fold (take_band max_bucket fps) [0..<LSH_BANDS] \<lparr>ps_pairs = {}, ps_overflowed = [], ps_before = 0\<rparr>"

text \<open>The pages of a document next to each other; \<open>page_meta\<close> has the items of the dictionary.\<close>

type_synonym page_meta = "(string \<times> string \<times> int) list"

definition adjacent_of :: "(int \<times> string) list \<Rightarrow> (string \<times> string) list" where
  "adjacent_of entries =
     map (\<lambda>((i, a), (j, b)). (min a b, max a b)) (filter (\<lambda>((i, a), (j, b)). j - i = 1) (zip entries (tl entries)))"

definition pages_by_document :: "string list \<Rightarrow> page_meta \<Rightarrow> (string \<times> (int \<times> string) list) list" where
  "pages_by_document ids page_meta =
     bucketed (\<lambda>(sid, doc, i). doc) (\<lambda>(sid, doc, i). (i, sid))
       (filter (\<lambda>(sid, doc, i). sid \<in> set ids) (sort page_meta))"

definition adjacent_pairs :: "string list \<Rightarrow> page_meta \<Rightarrow> (string \<times> string) list" where
  "adjacent_pairs ids page_meta =
     concat (map (\<lambda>(doc, entries). adjacent_of (sort entries)) (sort_key fst (pages_by_document ids page_meta)))"

definition add_adjacent :: "string \<times> string \<Rightarrow> (string \<times> string) set \<times> nat \<Rightarrow> (string \<times> string) set \<times> nat" where
  "add_adjacent pair s = (insert pair (fst s), if pair \<in> fst s then snd s else snd s + 1)"

definition fingerprint_of :: "fingerprint list \<Rightarrow> string \<Rightarrow> fingerprint" where
  "fingerprint_of fps sid = the (map_of (map (\<lambda>fp. (fp_sample_id fp, fp)) (List.rev fps)) sid)"

definition near_candidate_of :: "fingerprint list \<Rightarrow> string \<times> string \<Rightarrow> near_candidate" where
  "near_candidate_of fps ab =
     (let a = fingerprint_of fps (fst ab); b = fingerprint_of fps (snd ab);
          d_p = hamming (fp_phash a) (fp_phash b); d_d = hamming (fp_dhash a) (fp_dhash b);
          d_a = hamming (fp_ahash a) (fp_ahash b)
      in \<lparr>nc_sample_id_a = fst ab, nc_sample_id_b = snd ab, nc_level = classify d_p d_d d_a,
          nc_distances = (d_p, d_d, d_a)\<rparr>)"

definition candidate_pairs ::
  "nat \<Rightarrow> fingerprint list \<Rightarrow> page_meta \<Rightarrow> near_candidate list \<times> candidate_summary" where
  "candidate_pairs max_bucket fingerprints page_meta =
     (let fps = sort_key fp_sample_id (filter (\<lambda>fp. \<not> fp_blankish fp) fingerprints);
          s = band_pairs max_bucket fps;
          (pair_ids, adjacent) =
            fold add_adjacent (adjacent_pairs (map fp_sample_id fps) page_meta) (ps_pairs s, 0)
      in (map (near_candidate_of fps) (sorted_list_of_set pair_ids),
          \<lparr>cs_indexed = length fps, cs_overflowed_buckets = map fst (sort (ps_overflowed s)),
           cs_overflowed_entries = sum_list (map snd (ps_overflowed s)), cs_pairs_before_dedupe = ps_before s,
           cs_adjacent_pairs = adjacent\<rparr>))"

subsection \<open>The search in images meets the contract\<close>

lemma take_buckets:
  "ps_pairs (fold (take_bucket m band) bs s)
    = ps_pairs s \<union> (\<Union>(k, members)\<in>set bs. if m \<le> length members then {} else set (pairs_of (sort members)))"
  "ps_overflowed (fold (take_bucket m band) bs s) = ps_overflowed s
    @ map (\<lambda>(k, members). (bucket_label band k, length members)) (filter (\<lambda>(k, members). m \<le> length members) bs)"
  by (induction bs arbitrary: s) (auto simp: take_bucket_def)

lemma take_band_pairs:
  assumes "distinct (map fp_sample_id fps)"
  shows "ps_pairs (take_band m fps band s) = ps_pairs s \<union>
    {(fp_sample_id x, fp_sample_id y) | x y. x \<in> set fps \<and> y \<in> set fps \<and> fp_sample_id x < fp_sample_id y
      \<and> image_key band x = image_key band y
      \<and> \<not> m \<le> length (filter (\<lambda>z. image_key band z = image_key band x) fps)}"
  unfolding take_band_def take_buckets set_sort bucket_pairs [OF assms, of "\<lambda>n. m \<le> n" "image_key band", symmetric] ..

lemma band_pairs_pairs:
  assumes "distinct (map fp_sample_id fps)"
  shows "ps_pairs (band_pairs m fps) =
    {(fp_sample_id x, fp_sample_id y) | x y. x \<in> set fps \<and> y \<in> set fps \<and> fp_sample_id x < fp_sample_id y
      \<and> (\<exists>b<LSH_BANDS. image_key b x = image_key b y
        \<and> \<not> m \<le> length (filter (\<lambda>z. image_key b z = image_key b x) fps))}"
proof -
  have "ps_pairs (fold (take_band m fps) [0..<n] s) = ps_pairs s \<union>
    {(fp_sample_id x, fp_sample_id y) | x y. x \<in> set fps \<and> y \<in> set fps \<and> fp_sample_id x < fp_sample_id y
      \<and> (\<exists>b<n. image_key b x = image_key b y
        \<and> \<not> m \<le> length (filter (\<lambda>z. image_key b z = image_key b x) fps))}" for n s
    by (induction n) (simp_all add: take_band_pairs [OF assms] banded_Suc Un_assoc)
  then show ?thesis by (simp add: band_pairs_def)
qed

interpretation images: banded_search LSH_BANDS image_key "\<lambda>n. m \<le> n" fp_sample_id "\<lambda>fps. ps_pairs (band_pairs m fps)" for m
  by unfold_locales (rule band_pairs_pairs)

subsection \<open>Few different bits leave a band in common\<close>

lemma hamming_card: "hamming v w = card {n. n < 64 \<and> bit v n \<noteq> bit w n}"
proof -
  have "hamming v w = card (set (filter (\<lambda>n. bit (v XOR w) n) [0..<64]))"
    unfolding hamming_def by (rule distinct_card [symmetric]) simp
  also have "set (filter (\<lambda>n. bit (v XOR w) n) [0..<64]) = {n. n < 64 \<and> bit v n \<noteq> bit w n}"
    by (auto simp: bit_xor_iff)
  finally show ?thesis .
qed

lemma bit_concat_int:
  "n < 192 \<Longrightarrow> bit (concat_int fp) n \<longleftrightarrow>
    (if n < 64 then bit (fp_ahash fp) n else if n < 128 then bit (fp_dhash fp) (n - 64) else bit (fp_phash fp) (n - 128))"
  by (auto simp: concat_int_def bit_simps dest: bit_imp_le_length)

lemma bit_band_key: "bit (band_key c b) i \<longleftrightarrow> i < 16 \<and> bit c (b * 16 + i)"
  by (auto simp: band_key_def bit_simps ac_simps)

lemma different_bits:
  "card {n. n < 192 \<and> bit (concat_int x) n \<noteq> bit (concat_int y) n}
    \<le> hamming (fp_phash x) (fp_phash y) + hamming (fp_dhash x) (fp_dhash y) + hamming (fp_ahash x) (fp_ahash y)"
proof -
  let ?d = "\<lambda>f. {n. n < 64 \<and> bit (f x) n \<noteq> bit (f y) (n :: nat)} :: nat set"
  have fin: "finite (?d f)" for f :: "fingerprint \<Rightarrow> 64 word" by simp
  have "{n. n < 192 \<and> bit (concat_int x) n \<noteq> bit (concat_int y) n}
      \<subseteq> ?d fp_ahash \<union> (\<lambda>n. n + 64) ` ?d fp_dhash \<union> (\<lambda>n. n + 128) ` ?d fp_phash" (is "?all \<subseteq> ?parts")
  proof
    fix n assume n: "n \<in> ?all"
    then consider "n < 64" | "64 \<le> n" "n < 128" | "128 \<le> n" "n < 192" by force
    then show "n \<in> ?parts"
    proof cases
      case 2
      then have "n - 64 \<in> ?d fp_dhash" using n by (simp add: bit_concat_int)
      then show ?thesis using 2 by (intro UnI1 UnI2 image_eqI [of _ _ "n - 64"]) simp_all
    next
      case 3
      then have "n - 128 \<in> ?d fp_phash" using n by (simp add: bit_concat_int)
      then show ?thesis using 3 by (intro UnI2 image_eqI [of _ _ "n - 128"]) simp_all
    qed (use n in \<open>simp add: bit_concat_int\<close>)
  qed
  then have "card ?all \<le> card ?parts" by (intro card_mono) simp_all
  also have "\<dots> \<le> card (?d fp_ahash) + card ((\<lambda>n. n + 64) ` ?d fp_dhash) + card ((\<lambda>n. n + 128) ` ?d fp_phash)"
    using card_Un_le [of "?d fp_ahash \<union> (\<lambda>n. n + 64) ` ?d fp_dhash" "(\<lambda>n. n + 128) ` ?d fp_phash"]
      card_Un_le [of "?d fp_ahash" "(\<lambda>n. n + 64) ` ?d fp_dhash"] by linarith
  also have "\<dots> \<le> card (?d fp_ahash) + card (?d fp_dhash) + card (?d fp_phash)"
    by (intro add_mono card_image_le fin) simp
  finally show ?thesis by (simp add: hamming_card)
qed

lemma common_band:
  assumes "hamming (fp_phash x) (fp_phash y) + hamming (fp_dhash x) (fp_dhash y) + hamming (fp_ahash x) (fp_ahash y) < 12"
  shows "\<exists>b<LSH_BANDS. band_key (concat_int x) b = band_key (concat_int y) b"
proof (rule ccontr)
  let ?all = "{n. n < 192 \<and> bit (concat_int x) n \<noteq> bit (concat_int y) n}"
  assume "\<not> ?thesis"
  then have differ: "band_key (concat_int x) b \<noteq> band_key (concat_int y) b" if "b < 12" for b
    using that by (auto simp: LSH_BANDS_def)
  have "{0..<12} \<subseteq> (\<lambda>n. n div 16) ` ?all"
  proof
    fix b :: nat assume b: "b \<in> {0..<12}"
    then obtain i where "bit (band_key (concat_int x) b) i \<noteq> bit (band_key (concat_int y) b) i"
      using differ [of b] by (auto simp: bit_eq_iff)
    then have "i < 16" "bit (concat_int x) (b * 16 + i) \<noteq> bit (concat_int y) (b * 16 + i)"
      by (auto simp: bit_band_key)
    then show "b \<in> (\<lambda>n. n div 16) ` ?all" using b by (intro image_eqI [of _ _ "b * 16 + i"]) auto
  qed
  then have "card {0..<12 :: nat} \<le> card ((\<lambda>n. n div 16) ` ?all)" by (intro card_mono) simp_all
  also have "\<dots> \<le> card ?all" by (rule card_image_le) simp
  finally show False using different_bits [of x y] assms by simp
qed

subsection \<open>What the search in images finds\<close>

lemma take_band_overflow: "ps_overflowed (take_band m fps band s) = ps_overflowed s
    @ map (\<lambda>(k, members). (bucket_label band k, length members))
        (filter (\<lambda>(k, members). m \<le> length members) (sort_key fst (bucketed (image_key band) fp_sample_id fps)))"
  by (simp add: take_band_def take_buckets)

lemma band_overflow:
  "ps_overflowed (fold (take_band m fps) [0..<n] s) = [] \<Longrightarrow> b < n \<Longrightarrow> x \<in> set fps \<Longrightarrow>
    \<not> m \<le> length (filter (\<lambda>z. image_key b z = image_key b x) fps)"
proof (induction n)
  case (Suc n)
  let ?bs = "sort_key fst (bucketed (image_key n) fp_sample_id fps)"
  have "(image_key n x, map fp_sample_id (filter (\<lambda>z. image_key n z = image_key n x) fps)) \<in> set ?bs"
    using Suc.prems(3) by (auto simp: bucketed_buckets)
  moreover have "filter (\<lambda>(k, members). m \<le> length members) ?bs = []"
    using Suc.prems(1) by (simp add: take_band_overflow)
  ultimately have "\<not> m \<le> length (filter (\<lambda>z. image_key n z = image_key n x) fps)"
    unfolding filter_empty_conv by fastforce
  moreover have "ps_overflowed (fold (take_band m fps) [0..<n] s) = []"
    using Suc.prems(1) by (simp add: take_band_overflow)
  ultimately show ?case using Suc by (auto simp: less_Suc_eq)
qed simp

lemma fold_add_adjacent: "fst (fold add_adjacent xs s) = fst s \<union> set xs"
  by (induction xs arbitrary: s) (auto simp: add_adjacent_def)

lemma finite_band_pairs: "distinct (map fp_sample_id fps) \<Longrightarrow> finite (ps_pairs (band_pairs m fps))"
  by (rule finite_subset [of _ "fp_sample_id ` set fps \<times> fp_sample_id ` set fps"]) (auto dest: images.ordered)

definition indexed :: "fingerprint list \<Rightarrow> fingerprint list" where
  "indexed fingerprints = sort_key fp_sample_id (filter (\<lambda>fp. \<not> fp_blankish fp) fingerprints)"

lemma candidate_pairs_ids:
  "fst (candidate_pairs m fingerprints pm) = map (near_candidate_of (indexed fingerprints)) (sorted_list_of_set
      (ps_pairs (band_pairs m (indexed fingerprints)) \<union> set (adjacent_pairs (map fp_sample_id (indexed fingerprints)) pm)))"
  "cs_overflowed_buckets (snd (candidate_pairs m fingerprints pm))
    = map fst (sort (ps_overflowed (band_pairs m (indexed fingerprints))))"
  by (simp_all add: candidate_pairs_def Let_def case_prod_beta fold_add_adjacent flip: indexed_def)

lemma indexed_simps:
  assumes "distinct (map fp_sample_id fingerprints)"
  shows "distinct (map fp_sample_id (indexed fingerprints))"
    "set (indexed fingerprints) = {x \<in> set fingerprints. \<not> fp_blankish x}"
    "x \<in> set (indexed fingerprints) \<Longrightarrow> fingerprint_of (indexed fingerprints) (fp_sample_id x) = x"
proof -
  show d: "distinct (map fp_sample_id (indexed fingerprints))"
    using distinct_map_filter [OF assms, of "\<lambda>fp. \<not> fp_blankish fp"] by (simp add: indexed_def distinct_map)
  show "set (indexed fingerprints) = {x \<in> set fingerprints. \<not> fp_blankish x}" by (simp add: indexed_def)
  assume "x \<in> set (indexed fingerprints)"
  then have "map_of (map (\<lambda>fp. (fp_sample_id fp, fp)) (List.rev (indexed fingerprints))) (fp_sample_id x) = Some x"
    using d by (intro map_of_is_SomeI) (auto simp: comp_def rev_map [symmetric])
  then show "fingerprint_of (indexed fingerprints) (fp_sample_id x) = x" by (simp add: fingerprint_of_def)
qed

lemma hamming_commute: "hamming v w = hamming w v"
  unfolding hamming_def by (simp only: xor.commute)

text \<open>No bucket is passed over when there are fewer fingerprints than a bucket may hold.\<close>

lemma few_fingerprints_fit:
  assumes "length fingerprints < m"
  shows "cs_overflowed_buckets (snd (candidate_pairs m fingerprints pm)) = []"
proof -
  let ?fps = "indexed fingerprints"
  have "length ?fps \<le> length fingerprints" by (simp add: indexed_def)
  moreover have "length (filter P ?fps) \<le> length ?fps" for P by simp
  ultimately have "length (filter P ?fps) < m" for P using assms by (meson le_less_trans)
  then have "filter (\<lambda>(k, members). m \<le> length members) (sort_key fst (bucketed (image_key b) fp_sample_id ?fps)) = []" for b
    by (auto simp: filter_empty_conv bucketed_buckets not_le)
  then have "ps_overflowed (fold (take_band m ?fps) bs s) = ps_overflowed s" for bs s
    by (induction bs arbitrary: s) (simp_all add: take_band_overflow)
  then show ?thesis by (simp add: candidate_pairs_ids(2) band_pairs_def)
qed

lemma near_candidate_of_pair:
  assumes "distinct (map fp_sample_id fps)" and "x \<in> set (indexed fps)" and "y \<in> set (indexed fps)"
    and "ab = (min (fp_sample_id x) (fp_sample_id y), max (fp_sample_id x) (fp_sample_id y))"
  shows "{nc_sample_id_a (near_candidate_of (indexed fps) ab), nc_sample_id_b (near_candidate_of (indexed fps) ab)}
      = {fp_sample_id x, fp_sample_id y}
    \<and> nc_level (near_candidate_of (indexed fps) ab) = classify (hamming (fp_phash x) (fp_phash y))
        (hamming (fp_dhash x) (fp_dhash y)) (hamming (fp_ahash x) (fp_ahash y))"
proof -
  note of_id = indexed_simps(3) [OF assms(1,2)] indexed_simps(3) [OF assms(1,3)]
  show ?thesis
  proof (cases "fp_sample_id x \<le> fp_sample_id y")
    case True
    then have "ab = (fp_sample_id x, fp_sample_id y)" by (simp add: assms(4) min_absorb1 max_absorb2)
    then show ?thesis by (simp add: near_candidate_of_def Let_def of_id)
  next
    case False
    then have "ab = (fp_sample_id y, fp_sample_id x)" by (simp add: assms(4) min_absorb2 max_absorb1)
    then show ?thesis
      using hamming_commute [of "fp_phash y" "fp_phash x"] hamming_commute [of "fp_dhash y" "fp_dhash x"]
        hamming_commute [of "fp_ahash y" "fp_ahash x"]
      by (simp add: near_candidate_of_def Let_def of_id insert_commute)
  qed
qed

text \<open>
  C36. The search misses no near duplicate of its reach: two fingerprints of pages that are not blank, of the
  same aspect, that differ in fewer than 12 of their 192 bits agree on a band, so unless buckets were
  passed over they are reported, at least as likely duplicates, and as confirmed ones exactly when their
  distances are within the three limits.
\<close>

theorem near_pairs_are_found:
  assumes "distinct (map fp_sample_id fingerprints)" and "x \<in> set fingerprints" and "y \<in> set fingerprints"
    and "x \<noteq> y" and "\<not> fp_blankish x" and "\<not> fp_blankish y" and "fp_aspect_bucket x = fp_aspect_bucket y"
    and "hamming (fp_phash x) (fp_phash y) + hamming (fp_dhash x) (fp_dhash y) + hamming (fp_ahash x) (fp_ahash y) < 12"
    and "cs_overflowed_buckets (snd (candidate_pairs max_bucket fingerprints page_meta)) = []"
  shows "\<exists>c\<in>set (fst (candidate_pairs max_bucket fingerprints page_meta)).
    {nc_sample_id_a c, nc_sample_id_b c} = {fp_sample_id x, fp_sample_id y} \<and> nc_level c \<noteq> NearCandidate
    \<and> (nc_level c = ConfirmedNearDuplicate \<longleftrightarrow> hamming (fp_phash x) (fp_phash y) \<le> 8
        \<and> hamming (fp_dhash x) (fp_dhash y) \<le> 10 \<and> hamming (fp_ahash x) (fp_ahash y) \<le> 10)"
proof -
  let ?fps = "indexed fingerprints"
  let ?ab = "(min (fp_sample_id x) (fp_sample_id y), max (fp_sample_id x) (fp_sample_id y))"
  note d = indexed_simps(1) [OF assms(1)]
  have xy: "x \<in> set ?fps" "y \<in> set ?fps" using assms(2,3,5,6) by (simp_all add: indexed_simps(2) [OF assms(1)])
  obtain b where b: "b < LSH_BANDS" "band_key (concat_int x) b = band_key (concat_int y) b"
    using common_band [OF assms(8)] by blast
  have "ps_overflowed (band_pairs max_bucket ?fps) = []"
    using assms(9) by (simp add: candidate_pairs_ids(2) flip: length_0_conv)
  then have "\<not> max_bucket \<le> length (filter (\<lambda>z. image_key b z = image_key b x) ?fps)"
    unfolding band_pairs_def by (rule band_overflow [OF _ b(1) xy(1)])
  then have "?ab \<in> ps_pairs (band_pairs max_bucket ?fps)"
    using images.found [OF d xy assms(4) b(1)] b(2) assms(7) by (simp add: image_key_def)
  then have "near_candidate_of ?fps ?ab \<in> set (fst (candidate_pairs max_bucket fingerprints page_meta))"
    using finite_band_pairs [OF d] by (simp add: candidate_pairs_ids(1))
  then show ?thesis using near_candidate_of_pair [OF assms(1) xy refl] assms(8)
    by (intro bexI [of _ "near_candidate_of ?fps ?ab"])
      (simp_all add: classify_def CONFIRMED_P_MAX_def CONFIRMED_D_MAX_def CONFIRMED_A_MAX_def LIKELY_P_MAX_def)
qed

definition sample_fingerprint :: "string \<Rightarrow> 64 word \<Rightarrow> fingerprint" where
  "sample_fingerprint sid p = \<lparr>fp_sample_id = sid, fp_ahash = 0, fp_dhash = 0, fp_phash = p, fp_aspect_bucket = ''a'',
     fp_blankish = False\<rparr>"

lemma near_pairs_are_found_witness:
  "\<exists>c\<in>set (fst (candidate_pairs 5 [sample_fingerprint ''s1'' 0, sample_fingerprint ''s2'' 7] [])).
    {nc_sample_id_a c, nc_sample_id_b c} = {''s1'', ''s2''} \<and> nc_level c = ConfirmedNearDuplicate"
proof -
  let ?x = "sample_fingerprint ''s1'' 0" and ?y = "sample_fingerprint ''s2'' 7"
  have "hamming (fp_phash ?x) (fp_phash ?y) = 3 \<and> hamming (fp_dhash ?x) (fp_dhash ?y) = 0
    \<and> hamming (fp_ahash ?x) (fp_ahash ?y) = 0" by code_simp
  moreover have "cs_overflowed_buckets (snd (candidate_pairs 5 [?x, ?y] [])) = []"
    by (rule few_fingerprints_fit) simp
  ultimately show ?thesis using near_pairs_are_found [of "[?x, ?y]" ?x ?y 5 "[]"]
    by (auto simp: sample_fingerprint_def)
qed

text \<open>
  Only neighbours in the sorted list of pages are compared: of two samples of page 1 just the one that comes
  last is paired with page 2.
\<close>

lemma second_copy_of_page_unpaired:
  "adjacent_pairs [''a'', ''b'', ''c''] [(''a'', ''doc'', 1), (''b'', ''doc'', 1), (''c'', ''doc'', 2)] = [(''b'', ''c'')]"
  by code_simp

subsection \<open>Signatures of texts\<close>

text \<open>
  \<open>tx_normalized\<close> is the text after the normalization of \<open>DEDUPE_TEXT_POLICY\<close>; the first hash is BLAKE2b of
  a 4-gram, the second gives for the seed and an index the two numbers in a digest of 16 bytes.
\<close>

record text_hashes =
  th_shingle :: "code_points \<Rightarrow> nat"
  th_perm :: "nat \<Rightarrow> nat \<times> nat"

definition MINHASH_MERSENNE :: nat where "MINHASH_MERSENNE = 2 ^ 61 - 1"

definition NGRAM_SIZE :: nat where "NGRAM_SIZE = 4"

definition MIN_SIGNATURE_LENGTH :: nat where "MIN_SIGNATURE_LENGTH = 40"

definition char_ngrams :: "code_points \<Rightarrow> code_points list" where
  "char_ngrams t =
     (if length t < NGRAM_SIZE then []
      else map (\<lambda>i. take NGRAM_SIZE (drop i t)) [0..<length t - NGRAM_SIZE + 1])"

definition perm_params :: "text_hashes \<Rightarrow> nat \<Rightarrow> nat \<times> nat" where
  "perm_params h i =
     (let a = fst (th_perm h i) mod 2 ^ 64; b = snd (th_perm h i) mod 2 ^ 64
      in (if a mod MINHASH_MERSENNE = 0 then 1 else a mod MINHASH_MERSENNE, b mod MINHASH_MERSENNE))"

definition minhash_signature :: "text_hashes \<Rightarrow> nat \<Rightarrow> code_points \<Rightarrow> nat list option" where
  "minhash_signature h perms t =
     (if length t < MIN_SIGNATURE_LENGTH then None
      else
        let shingles = map (\<lambda>g. th_shingle h g mod 2 ^ 64) (char_ngrams t)
        in Some (map (\<lambda>i. case perm_params h i of (a, b) \<Rightarrow>
             min_list (map (\<lambda>x. (a * x + b) mod MINHASH_MERSENNE) shingles)) [0..<perms]))"

subsection \<open>Candidates of texts\<close>

text \<open>A band is keyed by its values; the code joins their decimal texts.\<close>

type_synonym signed_text = "string \<times> nat list"

definition text_key :: "nat \<Rightarrow> nat \<Rightarrow> signed_text \<Rightarrow> nat list" where
  "text_key rows band item = take rows (drop (band * rows) (snd item))"

definition take_text_bucket ::
  "nat \<Rightarrow> nat \<Rightarrow> nat list \<times> string list \<Rightarrow> (string \<times> string) set \<times> ((nat \<times> nat list) \<times> nat) list
    \<Rightarrow> (string \<times> string) set \<times> ((nat \<times> nat list) \<times> nat) list" where
  "take_text_bucket cap band kb s =
     (case kb of (k, members) \<Rightarrow>
        if cap < length members then (fst s, snd s @ [((band, k), length members)])
        else (fst s \<union> set (pairs_of (sort members)), snd s))"

definition band_text_pairs ::
  "nat \<Rightarrow> nat \<Rightarrow> nat \<Rightarrow> signed_text list \<Rightarrow> (string \<times> string) set \<times> ((nat \<times> nat list) \<times> nat) list" where
  "band_text_pairs bands rows cap sigs =
     fold (\<lambda>band. fold (take_text_bucket cap band) (bucketed (text_key rows band) fst sigs)) [0..<bands] ({}, [])"

text \<open>\<open>None\<close> is the \<open>ValueError\<close> for bands that do not fit; a signature of another width is passed over.\<close>

definition lsh_candidates ::
  "nat \<Rightarrow> nat \<Rightarrow> nat \<Rightarrow> signed_text list \<Rightarrow> ((string \<times> string) set \<times> ((nat \<times> nat list) \<times> nat) list) option" where
  "lsh_candidates bands rows cap sigs =
     (if bands * rows \<noteq> 128 then None
      else Some (band_text_pairs bands rows cap (filter (\<lambda>(sid, s). length s = bands * rows) sigs)))"

definition jaccard :: "code_points list \<Rightarrow> code_points list \<Rightarrow> pyfloat" where
  "jaccard a b =
     (if set a \<union> set b = {} then 0 else of_nat (card (set a \<inter> set b)) / of_nat (card (set a \<union> set b)))"

record text_classification =
  tc_near_text :: "(string \<times> string) list"
  tc_review :: "(string \<times> string) list"
  tc_skipped_ids :: "string list"

text \<open>\<open>texts\<close> has the items of the dictionary, its texts normalized.\<close>

definition signed_texts :: "text_hashes \<Rightarrow> (string \<times> code_points) list \<Rightarrow> signed_text list" where
  "signed_texts h texts =
     List.map_filter (\<lambda>(sid, t). map_option (Pair sid) (minhash_signature h 128 t)) (sort_key fst texts)"

definition pair_score :: "(string \<times> code_points) list \<Rightarrow> string \<times> string \<Rightarrow> pyfloat" where
  "pair_score texts ab =
     jaccard (char_ngrams (the (map_of texts (fst ab)))) (char_ngrams (the (map_of texts (snd ab))))"

definition classify_text_pairs ::
  "text_hashes \<Rightarrow> (string \<times> code_points) list \<Rightarrow> nat \<Rightarrow> nat \<Rightarrow> nat \<Rightarrow> pyfloat \<Rightarrow> pyfloat \<Rightarrow> text_classification option" where
  "classify_text_pairs h texts bands rows cap near_threshold review_low =
     (case lsh_candidates bands rows cap (signed_texts h texts) of
        None \<Rightarrow> None
      | Some (candidates, skipped) \<Rightarrow>
          let ordered = sorted_list_of_set candidates
          in Some \<lparr>tc_near_text = filter (\<lambda>ab. near_threshold \<le> pair_score texts ab) ordered,
               tc_review = filter (\<lambda>ab. \<not> near_threshold \<le> pair_score texts ab \<and> review_low \<le> pair_score texts ab) ordered,
               tc_skipped_ids = map fst (filter (\<lambda>(sid, t). minhash_signature h 128 t = None) (sort_key fst texts))\<rparr>)"

subsection \<open>The search in texts meets the contract\<close>

lemma take_text_buckets:
  "fst (fold (take_text_bucket cap band) bs s)
    = fst s \<union> (\<Union>(k, members)\<in>set bs. if cap < length members then {} else set (pairs_of (sort members)))"
  "snd (fold (take_text_bucket cap band) bs s)
    = snd s @ map (\<lambda>(k, members). ((band, k), length members)) (filter (\<lambda>(k, members). cap < length members) bs)"
  by (induction bs arbitrary: s) (auto simp: take_text_bucket_def)

lemma band_text_pairs_pairs:
  assumes "distinct (map fst sigs)"
  shows "fst (band_text_pairs bands rows cap sigs) =
    {(fst x, fst y) | x y. x \<in> set sigs \<and> y \<in> set sigs \<and> fst x < fst y
      \<and> (\<exists>b<bands. text_key rows b x = text_key rows b y
        \<and> \<not> cap < length (filter (\<lambda>z. text_key rows b z = text_key rows b x) sigs))}"
proof -
  have "fst (fold (\<lambda>band. fold (take_text_bucket cap band) (bucketed (text_key rows band) fst sigs)) [0..<n] s) = fst s \<union>
    {(fst x, fst y) | x y. x \<in> set sigs \<and> y \<in> set sigs \<and> fst x < fst y
      \<and> (\<exists>b<n. text_key rows b x = text_key rows b y
        \<and> \<not> cap < length (filter (\<lambda>z. text_key rows b z = text_key rows b x) sigs))}" for n s
    by (induction n) (simp_all add: take_text_buckets bucket_pairs [OF assms, of "\<lambda>n. cap < n"] banded_Suc Un_assoc
        del: split_paired_Ex)
  then show ?thesis by (simp add: band_text_pairs_def)
qed

interpretation texts: banded_search bands "text_key rows" "\<lambda>n. cap < n" fst
  "\<lambda>sigs. fst (band_text_pairs bands rows cap sigs)" for bands rows cap
  by unfold_locales (rule band_text_pairs_pairs)

lemma text_overflow:
  "snd (fold (\<lambda>band. fold (take_text_bucket cap band) (bucketed (text_key rows band) fst sigs)) [0..<n] s) = [] \<Longrightarrow> b < n \<Longrightarrow>
    x \<in> set sigs \<Longrightarrow> \<not> cap < length (filter (\<lambda>z. text_key rows b z = text_key rows b x) sigs)"
proof (induction n)
  case (Suc n)
  have "(text_key rows n x, map fst (filter (\<lambda>z. text_key rows n z = text_key rows n x) sigs))
      \<in> set (bucketed (text_key rows n) fst sigs)"
    using Suc.prems(3) by (auto simp: bucketed_buckets)
  moreover have "filter (\<lambda>(k, members). cap < length members) (bucketed (text_key rows n) fst sigs) = []"
    using Suc.prems(1) by (simp add: take_text_buckets)
  ultimately have "\<not> cap < length (filter (\<lambda>z. text_key rows n z = text_key rows n x) sigs)"
    unfolding filter_empty_conv by fastforce
  then show ?case using Suc by (auto simp: less_Suc_eq take_text_buckets)
qed simp

lemma finite_text_pairs: "distinct (map fst sigs) \<Longrightarrow> finite (fst (band_text_pairs bands rows cap sigs))"
  by (rule finite_subset [of _ "fst ` set sigs \<times> fst ` set sigs"]) (auto dest: texts.ordered)

subsection \<open>What the search in texts finds\<close>

lemma set_signed_texts: "set (signed_texts h texts) = {(sid, s). \<exists>t. (sid, t) \<in> set texts \<and> minhash_signature h 128 t = Some s}"
  by (force simp: signed_texts_def List.map_filter_def)

lemma distinct_signed_texts:
  assumes "distinct (map fst texts)"
  shows "distinct (map fst (signed_texts h texts))"
proof -
  have "map fst (signed_texts h texts) = map fst (filter (\<lambda>(sid, t). minhash_signature h 128 t \<noteq> None) (sort_key fst texts))"
    by (induction "sort_key fst texts") (auto simp: signed_texts_def List.map_filter_def case_prod_unfold comp_def)
  moreover have "distinct (map fst (sort_key fst texts))" using assms by (simp add: distinct_map)
  ultimately show ?thesis by (simp add: distinct_map_filter)
qed

lemma signature_width: "minhash_signature h n t = Some s \<Longrightarrow> length s = n"
  by (auto simp: minhash_signature_def Let_def split: if_split_asm)

lemma text_pair_classified:
  assumes "distinct (map fst texts)" and "(a, t) \<in> set texts" and "(b, u) \<in> set texts" and "a < b"
    and "minhash_signature h 128 t = Some s" and "minhash_signature h 128 u = Some v"
    and "k < bands" and "text_key rows k (a, s) = text_key rows k (b, v)"
    and "lsh_candidates bands rows cap (signed_texts h texts) = Some (candidates, [])"
    and "classify_text_pairs h texts bands rows cap near_threshold review_low = Some r"
  shows "((a, b) \<in> set (tc_near_text r) \<longleftrightarrow> near_threshold \<le> jaccard (char_ngrams t) (char_ngrams u))
    \<and> ((a, b) \<in> set (tc_review r) \<longleftrightarrow> jaccard (char_ngrams t) (char_ngrams u) < near_threshold
        \<and> review_low \<le> jaccard (char_ngrams t) (char_ngrams u))"
proof -
  have wide: "filter (\<lambda>(sid, s). length s = bands * rows) (signed_texts h texts) = signed_texts h texts"
    and width: "bands * rows = 128"
    using assms(9) by (auto simp: filter_id_conv set_signed_texts lsh_candidates_def dest: signature_width split: if_split_asm)
  then have c: "candidates = fst (band_text_pairs bands rows cap (signed_texts h texts))"
    and none: "snd (band_text_pairs bands rows cap (signed_texts h texts)) = []"
    using assms(9) by (simp_all add: lsh_candidates_def)
  note d = distinct_signed_texts [OF assms(1), of h]
  have mem: "(a, s) \<in> set (signed_texts h texts)" "(b, v) \<in> set (signed_texts h texts)"
    using assms(2,3,5,6) by (auto simp: set_signed_texts)
  have "\<not> cap < length (filter (\<lambda>z. text_key rows k z = text_key rows k (a, s)) (signed_texts h texts))"
    using none unfolding band_text_pairs_def by (rule text_overflow [OF _ assms(7) mem(1)])
  then have "(a, b) \<in> candidates"
    unfolding c using texts.found [OF d mem _ assms(7,8)] assms(4) by (auto simp: min_absorb1 max_absorb2 less_imp_le)
  moreover have "finite candidates" unfolding c by (rule finite_text_pairs [OF d])
  moreover have "pair_score texts (a, b) = jaccard (char_ngrams t) (char_ngrams u)"
    using assms(1-3) by (simp add: pair_score_def)
  ultimately show ?thesis using assms(9,10) by (auto simp: classify_text_pairs_def Let_def)
qed

lemma jaccard_self: "xs \<noteq> [] \<Longrightarrow> jaccard xs xs = 1"
  by (simp add: jaccard_def)

lemma ngrams_exist: "NGRAM_SIZE \<le> length t \<Longrightarrow> char_ngrams t \<noteq> []"
  by (simp add: char_ngrams_def)

text \<open>
  C37. Copies are near: two samples with the same normalized text of at least 40 characters are reported as near
  duplicates when no bucket was passed over, and whatever is reported has the similarity its list asks for.
\<close>

theorem copies_are_near:
  assumes "distinct (map fst texts)" and "(a, t) \<in> set texts" and "(b, t) \<in> set texts" and "a < b"
    and "40 \<le> length t" and "near_threshold \<le> 1"
    and "lsh_candidates bands rows cap (signed_texts h texts) = Some (candidates, [])"
    and "classify_text_pairs h texts bands rows cap near_threshold review_low = Some r"
  shows "(a, b) \<in> set (tc_near_text r) \<and> list_all (\<lambda>ab. near_threshold \<le> pair_score texts ab) (tc_near_text r)
    \<and> list_all (\<lambda>ab. review_low \<le> pair_score texts ab \<and> pair_score texts ab < near_threshold) (tc_review r)"
proof -
  obtain s where s: "minhash_signature h 128 t = Some s"
    using assms(5) by (auto simp: minhash_signature_def MIN_SIGNATURE_LENGTH_def)
  have "0 < bands" using assms(7) by (cases bands) (simp_all add: lsh_candidates_def)
  from text_pair_classified [OF assms(1-4) s s this _ assms(7,8)]
  have "(a, b) \<in> set (tc_near_text r) \<longleftrightarrow> near_threshold \<le> jaccard (char_ngrams t) (char_ngrams t)"
    by (simp add: text_key_def)
  moreover have "jaccard (char_ngrams t) (char_ngrams t) = 1"
    using assms(5) by (intro jaccard_self ngrams_exist) (simp add: NGRAM_SIZE_def)
  ultimately show ?thesis using assms(6,7,8) by (auto simp: classify_text_pairs_def Let_def list_all_iff)
qed

lemma few_texts_fit:
  assumes "length sigs \<le> cap" and "bands * rows = 128"
  shows "\<exists>candidates. lsh_candidates bands rows cap sigs = Some (candidates, [])"
proof -
  let ?sigs = "filter (\<lambda>(sid, s). length s = bands * rows) sigs"
  have "length (filter P ?sigs) \<le> cap" for P
    using order.trans [OF length_filter_le order.trans [OF length_filter_le assms(1)]] .
  then have "filter (\<lambda>(k, members). cap < length members) (bucketed (text_key rows b) fst ?sigs) = []" for b
    by (auto simp: filter_empty_conv bucketed_buckets not_less)
  then have "snd (fold (\<lambda>band. fold (take_text_bucket cap band) (bucketed (text_key rows band) fst ?sigs)) bs s) = snd s" for bs s
    by (induction bs arbitrary: s) (simp_all add: take_text_buckets)
  then have "snd (band_text_pairs bands rows cap ?sigs) = []" by (simp add: band_text_pairs_def)
  then show ?thesis using assms(2)
    by (intro exI [of _ "fst (band_text_pairs bands rows cap ?sigs)"]) (simp add: lsh_candidates_def prod_eq_iff)
qed

definition sample_hashes :: text_hashes where
  "sample_hashes = \<lparr>th_shingle = sum_list, th_perm = (\<lambda>i. (i, 1))\<rparr>"

definition two_copies :: "(string \<times> code_points) list" where
  "two_copies = [(''a'', replicate 40 7), (''b'', replicate 40 7)]"

lemma copies_are_near_witness:
  "case classify_text_pairs sample_hashes two_copies 16 8 20 (85 / 100) (7 / 10) of
     None \<Rightarrow> False | Some r \<Rightarrow> (''a'', ''b'') \<in> set (tc_near_text r)"
proof -
  have "length (signed_texts sample_hashes two_copies) \<le> length two_copies"
    by (simp add: signed_texts_def List.map_filter_def order.trans [OF length_filter_le])
  then obtain candidates where c: "lsh_candidates 16 8 20 (signed_texts sample_hashes two_copies) = Some (candidates, [])"
    using few_texts_fit [of "signed_texts sample_hashes two_copies" 20 16 8] by (auto simp: two_copies_def)
  then obtain r where "classify_text_pairs sample_hashes two_copies 16 8 20 (85 / 100) (7 / 10) = Some r"
    by (simp add: classify_text_pairs_def Let_def)
  with copies_are_near [OF _ _ _ _ _ _ c this, of "''a''" "replicate 40 7" "''b''"] show ?thesis
    by (simp add: two_copies_def)
qed

end
