(* ===== verification/Training_Runs.thy ===== *)
theory Training_Runs
  imports Training_Manifest Accuracy "HOL-Library.AList"
begin

text \<open>
  Training runs (\<open>clouda_training\<close>): the approval of models (\<open>adapters/approval.py\<close>), checkpoints
  (\<open>experiments/checkpoints.py\<close>), the deterministic trainer (\<open>trainer.py\<close>) and the life of a run
  (\<open>runs.py\<close>), without a data loader. A run is the contents of its directory; directories of checkpoints
  are ordered by their step, as their names of eight digits are. The trainer on torch, the validation of
  the dataset and of registered adapters, and what prepares a trainer are taken from outside; timestamps,
  epochs and splits of logged metrics, and the files written for the record only, are left out.
\<close>

subsection \<open>Approval of models\<close>

datatype run_error =
  ModelTrainingNotApproved string
| RunRuntimeError string
| RunValueError string
| RunImportError
| RunInterrupted
| RunOtherError string

datatype catalog_file = CatalogMissing | CatalogUnreadable | CatalogFile json

record training_approval =
  ta_revision :: string
  ta_license_id :: string
  ta_approved_by :: string
  ta_approved_at :: string

type_synonym approval_record = "(string \<times> json) list"

definition REQUIRED_RECORD_FIELDS :: "string list" where
  "REQUIRED_RECORD_FIELDS = [''adapter_type'', ''model_id'', ''revision'', ''approved'', ''license_id'', ''approved_by'',
     ''approved_at'']"

fun all_mappings :: "json list \<Rightarrow> approval_record list option" where
  "all_mappings [] = Some []"
| "all_mappings (JObj kvs # xs) = map_option (Cons kvs) (all_mappings xs)"
| "all_mappings _ = None"

text \<open>The version is compared with 1 as Python compares: a truth value or a float may be equal to it.\<close>

definition is_one :: "json \<Rightarrow> bool" where
  "is_one v = (case v of JInt n \<Rightarrow> n = 1 | JBool b \<Rightarrow> b | JFloat x \<Rightarrow> x = 1 | _ \<Rightarrow> False)"

definition load_approval_catalog :: "catalog_file \<Rightarrow> run_error + approval_record list" where
  "load_approval_catalog c =
     (case c of
        CatalogMissing \<Rightarrow> Inl (ModelTrainingNotApproved ''catalog not found'')
      | CatalogUnreadable \<Rightarrow> Inl (ModelTrainingNotApproved ''catalog is unreadable'')
      | CatalogFile (JObj payload) \<Rightarrow>
          if \<not> is_one (obj_get payload ''schema_version'')
          then Inl (ModelTrainingNotApproved ''unsupported schema_version'')
          else (case obj_get_or payload ''approvals'' (JList []) of
              JList xs \<Rightarrow> (case all_mappings xs of
                  Some records \<Rightarrow> Inr records
                | None \<Rightarrow> Inl (ModelTrainingNotApproved ''must carry a list of objects''))
            | _ \<Rightarrow> Inl (ModelTrainingNotApproved ''must carry a list of objects''))
      | CatalogFile _ \<Rightarrow> Inl (ModelTrainingNotApproved ''catalog must be an object''))"

definition record_complete :: "approval_record \<Rightarrow> bool" where
  "record_complete r = list_all (\<lambda>k. has_key k r) REQUIRED_RECORD_FIELDS"

definition record_matches :: "string \<Rightarrow> string \<Rightarrow> string \<Rightarrow> approval_record \<Rightarrow> bool" where
  "record_matches adapter model revision r \<longleftrightarrow>
     obj_get r ''adapter_type'' = JStr adapter \<and> obj_get r ''model_id'' = JStr model
     \<and> (obj_get r ''revision'' = JStr revision \<or> obj_get r ''revision'' = JStr ''*'')"

definition shown :: "text_fns \<Rightarrow> json \<Rightarrow> string" where
  "shown t v = (case v of JStr s \<Rightarrow> s | _ \<Rightarrow> tx_show t v)"

text \<open>The loop stops at the first record that misses a field.\<close>

definition get_training_approval ::
  "text_fns \<Rightarrow> catalog_file \<Rightarrow> string \<Rightarrow> string \<Rightarrow> string \<Rightarrow> run_error + training_approval option" where
  "get_training_approval t c adapter model revision =
     (case load_approval_catalog c of
        Inl err \<Rightarrow> Inl err
      | Inr records \<Rightarrow>
          if \<not> list_all record_complete records
          then Inl (ModelTrainingNotApproved ''record is missing required fields'')
          else
            let found = filter (record_matches adapter model revision) records
            in if found = [] \<or> list_ex (\<lambda>r. \<not> truthy (obj_get r ''approved'')) found then Inr None
               else
                 let r = hd found; license = tx_strip t (shown t (obj_get r ''license_id''))
                 in if license = [] then Inl (ModelTrainingNotApproved ''no license_id'')
                    else Inr (Some \<lparr>ta_revision = shown t (obj_get r ''revision''), ta_license_id = license,
                      ta_approved_by = shown t (obj_get r ''approved_by''),
                      ta_approved_at = shown t (obj_get r ''approved_at'')\<rparr>))"

definition require_training_approval ::
  "text_fns \<Rightarrow> catalog_file \<Rightarrow> string \<Rightarrow> string \<Rightarrow> string \<Rightarrow> run_error + training_approval" where
  "require_training_approval t c adapter model revision =
     (case get_training_approval t c adapter model revision of
        Inl err \<Rightarrow> Inl err
      | Inr None \<Rightarrow> Inl (ModelTrainingNotApproved ''not approved for training use'')
      | Inr (Some a) \<Rightarrow> Inr a)"

subsection \<open>Configuration\<close>

record experiment_config =
  ec_experiment_name :: string
  ec_model_id :: string
  ec_revision :: string
  ec_adapter_type :: string
  ec_dataset_id :: string
  ec_dataset_version :: string
  ec_sample_limit :: "nat option"
  ec_precision :: string
  ec_hash :: string
  ec_seed :: int
  ec_epochs :: nat
  ec_max_steps :: "nat option"
  ec_batch_size :: nat
  ec_gradient_accumulation_steps :: nat
  ec_learning_rate :: pyfloat
  ec_dry_run :: bool
  ec_offline :: bool
  ec_log_steps :: nat
  ec_save_strategy :: string
  ec_save_steps :: nat
  ec_save_total_limit :: nat
  ec_keep_best :: bool
  ec_metric_for_best :: string
  ec_greater_is_better :: bool
  ec_eval_enabled :: bool
  ec_eval_steps :: nat
  ec_eval_metrics :: "string list"

text \<open>What \<open>_validate\<close> demands of the numbers.\<close>

definition positive_config :: "experiment_config \<Rightarrow> bool" where
  "positive_config c \<longleftrightarrow> 1 \<le> ec_epochs c \<and> 1 \<le> ec_batch_size c \<and> 1 \<le> ec_gradient_accumulation_steps c
     \<and> (\<forall>n. ec_sample_limit c = Some n \<longrightarrow> 1 \<le> n) \<and> 1 \<le> ec_save_steps c \<and> 1 \<le> ec_save_total_limit c
     \<and> 1 \<le> ec_eval_steps c \<and> 1 \<le> ec_log_steps c \<and> (\<forall>n. ec_max_steps c = Some n \<longrightarrow> 1 \<le> n)
     \<and> ec_save_strategy c \<in> {''steps'', ''epoch'', ''none''} \<and> 0 < ec_learning_rate c"

subsection \<open>Checkpoints\<close>

type_synonym metrics = "(string \<times> pyfloat) list"

record checkpoint =
  ck_step :: nat
  ck_metrics :: metrics
  ck_identity :: "string list"
  ck_is_best :: bool

definition identity_of :: "experiment_config \<Rightarrow> string \<Rightarrow> string list" where
  "identity_of c run_id = [ec_experiment_name c, ec_model_id c, ec_revision c, ec_dataset_id c, ec_dataset_version c,
     ec_hash c, run_id]"

definition list_checkpoints :: "checkpoint list \<Rightarrow> checkpoint list" where
  "list_checkpoints cps = sort_key ck_step cps"

definition latest :: "checkpoint list \<Rightarrow> checkpoint option" where
  "latest cps = (if cps = [] then None else Some (last (list_checkpoints cps)))"

text \<open>\<open>max\<close> and \<open>min\<close> with a key return the first of equals.\<close>

fun first_best :: "('a \<Rightarrow> 'a \<Rightarrow> bool) \<Rightarrow> 'a list \<Rightarrow> 'a option" where
  "first_best better [] = None"
| "first_best better (x # xs) = Some (fold (\<lambda>y best. if better y best then y else best) xs x)"

definition metric_of :: "string \<Rightarrow> checkpoint \<Rightarrow> pyfloat" where
  "metric_of name cp = the (map_of (ck_metrics cp) name)"

definition best_checkpoint :: "experiment_config \<Rightarrow> checkpoint list \<Rightarrow> checkpoint option" where
  "best_checkpoint c items =
     (let name = ec_metric_for_best c;
          eligible = filter (\<lambda>cp. map_of (ck_metrics cp) name \<noteq> None) items
      in if \<not> ec_keep_best c then None
         else if ec_greater_is_better c then first_best (\<lambda>a b. metric_of name b < metric_of name a) eligible
         else first_best (\<lambda>a b. metric_of name a < metric_of name b) eligible)"

text \<open>\<open>_mark_best_and_retain\<close>; a checkpoint is named by its step.\<close>

definition mark_best_and_retain :: "experiment_config \<Rightarrow> checkpoint list \<Rightarrow> checkpoint list" where
  "mark_best_and_retain c cps =
     (let items = list_checkpoints cps;
          best = (case best_checkpoint c items of None \<Rightarrow> [] | Some b \<Rightarrow> [ck_step b]);
          marked = map (\<lambda>cp. cp\<lparr>ck_is_best := ck_step cp \<in> set best\<rparr>) items;
          remaining = ec_save_total_limit c - length best;
          newest = filter (\<lambda>s. s \<notin> set best) (map ck_step (List.rev items));
          keep = best @ take remaining newest
      in filter (\<lambda>cp. ck_step cp \<in> set keep) marked)"

text \<open>\<open>save\<close>: a checkpoint that has been removed again cannot be loaded.\<close>

definition find_checkpoint :: "nat \<Rightarrow> checkpoint list \<Rightarrow> checkpoint option" where
  "find_checkpoint step cps = List.find (\<lambda>cp. ck_step cp = step) cps"

definition save_checkpoint ::
  "experiment_config \<Rightarrow> string \<Rightarrow> nat \<Rightarrow> metrics \<Rightarrow> checkpoint list \<Rightarrow> checkpoint list \<times> (run_error + checkpoint)" where
  "save_checkpoint c run_id step ms cps =
     (case find_checkpoint step cps of
        Some cp \<Rightarrow> (cps, Inr cp)
      | None \<Rightarrow>
          let cps' = mark_best_and_retain c (cps @
            [\<lparr>ck_step = step, ck_metrics = ms, ck_identity = identity_of c run_id, ck_is_best = False\<rparr>])
          in (cps', case find_checkpoint step cps' of
                None \<Rightarrow> Inl (RunValueError ''Invalid JSON artifact'') | Some cp \<Rightarrow> Inr cp))"

definition validate_resume :: "experiment_config \<Rightarrow> string \<Rightarrow> checkpoint \<Rightarrow> bool" where
  "validate_resume c run_id cp \<longleftrightarrow> ck_identity cp = identity_of c run_id"

subsection \<open>The deterministic trainer\<close>

record metric_record =
  mr_step :: nat
  mr_name :: string
  mr_value :: pyfloat

record run_files =
  rf_metrics :: "metric_record list"
  rf_checkpoints :: "checkpoint list"

text \<open>\<open>random.Random(n).random()\<close> and \<open>round(x, 8)\<close>, and the injected stops.\<close>

record trainer_env =
  te_random :: "int \<Rightarrow> pyfloat"
  te_round :: "pyfloat \<Rightarrow> pyfloat"
  te_fail_at_step :: "nat option"
  te_interrupt_at_step :: "nat option"

datatype train_outcome = Trained | TrainFailed run_error | TrainInterrupted

definition code_points_of :: "string \<Rightarrow> code_points" where
  "code_points_of s = map of_char s"

definition maximum_steps :: "experiment_config \<Rightarrow> nat" where
  "maximum_steps c = (case ec_max_steps c of Some n \<Rightarrow> if n = 0 then ec_epochs c * 5 else n | None \<Rightarrow> ec_epochs c * 5)"

definition train_metrics :: "experiment_config \<Rightarrow> trainer_env \<Rightarrow> nat \<Rightarrow> metrics" where
  "train_metrics c env step =
     [(''loss'', te_round env (1 / of_nat (step + 1) + te_random env (ec_seed c * 1000003 + int step) / 100)),
      (''learning_rate'', ec_learning_rate c)]"

definition eval_metrics :: "experiment_config \<Rightarrow> nat \<Rightarrow> metrics" where
  "eval_metrics c step =
     (let reference = ''arabic ocr fixture'';
          hypothesis = (if step = maximum_steps c then reference else ''arabic ocr fixtur'');
          available = [(''cer'', cer (code_points_of reference) (code_points_of hypothesis)),
                       (''wer'', wer (code_points_of reference) (code_points_of hypothesis))]
      in if ec_eval_enabled c \<and> step mod ec_eval_steps c = 0
         then List.map_filter (\<lambda>name. map_option (Pair name) (map_of available name)) (ec_eval_metrics c)
         else [])"

definition logged :: "nat \<Rightarrow> metrics \<Rightarrow> metric_record list" where
  "logged step = map (\<lambda>(name, v). \<lparr>mr_step = step, mr_name = name, mr_value = v\<rparr>)"

definition step_records :: "experiment_config \<Rightarrow> trainer_env \<Rightarrow> nat \<Rightarrow> metric_record list" where
  "step_records c env step =
     (if step mod ec_log_steps c = 0 then logged step (train_metrics c env step) else [])
     @ logged step (eval_metrics c step)"

definition saves_at :: "experiment_config \<Rightarrow> nat \<Rightarrow> bool" where
  "saves_at c step \<longleftrightarrow> ec_save_strategy c = ''steps'' \<and> step mod ec_save_steps c = 0"

text \<open>The dictionary \<open>current\<close>: the metrics of the evaluation overwrite or extend those of training.\<close>

definition step_metrics :: "experiment_config \<Rightarrow> trainer_env \<Rightarrow> nat \<Rightarrow> metrics" where
  "step_metrics c env step =
     fold (\<lambda>(name, v). AList.update name v) (eval_metrics c step) (train_metrics c env step)"

fun train_steps ::
  "experiment_config \<Rightarrow> trainer_env \<Rightarrow> string \<Rightarrow> nat list \<Rightarrow> run_files \<Rightarrow> run_files \<times> train_outcome" where
  "train_steps c env run_id [] f = (f, Trained)"
| "train_steps c env run_id (step # steps) f =
     (if te_fail_at_step env = Some step
      then (f, TrainFailed (RunRuntimeError ''Mock trainer injected failure''))
      else if te_interrupt_at_step env = Some step then (f, TrainInterrupted)
      else
        let f1 = f\<lparr>rf_metrics := rf_metrics f @ step_records c env step\<rparr>
        in if saves_at c step
           then case save_checkpoint c run_id step (step_metrics c env step) (rf_checkpoints f1) of
               (cps, Inl err) \<Rightarrow> (f1\<lparr>rf_checkpoints := cps\<rparr>, TrainFailed err)
             | (cps, Inr cp) \<Rightarrow> train_steps c env run_id steps (f1\<lparr>rf_checkpoints := cps\<rparr>)
           else train_steps c env run_id steps f1)"

definition mock_train ::
  "experiment_config \<Rightarrow> trainer_env \<Rightarrow> string \<Rightarrow> nat \<Rightarrow> run_files \<Rightarrow> run_files \<times> train_outcome" where
  "mock_train c env run_id start_step f = train_steps c env run_id [start_step + 1..<maximum_steps c + 1] f"

subsection \<open>The life of a run\<close>

datatype run_status = RunCreated | RunRunning | RunCompleted | RunFailed | RunInterruptedStatus

record run_summary =
  su_resumed_from_step :: nat
  su_final_metrics :: metrics
  su_best_metrics :: metrics
  su_best_checkpoint :: "nat option"
  su_checkpoint_count :: nat

record run =
  rn_run_id :: string
  rn_config :: experiment_config
  rn_status :: run_status
  rn_history :: "run_status list"
  rn_files :: run_files
  rn_summary :: "run_summary option"
  rn_resume_source :: "nat option"

text \<open>What a call finds outside: \<open>re_prepare\<close> is what raises before the trainer starts.\<close>

record run_env =
  re_text :: text_fns
  re_catalog :: catalog_file
  re_torch :: bool
  re_dataset_error :: "run_error option"
  re_adapter_error :: "run_error option"
  re_write_error :: "run_error option"
  re_prepare_error :: "run_error option"
  re_trainer :: trainer_env
  re_torch_train :: "experiment_config \<Rightarrow> string \<Rightarrow> nat \<Rightarrow> run_files \<Rightarrow> run_files \<times> train_outcome"

definition set_status :: "run_status \<Rightarrow> run \<Rightarrow> run" where
  "set_status s r = r\<lparr>rn_status := s, rn_history := rn_history r @ [s]\<rparr>"

definition best_value :: "string \<Rightarrow> pyfloat \<Rightarrow> metrics \<Rightarrow> metrics" where
  "best_value name v best =
     (let old = (case map_of best name of Some w \<Rightarrow> w | None \<Rightarrow> v)
      in AList.update name (if name \<in> {''samples_per_second'', ''tokens_per_second''} then max old v else min old v) best)"

definition summarize :: "nat \<Rightarrow> run_files \<Rightarrow> run_summary" where
  "summarize resumed_from f =
     (let checkpoints = list_checkpoints (rf_checkpoints f) in
      \<lparr>su_resumed_from_step = resumed_from,
       su_final_metrics = fold (\<lambda>m. AList.update (mr_name m) (mr_value m)) (rf_metrics f) [],
       su_best_metrics = fold (\<lambda>m. best_value (mr_name m) (mr_value m)) (rf_metrics f) [],
       su_best_checkpoint = map_option ck_step (List.find ck_is_best checkpoints),
       su_checkpoint_count = length checkpoints\<rparr>)"

definition is_mock :: "experiment_config \<Rightarrow> bool" where
  "is_mock c \<longleftrightarrow> ec_adapter_type c \<in> {''mock'', ''dry_run''}"

text \<open>\<open>_execute\<close>: what raises before the \<open>try\<close> leaves the run as it is.\<close>

definition execute :: "run_env \<Rightarrow> nat \<Rightarrow> run \<Rightarrow> run \<times> (run_error + unit)" where
  "execute env start_step r0 =
     (let r = set_status RunRunning r0; c = rn_config r in
      if \<not> is_mock c \<and> \<not> re_torch env then (r, Inl RunImportError)
      else case re_prepare_error env of
        Some err \<Rightarrow> (r, Inl err)
      | None \<Rightarrow>
          (case (if is_mock c then mock_train c (re_trainer env) else re_torch_train env c)
              (rn_run_id r) start_step (rn_files r) of
             (f, Trained) \<Rightarrow>
               (set_status RunCompleted (r\<lparr>rn_files := f, rn_summary := Some (summarize start_step f)\<rparr>), Inr ())
           | (f, TrainInterrupted) \<Rightarrow> (set_status RunInterruptedStatus (r\<lparr>rn_files := f\<rparr>), Inl RunInterrupted)
           | (f, TrainFailed err) \<Rightarrow> (set_status RunFailed (r\<lparr>rn_files := f\<rparr>), Inl err)))"

definition new_run :: "experiment_config \<Rightarrow> string \<Rightarrow> run" where
  "new_run c run_id = \<lparr>rn_run_id = run_id, rn_config = c, rn_status = RunCreated, rn_history = [RunCreated],
     rn_files = \<lparr>rf_metrics = [], rf_checkpoints = []\<rparr>, rn_summary = None, rn_resume_source = None\<rparr>"

text \<open>The checks before a run is made.\<close>

definition run_allowed :: "run_env \<Rightarrow> experiment_config \<Rightarrow> run_error + training_approval option" where
  "run_allowed env c =
     (case re_dataset_error env of
        Some err \<Rightarrow> Inl err
      | None \<Rightarrow>
          if ec_adapter_type c = ''torch''
          then (if re_torch env then Inr None else Inl (RunRuntimeError ''PyTorch is not installed''))
          else if is_mock c
          then (if ec_dry_run c then Inr None else Inl (RunRuntimeError ''Mock adapters require runtime.dry_run=true''))
          else (case re_adapter_error env of
            Some err \<Rightarrow> Inl err
          | None \<Rightarrow>
              (case require_training_approval (re_text env) (re_catalog env) (ec_adapter_type c) (ec_model_id c)
                  (ec_revision c) of
                 Inl err \<Rightarrow> Inl err
               | Inr a \<Rightarrow>
                   if ec_dry_run c then Inl (RunRuntimeError ''Registered adapters require runtime.dry_run=false'')
                   else if \<not> re_torch env then Inl (RunRuntimeError ''Real adapter requires PyTorch'')
                   else if \<not> ec_offline c then Inl (RunRuntimeError ''Registered adapters require runtime.offline=true'')
                   else Inr (Some a))))"

definition run_experiment ::
  "run_env \<Rightarrow> experiment_config \<Rightarrow> string \<Rightarrow> run option \<times> (run_error + unit)" where
  "run_experiment env c run_id =
     (case run_allowed env c of
        Inl err \<Rightarrow> (None, Inl err)
      | Inr approval \<Rightarrow>
          (case re_write_error env of
             Some err \<Rightarrow> (Some (set_status RunFailed (new_run c run_id)), Inl err)
           | None \<Rightarrow> (case execute env 0 (new_run c run_id) of (r, res) \<Rightarrow> (Some r, res))))"

text \<open>The stops injected into a trainer are arguments of \<open>run_experiment\<close>; a resume injects none.\<close>

definition with_stops :: "nat option \<Rightarrow> nat option \<Rightarrow> run_env \<Rightarrow> run_env" where
  "with_stops fail_at interrupt_at env =
     env\<lparr>re_trainer := (re_trainer env)\<lparr>te_fail_at_step := fail_at, te_interrupt_at_step := interrupt_at\<rparr>\<rparr>"

definition resume_run :: "run_env \<Rightarrow> run \<Rightarrow> run \<times> (run_error + unit)" where
  "resume_run env r =
     (let c = rn_config r in
      case re_dataset_error env of
        Some err \<Rightarrow> (r, Inl err)
      | None \<Rightarrow>
          (case (if is_mock c \<or> ec_adapter_type c = ''torch'' then Inr None
                 else map_sum id Some (require_training_approval (re_text env) (re_catalog env) (ec_adapter_type c)
                   (ec_model_id c) (ec_revision c))) of
             Inl err \<Rightarrow> (r, Inl err)
           | Inr approval \<Rightarrow>
               (case latest (rf_checkpoints (rn_files r)) of
                  None \<Rightarrow> (r, Inl (RunValueError ''Run has no checkpoint to resume''))
                | Some cp \<Rightarrow>
                    if \<not> validate_resume c (rn_run_id r) cp
                    then (r, Inl (RunValueError ''Incompatible checkpoint for resume''))
                    else if rn_status r \<notin> {RunInterruptedStatus, RunFailed}
                    then (r, Inl (RunValueError ''Run status is not resumable''))
                    else execute (with_stops None None env) (ck_step cp) (r\<lparr>rn_resume_source := Some (ck_step cp)\<rparr>))))"

subsection \<open>Saving keeps the newest checkpoint\<close>

definition steps_of :: "checkpoint list \<Rightarrow> nat list" where
  "steps_of cps = map ck_step cps"

text \<open>With room for two, or without keeping the best, the newest checkpoint is never dropped.\<close>

definition room_for_newest :: "experiment_config \<Rightarrow> bool" where
  "room_for_newest c \<longleftrightarrow> 1 \<le> ec_save_total_limit c \<and> (2 \<le> ec_save_total_limit c \<or> \<not> ec_keep_best c)"

lemma list_checkpoints_sorted: "sorted_wrt (<) (steps_of cps) \<Longrightarrow> list_checkpoints cps = cps"
  unfolding list_checkpoints_def steps_of_def by (rule sort_key_id_if_sorted) (simp add: strict_sorted_iff)

lemma mark_retains_newest:
  assumes "sorted_wrt (<) (steps_of (cps @ [new]))" and "room_for_newest c"
  shows "\<exists>rest new'. mark_best_and_retain c (cps @ [new]) = rest @ [new'] \<and> ck_step new' = ck_step new
    \<and> ck_identity new' = ck_identity new \<and> sorted_wrt (<) (steps_of (rest @ [new']))
    \<and> set (map ck_identity rest) \<subseteq> set (map ck_identity cps) \<and> set (steps_of rest) \<subseteq> set (steps_of cps)"
proof -
  let ?items = "cps @ [new]"
  let ?best = "case best_checkpoint c ?items of None \<Rightarrow> [] | Some b \<Rightarrow> [ck_step b]"
  let ?mark = "\<lambda>cp. cp\<lparr>ck_is_best := ck_step cp \<in> set ?best\<rparr>"
  let ?newest = "filter (\<lambda>s. s \<notin> set ?best) (map ck_step (List.rev ?items))"
  let ?keep = "?best @ take (ec_save_total_limit c - length ?best) ?newest"
  have mark: "mark_best_and_retain c ?items = filter (\<lambda>cp. ck_step cp \<in> set ?keep) (map ?mark ?items)"
    by (simp only: mark_best_and_retain_def Let_def list_checkpoints_sorted [OF assms(1)])
  have "length ?best \<le> 1" and "\<not> ec_keep_best c \<Longrightarrow> ?best = []"
    by (simp_all add: best_checkpoint_def split: option.split)
  then have "0 < ec_save_total_limit c - length ?best" using assms(2) by (auto simp: room_for_newest_def)
  moreover have "?newest = ck_step new # filter (\<lambda>s. s \<notin> set ?best) (map ck_step (List.rev cps))" if "ck_step new \<notin> set ?best"
    using that by simp
  ultimately have "ck_step new \<in> set ?keep"
    by (cases "ck_step new \<in> set ?best"; cases "ec_save_total_limit c - length ?best") simp_all
  then have "mark_best_and_retain c ?items = filter (\<lambda>cp. ck_step cp \<in> set ?keep) (map ?mark cps) @ [?mark new]"
    unfolding mark by simp
  moreover have "sorted_wrt (<) (steps_of (mark_best_and_retain c ?items))"
  proof -
    have "steps_of (mark_best_and_retain c ?items) = filter (\<lambda>s. s \<in> set ?keep) (steps_of ?items)"
      unfolding mark steps_of_def by (simp add: filter_map comp_def)
    then show ?thesis using assms(1) by (simp add: sorted_wrt_filter)
  qed
  moreover have "set (map ck_identity (filter P (map ?mark cps))) \<subseteq> set (map ck_identity cps)"
    and "set (steps_of (filter P (map ?mark cps))) \<subseteq> set (steps_of cps)" for P by (auto simp: steps_of_def)
  ultimately show ?thesis
    by (intro exI [of _ "filter (\<lambda>cp. ck_step cp \<in> set ?keep) (map ?mark cps)"] exI [of _ "?mark new"]) simp
qed

text \<open>Checkpoints of a run up to a step.\<close>

definition cps_ok :: "experiment_config \<Rightarrow> string \<Rightarrow> nat \<Rightarrow> checkpoint list \<Rightarrow> bool" where
  "cps_ok c run_id n cps \<longleftrightarrow> sorted_wrt (<) (steps_of cps) \<and> list_all (\<lambda>s. s \<le> n) (steps_of cps)
     \<and> list_all (\<lambda>i. i = identity_of c run_id) (map ck_identity cps)"

lemma save_new_checkpoint:
  assumes "cps_ok c run_id n cps" and "n < step" and "room_for_newest c"
    and "save_checkpoint c run_id step ms cps = (cps', answer)"
  shows "cps_ok c run_id step cps' \<and> (\<exists>cp. answer = Inr cp) \<and> cps' \<noteq> [] \<and> ck_step (last cps') = step"
proof -
  let ?new = "\<lparr>ck_step = step, ck_metrics = ms, ck_identity = identity_of c run_id, ck_is_best = False\<rparr>"
  have ok: "sorted_wrt (<) (steps_of (cps @ [?new]))" and "step \<notin> set (steps_of cps)"
    using assms(1,2) by (fastforce simp: cps_ok_def list_all_iff steps_of_def sorted_wrt_append)+
  then have "find_checkpoint step cps = None"
    by (auto simp: find_checkpoint_def find_None_iff steps_of_def)
  moreover obtain rest new' where m: "mark_best_and_retain c (cps @ [?new]) = rest @ [new']" "ck_step new' = step"
    "ck_identity new' = identity_of c run_id" "sorted_wrt (<) (steps_of (rest @ [new']))"
    "set (map ck_identity rest) \<subseteq> set (map ck_identity cps)" "set (steps_of rest) \<subseteq> set (steps_of cps)"
    using mark_retains_newest [OF ok assms(3)] by auto
  moreover have "find_checkpoint step (rest @ [new']) \<noteq> None"
    using m(2) by (auto simp: find_checkpoint_def find_None_iff)
  ultimately have "cps' = rest @ [new'] \<and> (\<exists>cp. answer = Inr cp)"
    using assms(4) by (auto simp: save_checkpoint_def Let_def split: option.splits)
  moreover have "s \<le> step" if "s \<in> set (steps_of rest)" for s
    using that m(6) assms(1,2) by (fastforce simp: cps_ok_def list_all_iff)
  moreover have "i = identity_of c run_id" if "i \<in> set (map ck_identity rest)" for i
    using that m(5) assms(1) by (auto simp: cps_ok_def list_all_iff)
  ultimately show ?thesis using m(2-4) by (auto simp: cps_ok_def list_all_iff steps_of_def)
qed

subsection \<open>Stopping and going on\<close>

text \<open>What a step does to the checkpoints, and to the files.\<close>

definition step_checkpoints :: "experiment_config \<Rightarrow> trainer_env \<Rightarrow> string \<Rightarrow> nat \<Rightarrow> checkpoint list \<Rightarrow> checkpoint list" where
  "step_checkpoints c env run_id step cps =
     (if saves_at c step then fst (save_checkpoint c run_id step (step_metrics c env step) cps) else cps)"

definition step_files :: "experiment_config \<Rightarrow> trainer_env \<Rightarrow> string \<Rightarrow> nat \<Rightarrow> run_files \<Rightarrow> run_files" where
  "step_files c env run_id step f =
     (let f1 = f\<lparr>rf_metrics := rf_metrics f @ step_records c env step\<rparr>
      in if saves_at c step then f1\<lparr>rf_checkpoints := step_checkpoints c env run_id step (rf_checkpoints f)\<rparr> else f1)"

definition stops_at :: "trainer_env \<Rightarrow> nat \<Rightarrow> bool" where
  "stops_at env step \<longleftrightarrow> te_fail_at_step env = Some step \<or> te_interrupt_at_step env = Some step"

lemma cps_ok_later: "cps_ok c run_id n cps \<Longrightarrow> n \<le> n' \<Longrightarrow> cps_ok c run_id n' cps"
  by (auto simp: cps_ok_def list_all_iff)

lemma train_undisturbed:
  assumes "room_for_newest c"
  shows "cps_ok c run_id a (rf_checkpoints f) \<Longrightarrow> a \<le> b \<Longrightarrow> (\<And>s. a < s \<Longrightarrow> s \<le> b \<Longrightarrow> \<not> stops_at env s) \<Longrightarrow>
    train_steps c env run_id ([a + 1..<b + 1] @ rest) f
      = train_steps c env run_id rest (fold (step_files c env run_id) [a + 1..<b + 1] f)
    \<and> cps_ok c run_id b (rf_checkpoints (fold (step_files c env run_id) [a + 1..<b + 1] f))"
proof (induction b arbitrary: rest)
  case (Suc b)
  show ?case
  proof (cases "a = Suc b")
    case False
    let ?f = "fold (step_files c env run_id) [a + 1..<b + 1] f"
    have le: "a \<le> b" using False Suc.prems(2) by simp
    then have list: "[a + 1..<Suc b + 1] @ rest = [a + 1..<b + 1] @ Suc b # rest" by simp
    note ih = Suc.IH [OF Suc.prems(1) le]
    have steps: "train_steps c env run_id ([a + 1..<b + 1] @ Suc b # rest) f = train_steps c env run_id (Suc b # rest) ?f"
      and ok: "cps_ok c run_id b (rf_checkpoints ?f)" using ih Suc.prems(3) by simp_all
    have no_stop: "\<not> stops_at env (Suc b)" using Suc.prems(2,3) False by simp
    obtain cps answer where s: "save_checkpoint c run_id (Suc b) (step_metrics c env (Suc b)) (rf_checkpoints ?f) = (cps, answer)"
      by fastforce
    note new = save_new_checkpoint [OF ok lessI assms s]
    have "train_steps c env run_id (Suc b # rest) ?f = train_steps c env run_id rest (step_files c env run_id (Suc b) ?f)"
      using no_stop s new by (auto simp: stops_at_def step_files_def step_checkpoints_def Let_def)
    moreover have "cps_ok c run_id (Suc b) (rf_checkpoints (step_files c env run_id (Suc b) ?f))"
      using new s cps_ok_later [OF ok, of "Suc b"] by (simp add: step_files_def step_checkpoints_def Let_def)
    moreover have "fold (step_files c env run_id) [a + 1..<Suc b + 1] f = step_files c env run_id (Suc b) ?f"
      using le by simp
    ultimately show ?thesis unfolding list steps by simp
  qed (use Suc.prems in simp)
qed simp

lemma fold_step_files:
  "rf_metrics (fold (step_files c env run_id) steps f) = rf_metrics f @ concat (map (step_records c env) steps)"
  "rf_checkpoints (fold (step_files c env run_id) steps f) = fold (step_checkpoints c env run_id) steps (rf_checkpoints f)"
  by (induction steps arbitrary: f) (simp_all add: step_files_def step_checkpoints_def Let_def)

text \<open>No checkpoint has been made since the newest one.\<close>

lemma checkpoints_since_newest:
  assumes "room_for_newest c"
  shows "fold (step_checkpoints c env run_id) [1..<n + 1] [] = cps \<Longrightarrow> cps \<noteq> [] \<Longrightarrow>
    cps_ok c run_id n cps \<and> ck_step (last cps) \<le> n \<and> fold (step_checkpoints c env run_id) [1..<ck_step (last cps) + 1] [] = cps"
proof (induction n arbitrary: cps)
  case (Suc n)
  let ?before = "fold (step_checkpoints c env run_id) [1..<n + 1] []"
  have ok: "cps_ok c run_id n ?before"
    using Suc.IH [OF refl] by (cases "?before = []") (simp_all add: cps_ok_def steps_of_def)
  have cps: "cps = step_checkpoints c env run_id (Suc n) ?before" using Suc.prems(1) by simp
  show ?case
  proof (cases "saves_at c (Suc n)")
    case True
    obtain cps' answer where s: "save_checkpoint c run_id (Suc n) (step_metrics c env (Suc n)) ?before = (cps', answer)"
      by fastforce
    then have "cps = cps'" unfolding cps step_checkpoints_def using True by simp
    then show ?thesis using save_new_checkpoint [OF ok lessI assms s] Suc.prems(1) by simp
  next
    case False
    then have same: "cps = ?before" unfolding cps by (simp add: step_checkpoints_def)
    then have "?before \<noteq> []" using Suc.prems(2) by simp
    from Suc.IH [OF refl this] show ?thesis unfolding same using cps_ok_later [of c run_id n ?before "Suc n"] by simp
  qed
qed simp

text \<open>Metrics logged twice leave the summary as it was.\<close>

lemma update_again:
  "map_of al k = Some v \<Longrightarrow> AList.update k v al = al"
  by (induction al) auto

definition last_values :: "metric_record list \<Rightarrow> metrics \<Rightarrow> metrics" where
  "last_values ms acc = fold (\<lambda>m. AList.update (mr_name m) (mr_value m)) ms acc"

definition best_values :: "metric_record list \<Rightarrow> metrics \<Rightarrow> metrics" where
  "best_values ms acc = fold (\<lambda>m. best_value (mr_name m) (mr_value m)) ms acc"

lemma last_values_append: "last_values (xs @ ys) acc = last_values ys (last_values xs acc)"
  by (simp add: last_values_def)

lemma best_values_append: "best_values (xs @ ys) acc = best_values ys (best_values xs acc)"
  by (simp add: best_values_def)

lemma last_values_known: "mr_name ` set ms \<subseteq> set (map fst acc) \<Longrightarrow> map fst (last_values ms acc) = map fst acc"
proof (induction ms arbitrary: acc)
  case (Cons m ms)
  let ?acc = "AList.update (mr_name m) (mr_value m) acc"
  have "map fst ?acc = map fst acc" using Cons.prems by (simp add: update_keys)
  moreover have "mr_name ` set ms \<subseteq> set (map fst ?acc)" unfolding calculation using Cons.prems by simp
  ultimately show ?case using Cons.IH [of ?acc] by (simp add: last_values_def)
qed (simp add: last_values_def)

lemma last_values_map: "map_of (last_values ms acc) = map_of acc ++ map_of (List.rev (map (\<lambda>m. (mr_name m, mr_value m)) ms))"
  by (induction ms arbitrary: acc) (auto simp: last_values_def update_conv')

lemma alist_eqI:
  "map fst xs = map fst ys \<Longrightarrow> distinct (map fst xs) \<Longrightarrow> map_of xs = map_of ys \<Longrightarrow> xs = ys"
proof (induction xs arbitrary: ys)
  case (Cons x xs)
  then obtain y ys' where ys: "ys = y # ys'" by (cases ys) auto
  have "map_of (x # xs) (fst x) = map_of (y # ys') (fst x)" using fun_cong [OF Cons.prems(3), of "fst x"] ys by simp
  then have "x = y" using Cons.prems(1) ys by (cases x; cases y) simp
  moreover have "map_of xs = map_of ys'"
  proof
    fix k
    show "map_of xs k = map_of ys' k"
    proof (cases "k = fst x")
      case True
      moreover have "fst x \<notin> set (map fst xs)" "fst x \<notin> set (map fst ys')"
        using Cons.prems(1,2) ys by simp_all
      ultimately show ?thesis by (metis map_of_eq_None_iff set_map)
    next
      case False
      then show ?thesis using fun_cong [OF Cons.prems(3), of k] ys \<open>x = y\<close> by (cases y) auto
    qed
  qed
  ultimately show ?case using Cons.IH [of ys'] Cons.prems(1,2) ys by simp
qed simp

lemma last_values_distinct: "distinct (map fst acc) \<Longrightarrow> distinct (map fst (last_values ms acc))"
  by (induction ms arbitrary: acc) (simp_all add: last_values_def distinct_update)

lemma last_values_names: "mr_name ` set ms \<subseteq> set (map fst (last_values ms acc))"
proof -
  have "dom (map_of (last_values ms acc)) = dom (map_of acc) \<union> mr_name ` set ms"
    unfolding last_values_map by (simp add: dom_map_of_conv_image_fst image_image Un_commute)
  then show ?thesis by (simp add: dom_map_of_conv_image_fst)
qed

lemma last_values_twice:
  assumes "distinct (map fst acc)"
  shows "last_values ms (last_values ms acc) = last_values ms acc"
proof (rule alist_eqI)
  show "map fst (last_values ms (last_values ms acc)) = map fst (last_values ms acc)"
    by (rule last_values_known [OF last_values_names])
  then show "distinct (map fst (last_values ms (last_values ms acc)))" using last_values_distinct [OF assms, of ms] by simp
  show "map_of (last_values ms (last_values ms acc)) = map_of (last_values ms acc)"
    by (rule ext) (simp add: last_values_map map_add_def split: option.split)
qed

definition at_least_as_good :: "string \<Rightarrow> pyfloat \<Rightarrow> pyfloat \<Rightarrow> bool" where
  "at_least_as_good name w v \<longleftrightarrow> (if name \<in> {''samples_per_second'', ''tokens_per_second''} then v \<le> w else w \<le> v)"

lemma best_value_bound:
  "\<exists>w. map_of (best_value name v acc) name = Some w \<and> at_least_as_good name w v"
  by (auto simp: best_value_def Let_def at_least_as_good_def update_conv' split: option.split)

lemma best_value_keeps:
  assumes "map_of acc name = Some w" and "at_least_as_good name w v"
  shows "\<exists>w'. map_of (best_value name' v' acc) name = Some w' \<and> at_least_as_good name w' v"
  using assms by (auto simp: best_value_def Let_def at_least_as_good_def update_conv' split: option.split)

lemma best_value_again:
  assumes "map_of acc name = Some w" and "at_least_as_good name w v"
  shows "best_value name v acc = acc"
proof -
  have "(if name \<in> {''samples_per_second'', ''tokens_per_second''} then max w v else min w v) = w"
    using assms(2) by (auto simp: at_least_as_good_def max_def min_def)
  then show ?thesis using assms(1) update_again by (simp add: best_value_def Let_def)
qed

lemma best_values_bound:
  "m \<in> set ms \<Longrightarrow> \<exists>w. map_of (best_values ms acc) (mr_name m) = Some w \<and> at_least_as_good (mr_name m) w (mr_value m)"
proof (induction ms rule: rev_induct)
  case (snoc x ms)
  then show ?case
    using best_value_bound [of "mr_name x" "mr_value x" "best_values ms acc"]
      best_value_keeps [of "best_values ms acc" "mr_name m" _ "mr_value m" "mr_name x" "mr_value x"]
    by (cases "m = x") (auto simp: best_values_def)
qed simp

lemma best_values_twice: "best_values ms (best_values ms acc) = best_values ms acc"
proof -
  have "best_values xs (best_values ms acc) = best_values ms acc" if "set xs \<subseteq> set ms" for xs
    using that
  proof (induction xs)
    case (Cons x xs)
    then show ?case using best_values_bound [of x ms acc] best_value_again by (fastforce simp: best_values_def)
  qed (simp add: best_values_def)
  then show ?thesis by simp
qed

subsection \<open>A stopped run recovers\<close>

definition no_files :: run_files where
  "no_files = \<lparr>rf_metrics = [], rf_checkpoints = []\<rparr>"

lemma step_files_stops [simp]:
  "step_files c (env\<lparr>te_fail_at_step := a, te_interrupt_at_step := b\<rparr>) = step_files c env"
  by (simp add: fun_eq_iff step_files_def step_checkpoints_def step_records_def step_metrics_def train_metrics_def
      Let_def)

lemma cps_ok_none: "cps_ok c run_id n (rf_checkpoints no_files)"
  by (simp add: no_files_def cps_ok_def steps_of_def)

lemma mock_train_stopped:
  assumes "room_for_newest c" and "mock_train c env run_id 0 no_files = (f, outcome)" and "outcome \<noteq> Trained"
  shows "\<exists>n<maximum_steps c. f = fold (step_files c env run_id) [1..<n + 1] no_files"
proof -
  let ?m = "maximum_steps c"
  note go = train_undisturbed [OF assms(1) cps_ok_none le0, where env = env and run_id = run_id]
  have some_stop: "\<exists>k. 0 < k \<and> k \<le> ?m \<and> stops_at env k"
  proof (rule ccontr)
    assume "\<not> ?thesis"
    then have "mock_train c env run_id 0 no_files = (fold (step_files c env run_id) [0 + 1..<?m + 1] no_files, Trained)"
      using go [of ?m "[]"] by (auto simp: mock_train_def simp del: upt_Suc)
    then show False using assms(2,3) by simp
  qed
  define k where "k = (LEAST k. 0 < k \<and> k \<le> ?m \<and> stops_at env k)"
  have "0 < k \<and> k \<le> ?m \<and> stops_at env k" unfolding k_def by (rule LeastI_ex [OF some_stop])
  then have k: "0 < k" "k \<le> ?m" "stops_at env k" by simp_all
  have first: "\<not> stops_at env j" if "0 < j" "j < k" for j
    using not_less_Least [of j "\<lambda>k. 0 < k \<and> k \<le> ?m \<and> stops_at env k"] that k(2) by (simp add: k_def)
  have "[0 + 1..<?m + 1] = [0 + 1..<(k - 1) + 1] @ k # [k + 1..<?m + 1]"
    using k(1,2) upt_add_eq_append [of 1 k "?m + 1 - k"] by (simp add: upt_conv_Cons)
  moreover have "train_steps c env run_id ([0 + 1..<(k - 1) + 1] @ k # [k + 1..<?m + 1]) no_files
      = train_steps c env run_id (k # [k + 1..<?m + 1]) (fold (step_files c env run_id) [0 + 1..<(k - 1) + 1] no_files)"
    using go [of "k - 1" "k # [k + 1..<?m + 1]"] first k(1) by simp
  ultimately have "f = fold (step_files c env run_id) [0 + 1..<(k - 1) + 1] no_files"
    using assms(2) k(3) by (auto simp: mock_train_def stops_at_def split: if_split_asm)
  then show ?thesis using k(1,2) by (intro exI [of _ "k - 1"]) simp
qed

text \<open>The files of a pass that goes on from the newest checkpoint of a stopped one.\<close>

lemma recovered_files:
  assumes room: "room_for_newest c" and "n \<le> m"
    and stopped: "f = fold (step_files c env run_id) [1..<n + 1] no_files" "rf_checkpoints f \<noteq> []"
    and k: "k = ck_step (last (rf_checkpoints f))"
    and whole: "w = fold (step_files c env run_id) [1..<m + 1] no_files"
    and recovered: "g = fold (step_files c env run_id) [k + 1..<m + 1] f"
  shows "k \<le> n \<and> cps_ok c run_id k (rf_checkpoints f) \<and> rf_checkpoints g = rf_checkpoints w
    \<and> last_values (rf_metrics g) [] = last_values (rf_metrics w) []
    \<and> best_values (rf_metrics g) [] = best_values (rf_metrics w) []"
proof -
  let ?cps = "\<lambda>xs. fold (step_checkpoints c env run_id) xs []"
  let ?ms = "\<lambda>xs. concat (map (step_records c env) xs)"
  have f: "rf_checkpoints f = ?cps [1..<n + 1]" "rf_metrics f = ?ms [1..<n + 1]"
    by (simp_all only: stopped(1) fold_step_files no_files_def run_files.simps append_Nil)
  have since: "cps_ok c run_id n (rf_checkpoints f)" "k \<le> n" "?cps [1..<k + 1] = rf_checkpoints f"
    using checkpoints_since_newest [OF room f(1) [symmetric] stopped(2)] by (simp_all only: k)
  have split_at: "[1..<m + 1] = [1..<k + 1] @ [k + 1..<m + 1]" "[1..<n + 1] = [1..<k + 1] @ [k + 1..<n + 1]"
    "[k + 1..<m + 1] = [k + 1..<n + 1] @ [n + 1..<m + 1]"
    using assms(2) since(2) upt_add_eq_append [of 1 "k + 1" "m - k"] upt_add_eq_append [of 1 "k + 1" "n - k"]
      upt_add_eq_append [of "k + 1" "n + 1" "m - n"] by simp_all
  have w: "rf_checkpoints w = ?cps [1..<m + 1]" "rf_metrics w = ?ms [1..<m + 1]"
    by (simp_all only: whole fold_step_files no_files_def run_files.simps append_Nil)
  have "rf_checkpoints g = rf_checkpoints w"
    unfolding w recovered fold_step_files(2) split_at(1) fold_append comp_def since(3) ..
  moreover have g: "rf_metrics g = (?ms [1..<k + 1] @ ?ms [k + 1..<n + 1]) @ ?ms [k + 1..<n + 1] @ ?ms [n + 1..<m + 1]"
    unfolding recovered fold_step_files(1) f(2) split_at(2,3) by simp
  moreover have m: "rf_metrics w = ?ms [1..<k + 1] @ ?ms [k + 1..<n + 1] @ ?ms [n + 1..<m + 1]"
    unfolding w(2) split_at(1,3) by simp
  moreover have "last_values (rf_metrics g) [] = last_values (rf_metrics w) []"
    unfolding g m last_values_append by (simp add: last_values_twice last_values_distinct)
  moreover have "best_values (rf_metrics g) [] = best_values (rf_metrics w) []"
    unfolding g m best_values_append by (simp add: best_values_twice)
  moreover have "cps_ok c run_id k (rf_checkpoints f)"
  proof -
    have "list_all (\<lambda>s. s \<le> k) (steps_of (rf_checkpoints f))"
      using since(1) stopped(2) unfolding k by (cases "rf_checkpoints f" rule: rev_cases)
        (fastforce simp: cps_ok_def list_all_iff steps_of_def sorted_wrt_append)+
    then show ?thesis using since(1) by (simp add: cps_ok_def)
  qed
  ultimately show ?thesis using since(2) by blast
qed

lemma execute_mock:
  assumes "is_mock c" and "rn_config r = c" and "re_prepare_error env = None"
    and "mock_train c (re_trainer env) (rn_run_id r) k (rn_files r) = (f, outcome)"
  shows "execute env k r = (case outcome of
      Trained \<Rightarrow> (set_status RunCompleted ((set_status RunRunning r)\<lparr>rn_files := f, rn_summary := Some (summarize k f)\<rparr>), Inr ())
    | TrainInterrupted \<Rightarrow> (set_status RunInterruptedStatus ((set_status RunRunning r)\<lparr>rn_files := f\<rparr>), Inl RunInterrupted)
    | TrainFailed err \<Rightarrow> (set_status RunFailed ((set_status RunRunning r)\<lparr>rn_files := f\<rparr>), Inl err))"
  using assms by (simp add: execute_def Let_def set_status_def split: train_outcome.split)

lemma mock_train_goes_on:
  assumes "room_for_newest c" and "te_fail_at_step env = None" and "te_interrupt_at_step env = None"
    and "cps_ok c run_id k (rf_checkpoints f)" and "k \<le> maximum_steps c"
  shows "mock_train c env run_id k f = (fold (step_files c env run_id) [k + 1..<maximum_steps c + 1] f, Trained)"
  using train_undisturbed [OF assms(1,4,5), of env "[]"] assms(2,3)
  by (auto simp: mock_train_def stops_at_def simp del: upt_Suc)

lemma run_experiment_mock:
  assumes "is_mock c" and "run_experiment env c run_id = (Some r, answer)"
    and "mock_train c (re_trainer env) run_id 0 no_files = (f, outcome)"
  shows "re_dataset_error env = None \<and> (re_write_error env = None \<and> re_prepare_error env = None \<longrightarrow>
      (r, answer) = (case outcome of
        Trained \<Rightarrow> (set_status RunCompleted ((set_status RunRunning (new_run c run_id))\<lparr>rn_files := f, rn_summary := Some (summarize 0 f)\<rparr>), Inr ())
      | TrainInterrupted \<Rightarrow> (set_status RunInterruptedStatus ((set_status RunRunning (new_run c run_id))\<lparr>rn_files := f\<rparr>), Inl RunInterrupted)
      | TrainFailed err \<Rightarrow> (set_status RunFailed ((set_status RunRunning (new_run c run_id))\<lparr>rn_files := f\<rparr>), Inl err)))"
proof -
  have "re_dataset_error env = None" using assms(2) by (auto simp: run_experiment_def run_allowed_def split: option.splits)
  moreover have t: "mock_train c (re_trainer env) (rn_run_id (new_run c run_id)) 0 (rn_files (new_run c run_id)) = (f, outcome)"
    using assms(3) by (simp add: new_run_def no_files_def)
  moreover have "(r, answer) = execute env 0 (new_run c run_id)" if "re_write_error env = None"
    using that assms(2) by (auto simp: run_experiment_def split: sum.split_asm prod.split_asm)
  ultimately show ?thesis using execute_mock [OF assms(1) _ _ t] by (simp add: new_run_def)
qed

text \<open>
  C38. A stopped run recovers. When the checkpoints leave room for the newest one, take a run of the
  deterministic trainer that failed or was interrupted at any step after its first checkpoint, and resume
  it: it completes with the same checkpoints, the same final and best metrics and the same best checkpoint
  as the run that was never stopped, although its metrics file repeats the steps done twice.
\<close>

theorem stopped_run_recovers:
  assumes "positive_config c" and "2 \<le> ec_save_total_limit c \<or> \<not> ec_keep_best c" and "is_mock c"
    and "te_fail_at_step (re_trainer env) = None" and "te_interrupt_at_step (re_trainer env) = None"
    and "run_experiment env c run_id = (Some whole, Inr ())"
    and "run_experiment (with_stops fail_at interrupt_at env) c run_id = (Some stopped, Inl err)"
    and "rf_checkpoints (rn_files stopped) \<noteq> []"
    and "resume_run env stopped = (resumed, answer)"
  shows "answer = Inr () \<and> rn_status resumed = RunCompleted
    \<and> rf_checkpoints (rn_files resumed) = rf_checkpoints (rn_files whole)
    \<and> map_option su_final_metrics (rn_summary resumed) = map_option su_final_metrics (rn_summary whole)
    \<and> map_option su_best_metrics (rn_summary resumed) = map_option su_best_metrics (rn_summary whole)
    \<and> map_option su_best_checkpoint (rn_summary resumed) = map_option su_best_checkpoint (rn_summary whole)"
proof -
  let ?t = "re_trainer env" and ?m = "maximum_steps c" and ?env' = "with_stops fail_at interrupt_at env"
  let ?w = "fold (step_files c ?t run_id) [1..<?m + 1] no_files"
  have room: "room_for_newest c" using assms(1,2) by (simp add: room_for_newest_def positive_config_def)
  have no_stops: "with_stops None None env = env" using assms(4,5) by (simp add: with_stops_def)
  have trained: "mock_train c ?t run_id 0 no_files = (?w, Trained)"
    using mock_train_goes_on [OF room assms(4,5) cps_ok_none le0] by simp
  have calm: "re_write_error env = None" "re_prepare_error env = None"
    using assms(3,6) by (auto simp: run_experiment_def execute_def Let_def split: sum.split_asm option.split_asm if_split_asm)
  from run_experiment_mock [OF assms(3,6) trained] calm
  have dataset: "re_dataset_error env = None" and whole: "whole = set_status RunCompleted
      ((set_status RunRunning (new_run c run_id))\<lparr>rn_files := ?w, rn_summary := Some (summarize 0 ?w)\<rparr>)" by simp_all
  obtain f outcome where f: "mock_train c (re_trainer ?env') run_id 0 no_files = (f, outcome)" by fastforce
  have calm': "re_write_error ?env' = None" "re_prepare_error ?env' = None" using calm by (simp_all add: with_stops_def)
  note stop = run_experiment_mock [OF assms(3,7) f] calm'
  then have "outcome \<noteq> Trained" by auto
  with stop have stopped: "rn_files stopped = f" "rn_config stopped = c" "rn_run_id stopped = run_id"
    "rn_status stopped \<in> {RunInterruptedStatus, RunFailed}"
    by (cases outcome; auto simp: set_status_def new_run_def)+
  obtain n where n: "n < ?m" "f = fold (step_files c ?t run_id) [1..<n + 1] no_files"
    using mock_train_stopped [OF room f \<open>outcome \<noteq> Trained\<close>] by (auto simp: with_stops_def)
  let ?k = "ck_step (last (rf_checkpoints f))"
  let ?g = "fold (step_files c ?t run_id) [?k + 1..<?m + 1] f"
  have cps: "rf_checkpoints f \<noteq> []" using assms(8) stopped(1) by simp
  note rec = recovered_files [OF room less_imp_le [OF n(1)] n(2) cps refl refl refl]
  then have "latest (rf_checkpoints f) = Some (last (rf_checkpoints f))"
    using cps by (auto simp: latest_def cps_ok_def list_checkpoints_sorted)
  moreover have "validate_resume c run_id (last (rf_checkpoints f))"
    using rec cps by (auto simp: validate_resume_def cps_ok_def list_all_iff)
  moreover have "mock_train c ?t run_id ?k f = (?g, Trained)"
    using rec n(1) by (intro mock_train_goes_on [OF room assms(4,5)]) auto
  ultimately have "resumed = set_status RunCompleted ((set_status RunRunning (stopped\<lparr>rn_resume_source := Some ?k\<rparr>))
      \<lparr>rn_files := ?g, rn_summary := Some (summarize ?k ?g)\<rparr>) \<and> answer = Inr ()"
    using assms(3,9) stopped dataset calm(2) no_stops
      execute_mock [of c "stopped\<lparr>rn_resume_source := Some ?k\<rparr>" env ?k ?g Trained]
    by (auto simp: resume_run_def)
  then show ?thesis using rec whole
    by (simp add: set_status_def new_run_def summarize_def Let_def flip: last_values_def best_values_def)
qed

definition short_run :: experiment_config where
  "short_run = \<lparr>ec_experiment_name = ''exp'', ec_model_id = ''mock-ocr'', ec_revision = ''v1'', ec_adapter_type = ''mock'',
     ec_dataset_id = ''ds'', ec_dataset_version = ''1'', ec_sample_limit = None, ec_precision = ''float32'',
     ec_hash = ''h'', ec_seed = 7, ec_epochs = 1, ec_max_steps = Some 2, ec_batch_size = 1,
     ec_gradient_accumulation_steps = 1, ec_learning_rate = 1, ec_dry_run = True, ec_offline = True,
     ec_log_steps = 1, ec_save_strategy = ''steps'',
     ec_save_steps = 1, ec_save_total_limit = 2, ec_keep_best = True, ec_metric_for_best = ''loss'',
     ec_greater_is_better = False, ec_eval_enabled = False, ec_eval_steps = 1, ec_eval_metrics = []\<rparr>"

definition calm_env :: run_env where
  "calm_env = \<lparr>re_text = \<lparr>tx_fold = \<lambda>s. s, tx_strip = \<lambda>s. s, tx_show = \<lambda>v. ''None''\<rparr>, re_catalog = CatalogMissing,
     re_torch = False, re_dataset_error = None, re_adapter_error = None, re_write_error = None, re_prepare_error = None,
     re_trainer = \<lparr>te_random = \<lambda>n. 0, te_round = \<lambda>x. x, te_fail_at_step = None, te_interrupt_at_step = None\<rparr>,
     re_torch_train = \<lambda>c run_id k f. (f, Trained)\<rparr>"

lemma run_executes:
  assumes "is_mock c" and "ec_dry_run c" and "re_dataset_error env = None" and "re_write_error env = None"
  shows "run_experiment env c run_id = map_prod Some (\<lambda>a. a) (execute env 0 (new_run c run_id))"
  using assms by (auto simp: run_experiment_def run_allowed_def is_mock_def split: prod.split)

definition interrupted_run :: run where
  "interrupted_run = the (fst (run_experiment (with_stops None (Some 2) calm_env) short_run ''r''))"

lemma short_run_facts:
  "positive_config short_run" "room_for_newest short_run" "is_mock short_run" "ec_dry_run short_run"
  "saves_at short_run 1" "maximum_steps short_run = 2"
  by (simp_all add: short_run_def positive_config_def room_for_newest_def is_mock_def saves_at_def maximum_steps_def)

lemma short_training:
  "\<exists>f. mock_train short_run (re_trainer (with_stops None (Some 2) calm_env)) ''r'' 0 no_files = (f, TrainInterrupted)
    \<and> rf_checkpoints f \<noteq> []"
proof -
  let ?t = "re_trainer (with_stops None (Some 2) calm_env)"
  let ?f = "step_files short_run ?t ''r'' 1 no_files"
  have stops: "stops_at ?t s \<longleftrightarrow> s = 2" for s by (auto simp: stops_at_def with_stops_def calm_env_def)
  have "train_steps short_run ?t ''r'' ([0 + 1..<1 + 1] @ [2]) no_files
      = train_steps short_run ?t ''r'' [2] (fold (step_files short_run ?t ''r'') [0 + 1..<1 + 1] no_files)"
    using train_undisturbed [OF short_run_facts(2) cps_ok_none, where a = 0 and b = 1 and env = ?t and rest = "[2]"
        and run_id = "''r''"] stops by simp
  moreover have "[0 + 1..<maximum_steps short_run + 1] = [0 + 1..<1 + 1] @ [2]"
    unfolding short_run_facts(6) by (simp add: upt_rec numeral_2_eq_2)
  moreover have "fold (step_files short_run ?t ''r'') [0 + 1..<1 + 1] no_files = ?f" by simp
  ultimately have "mock_train short_run ?t ''r'' 0 no_files = train_steps short_run ?t ''r'' [2] ?f"
    unfolding mock_train_def by (simp only:)
  also have "\<dots> = (?f, TrainInterrupted)" by (simp add: with_stops_def calm_env_def)
  finally have trained: "mock_train short_run ?t ''r'' 0 no_files = (?f, TrainInterrupted)" .
  obtain cps answer where s: "save_checkpoint short_run ''r'' 1 (step_metrics short_run ?t 1) (rf_checkpoints no_files) = (cps, answer)"
    by fastforce
  have "rf_checkpoints ?f \<noteq> []"
    using save_new_checkpoint [OF cps_ok_none zero_less_one short_run_facts(2) s] s short_run_facts(5)
    by (simp add: step_files_def step_checkpoints_def Let_def)
  then show ?thesis using trained by blast
qed

lemma run_interrupted:
  "run_experiment (with_stops None (Some 2) calm_env) short_run ''r'' = (Some interrupted_run, Inl RunInterrupted)
    \<and> rf_checkpoints (rn_files interrupted_run) \<noteq> [] \<and> rn_status interrupted_run = RunInterruptedStatus"
proof -
  let ?env = "with_stops None (Some 2) calm_env"
  have env: "re_dataset_error ?env = None" "re_write_error ?env = None" "re_prepare_error ?env = None"
    by (simp_all add: with_stops_def calm_env_def)
  obtain f where f: "mock_train short_run (re_trainer ?env) (rn_run_id (new_run short_run ''r'')) 0
      (rn_files (new_run short_run ''r'')) = (f, TrainInterrupted)" and "rf_checkpoints f \<noteq> []"
    using short_training by (auto simp: new_run_def simp flip: no_files_def)
  then show ?thesis
    using run_executes [OF short_run_facts(3,4) env(1,2), of "''r''"]
      execute_mock [OF short_run_facts(3) _ env(3) f]
    by (simp add: interrupted_run_def set_status_def new_run_def)
qed

lemma run_finished:
  "\<exists>whole. run_experiment calm_env short_run ''r'' = (Some whole, Inr ()) \<and> rn_status whole = RunCompleted"
proof -
  have env: "re_dataset_error calm_env = None" "re_write_error calm_env = None" "re_prepare_error calm_env = None"
    "te_fail_at_step (re_trainer calm_env) = None" "te_interrupt_at_step (re_trainer calm_env) = None"
    by (simp_all add: calm_env_def)
  obtain f where f: "mock_train short_run (re_trainer calm_env) (rn_run_id (new_run short_run ''r'')) 0
      (rn_files (new_run short_run ''r'')) = (f, Trained)"
    using mock_train_goes_on [OF short_run_facts(2) env(4,5) cps_ok_none le0, of "''r''"]
    by (auto simp: new_run_def simp flip: no_files_def)
  then show ?thesis
    using run_executes [OF short_run_facts(3,4) env(1,2), of "''r''"]
      execute_mock [OF short_run_facts(3) _ env(3) f]
    by (simp add: set_status_def new_run_def)
qed

lemma stopped_run_recovers_witness:
  "rn_status interrupted_run = RunInterruptedStatus \<and> rn_status (fst (resume_run calm_env interrupted_run)) = RunCompleted"
proof -
  obtain whole where whole: "run_experiment calm_env short_run ''r'' = (Some whole, Inr ())" using run_finished by blast
  note interrupted = run_interrupted [THEN conjunct1] run_interrupted [THEN conjunct2, THEN conjunct1]
  have "positive_config short_run" and "2 \<le> ec_save_total_limit short_run \<or> \<not> ec_keep_best short_run" and "is_mock short_run"
    and "te_fail_at_step (re_trainer calm_env) = None" and "te_interrupt_at_step (re_trainer calm_env) = None"
    by (simp_all add: short_run_def positive_config_def is_mock_def calm_env_def)
  from stopped_run_recovers [OF this whole interrupted(1,2)
      prod.collapse [symmetric]]
  show ?thesis using run_interrupted by blast
qed

subsection \<open>Only approved models train\<close>

definition expressly_approved :: "run_env \<Rightarrow> experiment_config \<Rightarrow> bool" where
  "expressly_approved env c =
     (case load_approval_catalog (re_catalog env) of
        Inl err \<Rightarrow> False
      | Inr records \<Rightarrow> list_all record_complete records
          \<and> list_ex (record_matches (ec_adapter_type c) (ec_model_id c) (ec_revision c)) records
          \<and> list_all (\<lambda>r. record_matches (ec_adapter_type c) (ec_model_id c) (ec_revision c) r
              \<longrightarrow> truthy (obj_get r ''approved'')) records)"

lemma approval_required:
  assumes "require_training_approval (re_text env) (re_catalog env) (ec_adapter_type c) (ec_model_id c) (ec_revision c) = Inr a"
  shows "expressly_approved env c"
proof -
  obtain records where r: "load_approval_catalog (re_catalog env) = Inr records"
    using assms by (auto simp: require_training_approval_def get_training_approval_def split: sum.split_asm)
  let ?found = "filter (record_matches (ec_adapter_type c) (ec_model_id c) (ec_revision c)) records"
  have "list_all record_complete records \<and> ?found \<noteq> [] \<and> \<not> list_ex (\<lambda>r. \<not> truthy (obj_get r ''approved'')) ?found"
    using assms r by (auto simp: require_training_approval_def get_training_approval_def Let_def
        split: sum.split_asm option.split_asm if_split_asm)
  then show ?thesis using r by (auto simp: expressly_approved_def list_all_iff list_ex_iff filter_empty_conv)
qed


definition approval_entry :: "json \<Rightarrow> json \<Rightarrow> approval_record" where
  "approval_entry approved license_id = [(''adapter_type'', JStr ''trocr''), (''model_id'', JStr ''m''),
     (''revision'', JStr ''*''), (''approved'', approved), (''license_id'', license_id), (''approved_by'', JStr ''ops''),
     (''approved_at'', JStr ''2026'')]"

definition catalog_of :: "approval_record list \<Rightarrow> catalog_file" where
  "catalog_of records = CatalogFile (JObj [(''schema_version'', JInt 1), (''approvals'', JList (map JObj records))])"

definition adapter_run :: experiment_config where
  "adapter_run = short_run\<lparr>ec_adapter_type := ''trocr'', ec_model_id := ''m'', ec_dry_run := False\<rparr>"

definition approved_env :: run_env where
  "approved_env = calm_env\<lparr>re_torch := True, re_catalog := catalog_of [approval_entry (JBool True) (JStr ''MIT'')]\<rparr>"

lemmas approval_simps = require_training_approval_def get_training_approval_def load_approval_catalog_def
  catalog_of_def approval_entry_def record_complete_def REQUIRED_RECORD_FIELDS_def record_matches_def has_key_def
  obj_get_def obj_get_or_def is_one_def shown_def


text \<open>
  A record whose \<open>license_id\<close> is null has the licence \<open>str(None)\<close>, and one whose \<open>approved\<close> is the string
  \<open>false\<close> approves.
\<close>

lemma null_license_is_accepted:
  "require_training_approval (re_text calm_env) (catalog_of [approval_entry (JBool True) JNull]) ''trocr'' ''m'' ''v1''
    = Inr \<lparr>ta_revision = ''*'', ta_license_id = ''None'', ta_approved_by = ''ops'', ta_approved_at = ''2026''\<rparr>"
  by (simp add: approval_simps calm_env_def)

lemma false_string_approves:
  "require_training_approval (re_text calm_env) (catalog_of [approval_entry (JStr ''false'') (JStr ''MIT'')]) ''trocr'' ''m'' ''v1''
    = Inr \<lparr>ta_revision = ''*'', ta_license_id = ''MIT'', ta_approved_by = ''ops'', ta_approved_at = ''2026''\<rparr>"
  by (simp add: approval_simps calm_env_def)

subsection \<open>The moves of a run\<close>

fun legal_move :: "run_status \<Rightarrow> run_status \<Rightarrow> bool" where
  "legal_move RunCreated s = (s = RunRunning \<or> s = RunFailed)"
| "legal_move RunRunning s = (s = RunCompleted \<or> s = RunFailed \<or> s = RunInterruptedStatus)"
| "legal_move RunFailed s = (s = RunRunning)"
| "legal_move RunInterruptedStatus s = (s = RunRunning)"
| "legal_move RunCompleted s = False"

definition run_wf :: "run \<Rightarrow> bool" where
  "run_wf r \<longleftrightarrow> rn_history r \<noteq> [] \<and> rn_status r = last (rn_history r) \<and> successively legal_move (rn_history r)"

definition run_after :: "run \<Rightarrow> run \<Rightarrow> bool" where
  "run_after r r' \<longleftrightarrow> (\<exists>more. rn_history r' = rn_history r @ more) \<and> (rn_status r = RunCompleted \<longrightarrow> r' = r)"

lemma set_status_wf:
  "run_wf r \<Longrightarrow> legal_move (rn_status r) s \<Longrightarrow> run_wf (set_status s r)"
  by (auto simp: run_wf_def set_status_def successively_append_iff)

lemma execute_moves:
  assumes "run_wf r" and "legal_move (rn_status r) RunRunning"
  shows "run_wf (fst (execute env k r)) \<and> (\<exists>more. rn_history (fst (execute env k r)) = rn_history r @ more)"
proof -
  let ?r = "set_status RunRunning r"
  have r: "run_wf ?r" "rn_status ?r = RunRunning" "rn_history ?r = rn_history r @ [RunRunning]"
    using set_status_wf [OF assms] by (simp_all add: set_status_def)
  have same: "run_wf (?r\<lparr>rn_files := f\<rparr>)" "run_wf (?r\<lparr>rn_files := f, rn_summary := su\<rparr>)" for f su
    using r(1) by (simp_all add: run_wf_def)
  have "run_wf (set_status RunCompleted (?r\<lparr>rn_files := f, rn_summary := su\<rparr>))"
    and "run_wf (set_status RunFailed (?r\<lparr>rn_files := f\<rparr>))"
    and "run_wf (set_status RunInterruptedStatus (?r\<lparr>rn_files := f\<rparr>))" for f su
    using r(2) by (intro set_status_wf same; simp)+
  then show ?thesis using r
    by (auto simp: execute_def Let_def set_status_def split: option.split prod.split train_outcome.split)
qed

lemma resume_moves:
  assumes "run_wf r"
  shows "run_wf (fst (resume_run env r)) \<and> run_after r (fst (resume_run env r))"
proof (cases "fst (resume_run env r) = r")
  case True
  then show ?thesis using assms by (simp add: run_after_def)
next
  case False
  then obtain k where "rn_status r \<in> {RunInterruptedStatus, RunFailed}"
    and "fst (resume_run env r) = fst (execute (with_stops None None env) k (r\<lparr>rn_resume_source := Some k\<rparr>))"
    by (auto simp: resume_run_def Let_def split: option.split_asm sum.split_asm if_split_asm)
  moreover have "run_wf (r\<lparr>rn_resume_source := Some k\<rparr>)" using assms by (simp add: run_wf_def)
  ultimately show ?thesis using execute_moves [of "r\<lparr>rn_resume_source := Some k\<rparr>" "with_stops None None env" k]
    by (auto simp: run_after_def)
qed

lemma resume_run_wf: "run_wf r \<Longrightarrow> run_wf (fst (resume_run env r))"
  using resume_moves by blast

lemma resume_run_after: "run_wf r \<Longrightarrow> run_after r (fst (resume_run env r))"
  using resume_moves by blast

lemma run_after_trans: "run_after r s \<Longrightarrow> run_after s t \<Longrightarrow> run_after r t"
  by (auto simp: run_after_def)

interpretation training_runs: run_order "\<lambda>env r. fst (resume_run env r)" run_after run_wf
  by unfold_locales (simp add: resume_run_wf, simp add: run_after_def, erule (1) run_after_trans, erule resume_run_after)

lemma new_run_wf: "run_wf (new_run c run_id)"
  by (simp add: run_wf_def new_run_def)

lemma run_experiment_wf:
  assumes "fst (run_experiment env c run_id) = Some r"
  shows "run_wf r"
proof -
  have "run_wf (set_status RunFailed (new_run c run_id))" and "run_wf (fst (execute env 0 (new_run c run_id)))"
    using set_status_wf [OF new_run_wf] execute_moves [OF new_run_wf] by (simp_all add: new_run_def)
  then show ?thesis using assms
    by (auto simp: run_experiment_def split: sum.split_asm option.split_asm prod.split_asm)
qed



text \<open>
  What raises between the mark \<open>running\<close> and the \<open>try\<close> leaves the run marked so, and no resume takes it
  up again: here PyTorch has gone since the run was made.
\<close>

lemma early_error_strands_run:
  assumes "\<not> is_mock (rn_config r)" and "\<not> re_torch env" and "fst (resume_run env r) \<noteq> r"
  shows "rn_status (fst (resume_run env r)) = RunRunning
    \<and> fold (\<lambda>env r. fst (resume_run env r)) envs (fst (resume_run env r)) = fst (resume_run env r)"
proof -
  obtain k where "fst (resume_run env r) = fst (execute (with_stops None None env) k (r\<lparr>rn_resume_source := Some k\<rparr>))"
    using assms(3) by (auto simp: resume_run_def Let_def split: option.split_asm sum.split_asm if_split_asm)
  then have running: "rn_status (fst (resume_run env r)) = RunRunning"
    using assms(1,2) by (simp add: execute_def Let_def set_status_def with_stops_def)
  have "fst (resume_run e q) = q" if "rn_status q = RunRunning" for e q
    using that by (auto simp: resume_run_def Let_def split: option.split sum.split)
  then have "fold (\<lambda>env r. fst (resume_run env r)) envs q = q" if "rn_status q = RunRunning" for q
    using that by (induction envs) simp_all
  then show ?thesis using running by blast
qed

text \<open>
  With room for one checkpoint and the best one kept, a checkpoint worse than the best is deleted as it
  is saved, and loading it fails.
\<close>

lemma single_checkpoint_kills_run:
  "save_checkpoint (short_run\<lparr>ec_save_total_limit := 1\<rparr>) ''r'' 2 [(''loss'', 2)]
     [\<lparr>ck_step = 1, ck_metrics = [(''loss'', 1)], ck_identity = [], ck_is_best = True\<rparr>]
   = ([\<lparr>ck_step = 1, ck_metrics = [(''loss'', 1)], ck_identity = [], ck_is_best = True\<rparr>],
      Inl (RunValueError ''Invalid JSON artifact''))"
  by (simp add: save_checkpoint_def mark_best_and_retain_def list_checkpoints_def find_checkpoint_def
      best_checkpoint_def metric_of_def short_run_def Let_def)

end
